(* ===== verification/Prelude.thy ===== *)
theory Prelude
  imports Main "HOL-Library.Word"
begin

text \<open>
  Vocabulary shared by every component of the model: bytes and packets, the \<open>Error\<close> class
  with its code and message, the error monad the components are written in (\<open>throw\<close> is
  \<open>Inl\<close>), conversions between \<open>char\<close> and byte, bounded words, and the generic lemmas
  on lists and on the monad.  The locale \<open>transition_system\<close> at the end is the
  interface of every stateful component: a step, an invariant the step keeps, and the
  lemma that runs of steps keep it.
\<close>

unbundle bit_operations_syntax

named_theorems result_simps \<open>inversion rules for results of the error monad\<close>

section \<open>Bytes, packets, errors\<close>

type_synonym byte = "8 word"
type_synonym packet = "byte list"

text \<open>\<open>nd::Error\<close>: an error code and a message (\<open>include/nativedns/config.hpp\<close>).\<close>

datatype error = Error (err_code: string) (err_msg: string)

abbreviation malformed :: "string \<Rightarrow> error" where
  "malformed m \<equiv> Error ''DNS_MALFORMED'' m"

section \<open>The error monad\<close>

text \<open>
  A function of the source that may throw returns \<open>error + 'a\<close>.  \<open>bindE m f\<close> runs
  \<open>m\<close> and then \<open>f\<close> on its value, \<open>requireE c e\<close> throws \<open>e\<close> unless \<open>c\<close>, \<open>mapE\<close> and
  \<open>foldE\<close> are loops over a list whose body may throw, and \<open>catchE\<close> is a \<open>catch\<close> block.
\<close>

definition bindE :: "'e + 'a \<Rightarrow> ('a \<Rightarrow> 'e + 'b) \<Rightarrow> 'e + 'b" where
  "bindE m f = (case m of Inl e \<Rightarrow> Inl e | Inr x \<Rightarrow> f x)"

definition requireE :: "bool \<Rightarrow> 'e \<Rightarrow> 'e + unit" where
  "requireE c e = (if c then Inr () else Inl e)"

definition catchE :: "'e + 'a \<Rightarrow> ('e \<Rightarrow> 'e + 'a) \<Rightarrow> 'e + 'a" where
  "catchE m h = (case m of Inl e \<Rightarrow> h e | Inr x \<Rightarrow> Inr x)"

fun mapE :: "('a \<Rightarrow> 'e + 'b) \<Rightarrow> 'a list \<Rightarrow> 'e + 'b list" where
  "mapE f [] = Inr []"
| "mapE f (x # xs) = bindE (f x) (\<lambda>y. bindE (mapE f xs) (\<lambda>ys. Inr (y # ys)))"

fun foldE :: "('a \<Rightarrow> 's \<Rightarrow> 'e + 's) \<Rightarrow> 'a list \<Rightarrow> 's \<Rightarrow> 'e + 's" where
  "foldE f [] s = Inr s"
| "foldE f (x # xs) s = bindE (f x s) (foldE f xs)"

lemma bindE_simps [simp]:
  "bindE (Inl e) f = Inl e"
  "bindE (Inr x) f = f x"
  by (simp_all add: bindE_def)

lemma bindE_Inr_iff [simp, result_simps]:
  "bindE m f = Inr y \<longleftrightarrow> (\<exists>x. m = Inr x \<and> f x = Inr y)"
  by (cases m) simp_all

lemma bindE_InrE:
  "bindE m f = Inr y \<Longrightarrow> (\<And>x. m = Inr x \<Longrightarrow> f x = Inr y \<Longrightarrow> thesis) \<Longrightarrow> thesis"
  by auto

lemma bindE_Inl_iff [result_simps]:
  "bindE m f = Inl e \<longleftrightarrow> m = Inl e \<or> (\<exists>x. m = Inr x \<and> f x = Inl e)"
  by (cases m) auto

lemma bindE_assoc: "bindE (bindE m f) g = bindE m (\<lambda>x. bindE (f x) g)"
  by (cases m) simp_all

lemma bindE_cong [fundef_cong]:
  assumes "m = m'" "\<And>x. m' = Inr x \<Longrightarrow> f x = f' x"
  shows "bindE m f = bindE m' f'"
  using assms by (cases m') simp_all

lemma requireE_simps [simp]:
  "requireE True e = Inr ()"
  "requireE False e = Inl e"
  by (simp_all add: requireE_def)

lemma requireE_Inr_iff [simp, result_simps]: "requireE c e = Inr u \<longleftrightarrow> c"
  by (simp add: requireE_def)

lemma requireE_Inl_iff [result_simps]: "requireE c e = Inl e' \<longleftrightarrow> \<not> c \<and> e' = e"
  by (auto simp: requireE_def)

lemma catchE_simps [simp]:
  "catchE (Inl e) h = h e"
  "catchE (Inr x) h = Inr x"
  by (simp_all add: catchE_def)

lemma foldE_append: "foldE f (xs @ ys) s = bindE (foldE f xs s) (foldE f ys)"
proof (induction xs arbitrary: s)
  case (Cons x xs)
  then show ?case by (cases "f x s") simp_all
qed simp

lemma foldE_invariant:
  assumes "foldE f xs s = Inr s'" "P s"
    and "\<And>x s s'. x \<in> set xs \<Longrightarrow> P s \<Longrightarrow> f x s = Inr s' \<Longrightarrow> P s'"
  shows "P s'"
  using assms
proof (induction xs arbitrary: s)
  case Nil
  then show ?case by simp
next
  case (Cons x xs)
  from Cons.prems(1) obtain t where t: "f x s = Inr t" "foldE f xs t = Inr s'"
    by auto
  have "P t" using Cons.prems(2,3) t(1) by auto
  then show ?case using Cons.IH [OF t(2)] Cons.prems(3) by auto
qed

lemma mapE_length: "mapE f xs = Inr ys \<Longrightarrow> length ys = length xs"
  by (induction xs arbitrary: ys) auto

lemma mapE_Inr_iff:
  "mapE f xs = Inr ys \<longleftrightarrow> list_all2 (\<lambda>x y. f x = Inr y) xs ys"
  by (induction xs arbitrary: ys) (auto simp: list_all2_Cons1)

lemma mapE_Inr_map: "(\<And>x. x \<in> set xs \<Longrightarrow> f x = Inr (g x)) \<Longrightarrow> mapE f xs = Inr (map g xs)"
  by (induction xs) auto

text \<open>
  \<open>postE m P\<close>: if \<open>m\<close> returns, \<open>P\<close> holds of the value.  The rules \<open>postE_intros\<close> walk
  through the text of a function.
\<close>

definition postE :: "'e + 'a \<Rightarrow> ('a \<Rightarrow> bool) \<Rightarrow> bool" where
  "postE m P \<longleftrightarrow> (\<forall>x. m = Inr x \<longrightarrow> P x)"

lemma postE_D: "postE m P \<Longrightarrow> m = Inr x \<Longrightarrow> P x"
  by (simp add: postE_def)

lemma postE_intros:
  "P x \<Longrightarrow> postE (Inr x) P"
  "postE (Inl e) P"
  "(\<And>x. m = Inr x \<Longrightarrow> postE (f x) P) \<Longrightarrow> postE (bindE m f) P"
  "(c \<Longrightarrow> postE a P) \<Longrightarrow> (\<not> c \<Longrightarrow> postE b P) \<Longrightarrow> postE (if c then a else b) P"
  "(\<And>x. x = v \<Longrightarrow> postE (g x) P) \<Longrightarrow> postE (Let v g) P"
  "(\<And>x y. pr = (x, y) \<Longrightarrow> postE (h x y) P) \<Longrightarrow> postE (case pr of (x, y) \<Rightarrow> h x y) P"
  by (auto simp: postE_def split: prod.splits)

text \<open>\<open>failE m P\<close>: if \<open>m\<close> throws, \<open>P\<close> holds of the error; the companion of \<open>postE\<close>.\<close>

definition failE :: "'e + 'a \<Rightarrow> ('e \<Rightarrow> bool) \<Rightarrow> bool" where
  "failE m P \<longleftrightarrow> (\<forall>e. m = Inl e \<longrightarrow> P e)"

lemma failE_D: "failE m P \<Longrightarrow> m = Inl e \<Longrightarrow> P e"
  by (simp add: failE_def)

lemma failE_intros:
  "failE (Inr x) P"
  "P e \<Longrightarrow> failE (Inl e) P"
  "failE m P \<Longrightarrow> (\<And>x. m = Inr x \<Longrightarrow> failE (f x) P) \<Longrightarrow> failE (bindE m f) P"
  "(\<not> c \<Longrightarrow> P e) \<Longrightarrow> failE (requireE c e) P"
  "(c \<Longrightarrow> failE a P) \<Longrightarrow> (\<not> c \<Longrightarrow> failE b P) \<Longrightarrow> failE (if c then a else b) P"
  "(\<And>x. x = v \<Longrightarrow> failE (g x) P) \<Longrightarrow> failE (Let v g) P"
  "(\<And>x y. pr = (x, y) \<Longrightarrow> failE (h x y) P) \<Longrightarrow> failE (case pr of (x, y) \<Rightarrow> h x y) P"
  by (auto simp: failE_def bindE_Inl_iff requireE_Inl_iff split: prod.splits)

section \<open>Characters and bytes\<close>

text \<open>
  A \<open>std::string\<close> holds bytes; a \<open>char\<close> of HOL is exactly a byte.  \<open>chr\<close> and \<open>ord\<close> are
  the casts between \<open>uint8_t\<close> and \<open>char\<close>.
\<close>

definition chr :: "byte \<Rightarrow> char" where
  "chr b = char_of (unat b)"

definition ord :: "char \<Rightarrow> byte" where
  "ord c = word_of_nat (of_char c)"

definition code :: "char \<Rightarrow> nat" where
  "code c = of_char c"

lemma code_less [simp]: "code c < 256"
  by (simp add: code_def)

lemma unat_ord [simp]: "unat (ord c) = code c"
  using code_less [of c] by (simp add: ord_def code_def unat_of_nat)

lemma byte_less [simp]: "unat (b :: byte) < 256"
  using unsigned_less [of b] by simp

lemma code_chr [simp]: "code (chr b) = unat b"
  by (simp add: chr_def code_def)

lemma chr_ord [simp]: "chr (ord c) = c"
  by (simp add: chr_def) (simp add: code_def)

lemma ord_chr [simp]: "ord (chr b) = b"
  by (simp add: ord_def flip: code_def)

lemma code_inj: "code c = code d \<longleftrightarrow> c = d"
  by (simp add: code_def)

lemma ord_inj [simp]: "ord c = ord d \<longleftrightarrow> c = d"
  by (metis chr_ord)

lemma chr_inj [simp]: "chr a = chr b \<longleftrightarrow> a = b"
  by (metis ord_chr)

text \<open>\<open>c + ('a' - 'A')\<close> on the letters \<open>A\<close>..\<open>Z\<close>, the identity elsewhere.\<close>

definition lower_ascii :: "char \<Rightarrow> char" where
  "lower_ascii c = (if 65 \<le> code c \<and> code c \<le> 90 then char_of (code c + 32) else c)"

lemma code_char_of [simp]: "n < 256 \<Longrightarrow> code (char_of n) = n"
  by (simp add: code_def)

lemma code_lower_ascii:
  "code (lower_ascii c) = (if 65 \<le> code c \<and> code c \<le> 90 then code c + 32 else code c)"
  by (simp add: lower_ascii_def)

lemma lower_ascii_idem [simp]: "lower_ascii (lower_ascii c) = lower_ascii c"
  by (auto simp: lower_ascii_def)

section \<open>Words\<close>

lemma unat_ucast_byte_16 [simp]: "unat (ucast (b :: byte) :: 16 word) = unat b"
  by (simp add: unsigned_ucast_eq take_bit_nat_eq_self_iff less_trans [OF byte_less])

lemma unat_ucast_byte_32 [simp]: "unat (ucast (b :: byte) :: 32 word) = unat b"
  by (simp add: unsigned_ucast_eq take_bit_nat_eq_self_iff less_trans [OF byte_less])

section \<open>Interfaces\<close>

text \<open>
  A stateful component: \<open>step a s\<close> is what operation \<open>a\<close> does to state \<open>s\<close> (it may throw,
  leaving the state as it was), \<open>inv\<close> is kept by every operation that returns.
  \<open>run\<close> executes a sequence of operations, skipping those that throw, as a caller that
  catches the exception does.
\<close>

locale transition_system =
  fixes step :: "'op \<Rightarrow> 's \<Rightarrow> 'e + 's"
    and inv :: "'s \<Rightarrow> bool"
  assumes step_inv: "inv s \<Longrightarrow> step a s = Inr s' \<Longrightarrow> inv s'"
begin

fun run :: "'op list \<Rightarrow> 's \<Rightarrow> 's" where
  "run [] s = s"
| "run (a # as) s = run as (case step a s of Inl e \<Rightarrow> s | Inr s' \<Rightarrow> s')"

lemma run_inv: "inv s \<Longrightarrow> inv (run as s)"
proof (induction as arbitrary: s)
  case (Cons a as)
  then show ?case by (cases "step a s") (auto intro: step_inv)
qed simp

lemma foldE_inv: "inv s \<Longrightarrow> foldE step as s = Inr s' \<Longrightarrow> inv s'"
  by (rule foldE_invariant [where P = inv and f = step]) (auto intro: step_inv)

end

text \<open>
  The same for a step relation: what holds at first and is kept by every step holds in every
  reachable state.
\<close>

locale step_system =
  fixes start :: "'s" and steps :: "'s \<Rightarrow> 's \<Rightarrow> bool" and inv :: "'s \<Rightarrow> bool"
  assumes start_inv: "inv start"
    and steps_inv: "inv s \<Longrightarrow> steps s s' \<Longrightarrow> inv s'"
begin

lemma reachable_inv: "steps\<^sup>*\<^sup>* start s \<Longrightarrow> inv s"
  by (induction rule: rtranclp_induct) (auto intro: start_inv steps_inv)

end

text \<open>An encoder and a decoder that recovers every value of \<open>dom\<close>.\<close>

locale codec =
  fixes enc :: "'a \<Rightarrow> 'e + 'b" and dec :: "'b \<Rightarrow> 'e + 'a" and dom :: "'a \<Rightarrow> bool"
  assumes enc_dom: "enc x = Inr y \<Longrightarrow> dom x"
    and dec_enc: "enc x = Inr y \<Longrightarrow> dec y = Inr x"
begin

lemma enc_inj: "enc x = Inr y \<Longrightarrow> enc x' = Inr y \<Longrightarrow> x = x'"
  using dec_enc [of x y] dec_enc [of x' y] by simp

end

end
