(* ===== verification/Utf8.thy ===== *)
theory Utf8
  imports Prelude
begin

text \<open>
  UTF-8 and wide strings of \<open>src/rules.cpp\<close>: \<open>decode_utf8\<close>, \<open>append_utf8\<close>, \<open>widen\<close> and
  \<open>narrow\<close>.  The decoder accepts exactly the canonical encodings of Unicode scalar values:
  \<open>decode_utf8\<close> and \<open>append_utf8\<close> are inverse to each other in both directions.  The flag
  \<open>wide16\<close> stands for \<open>sizeof(wchar_t) == 2\<close> (Windows); code units are 32-bit words.
\<close>

section \<open>UTF-8\<close>

text \<open>The continuation bytes of a sequence: \<open>extra\<close> of them are folded into \<open>cp\<close>.\<close>

fun utf8_continue :: "byte list \<Rightarrow> 32 word \<Rightarrow> error + 32 word" where
  "utf8_continue [] cp = Inr cp"
| "utf8_continue (b # bs) cp =
     (if b AND 0xC0 \<noteq> 0x80 then Inl (Error ''UTF8'' ''Invalid UTF-8 continuation byte'')
      else utf8_continue bs (push_bit 6 cp OR ucast (b AND 0x3F)))"

definition utf8_lead :: "byte \<Rightarrow> error + 32 word \<times> nat" where
  "utf8_lead c =
     (if c < 0x80 then Inr (ucast c, 0)
      else if c AND 0xE0 = 0xC0 then
        (if (ucast (c AND 0x1F) :: 32 word) < 2 then Inl (Error ''UTF8'' ''Overlong UTF-8'')
         else Inr (ucast (c AND 0x1F), 1))
      else if c AND 0xF0 = 0xE0 then Inr (ucast (c AND 0x0F), 2)
      else if c AND 0xF8 = 0xF0 then Inr (ucast (c AND 0x07), 3)
      else Inl (Error ''UTF8'' ''Invalid UTF-8 leading byte''))"

text \<open>\<open>decode_utf8\<close>, on the bytes that remain.\<close>

function decode_utf8 :: "byte list \<Rightarrow> error + 32 word list" where
  "decode_utf8 [] = Inr []"
| "decode_utf8 (c # bs) =
     bindE (utf8_lead c) (\<lambda>(cp, extra).
     bindE (requireE (extra \<le> length bs) (Error ''UTF8'' ''Truncated UTF-8'')) (\<lambda>_.
     bindE (utf8_continue (take extra bs) cp) (\<lambda>cp.
     bindE (requireE (\<not> (extra = 2 \<and> cp < 0x800 \<or> extra = 3 \<and> cp < 0x10000 \<or>
                        cp > 0x10FFFF \<or> (cp \<ge> 0xD800 \<and> cp \<le> 0xDFFF)))
              (Error ''UTF8'' ''Invalid UTF-8 code point'')) (\<lambda>_.
     bindE (decode_utf8 (drop extra bs)) (\<lambda>out. Inr (cp # out))))))"
  by pat_completeness auto
termination
  by (relation "measure length") auto

definition append_utf8 :: "32 word \<Rightarrow> byte list" where
  "append_utf8 cp =
     (if cp \<le> 0x7F then [ucast cp]
      else if cp \<le> 0x7FF then
        [ucast (0xC0 OR drop_bit 6 cp), ucast (0x80 OR (cp AND 0x3F))]
      else if cp \<le> 0xFFFF then
        [ucast (0xE0 OR drop_bit 12 cp), ucast (0x80 OR (drop_bit 6 cp AND 0x3F)),
         ucast (0x80 OR (cp AND 0x3F))]
      else
        [ucast (0xF0 OR drop_bit 18 cp), ucast (0x80 OR (drop_bit 12 cp AND 0x3F)),
         ucast (0x80 OR (drop_bit 6 cp AND 0x3F)), ucast (0x80 OR (cp AND 0x3F))])"


declare utf8_continue.simps(2) [simp del]

lemma bit_below:
  assumes "unat (cp :: 32 word) < 2 ^ k" "bit cp n"
  shows "n < k"
proof -
  have "bit (unat cp) n" using assms(2) by (simp add: bit_unsigned_iff)
  then have "bit (take_bit k (unat cp)) n" using assms(1) by (simp add: take_bit_nat_eq_self)
  then show ?thesis by (simp add: bit_take_bit_iff)
qed

section \<open>Round trips\<close>

lemma word_cases_below:
  assumes "list_all P (map of_nat [0..<n])" "unat (y :: 'a::len word) < n"
  shows "P y"
proof -
  have "unat y \<in> set [0..<n]" using assms(2) by simp
  then have "P (of_nat (unat y))" using assms(1) by (auto simp: list_all_iff simp del: set_upt)
  then show ?thesis by simp
qed

lemma utf8_continue_byte:
  assumes "unat (y :: 32 word) < 64"
  shows "utf8_continue (ucast (0x80 OR y) # bs) cp = utf8_continue bs (push_bit 6 cp OR y)"
proof -
  have "ucast (0x80 OR y) AND (0xC0 :: byte) = 0x80 \<and> ucast (ucast (0x80 OR y) AND (0x3F :: byte)) = y"
    by (rule word_cases_below [OF _ assms]) code_simp
  then show ?thesis by (simp add: utf8_continue.simps(2))
qed

lemma utf8_lead_1:
  assumes "unat (y :: 32 word) < 128"
  shows "utf8_lead (ucast y) = Inr (y, 0)"
proof -
  have "ucast y < (0x80 :: byte) \<and> ucast (ucast y :: byte) = y"
    by (rule word_cases_below [OF _ assms]) code_simp
  then show ?thesis by (simp add: utf8_lead_def)
qed

lemma utf8_lead_2:
  assumes "unat (y :: 32 word) < 32" "\<not> y < 2"
  shows "utf8_lead (ucast (0xC0 OR y)) = Inr (y, 1)"
proof -
  have "\<not> ucast (0xC0 OR y) < (0x80 :: byte) \<and> ucast (0xC0 OR y) AND (0xE0 :: byte) = 0xC0 \<and>
     ucast (ucast (0xC0 OR y) AND (0x1F :: byte)) = y"
    by (rule word_cases_below [OF _ assms(1)]) code_simp
  then show ?thesis using assms(2) by (simp add: utf8_lead_def)
qed

lemma utf8_lead_3:
  assumes "unat (y :: 32 word) < 16"
  shows "utf8_lead (ucast (0xE0 OR y)) = Inr (y, 2)"
proof -
  have "\<not> ucast (0xE0 OR y) < (0x80 :: byte) \<and> ucast (0xE0 OR y) AND (0xE0 :: byte) \<noteq> 0xC0 \<and>
     ucast (0xE0 OR y) AND (0xF0 :: byte) = 0xE0 \<and> ucast (ucast (0xE0 OR y) AND (0x0F :: byte)) = y"
    by (rule word_cases_below [OF _ assms]) code_simp
  then show ?thesis by (simp add: utf8_lead_def)
qed

lemma utf8_lead_4:
  assumes "unat (y :: 32 word) < 8"
  shows "utf8_lead (ucast (0xF0 OR y)) = Inr (y, 3)"
proof -
  have "\<not> ucast (0xF0 OR y) < (0x80 :: byte) \<and> ucast (0xF0 OR y) AND (0xE0 :: byte) \<noteq> 0xC0 \<and>
     ucast (0xF0 OR y) AND (0xF0 :: byte) \<noteq> 0xE0 \<and> ucast (0xF0 OR y) AND (0xF8 :: byte) = 0xF0 \<and>
     ucast (ucast (0xF0 OR y) AND (0x07 :: byte)) = y"
    by (rule word_cases_below [OF _ assms]) code_simp
  then show ?thesis by (simp add: utf8_lead_def)
qed

lemma six_bits: "unat ((x :: 32 word) AND 0x3F) < 64"
proof -
  have "x AND 0x3F = take_bit 6 x" by (simp add: take_bit_eq_mask mask_eq_exp_minus_1)
  then show ?thesis using take_bit_nat_less_exp [of 6 "unat x"] by (simp add: unsigned_take_bit_eq)
qed

lemma unat_drop_bit: "unat (drop_bit n (x :: 32 word)) = unat x div 2 ^ n"
  using take_bit_nat_eq_self [OF unsigned_less [of x]] unfolding unsigned_drop_bit_eq
  by (simp add: drop_bit_eq_div)

lemma join_six: "push_bit 6 (drop_bit (n + 6) x) OR (drop_bit n x AND 0x3F) = drop_bit n (x :: 32 word)"
proof -
  have "drop_bit n x AND 0x3F = take_bit 6 (drop_bit n x)"
    by (simp add: take_bit_eq_mask mask_eq_exp_minus_1)
  then show ?thesis by (auto simp: bit_eq_iff bit_simps)
qed

lemmas join_sixes =
  join_six [of 0, simplified] join_six [of 6, simplified] join_six [of 12, simplified]

definition scalar :: "32 word \<Rightarrow> bool" where
  "scalar cp \<longleftrightarrow> cp \<le> 0x10FFFF \<and> \<not> (0xD800 \<le> cp \<and> cp \<le> 0xDFFF)"

lemma decode_append_utf8:
  assumes "scalar cp"
  shows "decode_utf8 (append_utf8 cp @ bs) = bindE (decode_utf8 bs) (\<lambda>out. Inr (cp # out))"
proof -
  have n: "unat cp \<le> 0x10FFFF" using assms by (simp add: scalar_def word_le_nat_alt)
  have ok: "\<not> (cp > 0x10FFFF \<or> (cp \<ge> 0xD800 \<and> cp \<le> 0xDFFF))"
    using assms by (auto simp: scalar_def not_less)
  have fold: "decode_utf8 (b # cs @ bs) = bindE (decode_utf8 bs) (\<lambda>out. Inr (cp # out))"
    if "utf8_lead b = Inr (c, length cs)" "utf8_continue cs c = Inr cp"
      "\<not> (length cs = 2 \<and> cp < 0x800 \<or> length cs = 3 \<and> cp < 0x10000)" for b c cs
    using that ok by (subst decode_utf8.simps) auto
  consider "cp \<le> 0x7F" | "\<not> cp \<le> 0x7F" "cp \<le> 0x7FF"
    | "\<not> cp \<le> 0x7F" "\<not> cp \<le> 0x7FF" "cp \<le> 0xFFFF"
    | "\<not> cp \<le> 0x7F" "\<not> cp \<le> 0x7FF" "\<not> cp \<le> 0xFFFF"
    by blast
  then show ?thesis
  proof cases
    case 1
    then have "utf8_lead (ucast cp) = Inr (cp, 0)"
      by (intro utf8_lead_1) (simp add: word_le_nat_alt)
    with fold [of "ucast cp" cp "[]"] 1 show ?thesis by (simp add: append_utf8_def)
  next
    case 2
    then have "utf8_lead (ucast (0xC0 OR drop_bit 6 cp)) = Inr (drop_bit 6 cp, 1)"
      by (intro utf8_lead_2) (simp_all add: word_le_nat_alt word_less_nat_alt unat_drop_bit)
    moreover have "utf8_continue [ucast (0x80 OR (cp AND 0x3F))] (drop_bit 6 cp) = Inr cp"
      by (simp only: utf8_continue_byte six_bits utf8_continue.simps(1) join_sixes)
    ultimately have "decode_utf8 (ucast (0xC0 OR drop_bit 6 cp) # [ucast (0x80 OR (cp AND 0x3F))] @ bs) =
      bindE (decode_utf8 bs) (\<lambda>out. Inr (cp # out))" by (intro fold) simp_all
    then show ?thesis using 2 by (simp add: append_utf8_def  del: decode_utf8.simps)
  next
    case 3
    let ?cs = "[ucast (0x80 OR (drop_bit 6 cp AND 0x3F)), ucast (0x80 OR (cp AND 0x3F))]"
    have "utf8_lead (ucast (0xE0 OR drop_bit 12 cp)) = Inr (drop_bit 12 cp, 2)"
      using 3 by (intro utf8_lead_3) (simp add: word_le_nat_alt unat_drop_bit)
    moreover have "\<not> cp < 0x800" using 3 by (simp add: word_le_nat_alt word_less_nat_alt)
    moreover have "utf8_continue ?cs (drop_bit 12 cp) = Inr cp"
      by (simp only: utf8_continue_byte six_bits utf8_continue.simps(1) join_sixes)
    ultimately have "decode_utf8 (ucast (0xE0 OR drop_bit 12 cp) # ?cs @ bs) =
      bindE (decode_utf8 bs) (\<lambda>out. Inr (cp # out))" by (intro fold) simp_all
    then show ?thesis using 3 by (simp add: append_utf8_def  del: decode_utf8.simps)
  next
    case 4
    let ?cs = "[ucast (0x80 OR (drop_bit 12 cp AND 0x3F)),
      ucast (0x80 OR (drop_bit 6 cp AND 0x3F)), ucast (0x80 OR (cp AND 0x3F))]"
    have "utf8_lead (ucast (0xF0 OR drop_bit 18 cp)) = Inr (drop_bit 18 cp, 3)"
      using n by (intro utf8_lead_4) (simp add: unat_drop_bit)
    moreover have "\<not> cp < 0x10000" using 4 by (simp add: word_le_nat_alt word_less_nat_alt)
    moreover have "utf8_continue ?cs (drop_bit 18 cp) = Inr cp"
      by (simp only: utf8_continue_byte six_bits utf8_continue.simps(1) join_sixes)
    ultimately have "decode_utf8 (ucast (0xF0 OR drop_bit 18 cp) # ?cs @ bs) =
      bindE (decode_utf8 bs) (\<lambda>out. Inr (cp # out))" by (intro fold) simp_all
    then show ?thesis using 4 by (simp add: append_utf8_def  del: decode_utf8.simps)
  qed
qed

lemma take_six: "unat ((x :: 32 word) AND 0x3F) = unat x mod 64"
proof -
  have "x AND 0x3F = take_bit 6 x" by (simp add: take_bit_eq_mask mask_eq_exp_minus_1)
  then have "unat (x AND 0x3F) = take_bit 6 (unat x)" by (simp only: unsigned_take_bit_eq)
  then show ?thesis by (simp add: take_bit_eq_mod)
qed

lemma six_parts:
  assumes "unat (z :: 32 word) = unat x * 64 + unat (y :: 32 word)" "unat y < 64"
  shows "drop_bit 6 z = (x :: 32 word)" "z AND 0x3F = y"
proof -
  have "unat (drop_bit 6 z) = unat x" using assms by (simp add: unat_drop_bit)
  then show "drop_bit 6 z = x" by (simp only: unsigned_word_eqI)
  have "unat (z AND 0x3F) = unat y" using assms by (simp add: take_six)
  then show "z AND 0x3F = y" by (simp only: unsigned_word_eqI)
qed

lemma append_six:
  assumes "unat (x :: 32 word) < 2 ^ 26" "unat (y :: 32 word) < 64"
  shows "unat (push_bit 6 x OR y) = unat x * 64 + unat y"
    and "drop_bit 6 (push_bit 6 x OR y) = x"
    and "(push_bit 6 x OR y) AND 0x3F = y"
proof -
  have "\<not> bit y n" if "6 \<le> n" for n
    using bit_below [of y 6 n] assms(2) that by auto
  then have "push_bit 6 x OR y = push_bit 6 x + y"
    by (intro disjunctive_add [symmetric]) (auto simp: bit_simps not_le)
  moreover have "unat (push_bit 6 x) = unat x * 64"
    using assms(1) by (simp add: push_bit_eq_mult unat_word_ariths)
  ultimately show u: "unat (push_bit 6 x OR y) = unat x * 64 + unat y"
    using assms by (simp add: unat_word_ariths)
  show "drop_bit 6 (push_bit 6 x OR y) = x" "(push_bit 6 x OR y) AND 0x3F = y"
    using six_parts [OF u assms(2)] .
qed

lemma cont_inv:
  assumes "b AND 0xC0 = (0x80 :: byte)"
  shows "ucast (0x80 OR ucast (b AND 0x3F) :: 32 word) = b \<and> unat (ucast (b AND 0x3F) :: 32 word) < 64"
proof -
  have "b AND 0xC0 = (0x80 :: byte) \<longrightarrow>
    ucast (0x80 OR ucast (b AND 0x3F) :: 32 word) = b \<and> unat (ucast (b AND 0x3F) :: 32 word) < 64"
    by (rule word_cases_below [OF _ byte_less]) code_simp
  with assms show ?thesis by blast
qed

lemma utf8_lead_inv:
  assumes "utf8_lead b = Inr (c, k)"
  shows "k = 0 \<and> ucast c = b \<and> unat c < 128 \<or>
    k = 1 \<and> ucast (0xC0 OR c) = b \<and> 2 \<le> unat c \<and> unat c < 32 \<or>
    k = 2 \<and> ucast (0xE0 OR c) = b \<and> unat c < 16 \<or>
    k = 3 \<and> ucast (0xF0 OR c) = b \<and> unat c < 8"
proof -
  have "(case utf8_lead b of Inl e \<Rightarrow> True | Inr (c, k) \<Rightarrow>
    k = 0 \<and> ucast c = b \<and> unat c < 128 \<or>
    k = 1 \<and> ucast (0xC0 OR c) = b \<and> 2 \<le> unat c \<and> unat c < 32 \<or>
    k = 2 \<and> ucast (0xE0 OR c) = b \<and> unat c < 16 \<or>
    k = 3 \<and> ucast (0xF0 OR c) = b \<and> unat c < 8)"
    by (rule word_cases_below [OF _ byte_less]) code_simp
  with assms show ?thesis by simp
qed

lemma utf8_continue_inv:
  assumes "utf8_continue (b # bs) c = Inr cp"
  shows "\<exists>y. unat y < 64 \<and> b = ucast (0x80 OR y) \<and> utf8_continue bs (push_bit 6 c OR y) = Inr cp"
  using assms cont_inv [of b] by (intro exI [of _ "ucast (b AND 0x3F)"]) (auto simp: utf8_continue.simps(2) split: if_splits)

lemma take_1_Cons: "1 \<le> length xs \<Longrightarrow> \<exists>a. take 1 xs = [a]"
  by (cases xs) auto

lemma take_2_Cons: "2 \<le> length xs \<Longrightarrow> \<exists>a b. take 2 xs = [a, b]"
  by (cases xs; cases "tl xs") (auto simp: numeral_2_eq_2)

lemma take_3_Cons: "3 \<le> length xs \<Longrightarrow> \<exists>a b c. take 3 xs = [a, b, c]"
  by (cases xs; cases "tl xs"; cases "tl (tl xs)") (auto simp: numeral_3_eq_3)

lemma append_decode_step:
  assumes "utf8_lead b = Inr (c, k)" "k \<le> length bs" "utf8_continue (take k bs) c = Inr cp"
    and "\<not> (k = 2 \<and> cp < 0x800 \<or> k = 3 \<and> cp < 0x10000 \<or> cp > 0x10FFFF)"
  shows "append_utf8 cp = b # take k bs"
  using utf8_lead_inv [OF assms(1)]
proof (elim disjE conjE)
  assume "k = 0" "ucast c = b" "unat c < 128"
  then show ?thesis using assms by (simp add: append_utf8_def word_le_nat_alt)
next
  assume k: "k = 1" and b: "ucast (0xC0 OR c) = b" and c: "2 \<le> unat c" "unat c < 32"
  obtain b1 where t: "take k bs = [b1]" using take_1_Cons assms(2) k by blast
  from assms(3) obtain y where y: "unat y < 64" "b1 = ucast (0x80 OR y)" "cp = push_bit 6 c OR y"
    unfolding t by (auto dest!: utf8_continue_inv)
  note six = append_six [of c y]
  have "unat cp = unat c * 64 + unat y" using six(1) c y by simp
  then have "\<not> cp \<le> 0x7F" "cp \<le> 0x7FF" using c y(1) by (auto simp: word_le_nat_alt)
  then show ?thesis using six(2,3) c y(1,2) b
    unfolding t append_utf8_def y(3) [symmetric] by simp
next
  assume k: "k = 2" and b: "ucast (0xE0 OR c) = b" and c: "unat c < 16"
  obtain b1 b2 where t: "take k bs = [b1, b2]" using take_2_Cons assms(2) k by blast
  from assms(3) obtain y z where y: "unat y < 64" "b1 = ucast (0x80 OR y)"
    and z: "unat z < 64" "b2 = ucast (0x80 OR z)" and cp: "cp = push_bit 6 (push_bit 6 c OR y) OR z"
    unfolding t by (auto dest!: utf8_continue_inv)
  let ?x = "push_bit 6 c OR y"
  note s1 = append_six [of c y] and s2 = append_six [of ?x z]
  have u: "unat ?x = unat c * 64 + unat y" using s1(1) c y by simp
  have ucp: "unat cp = unat ?x * 64 + unat z" unfolding cp using s2(1) u c y z by simp
  have d6: "drop_bit 6 cp = ?x" "cp AND 0x3F = z" unfolding cp using s2(2,3) u c y z by simp_all
  have "drop_bit 12 cp = drop_bit 6 (drop_bit 6 cp)" by simp
  then have d12: "drop_bit 12 cp = c" "?x AND 0x3F = y" using d6(1) s1(2,3) c y by simp_all
  have "\<not> cp \<le> 0x7F" "\<not> cp \<le> 0x7FF" "cp \<le> 0xFFFF"
    using assms(4) k ucp u c y(1) z(1) by (auto simp: word_le_nat_alt word_less_nat_alt)
  then show ?thesis using b y(2) z(2) unfolding t append_utf8_def d6 d12 by simp
next
  assume k: "k = 3" and b: "ucast (0xF0 OR c) = b" and c: "unat c < 8"
  obtain b1 b2 b3 where t: "take k bs = [b1, b2, b3]" using take_3_Cons assms(2) k by blast
  from assms(3) obtain y z w where y: "unat y < 64" "b1 = ucast (0x80 OR y)"
    and z: "unat z < 64" "b2 = ucast (0x80 OR z)" and w: "unat w < 64" "b3 = ucast (0x80 OR w)"
    and cp: "cp = push_bit 6 (push_bit 6 (push_bit 6 c OR y) OR z) OR w"
    unfolding t by (auto dest!: utf8_continue_inv)
  let ?x = "push_bit 6 c OR y"
  let ?v = "push_bit 6 ?x OR z"
  note s1 = append_six [of c y] and s2 = append_six [of ?x z] and s3 = append_six [of ?v w]
  have u: "unat ?x = unat c * 64 + unat y" using s1(1) c y by simp
  have v: "unat ?v = unat ?x * 64 + unat z" using s2(1) u c y z by simp
  have ucp: "unat cp = unat ?v * 64 + unat w" unfolding cp using s3(1) v u c y z w by simp
  have d6: "drop_bit 6 cp = ?v" "cp AND 0x3F = w" unfolding cp using s3(2,3) v u c y z w by simp_all
  have "drop_bit 12 cp = drop_bit 6 (drop_bit 6 cp)" by simp
  then have d12: "drop_bit 12 cp = ?x" "?v AND 0x3F = z" using d6(1) s2(2,3) u c y z by simp_all
  have "drop_bit 18 cp = drop_bit 6 (drop_bit 12 cp)" by simp
  then have d18: "drop_bit 18 cp = c" "?x AND 0x3F = y" using d12(1) s1(2,3) c y by simp_all
  have "\<not> cp \<le> 0x7F" "\<not> cp \<le> 0x7FF" "\<not> cp \<le> 0xFFFF"
    using assms(4) k by (auto simp: word_le_nat_alt word_less_nat_alt)
  then show ?thesis using b y(2) z(2) w(2) unfolding t append_utf8_def d6 d12 d18 by simp
qed

lemma append_decode_utf8:
  "decode_utf8 bs = Inr cps \<Longrightarrow> concat (map append_utf8 cps) = bs \<and> list_all scalar cps"
proof (induction bs arbitrary: cps rule: decode_utf8.induct)
  case (2 b bs)
  from "2.prems" obtain c k cp out where s: "utf8_lead b = Inr (c, k)" "k \<le> length bs"
    "utf8_continue (take k bs) c = Inr cp"
    and ok: "\<not> (k = 2 \<and> cp < 0x800 \<or> k = 3 \<and> cp < 0x10000 \<or>
                        cp > 0x10FFFF \<or> (cp \<ge> 0xD800 \<and> cp \<le> 0xDFFF))"
    and out: "decode_utf8 (drop k bs) = Inr out" "cps = cp # out"
    by (auto split: prod.splits)
  have "append_utf8 cp = b # take k bs" using append_decode_step [OF s] ok by blast
  moreover have "concat (map append_utf8 out) = drop k bs \<and> list_all scalar out"
    using "2.IH" [OF s(1) refl] s ok out by simp
  ultimately show ?case using ok out(2) by (auto simp: scalar_def [of cp] not_less)
qed simp

lemma decode_append_all:
  "list_all scalar cps \<Longrightarrow> decode_utf8 (concat (map append_utf8 cps)) = Inr cps"
  by (induction cps) (simp_all add: decode_append_utf8)

section \<open>Wide strings\<close>

definition utf16_units :: "32 word \<Rightarrow> 32 word list" where
  "utf16_units cp =
     (if cp \<le> 0xFFFF then [cp]
      else let cp = cp - 0x10000 in [0xD800 + drop_bit 10 cp, 0xDC00 + (cp AND 0x3FF)])"

definition text_limit :: nat where
  "text_limit = 4 * 1024 * 1024"

definition widen :: "bool \<Rightarrow> string \<Rightarrow> error + 32 word list" where
  "widen wide16 text =
     bindE (requireE (\<not> length text > text_limit)
              (Error ''INPUT_LIMIT'' ''Text exceeds limit'')) (\<lambda>_.
     bindE (decode_utf8 (map ord text)) (\<lambda>cps.
     Inr (if wide16 then concat (map utf16_units cps) else cps)))"

fun narrow_units :: "bool \<Rightarrow> 32 word list \<Rightarrow> error + byte list" where
  "narrow_units wide16 [] = Inr []"
| "narrow_units wide16 (cp # us) =
     (if wide16 \<and> cp \<ge> 0xD800 \<and> cp \<le> 0xDBFF then
        (case us of [] \<Rightarrow> Inl (Error ''UTF8'' ''Invalid UTF-16'')
         | lo # us' \<Rightarrow>
             if lo < 0xDC00 \<or> lo > 0xDFFF then Inl (Error ''UTF8'' ''Invalid UTF-16'')
             else bindE (narrow_units wide16 us') (\<lambda>out.
               Inr (append_utf8 (0x10000 + push_bit 10 (cp - 0xD800) + (lo - 0xDC00)) @ out)))
      else if wide16 \<and> cp \<ge> 0xDC00 \<and> cp \<le> 0xDFFF then Inl (Error ''UTF8'' ''Invalid UTF-16'')
      else bindE (narrow_units wide16 us) (\<lambda>out. Inr (append_utf8 cp @ out)))"

definition narrow :: "bool \<Rightarrow> 32 word list \<Rightarrow> error + string" where
  "narrow wide16 text =
     bindE (requireE (\<not> length text > text_limit)
              (Error ''INPUT_LIMIT'' ''Text exceeds limit'')) (\<lambda>_.
     bindE (narrow_units wide16 text) (\<lambda>out. Inr (map chr out)))"

lemma unat_minus_le: "(b :: 32 word) \<le> a \<Longrightarrow> unat (a - b) = unat a - unat b"
  by (simp add: unat_sub_if' word_le_nat_alt)

lemma take_ten: "unat ((x :: 32 word) AND 0x3FF) = unat x mod 1024"
proof -
  have "x AND 0x3FF = take_bit 10 x" by (simp add: take_bit_eq_mask mask_eq_exp_minus_1)
  then have "unat (x AND 0x3FF) = take_bit 10 (unat x)" by (simp only: unsigned_take_bit_eq)
  then show ?thesis by (simp add: take_bit_eq_mod)
qed

text \<open>A surrogate pair carries its code point, split at ten bits.\<close>

lemma utf16_pair:
  assumes "unat cp < 0x110000" "\<not> cp \<le> (0xFFFF :: 32 word)"
  defines "c \<equiv> cp - 0x10000"
  shows "0xD800 + drop_bit 10 c \<ge> 0xD800" "0xD800 + drop_bit 10 c \<le> 0xDBFF"
    "0xDC00 + (c AND 0x3FF) \<ge> 0xDC00" "0xDC00 + (c AND 0x3FF) \<le> 0xDFFF"
    "0x10000 + push_bit 10 ((0xD800 + drop_bit 10 c) - 0xD800) + ((0xDC00 + (c AND 0x3FF)) - 0xDC00) = cp"
proof -
  have uc: "unat c = unat cp - 0x10000"
    using assms(2) unfolding c_def by (subst unat_minus_le) (auto simp: word_le_nat_alt)
  have hi: "unat (0xD800 + drop_bit 10 c) = 0xD800 + unat c div 1024"
    using uc assms(1) by (simp add: unat_word_ariths unat_drop_bit)
  have lo: "unat (0xDC00 + (c AND 0x3FF)) = 0xDC00 + unat c mod 1024"
    by (simp add: unat_word_ariths take_ten)
  show "0xD800 + drop_bit 10 c \<ge> 0xD800" "0xD800 + drop_bit 10 c \<le> 0xDBFF"
    using uc assms(1) unfolding word_le_nat_alt hi by auto
  have "unat c mod 1024 < 1024" by simp
  then show "0xDC00 + (c AND 0x3FF) \<ge> 0xDC00" "0xDC00 + (c AND 0x3FF) \<le> 0xDFFF"
    unfolding word_le_nat_alt lo by simp_all
  have "push_bit 10 (drop_bit 10 c) + (c AND 0x3FF) = c"
    using bits_ident [of 10 c] by (simp only: take_bit_eq_mask mask_eq_exp_minus_1) simp
  then show "0x10000 + push_bit 10 ((0xD800 + drop_bit 10 c) - 0xD800) + ((0xDC00 + (c AND 0x3FF)) - 0xDC00) = cp"
    by (simp add: c_def add.assoc)
qed

lemma narrow_utf16_units:
  assumes "scalar cp"
  shows "narrow_units True (utf16_units cp @ us) = bindE (narrow_units True us) (\<lambda>out. Inr (append_utf8 cp @ out))"
proof (cases "cp \<le> 0xFFFF")
  case True
  have "\<not> (cp \<ge> 0xD800 \<and> cp \<le> 0xDBFF)" "\<not> (cp \<ge> 0xDC00 \<and> cp \<le> 0xDFFF)"
    using assms by (auto simp: scalar_def word_le_nat_alt)
  then show ?thesis using True by (auto simp: utf16_units_def)
next
  case False
  have "unat cp < 0x110000" using assms by (simp add: scalar_def word_le_nat_alt)
  note p = utf16_pair [OF this False]
  have u: "utf16_units cp = [0xD800 + drop_bit 10 (cp - 0x10000), 0xDC00 + ((cp - 0x10000) AND 0x3FF)]"
    using False by (simp add: utf16_units_def Let_def)
  show ?thesis
    unfolding u append.simps narrow_units.simps list.case p(5) using p(1,2) leD [OF p(3)] leD [OF p(4)] by simp
qed

lemma append_utf8_nonempty: "append_utf8 cp \<noteq> []"
  by (simp add: append_utf8_def)

lemma utf16_units_length: "scalar cp \<Longrightarrow> length (utf16_units cp) \<le> length (append_utf8 cp)"
  by (simp add: utf16_units_def append_utf8_def Let_def word_le_nat_alt)

lemma narrow_units_utf16:
  "list_all scalar cps \<Longrightarrow> narrow_units True (concat (map utf16_units cps)) = Inr (concat (map append_utf8 cps))"
  by (induction cps) (simp_all add: narrow_utf16_units)

lemma narrow_units_utf32: "narrow_units False cps = Inr (concat (map append_utf8 cps))"
  by (induction cps) simp_all

lemma utf16_length:
  "list_all scalar cps \<Longrightarrow> length (concat (map utf16_units cps)) \<le> length (concat (map append_utf8 cps))"
  by (induction cps) (auto intro: add_mono utf16_units_length)

lemma cps_length: "length cps \<le> length (concat (map append_utf8 cps))"
proof (induction cps)
  case (Cons c cps)
  then show ?case using append_utf8_nonempty [of c] by (cases "append_utf8 c") auto
qed simp

lemma narrow_widen:
  assumes "widen wide16 s = Inr us"
  shows "narrow wide16 us = Inr s"
proof -
  from assms obtain cps where len: "length s \<le> text_limit" and cps: "decode_utf8 (map ord s) = Inr cps"
    and us: "us = (if wide16 then concat (map utf16_units cps) else cps)"
    by (auto simp: widen_def)
  from append_decode_utf8 [OF cps]
  have enc: "concat (map append_utf8 cps) = map ord s" and sc: "list_all scalar cps" by auto
  have "narrow_units wide16 us = Inr (map ord s)"
    using narrow_units_utf16 [OF sc] narrow_units_utf32 [of cps] by (cases wide16) (simp_all add: us enc)
  moreover have "length us \<le> length s"
    using utf16_length [OF sc] cps_length [of cps] by (cases wide16) (simp_all add: us enc)
  ultimately show ?thesis using len by (simp add: narrow_def comp_def)
qed

interpretation wide: codec "widen wide16" "narrow wide16" "\<lambda>s. length s \<le> text_limit" for wide16
  by unfold_locales (auto simp: widen_def intro: narrow_widen)

theorem utf8_decoding_exact:
  "decode_utf8 bs = Inr cps \<longleftrightarrow> list_all scalar cps \<and> bs = concat (map append_utf8 cps)"
  using append_decode_utf8 [of bs cps] decode_append_all [of cps] by blast

theorem narrow_undoes_widen:
  assumes "widen wide16 s = Inr us"
  shows "narrow wide16 us = Inr s"
  by (rule wide.dec_enc [OF assms])

theorem narrow_undoes_widen_witness:
  "narrow True [0x41, 0xD83D, 0xDE00] = Inr (map chr [0x41, 0xF0, 0x9F, 0x98, 0x80])"
proof -
  have "decode_utf8 [0x41, 0xF0, 0x9F, 0x98, 0x80] = Inr [0x41, 0x1F600]" by code_simp
  then have "widen True (map chr [0x41, 0xF0, 0x9F, 0x98, 0x80]) = Inr [0x41, 0xD83D, 0xDE00]"
    by (simp add: widen_def text_limit_def utf16_units_def
        del: decode_utf8.simps bindE_Inr_iff)
  from narrow_undoes_widen [OF this] show ?thesis .
qed

end
