(* ===== verification/Model.thy ===== *)
theory Model
  imports Prelude "HOL-Library.List_Lexorder" "HOL-Library.Char_ord"
begin

text \<open>
  The configuration model of \<open>include/nativedns/model.hpp\<close>: enumerations, servers, rules,
  logging settings, the configuration and its default.  \<open>std::map<std::string, std::string>\<close>
  is a list of pairs kept sorted by key (\<open>smap\<close>), because the serializer iterates it in key
  order.  \<open>Level\<close> and \<open>BlockMode\<close> are filled by \<open>static_cast\<close> from an unchecked
  number, so they are kept as the 32-bit two's complement integers the enums are stored in
  and compared as signed numbers; \<open>Protocol\<close> and \<open>Action\<close> only ever hold enumerators.
\<close>

section \<open>Ordered string maps\<close>

type_synonym smap = "(string \<times> string) list"

definition smap_wf :: "smap \<Rightarrow> bool" where
  "smap_wf m \<longleftrightarrow> sorted_wrt (<) (map fst m)"

text \<open>\<open>emplace\<close>: inserts unless the key is there; the flag says whether it inserted.\<close>

fun smap_emplace :: "string \<Rightarrow> string \<Rightarrow> smap \<Rightarrow> smap \<times> bool" where
  "smap_emplace k v [] = ([(k, v)], True)"
| "smap_emplace k v ((k', v') # m) =
     (if k < k' then ((k, v) # (k', v') # m, True)
      else if k = k' then ((k', v') # m, False)
      else (let (m', b) = smap_emplace k v m in ((k', v') # m', b)))"

text \<open>\<open>m[k] = v\<close>.\<close>

fun smap_put :: "string \<Rightarrow> string \<Rightarrow> smap \<Rightarrow> smap" where
  "smap_put k v [] = [(k, v)]"
| "smap_put k v ((k', v') # m) =
     (if k < k' then (k, v) # (k', v') # m
      else if k = k' then (k, v) # m
      else (k', v') # smap_put k v m)"

definition smap_keys :: "smap \<Rightarrow> string set" where
  "smap_keys m = fst ` set m"

lemma smap_keys_simps [simp]:
  "smap_keys [] = {}"
  "smap_keys ((k, v) # m) = insert k (smap_keys m)"
  "smap_keys (m @ m') = smap_keys m \<union> smap_keys m'"
  by (auto simp: smap_keys_def)

lemma smap_wf_simps [simp]:
  "smap_wf []"
  "smap_wf ((k, v) # m) \<longleftrightarrow> (\<forall>k' \<in> smap_keys m. k < k') \<and> smap_wf m"
  by (auto simp: smap_wf_def smap_keys_def)

lemma smap_wf_distinct: "smap_wf m \<Longrightarrow> distinct (map fst m)"
  by (simp add: smap_wf_def strict_sorted_iff)

lemma smap_put_keys [simp]: "smap_keys (smap_put k v m) = insert k (smap_keys m)"
  by (induction m) (auto split: if_splits)

lemma smap_put_wf: "smap_wf m \<Longrightarrow> smap_wf (smap_put k v m)"
proof (induction m)
  case (Cons e m)
  obtain k' v' where e: "e = (k', v')" by (cases e)
  consider "k < k'" | "k = k'" | "k' < k" by (rule linorder_cases)
  then show ?case
    using Cons by cases (auto simp: e dest: order.strict_trans)
qed simp

lemma smap_put_lookup: "smap_wf m \<Longrightarrow> map_of (smap_put k v m) = (map_of m)(k \<mapsto> v)"
  by (induction m) (auto simp: fun_eq_iff)

lemma smap_emplace_keys:
  "smap_emplace k v m = (m', b) \<Longrightarrow> smap_keys m' = insert k (smap_keys m)"
  by (induction m arbitrary: m' b) (auto split: prod.splits if_splits)

lemma smap_emplace_wf: "smap_emplace k v m = (m', b) \<Longrightarrow> smap_wf m \<Longrightarrow> smap_wf m'"
proof (induction m arbitrary: m' b)
  case (Cons e m)
  obtain k' v' where e: "e = (k', v')" by (cases e)
  consider "k < k'" | "k = k'" | "k' < k" by (rule linorder_cases)
  then show ?case
  proof cases
    case 1
    then have "\<forall>x \<in> smap_keys m. k < x"
      using Cons.prems(2) by (auto simp: e dest: order.strict_trans)
    then show ?thesis using Cons.prems 1 by (auto simp: e)
  next
    case 2
    then show ?thesis using Cons.prems by (auto simp: e)
  next
    case 3
    obtain m2 b2 where m2: "smap_emplace k v m = (m2, b2)" by (cases "smap_emplace k v m")
    have wf2: "smap_wf m2" using Cons m2 by (simp add: e)
    have "\<not> k < k'" "k \<noteq> k'" using 3 by auto
    then have "m' = (k', v') # m2" using Cons.prems(1) by (simp add: e m2)
    then show ?thesis
      using Cons.prems(2) 3 smap_emplace_keys [OF m2] wf2 by (simp add: e)
  qed
qed simp

lemma smap_emplace_last:
  "(\<And>k'. k' \<in> smap_keys m \<Longrightarrow> k' < k) \<Longrightarrow> smap_emplace k v m = (m @ [(k, v)], True)"
proof (induction m)
  case (Cons e m)
  from Cons.prems [of "fst e"] have "fst e < k" by (cases e) simp
  then have "\<not> k < fst e" "k \<noteq> fst e" by auto
  with Cons show ?case by (cases e) auto
qed simp

section \<open>Enumerations\<close>

datatype protocol = udp | tcp | doh | dot | doh3 | doq | dnscrypt | anonymized_dnscrypt

datatype action = Action_process | Action_bypass | Action_block

type_synonym level = "32 word"

abbreviation (input) errors_only :: level where "errors_only \<equiv> 0"
abbreviation (input) normal :: level where "normal \<equiv> 1"
abbreviation (input) verbose :: level where "verbose \<equiv> 2"
abbreviation (input) debug :: level where "debug \<equiv> 3"

type_synonym block_mode = "32 word"

abbreviation (input) zero_address :: block_mode where "zero_address \<equiv> 0"
abbreviation (input) nxdomain :: block_mode where "nxdomain \<equiv> 1"
abbreviation (input) refused :: block_mode where "refused \<equiv> 2"
abbreviation (input) silent_drop :: block_mode where "silent_drop \<equiv> 3"

text \<open>Comparison of two enum values, on the underlying \<open>int\<close>.\<close>

definition enum_le :: "32 word \<Rightarrow> 32 word \<Rightarrow> bool" where
  "enum_le a b \<longleftrightarrow> sint a \<le> sint b"

section \<open>Servers, rules, configuration\<close>

record network_route =
  nr_interface_id :: string
  nr_interface_name :: string
  nr_index4 :: "32 word"
  nr_index6 :: "32 word"
  nr_scope6 :: "32 word"
  nr_generation :: "64 word"

definition default_route :: network_route where
  "default_route = \<lparr>nr_interface_id = [], nr_interface_name = [], nr_index4 = 0,
     nr_index6 = 0, nr_scope6 = 0, nr_generation = 0\<rparr>"

record server =
  srv_id :: "32 word"
  srv_name :: string
  srv_enabled :: bool
  srv_protocol :: protocol
  srv_ip :: string
  srv_hostname :: string
  srv_url :: string
  srv_port :: "16 word"
  srv_dnssec_supported :: bool
  srv_timeout_ms :: "32 word"
  srv_allow_direct :: bool
  srv_fallback_ids :: "32 word list"
  srv_bootstrap :: "string list"
  srv_hashes :: "string list"
  srv_use_system_bootstrap :: bool
  srv_route :: network_route
  srv_public_key :: string
  srv_provider_name :: string
  srv_relay :: string
  srv_metadata :: smap

definition default_server :: server where
  "default_server = \<lparr>srv_id = 0, srv_name = [], srv_enabled = True, srv_protocol = udp,
     srv_ip = [], srv_hostname = [], srv_url = [], srv_port = 0, srv_dnssec_supported = False,
     srv_timeout_ms = 3000, srv_allow_direct = False, srv_fallback_ids = [],
     srv_bootstrap = [], srv_hashes = [], srv_use_system_bootstrap = False,
     srv_route = default_route, srv_public_key = [], srv_provider_name = [], srv_relay = [],
     srv_metadata = []\<rparr>"

record rule =
  rl_id :: "32 word"
  rl_name :: string
  rl_enabled :: bool
  rl_is_default :: bool
  rl_patterns :: "string list"
  rl_action :: action
  rl_server_id :: "32 word"
  rl_interface_id :: string
  rl_dnssec_validate :: bool
  rl_dnssec_reject_unsigned :: bool
  rl_block_mode :: block_mode
  rl_metadata :: smap

definition default_rule :: rule where
  "default_rule = \<lparr>rl_id = 0, rl_name = [], rl_enabled = True, rl_is_default = False,
     rl_patterns = [], rl_action = Action_process, rl_server_id = 0, rl_interface_id = [],
     rl_dnssec_validate = False, rl_dnssec_reject_unsigned = False,
     rl_block_mode = zero_address, rl_metadata = []\<rparr>"

record logging_settings =
  lg_screen :: level
  lg_file :: level
  lg_file_enabled :: bool
  lg_directory :: string

record config =
  cf_schema_version :: "32 word"
  cf_servers :: "server list"
  cf_rules :: "rule list"
  cf_logging :: logging_settings
  cf_test_target :: string
  cf_test_concurrency :: "32 word"
  cf_settings :: smap

definition empty_config :: config where
  "empty_config = \<lparr>cf_schema_version = 1, cf_servers = [], cf_rules = [],
     cf_logging = \<lparr>lg_screen = normal, lg_file = normal, lg_file_enabled = True,
       lg_directory = ''logs''\<rparr>,
     cf_test_target = ''iana.org'', cf_test_concurrency = 15, cf_settings = []\<rparr>"

definition default_config :: config where
  "default_config = empty_config\<lparr>cf_rules :=
     [default_rule\<lparr>rl_id := 1, rl_name := ''Default'', rl_is_default := True,
        rl_patterns := [''*'']\<rparr>]\<rparr>"

end
