(* ===== verification/Names.thy ===== *)
theory Names
  imports Model Utf8
begin

text \<open>
  Text and host names, the first part of \<open>src/rules.cpp\<close>: decimal numbers
  (\<open>std::to_string\<close>, \<open>std::from_chars\<close>), \<open>normalize_host\<close> and
  \<open>normalize_dns_name\<close>, pattern lists, and the wildcard matcher \<open>host_matches\<close> with its
  recursive specification \<open>glob\<close>.
\<close>

section \<open>Decimal numbers\<close>

definition digit :: "nat \<Rightarrow> char" where
  "digit n = char_of (48 + n)"

fun to_string :: "nat \<Rightarrow> string" where
  "to_string n = (if n < 10 then [digit n] else to_string (n div 10) @ [digit (n mod 10)])"

declare to_string.simps [simp del]

definition is_digit :: "char \<Rightarrow> bool" where
  "is_digit c \<longleftrightarrow> 48 \<le> code c \<and> code c \<le> 57"

text \<open>
  \<open>std::from_chars\<close> for an unsigned type below \<open>bound\<close>, together with the check every
  caller makes that the whole text was consumed: \<open>None\<close> when there is no digit, when a
  character that is no digit remains, or when the value does not fit.
\<close>

definition digits_value :: "string \<Rightarrow> nat" where
  "digits_value s = foldl (\<lambda>v c. v * 10 + (code c - 48)) 0 s"

definition from_chars :: "nat \<Rightarrow> string \<Rightarrow> nat option" where
  "from_chars bound s =
     (if s \<noteq> [] \<and> list_all is_digit s \<and> digits_value s < bound
      then Some (digits_value s) else None)"

lemma code_digit [simp]: "n < 10 \<Longrightarrow> code (digit n) = 48 + n"
  by (simp add: digit_def)

lemma digits_value_snoc [simp]:
  "digits_value (s @ [c]) = digits_value s * 10 + (code c - 48)"
  by (simp add: digits_value_def)

lemma to_string_nonempty [simp]: "to_string n \<noteq> []"
  by (subst to_string.simps) simp

lemma to_string_digits: "list_all is_digit (to_string n)"
proof (induction n rule: to_string.induct)
  case (1 n)
  show ?case
    using 1 by (subst to_string.simps) (auto simp: is_digit_def [of "digit _"])
qed

lemma digits_value_to_string [simp]: "digits_value (to_string n) = n"
proof (induction n rule: to_string.induct)
  case (1 n)
  show ?case
  proof (cases "n < 10")
    case True
    then show ?thesis by (subst to_string.simps) (simp add: digits_value_def)
  next
    case False
    with 1 show ?thesis by (subst to_string.simps) simp
  qed
qed

lemma from_chars_to_string: "n < bound \<Longrightarrow> from_chars bound (to_string n) = Some n"
  by (simp add: from_chars_def to_string_digits)

lemma from_chars_bound: "from_chars bound s = Some n \<Longrightarrow> n < bound"
  by (auto simp: from_chars_def split: if_splits)

lemma to_string_inj: "to_string m = to_string n \<longleftrightarrow> m = n"
  by (metis digits_value_to_string)

section \<open>Name normalization\<close>

definition host_space :: "char \<Rightarrow> bool" where
  "host_space c \<longleftrightarrow> c \<in> {CHR '' '', CHR 0x09, CHR 0x0D, CHR 0x0A}"

text \<open>\<open>find_first_not_of\<close> / \<open>find_last_not_of\<close> and \<open>substr\<close>.\<close>

definition trim_space :: "string \<Rightarrow> string" where
  "trim_space s = rev (dropWhile host_space (rev (dropWhile host_space s)))"

definition ldh :: "char \<Rightarrow> bool" where
  "ldh c \<longleftrightarrow> 97 \<le> code c \<and> code c \<le> 122 \<or> 48 \<le> code c \<and> code c \<le> 57 \<or> c = CHR ''-''"

definition wild :: "char \<Rightarrow> bool" where
  "wild c \<longleftrightarrow> c = CHR ''*'' \<or> c = CHR ''?''"

text \<open>The character loop of one label.\<close>

definition label_char :: "bool \<Rightarrow> bool \<Rightarrow> char \<Rightarrow> error + char" where
  "label_char pattern hostname character =
     (let byte = code character; character = lower_ascii character;
          wildcard = (pattern \<and> wild character) in
      if hostname \<and> \<not> ldh character \<and> \<not> wildcard
      then Inl (Error ''HOST'' ''Hostname must use canonical ASCII A-label syntax'')
      else if \<not> hostname \<and> (byte \<le> 32 \<or> byte \<ge> 127 \<or> character = CHR ''.'' \<or>
                (\<not> pattern \<and> wild character))
      then Inl (Error ''HOST'' ''Unsupported DNS label character'')
      else Inr character)"

definition norm_label :: "bool \<Rightarrow> bool \<Rightarrow> string \<Rightarrow> error + string" where
  "norm_label pattern hostname label =
     bindE (requireE (label \<noteq> []) (Error ''HOST'' ''Empty DNS label'')) (\<lambda>_.
     bindE (requireE (\<not> length label > 63) (Error ''HOST'' ''DNS label exceeds 63 bytes'')) (\<lambda>_.
     bindE (mapE (label_char pattern hostname) label) (\<lambda>label.
     bindE (requireE (\<not> (hostname \<and> (hd label = CHR ''-'' \<or> last label = CHR ''-'')))
              (Error ''HOST'' ''Hyphen at DNS label boundary'')) (\<lambda>_.
     Inr label))))"

text \<open>The label loop: \<open>value\<close> is the text from \<open>start\<close> on, \<open>result\<close> what is built so far.\<close>

function norm_labels :: "bool \<Rightarrow> bool \<Rightarrow> string \<Rightarrow> string \<Rightarrow> error + string" where
  "norm_labels pattern hostname value result =
     (if value = [] then Inr result
      else let label = takeWhile (\<lambda>c. c \<noteq> CHR ''.'') value; rest = drop (length label) value in
        bindE (norm_label pattern hostname label) (\<lambda>label.
        let result = (if result \<noteq> [] then result @ ''.'' else result) @ label in
        if rest = [] then Inr result
        else if tl rest = [] then Inl (Error ''HOST'' ''Multiple trailing dots'')
        else norm_labels pattern hostname (tl rest) result))"
  by pat_completeness auto
termination
  by (relation "measure (\<lambda>(_, _, value, _). length value)") auto

declare norm_labels.simps [simp del]

definition normalize_ascii_name :: "string \<Rightarrow> bool \<Rightarrow> bool \<Rightarrow> error + string" where
  "normalize_ascii_name text pattern hostname =
     (let value = trim_space text in
      bindE (requireE (value \<noteq> []) (Error ''HOST'' ''Empty DNS name'')) (\<lambda>_.
      let value = (if last value = CHR ''.'' then butlast value else value) in
      bindE (requireE (value \<noteq> []) (Error ''HOST'' ''Empty DNS name'')) (\<lambda>_.
      bindE (norm_labels pattern hostname value []) (\<lambda>result.
      bindE (requireE (\<not> length result > 253)
               (Error ''HOST'' ''DNS name exceeds 253 bytes'')) (\<lambda>_.
      Inr result)))))"

definition normalize_host :: "string \<Rightarrow> bool \<Rightarrow> error + string" where
  "normalize_host text pattern = normalize_ascii_name text pattern True"

definition normalize_dns_name :: "string \<Rightarrow> bool \<Rightarrow> error + string" where
  "normalize_dns_name text pattern = normalize_ascii_name text pattern False"

subsection \<open>What a normalized name looks like\<close>

fun join_labels :: "string list \<Rightarrow> string" where
  "join_labels [] = []"
| "join_labels [l] = l"
| "join_labels (l # ls) = l @ ''.'' @ join_labels ls"

definition good_label :: "bool \<Rightarrow> bool \<Rightarrow> string \<Rightarrow> bool" where
  "good_label pattern hostname l \<longleftrightarrow>
     norm_label pattern hostname l = Inr l \<and> CHR ''.'' \<notin> set l"

lemma code_eq_iff: "c = d \<longleftrightarrow> code c = code d"
  by (simp add: code_inj)

lemma code_of_char [simp]: "code (Char b0 b1 b2 b3 b4 b5 b6 b7) = of_char (Char b0 b1 b2 b3 b4 b5 b6 b7)"
  by (simp add: code_def)

lemma label_char_props:
  assumes "label_char pattern hostname c = Inr d"
  shows "label_char pattern hostname d = Inr d" "d \<noteq> CHR ''.''" "32 < code d" "code d < 127"
    "d = lower_ascii c" "\<not> (65 \<le> code d \<and> code d \<le> 90)"
    "\<not> pattern \<Longrightarrow> \<not> wild d" "hostname \<Longrightarrow> ldh d \<or> wild d"
proof -
  have d: "d = lower_ascii c"
    using assms by (auto simp: label_char_def Let_def split: if_splits)
  show "d = lower_ascii c" by fact
  show "label_char pattern hostname d = Inr d" "d \<noteq> CHR ''.''" "32 < code d" "code d < 127"
    "\<not> (65 \<le> code d \<and> code d \<le> 90)" "\<not> pattern \<Longrightarrow> \<not> wild d" "hostname \<Longrightarrow> ldh d \<or> wild d"
    using assms unfolding d
    by (auto simp: label_char_def Let_def code_lower_ascii ldh_def wild_def
        code_eq_iff [of _ "CHR ''.''"] code_eq_iff [of _ "CHR ''-''"]
        code_eq_iff [of _ "CHR ''*''"] code_eq_iff [of _ "CHR ''?''"] split: if_splits)
qed

lemma norm_label_props:
  assumes "norm_label pattern hostname l = Inr m"
  shows "good_label pattern hostname m" "length m = length l" "m = map lower_ascii l"
proof -
  from assms have l: "l \<noteq> []" "length l \<le> 63" "mapE (label_char pattern hostname) l = Inr m"
    "\<not> (hostname \<and> (hd m = CHR ''-'' \<or> last m = CHR ''-''))"
    by (auto simp: norm_label_def)
  from l(3) have len: "length m = length l" by (rule mapE_length)
  then show "length m = length l" .
  have "\<forall>d \<in> set m. \<exists>c. label_char pattern hostname c = Inr d"
    using l(3) by (auto simp: mapE_Inr_iff list_all2_conv_all_nth set_conv_nth)
  then have d: "label_char pattern hostname d = Inr d \<and> d \<noteq> CHR ''.''" if "d \<in> set m" for d
    using that label_char_props by blast
  then have "mapE (label_char pattern hostname) m = Inr m"
    using mapE_Inr_map [of m "label_char pattern hostname" "\<lambda>c. c"] by simp
  then show "good_label pattern hostname m"
    using l len d by (auto simp: good_label_def norm_label_def)
  show "m = map lower_ascii l"
    using l(3) label_char_props(5)
    by (auto simp: mapE_Inr_iff list_all2_conv_all_nth intro!: nth_equalityI)
qed

lemma good_label_length: "good_label pattern hostname l \<Longrightarrow> l \<noteq> [] \<and> length l \<le> 63"
  by (auto simp: good_label_def norm_label_def)

lemma good_label_char:
  assumes "good_label pattern hostname l" "c \<in> set l"
  shows "label_char pattern hostname c = Inr c"
proof -
  have "mapE (label_char pattern hostname) l = Inr l"
    using assms(1) by (auto simp: good_label_def norm_label_def)
  then show ?thesis
    using assms(2) by (auto simp: mapE_Inr_iff list_all2_conv_all_nth in_set_conv_nth)
qed

lemma norm_labels_sound:
  assumes "norm_labels pattern hostname val result = Inr r" "val \<noteq> []"
  shows "\<exists>ls. ls \<noteq> [] \<and> list_all (good_label pattern hostname) ls \<and>
    r = (if result \<noteq> [] then result @ ''.'' else []) @ join_labels ls"
  using assms
proof (induction pattern hostname val result rule: norm_labels.induct)
  case (1 pattern hostname val result)
  let ?label = "takeWhile (\<lambda>c. c \<noteq> CHR ''.'') val"
  let ?rest = "drop (length ?label) val"
  from "1.prems" obtain l where l: "norm_label pattern hostname ?label = Inr l"
    and r: "(let result = (if result \<noteq> [] then result @ ''.'' else result) @ l in
        if ?rest = [] then Inr result
        else if tl ?rest = [] then Inl (Error ''HOST'' ''Multiple trailing dots'')
        else norm_labels pattern hostname (tl ?rest) result) = Inr r"
    by (subst (asm) norm_labels.simps) (auto simp: Let_def)
  have good: "good_label pattern hostname l" using norm_label_props [OF l] by simp
  let ?res = "(if result \<noteq> [] then result @ ''.'' else result) @ l"
  show ?case
  proof (cases "?rest = []")
    case True
    then show ?thesis using r good by (intro exI [of _ "[l]"]) (auto simp: Let_def)
  next
    case False
    then have ne: "tl ?rest \<noteq> []" and rec: "norm_labels pattern hostname (tl ?rest) ?res = Inr r"
      using r by (auto simp: Let_def split: if_splits)
    from "1.IH" [OF "1.prems"(2) refl refl l refl False ne rec ne]
    obtain ls where ls: "ls \<noteq> []" "list_all (good_label pattern hostname) ls"
      "r = (if ?res \<noteq> [] then ?res @ ''.'' else []) @ join_labels ls" by blast
    have "l \<noteq> []" using good good_label_length by blast
    then have "r = (if result \<noteq> [] then result @ ''.'' else []) @ join_labels (l # ls)"
      using ls(1,3) by (cases ls) auto
    then show ?thesis using ls good by (intro exI [of _ "l # ls"]) auto
  qed
qed

lemma takeWhile_label:
  "CHR ''.'' \<notin> set l \<Longrightarrow> takeWhile (\<lambda>c. c \<noteq> CHR ''.'') l = l"
  "CHR ''.'' \<notin> set l \<Longrightarrow> takeWhile (\<lambda>c. c \<noteq> CHR ''.'') (l @ CHR ''.'' # v) = l"
  by (auto simp: takeWhile_eq_all_conv) (subst takeWhile_append2; auto)

lemma join_labels_nonempty:
  "ls \<noteq> [] \<Longrightarrow> list_all (good_label pattern hostname) ls \<Longrightarrow> join_labels ls \<noteq> []"
  by (cases ls rule: join_labels.cases) (auto dest: good_label_length)

lemma norm_labels_complete:
  assumes "ls \<noteq> []" "list_all (good_label pattern hostname) ls"
  shows "norm_labels pattern hostname (join_labels ls) result =
    Inr ((if result \<noteq> [] then result @ ''.'' else []) @ join_labels ls)"
  using assms
proof (induction ls arbitrary: result rule: join_labels.induct)
  case (2 l)
  then have "norm_label pattern hostname l = Inr l" "CHR ''.'' \<notin> set l" "l \<noteq> []"
    using good_label_length by (auto simp: good_label_def)
  then show ?case
    by (subst norm_labels.simps) (simp add: takeWhile_label)
next
  case (3 l l' ls)
  then have l: "norm_label pattern hostname l = Inr l" "CHR ''.'' \<notin> set l" "l \<noteq> []"
    using good_label_length by (auto simp: good_label_def)
  have ne: "join_labels (l' # ls) \<noteq> []" using 3(3) join_labels_nonempty [of "l' # ls"] by auto
  have "norm_labels pattern hostname (join_labels (l # l' # ls)) result =
    norm_labels pattern hostname (join_labels (l' # ls))
      ((if result \<noteq> [] then result @ ''.'' else result) @ l)"
    using l ne by (subst norm_labels.simps) (simp add: takeWhile_label Let_def)
  then show ?case using 3 l(3) by auto
qed simp

definition normal_name :: "bool \<Rightarrow> bool \<Rightarrow> string \<Rightarrow> bool" where
  "normal_name pattern hostname r \<longleftrightarrow>
     (\<exists>ls. ls \<noteq> [] \<and> list_all (good_label pattern hostname) ls \<and> r = join_labels ls) \<and>
     length r \<le> 253"

lemma normalize_sound:
  assumes "normalize_ascii_name text pattern hostname = Inr r"
  shows "normal_name pattern hostname r"
proof -
  from assms obtain v where "norm_labels pattern hostname v [] = Inr r" "v \<noteq> []" "length r \<le> 253"
    by (auto simp: normalize_ascii_name_def Let_def)
  with norm_labels_sound [of pattern hostname v "[]" r] show ?thesis
    by (auto simp: normal_name_def)
qed

lemma join_labels_chars:
  assumes "list_all (good_label pattern hostname) ls" "c \<in> set (join_labels ls)"
  shows "c = CHR ''.'' \<or> label_char pattern hostname c = Inr c"
  using assms by (induction ls rule: join_labels.induct) (auto dest: good_label_char)

lemma join_labels_ends:
  assumes "ls \<noteq> []" "list_all (good_label pattern hostname) ls"
  shows "hd (join_labels ls) \<in> set (hd ls)" "last (join_labels ls) \<in> set (last ls)"
proof -
  show "hd (join_labels ls) \<in> set (hd ls)"
    using assms by (cases ls rule: join_labels.cases) (auto dest!: good_label_length)
  show "last (join_labels ls) \<in> set (last ls)"
    using assms
  proof (induction ls rule: join_labels.induct)
    case (3 l l' ls)
    then show ?case using join_labels_nonempty [of "l' # ls"] by auto
  qed (auto dest: good_label_length)
qed

lemma label_char_not_space: "label_char pattern hostname c = Inr c \<Longrightarrow> \<not> host_space c"
  using label_char_props(3) [of pattern hostname c c] by (auto simp: host_space_def)

lemma trim_space_id:
  assumes "s \<noteq> []" "\<not> host_space (hd s)" "\<not> host_space (last s)"
  shows "trim_space s = s"
proof -
  have "dropWhile host_space s = s" using assms by (cases s) auto
  moreover have "dropWhile host_space (rev s) = rev s"
    using assms by (cases s rule: rev_cases) auto
  ultimately show ?thesis by (simp add: trim_space_def)
qed

lemma normalize_fixpoint:
  assumes "normal_name pattern hostname r"
  shows "normalize_ascii_name r pattern hostname = Inr r"
proof -
  from assms obtain ls where ls: "ls \<noteq> []" "list_all (good_label pattern hostname) ls"
    and r: "r = join_labels ls" and len: "length r \<le> 253" unfolding normal_name_def by blast
  have ne: "r \<noteq> []" unfolding r by (rule join_labels_nonempty [OF ls])
  have "hd ls \<in> set ls" "last ls \<in> set ls" using ls(1) by simp_all
  then have g: "good_label pattern hostname (hd ls)" "good_label pattern hostname (last ls)"
    using ls(2) unfolding list_all_iff by blast+
  have h: "label_char pattern hostname (hd r) = Inr (hd r)"
    unfolding r by (rule good_label_char [OF g(1) join_labels_ends(1) [OF ls]])
  have l: "label_char pattern hostname (last r) = Inr (last r)"
    unfolding r by (rule good_label_char [OF g(2) join_labels_ends(2) [OF ls]])
  have trim: "trim_space r = r"
    using ne label_char_not_space [OF h] label_char_not_space [OF l] by (rule trim_space_id)
  have "norm_labels pattern hostname r [] = Inr r"
    unfolding r by (simp add: norm_labels_complete [OF ls])
  then show ?thesis
    using ne len label_char_props(2) [OF l]
    by (simp add: normalize_ascii_name_def trim Let_def)
qed

lemma normalize_idem:
  "normalize_ascii_name text pattern hostname = Inr r \<Longrightarrow>
   normalize_ascii_name r pattern hostname = Inr r"
  by (rule normalize_fixpoint) (rule normalize_sound)

section \<open>Pattern lists\<close>

definition pattern_separator :: "char \<Rightarrow> bool" where
  "pattern_separator c \<longleftrightarrow> c \<in> {CHR '';'', CHR 0x0D, CHR 0x0A}"

definition blank :: "char \<Rightarrow> bool" where
  "blank c \<longleftrightarrow> c = CHR '' '' \<or> c = CHR 0x09"

function split_patterns :: "string \<Rightarrow> error + string list" where
  "split_patterns text =
     (if text = [] then Inr []
      else let value = takeWhile (\<lambda>c. \<not> pattern_separator c) text;
               rest = drop (length value) text in
        bindE (if \<exists>c \<in> set value. \<not> blank c
               then bindE (normalize_dns_name value True) (\<lambda>v. Inr [v]) else Inr []) (\<lambda>first.
        bindE (if rest = [] then Inr [] else split_patterns (tl rest)) (\<lambda>others.
        Inr (first @ others))))"
  by pat_completeness auto
termination
  by (relation "measure length") auto

declare split_patterns.simps [simp del]

section \<open>The wildcard matcher\<close>

text \<open>
  The loop of \<open>host_matches\<close> with its four variables; \<open>star\<close> is \<open>None\<close> for \<open>npos\<close>.
  It returns where the pattern stands when the host is used up, \<open>None\<close> for the early
  \<open>return false\<close>.
\<close>

function match_loop ::
  "string \<Rightarrow> string \<Rightarrow> nat \<Rightarrow> nat \<Rightarrow> nat option \<Rightarrow> nat \<Rightarrow> nat option" where
  "match_loop host pattern h p star retry =
     (if h < length host then
        (if p < length pattern \<and> (pattern ! p = CHR ''?'' \<or> pattern ! p = host ! h)
         then match_loop host pattern (h + 1) (p + 1) star retry
         else if p < length pattern \<and> pattern ! p = CHR ''*''
         then match_loop host pattern h (p + 1) (Some p) h
         else case star of
             Some s \<Rightarrow> match_loop host pattern (retry + 1) (s + 1) star (retry + 1)
           | None \<Rightarrow> None)
      else Some p)"
  by pat_completeness auto
termination
  by (relation "measures
       [\<lambda>(host, pattern, h, p, star, retry).
          (case star of Some s \<Rightarrow> if s < p then length pattern - s else Suc (length pattern)
           | None \<Rightarrow> Suc (length pattern)),
        \<lambda>(host, pattern, h, p, star, retry). length host - retry,
        \<lambda>(host, pattern, h, p, star, retry). length host - h]")
     (auto split: option.splits if_splits)

declare match_loop.simps [simp del]

definition host_matches :: "string \<Rightarrow> string \<Rightarrow> bool" where
  "host_matches host pattern =
     (case match_loop host pattern 0 0 None 0 of
        None \<Rightarrow> False
      | Some p \<Rightarrow> dropWhile (\<lambda>c. c = CHR ''*'') (drop p pattern) = [])"

subsection \<open>The recursive specification\<close>

text \<open>
  \<open>?\<close> and literals match one character, a star any number.  A host without stars (every
  normalized host) is matched by the greedy loop exactly when the specification says so.
\<close>

function glob :: "string \<Rightarrow> string \<Rightarrow> bool" where
  "glob [] h = (h = [])"
| "glob (p # ps) [] = (p = CHR ''*'' \<and> glob ps [])"
| "glob (p # ps) (c # h) =
     (if p = CHR ''*'' then glob ps (c # h) \<or> glob (p # ps) h
      else (p = CHR ''?'' \<or> p = c) \<and> glob ps h)"
  by pat_completeness auto
termination by (relation "measure (\<lambda>(p, h). length p + length h)") auto

lemma glob_star: "glob (CHR ''*'' # ps) h \<longleftrightarrow> (\<exists>k \<le> length h. glob ps (drop k h))"
proof (induction h)
  case (Cons c h)
  have "(\<exists>k \<le> length (c # h). glob ps (drop k (c # h))) \<longleftrightarrow>
    glob ps (c # h) \<or> (\<exists>k \<le> length h. glob ps (drop k h))" (is "?L = ?R")
  proof
    assume ?L
    then obtain k where "k \<le> length (c # h)" "glob ps (drop k (c # h))" by blast
    then show ?R by (cases k) auto
  next
    assume ?R
    then show ?L
    proof
      assume "\<exists>k \<le> length h. glob ps (drop k h)"
      then obtain k where "k \<le> length h" "glob ps (drop k h)" by blast
      then have "Suc k \<le> length (c # h) \<and> glob ps (drop (Suc k) (c # h))" by simp
      then show ?L by blast
    qed auto
  qed
  with Cons show ?case by simp
qed simp

lemma glob_literals:
  "CHR ''*'' \<notin> set seg \<Longrightarrow>
   glob (seg @ ps) h \<Longrightarrow> length seg \<le> length h \<and> glob ps (drop (length seg) h)"
proof (induction seg arbitrary: h)
  case (Cons a seg)
  then show ?case by (cases h) (auto split: if_splits)
qed simp

lemma glob_all_stars: "glob ps [] \<longleftrightarrow> dropWhile (\<lambda>c. c = CHR ''*'') ps = []"
  by (induction ps) auto

definition match_inv :: "string \<Rightarrow> string \<Rightarrow> nat \<Rightarrow> nat \<Rightarrow> nat option \<Rightarrow> nat \<Rightarrow> bool" where
  "match_inv host pattern h p star retry \<longleftrightarrow>
     p \<le> length pattern \<and> h \<le> length host \<and>
     (\<forall>s. star = Some s \<longrightarrow> s < p \<and> retry \<le> h \<and> p - Suc s = h - retry \<and>
        CHR ''*'' \<notin> set (take (p - Suc s) (drop (Suc s) pattern)))"

definition pending_match :: "string \<Rightarrow> string \<Rightarrow> nat option \<Rightarrow> nat \<Rightarrow> bool" where
  "pending_match host pattern star retry \<longleftrightarrow>
     (\<exists>s k. star = Some s \<and> retry < k \<and> k \<le> length host \<and>
        glob (drop (Suc s) pattern) (drop k host))"

lemma pending_None [simp]: "\<not> pending_match host pattern None retry"
  by (simp add: pending_match_def)

text \<open>A later retry of the last star needs the rest of the pattern at a later position.\<close>

lemma pending_segment:
  assumes inv: "match_inv host pattern h p star retry"
    and pend: "pending_match host pattern star retry"
  shows "\<exists>j > h. j \<le> length host \<and> glob (drop p pattern) (drop j host)"
proof -
  from pend obtain s k where s: "star = Some s" and k: "retry < k" "k \<le> length host"
    and g: "glob (drop (Suc s) pattern) (drop k host)"
    by (auto simp: pending_match_def)
  let ?seg = "take (p - Suc s) (drop (Suc s) pattern)"
  have sp: "s < p" "retry \<le> h" "p - Suc s = h - retry" "CHR ''*'' \<notin> set ?seg"
    and p: "p \<le> length pattern" using inv s by (auto simp: match_inv_def)
  have split: "drop (Suc s) pattern = ?seg @ drop p pattern"
    using sp(1) by (metis Suc_leI append_take_drop_id drop_drop le_add_diff_inverse2)
  have len: "length ?seg = h - retry" using sp p by simp
  from glob_literals [OF sp(4), of "drop p pattern" "drop k host"] g split
  have "length ?seg \<le> length (drop k host)" "glob (drop p pattern) (drop (length ?seg) (drop k host))"
    by auto
  then have "(h - retry) + k \<le> length host" "glob (drop p pattern) (drop ((h - retry) + k) host)"
    unfolding len using k by auto
  moreover have "h < (h - retry) + k" using k sp(2) by linarith
  ultimately show ?thesis by blast
qed

lemma glob_star_later:
  "glob (CHR ''*'' # ps) (drop j xs) \<Longrightarrow> h \<le> j \<Longrightarrow> j \<le> length xs \<Longrightarrow> glob (CHR ''*'' # ps) (drop h xs)"
proof -
  assume g: "glob (CHR ''*'' # ps) (drop j xs)" and j: "h \<le> j" "j \<le> length xs"
  from g obtain k where k: "k \<le> length (drop j xs)" "glob ps (drop k (drop j xs))"
    by (auto simp: glob_star)
  have "glob ps (drop ((k + j) - h) (drop h xs))" using k j by simp
  moreover have "(k + j) - h \<le> length (drop h xs)" using k j by simp
  ultimately show ?thesis unfolding glob_star by blast
qed

lemma match_loop_correct:
  assumes "CHR ''*'' \<notin> set host" "match_inv host pattern h p star retry"
  shows "(case match_loop host pattern h p star retry of None \<Rightarrow> False
          | Some p' \<Rightarrow> glob (drop p' pattern) []) \<longleftrightarrow>
         glob (drop p pattern) (drop h host) \<or> pending_match host pattern star retry"
  using assms
proof (induction host pattern h p star retry rule: match_loop.induct)
  case (1 host pattern h p star retry)
  note nostar = "1.prems"(1) and inv = "1.prems"(2)
  show ?case
  proof (cases "h < length host")
    case False
    then have "h = length host" using inv by (simp add: match_inv_def)
    moreover have "\<not> pending_match host pattern star retry"
      using pending_segment [OF inv] \<open>h = length host\<close> by fastforce
    ultimately show ?thesis by (subst match_loop.simps) simp
  next
    case h: True
    have hd_host: "drop h host = host ! h # drop (Suc h) host"
      using h by (rule Cons_nth_drop_Suc [symmetric])
    consider (lit) "p < length pattern" "pattern ! p = CHR ''?'' \<or> pattern ! p = host ! h"
      | (star) "p < length pattern" "\<not> (pattern ! p = CHR ''?'' \<or> pattern ! p = host ! h)"
          "pattern ! p = CHR ''*''"
      | (miss) "\<not> (p < length pattern \<and> (pattern ! p = CHR ''?'' \<or> pattern ! p = host ! h))"
          "\<not> (p < length pattern \<and> pattern ! p = CHR ''*'')"
      by blast
    then show ?thesis
    proof cases
      case lit
      have "host ! h \<noteq> CHR ''*''" using nostar h nth_mem by force
      then have ns: "pattern ! p \<noteq> CHR ''*''" using lit by auto
      have inv': "match_inv host pattern (h + 1) (p + 1) star retry"
      proof -
        have "CHR ''*'' \<notin> set (take (Suc p - Suc s) (drop (Suc s) pattern))" if "star = Some s" for s
        proof -
          have "s < p" "CHR ''*'' \<notin> set (take (p - Suc s) (drop (Suc s) pattern))"
            using inv that by (auto simp: match_inv_def)
          moreover have "take (Suc (p - Suc s)) (drop (Suc s) pattern) =
            take (p - Suc s) (drop (Suc s) pattern) @ [drop (Suc s) pattern ! (p - Suc s)]"
            using lit(1) \<open>s < p\<close> by (intro take_Suc_conv_app_nth) simp
          moreover have "drop (Suc s) pattern ! (p - Suc s) = pattern ! p"
            using lit(1) \<open>s < p\<close> by simp
          moreover have "Suc p - Suc s = Suc (p - Suc s)" using \<open>s < p\<close> by simp
          ultimately show ?thesis using ns by simp
        qed
        then show ?thesis using inv h lit(1) by (auto simp: match_inv_def)
      qed
      have "glob (drop p pattern) (drop h host) =
        glob (drop (p + 1) pattern) (drop (h + 1) host)"
        using Cons_nth_drop_Suc [OF lit(1), symmetric] hd_host ns lit(2) by simp
      moreover have "match_loop host pattern h p star retry =
        match_loop host pattern (h + 1) (p + 1) star retry"
        using h lit by (subst match_loop.simps) simp
      ultimately show ?thesis using "1.IH"(1) [OF h _ nostar inv'] lit by simp
    next
      case star
      have inv': "match_inv host pattern h (p + 1) (Some p) h"
        using inv star by (simp add: match_inv_def)
      have dp: "drop p pattern = CHR ''*'' # drop (p + 1) pattern"
        using Cons_nth_drop_Suc [OF star(1)] star(3) by simp
      have old: "glob (drop p pattern) (drop h host)"
        if "pending_match host pattern star retry"
        using pending_segment [OF inv that] glob_star_later [of "drop (p + 1) pattern" _ host h]
        by (auto simp: dp)
      have "glob (drop p pattern) (drop h host) \<longleftrightarrow>
        glob (drop (p + 1) pattern) (drop h host) \<or> pending_match host pattern (Some p) h"
        (is "?L \<longleftrightarrow> ?R")
      proof
        assume ?L
        then obtain k where k: "k \<le> length (drop h host)" "glob (drop (p + 1) pattern) (drop k (drop h host))"
          unfolding dp glob_star by blast
        show ?R
        proof (cases k)
          case 0
          then show ?thesis using k by simp
        next
          case (Suc k')
          then have "h < k + h" "k + h \<le> length host" using k h by auto
          then show ?thesis using k unfolding pending_match_def by auto
        qed
      next
        assume ?R
        then show ?L
        proof
          assume "glob (drop (p + 1) pattern) (drop h host)"
          then show ?L unfolding dp glob_star by (intro exI [of _ 0]) simp
        next
          assume "pending_match host pattern (Some p) h"
          then obtain k where "h < k" "k \<le> length host" "glob (drop (p + 1) pattern) (drop k host)"
            by (auto simp: pending_match_def)
          then show ?L unfolding dp glob_star by (intro exI [of _ "k - h"]) simp
        qed
      qed
      moreover have "match_loop host pattern h p star retry =
        match_loop host pattern h (p + 1) (Some p) h"
        using h star by (subst match_loop.simps) simp
      ultimately show ?thesis using "1.IH"(2) [OF h _ _ nostar inv'] star old by auto
    next
      case miss
      have no: "\<not> glob (drop p pattern) (drop h host)"
      proof (cases "p < length pattern")
        case True
        then show ?thesis
          using Cons_nth_drop_Suc [OF True, symmetric] hd_host miss by simp
      next
        case False
        then show ?thesis using h by simp
      qed
      show ?thesis
      proof (cases star)
        case None
        then have "match_loop host pattern h p star retry = None"
          using h miss by (subst match_loop.simps) auto
        then show ?thesis using no None by simp
      next
        case (Some s)
        have s: "s < p" "retry \<le> h" using inv Some by (auto simp: match_inv_def)
        have inv': "match_inv host pattern (retry + 1) (s + 1) star (retry + 1)"
          using inv s h Some by (auto simp: match_inv_def)
        have "pending_match host pattern star retry \<longleftrightarrow>
          glob (drop (s + 1) pattern) (drop (retry + 1) host) \<or>
          pending_match host pattern star (retry + 1)"
        proof -
          have "retry < k \<longleftrightarrow> k = retry + 1 \<or> retry + 1 < k" for k by auto
          moreover have "retry + 1 \<le> length host" using s h by simp
          ultimately show ?thesis unfolding pending_match_def Some by auto
        qed
        moreover have "match_loop host pattern h p star retry =
          match_loop host pattern (retry + 1) (s + 1) star (retry + 1)"
          using h miss Some by (subst match_loop.simps) auto
        ultimately show ?thesis using "1.IH"(3) [OF h _ _ Some nostar] inv' miss no Some by auto
      qed
    qed
  qed
qed

lemma host_matches_glob:
  assumes "CHR ''*'' \<notin> set host"
  shows "host_matches host pattern \<longleftrightarrow> glob pattern host"
proof -
  have "match_inv host pattern 0 0 None 0" by (simp add: match_inv_def)
  from match_loop_correct [OF assms this]
  show ?thesis by (auto simp: host_matches_def glob_all_stars split: option.splits)
qed
section \<open>Summary\<close>

theorem normalized_names_exact:
  "(\<exists>text. normalize_ascii_name text pattern hostname = Inr r) \<longleftrightarrow> normal_name pattern hostname r"
  using normalize_sound normalize_fixpoint by blast

text \<open>C34: The greedy backtracking loop of host_matches decides exactly the recursive meaning of
  the pattern: ? and literals match one character, * any number.\<close>

theorem host_matching_is_globbing:
  assumes "CHR ''*'' \<notin> set host"
  shows "host_matches host pattern \<longleftrightarrow> glob pattern host"
  by (rule host_matches_glob [OF assms])

theorem host_matching_is_globbing_witness:
  "host_matches ''a.ads.example'' ''*.ads.*'' \<longleftrightarrow> glob ''*.ads.*'' ''a.ads.example''"
  by (rule host_matching_is_globbing) simp

end
