(* ===== verification/Dns_Packet.thy ===== *)
theory Dns_Packet
  imports Names "HOL-Library.AList"
begin

text \<open>
  The DNS codec of \<open>src/dns_packet.cpp\<close> and \<open>include/nativedns/dns.hpp\<close>: reading and
  writing big-endian fields, decompressing names, queries, synthetic responses, the UDP size
  limit, response parsing, and TTL clamping and ageing.  \<open>platform::format_ip\<close> (a wrapper of
  \<open>inet_ntop\<close>) is the parameter \<open>fmt\<close>; the value \<open>platform::secure_random_u16\<close> returns is the argument \<open>rnd\<close>.
\<close>

section \<open>Fields\<close>

definition word :: "packet \<Rightarrow> nat \<Rightarrow> error + 16 word" where
  "word p offset =
     (if offset > length p \<or> length p - offset < 2
      then Inl (malformed ''Truncated DNS field'')
      else Inr (push_bit 8 (ucast (p ! offset)) OR ucast (p ! (offset + 1))))"

definition dword :: "packet \<Rightarrow> nat \<Rightarrow> error + 32 word" where
  "dword p offset =
     (if offset > length p \<or> length p - offset < 4
      then Inl (malformed ''Truncated DNS field'')
      else Inr (push_bit 24 (ucast (p ! offset)) OR push_bit 16 (ucast (p ! (offset + 1))) OR
                push_bit 8 (ucast (p ! (offset + 2))) OR ucast (p ! (offset + 3))))"

definition put_dword :: "packet \<Rightarrow> nat \<Rightarrow> 32 word \<Rightarrow> packet" where
  "put_dword p offset value =
     p[offset := ucast (drop_bit 24 value), offset + 1 := ucast (drop_bit 16 value),
       offset + 2 := ucast (drop_bit 8 value), offset + 3 := ucast value]"

definition append_word :: "packet \<Rightarrow> 16 word \<Rightarrow> packet" where
  "append_word p value = p @ [ucast (drop_bit 8 value), ucast value]"

section \<open>Names\<close>

text \<open>The inner loop of \<open>name\<close>: the bytes of one label, checked and lowered.\<close>

fun label_bytes :: "byte list \<Rightarrow> error + string" where
  "label_bytes [] = Inr []"
| "label_bytes (b # bs) =
     (if unat b \<le> 32 \<or> unat b \<ge> 127 \<or> chr b = CHR ''.''
      then Inl (malformed ''Non-host label bytes are unsupported'')
      else bindE (label_bytes bs) (\<lambda>s. Inr (lower_ascii (chr b) # s)))"

text \<open>
  The outer loop of \<open>name\<close>.  The first argument counts the iterations the loop may still
  make: the code throws when \<open>++hops > 128\<close>.  \<open>jumped\<close> holds the offset to return once a
  compression pointer has been followed.
\<close>

fun name_loop ::
  "nat \<Rightarrow> packet \<Rightarrow> nat \<Rightarrow> nat option \<Rightarrow> string \<Rightarrow> error + string \<times> nat" where
  "name_loop 0 p at jumped result =
     Inl (malformed ''Invalid DNS name/compression chain'')"
| "name_loop (Suc hops) p at jumped result =
     (if at \<ge> length p then Inl (malformed ''Invalid DNS name/compression chain'')
      else let len = p ! at; at = at + 1 in
        if len AND 0xc0 = 0xc0 then
          (if at \<ge> length p then Inl (malformed ''Truncated compression pointer'')
           else let target = unat (len AND 0x3f) * 256 + unat (p ! at); at = at + 1 in
             if target \<ge> at - 2 \<or> target < 12
             then Inl (malformed ''Compression pointer must refer to earlier name data'')
             else name_loop hops p target
                    (case jumped of None \<Rightarrow> Some at | Some off \<Rightarrow> Some off) result)
        else if len AND 0xc0 \<noteq> 0 then Inl (malformed ''Unsupported DNS label encoding'')
        else if len = 0
          then Inr (result, case jumped of None \<Rightarrow> at | Some off \<Rightarrow> off)
        else if unat len > length p - at then Inl (malformed ''Truncated DNS label'')
        else bindE (label_bytes (take (unat len) (drop at p))) (\<lambda>label.
          let result = (if result \<noteq> [] then result @ ''.'' else result) @ label in
          if length result > 253 then Inl (malformed ''Expanded DNS name is too long'')
          else name_loop hops p (at + unat len) jumped result))"

declare name_loop.simps [simp del]

definition dns_name :: "packet \<Rightarrow> nat \<Rightarrow> error + string \<times> nat" where
  "dns_name p offset = name_loop 128 p offset None []"

section \<open>Questions\<close>

record question =
  q_id :: "16 word"
  q_flags :: "16 word"
  q_type :: "16 word"
  q_klass :: "16 word"
  q_name :: string
  q_end :: nat

definition parse_question :: "packet \<Rightarrow> error + question" where
  "parse_question packet =
     bindE (if length packet < 12 \<or> length packet > 65535 then Inr False
            else bindE (word packet 4) (\<lambda>n. Inr (n = 1))) (\<lambda>ok.
     bindE (requireE ok (malformed ''Expected one DNS question and bounded header'')) (\<lambda>_.
     bindE (word packet 0) (\<lambda>qid.
     bindE (word packet 2) (\<lambda>flags.
     bindE (requireE (flags AND 0x7800 = 0)
              (Error ''DNS_OPCODE'' ''Only standard DNS queries are supported'')) (\<lambda>_.
     bindE (dns_name packet 12) (\<lambda>(nm, end).
     bindE (word packet end) (\<lambda>ty.
     bindE (word packet (end + 2)) (\<lambda>kl.
     Inr \<lparr>q_id = qid, q_flags = flags, q_type = ty, q_klass = kl, q_name = nm,
          q_end = end + 4\<rparr>))))))))"

section \<open>EDNS(0) of a request\<close>

record edns =
  ed_present :: bool
  ed_do_bit :: bool
  ed_payload :: "16 word"

text \<open>
  The record loop: \<open>n\<close> records remain, \<open>index\<close> is the loop variable, \<open>aa\<close> is
  \<open>answers + authority\<close>.
\<close>

fun edns_loop :: "packet \<Rightarrow> nat \<Rightarrow> nat \<Rightarrow> nat \<Rightarrow> nat \<Rightarrow> edns \<Rightarrow> error + nat \<times> edns" where
  "edns_loop request aa 0 index at r = Inr (at, r)"
| "edns_loop request aa (Suc n) index at r =
     bindE (dns_name request at) (\<lambda>(owner, at).
     bindE (word request at) (\<lambda>ty.
     bindE (word request (at + 2)) (\<lambda>klass.
     bindE (word request (at + 8)) (\<lambda>len.
     bindE (requireE (\<not> (length request - at < 10 \<or> unat len > length request - (at + 10)))
              (malformed ''Truncated DNS record'')) (\<lambda>_.
     bindE (if ty = 41 then
              bindE (requireE (\<not> (ed_present r \<or> owner \<noteq> [] \<or> index < aa))
                       (malformed ''Invalid OPT record'')) (\<lambda>_.
              Inr \<lparr>ed_present = True, ed_do_bit = (request ! (at + 6)) AND 0x80 \<noteq> 0,
                   ed_payload = min (max klass 512) 1232\<rparr>)
            else Inr r) (\<lambda>r.
     edns_loop request aa n (Suc index) (at + (10 + unat len)) r))))))"

definition edns_request :: "packet \<Rightarrow> question \<Rightarrow> error + edns" where
  "edns_request request question =
     bindE (word request 6) (\<lambda>answers.
     bindE (word request 8) (\<lambda>authority.
     bindE (word request 10) (\<lambda>additional.
     let total = unat answers + unat authority + unat additional in
     bindE (requireE (total \<le> 4096) (malformed ''Too many DNS records'')) (\<lambda>_.
     bindE (edns_loop request (unat answers + unat authority) total 0 (q_end question)
              \<lparr>ed_present = False, ed_do_bit = False, ed_payload = 512\<rparr>) (\<lambda>(at, r).
     bindE (requireE (at = length request)
              (malformed ''Unexpected bytes after DNS records'')) (\<lambda>_.
     Inr r))))))"

section \<open>Synthetic responses\<close>

text \<open>Bytes 2 to 11 of a header: flags, one question, the other counts zero.\<close>

definition reset_header :: "packet \<Rightarrow> 16 word \<Rightarrow> packet" where
  "reset_header p flags =
     p[2 := ucast (drop_bit 8 flags), 3 := ucast flags, 4 := 0, 5 := 1,
       6 := 0, 7 := 0, 8 := 0, 9 := 0, 10 := 0, 11 := 0]"

definition opt_record :: "edns \<Rightarrow> packet" where
  "opt_record e = [0, 0, 41, ucast (drop_bit 8 (ed_payload e)), ucast (ed_payload e), 0, 0,
     (if ed_do_bit e then 0x80 else 0), 0, 0, 0]"

definition synthetic_response :: "packet \<Rightarrow> 16 word \<Rightarrow> bool \<Rightarrow> error + packet" where
  "synthetic_response request rcode zero =
     bindE (requireE (\<not> rcode > 15) (malformed ''DNS response code is out of range'')) (\<lambda>_.
     bindE (parse_question request) (\<lambda>question.
     bindE (requireE (q_flags question AND 0x8000 = 0)
              (malformed ''Expected query, not response'')) (\<lambda>_.
     bindE (edns_request request question) (\<lambda>edns.
     let response = take (q_end question) request;
         flags = 0x8080 OR (q_flags question AND 0x0110) OR rcode;
         response = reset_header response flags;
         response =
           (if zero \<and> q_klass question = 1 \<and> (q_type question = 1 \<or> q_type question = 28)
            then let len = (if q_type question = 1 then 4 else 16 :: nat) in
              response[7 := 1] @
              [0xc0, 0x0c, 0, ucast (q_type question), 0, 1, 0, 0, 0, 0, 0, of_nat len] @
              replicate len 0
            else response)
     in Inr (if ed_present edns then response[11 := 1] @ opt_record edns else response)))))"

definition make_error_response :: "packet \<Rightarrow> 16 word \<Rightarrow> error + packet" where
  "make_error_response request rcode = synthetic_response request rcode False"

definition make_block_response :: "packet \<Rightarrow> block_mode \<Rightarrow> error + packet" where
  "make_block_response request mode =
     (if mode = silent_drop
      then Inl (Error ''CONFIG'' ''Silent-drop block mode has no DNS response'')
      else let rcode = (if mode = nxdomain then 3 else if mode = refused then 5 else 0) in
        synthetic_response request rcode (mode = zero_address))"

section \<open>UDP size limit\<close>

definition client_udp_payload_size :: "packet \<Rightarrow> error + 16 word" where
  "client_udp_payload_size request =
     bindE (parse_question request) (\<lambda>question.
     bindE (requireE (q_flags question AND 0x8000 = 0)
              (malformed ''Expected query, not response'')) (\<lambda>_.
     bindE (edns_request request question) (\<lambda>edns.
     Inr (if ed_present edns then ed_payload edns else 512))))"

text \<open>The check that a reply answers a question, in \<open>fit_udp_response\<close> and \<open>parse_response\<close>.\<close>

definition answers_question :: "question \<Rightarrow> question \<Rightarrow> bool" where
  "answers_question actual expected \<longleftrightarrow>
     \<not> (q_flags actual AND 0x8000 = 0 \<or> q_id actual \<noteq> q_id expected \<or>
        q_name actual \<noteq> q_name expected \<or> q_type actual \<noteq> q_type expected \<or>
        q_klass actual \<noteq> q_klass expected)"

abbreviation mismatch :: error where
  "mismatch \<equiv> Error ''DNS_MISMATCH'' ''DNS response does not match request''"

definition fit_udp_response :: "packet \<Rightarrow> packet \<Rightarrow> error + packet" where
  "fit_udp_response request response =
     bindE (client_udp_payload_size request) (\<lambda>limit.
     if length response \<le> unat limit then Inr response
     else bindE (parse_question request) (\<lambda>expected.
       bindE (parse_question response) (\<lambda>actual.
       bindE (requireE (answers_question actual expected) mismatch) (\<lambda>_.
       bindE (word response 2) (\<lambda>flags.
       Inr (reset_header (take (q_end actual) response) (flags OR 0x0200)))))))"

section \<open>Queries\<close>

text \<open>
  The label loop of \<open>make_query\<close> on the rest of the host: a length byte and the label up to
  the next dot, or to the end.
\<close>

function query_labels :: "string \<Rightarrow> packet" where
  "query_labels host =
     (if host = [] then []
      else let label = takeWhile (\<lambda>c. c \<noteq> CHR ''.'') host; rest = drop (length label) host in
        of_nat (length label) # map ord label @ (if rest = [] then [] else query_labels (tl rest)))"
  by pat_completeness auto
termination
  by (relation "measure length") auto

declare query_labels.simps [simp del]

definition make_query :: "16 word \<Rightarrow> string \<Rightarrow> 16 word \<Rightarrow> error + packet" where
  "make_query rnd hostname ty =
     bindE (normalize_dns_name hostname False) (\<lambda>host.
     let result = append_word [] rnd;
         result = append_word result 0x0100;
         result = append_word result 1;
         result = append_word result 0;
         result = append_word result 0;
         result = append_word result 0
     in Inr (append_word (append_word (result @ query_labels host @ [0]) ty) 1))"

section \<open>Responses\<close>

definition dns_type_name :: "16 word \<Rightarrow> string" where
  "dns_type_name ty =
     (if ty = 1 then ''A'' else if ty = 2 then ''NS'' else if ty = 5 then ''CNAME''
      else if ty = 6 then ''SOA'' else if ty = 12 then ''PTR'' else if ty = 15 then ''MX''
      else if ty = 16 then ''TXT'' else if ty = 28 then ''AAAA'' else if ty = 33 then ''SRV''
      else if ty = 64 then ''SVCB'' else if ty = 65 then ''HTTPS''
      else if ty = 255 then ''ANY'' else ''TYPE'' @ to_string (unat ty))"

record dns_answer =
  an_rcode :: "16 word"
  an_truncated :: bool
  an_authenticated_data :: bool
  an_addresses :: "string list"
  an_cache_ttl :: "32 word"
  an_cacheable :: bool

text \<open>
  The local variables of the record loop of \<open>parse_response\<close>.  \<open>std::map\<close> of aliases is an
  association list with distinct keys.
\<close>

record response_state =
  rs_at :: nat
  rs_rcode :: "16 word"
  rs_addresses :: "(string \<times> string) list"
  rs_aliases :: "(string \<times> string) list"
  rs_opt_seen :: bool
  rs_requested_answer :: bool
  rs_transaction_signed :: bool
  rs_positive_ttl :: "32 word"
  rs_negative_ttl :: "32 word"

abbreviation no_ttl :: "32 word" where
  "no_ttl \<equiv> 0xFFFFFFFF"

text \<open>One iteration of the loop: record number \<open>i\<close>.\<close>

definition response_record ::
  "(packet \<Rightarrow> bool \<Rightarrow> error + string) \<Rightarrow> packet \<Rightarrow> question \<Rightarrow> nat \<Rightarrow> nat \<Rightarrow> nat \<Rightarrow>
   response_state \<Rightarrow> error + response_state" where
  "response_record fmt packet expected answers authority i s =
     bindE (dns_name packet (rs_at s)) (\<lambda>(owner, at).
     bindE (word packet at) (\<lambda>ty.
     bindE (word packet (at + 2)) (\<lambda>klass.
     bindE (word packet (at + 8)) (\<lambda>len16.
     bindE (dword packet (at + 4)) (\<lambda>ttl.
     bindE (requireE (\<not> length packet - at < 10) (malformed ''Short DNS record header'')) (\<lambda>_.
     let data = at + 10; len = unat len16 in
     bindE (requireE (\<not> len > length packet - data) (malformed ''Short DNS record data'')) (\<lambda>_.
     bindE (requireE (\<not> (ty = 1 \<and> len \<noteq> 4 \<or> ty = 28 \<and> len \<noteq> 16))
              (malformed ''Invalid address record length'')) (\<lambda>_.
     bindE (if (ty = 1 \<or> ty = 28) \<and> klass = 1 \<and> i < answers \<and> ty = q_type expected then
              bindE (fmt (take (if ty = 28 then 16 else 4) (drop data packet)) (ty = 28)) (\<lambda>text.
              Inr (s\<lparr>rs_addresses := rs_addresses s @ [(owner, text)]\<rparr>))
            else if ty = 5 \<or> ty = 2 \<or> ty = 12 then
              bindE (dns_name packet data) (\<lambda>(target, next).
              bindE (requireE (next = data + len) (malformed ''Invalid name record length'')) (\<lambda>_.
              Inr (if ty = 5 \<and> klass = 1 \<and> i < answers
                   then s\<lparr>rs_aliases := AList.update owner target (rs_aliases s)\<rparr> else s)))
            else if ty = 41 then
              bindE (requireE (\<not> (rs_opt_seen s \<or> owner \<noteq> [] \<or> i < answers + authority))
                       (malformed ''Invalid OPT record'')) (\<lambda>_.
              Inr (s\<lparr>rs_opt_seen := True,
                     rs_rcode := rs_rcode s OR push_bit 4 (ucast (packet ! (at + 4)))\<rparr>))
            else Inr s) (\<lambda>s.
     let s = (if i < answers \<and> ty \<noteq> 41
              then s\<lparr>rs_positive_ttl := min (rs_positive_ttl s) ttl,
                     rs_requested_answer := rs_requested_answer s \<or>
                       ty = q_type expected \<and> klass = q_klass expected\<rparr>
              else s);
         s = (if ty = 249 \<or> ty = 250 then s\<lparr>rs_transaction_signed := True\<rparr> else s) in
     bindE (if ty = 6 \<and> i \<ge> answers \<and> i < answers + authority \<and> klass = q_klass expected then
              bindE (dns_name packet data) (\<lambda>(_, soa).
              bindE (dns_name packet soa) (\<lambda>(_, soa).
              bindE (requireE (\<not> (soa > data + len \<or> data + len - soa \<noteq> 20))
                       (malformed ''Invalid SOA record length'')) (\<lambda>_.
              bindE (dword packet (soa + 16)) (\<lambda>minimum.
              Inr (s\<lparr>rs_negative_ttl := min (rs_negative_ttl s) (min ttl minimum)\<rparr>)))))
            else Inr s) (\<lambda>s.
     Inr (s\<lparr>rs_at := data + len\<rparr>)))))))))))"

fun response_loop ::
  "(packet \<Rightarrow> bool \<Rightarrow> error + string) \<Rightarrow> packet \<Rightarrow> question \<Rightarrow> nat \<Rightarrow> nat \<Rightarrow> nat \<Rightarrow> nat \<Rightarrow>
   response_state \<Rightarrow> error + response_state" where
  "response_loop fmt packet expected answers authority 0 i s = Inr s"
| "response_loop fmt packet expected answers authority (Suc n) i s =
     bindE (response_record fmt packet expected answers authority i s)
       (response_loop fmt packet expected answers authority n (Suc i))"

text \<open>
  Following the aliases from \<open>current\<close>: the code makes at most \<open>aliases.size() + 1\<close> rounds.
\<close>

fun follow_aliases ::
  "nat \<Rightarrow> (string \<times> string) list \<Rightarrow> string \<Rightarrow> string set \<Rightarrow> error + string set" where
  "follow_aliases 0 aliases current reachable = Inr reachable"
| "follow_aliases (Suc n) aliases current reachable =
     (case map_of aliases current of
        None \<Rightarrow> Inr reachable
      | Some next \<Rightarrow>
          if next \<in> reachable then Inl (malformed ''CNAME cycle'')
          else follow_aliases n aliases next (insert next reachable))"

definition parse_response ::
  "(packet \<Rightarrow> bool \<Rightarrow> error + string) \<Rightarrow> packet \<Rightarrow> question \<Rightarrow> error + dns_answer" where
  "parse_response fmt packet expected =
     bindE (parse_question packet) (\<lambda>q.
     bindE (requireE (answers_question q expected) mismatch) (\<lambda>_.
     let answer = \<lparr>an_rcode = q_flags q AND 15, an_truncated = q_flags q AND 0x0200 \<noteq> 0,
                   an_authenticated_data = q_flags q AND 0x0020 \<noteq> 0, an_addresses = [],
                   an_cache_ttl = 0, an_cacheable = False\<rparr> in
     if an_truncated answer then Inr answer
     else
       bindE (word packet 6) (\<lambda>answers.
       bindE (word packet 8) (\<lambda>authority.
       bindE (word packet 10) (\<lambda>additional.
       let answers = unat answers; authority = unat authority;
           total = answers + authority + unat additional in
       bindE (requireE (total \<le> 4096) (malformed ''Too many DNS records'')) (\<lambda>_.
       bindE (response_loop fmt packet expected answers authority total 0
                \<lparr>rs_at = q_end q, rs_rcode = an_rcode answer, rs_addresses = [], rs_aliases = [],
                 rs_opt_seen = False, rs_requested_answer = False,
                 rs_transaction_signed = False, rs_positive_ttl = no_ttl,
                 rs_negative_ttl = no_ttl\<rparr>) (\<lambda>s.
       bindE (requireE (rs_at s = length packet)
                (malformed ''Unexpected bytes after DNS records'')) (\<lambda>_.
       bindE (follow_aliases (Suc (length (rs_aliases s))) (rs_aliases s) (q_name expected)
                {q_name expected}) (\<lambda>reachable.
       let rcode = rs_rcode s;
           negative = (rcode = 3 \<or>
             rcode = 0 \<and> \<not> rs_requested_answer s \<and> rs_negative_ttl s \<noteq> no_ttl);
           ttl = (if negative then rs_negative_ttl s else rs_positive_ttl s);
           cacheable = (\<not> rs_transaction_signed s \<and> q_type expected \<noteq> 251 \<and>
             q_type expected \<noteq> 252 \<and> (rcode = 0 \<or> rcode = 3) \<and> ttl \<noteq> no_ttl \<and> ttl \<noteq> 0)
       in Inr (answer\<lparr>an_rcode := rcode,
            an_addresses := map snd (filter (\<lambda>a. fst a \<in> reachable) (rs_addresses s)),
            an_cacheable := cacheable,
            an_cache_ttl := (if cacheable then ttl else 0)\<rparr>))))))))))"

section \<open>TTL clamping and ageing\<close>

text \<open>
  The offset loop of \<open>clamp_dns_ttl\<close>: \<open>None\<close> when a signature record makes the function
  return the response as it is.
\<close>

fun clamp_loop :: "packet \<Rightarrow> nat \<Rightarrow> nat \<Rightarrow> nat list \<Rightarrow> error + nat list option" where
  "clamp_loop result 0 at offsets = Inr (Some offsets)"
| "clamp_loop result (Suc n) at offsets =
     bindE (dns_name result at) (\<lambda>(_, at).
     bindE (word result at) (\<lambda>ty.
     bindE (word result (at + 8)) (\<lambda>len.
     if ty = 46 \<or> ty = 249 \<or> ty = 250 then Inr None
     else clamp_loop result n (at + (10 + unat len))
            (if ty \<noteq> 41 then offsets @ [at + 4] else offsets))))"

definition clamp_ttl_at ::
  "32 word \<Rightarrow> 32 word \<Rightarrow> nat \<Rightarrow> packet \<Rightarrow> error + packet" where
  "clamp_ttl_at minimum maximum offset result =
     bindE (dword result offset) (\<lambda>ttl.
     Inr (put_dword result offset (min (max ttl minimum) maximum)))"

definition clamp_dns_ttl ::
  "(packet \<Rightarrow> bool \<Rightarrow> error + string) \<Rightarrow> packet \<Rightarrow> 32 word \<Rightarrow> 32 word \<Rightarrow> error + packet" where
  "clamp_dns_ttl fmt response minimum maximum =
     bindE (requireE (\<not> minimum > maximum)
              (Error ''CONFIG_SETTING'' ''TTL minimum must not exceed maximum'')) (\<lambda>_.
     bindE (parse_question response) (\<lambda>question.
     bindE (parse_response fmt response question) (\<lambda>parsed.
     if an_truncated parsed \<or> an_authenticated_data parsed then Inr response
     else
       bindE (word response 6) (\<lambda>answers.
       bindE (word response 8) (\<lambda>authority.
       bindE (word response 10) (\<lambda>additional.
       bindE (clamp_loop response (unat answers + unat authority + unat additional)
                (q_end question) []) (\<lambda>offsets.
       case offsets of None \<Rightarrow> Inr response
       | Some offsets \<Rightarrow> foldE (clamp_ttl_at minimum maximum) offsets response)))))))"

fun age_loop :: "32 word \<Rightarrow> nat \<Rightarrow> nat \<Rightarrow> packet \<Rightarrow> error + nat \<times> packet" where
  "age_loop elapsed 0 at result = Inr (at, result)"
| "age_loop elapsed (Suc n) at result =
     bindE (dns_name result at) (\<lambda>(_, at).
     bindE (word result at) (\<lambda>ty.
     bindE (word result (at + 8)) (\<lambda>len.
     bindE (requireE (\<not> (length result - at < 10 \<or> unat len > length result - (at + 10)))
              (malformed ''Truncated cached record'')) (\<lambda>_.
     bindE (if ty \<noteq> 41 then
              bindE (dword result (at + 4)) (\<lambda>ttl.
              Inr (put_dword result (at + 4) (if ttl > elapsed then ttl - elapsed else 0)))
            else Inr result) (\<lambda>result.
     age_loop elapsed n (at + (10 + unat len)) result)))))"

definition age_dns_response :: "packet \<Rightarrow> 16 word \<Rightarrow> 32 word \<Rightarrow> error + packet" where
  "age_dns_response response transaction_id elapsed =
     bindE (parse_question response) (\<lambda>question.
     bindE (requireE (q_flags question AND 0x8000 \<noteq> 0)
              (malformed ''Expected cached response'')) (\<lambda>_.
     let result = response[0 := ucast (drop_bit 8 transaction_id), 1 := ucast transaction_id] in
     bindE (word result 6) (\<lambda>answers.
     bindE (word result 8) (\<lambda>authority.
     bindE (word result 10) (\<lambda>additional.
     let records = unat answers + unat authority + unat additional in
     bindE (requireE (records \<le> 4096) (malformed ''Too many DNS records'')) (\<lambda>_.
     bindE (age_loop elapsed records (q_end question) result) (\<lambda>(at, result).
     bindE (requireE (at = length result)
              (malformed ''Unexpected bytes after cached response'')) (\<lambda>_.
     Inr result))))))))"

end
