(* ===== verification/Dns_Names.thy ===== *)
theory Dns_Names
  imports Dns_Packet
begin

text \<open>
  Facts about \<open>Dns_Packet\<close> below the level of whole messages: 16- and 32-bit fields, the name
  loop (bounds, the bytes it depends on, extra rounds), names on the wire, and the question
  section, up to the round trip of \<open>make_query\<close> and \<open>parse_question\<close>.
\<close>

section \<open>Facts about fields\<close>

lemma word_bytes: "push_bit 8 (ucast (ucast (drop_bit 8 v) :: byte)) OR ucast (ucast v :: byte) = (v :: 16 word)"
  by (rule bit_word_eqI) (auto simp: bit_simps)

lemma dword_bytes:
  "push_bit 24 (ucast (ucast (drop_bit 24 v) :: byte)) OR push_bit 16 (ucast (ucast (drop_bit 16 v) :: byte)) OR
   push_bit 8 (ucast (ucast (drop_bit 8 v) :: byte)) OR ucast (ucast v :: byte) = (v :: 32 word)"
  (is "?l = v")
proof (rule bit_word_eqI)
  fix n
  assume "n < LENGTH(32)"
  consider "n < 8" | "8 \<le> n" "n < 16" | "16 \<le> n" "n < 24" | "24 \<le> n" by linarith
  then show "bit ?l n = bit v n"
    using \<open>n < LENGTH(32)\<close> by cases (auto simp: bit_simps)
qed

lemma word_Inr_iff [result_simps]:
  "word p o' = Inr w \<longleftrightarrow> o' + 2 \<le> length p \<and> w = push_bit 8 (ucast (p ! o')) OR ucast (p ! (o' + 1))"
  by (auto simp: word_def)

lemma dword_Inr_iff [result_simps]:
  "dword p o' = Inr w \<longleftrightarrow> o' + 4 \<le> length p \<and>
     w = push_bit 24 (ucast (p ! o')) OR push_bit 16 (ucast (p ! (o' + 1))) OR
         push_bit 8 (ucast (p ! (o' + 2))) OR ucast (p ! (o' + 3))"
  by (auto simp: word_def dword_def)

lemma word_ok: "o' + 2 \<le> length p \<Longrightarrow> word p o' = Inr (push_bit 8 (ucast (p ! o')) OR ucast (p ! (o' + 1)))"
  by (simp add: word_Inr_iff)

text \<open>A field read depends on its own bytes only.\<close>

lemma word_cong:
  "o' + 2 \<le> length p \<Longrightarrow> o' + 2 \<le> length p' \<Longrightarrow> p ! o' = p' ! o' \<Longrightarrow> p ! (o' + 1) = p' ! (o' + 1) \<Longrightarrow>
   word p o' = word p' o'"
  by (simp add: word_ok)

lemma word_append: "o' + 2 \<le> length p \<Longrightarrow> word (p @ q) o' = word p o'"
  by (rule word_cong) (simp_all add: nth_append)

lemma word_take: "o' + 2 \<le> n \<Longrightarrow> n \<le> length p \<Longrightarrow> word (take n p) o' = word p o'"
  by (rule word_cong) simp_all

lemma word_update:
  "o' \<noteq> i \<Longrightarrow> o' + 1 \<noteq> i \<Longrightarrow> word (p[i := b]) o' = word p o'"
  by (cases "o' + 2 \<le> length p") (simp_all add: word_def)

lemma word_encoded:
  "length pre = o' \<Longrightarrow> word (pre @ ucast (drop_bit 8 v) # ucast v # post) o' = Inr v"
  using word_bytes [of v] by (simp add: word_Inr_iff nth_append)

lemma length_put_dword [simp]: "length (put_dword p o' v) = length p"
  by (simp add: put_dword_def)

lemma put_dword_nth:
  "o' + 4 \<le> length p \<Longrightarrow> i < length p \<Longrightarrow>
   put_dword p o' v ! i =
     (if i = o' then ucast (drop_bit 24 v) else if i = o' + 1 then ucast (drop_bit 16 v)
      else if i = o' + 2 then ucast (drop_bit 8 v) else if i = o' + 3 then ucast v else p ! i)"
  by (auto simp: put_dword_def nth_list_update)

lemma put_dword_other:
  "i < o' \<or> o' + 4 \<le> i \<Longrightarrow> put_dword p o' v ! i = p ! i"
  by (auto simp: put_dword_def)

lemma dword_put_dword: "o' + 4 \<le> length p \<Longrightarrow> dword (put_dword p o' v) o' = Inr v"
  using dword_bytes [of v] by (simp add: dword_Inr_iff put_dword_nth)

lemma dword_put_dword_other:
  "o1 + 4 \<le> o2 \<or> o2 + 4 \<le> o1 \<Longrightarrow> dword (put_dword p o1 v) o2 = dword p o2"
  by (auto simp: dword_def put_dword_other)

lemma put_dword_same:
  assumes "dword p o' = Inr v"
  shows "put_dword p o' v = p"
proof (rule nth_equalityI)
  fix i
  assume i: "i < length (put_dword p o' v)"
  have len: "o' + 4 \<le> length p" and v: "v = push_bit 24 (ucast (p ! o')) OR push_bit 16 (ucast (p ! (o' + 1))) OR
         push_bit 8 (ucast (p ! (o' + 2))) OR ucast (p ! (o' + 3))"
    using assms by (simp_all add: dword_Inr_iff)
  have "ucast (drop_bit 24 v) = p ! o'" "ucast (drop_bit 16 v) = p ! (o' + 1)"
    "ucast (drop_bit 8 v) = p ! (o' + 2)" "ucast v = p ! (o' + 3)"
    unfolding v by (rule bit_word_eqI; auto simp: bit_simps dest: bit_imp_le_length)+
  then show "put_dword p o' v ! i = p ! i" using i len by (simp add: put_dword_nth)
qed simp

section \<open>Facts about names\<close>

lemma label_bytes_Inr:
  "label_bytes bs = Inr s \<longleftrightarrow>
     list_all (\<lambda>b. 32 < unat b \<and> unat b < 127 \<and> chr b \<noteq> CHR ''.'') bs \<and> s = map (lower_ascii \<circ> chr) bs"
  by (induction bs arbitrary: s) (auto split: if_splits)

definition name_char :: "char \<Rightarrow> bool" where
  "name_char c \<longleftrightarrow> 32 < code c \<and> code c < 127 \<and> \<not> (65 \<le> code c \<and> code c \<le> 90)"

lemma label_bytes_chars:
  "label_bytes bs = Inr s \<Longrightarrow> list_all name_char s \<and> length s = length bs"
  by (auto simp: label_bytes_Inr list_all_iff name_char_def code_lower_ascii split: if_splits)

text \<open>The possible rounds of the name loop, as an elimination rule.\<close>

lemma name_loop_cases [consumes 1, case_names jump fin label]:
  assumes "name_loop (Suc hops) p at jumped result = Inr (s, off)"
  obtains
    target where "at + 1 < length p" "p ! at AND 0xc0 = 0xc0"
      "target = unat (p ! at AND 0x3f) * 256 + unat (p ! (at + 1))" "target < at" "12 \<le> target"
      "name_loop hops p target (case jumped of None \<Rightarrow> Some (at + 2) | Some o' \<Rightarrow> Some o') result = Inr (s, off)"
  | "at < length p" "p ! at = 0" "s = result" "off = (case jumped of None \<Rightarrow> at + 1 | Some o' \<Rightarrow> o')"
  | label where "at < length p" "p ! at AND 0xc0 = 0" "p ! at \<noteq> 0" "at + 1 + unat (p ! at) \<le> length p"
      "label_bytes (take (unat (p ! at)) (drop (at + 1) p)) = Inr label"
      "length ((if result \<noteq> [] then result @ ''.'' else result) @ label) \<le> 253"
      "name_loop hops p (at + 1 + unat (p ! at)) jumped
         ((if result \<noteq> [] then result @ ''.'' else result) @ label) = Inr (s, off)"
proof (cases "p ! at AND 0xc0 = 0xc0")
  case True
  show ?thesis
  proof (rule that(1) [OF _ True refl])
  qed (use assms True in \<open>auto simp: name_loop.simps Let_def split: if_splits option.splits\<close>)
next
  case ptr: False
  show ?thesis
  proof (cases "p ! at = 0")
    case True
    then show ?thesis using assms ptr that(2)
      by (auto simp: name_loop.simps Let_def split: if_splits option.splits)
  next
    case False
    from assms ptr False obtain label where
      l: "at < length p" "p ! at AND 0xc0 = 0" "\<not> unat (p ! at) > length p - (at + 1)"
      "label_bytes (take (unat (p ! at)) (drop (at + 1) p)) = Inr label"
      "length ((if result \<noteq> [] then result @ ''.'' else result) @ label) \<le> 253"
      "name_loop hops p (at + 1 + unat (p ! at)) jumped
         ((if result \<noteq> [] then result @ ''.'' else result) @ label) = Inr (s, off)"
      by (auto simp: name_loop.simps Let_def split: if_splits)
    then show ?thesis using that(3) [OF l(1,2) False _ l(4,5,6)] by simp
  qed
qed

lemma name_loop_0 [simp]: "name_loop 0 p at jumped result \<noteq> Inr x"
  by (simp add: name_loop.simps)

lemma name_loop_chars:
  "name_loop hops p at jumped result = Inr (s, off) \<Longrightarrow> length result \<le> 253 \<Longrightarrow> list_all name_char result \<Longrightarrow>
   length s \<le> 253 \<and> list_all name_char s"
proof (induction hops arbitrary: at jumped result)
  case (Suc hops)
  from Suc.prems(1) show ?case
  proof (cases rule: name_loop_cases)
    case (label label)
    have "name_char CHR ''.''" by (simp add: name_char_def)
    then show ?thesis
      using Suc.IH [OF label(7)] label(5,6) Suc.prems(3) label_bytes_chars [OF label(5)] by auto
  qed (use Suc in auto)
qed simp

lemma name_loop_off:
  "name_loop hops p at jumped result = Inr (s, off) \<Longrightarrow>
   (case jumped of
      None \<Rightarrow> at < off \<and> off \<le> length p \<and>
        off + length result \<le> at + length s + (if result = [] then 3 else 2)
    | Some o' \<Rightarrow> off = o') \<and> length result \<le> length s"
proof (induction hops arbitrary: at jumped result)
  case (Suc hops)
  from Suc.prems(1) show ?case
  proof (cases rule: name_loop_cases)
    case (jump target)
    then show ?thesis using Suc.IH [OF jump(6)] by (auto split: option.splits)
  next
    case fin
    then show ?thesis by (auto split: option.splits)
  next
    case (label label)
    from label_bytes_chars [OF label(5)] label(4) have len: "length label = unat (p ! at)" by simp
    moreover have "unat (p ! at) \<noteq> 0" using label(3) by (simp add: unat_eq_0)
    ultimately show ?thesis using Suc.IH [OF label(7)] label(4)
      by (cases "result = []") (auto split: option.splits if_splits)
  qed
qed simp

lemma dns_name_bounds:
  assumes "dns_name p at = Inr (s, off)"
  shows "at < off" "off \<le> length p" "off \<le> at + length s + 3" "length s \<le> 253" "list_all name_char s"
  using name_loop_off [of 128 p at None "[]" s off] name_loop_chars [of 128 p at None "[]" s off] assms
  by (auto simp: dns_name_def)

text \<open>A name that was read stays the same when bytes are appended.\<close>

lemma name_loop_append:
  "name_loop hops p at jumped result = Inr (s, off) \<Longrightarrow>
   name_loop hops (p @ q) at jumped result = Inr (s, off)"
proof (induction hops arbitrary: at jumped result)
  case (Suc hops)
  from Suc.prems(1) show ?case
  proof (cases rule: name_loop_cases)
    case (jump target)
    then have "name_loop hops (p @ q) target (case jumped of None \<Rightarrow> Some (at + 2) | Some o' \<Rightarrow> Some o') result = Inr (s, off)"
      using Suc.IH by blast
    then show ?thesis using jump
      by (simp add: name_loop.simps Let_def nth_append cong: option.case_cong)
  next
    case fin
    then show ?thesis by (simp add: name_loop.simps Let_def nth_append split: option.splits)
  next
    case (label label)
    have "name_loop hops (p @ q) (at + 1 + unat (p ! at)) jumped
         ((if result \<noteq> [] then result @ ''.'' else result) @ label) = Inr (s, off)"
      using Suc.IH label(7) by blast
    moreover have "p ! at AND 0xc0 \<noteq> 0xc0" using label(2) by simp
    ultimately show ?thesis using label
      by (simp add: name_loop.simps Let_def nth_append)
  qed
qed simp

text \<open>Names at or after the header do not depend on the header.\<close>

lemma name_loop_header:
  "length p = length p' \<Longrightarrow> drop 12 p = drop 12 p' \<Longrightarrow> 12 \<le> at \<Longrightarrow>
   name_loop hops p at jumped result = name_loop hops p' at jumped result"
proof (induction hops arbitrary: at jumped result)
  case (Suc hops)
  have nth: "p ! i = p' ! i" if "12 \<le> i" "i < length p" for i
  proof -
    have "drop 12 p ! (i - 12) = drop 12 p' ! (i - 12)" using Suc.prems(2) by simp
    then show ?thesis using that Suc.prems(1) by simp
  qed
  have drp: "drop i p = drop i p'" if "12 \<le> i" for i
    using Suc.prems(2) that by (metis drop_drop le_add_diff_inverse2)
  show ?case
    using Suc.prems Suc.IH nth [of at] nth [of "at + 1"] drp [of "at + 1"]
    by (simp add: name_loop.simps Let_def not_less bindE_def cong: if_cong split: sum.splits)
qed (simp add: name_loop.simps)

lemma name_loop_jumped:
  "name_loop hops p at None result = Inr (s, off) \<Longrightarrow>
   name_loop hops p at (Some o') result = Inr (s, o')"
proof -
  have "name_loop hops p at jumped result = Inr (s, off) \<Longrightarrow>
    name_loop hops p at (Some o') result = Inr (s, o')" for jumped
  proof (induction hops arbitrary: at jumped result)
    case (Suc hops)
    from Suc.prems(1) show ?case
    proof (cases rule: name_loop_cases)
      case (jump target)
      then show ?thesis using Suc.IH [OF jump(6)] by (simp add: name_loop.simps Let_def)
    next
      case fin
      then show ?thesis by (simp add: name_loop.simps Let_def)
    next
      case (label label)
      moreover have "p ! at AND 0xc0 \<noteq> 0xc0" using label(2) by simp
      ultimately show ?thesis using Suc.IH [OF label(7)] by (simp add: name_loop.simps Let_def)
    qed
  qed simp
  then show "name_loop hops p at None result = Inr (s, off) \<Longrightarrow>
   name_loop hops p at (Some o') result = Inr (s, o')" .
qed

lemma name_loop_more_hops:
  "name_loop hops p at jumped result = Inr (s, off) \<Longrightarrow> hops \<le> hops' \<Longrightarrow>
   name_loop hops' p at jumped result = Inr (s, off)"
proof (induction hops arbitrary: hops' at jumped result)
  case (Suc hops)
  then obtain h where h: "hops' = Suc h" "hops \<le> h" by (cases hops') auto
  from Suc.prems(1) show ?case
  proof (cases rule: name_loop_cases)
    case (jump target)
    then show ?thesis using Suc.IH [OF jump(6) h(2)]
      by (simp add: name_loop.simps Let_def h cong: option.case_cong)
  next
    case fin
    then show ?thesis by (simp add: name_loop.simps Let_def h split: option.splits)
  next
    case (label label)
    moreover have "p ! at AND 0xc0 \<noteq> 0xc0" using label(2) by simp
    ultimately show ?thesis using Suc.IH [OF label(7) h(2)] by (simp add: name_loop.simps Let_def h)
  qed
qed simp

section \<open>Names on the wire\<close>

definition wire_labels :: "string list \<Rightarrow> packet" where
  "wire_labels ls = concat (map (\<lambda>l. of_nat (length l) # map ord l) ls)"

lemma small_length_byte:
  assumes "0 < n" "n \<le> 63"
  shows "unat (of_nat n :: byte) = n" "(of_nat n :: byte) AND 0xc0 = 0" "(of_nat n :: byte) \<noteq> 0"
proof -
  show u: "unat (of_nat n :: byte) = n" using assms by (simp add: unat_of_nat)
  show "(of_nat n :: byte) \<noteq> 0" using assms u by (metis less_numeral_extra(3) unat_0)
  have "unat (of_nat n :: byte) < 64" using u assms by simp
  then show "(of_nat n :: byte) AND 0xc0 = 0"
    by (rule word_cases_below [rotated]) code_simp
qed

lemma good_label_bytes:
  assumes "good_label pattern False l"
  shows "label_bytes (map ord l) = Inr l"
proof -
  have *: "32 < code c \<and> code c < 127 \<and> c \<noteq> CHR ''.'' \<and> lower_ascii c = c" if "c \<in> set l" for c
    using label_char_props [OF good_label_char [OF assms that]] by auto
  then have "map (lower_ascii \<circ> chr) (map ord l) = l"
    by (simp add: map_idI)
  then show ?thesis using * by (auto simp: label_bytes_Inr list_all_iff)
qed

lemma query_labels_join:
  "ls \<noteq> [] \<Longrightarrow> list_all (good_label pattern False) ls \<Longrightarrow> query_labels (join_labels ls) = wire_labels ls"
proof (induction ls rule: join_labels.induct)
  case (2 l)
  then have "l \<noteq> []" "CHR ''.'' \<notin> set l"
    using good_label_length [of pattern False l] by (auto simp: good_label_def)
  then show ?case by (subst query_labels.simps) (simp add: takeWhile_label wire_labels_def)
next
  case (3 l l' ls)
  then have "l \<noteq> []" "CHR ''.'' \<notin> set l"
    using good_label_length [of pattern False l] by (auto simp: good_label_def)
  then show ?case using 3 by (subst query_labels.simps) (simp add: takeWhile_label wire_labels_def)
qed simp

lemma name_loop_wire:
  assumes "list_all (good_label pattern False) ls" "length ls < hops"
    and "length (result @ (if result \<noteq> [] \<and> ls \<noteq> [] then ''.'' else []) @ join_labels ls) \<le> 253"
  shows "name_loop hops (pre @ wire_labels ls @ 0 # post) (length pre) None result =
    Inr (result @ (if result \<noteq> [] \<and> ls \<noteq> [] then ''.'' else []) @ join_labels ls,
         length pre + length (wire_labels ls) + 1)"
  using assms
proof (induction ls arbitrary: pre result hops)
  case Nil
  then show ?case by (cases hops) (simp_all add: name_loop.simps wire_labels_def Let_def nth_append)
next
  case (Cons l ls)
  then obtain h where h: "hops = Suc h" "length ls < h" by (cases hops) auto
  let ?len = "of_nat (length l) :: byte"
  let ?pre = "pre @ ?len # map ord l"
  let ?res = "(if result \<noteq> [] then result @ ''.'' else result) @ l"
  have good: "good_label pattern False l" using Cons.prems(1) by simp
  then have l: "0 < length l" "length l \<le> 63" using good_label_length by auto
  note len = small_length_byte [OF l]
  have p: "pre @ wire_labels (l # ls) @ 0 # post = ?pre @ wire_labels ls @ 0 # post"
    by (simp add: wire_labels_def)
  have join: "result @ (if result \<noteq> [] then ''.'' else []) @ join_labels (l # ls) =
    ?res @ (if ls \<noteq> [] then ''.'' else []) @ join_labels ls"
    by (cases ls) auto
  have IH: "name_loop h (?pre @ wire_labels ls @ 0 # post) (length ?pre) None ?res =
    Inr (?res @ (if ls \<noteq> [] then ''.'' else []) @ join_labels ls, length ?pre + length (wire_labels ls) + 1)"
    using Cons.IH [of h ?res ?pre] Cons.prems(1,3) h(2) l(1) join by (auto split: if_splits)
  have fits: "\<not> 253 < length ?res"
    using Cons.prems(3) join by auto
  have "name_loop hops (pre @ wire_labels (l # ls) @ 0 # post) (length pre) None result =
    name_loop h (?pre @ wire_labels ls @ 0 # post) (length ?pre) None ?res"
    using len good_label_bytes [OF good] fits
    by (simp add: p h name_loop.simps Let_def nth_append)
  then show ?case using IH join l(1) by (simp add: wire_labels_def)
qed

lemma join_labels_count:
  "list_all (good_label pattern hostname) ls \<Longrightarrow> 2 * length ls \<le> length (join_labels ls) + 1"
proof (induction ls rule: join_labels.induct)
  case (2 l)
  then show ?case using good_label_length [of pattern hostname l] by (cases l) auto
next
  case (3 l l' ls)
  then show ?case using good_label_length [of pattern hostname l] by (cases l) auto
qed simp

lemma wire_labels_length:
  "ls \<noteq> [] \<Longrightarrow> length (wire_labels ls) = length (join_labels ls) + 1"
  by (induction ls rule: join_labels.induct) (auto simp: wire_labels_def)

section \<open>Parsing questions\<close>

lemma parse_question_Inr_iff:
  "parse_question p = Inr q \<longleftrightarrow>
     12 \<le> length p \<and> length p \<le> 65535 \<and> word p 4 = Inr 1 \<and> word p 0 = Inr (q_id q) \<and>
     word p 2 = Inr (q_flags q) \<and> q_flags q AND 0x7800 = 0 \<and>
     (\<exists>off. dns_name p 12 = Inr (q_name q, off) \<and> word p off = Inr (q_type q) \<and>
        word p (off + 2) = Inr (q_klass q) \<and> q_end q = off + 4)"
  by (cases q) (auto simp: parse_question_def not_less)

lemma parse_question_bounds:
  assumes "parse_question p = Inr q"
  shows "q_end q \<le> length p" "17 \<le> q_end q" "q_end q \<le> 19 + length (q_name q)"
    "length (q_name q) \<le> 253" "list_all name_char (q_name q)"
proof -
  from assms obtain off where "dns_name p 12 = Inr (q_name q, off)" "word p (off + 2) = Inr (q_klass q)"
    "q_end q = off + 4" by (auto simp: parse_question_Inr_iff)
  with dns_name_bounds [of p 12 "q_name q" off]
  show "q_end q \<le> length p" "17 \<le> q_end q" "q_end q \<le> 19 + length (q_name q)"
    "length (q_name q) \<le> 253" "list_all name_char (q_name q)"
    by (auto simp: word_Inr_iff)
qed

lemma make_query_question:
  assumes "normalize_dns_name hostname False = Inr nm"
  shows "\<exists>p. make_query rnd hostname ty = Inr p \<and> length p = 18 + length nm \<and>
    word p 6 = Inr 0 \<and> word p 8 = Inr 0 \<and> word p 10 = Inr 0 \<and> parse_question p = Inr \<lparr>q_id = rnd, q_flags = 0x0100, q_type = ty, q_klass = 1,
      q_name = nm, q_end = length p\<rparr>"
proof -
  from assms normalize_sound [of hostname False False nm] obtain ls where
    ls: "ls \<noteq> []" "list_all (good_label False False) ls" "nm = join_labels ls" "length nm \<le> 253"
    unfolding normalize_dns_name_def normal_name_def by blast
  define pre where "pre = [ucast (drop_bit 8 rnd), ucast rnd :: byte, 1, 0, 0, 1, 0, 0, 0, 0, 0, 0]"
  define p where "p = pre @ wire_labels ls @ 0 #
    [ucast (drop_bit 8 ty), ucast ty, ucast (drop_bit 8 1 :: 16 word), ucast (1 :: 16 word)]"
  have p: "make_query rnd hostname ty = Inr p"
    using assms query_labels_join [OF ls(1,2)] ls(3)
    by (simp add: make_query_def append_word_def p_def pre_def)
  have len: "length pre = 12" "length (wire_labels ls) = length nm + 1"
    using wire_labels_length [OF ls(1)] ls(3) by (simp_all add: pre_def)
  have hops: "length ls < 128" using join_labels_count [OF ls(2)] ls(3,4) by simp
  have name: "dns_name p 12 = Inr (nm, 12 + length nm + 2)"
    using name_loop_wire [OF ls(2) hops, of "[]" pre] ls(3,4) len
    by (simp add: dns_name_def p_def)
  have w: "word p 0 = Inr rnd" "word p 2 = Inr 0x0100" "word p 4 = Inr 1"
    "word p 6 = Inr 0" "word p 8 = Inr 0" "word p 10 = Inr 0"
    using word_bytes [of rnd] by (auto simp: p_def pre_def word_def)
  have t: "word p (12 + length nm + 2) = Inr ty" "word p (12 + length nm + 2 + 2) = Inr 1"
    using word_encoded [of "pre @ wire_labels ls @ [0]" _ ty "[0, 1]"]
      word_encoded [of "pre @ wire_labels ls @ [0, ucast (drop_bit 8 ty), ucast ty]" _ 1 "[]"]
    by (simp_all add: len p_def)
  have lenp: "length p = 18 + length nm" by (simp add: p_def len)
  have "parse_question p = Inr \<lparr>q_id = rnd, q_flags = 0x0100, q_type = ty, q_klass = 1,
      q_name = nm, q_end = length p\<rparr>"
    unfolding parse_question_Inr_iff using name w t lenp ls(4) by (intro conjI exI) (simp_all)
  then show ?thesis using p lenp w(4-6) by blast
qed

text \<open>C3: For every hostname that normalises, make_query builds a packet of the expected length
  which parse_question reads back to the same id, type, class and name.\<close>

theorem make_query_parses:
  assumes "normalize_dns_name hostname False = Inr nm"
  shows "\<exists>p. make_query rnd hostname ty = Inr p \<and> length p = 18 + length nm \<and>
    parse_question p = Inr \<lparr>q_id = rnd, q_flags = 0x0100, q_type = ty, q_klass = 1,
      q_name = nm, q_end = length p\<rparr>"
  using make_query_question [OF assms] by blast

end
