(* ===== verification/Dns_Messages.thy ===== *)
theory Dns_Messages
  imports Dns_Names
begin

text \<open>
  Facts about whole messages: the UDP size limit, the responses the service makes up itself
  (errors, block responses, truncated responses) and how its own parser reads them, alias
  chains, which answers may be cached, and the TTL fields that clamping and ageing rewrite.
\<close>

section \<open>EDNS and the UDP size limit\<close>

lemma edns_loop_payload:
  "edns_loop request aa n index at r = Inr (at', r') \<Longrightarrow>
   512 \<le> ed_payload r \<and> ed_payload r \<le> 1232 \<Longrightarrow> 512 \<le> ed_payload r' \<and> ed_payload r' \<le> 1232"
proof (induction n arbitrary: index at r)
  case (Suc n)
  from Suc.prems(1) obtain at2 r2 where rec: "edns_loop request aa n (Suc index) at2 r2 = Inr (at', r')"
    and r2: "r2 = r \<or> (\<exists>d k. r2 = \<lparr>ed_present = True, ed_do_bit = d, ed_payload = min (max k 512) 1232\<rparr>)"
    by (auto split: if_splits)
  have "512 \<le> ed_payload r2 \<and> ed_payload r2 \<le> 1232"
    using r2 Suc.prems(2) by (auto simp: min_def max_def)
  then show ?case by (rule Suc.IH [OF rec])
qed simp

lemma client_udp_payload_bounds:
  assumes "client_udp_payload_size request = Inr limit"
  shows "512 \<le> unat limit" "unat limit \<le> 1232"
proof -
  from assms obtain question e where "edns_request request question = Inr e"
    and l: "limit = (if ed_present e then ed_payload e else 512)"
    by (auto simp: client_udp_payload_size_def)
  then obtain aa n at at' where
    "edns_loop request aa n 0 at \<lparr>ed_present = False, ed_do_bit = False, ed_payload = 512\<rparr> = Inr (at', e)"
    by (auto simp: edns_request_def Let_def)
  from edns_loop_payload [OF this] l have "512 \<le> limit \<and> limit \<le> 1232" by auto
  then show "512 \<le> unat limit" "unat limit \<le> 1232" by (simp_all add: word_le_nat_alt)
qed

lemma length_reset_header [simp]: "length (reset_header p flags) = length p"
  by (simp add: reset_header_def)

lemma reset_header_words:
  assumes "12 \<le> length p"
  shows "word (reset_header p flags) 0 = word p 0" "word (reset_header p flags) 2 = Inr flags"
    "word (reset_header p flags) 4 = Inr 1" "word (reset_header p flags) 6 = Inr 0"
    "word (reset_header p flags) 8 = Inr 0" "word (reset_header p flags) 10 = Inr 0"
    "drop 12 (reset_header p flags) = drop 12 p"
  using assms word_bytes [of flags]
  by (simp_all add: reset_header_def word_def nth_list_update drop_update_swap)

theorem fit_udp_response_bound:
  assumes "fit_udp_response request response = Inr r"
  shows "\<exists>limit. client_udp_payload_size request = Inr limit \<and>
    length r \<le> unat limit \<and> unat limit \<le> 1232"
proof -
  from assms obtain limit where l: "client_udp_payload_size request = Inr limit"
    by (auto simp: fit_udp_response_def)
  have "length r \<le> unat limit"
  proof (cases "length response \<le> unat limit")
    case True
    then show ?thesis using assms l by (simp add: fit_udp_response_def)
  next
    case False
    then obtain q f where "parse_question response = Inr q" "r = reset_header (take (q_end q) response) f"
      using assms l by (auto simp: fit_udp_response_def)
    with parse_question_bounds [of response q] client_udp_payload_bounds [OF l] show ?thesis by simp
  qed
  then show ?thesis using l client_udp_payload_bounds(2) by blast
qed

section \<open>Responses built from a question\<close>

text \<open>
  The question of a packet can be read from its own bytes, without following a pointer into
  a label that runs past its end, within the given number of rounds.
\<close>

definition self_contained :: "nat \<Rightarrow> packet \<Rightarrow> question \<Rightarrow> bool" where
  "self_contained hops p q \<longleftrightarrow>
     name_loop hops (take (q_end q) p) 12 None [] = Inr (q_name q, q_end q - 4)"

text \<open>A packet that starts with the question of another one, under a new header.\<close>

definition same_question :: "packet \<Rightarrow> question \<Rightarrow> 16 word \<Rightarrow> packet \<Rightarrow> bool" where
  "same_question p q flags h \<longleftrightarrow>
     length h = q_end q \<and> drop 12 h = drop 12 (take (q_end q) p) \<and> word h 0 = Inr (q_id q) \<and>
     word h 2 = Inr flags \<and> word h 4 = Inr 1"

lemma same_question_name:
  assumes "same_question p q flags h" "parse_question p = Inr q" "self_contained hops p q"
  shows "name_loop hops (h @ post) 12 None [] = Inr (q_name q, q_end q - 4)"
proof -
  have "name_loop hops h 12 None [] = name_loop hops (take (q_end q) p) 12 None []"
    using assms(1) parse_question_bounds(1) [OF assms(2)]
    by (intro name_loop_header) (simp_all add: same_question_def)
  then show ?thesis using assms(3) name_loop_append by (simp add: self_contained_def)
qed

lemma drop_eq_nth: "drop n xs = drop n ys \<Longrightarrow> length xs = length ys \<Longrightarrow> n \<le> i \<Longrightarrow> i < length xs \<Longrightarrow> xs ! i = ys ! i"
  by (metis add_diff_inverse_nat leD less_imp_le nth_drop le_trans)

lemma same_question_parses:
  assumes q: "parse_question p = Inr q" and sc: "self_contained hops p q" "hops \<le> 128"
    and sq: "same_question p q flags h" and f: "flags AND 0x7800 = 0"
    and len: "length (h @ post) \<le> 65535"
  shows "parse_question (h @ post) = Inr (q\<lparr>q_flags := flags\<rparr>)"
proof -
  note b = parse_question_bounds [OF q]
  have name: "dns_name (h @ post) 12 = Inr (q_name q, q_end q - 4)"
    using name_loop_more_hops [OF same_question_name [OF sq q sc(1)] sc(2)] by (simp add: dns_name_def)
  have lh: "length h = q_end q" using sq by (simp add: same_question_def)
  from q obtain off where off: "q_end q = off + 4" "word p off = Inr (q_type q)" "word p (off + 2) = Inr (q_klass q)"
    by (auto simp: parse_question_Inr_iff)
  have nth: "h ! i = p ! i" if "12 \<le> i" "i < q_end q" for i
    using drop_eq_nth [of 12 h "take (q_end q) p" i] sq that b(1) by (simp add: same_question_def)
  have "word h i = word p i" if "12 \<le> i" "i + 2 \<le> q_end q" for i
    using that b(1) lh by (intro word_cong) (simp_all add: nth)
  then have w: "word (h @ post) (q_end q - 4) = Inr (q_type q)" "word (h @ post) (q_end q - 4 + 2) = Inr (q_klass q)"
    using off b lh by (simp_all add: word_append)
  show ?thesis
    unfolding parse_question_Inr_iff using name w sq f len b lh
    by (auto simp: same_question_def word_append)
qed

lemma synthetic_flags:
  fixes qf rcode :: "16 word"
  assumes "\<not> rcode > 15"
  defines "f \<equiv> 0x8080 OR (qf AND 0x0110) OR rcode"
  shows "f AND 0x7800 = 0" "f AND 0x8000 \<noteq> 0" "f AND 15 = rcode" "f AND 0x0200 = 0" "f AND 0x0020 = 0"
proof -
  have "unat rcode < 16" using assms(1) by (simp add: word_less_nat_alt)
  then have r: "rcode AND 0x7800 = 0 \<and> rcode AND 0x8000 = 0 \<and> rcode AND 15 = rcode \<and>
    rcode AND 0x0200 = 0 \<and> rcode AND 0x0020 = 0"
    by (rule word_cases_below [rotated]) code_simp
  have k: "(qf AND 0x0110) AND 0x7800 = 0" "(qf AND 0x0110) AND 0x8000 = 0" "(qf AND 0x0110) AND 15 = 0"
    "(qf AND 0x0110) AND 0x0200 = 0" "(qf AND 0x0110) AND 0x0020 = 0"
    by (simp_all add: and.assoc)
  show "f AND 0x7800 = 0" "f AND 0x8000 \<noteq> 0" "f AND 15 = rcode" "f AND 0x0200 = 0" "f AND 0x0020 = 0"
    unfolding f_def by (simp_all add: bit.conj_disj_distrib2 r k)
qed

text \<open>The one record of an answer without data: the OPT record.\<close>

lemma name_loop_root:
  "0 < hops \<Longrightarrow> at < length p \<Longrightarrow> p ! at = 0 \<Longrightarrow> name_loop hops p at None result = Inr (result, at + 1)"
  by (cases hops) (simp_all add: name_loop.simps Let_def)

lemma dns_name_root: "at < length p \<Longrightarrow> p ! at = 0 \<Longrightarrow> dns_name p at = Inr ([], at + 1)"
  by (simp add: dns_name_def name_loop_root)

lemma length_opt_record [simp]: "length (opt_record e) = 11"
  by (simp add: opt_record_def)

lemma opt_response_record:
  assumes "rs_at s = length h" "\<not> rs_opt_seen s" "answers + authority \<le> i"
  shows "response_record fmt (h @ opt_record e) expected answers authority i s =
    Inr (s\<lparr>rs_opt_seen := True, rs_at := length h + 11\<rparr>)"
proof -
  let ?p = "h @ opt_record e"
  have name: "dns_name ?p (length h) = Inr ([], length h + 1)"
    by (rule dns_name_root) (simp_all add: nth_append opt_record_def)
  define at where "at = length h + 1"
  have f: "word ?p at = Inr 41" "word ?p (at + 2) = Inr (ed_payload e)"
    "word ?p (at + 8) = Inr 0" "dword ?p (at + 4) =
      Inr (push_bit 8 (ucast (if ed_do_bit e then 0x80 else 0 :: byte)))" "?p ! (at + 4) = 0"
    using word_bytes [of "ed_payload e"]
    by (auto simp: at_def word_def dword_def nth_append opt_record_def)
  have l: "length ?p = at + 10" by (simp add: at_def)
  have n: "dns_name ?p (rs_at s) = Inr ([], at)" using name assms(1) by (simp add: at_def)
  show ?thesis
    unfolding response_record_def n
    using f assms(2,3) by (simp add: Let_def l) (simp add: at_def)
qed

text \<open>The answer record of a zero-address response, and the bytes after the question.\<close>

definition zero_answer :: "question \<Rightarrow> bool \<Rightarrow> packet" where
  "zero_answer q zero =
     (if zero \<and> q_klass q = 1 \<and> (q_type q = 1 \<or> q_type q = 28)
      then let len = (if q_type q = 1 then 4 else 16 :: nat) in
        [0xc0, 0x0c, 0, ucast (q_type q), 0, 1, 0, 0, 0, 0, 0, of_nat len] @ replicate len 0
      else [])"

definition synthetic_header :: "packet \<Rightarrow> question \<Rightarrow> 16 word \<Rightarrow> bool \<Rightarrow> bool \<Rightarrow> packet" where
  "synthetic_header p q flags answer opt =
     (reset_header (take (q_end q) p) flags)[7 := if answer then 1 else 0, 11 := if opt then 1 else 0]"

lemma synthetic_response_Inr:
  assumes "synthetic_response request rcode zero = Inr r" "parse_question request = Inr q"
  obtains e where "edns_request request q = Inr e" "\<not> rcode > 15"
    "q_flags q AND 0x8000 = 0"
    "r = synthetic_header request q (0x8080 OR (q_flags q AND 0x0110) OR rcode)
         (zero_answer q zero \<noteq> []) (ed_present e) @ zero_answer q zero @
       (if ed_present e then opt_record e else [])"
proof -
  note b = parse_question_bounds [OF assms(2)]
  define h where "h = reset_header (take (q_end q) request) (0x8080 OR (q_flags q AND 0x0110) OR rcode)"
  have len: "length h = q_end q" "12 \<le> length h" using b(1,2) by (simp_all add: h_def)
  have id: "h[7 := 0] = h" "h[11 := 0] = h" "\<And>v. h[7 := v, 11 := 0] = h[7 := v]"
    by (simp_all add: h_def reset_header_def list_update_swap)
  define z where "z \<longleftrightarrow> zero \<and> q_klass q = 1 \<and> (q_type q = 1 \<or> q_type q = 28)"
  from assms obtain e where e: "edns_request request q = Inr e" "\<not> rcode > 15" "q_flags q AND 0x8000 = 0"
    by (fastforce simp: synthetic_response_def)
  have "synthetic_response request rcode zero =
    Inr (let response = (if z then h[7 := 1] @ zero_answer q zero else h) in
        if ed_present e then response[11 := 1] @ opt_record e else response)"
    using e assms(2) by (cases z) (auto simp: z_def synthetic_response_def zero_answer_def h_def Let_def)
  then have r: "r = (let response = (if z then h[7 := 1] @ zero_answer q zero else h) in
        if ed_present e then response[11 := 1] @ opt_record e else response)"
    using assms(1) by simp
  have za: "zero_answer q zero \<noteq> [] \<longleftrightarrow> z" "\<not> z \<Longrightarrow> zero_answer q zero = []"
    by (auto simp: z_def zero_answer_def Let_def)
  have "r = h[7 := if z then 1 else 0, 11 := if ed_present e then 1 else 0] @ zero_answer q zero @
       (if ed_present e then opt_record e else [])"
    using len za(2) by (cases z; cases "ed_present e") (simp_all add: r Let_def id list_update_append)
  then show ?thesis
    by (intro that [OF e]) (simp add: synthetic_header_def h_def za(1))
qed

lemma same_question_synthetic:
  assumes "parse_question p = Inr q"
  shows "same_question p q f (synthetic_header p q f a b)"
    "word (synthetic_header p q f a b @ post) 6 = Inr (if a then 1 else 0)"
    "word (synthetic_header p q f a b @ post) 8 = Inr 0"
    "word (synthetic_header p q f a b @ post) 10 = Inr (if b then 1 else 0)"
proof -
  note b = parse_question_bounds [OF assms]
  let ?t = "take (q_end q) p"
  have l: "length ?t = q_end q" "12 \<le> length ?t" using b(1,2) by simp_all
  note rh = reset_header_words [OF l(2), of f]
  have "word ?t 0 = Inr (q_id q)" using assms b by (simp add: word_take parse_question_Inr_iff)
  then show "same_question p q f (synthetic_header p q f a b)"
    using l rh by (simp add: same_question_def synthetic_header_def word_update)
  show "word (synthetic_header p q f a b @ post) 6 = Inr (if a then 1 else 0)"
    "word (synthetic_header p q f a b @ post) 8 = Inr 0"
    "word (synthetic_header p q f a b @ post) 10 = Inr (if b then 1 else 0)"
    using l by (cases a; cases b; simp add: synthetic_header_def word_def nth_append reset_header_def nth_list_update)+
qed

text \<open>The state of the record loop at its start.\<close>

definition start_state :: "nat \<Rightarrow> 16 word \<Rightarrow> response_state" where
  "start_state at rcode = \<lparr>rs_at = at, rs_rcode = rcode, rs_addresses = [], rs_aliases = [],
     rs_opt_seen = False, rs_requested_answer = False, rs_transaction_signed = False,
     rs_positive_ttl = no_ttl, rs_negative_ttl = no_ttl\<rparr>"

lemma parse_response_no_alias:
  assumes "parse_question r = Inr q'" "answers_question q' q" "q_flags q' AND 0x0200 = 0"
    and "word r 6 = Inr an" "word r 8 = Inr au" "word r 10 = Inr ad"
    and "unat an + unat au + unat ad \<le> 4096"
    and "response_loop fmt r q (unat an) (unat au) (unat an + unat au + unat ad) 0
       (start_state (q_end q') (q_flags q' AND 15)) = Inr s"
    and "rs_at s = length r" "rs_aliases s = []"
    and "rs_positive_ttl s = 0 \<or> rs_positive_ttl s = no_ttl" "rs_negative_ttl s = no_ttl"
  shows "parse_response fmt r q = Inr \<lparr>an_rcode = rs_rcode s, an_truncated = False,
      an_authenticated_data = q_flags q' AND 0x0020 \<noteq> 0,
      an_addresses = map snd (filter (\<lambda>a. fst a = q_name q) (rs_addresses s)),
      an_cache_ttl = 0, an_cacheable = False\<rparr>"
  unfolding parse_response_def start_state_def [symmetric]
  using assms by (auto simp add: Let_def start_state_def [symmetric] simp del: response_loop.simps)

theorem error_response_answers:
  assumes q: "parse_question request = Inr q" and sc: "self_contained 128 request q"
    and r: "make_error_response request rcode = Inr r"
  shows "parse_question r = Inr (q\<lparr>q_flags := 0x8080 OR (q_flags q AND 0x0110) OR rcode\<rparr>) \<and>
    parse_response fmt r q = Inr \<lparr>an_rcode = rcode, an_truncated = False,
      an_authenticated_data = False, an_addresses = [], an_cache_ttl = 0, an_cacheable = False\<rparr>"
proof -
  define f where "f = 0x8080 OR (q_flags q AND 0x0110) OR rcode"
  have za: "zero_answer q False = []" by (simp add: zero_answer_def)
  obtain e where e: "\<not> rcode > 15" and r0: "r = synthetic_header request q f
      (zero_answer q False \<noteq> []) (ed_present e) @ zero_answer q False @
      (if ed_present e then opt_record e else [])"
    unfolding f_def by (rule synthetic_response_Inr [OF r [unfolded make_error_response_def] q])
  let ?h = "synthetic_header request q f False (ed_present e)" and ?opt = "if ed_present e then opt_record e else []"
  have r': "r = ?h @ ?opt" by (simp add: r0 za)
  note sq = same_question_synthetic(1) [OF q, of f False "ed_present e"]
  note w = same_question_synthetic(2-4) [OF q, of f False "ed_present e" ?opt, folded r']
  note fl = synthetic_flags [OF e, of "q_flags q", folded f_def]
  have lh: "length ?h = q_end q" using sq by (simp add: same_question_def)
  have len: "length (?h @ ?opt) \<le> 65535" using lh parse_question_bounds [OF q] by simp
  have pq: "parse_question r = Inr (q\<lparr>q_flags := f\<rparr>)"
    using same_question_parses [OF q sc _ sq fl(1) len] r' by simp
  let ?s = "start_state (q_end q) rcode"
  have loop: "response_loop fmt r q 0 0 (if ed_present e then 1 else 0) 0 ?s =
    Inr (?s\<lparr>rs_opt_seen := ed_present e, rs_at := length r\<rparr>)"
    using opt_response_record [of ?s ?h 0 0 0 fmt e q] lh by (cases "ed_present e") (simp_all add: r' start_state_def)
  have "parse_response fmt r q = Inr \<lparr>an_rcode = rcode, an_truncated = False,
      an_authenticated_data = False, an_addresses = [], an_cache_ttl = 0, an_cacheable = False\<rparr>"
    using parse_response_no_alias [OF pq, of q 0 0 "if ed_present e then 1 else 0" fmt
        "?s\<lparr>rs_opt_seen := ed_present e, rs_at := length r\<rparr>"] fl loop w
    by (cases "ed_present e") (simp_all add: answers_question_def start_state_def)
  then show ?thesis using pq by (simp add: f_def)
qed

lemma name_loop_pointer:
  "0 < hops \<Longrightarrow> at + 1 < length p \<Longrightarrow> p ! at = 0xc0 \<Longrightarrow> p ! (at + 1) = 0x0c \<Longrightarrow> 12 < at \<Longrightarrow>
   name_loop hops p at None result = name_loop (hops - 1) p 12 (Some (at + 2)) result"
  by (cases hops) (simp_all add: name_loop.simps Let_def)

lemma zero_answer_record:
  assumes h: "same_question p q f h" "parse_question p = Inr q" "self_contained 127 p q"
    and ty: "q_klass q = 1" "q_type q = 1 \<or> q_type q = 28"
    and tx0: "fmt (replicate (if q_type q = 1 then 4 else 16) 0) (q_type q = 28) = Inr text"
    and r: "r = h @ zero_answer q True @ post"
  shows "response_record fmt r q 1 0 0 (start_state (q_end q) rcode) =
    Inr ((start_state (q_end q) rcode)\<lparr>rs_at := q_end q + length (zero_answer q True),
      rs_addresses := [(q_name q, text)], rs_requested_answer := True, rs_positive_ttl := 0\<rparr>)"
proof -
  have lh: "length h = q_end q" using h(1) by (simp add: same_question_def)
  define len where "len = (if q_type q = 1 then 4 else 16 :: nat)"
  have za: "zero_answer q True = [0xc0, 0x0c, 0, ucast (q_type q), 0, 1, 0, 0, 0, 0, 0, of_nat len] @ replicate len 0"
    using ty by (simp add: zero_answer_def len_def)
  have b: "12 < q_end q" using parse_question_bounds(2) [OF h(2)] by simp
  have "name_loop 127 r 12 (Some (q_end q + 2)) [] = Inr (q_name q, q_end q + 2)"
    using name_loop_jumped [OF same_question_name [OF h, of "zero_answer q True @ post"]] by (simp add: r)
  then have "name_loop 128 r (q_end q) None [] = Inr (q_name q, q_end q + 2)"
    using name_loop_pointer [of 128 "q_end q" r "[]"] b by (simp add: r za nth_append lh)
  then have name: "dns_name r (rs_at (start_state (q_end q) rcode)) = Inr (q_name q, q_end q + 2)"
    by (simp add: dns_name_def start_state_def)
  define at where "at = q_end q + 2"
  have lr: "length r = at + 10 + len + length post" by (simp add: r za lh at_def)
  have f: "word r at = Inr (q_type q)" "word r (at + 2) = Inr 1" "word r (at + 8) = Inr (of_nat len)"
    "dword r (at + 4) = Inr 0"
    using ty(2) by (auto simp: word_def dword_def r za nth_append lh at_def len_def)
  have d: "take len (drop (at + 10) r) = replicate len 0"
    by (simp add: r za lh at_def)
  have l: "unat (of_nat len :: 16 word) = len" by (simp add: len_def)
  have tx: "fmt (take (if q_type q = 28 then 16 else 4) (drop (at + 10) r)) (q_type q = 28) = Inr text"
    using tx0 d ty(2) by (auto simp: len_def)
  have len: "q_type q = 1 \<longrightarrow> len = 4" "q_type q = 28 \<longrightarrow> len = 16" by (auto simp: len_def)
  have at: "q_end q + length (zero_answer q True) = at + (10 + len)" by (simp add: za at_def)
  show ?thesis
    unfolding response_record_def name at_def [symmetric] at
    using ty f tx l len lr by (auto simp: Let_def start_state_def)
qed
theorem block_response_zero_address:
  assumes q: "parse_question request = Inr q" and sc: "self_contained 127 request q"
    and ty: "q_klass q = 1" "q_type q = 1 \<or> q_type q = 28"
    and tx: "fmt (replicate (if q_type q = 1 then 4 else 16) 0) (q_type q = 28) = Inr addr"
    and r: "make_block_response request zero_address = Inr r"
  shows "parse_response fmt r q = Inr \<lparr>an_rcode = 0, an_truncated = False,
      an_authenticated_data = False, an_addresses = [addr], an_cache_ttl = 0, an_cacheable = False\<rparr>"
proof -
  define f where "f = 0x8080 OR (q_flags q AND 0x0110) OR 0"
  define za where "za = zero_answer q True"
  have za: "za \<noteq> []" "length za \<le> 28" using ty by (auto simp: za_def zero_answer_def)
  have syn: "synthetic_response request 0 True = Inr r" using r by (simp add: make_block_response_def)
  obtain e where e: "\<not> (0 :: 16 word) > 15" and r0: "r = synthetic_header request q f (za \<noteq> []) (ed_present e) @ za @
      (if ed_present e then opt_record e else [])"
    unfolding f_def za_def by (rule synthetic_response_Inr [OF syn q])
  let ?h = "synthetic_header request q f True (ed_present e)" and ?opt = "if ed_present e then opt_record e else []"
  have r': "r = ?h @ za @ ?opt" using r0 za(1) by simp
  note sq = same_question_synthetic(1) [OF q, of f True "ed_present e"]
  note w = same_question_synthetic(2-4) [OF q, of f True "ed_present e" "za @ ?opt", folded r']
  note fl = synthetic_flags [OF e, of "q_flags q", folded f_def]
  have lh: "length ?h = q_end q" using sq by (simp add: same_question_def)
  have len: "length (?h @ za @ ?opt) \<le> 65535" using lh parse_question_bounds [OF q] za(2) by simp
  have pq: "parse_question r = Inr (q\<lparr>q_flags := f\<rparr>)"
    using same_question_parses [OF q sc _ sq fl(1) len] r' by simp
  define s1 where "s1 = (start_state (q_end q) 0)\<lparr>rs_at := q_end q + length za,
      rs_addresses := [(q_name q, addr)], rs_requested_answer := True, rs_positive_ttl := 0\<rparr>"
  have first: "response_record fmt r q 1 0 0 (start_state (q_end q) 0) = Inr s1"
    using zero_answer_record [where fmt = fmt and r = r and post = ?opt and rcode = 0, OF sq q sc ty tx] r' by (simp add: za_def s1_def)
  have s1: "rs_at s1 = length (?h @ za)" "\<not> rs_opt_seen s1"
    using lh by (simp_all add: s1_def start_state_def)
  have second: "ed_present e \<Longrightarrow> response_record fmt r q 1 0 1 s1 =
      Inr (s1\<lparr>rs_opt_seen := True, rs_at := length r\<rparr>)"
    using opt_response_record [OF s1, of 1 0 1 fmt e q] by (simp add: r')
  have fin: "\<not> ed_present e \<Longrightarrow> s1\<lparr>rs_opt_seen := False, rs_at := length r\<rparr> = s1"
    using lh by (simp add: s1_def start_state_def r')
  have loop: "response_loop fmt r q 1 0 (1 + (if ed_present e then 1 else 0)) 0 (start_state (q_end q) 0) =
    Inr (s1\<lparr>rs_opt_seen := ed_present e, rs_at := length r\<rparr>)"
    using second fin first by (cases "ed_present e") simp_all
  show ?thesis
    using parse_response_no_alias [OF pq, of q 1 0 "if ed_present e then 1 else 0" fmt
        "s1\<lparr>rs_opt_seen := ed_present e, rs_at := length r\<rparr>"] fl loop w
    by (cases "ed_present e") (simp_all add: answers_question_def s1_def start_state_def)
qed

section \<open>Truncation\<close>

lemma truncated_flags:
  fixes f :: "16 word"
  assumes "f AND 0x7800 = 0" "f AND 0x8000 \<noteq> 0"
  shows "(f OR 0x0200) AND 0x7800 = 0" "(f OR 0x0200) AND 0x8000 \<noteq> 0" "(f OR 0x0200) AND 0x0200 \<noteq> 0"
    "(f OR 0x0200) AND 15 = f AND 15" "(f OR 0x0200) AND 0x0020 = f AND 0x0020"
  using assms by (simp_all add: bit.conj_disj_distrib2)

lemma synthetic_header_plain:
  "synthetic_header p q f False False = reset_header (take (q_end q) p) f"
  by (simp add: synthetic_header_def reset_header_def list_update_swap)

theorem fit_udp_truncates:
  assumes fit: "fit_udp_response request response = Inr r"
    and limit: "client_udp_payload_size request = Inr limit" "unat limit < length response"
    and q: "parse_question request = Inr q" and a: "parse_question response = Inr a"
    and sc: "self_contained 128 response a"
  shows "parse_response fmt r q = Inr \<lparr>an_rcode = q_flags a AND 15, an_truncated = True,
      an_authenticated_data = q_flags a AND 0x0020 \<noteq> 0, an_addresses = [],
      an_cache_ttl = 0, an_cacheable = False\<rparr>"
proof -
  from a have fl: "q_flags a AND 0x7800 = 0" "word response 2 = Inr (q_flags a)"
    by (auto simp: parse_question_Inr_iff)
  from assms have ans: "answers_question a q" and r: "r = synthetic_header response a (q_flags a OR 0x0200) False False"
    by (auto simp: fit_udp_response_def synthetic_header_plain fl)
  then have "q_flags a AND 0x8000 \<noteq> 0" by (simp add: answers_question_def)
  note tf = truncated_flags [OF fl(1) this]
  note sq = same_question_synthetic(1) [OF a, of "q_flags a OR 0x0200" False False]
  have "parse_question (r @ []) = Inr (a\<lparr>q_flags := q_flags a OR 0x0200\<rparr>)"
    using sq a parse_question_bounds(1) [OF a]
    by (intro same_question_parses [OF a sc _ _ tf(1)]) (auto simp: r same_question_def parse_question_Inr_iff)
  then show ?thesis
    using tf ans by (simp add: parse_response_def answers_question_def)
qed

section \<open>Aliases\<close>

definition alias_step :: "(string \<times> string) list \<Rightarrow> (string \<times> string) set" where
  "alias_step al = {(x, y). map_of al x = Some y}"

lemma card_map_of: "finite (dom (map_of al))" "card (dom (map_of al)) \<le> length al"
  by (simp_all add: dom_map_of_conv_image_fst finite_dom_map_of card_image_le le_trans [OF card_image_le card_length])

text \<open>
  \<open>visited\<close>: the names seen so far are the ones on the path from the first name, and each
  but the last has its successor among them.
\<close>

lemma follow_aliases_Inr:
  assumes "follow_aliases n al x R = Inr R'" "finite R" "x \<in> R"
    and "\<And>y. y \<in> R \<Longrightarrow> y \<noteq> x \<Longrightarrow> \<exists>z \<in> R. map_of al y = Some z"
    and "card R + n = length al + 2" "R \<subseteq> (alias_step al)\<^sup>* `` {s}"
  shows "R' = (alias_step al)\<^sup>* `` {s} \<or> s \<notin> R"
  using assms
proof (induction n arbitrary: x R)
  case 0
  have "y \<in> dom (map_of al)" if "y \<in> R - {x}" for y
    using 0(4) [of y] that by auto
  then have "R - {x} \<subseteq> dom (map_of al)" by (rule subsetI)
  then have "card (R - {x}) \<le> length al"
    by (rule le_trans [OF card_mono [OF card_map_of(1)] card_map_of(2)])
  then show ?case using 0(2,3,5) by simp
next
  case (Suc n)
  show ?case
  proof (cases "map_of al x")
    case None
    have R: "R' = R" using Suc.prems(1) None by simp
    have "y \<in> R" if "(s, y) \<in> (alias_step al)\<^sup>*" "s \<in> R" for y
      using that
    proof (induction rule: rtrancl_induct)
      case (step y z)
      then have "y \<in> R" "map_of al y = Some z" by (auto simp: alias_step_def)
      then show ?case using Suc.prems(4) [of y] None by (cases "y = x") auto
    qed
    then have "s \<in> R \<Longrightarrow> (alias_step al)\<^sup>* `` {s} \<subseteq> R" by auto
    then show ?thesis using R Suc.prems(6) by auto
  next
    case (Some y)
    with Suc.prems(1) have y: "y \<notin> R" "follow_aliases n al y (insert y R) = Inr R'"
      by (auto split: if_splits)
    have sy: "(s, y) \<in> (alias_step al)\<^sup>*"
      using Suc.prems(3,6) Some by (auto simp: alias_step_def intro: rtrancl_into_rtrancl)
    have next_in: "\<exists>z \<in> insert y R. map_of al w = Some z" if "w \<in> insert y R" "w \<noteq> y" for w
      using that Suc.prems(4) [of w] Some by (cases "w = x") auto
    have cd: "card (insert y R) + n = length al + 2"
      using Suc.prems(2,5) y(1) by simp
    have sub: "insert y R \<subseteq> (alias_step al)\<^sup>* `` {s}"
      using Suc.prems(6) sy by simp
    have "R' = (alias_step al)\<^sup>* `` {s} \<or> s \<notin> insert y R"
      using Suc.prems(2) by (intro Suc.IH [OF y(2) _ _ next_in cd sub]) simp_all
    then show ?thesis by (elim disjE) simp_all
  qed
qed

theorem follow_aliases_reachable:
  assumes "follow_aliases (Suc (length al)) al s {s} = Inr R"
  shows "R = {y. (s, y) \<in> (alias_step al)\<^sup>*}"
  using follow_aliases_Inr [OF assms, of s] by auto

lemma follow_aliases_Inl:
  assumes "follow_aliases n al x R = Inl e" "R \<subseteq> {y. (y, x) \<in> (alias_step al)\<^sup>*}"
    "(s, x) \<in> (alias_step al)\<^sup>*"
  shows "\<exists>y. (s, y) \<in> (alias_step al)\<^sup>* \<and> (y, y) \<in> (alias_step al)\<^sup>+"
  using assms
proof (induction n arbitrary: x R)
  case (Suc n)
  then obtain y where y: "map_of al x = Some y" by (cases "map_of al x") auto
  then have st: "(x, y) \<in> alias_step al" by (simp add: alias_step_def)
  show ?case
  proof (cases "y \<in> R")
    case True
    then have "(y, y) \<in> (alias_step al)\<^sup>+" using Suc.prems(2) st by (auto intro: rtrancl_into_trancl1)
    then show ?thesis using Suc.prems(3) st by (meson rtrancl.rtrancl_into_rtrancl)
  next
    case False
    then have "follow_aliases n al y (insert y R) = Inl e" using Suc.prems(1) y by simp
    moreover have "insert y R \<subseteq> {z. (z, y) \<in> (alias_step al)\<^sup>*}"
      using Suc.prems(2) st by (auto intro: rtrancl_into_rtrancl)
    moreover have "(s, y) \<in> (alias_step al)\<^sup>*" using Suc.prems(3) st by (rule rtrancl_into_rtrancl)
    ultimately show ?thesis by (rule Suc.IH)
  qed
qed simp

theorem follow_aliases_cycle:
  assumes "follow_aliases n al s {s} = Inl e"
  shows "\<exists>y. (s, y) \<in> (alias_step al)\<^sup>* \<and> (y, y) \<in> (alias_step al)\<^sup>+"
  by (rule follow_aliases_Inl [OF assms]) auto

section \<open>Cacheable answers\<close>

lemma below_no_ttl: "t \<noteq> no_ttl \<Longrightarrow> t < no_ttl"
proof -
  assume "t \<noteq> no_ttl"
  then have "unat t \<noteq> unat no_ttl" by (simp add: word_unat_eq_iff)
  then show ?thesis using unsigned_less [where ?'a = nat, of t] by (simp add: word_less_nat_alt)
qed

theorem cacheable_answer:
  assumes "parse_response fmt packet expected = Inr a" "an_cacheable a"
  shows "\<not> an_truncated a \<and> (an_rcode a = 0 \<or> an_rcode a = 3) \<and> 0 < an_cache_ttl a \<and>
    an_cache_ttl a < no_ttl \<and> q_type expected \<noteq> 251 \<and> q_type expected \<noteq> 252"
proof -
  have "postE (parse_response fmt packet expected) (\<lambda>a. an_cacheable a \<longrightarrow>
    \<not> an_truncated a \<and> (an_rcode a = 0 \<or> an_rcode a = 3) \<and> an_cache_ttl a \<noteq> 0 \<and>
    an_cache_ttl a \<noteq> no_ttl \<and> q_type expected \<noteq> 251 \<and> q_type expected \<noteq> 252)"
    unfolding parse_response_def by (intro postE_intros) simp_all
  from postE_D [OF this assms(1)] show ?thesis
    using assms(2) by (auto simp: word_gt_0 intro: below_no_ttl)
qed

section \<open>Rewritten TTL fields\<close>

text \<open>
  \<open>fields_mapped g offsets p r\<close>: \<open>r\<close> is \<open>p\<close> with every 32-bit field at \<open>offsets\<close> mapped by
  \<open>g\<close> and every byte outside these fields unchanged.
\<close>

definition fields_mapped :: "(32 word \<Rightarrow> 32 word) \<Rightarrow> nat list \<Rightarrow> packet \<Rightarrow> packet \<Rightarrow> bool" where
  "fields_mapped g offsets p r \<longleftrightarrow>
     length r = length p \<and>
     (\<forall>off \<in> set offsets. \<exists>t. dword p off = Inr t \<and> dword r off = Inr (g t)) \<and>
     (\<forall>i. (\<forall>off \<in> set offsets. i < off \<or> off + 4 \<le> i) \<longrightarrow> r ! i = p ! i)"

abbreviation apart :: "nat list \<Rightarrow> bool" where
  "apart \<equiv> sorted_wrt (\<lambda>a b. a + 4 \<le> b)"

lemma fields_mapped_Nil [simp]: "fields_mapped g [] p p"
  by (simp add: fields_mapped_def)

lemma fields_mapped_Cons:
  assumes t: "dword p off = Inr t" and m: "fields_mapped g offsets (put_dword p off (g t)) r"
    and a: "apart (off # offsets)"
  shows "fields_mapped g (off # offsets) p r"
proof -
  let ?p = "put_dword p off (g t)"
  have keep: "r ! i = ?p ! i" if "i < off + 4" for i
  proof -
    have "\<forall>o' \<in> set offsets. i < o' \<or> o' + 4 \<le> i"
      using that a by (auto dest: order_less_le_trans)
    then show ?thesis using m by (simp add: fields_mapped_def)
  qed
  have len: "length r = length p" "off + 4 \<le> length p"
    using m t by (simp_all add: fields_mapped_def dword_Inr_iff)
  have "dword r off = dword ?p off"
    using len by (simp add: dword_def keep)
  then have "dword r off = Inr (g t)" using len by (simp add: dword_put_dword)
  moreover have "\<exists>t. dword p o' = Inr t \<and> dword r o' = Inr (g t)" if "o' \<in> set offsets" for o'
  proof -
    have "dword ?p o' = dword p o'" using a that by (intro dword_put_dword_other) simp
    then show ?thesis using m that unfolding fields_mapped_def by metis
  qed
  moreover have "r ! i = p ! i" if "\<forall>o' \<in> set (off # offsets). i < o' \<or> o' + 4 \<le> i" for i
    using m that put_dword_other [of i off p "g t"] by (auto simp: fields_mapped_def)
  ultimately show ?thesis using t len by (simp add: fields_mapped_def)
qed

lemma clamp_loop_apart:
  assumes "clamp_loop p n at offs = Inr (Some offs')" "apart offs" "\<forall>x \<in> set offs. x + 4 \<le> at"
  shows "apart offs'"
  using assms
proof (induction n arbitrary: at offs)
  case (Suc n)
  from Suc.prems(1) obtain nm at1 offs2 len where r: "dns_name p at = Inr (nm, at1)"
    "clamp_loop p n (at1 + (10 + unat (len :: 16 word))) offs2 = Inr (Some offs')"
    "offs2 = offs \<or> offs2 = offs @ [at1 + 4]"
    by (auto split: if_splits)
  have "at < at1" by (rule dns_name_bounds(1) [OF r(1)])
  then show ?case
    using Suc.prems(2,3) r(3) by (intro Suc.IH [OF r(2)]) (fastforce simp: sorted_wrt_append)+
qed simp

lemma clamp_ttl_fields:
  "foldE (clamp_ttl_at minimum maximum) offs p = Inr r \<Longrightarrow> apart offs \<Longrightarrow>
   fields_mapped (\<lambda>t. min (max t minimum) maximum) offs p r"
proof (induction offs arbitrary: p)
  case (Cons off offs)
  from Cons.prems(1) obtain p1 where p1: "clamp_ttl_at minimum maximum off p = Inr p1"
    "foldE (clamp_ttl_at minimum maximum) offs p1 = Inr r" by auto
  then obtain t where t: "dword p off = Inr t"
    "foldE (clamp_ttl_at minimum maximum) offs (put_dword p off (min (max t minimum) maximum)) = Inr r"
    by (auto simp: clamp_ttl_at_def)
  have "apart offs" using Cons.prems(2) by simp
  from Cons.IH [OF t(2) this] show ?case by (rule fields_mapped_Cons [OF t(1) _ Cons.prems(2)])
qed simp

theorem clamp_dns_ttl_fields:
  assumes "clamp_dns_ttl fmt response minimum maximum = Inr r"
  shows "r = response \<or> (\<exists>offsets q n. parse_question response = Inr q \<and>
    clamp_loop response n (q_end q) [] = Inr (Some offsets) \<and> apart offsets \<and>
    fields_mapped (\<lambda>t. min (max t minimum) maximum) offsets response r)"
proof -
  from assms obtain q where q: "parse_question response = Inr q"
    by (auto simp: clamp_dns_ttl_def)
  have "postE (clamp_dns_ttl fmt response minimum maximum) (\<lambda>r. r = response \<or>
    (\<exists>n offsets. clamp_loop response n (q_end q) [] = Inr (Some offsets) \<and>
      foldE (clamp_ttl_at minimum maximum) offsets response = Inr r))"
    unfolding clamp_dns_ttl_def
    by (intro postE_intros) (auto simp: q postE_def split: option.splits)
  from postE_D [OF this assms] show ?thesis
    using q clamp_loop_apart [of response _ "q_end q" "[]"] clamp_ttl_fields [of minimum maximum _ response r]
    by fastforce
qed

lemma age_loop_fields:
  assumes "age_loop elapsed n at p = Inr (at', r)"
  shows "\<exists>offs. apart offs \<and> (\<forall>x \<in> set offs. at + 4 < x) \<and> length offs \<le> n \<and>
    fields_mapped (\<lambda>t. if t > elapsed then t - elapsed else 0) offs p r"
  using assms
proof (induction n arbitrary: at p)
  case 0
  then show ?case by (intro exI [of _ "[]"]) simp
next
  case (Suc n)
  let ?g = "\<lambda>t. if t > elapsed then t - elapsed else 0"
  from Suc.prems obtain nm at1 ty len p1 where r: "dns_name p at = Inr (nm, at1)"
    "(if ty \<noteq> (41 :: 16 word) then
        bindE (dword p (at1 + 4)) (\<lambda>ttl. Inr (put_dword p (at1 + 4) (?g ttl))) else Inr p) = Inr p1"
    "age_loop elapsed n (at1 + (10 + unat (len :: 16 word))) p1 = Inr (at', r)"
    by (auto split del: if_split)
  note b = dns_name_bounds(1) [OF r(1)]
  from Suc.IH [OF r(3)] obtain offs where offs: "apart offs" "\<forall>x \<in> set offs. at1 + (10 + unat len) + 4 < x"
    "length offs \<le> n" "fields_mapped ?g offs p1 r" by blast
  show ?case
  proof (cases "ty = 41")
    case True
    then show ?thesis using offs r(2) b by (intro exI [of _ offs]) auto
  next
    case False
    with r(2) obtain t where t: "dword p (at1 + 4) = Inr t" "p1 = put_dword p (at1 + 4) (?g t)" by auto
    have "apart ((at1 + 4) # offs)" using offs by auto
    then have "fields_mapped ?g ((at1 + 4) # offs) p r"
      using offs(4) t by (intro fields_mapped_Cons [OF t(1)]) simp_all
    then show ?thesis using offs b by (intro exI [of _ "(at1 + 4) # offs"]) auto
  qed
qed

theorem age_dns_response_fields:
  assumes "age_dns_response response transaction_id elapsed = Inr r"
  shows "word r 0 = Inr transaction_id \<and> (\<exists>offsets. apart offsets \<and> (\<forall>off \<in> set offsets. 16 < off) \<and>
    fields_mapped (\<lambda>t. if t > elapsed then t - elapsed else 0) offsets
      (response[0 := ucast (drop_bit 8 transaction_id), 1 := ucast transaction_id]) r)"
proof -
  let ?p = "response[0 := ucast (drop_bit 8 transaction_id), 1 := ucast transaction_id]"
  from assms obtain q n at' where q: "parse_question response = Inr q"
    "age_loop elapsed n (q_end q) ?p = Inr (at', r)"
    by (auto simp: age_dns_response_def Let_def)
  from age_loop_fields [OF q(2)] obtain offs where offs: "apart offs" "\<forall>x \<in> set offs. q_end q + 4 < x"
    "fields_mapped (\<lambda>t. if t > elapsed then t - elapsed else 0) offs ?p r" by blast
  note b = parse_question_bounds(1,2) [OF q(1)]
  have far: "\<forall>x \<in> set offs. 16 < x" using offs(2) b by auto
  have "r ! i = ?p ! i" if "i < 12" for i
  proof -
    have "\<forall>off \<in> set offs. i < off \<or> off + 4 \<le> i" using far that by auto
    then show ?thesis using offs(3) by (simp add: fields_mapped_def)
  qed
  from this [of 0] this [of 1] have "r ! 0 = ?p ! 0" "r ! 1 = ?p ! 1" "length r = length response"
    using offs(3) by (simp_all add: fields_mapped_def)
  moreover have "response \<noteq> []" using b by auto
  ultimately have "word r 0 = Inr transaction_id"
    using b word_bytes [of transaction_id] by (simp add: word_def nth_list_update)
  then show ?thesis using offs far by blast
qed

lemma fields_mapped_id:
  assumes "fields_mapped g offsets p r" "\<And>t. g t = t"
  shows "r = p"
proof (rule nth_equalityI)
  show "length r = length p" using assms by (simp add: fields_mapped_def)
  fix i
  assume "i < length r"
  show "r ! i = p ! i"
  proof (cases "\<forall>off \<in> set offsets. i < off \<or> off + 4 \<le> i")
    case True
    then show ?thesis using assms by (simp add: fields_mapped_def)
  next
    case False
    then obtain off where off: "off \<in> set offsets" "off \<le> i" "i < off + 4" by auto
    then obtain t where "dword p off = Inr t" "dword r off = Inr t"
      using assms by (auto simp: fields_mapped_def)
    from put_dword_same [OF this(1)] put_dword_same [OF this(2)]
      put_dword_nth [of off p i t] put_dword_nth [of off r i t] this off
    show ?thesis using \<open>length r = length p\<close> by (auto simp: dword_Inr_iff split: if_splits)
  qed
qed

section \<open>A sample exchange\<close>

text \<open>The query for the address of \<open>a.io\<close>, used to instantiate the theorems of this theory.\<close>

definition sample_query :: packet where
  "sample_query = [0x12, 0x34, 1, 0, 0, 1, 0, 0, 0, 0, 0, 0, 1, 97, 2, 105, 111, 0, 0, 1, 0, 1]"

definition sample_question :: question where
  "sample_question = \<lparr>q_id = 0x1234, q_flags = 0x0100, q_type = 1, q_klass = 1,
     q_name = ''a.io'', q_end = 22\<rparr>"

definition sample_reply :: packet where
  "sample_reply = [0x12, 0x34, 0x81, 0x80, 0, 1, 0, 1, 0, 0, 0, 0, 1, 97, 2, 105, 111, 0, 0, 1, 0, 1,
     0xc0, 12, 0, 1, 0, 1, 0, 0, 0, 60, 0, 4, 192, 0, 2, 7]"

lemma sample_name: "dns_name sample_query 12 = Inr (''a.io'', 18)"
  by code_simp

lemma sample_reply_name: "dns_name sample_reply 12 = Inr (''a.io'', 18)" "dns_name sample_reply 22 = Inr (''a.io'', 24)"
  by code_simp+

lemma sample_parse: "parse_question sample_query = Inr sample_question"
  unfolding parse_question_Inr_iff using sample_name
  by (auto simp: sample_query_def sample_question_def word_def)

lemma sample_reply_parse: "parse_question sample_reply = Inr (sample_question\<lparr>q_flags := 0x8180\<rparr>)"
  unfolding parse_question_Inr_iff using sample_reply_name
  by (auto simp: sample_reply_def sample_question_def word_def)

lemma sample_contained: "self_contained 127 sample_query sample_question" "self_contained 128 sample_query sample_question"
  by code_simp+

lemma sample_edns: "edns_request sample_query sample_question =
    Inr \<lparr>ed_present = False, ed_do_bit = False, ed_payload = 512\<rparr>"
  by (simp add: edns_request_def sample_query_def sample_question_def word_def)

lemma sample_limit: "client_udp_payload_size sample_query = Inr 512"
  by (simp add: client_udp_payload_size_def sample_parse sample_edns) (simp add: sample_question_def)

lemma sample_fit: "fit_udp_response sample_query sample_reply = Inr sample_reply"
  by (simp add: fit_udp_response_def sample_limit) (simp add: sample_reply_def)

definition long_reply :: packet where
  "long_reply = take 22 sample_reply @ replicate 600 0"

lemma long_reply_parse: "parse_question long_reply = Inr (sample_question\<lparr>q_flags := 0x8180\<rparr>)"
proof -
  have "name_loop 128 (take 22 sample_reply) 12 None [] = Inr (''a.io'', 18)"
    by code_simp
  then have "dns_name long_reply 12 = Inr (''a.io'', 18)"
    by (simp add: dns_name_def long_reply_def name_loop_append)
  then show ?thesis
    unfolding parse_question_Inr_iff
    by (auto simp: long_reply_def sample_reply_def sample_question_def word_def)
qed

lemma long_reply_contained: "self_contained 128 long_reply (sample_question\<lparr>q_flags := 0x8180\<rparr>)"
proof -
  have "name_loop 128 (take 22 sample_reply) 12 None [] = Inr (''a.io'', 18)"
    by code_simp
  moreover have "take 22 long_reply = take 22 sample_reply"
    by (simp add: long_reply_def sample_reply_def)
  ultimately show ?thesis by (simp add: self_contained_def sample_question_def)
qed

lemma long_reply_fit: "fit_udp_response sample_query long_reply =
    Inr (reset_header (take 22 sample_reply) 0x8380)"
  by (simp add: fit_udp_response_def sample_limit long_reply_parse sample_parse)
    (simp add: long_reply_def sample_reply_def word_def answers_question_def sample_question_def)

lemma sample_error: "make_error_response sample_query 2 =
    Inr (reset_header sample_query 0x8182)"
  by (simp add: make_error_response_def synthetic_response_def sample_parse sample_edns)
    (simp add: sample_question_def sample_query_def)

lemma sample_block: "make_block_response sample_query zero_address =
    Inr ((reset_header sample_query 0x8180)[7 := 1] @
      [0xc0, 0x0c, 0, 1, 0, 1, 0, 0, 0, 0, 0, 4, 0, 0, 0, 0])"
  by (simp add: make_block_response_def synthetic_response_def sample_parse sample_edns)
    (simp add: sample_question_def sample_query_def numeral_eq_Suc)

definition dotted :: "packet \<Rightarrow> bool \<Rightarrow> error + string" where
  "dotted bs v6 = Inr (concat (map (\<lambda>b. to_string (unat b) @ ''.'') bs))"

lemma sample_record: "response_record dotted sample_reply (sample_question\<lparr>q_flags := f\<rparr>) 1 0 0 (start_state 22 0) =
    Inr ((start_state 22 0)\<lparr>rs_at := 38, rs_addresses := [(''a.io'', ''192.0.2.7.'')],
      rs_requested_answer := True, rs_positive_ttl := 60\<rparr>)"
  by code_simp

lemma sample_answer: "parse_response dotted sample_reply (sample_question\<lparr>q_flags := f\<rparr>) =
    Inr \<lparr>an_rcode = 0, an_truncated = False, an_authenticated_data = False,
      an_addresses = [''192.0.2.7.''], an_cache_ttl = 60, an_cacheable = True\<rparr>"
proof -
  have w: "word sample_reply 6 = Inr 1" "word sample_reply 8 = Inr 0" "word sample_reply 10 = Inr 0"
    "length sample_reply = 38"
    by (simp_all add: sample_reply_def word_def)
  have "answers_question (sample_question\<lparr>q_flags := 0x8180\<rparr>) (sample_question\<lparr>q_flags := f\<rparr>)"
    by (simp add: answers_question_def sample_question_def)
  then show ?thesis
    using sample_record unfolding parse_response_def start_state_def [symmetric]
    by (simp add: sample_reply_parse w) (simp add: sample_question_def start_state_def)
qed

lemma sample_clamp: "clamp_dns_ttl dotted sample_reply 120 3600 = Inr (sample_reply[31 := 120])"
proof -
  have l: "clamp_loop sample_reply (Suc 0) 22 [] = Inr (Some [28])" by code_simp
  have w: "word sample_reply 6 = Inr 1" "word sample_reply 8 = Inr 0" "word sample_reply 10 = Inr 0"
    "dword sample_reply 28 = Inr 60" "put_dword sample_reply 28 120 = sample_reply[31 := 120]"
    by (simp_all add: sample_reply_def word_def dword_def put_dword_def)
  show ?thesis
    using l w sample_answer by (simp add: clamp_dns_ttl_def sample_reply_parse del: bindE_Inr_iff clamp_loop.simps)
      (simp add: sample_question_def clamp_ttl_at_def del: bindE_Inr_iff clamp_loop.simps)
qed

lemma sample_age: "age_dns_response sample_reply 0xbc 10 =
    Inr (sample_reply[0 := 0, 1 := 0xbc, 31 := 50])"
proof -
  have l: "age_loop 10 (Suc 0) 22 (sample_reply[0 := 0, 1 := 0xbc]) =
    Inr (38, sample_reply[0 := 0, 1 := 0xbc, 31 := 50])"
    by code_simp
  have w: "word (sample_reply[0 := 0, 1 := 0xbc]) 6 = Inr 1" "word (sample_reply[0 := 0, 1 := 0xbc]) 8 = Inr 0" "word (sample_reply[0 := 0, 1 := 0xbc]) 10 = Inr 0"
    "length sample_reply = 38"
    by (simp_all add: sample_reply_def word_def)
  show ?thesis
    using l w by (simp add: age_dns_response_def sample_reply_parse del: bindE_Inr_iff age_loop.simps)
      (simp add: sample_question_def del: bindE_Inr_iff age_loop.simps)
qed

section \<open>The properties at the sample\<close>

theorem make_query_parses_witness:
  "\<exists>p. make_query 0x1234 ''A.io.'' 1 = Inr p \<and> length p = 22 \<and> parse_question p =
    Inr \<lparr>q_id = 0x1234, q_flags = 0x0100, q_type = 1, q_klass = 1, q_name = ''a.io'', q_end = length p\<rparr>"
proof -
  have "normalize_dns_name ''A.io.'' False = Inr ''a.io''" by code_simp
  from make_query_parses [OF this, of "0x1234" 1] show ?thesis by simp
qed

theorem fit_udp_response_bound_witness:
  "\<exists>limit. client_udp_payload_size sample_query = Inr limit \<and>
    length sample_reply \<le> unat limit \<and> unat limit \<le> 1232"
  using fit_udp_response_bound [OF sample_fit] .

theorem fit_udp_truncates_witness:
  "parse_response dotted (reset_header (take 22 sample_reply) 0x8380) sample_question =
    Inr \<lparr>an_rcode = 0, an_truncated = True, an_authenticated_data = False, an_addresses = [],
      an_cache_ttl = 0, an_cacheable = False\<rparr>"
proof -
  have "unat (512 :: 16 word) < length long_reply" by (simp add: long_reply_def sample_reply_def)
  from fit_udp_truncates [OF long_reply_fit sample_limit this sample_parse long_reply_parse
      long_reply_contained, of dotted] show ?thesis by (simp add: sample_question_def)
qed

theorem error_response_answers_witness:
  "parse_question (reset_header sample_query 0x8182) = Inr (sample_question\<lparr>q_flags := 0x8182\<rparr>) \<and>
   parse_response dotted (reset_header sample_query 0x8182) sample_question =
    Inr \<lparr>an_rcode = 2, an_truncated = False, an_authenticated_data = False, an_addresses = [],
      an_cache_ttl = 0, an_cacheable = False\<rparr>"
  using error_response_answers [OF sample_parse sample_contained(2) sample_error, of dotted]
  by (simp add: sample_question_def)

theorem block_response_zero_address_witness:
  "parse_response dotted ((reset_header sample_query 0x8180)[7 := 1] @
      [0xc0, 0x0c, 0, 1, 0, 1, 0, 0, 0, 0, 0, 4, 0, 0, 0, 0]) sample_question =
    Inr \<lparr>an_rcode = 0, an_truncated = False, an_authenticated_data = False, an_addresses = [''0.0.0.0.''],
      an_cache_ttl = 0, an_cacheable = False\<rparr>"
proof -
  have ty: "q_klass sample_question = 1" "q_type sample_question = 1 \<or> q_type sample_question = 28"
    by (simp_all add: sample_question_def)
  have "dotted (replicate (if q_type sample_question = 1 then 4 else 16) 0) (q_type sample_question = 28) =
    Inr ''0.0.0.0.''" by code_simp
  from block_response_zero_address [where fmt = dotted, OF sample_parse sample_contained(1) ty this sample_block] show ?thesis .
qed

theorem follow_aliases_reachable_witness:
  "{''a'', ''b''} = {y. (''a'', y) \<in> (alias_step [(''a'', ''b'')])\<^sup>*}"
proof -
  have "follow_aliases (Suc (length [(''a'', ''b'')])) [(''a'', ''b'')] ''a'' {''a''} = Inr {''a'', ''b''}"
    by auto
  from follow_aliases_reachable [OF this] show ?thesis .
qed

theorem follow_aliases_cycle_witness:
  "\<exists>y. (''a'', y) \<in> (alias_step [(''a'', ''b''), (''b'', ''a'')])\<^sup>* \<and>
    (y, y) \<in> (alias_step [(''a'', ''b''), (''b'', ''a'')])\<^sup>+"
proof -
  have "follow_aliases 3 [(''a'', ''b''), (''b'', ''a'')] ''a'' {''a''} = Inl (malformed ''CNAME cycle'')"
    by (simp add: numeral_eq_Suc)
  from follow_aliases_cycle [OF this] show ?thesis .
qed

theorem cacheable_answer_witness:
  "\<exists>a. parse_response dotted sample_reply sample_question = Inr a \<and> an_cacheable a \<and>
    \<not> an_truncated a \<and> (an_rcode a = 0 \<or> an_rcode a = 3) \<and> 0 < an_cache_ttl a \<and>
    an_cache_ttl a < no_ttl \<and> q_type sample_question \<noteq> 251 \<and> q_type sample_question \<noteq> 252"
proof -
  have "parse_response dotted sample_reply sample_question =
    Inr \<lparr>an_rcode = 0, an_truncated = False, an_authenticated_data = False,
      an_addresses = [''192.0.2.7.''], an_cache_ttl = 60, an_cacheable = True\<rparr>"
    using sample_answer [of "q_flags sample_question"] by simp
  from cacheable_answer [OF this] this show ?thesis by auto
qed

theorem clamp_dns_ttl_fields_witness:
  "sample_reply[31 := 120] = sample_reply \<or> (\<exists>offsets q n. parse_question sample_reply = Inr q \<and>
    clamp_loop sample_reply n (q_end q) [] = Inr (Some offsets) \<and> apart offsets \<and>
    fields_mapped (\<lambda>t. min (max t 120) 3600) offsets sample_reply (sample_reply[31 := 120]))"
  using clamp_dns_ttl_fields [OF sample_clamp] .

theorem age_dns_response_fields_witness:
  "word (sample_reply[0 := 0, 1 := 0xbc, 31 := 50]) 0 = Inr 0xbc \<and>
   (\<exists>offsets. apart offsets \<and> (\<forall>off \<in> set offsets. 16 < off) \<and>
    fields_mapped (\<lambda>t. if t > 10 then t - 10 else 0) offsets
      (sample_reply[0 := ucast (drop_bit 8 (0xbc :: 16 word)), 1 := ucast (0xbc :: 16 word)])
      (sample_reply[0 := 0, 1 := 0xbc, 31 := 50]))"
  using age_dns_response_fields [OF sample_age] .

end
