(* ===== verification/Network.thy ===== *)
theory Network
  imports Names "HOL-Library.Product_Lexorder"
begin

text \<open>
  \<open>src/network.cpp\<close> and \<open>include/nativedns/network.hpp\<close>: numeric endpoints, interface
  selectors, the key of a route, the order of bootstrap resolvers, and the network monitor
  that publishes numbered snapshots of the interfaces.  \<open>inet_pton\<close> of the C library is the
  parameter \<open>inet\<close>; what \<open>platform::enumerate_interfaces\<close> returns or throws is an argument of
  \<open>refresh\<close>.
\<close>

section \<open>Numeric endpoints\<close>

record inet =
  pton4 :: "string \<Rightarrow> byte list option"
  pton6 :: "string \<Rightarrow> byte list option"

text \<open>\<open>platform::parse_ip\<close>: 16 bytes, an IPv4 address in the last four, and the IPv6 flag.\<close>

definition c_str :: "string \<Rightarrow> string" where
  "c_str s = takeWhile (\<lambda>c. code c \<noteq> 0) s"

definition parse_ip :: "inet \<Rightarrow> string \<Rightarrow> (byte list \<times> bool) option" where
  "parse_ip inet text =
     (case pton4 inet (c_str text) of
        Some v4 \<Rightarrow> Some (replicate 12 0 @ take 4 v4, False)
      | None \<Rightarrow>
          (case pton6 inet (c_str text) of
             Some v6 \<Rightarrow> Some (take 16 v6, True)
           | None \<Rightarrow> None))"

definition is_numeric_ip :: "inet \<Rightarrow> string \<Rightarrow> bool" where
  "is_numeric_ip inet text = (parse_ip inet text \<noteq> None)"

record numeric_endpoint =
  ne_address :: string
  ne_scope6 :: "32 word"
  ne_ipv6 :: bool

definition parse_numeric_endpoint :: "inet \<Rightarrow> string \<Rightarrow> error + numeric_endpoint" where
  "parse_numeric_endpoint inet text =
     (let address = takeWhile (\<lambda>c. c \<noteq> CHR ''%'') text in
      case parse_ip inet address of
        None \<Rightarrow> Inl (Error ''ENDPOINT'' ''DNS endpoint requires a numeric IPv4/IPv6 address'')
      | Some (_, ipv6) \<Rightarrow>
          (if CHR ''%'' \<in> set text then
             (let scope = from_chars (2 ^ 32) (drop (length address + 1) text) in
              if \<not> ipv6 \<or> scope = None \<or> scope = Some 0
              then Inl (Error ''ENDPOINT'' ''IPv6 scope must be a positive numeric interface index'')
              else Inr \<lparr>ne_address = address, ne_scope6 = of_nat (the scope), ne_ipv6 = ipv6\<rparr>)
           else Inr \<lparr>ne_address = address, ne_scope6 = 0, ne_ipv6 = ipv6\<rparr>))"

section \<open>Interfaces\<close>

record interface_info =
  if_id :: string
  if_name :: string
  if_description :: string
  if_dns_suffix :: string
  if_luid :: "64 word"
  if_index4 :: "32 word"
  if_index6 :: "32 word"
  if_metric4 :: "32 word"
  if_metric6 :: "32 word"
  if_mtu :: "32 word"
  if_up :: bool
  if_loopback :: bool
  if_captive_portal :: bool
  if_addresses :: "string list"
  if_dns_servers :: "string list"
  if_gateways :: "string list"

record snapshot =
  sn_generation :: "64 word"
  sn_interfaces :: "interface_info list"
  sn_error :: string

text \<open>The lambda \<open>canonical\<close> of \<open>find_interface\<close>.\<close>

definition canonical :: "string \<Rightarrow> string" where
  "canonical value =
     (let value = map lower_ascii value in
      if take 5 value = ''guid:'' then drop 5 value else value)"

definition selector_matches :: "string \<Rightarrow> string \<Rightarrow> interface_info \<Rightarrow> bool" where
  "selector_matches needle match info =
     (if match = ''name'' then
        canonical (if_name info) = needle \<or> canonical (if_description info) = needle
      else if match = ''suffix'' then canonical (if_dns_suffix info) = needle
      else canonical (if_id info) = needle \<or> to_string (unat (if_index4 info)) = needle \<or>
           to_string (unat (if_index6 info)) = needle)"

fun find_loop ::
  "string \<Rightarrow> string \<Rightarrow> interface_info list \<Rightarrow> interface_info option \<Rightarrow>
   error + interface_info option" where
  "find_loop needle match [] found = Inr found"
| "find_loop needle match (info # infos) found =
     (if selector_matches needle match info then
        (if found \<noteq> None
         then Inl (Error ''INTERFACE_AMBIGUOUS'' ''Interface selector matches multiple adapters'')
         else find_loop needle match infos (Some info))
      else find_loop needle match infos found)"

definition find_interface ::
  "snapshot \<Rightarrow> string \<Rightarrow> string \<Rightarrow> error + interface_info option" where
  "find_interface snapshot ident match =
     (let needle = canonical ident in
      bindE (requireE (match \<in> {''id'', ''guid'', ''index'', ''name'', ''suffix''})
        (Error ''NOT_IMPLEMENTED'' (''Unsupported interface selector type: '' @ match))) (\<lambda>_.
      find_loop needle match (sn_interfaces snapshot) None))"

lemma find_loop_spec:
  "find_loop needle match infos found =
     (case filter (selector_matches needle match) infos of
        [] \<Rightarrow> Inr found
      | [i] \<Rightarrow> if found = None then Inr (Some i)
          else Inl (Error ''INTERFACE_AMBIGUOUS'' ''Interface selector matches multiple adapters'')
      | _ \<Rightarrow> Inl (Error ''INTERFACE_AMBIGUOUS'' ''Interface selector matches multiple adapters''))"
  by (induction needle match infos found rule: find_loop.induct)
    (auto split: list.splits)

section \<open>Routes\<close>

definition network_route_key :: "network_route \<Rightarrow> string" where
  "network_route_key route =
     nr_interface_id route @ ''|'' @ to_string (unat (nr_index4 route)) @ ''|'' @
     to_string (unat (nr_index6 route)) @ ''|'' @ to_string (unat (nr_scope6 route)) @ ''|'' @
     to_string (unat (nr_generation route))"

text \<open>\<open>current\<close> is the generation of the shared monitor's snapshot.\<close>

definition with_network_context :: "64 word \<Rightarrow> server \<Rightarrow> server" where
  "with_network_context current server =
     (if nr_generation (srv_route server) = 0
      then server\<lparr>srv_route := (srv_route server)\<lparr>nr_generation := current\<rparr>\<rparr>
      else server)"

section \<open>Bootstrap resolvers\<close>

record candidate =
  cd_address :: string
  cd_interface_id :: string
  cd_no_gateway :: bool
  cd_metric :: "32 word"
  cd_order :: nat

text \<open>The address filter in the inner loop: false where the code says \<open>continue\<close>.\<close>

definition usable_resolver :: "byte list \<Rightarrow> bool \<Rightarrow> 32 word \<Rightarrow> bool" where
  "usable_resolver bytes ipv6 scope6 =
     (if \<not> ipv6
      then \<not> (bytes ! 12 = 0 \<or> bytes ! 12 = 127 \<or> bytes ! 12 \<ge> 224)
      else let zero_prefix = (take 15 bytes = replicate 15 0);
               placeholder = (bytes ! 0 = 0xfe \<and> bytes ! 1 = 0xc0 \<and>
                 take 4 (drop 2 bytes) = replicate 4 0 \<and>
                 bytes ! 6 = 0xff \<and> bytes ! 7 = 0xff \<and>
                 take 7 (drop 8 bytes) = replicate 7 0 \<and>
                 bytes ! 15 \<ge> 1 \<and> bytes ! 15 \<le> 3) in
        \<not> (zero_prefix \<and> bytes ! 15 \<le> 1 \<or> bytes ! 0 = 0xff) \<and>
        \<not> (placeholder \<or>
           bytes ! 0 = 0xfe \<and> (bytes ! 1) AND 0xc0 = 0x80 \<and> scope6 = 0))"

definition resolver_candidate ::
  "inet \<Rightarrow> interface_info \<Rightarrow> nat \<Rightarrow> candidate option" where
  "resolver_candidate inet info order =
     (let address = if_dns_servers info ! order in
      case parse_numeric_endpoint inet address of
        Inl _ \<Rightarrow> None
      | Inr endpoint \<Rightarrow>
          (case parse_ip inet (ne_address endpoint) of
             None \<Rightarrow> None
           | Some (bytes, ipv6) \<Rightarrow>
               if usable_resolver bytes ipv6 (ne_scope6 endpoint)
               then Some \<lparr>cd_address = address, cd_interface_id = if_id info,
                      cd_no_gateway = (if_gateways info = []),
                      cd_metric = (if ipv6 then if_metric6 info else if_metric4 info),
                      cd_order = order\<rparr>
               else None))"

definition interface_candidates :: "inet \<Rightarrow> interface_info \<Rightarrow> candidate list" where
  "interface_candidates inet info =
     (if \<not> if_up info \<or> if_loopback info then []
      else List.map_filter (resolver_candidate inet info) [0..<length (if_dns_servers info)])"

text \<open>\<open>std::tie(no_gateway, metric, interface_id, order)\<close>, compared lexicographically.\<close>

definition candidate_key :: "candidate \<Rightarrow> bool \<times> 32 word \<times> string \<times> nat" where
  "candidate_key c = (cd_no_gateway c, cd_metric c, cd_interface_id c, cd_order c)"

fun keep_first :: "string list \<Rightarrow> string list \<Rightarrow> string list" where
  "keep_first result [] = result"
| "keep_first result (a # as) =
     keep_first (if a \<in> set result then result else result @ [a]) as"

definition select_bootstrap_dns_servers :: "inet \<Rightarrow> interface_info list \<Rightarrow> string list" where
  "select_bootstrap_dns_servers inet interfaces =
     (let candidates = concat (map (interface_candidates inet) interfaces) in
      keep_first [] (map cd_address (sort_key candidate_key candidates)))"

section \<open>The network monitor\<close>

text \<open>
  One \<open>refresh\<close>: \<open>source\<close> is what the enumeration returned, or the message of what it threw.
  \<open>std::sort\<close> leaves the order of interfaces with the same id open; the model keeps it.
\<close>

definition refresh ::
  "string + interface_info list \<Rightarrow> bool \<Rightarrow> snapshot \<Rightarrow> snapshot" where
  "refresh source invalidate previous =
     (let next = (case source of
            Inr interfaces \<Rightarrow>
              \<lparr>sn_generation = 0, sn_interfaces = sort_key if_id interfaces, sn_error = []\<rparr>
          | Inl what \<Rightarrow>
              \<lparr>sn_generation = 0, sn_interfaces = sn_interfaces previous, sn_error = what\<rparr>) in
      if \<not> invalidate \<and> sn_interfaces next = sn_interfaces previous \<and>
         sn_error next = sn_error previous
      then previous
      else next\<lparr>sn_generation := sn_generation previous + 1\<rparr>)"

text \<open>The constructor: an empty snapshot, then one refresh.\<close>

definition network_monitor :: "string + interface_info list \<Rightarrow> snapshot" where
  "network_monitor source =
     refresh source False \<lparr>sn_generation = 0, sn_interfaces = [], sn_error = []\<rparr>"

section \<open>Facts about selectors and routes\<close>

lemma to_string_no_bar: "CHR ''|'' \<notin> set (to_string n)"
  using to_string_digits [of n] by (auto simp: list_all_iff is_digit_def)

lemma bar_split:
  assumes "a @ ''|'' @ x = b @ ''|'' @ y" "CHR ''|'' \<notin> set x" "CHR ''|'' \<notin> set y"
  shows "a = b \<and> x = y"
proof -
  have "\<forall>c \<in> set x. c \<noteq> CHR ''|''" "\<forall>c \<in> set y. c \<noteq> CHR ''|''" using assms(2,3) by metis+
  note bars = this
  have "takeWhile (\<lambda>c. c \<noteq> CHR ''|'') (rev (a @ ''|'' @ x)) = rev x"
    using bars(1) by (simp add: takeWhile_append2 takeWhile_tail)
  moreover have "takeWhile (\<lambda>c. c \<noteq> CHR ''|'') (rev (b @ ''|'' @ y)) = rev y"
    using bars(2) by (simp add: takeWhile_append2 takeWhile_tail)
  ultimately have "x = y" using assms(1) by (metis rev_rev_ident)
  then show ?thesis using assms(1) by simp
qed

theorem network_route_key_inj:
  "network_route_key r = network_route_key r' \<longleftrightarrow>
     r\<lparr>nr_interface_name := []\<rparr> = r'\<lparr>nr_interface_name := []\<rparr>"
proof
  assume key: "network_route_key r = network_route_key r'"
  let ?s = "\<lambda>w. to_string (unat w)"
  note split = bar_split [OF _ to_string_no_bar to_string_no_bar]
  have 1: "(nr_interface_id r @ ''|'' @ ?s (nr_index4 r) @ ''|'' @ ?s (nr_index6 r) @ ''|'' @ ?s (nr_scope6 r)) @ ''|'' @ ?s (nr_generation r) =
    (nr_interface_id r' @ ''|'' @ ?s (nr_index4 r') @ ''|'' @ ?s (nr_index6 r') @ ''|'' @ ?s (nr_scope6 r')) @ ''|'' @ ?s (nr_generation r')"
    using key by (simp add: network_route_key_def)
  from split [OF this] have 2: "(nr_interface_id r @ ''|'' @ ?s (nr_index4 r) @ ''|'' @ ?s (nr_index6 r)) @ ''|'' @ ?s (nr_scope6 r) =
    (nr_interface_id r' @ ''|'' @ ?s (nr_index4 r') @ ''|'' @ ?s (nr_index6 r')) @ ''|'' @ ?s (nr_scope6 r')"
    and g: "?s (nr_generation r) = ?s (nr_generation r')" by simp_all
  from split [OF 2] have 3: "(nr_interface_id r @ ''|'' @ ?s (nr_index4 r)) @ ''|'' @ ?s (nr_index6 r) =
    (nr_interface_id r' @ ''|'' @ ?s (nr_index4 r')) @ ''|'' @ ?s (nr_index6 r')"
    and s: "?s (nr_scope6 r) = ?s (nr_scope6 r')" by simp_all
  from split [OF 3] have 4: "nr_interface_id r @ ''|'' @ ?s (nr_index4 r) = nr_interface_id r' @ ''|'' @ ?s (nr_index4 r')"
    and i6: "?s (nr_index6 r) = ?s (nr_index6 r')" by simp_all
  from split [OF 4] g s i6 show "r\<lparr>nr_interface_name := []\<rparr> = r'\<lparr>nr_interface_name := []\<rparr>"
    by (cases r; cases r') (simp add: to_string_inj word_unat_eq_iff)
next
  assume "r\<lparr>nr_interface_name := []\<rparr> = r'\<lparr>nr_interface_name := []\<rparr>"
  then show "network_route_key r = network_route_key r'"
    by (cases r; cases r') (simp add: network_route_key_def)
qed

theorem find_interface_unique:
  assumes "match \<in> {''id'', ''guid'', ''index'', ''name'', ''suffix''}"
  shows "find_interface sn ident match =
    (case filter (selector_matches (canonical ident) match) (sn_interfaces sn) of
       [] \<Rightarrow> Inr None
     | [i] \<Rightarrow> Inr (Some i)
     | _ \<Rightarrow> Inl (Error ''INTERFACE_AMBIGUOUS'' ''Interface selector matches multiple adapters''))"
  using assms by (auto simp: find_interface_def find_loop_spec split: list.splits)

section \<open>Facts about bootstrap resolvers\<close>

lemma keep_first_set: "set (keep_first res as) = set res \<union> set as"
  by (induction res as rule: keep_first.induct) auto

lemma keep_first_distinct: "distinct res \<Longrightarrow> distinct (keep_first res as)"
  by (induction res as rule: keep_first.induct) auto

lemma resolver_candidate_Some:
  "resolver_candidate inet info k = Some c \<Longrightarrow>
   cd_address c = if_dns_servers info ! k \<and> cd_interface_id c = if_id info \<and> cd_order c = k \<and>
   (\<exists>ep bytes v6. parse_numeric_endpoint inet (cd_address c) = Inr ep \<and>
     parse_ip inet (ne_address ep) = Some (bytes, v6) \<and> usable_resolver bytes v6 (ne_scope6 ep))"
  by (auto simp: resolver_candidate_def Let_def split: sum.splits option.splits if_splits) blast+

theorem bootstrap_servers_usable:
  "distinct (select_bootstrap_dns_servers inet infos) \<and>
   (\<forall>a. a \<in> set (select_bootstrap_dns_servers inet infos) \<longleftrightarrow>
     (\<exists>info \<in> set infos. if_up info \<and> \<not> if_loopback info \<and> a \<in> set (if_dns_servers info) \<and>
       (\<exists>ep bytes v6. parse_numeric_endpoint inet a = Inr ep \<and>
         parse_ip inet (ne_address ep) = Some (bytes, v6) \<and> usable_resolver bytes v6 (ne_scope6 ep))))"
proof (intro conjI allI)
  show "distinct (select_bootstrap_dns_servers inet infos)"
    by (simp add: select_bootstrap_dns_servers_def keep_first_distinct)
  fix a
  have cand: "(\<exists>c \<in> set (interface_candidates inet info). a = cd_address c) \<longleftrightarrow>
      if_up info \<and> \<not> if_loopback info \<and> a \<in> set (if_dns_servers info) \<and>
       (\<exists>ep bytes v6. parse_numeric_endpoint inet a = Inr ep \<and>
         parse_ip inet (ne_address ep) = Some (bytes, v6) \<and> usable_resolver bytes v6 (ne_scope6 ep))"
    (is "?l \<longleftrightarrow> ?r") for info
  proof
    assume ?l
    then obtain k c where "if_up info" "\<not> if_loopback info" "k < length (if_dns_servers info)"
      "resolver_candidate inet info k = Some c" "a = cd_address c"
      by (auto simp: interface_candidates_def List.map_filter_def split: if_splits)
    with resolver_candidate_Some [of inet info k c] show ?r by (auto simp: in_set_conv_nth)
  next
    assume r: ?r
    then obtain k where k: "k < length (if_dns_servers info)" "if_dns_servers info ! k = a"
      by (auto simp: in_set_conv_nth)
    with r obtain c where c: "resolver_candidate inet info k = Some c"
      by (auto simp: resolver_candidate_def Let_def)
    moreover have "cd_address c = a" using resolver_candidate_Some [OF c] k(2) by simp
    ultimately show ?l using r k(1)
      by (auto simp: interface_candidates_def List.map_filter_def intro!: rev_image_eqI [of k])
  qed
  show "a \<in> set (select_bootstrap_dns_servers inet infos) \<longleftrightarrow>
     (\<exists>info \<in> set infos. if_up info \<and> \<not> if_loopback info \<and> a \<in> set (if_dns_servers info) \<and>
       (\<exists>ep bytes v6. parse_numeric_endpoint inet a = Inr ep \<and>
         parse_ip inet (ne_address ep) = Some (bytes, v6) \<and> usable_resolver bytes v6 (ne_scope6 ep)))"
    unfolding cand [symmetric]
    by (auto simp: select_bootstrap_dns_servers_def keep_first_set)
qed

section \<open>Facts about the monitor\<close>

abbreviation contents :: "snapshot \<Rightarrow> interface_info list \<times> string" where
  "contents s \<equiv> (sn_interfaces s, sn_error s)"

lemma refresh_cases:
  "refresh source invalidate s = s \<or>
   sn_generation (refresh source invalidate s) = sn_generation s + 1"
  by (auto simp: refresh_def Let_def split: sum.splits)

text \<open>
  A run of refreshes that does not wrap the generation counter: two snapshots with the same
  generation are equal, so the generation in a cache key identifies the interfaces.
\<close>

fun refreshes :: "((string + interface_info list) \<times> bool) list \<Rightarrow> snapshot \<Rightarrow> snapshot" where
  "refreshes [] s = s"
| "refreshes ((source, invalidate) # rs) s = refreshes rs (refresh source invalidate s)"

lemma unat_next: "unat w + 1 < 2 ^ 64 \<Longrightarrow> unat (w + 1 :: 64 word) = unat w + 1"
  by (simp add: unat_word_ariths)

lemma refreshes_generation:
  "unat (sn_generation s) + length rs < 2 ^ 64 \<Longrightarrow>
   refreshes rs s = s \<or>
   unat (sn_generation s) < unat (sn_generation (refreshes rs s))"
proof (induction rs arbitrary: s)
  case (Cons r rs)
  obtain source invalidate where r: "r = (source, invalidate)" by (cases r)
  let ?t = "refresh source invalidate s"
  from refresh_cases [of source invalidate s] show ?case
  proof
    assume "?t = s"
    then show ?thesis using Cons r by simp
  next
    assume "sn_generation ?t = sn_generation s + 1"
    then have "unat (sn_generation ?t) = unat (sn_generation s) + 1"
      using unat_next [of "sn_generation s"] Cons.prems by simp
    then show ?thesis using Cons.IH [of ?t] Cons.prems r by auto
  qed
qed simp

theorem same_generation_same_snapshot:
  assumes "unat (sn_generation s) + length rs < 2 ^ 64"
    and "sn_generation (refreshes rs s) = sn_generation s"
  shows "refreshes rs s = s"
  using refreshes_generation [OF assms(1)] assms(2) by simp

theorem refresh_contents:
  "contents (refresh source invalidate s) = (case source of
     Inr infos \<Rightarrow> (sort_key if_id infos, []) | Inl what \<Rightarrow> (sn_interfaces s, what))"
  by (auto simp: refresh_def Let_def split: sum.splits)

section \<open>The properties at sample values\<close>

definition sample_interface :: interface_info where
  "sample_interface = \<lparr>if_id = ''eth0'', if_name = ''Ethernet'', if_description = [], if_dns_suffix = [],
     if_luid = 0, if_index4 = 2, if_index6 = 2, if_metric4 = 10, if_metric6 = 10, if_mtu = 1500,
     if_up = True, if_loopback = False, if_captive_portal = False, if_addresses = [],
     if_dns_servers = [''192.0.2.53''], if_gateways = [''192.0.2.1'']\<rparr>"

definition sample_snapshot :: snapshot where
  "sample_snapshot = \<lparr>sn_generation = 1, sn_interfaces = [sample_interface], sn_error = []\<rparr>"

theorem find_interface_unique_witness:
  "find_interface sample_snapshot ''ETH0'' ''id'' = Inr (Some sample_interface)"
proof -
  have "filter (selector_matches (canonical ''ETH0'') ''id'') (sn_interfaces sample_snapshot) = [sample_interface]"
    by code_simp
  then show ?thesis using find_interface_unique [of "''id''" sample_snapshot "''ETH0''"] by simp
qed

theorem same_generation_same_snapshot_witness:
  "refreshes [(Inr [sample_interface], False)] sample_snapshot = sample_snapshot"
  by (rule same_generation_same_snapshot)
    (simp_all add: sample_snapshot_def refresh_def)

end
