(* ===== verification/Dnscrypt.thy ===== *)
theory Dnscrypt
  imports Dns_Names Network
begin

text \<open>
  The DNSCrypt codec of \<open>src/dnscrypt.cpp\<close>: server validation, relay endpoints, provider
  keys, certificate requests, extraction and selection of certificates, encrypted queries
  and responses, the relay header, and the sizes of padded TCP queries.  The functions of
  libsodium are the fields of the parameter \<open>sodium\<close>; a nonzero return code is \<open>None\<close>.
  Sockets, threads and the certificate cache of \<open>DnsCryptTransport\<close> are not modelled here.
\<close>

section \<open>Parameters\<close>

record sodium =
  sign_verify :: "packet \<Rightarrow> packet \<Rightarrow> packet \<Rightarrow> bool"
  beforenm_salsa :: "packet \<Rightarrow> packet \<Rightarrow> packet option"
  beforenm_chacha :: "packet \<Rightarrow> packet \<Rightarrow> packet option"
  easy_salsa :: "packet \<Rightarrow> packet \<Rightarrow> packet \<Rightarrow> packet option"
  easy_chacha :: "packet \<Rightarrow> packet \<Rightarrow> packet \<Rightarrow> packet option"
  open_salsa :: "packet \<Rightarrow> packet \<Rightarrow> packet \<Rightarrow> packet option"
  open_chacha :: "packet \<Rightarrow> packet \<Rightarrow> packet \<Rightarrow> packet option"
  scalarmult_base :: "packet \<Rightarrow> packet option"

abbreviation (input) mac_bytes :: nat where "mac_bytes \<equiv> 16"
abbreviation (input) query_overhead :: nat where "query_overhead \<equiv> 8 + 32 + 12 + mac_bytes"
abbreviation (input) classical_certificate_size :: nat where "classical_certificate_size \<equiv> 124"

definition cert_magic :: packet where
  "cert_magic = map ord ''DNSC''"

definition resolver_magic :: packet where
  "resolver_magic = map ord ''r6fnvWj8''"

section \<open>Fields and names\<close>

definition be16 :: "packet \<Rightarrow> nat \<Rightarrow> error + 16 word" where
  "be16 bytes at =
     (if at + 2 > length bytes then Inl (malformed ''Truncated DNS field'')
      else Inr (push_bit 8 (ucast (bytes ! at)) OR ucast (bytes ! (at + 1))))"

definition be32 :: "packet \<Rightarrow> nat \<Rightarrow> error + 32 word" where
  "be32 bytes at =
     (if at + 4 > length bytes
      then Inl (Error ''DNSCRYPT_CERT'' ''Truncated DNSCrypt certificate'')
      else Inr (push_bit 24 (ucast (bytes ! at)) OR push_bit 16 (ucast (bytes ! (at + 1))) OR
                push_bit 8 (ucast (bytes ! (at + 2))) OR ucast (bytes ! (at + 3))))"

text \<open>The loop of \<open>skip_name\<close>: at most 128 rounds.\<close>

fun skip_labels :: "nat \<Rightarrow> packet \<Rightarrow> nat \<Rightarrow> error + nat" where
  "skip_labels 0 packet at = Inl (malformed ''Too many DNS labels'')"
| "skip_labels (Suc n) packet at =
     (if at \<ge> length packet then Inl (malformed ''Truncated DNS name'')
      else let len = packet ! at; at = at + 1 in
        if len AND 0xc0 = 0xc0 then
          (if at \<ge> length packet then Inl (malformed ''Truncated DNS compression pointer'')
           else let pointer = unat (len AND 0x3f) * 256 + unat (packet ! at) in
             if pointer < 12 \<or> pointer \<ge> at - 1
             then Inl (malformed ''Invalid DNS compression pointer'')
             else Inr (at + 1))
        else if len AND 0xc0 \<noteq> 0 then Inl (malformed ''Invalid DNS label encoding'')
        else if len = 0 then Inr at
        else if unat len > 63 \<or> at + unat len > length packet
          then Inl (malformed ''Invalid DNS label length'')
        else skip_labels n packet (at + unat len))"

definition skip_name :: "packet \<Rightarrow> nat \<Rightarrow> error + nat" where
  "skip_name packet at = skip_labels 128 packet at"

section \<open>Servers\<close>

definition retryable :: "error \<Rightarrow> bool" where
  "retryable e \<longleftrightarrow> err_code e = ''TIMEOUT'' \<or> err_code e = ''SOCKET'' \<or> err_code e = ''DNS_EOF''"

definition endpoint :: "server \<Rightarrow> server" where
  "endpoint server =
     (let result = server\<lparr>srv_protocol := udp\<rparr> in
      if srv_port result = 0 then result\<lparr>srv_port := 443\<rparr> else result)"

definition parse_port :: "string \<Rightarrow> error + 16 word" where
  "parse_port text =
     (case from_chars (2 ^ 32) text of
        None \<Rightarrow> Inl (Error ''ENDPOINT'' ''Invalid relay port'')
      | Some port \<Rightarrow>
          (if port = 0 \<or> port > 65535 then Inl (Error ''ENDPOINT'' ''Invalid relay port'')
           else Inr (of_nat port)))"

text \<open>The host and the port part of a relay; \<open>None\<close> keeps the default port.\<close>

definition split_relay :: "string \<Rightarrow> error + string \<times> 16 word option" where
  "split_relay value =
     (if value = [] then Inl (Error ''ENDPOINT'' ''Anonymized DNSCrypt requires a relay endpoint'')
      else if hd value = CHR ''['' then
        (if CHR '']'' \<notin> set value then Inl (Error ''ENDPOINT'' ''Invalid relay IPv6 endpoint'')
         else let ip = takeWhile (\<lambda>c. c \<noteq> CHR '']'') (tl value);
                  rest = drop (length ip + 2) value in
           if rest = [] then Inr (ip, None)
           else if hd rest \<noteq> CHR '':'' then Inl (Error ''ENDPOINT'' ''Invalid relay endpoint'')
           else bindE (parse_port (tl rest)) (\<lambda>port. Inr (ip, Some port)))
      else
        (let ip = takeWhile (\<lambda>c. c \<noteq> CHR '':'') value; rest = drop (length ip) value in
         if rest \<noteq> [] \<and> CHR '':'' \<notin> set (tl rest)
         then bindE (parse_port (tl rest)) (\<lambda>port. Inr (ip, Some port))
         else Inr (value, None)))"

definition relay_endpoint :: "inet \<Rightarrow> server \<Rightarrow> error + server" where
  "relay_endpoint inet server =
     bindE (split_relay (srv_relay server)) (\<lambda>(ip, port).
     let relay = default_server\<lparr>srv_enabled := True, srv_protocol := udp,
           srv_timeout_ms := srv_timeout_ms server, srv_route := srv_route server,
           srv_port := (case port of None \<Rightarrow> 443 | Some p \<Rightarrow> p), srv_ip := ip\<rparr> in
     bindE (requireE (is_numeric_ip inet (srv_ip relay))
              (Error ''ENDPOINT'' ''DNSCrypt relay requires a numeric IP'')) (\<lambda>_.
     Inr relay))"

text \<open>\<open>isxdigit\<close> in the C locale, and the lambda \<open>digit\<close>.\<close>

definition is_xdigit :: "char \<Rightarrow> bool" where
  "is_xdigit c \<longleftrightarrow> is_digit c \<or> 65 \<le> code c \<and> code c \<le> 70 \<or> 97 \<le> code c \<and> code c \<le> 102"

definition hex_digit :: "char \<Rightarrow> byte" where
  "hex_digit c = (if code c \<le> 57 then ord c - 48 else (ord c OR 32) - 97 + 10)"

definition key_separator :: "char \<Rightarrow> bool" where
  "key_separator c \<longleftrightarrow> c = CHR '':'' \<or> c = CHR ''-'' \<or> c = CHR '' '' \<or> code c = 9"

fun hex_bytes :: "string \<Rightarrow> packet" where
  "hex_bytes (a # b # s) = (push_bit 4 (hex_digit a) OR hex_digit b) # hex_bytes s"
| "hex_bytes _ = []"

definition parse_dnscrypt_provider_key :: "string \<Rightarrow> error + packet" where
  "parse_dnscrypt_provider_key text =
     (let hex = filter (\<lambda>c. \<not> key_separator c) text in
      bindE (requireE (list_all is_xdigit hex)
        (Error ''DNSCRYPT_KEY'' ''Provider key contains a non-hexadecimal character'')) (\<lambda>_.
      bindE (requireE (length hex = 64)
        (Error ''DNSCRYPT_KEY'' ''Provider public key must contain 32 bytes'')) (\<lambda>_.
      Inr (hex_bytes hex))))"

definition validate_dnscrypt_server :: "inet \<Rightarrow> server \<Rightarrow> error + unit" where
  "validate_dnscrypt_server inet server =
     bindE (requireE (srv_protocol server = dnscrypt \<or> srv_protocol server = anonymized_dnscrypt)
              (Error ''PROTOCOL'' ''Expected a DNSCrypt server'')) (\<lambda>_.
     bindE (requireE (srv_ip server \<noteq> [])
              (Error ''ENDPOINT'' ''DNSCrypt server requires a numeric IP'')) (\<lambda>_.
     bindE (normalize_host (srv_provider_name server) False) (\<lambda>_.
     bindE (parse_dnscrypt_provider_key (srv_public_key server)) (\<lambda>_.
     if srv_protocol server = anonymized_dnscrypt
     then bindE (relay_endpoint inet server) (\<lambda>_. Inr ())
     else Inr ()))))"

section \<open>Certificate requests\<close>

definition padded_certificate_request :: "packet \<Rightarrow> error + packet" where
  "padded_certificate_request request =
     bindE (requireE (\<not> length request + 15 > 512)
              (Error ''DNSCRYPT_SIZE'' ''DNSCrypt certificate name is too large to pad'')) (\<lambda>_.
     let padding = 512 - length request - 15 in
     Inr (request[10 := 0, 11 := 1] @
       [0, 0, 41, 4, 208, 0, 0, 0, 0,
        of_nat ((padding + 4) div 256), of_nat (padding + 4), 0, 12,
        of_nat (padding div 256), of_nat padding] @ replicate padding 0))"

definition build_anonymized_dnscrypt_packet ::
  "inet \<Rightarrow> packet \<Rightarrow> server \<Rightarrow> error + packet" where
  "build_anonymized_dnscrypt_packet inet payload server =
     (case parse_ip inet (srv_ip server) of
        None \<Rightarrow> Inl (Error ''ENDPOINT'' ''Anonymized DNSCrypt target requires a numeric IP'')
      | Some (address, ipv6) \<Rightarrow>
          (let address = (if \<not> ipv6 then address[10 := 0xff, 11 := 0xff] else address);
               port = (if srv_port server \<noteq> 0 then srv_port server else 443) in
           Inr ([0xff, 0xff, 0xff, 0xff, 0xff, 0xff, 0xff, 0xff, 0, 0] @ address @
                [ucast (drop_bit 8 port), ucast port] @ payload)))"

definition build_anonymized_dnscrypt_certificate_packet ::
  "inet \<Rightarrow> packet \<Rightarrow> server \<Rightarrow> error + packet" where
  "build_anonymized_dnscrypt_certificate_packet inet request server =
     bindE (padded_certificate_request request) (\<lambda>p.
     build_anonymized_dnscrypt_packet inet p server)"

section \<open>Certificates\<close>

record certificate =
  ct_encryption_system :: "16 word"
  ct_resolver_public_key :: packet
  ct_client_magic :: packet
  ct_serial :: "32 word"
  ct_valid_from :: "32 word"
  ct_valid_until :: "32 word"

text \<open>The local variables of \<open>select_dnscrypt_certificate\<close>; \<open>found\<close> is \<open>selected \<noteq> None\<close>.\<close>

record selection =
  sl_selected :: "certificate option"
  sl_time_invalid :: bool

text \<open>The checks of one blob up to the signature: \<open>None\<close> where the code says \<open>continue\<close>.\<close>

definition authenticated_blob :: "sodium \<Rightarrow> packet \<Rightarrow> packet \<Rightarrow> bool" where
  "authenticated_blob sodium provider_key blob \<longleftrightarrow>
     \<not> (length blob < classical_certificate_size \<or> take 4 blob \<noteq> cert_magic) \<and>
     \<not> (blob ! 4 \<noteq> 0 \<or> blob ! 5 \<noteq> 1 \<and> blob ! 5 \<noteq> 2 \<or> blob ! 6 \<noteq> 0 \<or> blob ! 7 \<noteq> 0) \<and>
     sign_verify sodium (take 64 (drop 8 blob)) (drop 72 blob) provider_key"

definition blob_certificate :: "packet \<Rightarrow> error + certificate" where
  "blob_certificate blob =
     bindE (be32 blob 112) (\<lambda>serial.
     bindE (be32 blob 116) (\<lambda>valid_from.
     bindE (be32 blob 120) (\<lambda>valid_until.
     Inr \<lparr>ct_encryption_system = ucast (blob ! 5),
          ct_resolver_public_key = take 32 (drop 72 blob),
          ct_client_magic = take 8 (drop 104 blob),
          ct_serial = serial, ct_valid_from = valid_from, ct_valid_until = valid_until\<rparr>)))"

definition select_step ::
  "sodium \<Rightarrow> packet \<Rightarrow> 64 word \<Rightarrow> packet \<Rightarrow> selection \<Rightarrow> error + selection" where
  "select_step sodium provider_key unix_time blob s =
     (if \<not> authenticated_blob sodium provider_key blob then Inr s
      else bindE (blob_certificate blob) (\<lambda>candidate.
        if ct_encryption_system candidate = 2 \<and> take 7 (ct_client_magic candidate) = replicate 7 0
        then Inr s
        else if ct_valid_from candidate \<ge> ct_valid_until candidate then Inr s
        else if unix_time < ucast (ct_valid_from candidate) \<or>
                unix_time \<ge> ucast (ct_valid_until candidate)
        then Inr (s\<lparr>sl_time_invalid := True\<rparr>)
        else
          (case sl_selected s of
             None \<Rightarrow> Inr (s\<lparr>sl_selected := Some candidate\<rparr>)
           | Some c \<Rightarrow>
               Inr (if ct_serial candidate > ct_serial c
                    then s\<lparr>sl_selected := Some candidate\<rparr> else s))))"

definition select_dnscrypt_certificate ::
  "sodium \<Rightarrow> packet list \<Rightarrow> packet \<Rightarrow> 64 word \<Rightarrow> error + certificate" where
  "select_dnscrypt_certificate sodium blobs provider_key unix_time =
     bindE (foldE (select_step sodium provider_key unix_time) blobs
              \<lparr>sl_selected = None, sl_time_invalid = False\<rparr>) (\<lambda>s.
     case sl_selected s of
       Some c \<Rightarrow> Inr c
     | None \<Rightarrow>
         if sl_time_invalid s
         then Inl (Error ''DNSCRYPT_CERT_TIME''
           (''Authenticated DNSCrypt certificate is not valid at system time '' @
            to_string (unat unix_time)))
         else Inl (Error ''DNSCRYPT_CERT'' ''No valid supported DNSCrypt certificate''))"

text \<open>The loops of \<open>extract_dnscrypt_certificates\<close>: questions, answers, character strings.\<close>

fun skip_questions :: "nat \<Rightarrow> packet \<Rightarrow> nat \<Rightarrow> error + nat" where
  "skip_questions 0 response at = Inr at"
| "skip_questions (Suc n) response at =
     bindE (skip_name response at) (\<lambda>at.
     bindE (requireE (\<not> at + 4 > length response) (malformed ''Truncated DNS question'')) (\<lambda>_.
     skip_questions n response (at + 4)))"

text \<open>The bytes of the RDATA that are left, and the certificate so far.\<close>

function text_chunks :: "packet \<Rightarrow> packet \<Rightarrow> error + packet" where
  "text_chunks [] certificate = Inr certificate"
| "text_chunks (chunk # rdata) certificate =
     (if unat chunk > length rdata then Inl (malformed ''Invalid TXT character-string'')
      else text_chunks (drop (unat chunk) rdata) (certificate @ take (unat chunk) rdata))"
  by pat_completeness auto
termination
  by (relation "measure (\<lambda>(rdata, _). length rdata)") auto

fun extract_answers :: "nat \<Rightarrow> packet \<Rightarrow> nat \<Rightarrow> packet list \<Rightarrow> error + packet list" where
  "extract_answers 0 response at result = Inr result"
| "extract_answers (Suc n) response at result =
     bindE (skip_name response at) (\<lambda>at.
     bindE (requireE (\<not> at + 10 > length response) (malformed ''Truncated DNS answer'')) (\<lambda>_.
     bindE (be16 response at) (\<lambda>ty.
     bindE (be16 response (at + 2)) (\<lambda>klass.
     bindE (be16 response (at + 8)) (\<lambda>len.
     let at = at + 10 in
     bindE (requireE (\<not> at + unat len > length response) (malformed ''Truncated DNS RDATA'')) (\<lambda>_.
     bindE (if ty = 16 \<and> klass = 1 then
              bindE (text_chunks (take (unat len) (drop at response)) []) (\<lambda>certificate.
              Inr (result @ [certificate]))
            else Inr result) (\<lambda>result.
     extract_answers n response (at + unat len) result)))))))"

definition extract_dnscrypt_certificates :: "packet \<Rightarrow> error + packet list" where
  "extract_dnscrypt_certificates response =
     bindE (requireE (\<not> length response < 12)
              (malformed ''Short DNS certificate response'')) (\<lambda>_.
     bindE (be16 response 4) (\<lambda>questions.
     bindE (be16 response 6) (\<lambda>answers.
     bindE (skip_questions (unat questions) response 12) (\<lambda>at.
     bindE (extract_answers (unat answers) response at []) (\<lambda>result.
     bindE (requireE (result \<noteq> [])
              (Error ''DNSCRYPT_CERT'' ''Certificate response contains no TXT certificate'')) (\<lambda>_.
     Inr result))))))"

section \<open>Encryption\<close>

definition dnscrypt_shared_key :: "sodium \<Rightarrow> packet \<Rightarrow> certificate \<Rightarrow> error + packet" where
  "dnscrypt_shared_key sodium client_secret certificate =
     (case (if ct_encryption_system certificate = 1
            then beforenm_salsa sodium (ct_resolver_public_key certificate) client_secret
            else beforenm_chacha sodium (ct_resolver_public_key certificate) client_secret) of
        None \<Rightarrow> Inl (Error ''DNSCRYPT_KEY'' ''Resolver uses a weak X25519 public key'')
      | Some shared \<Rightarrow> Inr shared)"

text \<open>The size of the padded plaintext, and the padding itself.\<close>

definition padded_size :: "nat \<Rightarrow> nat \<Rightarrow> nat" where
  "padded_size request_size minimum_wire_size =
     (let needed = max (request_size + 1)
            (if minimum_wire_size > query_overhead then minimum_wire_size - query_overhead else 1)
      in (needed + 63) div 64 * 64)"

definition pad_request :: "nat \<Rightarrow> packet \<Rightarrow> packet" where
  "pad_request plain_size request = request @ 0x80 # replicate (plain_size - length request - 1) 0"

definition build_dnscrypt_query ::
  "sodium \<Rightarrow> packet \<Rightarrow> certificate \<Rightarrow> packet \<Rightarrow> packet \<Rightarrow> nat \<Rightarrow> error + packet" where
  "build_dnscrypt_query sodium request certificate client_secret client_nonce minimum_wire_size =
     bindE (requireE (\<not> (length request < 12 \<or> length request > 4000 \<or> minimum_wire_size > 4096))
              (Error ''DNSCRYPT_SIZE'' ''DNSCrypt query size is outside protocol bounds'')) (\<lambda>_.
     let plain_size = padded_size (length request) minimum_wire_size in
     bindE (requireE (\<not> plain_size + query_overhead > 4096)
              (Error ''DNSCRYPT_SIZE'' ''Encrypted DNSCrypt query exceeds 4096 bytes'')) (\<lambda>_.
     let padded = pad_request plain_size request in
     case scalarmult_base sodium client_secret of
       None \<Rightarrow> Inl (Error ''CRYPTO_INIT'' ''Cannot derive DNSCrypt client public key'')
     | Some client_public \<Rightarrow>
         bindE (dnscrypt_shared_key sodium client_secret certificate) (\<lambda>shared.
         let nonce = client_nonce @ replicate 12 0 in
         case (if ct_encryption_system certificate = 1
               then easy_salsa sodium padded nonce shared
               else easy_chacha sodium padded nonce shared) of
           None \<Rightarrow> Inl (Error ''DNSCRYPT_CRYPTO'' ''DNSCrypt query encryption failed'')
         | Some box \<Rightarrow> Inr (ct_client_magic certificate @ client_public @ client_nonce @ box))))"

text \<open>Dropping the zeros at the end, as the \<open>while\<close> loop on \<open>end\<close> does.\<close>

definition strip_zeros :: "packet \<Rightarrow> packet" where
  "strip_zeros plain = rev (dropWhile (\<lambda>b. b = 0) (rev plain))"

definition unpad_response :: "packet \<Rightarrow> error + packet" where
  "unpad_response plain =
     (let body = strip_zeros plain in
      bindE (requireE (\<not> (body = [] \<or> last body \<noteq> 0x80))
               (Error ''DNSCRYPT_PADDING'' ''Invalid DNSCrypt response padding'')) (\<lambda>_.
      let plain = butlast body in
      bindE (requireE (\<not> length plain < 12)
               (malformed ''Decrypted DNSCrypt response is too short'')) (\<lambda>_.
      Inr plain)))"

definition open_dnscrypt_response ::
  "sodium \<Rightarrow> packet \<Rightarrow> packet \<Rightarrow> packet \<Rightarrow> 16 word \<Rightarrow> error + packet" where
  "open_dnscrypt_response sodium response shared_key client_nonce encryption_system =
     bindE (requireE (\<not> (length response < 32 + mac_bytes + 1 \<or> take 8 response \<noteq> resolver_magic))
              (Error ''DNSCRYPT_RESPONSE'' ''Invalid DNSCrypt response header'')) (\<lambda>_.
     bindE (requireE (take 12 (drop 8 response) = client_nonce)
              (Error ''DNSCRYPT_NONCE'' ''DNSCrypt response nonce does not match the query'')) (\<lambda>_.
     let nonce = take 24 (drop 8 response) in
     bindE (requireE (encryption_system = 1 \<or> encryption_system = 2)
              (Error ''DNSCRYPT_CERT'' ''Unsupported DNSCrypt encryption system'')) (\<lambda>_.
     case (if encryption_system = 1
           then open_salsa sodium (drop 32 response) nonce shared_key
           else open_chacha sodium (drop 32 response) nonce shared_key) of
       None \<Rightarrow> Inl (Error ''DNSCRYPT_AUTH'' ''DNSCrypt response authentication failed'')
     | Some plain \<Rightarrow> unpad_response plain)))"

section \<open>The transport's sizes\<close>

text \<open>
  The wire size that \<open>perform\<close> asks for: \<open>pick\<close> stands for \<open>randombytes_uniform\<close>.  The
  subtraction \<open>4096 - query_overhead - request.size()\<close> is on \<open>size_t\<close> and wraps.
\<close>

definition wire_target :: "bool \<Rightarrow> (32 word \<Rightarrow> 32 word) \<Rightarrow> nat \<Rightarrow> error + nat" where
  "wire_target over_tcp pick request_size =
     (if \<not> over_tcp then Inr 512
      else let minimum_padding = 64 - request_size mod 64;
               room = (of_nat (4096 - query_overhead) :: 64 word) - of_nat request_size;
               maximum_padding = min 256 (unat room) in
        bindE (requireE (\<not> minimum_padding > maximum_padding)
          (Error ''DNSCRYPT_SIZE''
             ''DNSCrypt TCP query cannot be padded within protocol bounds'')) (\<lambda>_.
        let choices = of_nat (1 + (maximum_padding - minimum_padding) div 64) in
        Inr (query_overhead + request_size + minimum_padding + unat (pick choices) * 64)))"

end
