(* ===== verification/Dnscrypt_Facts.thy ===== *)
theory Dnscrypt_Facts
  imports Dnscrypt Dns_Messages
begin

text \<open>
  What the DNSCrypt codec guarantees: padding is undone on the way back, queries have the
  size the protocol allows, the selected certificate is authenticated, valid and has the
  greatest serial, certificate requests are padded to 512 bytes, provider keys are read back.
\<close>

section \<open>Padding\<close>

lemma unpad_pad:
  assumes "12 \<le> length p"
  shows "unpad_response (pad_request n p) = Inr p"
proof -
  have "dropWhile (\<lambda>b. b = 0) (replicate k 0 @ 0x80 # rev p) = 0x80 # rev p" for k :: nat
    by (induction k) simp_all
  then have "strip_zeros (pad_request n p) = p @ [0x80]"
    by (simp add: strip_zeros_def pad_request_def)
  then show ?thesis using assms by (simp add: unpad_response_def not_less)
qed

lemma strip_zeros_split: "\<exists>k. p = strip_zeros p @ replicate k 0"
proof -
  have "takeWhile (\<lambda>b. b = 0) (rev p) = replicate (length (takeWhile (\<lambda>b. b = 0) (rev p))) 0"
    by (rule replicate_eqI) (auto dest: set_takeWhileD)
  then have "rev p = replicate (length (takeWhile (\<lambda>b. b = 0) (rev p))) 0 @ dropWhile (\<lambda>b. b = 0) (rev p)"
    by (metis takeWhile_dropWhile_id)
  then have "p = strip_zeros p @ replicate (length (takeWhile (\<lambda>b. b = 0) (rev p))) 0"
    unfolding strip_zeros_def by (metis rev_append rev_replicate rev_rev_ident)
  then show ?thesis by blast
qed

lemma unpad_Inr:
  assumes "unpad_response padded = Inr plain"
  shows "12 \<le> length plain \<and> (\<exists>k. padded = plain @ 0x80 # replicate k 0)"
proof -
  from assms have s: "strip_zeros padded \<noteq> []" "last (strip_zeros padded) = 0x80"
    "plain = butlast (strip_zeros padded)" "12 \<le> length plain"
    by (auto simp: unpad_response_def not_less Let_def)
  then have "strip_zeros padded = plain @ [0x80]" by (metis append_butlast_last_id)
  with strip_zeros_split [of padded] s(4) show ?thesis by auto
qed

theorem dnscrypt_response_opens:
  assumes box: "(if system = 1 then open_salsa else open_chacha) sodium box (client_nonce @ resolver_nonce) shared
      = Some (pad_request n plain)"
    and "system = 1 \<or> system = 2" "length client_nonce = 12" "length resolver_nonce = 12"
    and "16 < length box" "12 \<le> length plain"
  shows "open_dnscrypt_response sodium (resolver_magic @ client_nonce @ resolver_nonce @ box)
    shared client_nonce system = Inr plain"
proof -
  have m: "length resolver_magic = 8" by (simp add: resolver_magic_def)
  show ?thesis using assms unpad_pad [of plain n]
    by (auto simp: open_dnscrypt_response_def m Let_def not_less)
qed

theorem dnscrypt_response_nonce:
  assumes "open_dnscrypt_response sodium response shared client_nonce system = Inr plain"
  shows "take 8 response = resolver_magic \<and> take 12 (drop 8 response) = client_nonce \<and>
    12 \<le> length plain \<and>
    (\<exists>padded k. (if system = 1 then open_salsa else open_chacha) sodium (drop 32 response)
       (take 24 (drop 8 response)) shared = Some padded \<and> padded = plain @ 0x80 # replicate k 0)"
  using assms unpad_Inr
  by (auto simp: open_dnscrypt_response_def split: option.splits; blast)

section \<open>Sizes\<close>

lemma padded_size_bounds:
  "r < padded_size r w" "padded_size r w mod 64 = 0" "w \<le> padded_size r w + query_overhead"
proof -
  define needed where "needed = max (r + 1) (if w > query_overhead then w - query_overhead else 1)"
  have p: "padded_size r w = (needed + 63) div 64 * 64"
    by (simp add: padded_size_def needed_def)
  have "needed \<le> (needed + 63) div 64 * 64" by presburger
  then have n: "needed \<le> padded_size r w" using p by simp
  then show "r < padded_size r w" "w \<le> padded_size r w + query_overhead"
    unfolding needed_def by (auto split: if_splits)
  show "padded_size r w mod 64 = 0" by (simp add: p)
qed

lemma padded_size_exact:
  "r < n \<Longrightarrow> n mod 64 = 0 \<Longrightarrow> padded_size r (n + query_overhead) = n"
  by (auto simp: padded_size_def max_def mod_eq_0_iff_dvd elim!: dvdE)

lemma build_dnscrypt_query_Inr:
  assumes "build_dnscrypt_query sodium request cert secret nonce w = Inr q"
  obtains public shared box where "scalarmult_base sodium secret = Some public"
    "dnscrypt_shared_key sodium secret cert = Inr shared"
    "(if ct_encryption_system cert = 1 then easy_salsa else easy_chacha) sodium
       (pad_request (padded_size (length request) w) request) (nonce @ replicate 12 0) shared = Some box"
    "q = ct_client_magic cert @ public @ nonce @ box"
    "12 \<le> length request" "length request \<le> 4000"
    "padded_size (length request) w + query_overhead \<le> 4096"
  using assms by (auto simp: build_dnscrypt_query_def Let_def not_less split: option.splits if_splits)

theorem dnscrypt_query_size:
  assumes "build_dnscrypt_query sodium request cert secret nonce w = Inr q"
    and "length (ct_client_magic cert) = 8" "length nonce = 12"
    and public: "\<And>s p. scalarmult_base sodium s = Some p \<Longrightarrow> length p = 32"
    and salsa: "\<And>m n k c. easy_salsa sodium m n k = Some c \<Longrightarrow> length c = length m + mac_bytes"
    and chacha: "\<And>m n k c. easy_chacha sodium m n k = Some c \<Longrightarrow> length c = length m + mac_bytes"
  shows "length q \<le> 4096 \<and> w \<le> length q \<and> (length q - query_overhead) mod 64 = 0 \<and>
    length request + query_overhead < length q"
  using assms(1)
proof (cases rule: build_dnscrypt_query_Inr)
  case (1 pub shared box)
  let ?n = "padded_size (length request) w"
  note b = padded_size_bounds [where r = "length request" and w = w]
  have "length (pad_request ?n request) = ?n" using b(1) by (simp add: pad_request_def)
  then have "length box = ?n + mac_bytes"
    using 1(3) salsa chacha by (auto split: if_splits)
  then have "length q = ?n + query_overhead"
    using 1(1,4) public assms(2,3) by simp
  then show ?thesis using b 1(7) by simp
qed

theorem wire_target_fits:
  assumes "wire_target True pick r = Inr w" "r \<le> 4000" "\<And>n. 0 < n \<Longrightarrow> pick n < n"
  shows "w \<le> 4096 \<and> padded_size r w + query_overhead = w"
proof -
  define mn where "mn = 64 - r mod 64"
  define mx where "mx = min 256 (4028 - r)"
  have "(of_nat (4096 - query_overhead) :: 64 word) - of_nat r = of_nat (4028 - r)" using assms(2) by simp
  then have room: "unat ((of_nat (4096 - query_overhead) :: 64 word) - of_nat r) = 4028 - r"
    by (simp only: unat_of_nat) simp
  have "wire_target True pick r = bindE (requireE (\<not> mn > mx)
          (Error ''DNSCRYPT_SIZE''
             ''DNSCrypt TCP query cannot be padded within protocol bounds'')) (\<lambda>_.
     Inr (query_overhead + r + mn + unat (pick (of_nat (1 + (mx - mn) div 64))) * 64))"
    unfolding wire_target_def Let_def room by (simp only: mn_def mx_def simp_thms if_False)
  then have le: "mn \<le> mx" and w: "w = query_overhead + r + mn + unat (pick (of_nat (1 + (mx - mn) div 64))) * 64"
    using assms(1) by (auto simp: not_less bindE_def requireE_def split: if_splits)
  define c where "c = (of_nat (1 + (mx - mn) div 64) :: 32 word)"
  have c: "unat c = 1 + (mx - mn) div 64"
  proof -
    have "(mx - mn) div 64 \<le> 256" by (simp add: mx_def)
    then show ?thesis by (simp only: c_def unat_of_nat) simp
  qed
  then have "0 < c" by (simp add: word_less_nat_alt)
  from assms(3) [OF this] have k: "unat (pick c) \<le> (mx - mn) div 64"
    using c by (simp add: word_less_nat_alt)
  then have "unat (pick c) * 64 \<le> mx - mn" by simp
  then have "w \<le> query_overhead + r + mx" using w le by (simp add: c_def)
  then have "w \<le> 4096" using assms(2) by (simp add: mx_def)
  moreover define n where "n = r + mn + unat (pick c) * 64"
  have "padded_size r (n + query_overhead) = n"
  proof (rule padded_size_exact)
    show "r < n" by (simp add: mn_def n_def)
    have "(r + mn) mod 64 = 0" unfolding mn_def by presburger
    then show "n mod 64 = 0" unfolding n_def by presburger
  qed
  moreover have "w = n + query_overhead" by (simp add: w c_def n_def)
  ultimately show ?thesis by (simp only: simp_thms)
qed

section \<open>Certificate selection\<close>

text \<open>A certificate that may be selected: authenticated, well-formed and valid at the time.\<close>

definition acceptable :: "sodium \<Rightarrow> packet \<Rightarrow> 64 word \<Rightarrow> packet \<Rightarrow> certificate \<Rightarrow> bool" where
  "acceptable sodium key now blob c \<longleftrightarrow>
     authenticated_blob sodium key blob \<and> blob_certificate blob = Inr c \<and>
     \<not> (ct_encryption_system c = 2 \<and> take 7 (ct_client_magic c) = replicate 7 0) \<and>
     ct_valid_from c < ct_valid_until c \<and>
     ucast (ct_valid_from c) \<le> now \<and> now < ucast (ct_valid_until c)"

lemma blob_certificate_total:
  "authenticated_blob sodium key blob \<Longrightarrow> \<exists>c. blob_certificate blob = Inr c"
  by (auto simp: authenticated_blob_def blob_certificate_def be32_def not_less)

lemma select_step_spec:
  assumes "select_step sodium key now blob s = Inr s'"
  shows "(\<exists>c. acceptable sodium key now blob c \<and>
      sl_selected s' = (case sl_selected s of None \<Rightarrow> Some c
        | Some d \<Rightarrow> Some (if ct_serial d < ct_serial c then c else d))) \<or>
    (\<nexists>c. acceptable sodium key now blob c) \<and> sl_selected s' = sl_selected s"
proof (cases "authenticated_blob sodium key blob")
  case True
  then obtain c where c: "blob_certificate blob = Inr c" using blob_certificate_total by blast
  define p1 where "p1 \<longleftrightarrow> ct_encryption_system c = 2 \<and> take 7 (ct_client_magic c) = replicate 7 0"
  define p2 where "p2 \<longleftrightarrow> ct_valid_from c \<ge> ct_valid_until c"
  define p3 where "p3 \<longleftrightarrow> now < ucast (ct_valid_from c) \<or> now \<ge> ucast (ct_valid_until c)"
  have acc: "acceptable sodium key now blob d \<longleftrightarrow> d = c \<and> \<not> p1 \<and> \<not> p2 \<and> \<not> p3" for d
    using True c by (auto simp: acceptable_def p1_def p2_def p3_def not_le not_less)
  have "select_step sodium key now blob s = (if p1 \<or> p2 then Inr s
    else if p3 then Inr (s\<lparr>sl_time_invalid := True\<rparr>)
    else (case sl_selected s of None \<Rightarrow> Inr (s\<lparr>sl_selected := Some c\<rparr>)
      | Some d \<Rightarrow> Inr (if ct_serial c > ct_serial d then s\<lparr>sl_selected := Some c\<rparr> else s)))"
    using True c by (simp add: select_step_def p1_def p2_def p3_def)
  then show ?thesis
    unfolding acc using assms by (cases p1; cases p2; cases p3; cases "sl_selected s") auto
next
  case False
  then show ?thesis using assms by (simp add: select_step_def acceptable_def)
qed

lemma select_step_total: "\<exists>s'. select_step sodium key now blob s = Inr s'"
proof (cases "authenticated_blob sodium key blob")
  case True
  then obtain c where "blob_certificate blob = Inr c" using blob_certificate_total by blast
  then show ?thesis by (auto simp: select_step_def split: option.splits)
qed (simp add: select_step_def)

text \<open>\<open>best_of P c\<close>: \<open>c\<close> is a certificate of \<open>P\<close> with the greatest serial.\<close>

definition best_of :: "(certificate \<Rightarrow> bool) \<Rightarrow> certificate option \<Rightarrow> bool" where
  "best_of P sel = (case sel of None \<Rightarrow> \<forall>c. \<not> P c | Some c \<Rightarrow> P c \<and> (\<forall>d. P d \<longrightarrow> ct_serial d \<le> ct_serial c))"

lemma acceptable_fun: "acceptable sodium key now blob c \<Longrightarrow> acceptable sodium key now blob d \<Longrightarrow> c = d"
  by (simp add: acceptable_def)

lemma select_fold:
  "foldE (select_step sodium key now) blobs s = Inr s' \<Longrightarrow> best_of P (sl_selected s) \<Longrightarrow>
   best_of (\<lambda>c. P c \<or> (\<exists>b \<in> set blobs. acceptable sodium key now b c)) (sl_selected s')"
proof (induction blobs arbitrary: s P)
  case (Cons b blobs)
  from Cons.prems(1) obtain t where t: "select_step sodium key now b s = Inr t"
    "foldE (select_step sodium key now) blobs t = Inr s'" by auto
  have "best_of (\<lambda>c. P c \<or> acceptable sodium key now b c) (sl_selected t)"
    using select_step_spec [OF t(1)]
  proof
    assume "\<exists>c. acceptable sodium key now b c \<and> sl_selected t = (case sl_selected s of None \<Rightarrow> Some c
        | Some d \<Rightarrow> Some (if ct_serial d < ct_serial c then c else d))"
    then obtain c where c: "acceptable sodium key now b c" "sl_selected t = (case sl_selected s of None \<Rightarrow> Some c
        | Some d \<Rightarrow> Some (if ct_serial d < ct_serial c then c else d))" by blast
    have acc: "acceptable sodium key now b d \<longleftrightarrow> d = c" for d
      using c(1) acceptable_fun by blast
    show ?thesis
    proof (cases "sl_selected s")
      case None
      then show ?thesis using Cons.prems(2) c(2) by (simp add: best_of_def acc)
    next
      case (Some d)
      then have d: "P d" "\<And>e. P e \<Longrightarrow> ct_serial e \<le> ct_serial d"
        using Cons.prems(2) by (simp_all add: best_of_def)
      show ?thesis
      proof (cases "ct_serial d < ct_serial c")
        case True
        then have "ct_serial e \<le> ct_serial c" if "P e" for e
          using d(2) [OF that] by (meson order.strict_implies_order order.trans)
        then show ?thesis using True Some c(2) by (auto simp: best_of_def acc)
      next
        case False
        then show ?thesis using Some c(2) d by (auto simp: best_of_def acc not_less)
      qed
    qed
  next
    assume "(\<nexists>c. acceptable sodium key now b c) \<and> sl_selected t = sl_selected s"
    then show ?thesis using Cons.prems(2) by simp
  qed
  from Cons.IH [OF t(2) this] show ?case by (simp add: disj_assoc)
qed simp

text \<open>C35: select_dnscrypt_certificate returns an authenticated certificate that is valid at the
  given time and has the greatest serial of those, and it fails only when there is none.\<close>

theorem selected_certificate:
  "(\<forall>c. select_dnscrypt_certificate sodium blobs key now = Inr c \<longrightarrow>
     (\<exists>b \<in> set blobs. acceptable sodium key now b c) \<and>
     (\<forall>b \<in> set blobs. \<forall>d. acceptable sodium key now b d \<longrightarrow> ct_serial d \<le> ct_serial c)) \<and>
   ((\<exists>c. select_dnscrypt_certificate sodium blobs key now = Inr c) \<longleftrightarrow>
     (\<exists>b \<in> set blobs. \<exists>c. acceptable sodium key now b c))"
proof -
  let ?s = "\<lparr>sl_selected = None, sl_time_invalid = False\<rparr>"
  have "\<exists>s'. foldE (select_step sodium key now) blobs s = Inr s'" for s
  proof (induction blobs arbitrary: s)
    case (Cons b blobs)
    obtain t where "select_step sodium key now b s = Inr t" using select_step_total by blast
    with Cons.IH [of t] show ?case by simp
  qed simp
  then obtain s' where s': "foldE (select_step sodium key now) blobs ?s = Inr s'" by blast
  have "best_of (\<lambda>c. False) (sl_selected ?s)" by (simp add: best_of_def)
  from select_fold [OF s' this] show ?thesis
    by (cases "sl_selected s'") (auto simp: select_dnscrypt_certificate_def s' best_of_def)
qed

section \<open>Certificate records\<close>

text \<open>The TXT record of a certificate: character strings of at most 255 bytes.\<close>

lemma text_chunks_concat:
  "list_all (\<lambda>c. length c \<le> 255) cs \<Longrightarrow>
   text_chunks (concat (map (\<lambda>c. of_nat (length c) # c) cs)) acc = Inr (acc @ concat cs)"
  by (induction cs arbitrary: acc) (auto simp: unat_of_nat)

section \<open>Provider keys\<close>

definition hex_text :: "packet \<Rightarrow> string" where
  "hex_text bs = concat (map (\<lambda>b. [''0123456789ABCDEF'' ! (unat b div 16), ''0123456789ABCDEF'' ! (unat b mod 16)]) bs)"

lemma hex_nibble:
  assumes "n < 16"
  shows "is_xdigit (''0123456789ABCDEF'' ! n)" "\<not> key_separator (''0123456789ABCDEF'' ! n)"
    "hex_digit (''0123456789ABCDEF'' ! n) = of_nat n"
proof -
  have "list_all (\<lambda>n. is_xdigit (''0123456789ABCDEF'' ! n) \<and> \<not> key_separator (''0123456789ABCDEF'' ! n) \<and>
    hex_digit (''0123456789ABCDEF'' ! n) = of_nat n) [0..<16]" by code_simp
  then show "is_xdigit (''0123456789ABCDEF'' ! n)" "\<not> key_separator (''0123456789ABCDEF'' ! n)"
    "hex_digit (''0123456789ABCDEF'' ! n) = of_nat n"
    using assms by (simp_all add: list_all_iff)
qed

lemma nibbles: "push_bit 4 (of_nat (unat b div 16)) OR of_nat (unat b mod 16) = (b :: byte)"
proof -
  have "unat b div 16 mod 256 = unat b div 16"
    by (rule mod_less) (rule le_less_trans [OF div_le_dividend byte_less])
  then have "of_nat (unat b div 16) = drop_bit 4 b"
    by (intro word_unat_eq_iff [THEN iffD2]) (simp add: unat_of_nat unat_div drop_bit_eq_div less_imp_le [THEN le_less_trans] div_less_iff_less_mult)
  moreover have "of_nat (unat b mod 16) = take_bit 4 b"
    by (rule word_unat_eq_iff [THEN iffD2]) (simp add: unat_of_nat take_bit_eq_mod unat_mod)
  moreover have "push_bit 4 (drop_bit 4 b) OR take_bit 4 b = b"
    by (rule bit_word_eqI) (auto simp: bit_simps)
  ultimately show ?thesis by simp
qed

lemma hex_text_facts:
  "list_all is_xdigit (hex_text bs) \<and> filter (\<lambda>c. \<not> key_separator c) (hex_text bs) = hex_text bs \<and>
   length (hex_text bs) = 2 * length bs \<and> hex_bytes (hex_text bs) = bs"
proof (induction bs)
  case (Cons b bs)
  have "unat b div 16 < 16" "unat b mod 16 < 16"
    using byte_less [of b] by (simp_all add: div_less_iff_less_mult)
  from this [THEN hex_nibble(1)] this [THEN hex_nibble(2)] this [THEN hex_nibble(3)] nibbles [of b]
  show ?case using Cons by (simp add: hex_text_def)
qed (simp add: hex_text_def)

theorem provider_key_roundtrip:
  assumes "length key = 32"
  shows "parse_dnscrypt_provider_key (hex_text key) = Inr key"
  using hex_text_facts [of key] assms by (simp add: parse_dnscrypt_provider_key_def)

lemma hex_bytes_length: "length (hex_bytes s) = length s div 2"
  by (induction s rule: hex_bytes.induct) auto

lemma word_of_nat_bytes:
  "n < 65536 \<Longrightarrow> push_bit 8 (ucast (of_nat (n div 256) :: byte)) OR ucast (of_nat n :: byte) = (of_nat n :: 16 word)"
proof -
  assume n: "n < 65536"
  have "of_nat (n div 256) = (ucast (drop_bit 8 (of_nat n :: 16 word)) :: byte)"
    using n by (intro word_unat_eq_iff [THEN iffD2]) (simp add: unat_of_nat unsigned_ucast_eq unat_div drop_bit_eq_div take_bit_eq_mod)
  moreover have "of_nat n = (ucast (of_nat n :: 16 word) :: byte)"
    using n by (intro word_unat_eq_iff [THEN iffD2]) (simp add: unat_of_nat unsigned_ucast_eq take_bit_eq_mod)
  ultimately show ?thesis using word_bytes [of "of_nat n"] by simp
qed

theorem certificate_request_padded:
  assumes "normalize_dns_name provider False = Inr nm"
  shows "\<exists>request padded. make_query rnd provider 16 = Inr request \<and>
    padded_certificate_request request = Inr padded \<and> length padded = 512 \<and>
    parse_question padded = parse_question request \<and> client_udp_payload_size padded = Inr 1232"
proof -
  from make_query_question [OF assms, of rnd 16] obtain p where p: "make_query rnd provider 16 = Inr p"
    "length p = 18 + length nm" "word p 6 = Inr 0" "word p 8 = Inr 0"
    and q: "parse_question p = Inr \<lparr>q_id = rnd, q_flags = 0x0100, q_type = 16, q_klass = 1, q_name = nm, q_end = length p\<rparr>"
    (is "_ = Inr ?q") by blast
  note b = parse_question_bounds [OF q]
  define padding where "padding = 512 - length p - 15"
  define h where "h = p[10 := 0, 11 := 1]"
  define opt where "opt = [0, 0, 41, 4, 208, 0, 0, 0, 0, of_nat ((padding + 4) div 256), of_nat (padding + 4), 0, 12,
        of_nat (padding div 256), of_nat padding] @ replicate padding (0 :: byte)"
  have small: "length p + 15 \<le> 512" using b(4) p(2) by simp
  have padded: "padded_certificate_request p = Inr (h @ opt)"
    using small by (simp add: padded_certificate_request_def h_def opt_def padding_def Let_def)
  have len: "length (h @ opt) = 512" using small by (simp add: h_def opt_def padding_def)
  have lh: "length h = length p" by (simp add: h_def)
  have sc: "self_contained 128 p ?q"
    using q unfolding parse_question_Inr_iff by (auto simp: self_contained_def dns_name_def)
  have sq: "same_question p ?q 0x0100 h"
    using q unfolding parse_question_Inr_iff by (auto simp: same_question_def h_def word_update drop_update_swap)
  have pq: "parse_question (h @ opt) = Inr ?q"
    using same_question_parses [OF q sc _ sq _ , of opt] len by simp
  have w: "word (h @ opt) 6 = Inr 0" "word (h @ opt) 8 = Inr 0" "word (h @ opt) 10 = Inr 1"
    using p(2-4) by (simp_all add: h_def word_append word_update) (simp add: word_def nth_append)
  have name: "dns_name (h @ opt) (length p) = Inr ([], length p + 1)"
    by (rule dns_name_root) (simp_all add: nth_append opt_def lh)
  define at where "at = length p + 1"
  have f: "word (h @ opt) at = Inr 41" "word (h @ opt) (at + 2) = Inr 1232" "word (h @ opt) (at + 8) = Inr (of_nat (padding + 4))"
    using word_of_nat_bytes [of "padding + 4"] small
    by (auto simp: at_def word_def nth_append opt_def lh padding_def)
  have l: "unat (of_nat (padding + 4) :: 16 word) = padding + 4"
    by (simp only: unat_of_nat) (simp add: padding_def)
  have sz: "at + 10 + (padding + 4) = 512" using small by (simp add: at_def padding_def)
  have "edns_request (h @ opt) ?q = Inr \<lparr>ed_present = True, ed_do_bit = (h @ opt) ! (at + 6) AND 0x80 \<noteq> 0, ed_payload = 1232\<rparr>"
    using w name [folded at_def] f l sz len by (simp add: edns_request_def at_def [symmetric]) arith
  then have "client_udp_payload_size (h @ opt) = Inr 1232"
    using pq by (simp add: client_udp_payload_size_def)
  then show ?thesis
    using p(1) padded len pq q by (intro exI [of _ p] exI [of _ "h @ opt"]) simp
qed

section \<open>A sample resolver\<close>

text \<open>
  Functions of the shape of libsodium's: every signature verifies, sealing prefixes 16 zero
  bytes, opening drops them.  They instantiate the parameters of the theorems above.
\<close>

definition sample_sodium :: sodium where
  "sample_sodium = \<lparr>sign_verify = (\<lambda>_ _ _. True),
     beforenm_salsa = (\<lambda>_ _. Some (replicate 32 1)), beforenm_chacha = (\<lambda>_ _. Some (replicate 32 2)),
     easy_salsa = (\<lambda>m _ _. Some (replicate 16 0 @ m)), easy_chacha = (\<lambda>m _ _. Some (replicate 16 0 @ m)),
     open_salsa = (\<lambda>c _ _. Some (drop 16 c)), open_chacha = (\<lambda>c _ _. Some (drop 16 c)),
     scalarmult_base = (\<lambda>_. Some (replicate 32 3))\<rparr>"

definition sample_blob :: packet where
  "sample_blob = cert_magic @ [0, 2, 0, 0] @ replicate 64 0 @ replicate 32 5 @ [1, 2, 3, 4, 5, 6, 7, 8] @
     [0, 0, 0, 9] @ [0, 0, 0, 10] @ [0, 0, 0, 20]"

definition sample_certificate :: certificate where
  "sample_certificate = \<lparr>ct_encryption_system = 2, ct_resolver_public_key = replicate 32 5,
     ct_client_magic = [1, 2, 3, 4, 5, 6, 7, 8], ct_serial = 9, ct_valid_from = 10, ct_valid_until = 20\<rparr>"

lemma sample_blob_certificate: "blob_certificate sample_blob = Inr sample_certificate"
  by code_simp

lemma sample_selected: "select_dnscrypt_certificate sample_sodium [sample_blob] [] 15 = Inr sample_certificate"
  by code_simp

theorem selected_certificate_witness:
  "(\<exists>b \<in> set [sample_blob]. acceptable sample_sodium [] 15 b sample_certificate)"
  using selected_certificate [of sample_sodium "[sample_blob]" "[]" 15] sample_selected by blast

definition sample_plain :: packet where
  "sample_plain = [1, 2, 3, 4, 5, 6, 7, 8, 9, 10, 11, 12]"

theorem dnscrypt_response_opens_witness:
  "open_dnscrypt_response sample_sodium (resolver_magic @ replicate 12 7 @ replicate 12 8 @
     (replicate 16 0 @ pad_request 64 sample_plain)) [] (replicate 12 7) 2 = Inr sample_plain"
  by (rule dnscrypt_response_opens [where n = 64])
    (simp_all add: sample_sodium_def sample_plain_def pad_request_def)

theorem dnscrypt_response_nonce_witness:
  "take 12 (drop 8 (resolver_magic @ replicate 12 7 @ replicate 12 8 @
     (replicate 16 0 @ pad_request 64 sample_plain))) = replicate 12 7"
proof -
  have "open_dnscrypt_response sample_sodium (resolver_magic @ replicate 12 7 @ replicate 12 8 @
     (replicate 16 0 @ pad_request 64 sample_plain)) [] (replicate 12 7) 2 = Inr sample_plain"
    by code_simp
  from dnscrypt_response_nonce [OF this] show ?thesis by blast
qed

lemma sample_sodium_simps:
  "scalarmult_base sample_sodium sk = Some (replicate 32 3)"
  "easy_salsa sample_sodium m n k = Some (replicate 16 0 @ m)"
  "easy_chacha sample_sodium m n k = Some (replicate 16 0 @ m)"
  "dnscrypt_shared_key sample_sodium sk sample_certificate = Inr (replicate 32 2)"
  "ct_encryption_system sample_certificate = 2" "length (ct_client_magic sample_certificate) = 8"
  by (simp_all add: sample_sodium_def sample_certificate_def dnscrypt_shared_key_def)

lemma sample_sodium_lengths:
  "scalarmult_base sample_sodium s = Some p \<Longrightarrow> length p = 32"
  "easy_salsa sample_sodium m n k = Some c \<Longrightarrow> length c = length m + mac_bytes"
  "easy_chacha sample_sodium m n k = Some c \<Longrightarrow> length c = length m + mac_bytes"
  unfolding sample_sodium_simps by (metis length_replicate length_append option.inject add.commute)+

lemma sample_query_built:
  "\<exists>q. build_dnscrypt_query sample_sodium sample_plain sample_certificate [] (replicate 12 7) 512 = Inr q"
proof -
  have "length sample_plain = 12" "padded_size 12 512 = 448"
    by (simp_all add: sample_plain_def padded_size_def)
  then show ?thesis
    unfolding build_dnscrypt_query_def Let_def sample_sodium_simps by simp
qed

theorem dnscrypt_query_size_witness:
  "\<exists>q. build_dnscrypt_query sample_sodium sample_plain sample_certificate [] (replicate 12 7) 512 = Inr q \<and>
     length q \<le> 4096 \<and> 512 \<le> length q \<and> (length q - query_overhead) mod 64 = 0 \<and>
     length sample_plain + query_overhead < length q"
proof -
  from sample_query_built obtain q where
    q: "build_dnscrypt_query sample_sodium sample_plain sample_certificate [] (replicate 12 7) 512 = Inr q" ..
  have "length q \<le> 4096 \<and> 512 \<le> length q \<and> (length q - query_overhead) mod 64 = 0 \<and>
     length sample_plain + query_overhead < length q"
    by (rule dnscrypt_query_size [OF q sample_sodium_simps(6) length_replicate sample_sodium_lengths])
  from conjI [OF q this] show ?thesis ..
qed

theorem wire_target_fits_witness:
  "(196 :: nat) \<le> 4096 \<and> padded_size 100 196 + query_overhead = 196"
  by (rule wire_target_fits [where pick = "\<lambda>_. 0"])
    (simp_all add: wire_target_def Let_def)

theorem provider_key_roundtrip_witness:
  "parse_dnscrypt_provider_key (hex_text (replicate 32 0xAB)) = Inr (replicate 32 0xAB)"
  by (rule provider_key_roundtrip) simp

theorem certificate_request_padded_witness:
  "\<exists>request padded. make_query 7 ''2.dnscrypt-cert.example'' 16 = Inr request \<and>
    padded_certificate_request request = Inr padded \<and> length padded = 512 \<and>
    parse_question padded = parse_question request \<and> client_udp_payload_size padded = Inr 1232"
  by (rule certificate_request_padded [where nm = "''2.dnscrypt-cert.example''"]) code_simp

end
