(* ===== verification/Xml_Facts.thy ===== *)
theory Xml_Facts
  imports Xml_Parser
begin

text \<open>
  Facts about the XML reader: every failure is one of the announced ones, in particular the
  bound on the calls is never reached, and every tree that is returned is well formed and
  within the limits.
\<close>

section \<open>Totality\<close>

definition reader_error :: "error \<Rightarrow> bool" where
  "reader_error e \<longleftrightarrow> err_code e \<in> {''CONFIG_IO'', ''XML'', ''XML_LIMIT''}"

lemma reader_error_simps [simp]:
  "reader_error (xml_error m)" "reader_error (Error ''CONFIG_IO'' m)"
  "reader_error (Error ''XML_LIMIT'' m)" "\<not> reader_error (Error ''CALLS'' m)"
  by (simp_all add: reader_error_def)

lemma foldE_failE:
  "(\<And>x s. failE (f x s) P) \<Longrightarrow> failE (foldE f xs s) P"
  by (induction xs arbitrary: s) (auto intro!: failE_intros)

lemma decode_entity_fails: "failE (decode_entity s) reader_error"
  unfolding decode_entity_def entity_digit_def
  by (intro failE_intros foldE_failE) simp_all

lemma skip_until_fails: "failE (skip_until t s) reader_error"
  by (induction t s rule: skip_until.induct) (auto intro!: failE_intros)

lemma skip_misc_fails: "failE (skip_misc s) reader_error"
proof (induction s rule: skip_misc.induct)
  case (1 s)
  show ?case
    by (subst skip_misc.simps)
      (intro failE_intros skip_until_fails 1 [OF refl]; simp)
qed

lemma xml_name_fails: "failE (xml_name s) reader_error"
  unfolding xml_name_def by (auto intro!: failE_intros)

lemma quoted_loop_fails: "failE (quoted_loop q s) reader_error"
  by (induction q s rule: quoted_loop.induct)
    (auto intro!: failE_intros decode_entity_fails simp: Let_def)

lemma quoted_fails: "failE (quoted s) reader_error"
  by (auto simp: quoted_def intro!: failE_intros quoted_loop_fails split: list.splits)

lemma parse_attrs_fails: "failE (parse_attrs s attrs) reader_error"
proof (induction s attrs rule: parse_attrs.induct)
  case (1 s attrs)
  show ?case
    by (subst parse_attrs.simps)
      (auto intro!: failE_intros xml_name_fails quoted_fails 1 simp del: bindE_Inr_iff)
qed

lemma skip_misc_length: "skip_misc s = Inr r \<Longrightarrow> length r \<le> length s"
proof (induction s arbitrary: r rule: skip_misc.induct)
  case (1 s)
  let ?s = "skip_ws s"
  have len: "length ?s \<le> length s" by (rule skip_ws_length)
  from "1.prems" consider x where "starts ?s ''<?''" "skip_until ''?>'' (drop 2 ?s) = Inr x" "skip_misc x = Inr r"
    | x where "\<not> starts ?s ''<?''" "starts ?s ''<!--''" "skip_until ''-->'' (drop 4 ?s) = Inr x" "skip_misc x = Inr r"
    | "r = ?s"
    by (subst (asm) skip_misc.simps) (auto simp: Let_def split: if_splits)
  then show ?case
  proof cases
    case (1 x)
    then show ?thesis using "1.IH"(1) [OF refl 1] skip_until_length [OF 1(2)] len by simp
  next
    case (2 x)
    then show ?thesis using "1.IH"(2) [OF refl 2] skip_until_length [OF 2(3)] len by simp
  qed (use len in simp)
qed

lemma parse_attrs_Inr:
  assumes "parse_attrs s attrs = Inr (attrs', b, r)"
  obtains (empty) "starts (skip_ws s) ''/>''" "attrs' = attrs" "b" "r = drop 2 (skip_ws s)"
  | (open_tag) "\<not> starts (skip_ws s) ''/>''" "starts (skip_ws s) ''>''" "attrs' = attrs" "\<not> b"
      "r = drop 1 (skip_ws s)"
  | (more) key s1 v s2 attrs2 where
      "\<not> starts (skip_ws s) ''/>''" "\<not> starts (skip_ws s) ''>''"
      "xml_name (skip_ws s) = Inr (key, s1)" "starts (skip_ws s1) ''=''"
      "quoted (skip_ws (drop 1 (skip_ws s1))) = Inr (v, s2)"
      "smap_emplace key v attrs = (attrs2, True)" "parse_attrs s2 attrs2 = Inr (attrs', b, r)"
proof -
  note parts = assms [unfolded parse_attrs.simps [of s attrs] Let_def]
  consider "starts (skip_ws s) ''/>''" | "\<not> starts (skip_ws s) ''/>''" "starts (skip_ws s) ''>''"
    | "\<not> starts (skip_ws s) ''/>''" "\<not> starts (skip_ws s) ''>''" by blast
  then show ?thesis
  proof cases
    case 3
    with parts obtain key s1 v s2 where
      *: "xml_name (skip_ws s) = Inr (key, s1)" "starts (skip_ws s1) ''=''"
         "quoted (skip_ws (drop 1 (skip_ws s1))) = Inr (v, s2)"
      and rest: "case smap_emplace key v attrs of (attrs, inserted) \<Rightarrow>
        bindE (requireE inserted (xml_error ''Duplicate attribute'')) (\<lambda>_. parse_attrs s2 attrs)
          = Inr (attrs', b, r)"
      by (auto simp: case_prod_unfold)
    then show ?thesis
      using more [OF 3 *] by (cases "smap_emplace key v attrs") simp
  qed (use parts in \<open>auto intro: empty open_tag\<close>)
qed

lemma parse_attrs_length: "parse_attrs s attrs = Inr (attrs', b, r) \<Longrightarrow> length r < length s"
proof (induction "length s" arbitrary: s attrs rule: less_induct)
  case less
  from less.prems show ?case
  proof (cases rule: parse_attrs_Inr)
    case (more key s1 v s2 attrs2)
    have "length s2 < length (skip_ws (drop 1 (skip_ws s1)))" by (rule quoted_length [OF more(5)])
    also have "\<dots> \<le> length s1"
      using skip_ws_length [of "drop 1 (skip_ws s1)"] skip_ws_length [of s1] by simp
    also have "\<dots> \<le> length s" using xml_name_Inr [OF more(3)] skip_ws_length [of s] by auto
    finally have "length s2 < length s" .
    then show ?thesis using less.hyps [OF _ more(7)] by simp
  qed (use skip_ws_length [of s] starts_length [of "skip_ws s"] in fastforce)+
qed

text \<open>What a round of the element and of the content loop does when it returns.\<close>

lemma parse_element_Inr:
  assumes "parse_element n depth nodes s = Inr (x, nodes', r)"
  obtains m name s1 attrs closed s2 children where
    "n = Suc m" "depth \<le> 16" "nodes + 1 \<le> 200000" "starts (skip_ws s) ''<''"
    "\<not> starts (skip_ws s) ''</''"
    "\<not> (starts (drop 1 (skip_ws s)) ''!'' \<or> starts (drop 1 (skip_ws s)) ''?'')"
    "xml_name (drop 1 (skip_ws s)) = Inr (name, s1)" "parse_attrs s1 [] = Inr (attrs, closed, s2)"
    "x = Node name attrs children"
    "if closed then children = [] \<and> nodes' = nodes + 1 \<and> r = s2
     else parse_content m depth name (nodes + 1) s2 = Inr (children, nodes', r)"
proof (cases n)
  case (Suc m)
  with assms show ?thesis
    by (auto simp: parse_element.simps(2) Let_def intro: that split: if_split_asm)
qed (use assms in simp)

text \<open>The text branch of the content loop never goes on: white space was skipped before.\<close>

lemma no_text:
  fixes s defines "between \<equiv> takeWhile (\<lambda>c. c \<noteq> CHR ''<'') (skip_ws s)"
  assumes "\<not> starts (skip_ws s) ''<''" "list_all c_space between"
  shows "drop (length between) (skip_ws s) = []"
proof (cases "skip_ws s")
  case (Cons c s')
  then have "\<not> c_space c" unfolding skip_ws_def by (simp add: dropWhile_eq_Cons_conv)
  then show ?thesis using Cons assms by simp
qed simp

lemma parse_content_Inr:
  assumes "parse_content n depth name nodes s = Inr (xs, nodes', r)"
  obtains (close) s1 where
      "starts (skip_ws s) ''</''" "xml_name (drop 2 (skip_ws s)) = Inr (name, s1)"
      "starts (skip_ws s1) ''>''" "xs = []" "nodes' = nodes" "r = drop 1 (skip_ws s1)"
  | (comment) m s1 where
      "n = Suc m" "starts (skip_ws s) ''<!--''" "\<not> starts (skip_ws s) ''</''"
      "skip_until ''-->'' (drop 4 (skip_ws s)) = Inr s1"
      "parse_content m depth name nodes s1 = Inr (xs, nodes', r)"
  | (child) m child nodes1 s1 children where
      "n = Suc m" "\<not> starts (skip_ws s) ''</''" "\<not> starts (skip_ws s) ''<!--''"
      "\<not> starts (skip_ws s) ''<![CDATA[''" "starts (skip_ws s) ''<''"
      "parse_element m (depth + 1) nodes (skip_ws s) = Inr (child, nodes1, s1)"
      "parse_content m depth name nodes1 s1 = Inr (children, nodes', r)" "xs = child # children"
proof (cases n)
  case (Suc m)
  let ?s = "skip_ws s"
  note parts = assms [unfolded Suc parse_content.simps(2) Let_def]
  consider "starts ?s ''</''" | "\<not> starts ?s ''</''" "starts ?s ''<!--''"
    | "\<not> starts ?s ''</''" "\<not> starts ?s ''<!--''" "starts ?s ''<![CDATA[''"
    | "\<not> starts ?s ''</''" "\<not> starts ?s ''<!--''" "\<not> starts ?s ''<![CDATA[''" "starts ?s ''<''"
    | "\<not> starts ?s ''</''" "\<not> starts ?s ''<!--''" "\<not> starts ?s ''<![CDATA[''" "\<not> starts ?s ''<''"
    by blast
  then show ?thesis
  proof cases
    case 1
    then show ?thesis using parts by (auto intro: close)
  next
    case 2
    then show ?thesis using parts by (auto intro: comment [OF Suc])
  next
    case 3
    then show ?thesis using parts by simp
  next
    case 4
    then show ?thesis using parts by (auto intro: child [OF Suc])
  next
    case 5
    then show ?thesis using parts no_text [of s] by auto
  qed
qed (use assms in simp)

lemma parse_lengths:
  shows "parse_element n depth nodes s = Inr (x, nodes', r) \<Longrightarrow> length r < length s"
    and "parse_content n depth name nodes s = Inr (xs, nodes', r) \<Longrightarrow> length r < length s"
proof (induction n arbitrary: depth nodes s x nodes' r name xs)
  case (Suc n)
  {
    case 1
    then show ?case
    proof (cases rule: parse_element_Inr)
      case (1 m name s1 attrs closed s2 children)
      then have "length r \<le> length s2"
        using Suc.IH(2) [of depth name "nodes + 1" s2 children nodes' r] by (simp split: if_splits)
      also have "\<dots> < length s1" by (rule parse_attrs_length [OF 1(8)])
      also have "\<dots> \<le> length (skip_ws s)" using xml_name_Inr [OF 1(7)] by (cases "skip_ws s") auto
      also have "\<dots> \<le> length s" by (rule skip_ws_length)
      finally show ?thesis .
    qed
  next
    case 2
    then show ?case
    proof (cases rule: parse_content_Inr)
      case (close s1)
      have "length r \<le> length s1" using close skip_ws_length [of s1] by simp
      also have "\<dots> < length (skip_ws s)" using arg_cong [where f = length, OF xml_name_Inr [OF close(2), THEN conjunct1]]
          starts_length [OF close(1)] by simp
      finally show ?thesis using skip_ws_length [of s] by simp
    next
      case (comment m s1)
      have "length r < length s1" using comment Suc.IH(2) by simp
      also have "\<dots> \<le> length (skip_ws s)" using skip_until_length [OF comment(4)] by simp
      finally show ?thesis using skip_ws_length [of s] by simp
    next
      case (child m c nodes1 s1 children)
      have "length r < length s1" using child Suc.IH(2) by simp
      also have "\<dots> < length (skip_ws s)" using child Suc.IH(1) by simp
      finally show ?thesis using skip_ws_length [of s] by simp
    qed
  }
qed simp_all

lemma tag_length:
  assumes "xml_name (drop 1 (skip_ws s)) = Inr (name, s1)" "parse_attrs s1 [] = Inr (attrs, closed, s2)"
  shows "2 * length s < Suc n \<Longrightarrow> 2 * length s2 + 1 < n"
proof -
  have "length s2 < length s1" by (rule parse_attrs_length [OF assms(2)])
  moreover have "length s1 + 1 < length (skip_ws s)"
    using xml_name_Inr [OF assms(1)] by (cases "skip_ws s") auto
  ultimately show "2 * length s < Suc n \<Longrightarrow> 2 * length s2 + 1 < n" using skip_ws_length [of s] by linarith
qed

lemma parse_fails:
  shows "2 * length s < n \<Longrightarrow> failE (parse_element n depth nodes s) reader_error"
    and "2 * length s + 1 < n \<Longrightarrow> failE (parse_content n depth name nodes s) reader_error"
proof (induction n arbitrary: depth nodes s name)
  case (Suc n)
  {
    case (1 depth nodes s)
    let ?s = "skip_ws s"
    have shorter: "2 * length s2 + 1 < n" if "starts ?s ''<''"
      "xml_name (drop 1 ?s) = Inr (name, s1)" "parse_attrs s1 [] = Inr (attrs, closed, s2)"
      for name s1 attrs closed s2
      by (rule tag_length [OF that(2,3) 1])
    show ?case
      unfolding parse_element.simps(2)
      by (intro failE_intros xml_name_fails parse_attrs_fails Suc.IH(2) shorter)
        (simp_all split: prod.split_asm)
  next
    case (2 depth nodes s name)
    let ?s = "skip_ws s"
    have len: "length ?s \<le> length s" by (rule skip_ws_length)
    have "failE (parse_element n (depth + 1) nodes ?s) reader_error"
      using 2 len by (intro Suc.IH(1)) simp
    moreover have "failE (parse_content n depth name nodes' r) reader_error"
      if "length r < length s" for nodes' r
      using that 2 by (intro Suc.IH(2)) simp
    moreover have "length r < length s" if "skip_until ''-->'' (drop 4 ?s) = Inr r" "starts ?s ''<!--''" for r
      using skip_until_length [OF that(1)] starts_length [OF that(2)] len by simp
    moreover have "length r < length s"
      if "parse_element n (depth + 1) nodes ?s = Inr (x, nodes', r)" for x nodes' r
      using parse_lengths(1) [OF that] len by simp
    ultimately show ?case
      unfolding parse_content.simps(2) Let_def
      using no_text [of s]
      by (auto intro!: failE_intros xml_name_fails skip_until_fails)
  }
qed simp_all

section \<open>The trees that are returned\<close>

fun node_count :: "node \<Rightarrow> nat" where
  "node_count (Node name attrs children) = 1 + sum_list (map node_count children)"

fun node_height :: "node \<Rightarrow> nat" where
  "node_height (Node name attrs children) = 1 + foldr (\<lambda>t. max (node_height t)) children 0"

definition good_name :: "string \<Rightarrow> bool" where
  "good_name n \<longleftrightarrow> n \<noteq> [] \<and> list_all xml_char n"

fun tree_ok :: "node \<Rightarrow> bool" where
  "tree_ok (Node name attrs children) \<longleftrightarrow>
     good_name name \<and> smap_wf attrs \<and> (\<forall>(k, v) \<in> set attrs. good_name k) \<and> list_all tree_ok children"

lemma parse_attrs_ok:
  "parse_attrs s attrs = Inr (attrs', b, r) \<Longrightarrow> smap_wf attrs \<Longrightarrow> (\<forall>k \<in> smap_keys attrs. good_name k) \<Longrightarrow>
   smap_wf attrs' \<and> (\<forall>k \<in> smap_keys attrs'. good_name k)"
proof (induction "length s" arbitrary: s attrs rule: less_induct)
  case less
  from less.prems(1) show ?case
  proof (cases rule: parse_attrs_Inr)
    case (more key s1 v s2 attrs2)
    have "length s2 < length (skip_ws (drop 1 (skip_ws s1)))" by (rule quoted_length [OF more(5)])
    also have "\<dots> \<le> length s1"
      using skip_ws_length [of "drop 1 (skip_ws s1)"] skip_ws_length [of s1] by simp
    also have "\<dots> \<le> length s" using xml_name_Inr [OF more(3)] skip_ws_length [of s] by auto
    finally have "length s2 < length s" .
    moreover have "smap_wf attrs2" by (rule smap_emplace_wf [OF more(6) less.prems(2)])
    moreover have "\<forall>k \<in> smap_keys attrs2. good_name k"
      using smap_emplace_keys [OF more(6)] less.prems(3) xml_name_Inr [OF more(3)] by (simp add: good_name_def)
    ultimately show ?thesis using less.hyps [OF _ more(7)] by simp
  qed (use less.prems in auto)
qed

lemma parse_limits:
  shows "parse_element n depth nodes s = Inr (x, nodes', r) \<Longrightarrow>
      tree_ok x \<and> nodes' = nodes + node_count x \<and> nodes' \<le> 200000 \<and> depth + node_height x \<le> 17"
    and "parse_content n depth name nodes s = Inr (xs, nodes', r) \<Longrightarrow>
      list_all tree_ok xs \<and> nodes' = nodes + sum_list (map node_count xs) \<and>
      (nodes \<le> 200000 \<longrightarrow> nodes' \<le> 200000) \<and> (depth \<le> 16 \<longrightarrow> depth + foldr (\<lambda>t. max (node_height t)) xs 0 \<le> 16)"
proof (induction n arbitrary: depth nodes s x nodes' r name xs)
  case (Suc n)
  {
    case 1
    then show ?case
    proof (cases rule: parse_element_Inr)
      case (1 m name s1 attrs closed s2 children)
      have "smap_wf attrs \<and> (\<forall>k \<in> smap_keys attrs. good_name k)"
        by (rule parse_attrs_ok [OF 1(8)]) simp_all
      then show ?thesis
        using 1(1-3,9,10) xml_name_Inr [OF 1(7)] Suc.IH(2) [of depth name "nodes + 1" s2 children nodes' r]
        by (auto simp: good_name_def smap_keys_def split: if_splits)
    qed
  next
    case 2
    then show ?case
    proof (cases rule: parse_content_Inr)
      case (comment m s1)
      then show ?thesis using Suc.IH(2) by simp
    next
      case (child m c nodes1 s1 children)
      then show ?thesis using Suc.IH(1) [of "depth + 1" nodes "skip_ws s" c nodes1 s1]
          Suc.IH(2) [of depth name nodes1 s1 children nodes' r] by auto
    qed auto
  }
qed simp_all

lemma parse_xml_fails: "failE (parse_xml text) reader_error"
proof -
  have "failE (parse_element (2 * length text + 1) 0 0 r) reader_error"
    if "skip_misc (if starts text [CHR 0xEF, CHR 0xBB, CHR 0xBF] then drop 3 text else text) = Inr r" for r
    using skip_misc_length [OF that] by (intro parse_fails(1)) (auto split: if_splits)
  then show ?thesis
    unfolding parse_xml_def Let_def
    by (auto intro!: failE_intros skip_misc_fails simp del: bindE_Inr_iff)
qed

text \<open>C38: The XML reader returns a tree or one of its announced errors on every text: the bound
  on the calls of the recursive descent is never reached.\<close>

theorem parse_xml_total:
  "(\<exists>t. parse_xml text = Inr t) \<or>
   (\<exists>e. parse_xml text = Inl e \<and> err_code e \<in> {''CONFIG_IO'', ''XML'', ''XML_LIMIT''})"
  using failE_D [OF parse_xml_fails] by (cases "parse_xml text") (auto simp: reader_error_def)

text \<open>C40: Every tree the XML reader returns is well formed: names are nonempty and of name
  characters, attributes are distinct and in key order, at most 200000 elements, at most 17
  levels.\<close>

theorem parse_xml_limits:
  assumes "parse_xml text = Inr t"
  shows "tree_ok t \<and> node_count t \<le> 200000 \<and> node_height t \<le> 17"
  using assms by (auto simp: parse_xml_def Let_def dest!: parse_limits(1))

lemma sample_xml: "parse_xml ''<a/>'' = Inr (Node ''a'' [] [])"
proof -
  have misc: "skip_misc ''<a/>'' = Inr ''<a/>''" "skip_misc [] = Inr []"
    by (simp_all add: skip_misc.simps skip_ws_def c_space_def code_def Let_def)
  have "parse_element (Suc n) 0 0 ''<a/>'' = Inr (Node ''a'' [] [], 1, [])" for n
    by (simp add: parse_element.simps(2) parse_attrs.simps skip_ws_def c_space_def xml_char_def c_alnum_def
        xml_name_def code_def Let_def del: bindE_Inr_iff)
  note root = this [of 8, simplified]
  show ?thesis using misc root by (simp add: parse_xml_def config_limit_def skip_ws_def Let_def del: bindE_Inr_iff)
qed

theorem parse_xml_limits_witness:
  "parse_xml ''<a/>'' = Inr (Node ''a'' [] []) \<and> node_height (Node ''a'' [] []) \<le> 17"
  using sample_xml parse_xml_limits [OF sample_xml] by simp

end
