(* ===== verification/Rules.thy ===== *)
theory Rules
  imports Dnscrypt
begin

text \<open>
  The rule engine of \<open>src/rules.cpp\<close>: names of enumerators, validation of a configuration
  (with the depth-first search for cycles of fallback servers), the choice of the rule for a
  name, and the transactional editor.  \<open>runtime_options\<close> is from \<open>src/config.cpp\<close>.
\<close>

section \<open>Names of enumerators\<close>

definition protocol_name :: "protocol \<Rightarrow> string" where
  "protocol_name value =
     (case value of udp \<Rightarrow> ''udp'' | tcp \<Rightarrow> ''tcp'' | doh \<Rightarrow> ''doh'' | dot \<Rightarrow> ''dot''
      | doh3 \<Rightarrow> ''doh3'' | doq \<Rightarrow> ''doq'' | dnscrypt \<Rightarrow> ''dnscrypt''
      | anonymized_dnscrypt \<Rightarrow> ''anonymized_dnscrypt'')"

definition action_name :: "action \<Rightarrow> string" where
  "action_name value =
     (case value of Action_process \<Rightarrow> ''process'' | Action_bypass \<Rightarrow> ''bypass''
      | Action_block \<Rightarrow> ''block'')"

section \<open>Runtime options\<close>

record run_options =
  ro_clear_dns_cache :: bool
  ro_block_tcp53 :: bool
  ro_intercept_others :: bool
  ro_captive_portal_detection :: bool
  ro_ignore_interface_down :: bool
  ro_ttl_min :: "32 word"
  ro_ttl_max :: "32 word"

abbreviation (input) int_max :: "32 word" where "int_max \<equiv> 2147483647"

text \<open>The lambdas \<open>value\<close>, \<open>boolean\<close> and \<open>number\<close>.\<close>

definition setting :: "config \<Rightarrow> string \<Rightarrow> string option" where
  "setting config key =
     (case map_of (cf_settings config) key of
        Some v \<Rightarrow> Some v
      | None \<Rightarrow> map_of (cf_settings config) (''yoga.settings.'' @ key))"

definition bool_setting :: "config \<Rightarrow> string \<Rightarrow> error + bool" where
  "bool_setting config key =
     (case setting config key of
        None \<Rightarrow> Inr False
      | Some text \<Rightarrow>
          if text = ''0'' \<or> text = ''false'' then Inr False
          else if text = ''1'' \<or> text = ''true'' then Inr True
          else Inl (Error ''CONFIG_SETTING'' (key @ '' must be 0 or 1'')))"

definition number_setting :: "config \<Rightarrow> string \<Rightarrow> 32 word \<Rightarrow> error + 32 word" where
  "number_setting config key fallback =
     (case setting config key of
        None \<Rightarrow> Inr fallback
      | Some text \<Rightarrow>
          (case from_chars (2 ^ 32) text of
             Some n \<Rightarrow>
               if n > 2147483647
               then Inl (Error ''CONFIG_SETTING'' (key @ '' must be 0..2147483647''))
               else Inr (of_nat n)
           | None \<Rightarrow> Inl (Error ''CONFIG_SETTING'' (key @ '' must be 0..2147483647''))))"

definition runtime_options :: "config \<Rightarrow> error + run_options" where
  "runtime_options config =
     bindE (bool_setting config ''clearDnsCache'') (\<lambda>clear.
     bindE (bool_setting config ''blockTcpPort53'') (\<lambda>tcp53.
     bindE (bool_setting config ''interceptOthers'') (\<lambda>others.
     bindE (bool_setting config ''captivePortalDetection'') (\<lambda>captive.
     bindE (bool_setting config ''ignore_rule_if_interface_down'') (\<lambda>ignore.
     bindE (number_setting config ''ttlMin'' 0) (\<lambda>ttl_min.
     bindE (number_setting config ''ttlMax'' int_max) (\<lambda>ttl_max.
     bindE (requireE (\<not> ttl_min > ttl_max)
              (Error ''CONFIG_SETTING'' ''ttlMin must not exceed ttlMax'')) (\<lambda>_.
     Inr \<lparr>ro_clear_dns_cache = clear, ro_block_tcp53 = tcp53, ro_intercept_others = others,
          ro_captive_portal_detection = captive, ro_ignore_interface_down = ignore,
          ro_ttl_min = ttl_min, ro_ttl_max = ttl_max\<rparr>))))))))"

section \<open>Validation\<close>

text \<open>The loop over \<open>fallback_ids\<close>: the set of ids seen so far.\<close>

fun fallback_loop :: "32 word \<Rightarrow> 32 word list \<Rightarrow> 32 word set \<Rightarrow> error + unit" where
  "fallback_loop self [] seen = Inr ()"
| "fallback_loop self (fallback # rest) seen =
     bindE (requireE (\<not> (fallback = 0 \<or> fallback = self \<or> fallback \<in> seen))
              (Error ''SERVER_FALLBACK''
                 ''Fallback IDs must be nonzero, unique, and different from the primary server''))
       (\<lambda>_. fallback_loop self rest (insert fallback seen))"

definition url_authority :: "string \<Rightarrow> string" where
  "url_authority url = takeWhile (\<lambda>c. c \<noteq> CHR ''/'') (drop 8 url)"

definition validate_url :: "string \<Rightarrow> error + unit" where
  "validate_url url =
     bindE (requireE (\<not> (take 8 url \<noteq> ''https://'' \<or> (\<exists>c \<in> set url. host_space c) \<or> CHR ''@'' \<in> set url))
       (Error ''ENDPOINT'' ''DoH requires HTTPS URL without credentials or whitespace'')) (\<lambda>_.
     requireE (url_authority url \<noteq> []) (Error ''ENDPOINT'' ''Empty DoH host''))"

text \<open>The body of the loop over the servers; the state is the set \<open>ids\<close>.\<close>

definition validate_server :: "inet \<Rightarrow> server \<Rightarrow> 32 word set \<Rightarrow> error + 32 word set" where
  "validate_server inet server ids =
     bindE (requireE (\<not> (srv_id server = 0 \<or> srv_id server \<in> ids \<or> srv_name server = []))
              (Error ''SERVER_ID'' ''Missing/duplicate server ID or name'')) (\<lambda>_.
     bindE (requireE (\<not> (srv_timeout_ms server = 0 \<or> srv_timeout_ms server > 120000))
              (Error ''CONFIG'' ''Timeout must be 1..120000 ms'')) (\<lambda>_.
     bindE (if srv_ip server \<noteq> []
            then bindE (parse_numeric_endpoint inet (srv_ip server)) (\<lambda>_. Inr ())
            else Inr ()) (\<lambda>_.
     bindE (requireE (\<not> ((srv_protocol server = udp \<or> srv_protocol server = tcp) \<and> srv_ip server = []))
              (Error ''ENDPOINT'' ''Plain server requires IP'')) (\<lambda>_.
     bindE (if srv_protocol server = dnscrypt \<or> srv_protocol server = anonymized_dnscrypt
            then validate_dnscrypt_server inet server else Inr ()) (\<lambda>_.
     bindE (requireE (\<not> (srv_allow_direct server \<and> srv_protocol server \<noteq> anonymized_dnscrypt))
              (Error ''CONFIG'' ''Direct certificate fallback applies only to Anonymized DNSCrypt''))
       (\<lambda>_.
     bindE (if srv_protocol server = dot \<or> srv_protocol server = doq
            then bindE (normalize_host (srv_hostname server) False) (\<lambda>_. Inr ())
            else Inr ()) (\<lambda>_.
     bindE (if srv_protocol server = doh \<or> srv_protocol server = doh3
            then validate_url (srv_url server) else Inr ()) (\<lambda>_.
     bindE (fallback_loop (srv_id server) (srv_fallback_ids server) {}) (\<lambda>_.
     Inr (insert (srv_id server) ids))))))))))"

text \<open>The map \<open>servers\<close> from ids to servers; the first server with an id stays.\<close>

definition server_map :: "config \<Rightarrow> 32 word \<Rightarrow> server option" where
  "server_map config i = find (\<lambda>s. srv_id s = i) (cf_servers config)"

text \<open>
  The recursive lambda \<open>visit\<close>; the state is \<open>(visiting, visited)\<close>.  The first argument
  bounds the depth: the number of servers plus one is enough (\<open>visit_spec\<close> in
  \<open>Rules_Facts\<close>).  \<open>servers.at\<close> cannot fail, because the fallbacks were checked before.
\<close>

abbreviation cycle_error :: error where
  "cycle_error \<equiv> Error ''SERVER_FALLBACK'' ''Fallback graph contains a cycle''"

fun visit ::
  "nat \<Rightarrow> (32 word \<Rightarrow> server option) \<Rightarrow> 32 word \<Rightarrow> 32 word set \<times> 32 word set \<Rightarrow>
   error + 32 word set \<times> 32 word set" where
  "visit 0 servers i s = Inl (Error ''DEPTH'' '''')"
| "visit (Suc n) servers i s =
     (let (visiting, visited) = s in
      if i \<in> visited then Inr s
      else if i \<in> visiting then Inl cycle_error
      else
        (case servers i of
           None \<Rightarrow> Inl (Error ''OUT_OF_RANGE'' '''')
         | Some server \<Rightarrow>
             bindE (foldE (visit n servers) (srv_fallback_ids server) (insert i visiting, visited))
               (\<lambda>(visiting, visited). Inr (visiting - {i}, insert i visited))))"

text \<open>The body of the loop over the rules: \<open>count\<close> is \<open>rules.size()\<close>, the state is
  the index and the set \<open>rule_ids\<close>.\<close>

definition validate_rule ::
  "32 word set \<Rightarrow> nat \<Rightarrow> rule \<Rightarrow> nat \<times> 32 word set \<Rightarrow> error + nat \<times> 32 word set" where
  "validate_rule ids count rule s =
     (let (i, rule_ids) = s in
      bindE (requireE (\<not> (rl_id rule = 0 \<or> rl_id rule \<in> rule_ids \<or> rl_name rule = []))
               (Error ''RULE_ID'' ''Missing/duplicate rule ID or name'')) (\<lambda>_.
      bindE (requireE (enum_le (rl_block_mode rule) silent_drop)
               (Error ''CONFIG'' ''Invalid block mode'')) (\<lambda>_.
      bindE (requireE (rl_is_default rule = (i = count - 1))
               (Error ''DEFAULT'' ''Exactly one Default must be last'')) (\<lambda>_.
      bindE (requireE (\<not> (rl_is_default rule \<and> (\<not> rl_enabled rule \<or> rl_patterns rule \<noteq> [''*''])))
               (Error ''DEFAULT'' ''Default must be enabled and match all'')) (\<lambda>_.
      bindE (requireE (\<not> (rl_patterns rule = [] \<or> length (rl_patterns rule) > 4096))
               (Error ''PATTERN'' ''Missing or excessive patterns'')) (\<lambda>_.
      bindE (mapE (\<lambda>pattern. normalize_dns_name pattern True) (rl_patterns rule)) (\<lambda>_.
      bindE (requireE (\<not> (rl_action rule = Action_process \<and> rl_server_id rule \<noteq> 0 \<and>
                           rl_server_id rule \<notin> ids))
               (Error ''SERVER_REFERENCE'' ''Rule references missing server'')) (\<lambda>_.
      bindE (requireE (\<not> (rl_action rule \<noteq> Action_process \<and> rl_server_id rule \<noteq> 0))
               (Error ''SERVER_REFERENCE'' ''Non-Process rule cannot select server'')) (\<lambda>_.
      Inr (i + 1, insert (rl_id rule) rule_ids))))))))))"

definition validate :: "inet \<Rightarrow> config \<Rightarrow> error + unit" where
  "validate inet config =
     bindE (runtime_options config) (\<lambda>_.
     bindE (requireE (cf_schema_version config = 1)
              (Error ''SCHEMA'' ''Unsupported schema version'')) (\<lambda>_.
     bindE (requireE (\<not> (length (cf_servers config) > 4096 \<or> cf_rules config = [] \<or>
                          length (cf_rules config) > 4096))
              (Error ''CONFIG_LIMIT'' ''Configuration count limit or missing Default'')) (\<lambda>_.
     bindE (requireE (\<not> (cf_test_concurrency config = 0 \<or> cf_test_concurrency config > 64))
              (Error ''CONFIG'' ''Test concurrency must be 1..64'')) (\<lambda>_.
     bindE (normalize_host (cf_test_target config) False) (\<lambda>_.
     bindE (requireE (enum_le (lg_screen (cf_logging config)) debug \<and>
                      enum_le (lg_file (cf_logging config)) debug)
              (Error ''CONFIG'' ''Invalid log level'')) (\<lambda>_.
     bindE (foldE (validate_server inet) (cf_servers config) {}) (\<lambda>ids.
     bindE (mapE (\<lambda>server. mapE (\<lambda>fallback.
              requireE (server_map config fallback \<noteq> None)
                (Error ''SERVER_FALLBACK'' ''Fallback references a missing server''))
              (srv_fallback_ids server)) (cf_servers config)) (\<lambda>_.
     bindE (foldE (visit (Suc (length (cf_servers config))) (server_map config))
              (map srv_id (cf_servers config)) ({}, {})) (\<lambda>_.
     bindE (foldE (validate_rule ids (length (cf_rules config))) (cf_rules config) (0, {})) (\<lambda>_.
     Inr ()))))))))))"

section \<open>Choosing a rule\<close>

text \<open>The inner loop of \<open>match_rule\<close>, and the \<open>none_of\<close> of \<open>evaluate_rule\<close>, negated.\<close>

fun matches_any :: "string \<Rightarrow> string list \<Rightarrow> error + bool" where
  "matches_any host [] = Inr False"
| "matches_any host (pattern # patterns) =
     bindE (normalize_dns_name pattern True) (\<lambda>p.
     if host_matches host p then Inr True else matches_any host patterns)"

fun match_rules :: "string \<Rightarrow> rule list \<Rightarrow> error + rule" where
  "match_rules host [] = Inl (Error ''DEFAULT'' ''No matching rule: invalid configuration'')"
| "match_rules host (rule # rules) =
     (if \<not> rl_enabled rule then match_rules host rules
      else bindE (matches_any host (rl_patterns rule)) (\<lambda>b.
        if b then Inr rule else match_rules host rules))"

definition match_rule :: "config \<Rightarrow> string \<Rightarrow> error + rule" where
  "match_rule config hostname =
     bindE (normalize_dns_name hostname False) (\<lambda>host. match_rules host (cf_rules config))"

record rule_decision =
  rd_rule :: "rule option"
  rd_reinject_udp :: bool
  rd_captive_bypass :: bool
  rd_route :: network_route
  rd_interface_dns :: "string list"
  rd_error_code :: string
  rd_message :: string

definition no_decision :: rule_decision where
  "no_decision = \<lparr>rd_rule = None, rd_reinject_udp = False, rd_captive_bypass = False,
     rd_route = default_route, rd_interface_dns = [], rd_error_code = [], rd_message = []\<rparr>"

definition rule_match_kind :: "rule \<Rightarrow> string" where
  "rule_match_kind rule =
     (case map_of (rl_metadata rule) ''interface_id_type'' of Some v \<Rightarrow> v | None \<Rightarrow> ''id'')"

definition rule_selector :: "rule \<Rightarrow> string" where
  "rule_selector rule =
     (if rule_match_kind rule = ''name'' then
        (case map_of (rl_metadata rule) ''interface_name'' of
           Some v \<Rightarrow> if v \<noteq> [] then v else rl_interface_id rule
         | None \<Rightarrow> rl_interface_id rule)
      else rl_interface_id rule)"

definition captive_hosts :: "string list" where
  "captive_hosts = [''dns.msftncsi.com'', ''www.msftncsi.com'', ''ipv6.msftncsi.com'',
     ''www.msftconnecttest.com'', ''ipv6.msftconnecttest.com'']"

text \<open>
  The interface part of a round of the loop: \<open>Inl d\<close> returns the decision, \<open>Inr None\<close> is
  \<open>continue\<close>, \<open>Inr (Some d)\<close> goes on with the decision.
\<close>

definition select_route ::
  "run_options \<Rightarrow> snapshot \<Rightarrow> rule \<Rightarrow> rule_decision \<Rightarrow> rule_decision + rule_decision option" where
  "select_route options network rule decision =
     (let selector = rule_selector rule in
      if selector = [] then Inr (Some decision)
      else if sn_error network \<noteq> [] then
        Inl (decision\<lparr>rd_error_code := ''INTERFACE_ENUMERATION'', rd_message := sn_error network\<rparr>)
      else
        (case find_interface network selector (rule_match_kind rule) of
           Inl e \<Rightarrow> Inl (decision\<lparr>rd_error_code := err_code e, rd_message := err_msg e\<rparr>)
         | Inr info \<Rightarrow>
             (if info = None \<or> \<not> if_up (the info) then
                (if ro_ignore_interface_down options \<and> \<not> rl_is_default rule then Inr None
                 else Inl (decision\<lparr>rd_error_code := ''INTERFACE_DOWN'',
                        rd_message := ''Required interface is unavailable: '' @ selector\<rparr>))
              else
                Inr (Some (decision\<lparr>
                  rd_route := \<lparr>nr_interface_id = if_id (the info), nr_interface_name = if_name (the info),
                    nr_index4 = if_index4 (the info), nr_index6 = if_index6 (the info),
                    nr_scope6 = 0, nr_generation = sn_generation network\<rparr>,
                  rd_interface_dns := if_dns_servers (the info)\<rparr>)))))"

text \<open>The rest of the round, after the interface part.\<close>

definition finish_decision ::
  "run_options \<Rightarrow> snapshot \<Rightarrow> string \<Rightarrow> rule \<Rightarrow> rule_decision \<Rightarrow> rule_decision" where
  "finish_decision options network host rule decision =
     (if rl_dnssec_validate rule \<or> rl_dnssec_reject_unsigned rule then
        decision\<lparr>rd_error_code := ''NOT_IMPLEMENTED'',
          rd_message := ''Selected rule requires local DNSSEC validation''\<rparr>
      else
        let selector = rule_selector rule;
            captive = (ro_captive_portal_detection options \<and> rl_action rule = Action_process \<and>
              rl_is_default rule \<and> selector = [] \<and>
              ((\<exists>info \<in> set (sn_interfaces network). if_up info \<and> if_captive_portal info) \<or>
               host \<in> set captive_hosts)) in
        decision\<lparr>rd_captive_bypass := captive,
          rd_reinject_udp :=
            captive \<or> rl_action rule = Action_bypass \<or>
            (rl_action rule = Action_process \<and> rl_server_id rule = 0 \<and> selector = [] \<and>
             ro_ttl_min options = 0 \<and> ro_ttl_max options = int_max)\<rparr>)"

fun evaluate_loop ::
  "run_options \<Rightarrow> snapshot \<Rightarrow> string \<Rightarrow> rule list \<Rightarrow> error + rule_decision" where
  "evaluate_loop options network host [] = Inl (Error ''DEFAULT'' ''No usable Default rule'')"
| "evaluate_loop options network host (rule # rules) =
     bindE (if \<not> rl_enabled rule then Inr False else matches_any host (rl_patterns rule)) (\<lambda>b.
     if \<not> b then evaluate_loop options network host rules
     else
       (case select_route options network rule (no_decision\<lparr>rd_rule := Some rule\<rparr>) of
          Inl d \<Rightarrow> Inr d
        | Inr None \<Rightarrow> evaluate_loop options network host rules
        | Inr (Some d) \<Rightarrow> Inr (finish_decision options network host rule d)))"

text \<open>
  \<open>shared\<close> is the snapshot of the shared monitor, read at most once, when \<open>network\<close> is null.
\<close>

definition evaluate_rule ::
  "config \<Rightarrow> string \<Rightarrow> snapshot option \<Rightarrow> snapshot \<Rightarrow> error + rule_decision" where
  "evaluate_rule config hostname network shared =
     bindE (normalize_dns_name hostname False) (\<lambda>host.
     bindE (runtime_options config) (\<lambda>options.
     evaluate_loop options (case network of Some n \<Rightarrow> n | None \<Rightarrow> shared) host (cf_rules config)))"

section \<open>The configuration editor\<close>

text \<open>
  \<open>config_\<close> is the state; an operation builds the next configuration and \<open>commit\<close>s it, so
  an error leaves the state as it was.
\<close>

definition config_editor :: "inet \<Rightarrow> config \<Rightarrow> error + config" where
  "config_editor inet config = bindE (validate inet config) (\<lambda>_. Inr config)"

definition commit :: "inet \<Rightarrow> config \<Rightarrow> error + config" where
  "commit inet next_config = bindE (validate inet next_config) (\<lambda>_. Inr next_config)"

text \<open>\<open>find_if\<close> on the rules: the index, which is the number of rules when there is none.\<close>

definition rule_index :: "config \<Rightarrow> 32 word \<Rightarrow> nat" where
  "rule_index config i = length (takeWhile (\<lambda>r. rl_id r \<noteq> i) (cf_rules config))"

definition add_rule :: "inet \<Rightarrow> rule \<Rightarrow> config \<Rightarrow> error + config" where
  "add_rule inet rule config =
     (let rules = cf_rules config in
      commit inet (config\<lparr>cf_rules := butlast rules @ [rule] @ [last rules]\<rparr>))"

definition update_rule :: "inet \<Rightarrow> rule \<Rightarrow> config \<Rightarrow> error + config" where
  "update_rule inet rule config =
     (let rules = cf_rules config; it = rule_index config (rl_id rule) in
      bindE (requireE (\<not> (it = length rules \<or> rl_is_default (rules ! it) \<noteq> rl_is_default rule))
               (Error ''RULE_ID'' ''Rule not found or Default identity changed'')) (\<lambda>_.
      commit inet (config\<lparr>cf_rules := rules[it := rule]\<rparr>)))"

definition remove_rule :: "inet \<Rightarrow> 32 word \<Rightarrow> config \<Rightarrow> error + config" where
  "remove_rule inet i config =
     (let rules = cf_rules config; it = rule_index config i in
      bindE (requireE (\<not> (it = length rules \<or> rl_is_default (rules ! it)))
               (Error ''DEFAULT'' ''Cannot remove missing/Default rule'')) (\<lambda>_.
      commit inet (config\<lparr>cf_rules := take it rules @ drop (it + 1) rules\<rparr>)))"

definition move_rule :: "inet \<Rightarrow> 32 word \<Rightarrow> int \<Rightarrow> config \<Rightarrow> error + config" where
  "move_rule inet i direction config =
     (let rules = cf_rules config; it = rule_index config i in
      bindE (requireE (\<not> (direction \<noteq> -1 \<and> direction \<noteq> 1))
               (Error ''ORDER'' ''Direction must be -1 or 1'')) (\<lambda>_.
      bindE (requireE (\<not> (it = length rules \<or> rl_is_default (rules ! it) \<or>
                           direction < 0 \<and> it = 0 \<or>
                           direction > 0 \<and> rl_is_default (rules ! (it + 1))))
               (Error ''ORDER'' ''Cannot move rule beyond ordered boundary'')) (\<lambda>_.
      let other = nat (int it + direction) in
      commit inet (config\<lparr>cf_rules := rules[it := rules ! other, other := rules ! it]\<rparr>))))"

definition clone_rule :: "inet \<Rightarrow> 32 word \<Rightarrow> 32 word \<Rightarrow> config \<Rightarrow> error + config" where
  "clone_rule inet source new_id config =
     (let rules = cf_rules config; it = rule_index config source in
      bindE (requireE (it \<noteq> length rules) (Error ''RULE_ID'' ''Rule not found'')) (\<lambda>_.
      let rule = (rules ! it)\<lparr>rl_id := new_id, rl_is_default := False,
            rl_name := rl_name (rules ! it) @ '' (copy)''\<rparr> in
      add_rule inet rule config))"

definition add_server :: "inet \<Rightarrow> server \<Rightarrow> config \<Rightarrow> error + config" where
  "add_server inet server config =
     commit inet (config\<lparr>cf_servers := cf_servers config @ [server]\<rparr>)"

definition update_server :: "inet \<Rightarrow> server \<Rightarrow> config \<Rightarrow> error + config" where
  "update_server inet server config =
     (let servers = cf_servers config;
          it = length (takeWhile (\<lambda>s. srv_id s \<noteq> srv_id server) servers) in
      bindE (requireE (it \<noteq> length servers) (Error ''SERVER_ID'' ''Server not found'')) (\<lambda>_.
      commit inet (config\<lparr>cf_servers := servers[it := server]\<rparr>)))"

definition remove_server :: "inet \<Rightarrow> 32 word \<Rightarrow> config \<Rightarrow> error + config" where
  "remove_server inet i config =
     (let servers = filter (\<lambda>s. srv_id s \<noteq> i) (cf_servers config) in
      bindE (requireE (length servers \<noteq> length (cf_servers config))
               (Error ''SERVER_ID'' ''Server not found'')) (\<lambda>_.
      commit inet (config\<lparr>cf_servers := servers\<rparr>)))"

text \<open>The operations of the editor as one step function.\<close>

datatype edit =
    Add_rule rule | Update_rule rule | Remove_rule "32 word" | Move_rule "32 word" int
  | Clone_rule "32 word" "32 word" | Add_server server | Update_server server
  | Remove_server "32 word"

fun edit_step :: "inet \<Rightarrow> edit \<Rightarrow> config \<Rightarrow> error + config" where
  "edit_step inet (Add_rule r) c = add_rule inet r c"
| "edit_step inet (Update_rule r) c = update_rule inet r c"
| "edit_step inet (Remove_rule i) c = remove_rule inet i c"
| "edit_step inet (Move_rule i d) c = move_rule inet i d c"
| "edit_step inet (Clone_rule i j) c = clone_rule inet i j c"
| "edit_step inet (Add_server s) c = add_server inet s c"
| "edit_step inet (Update_server s) c = update_server inet s c"
| "edit_step inet (Remove_server i) c = remove_server inet i c"

end
