(* ===== verification/Config_File.thy ===== *)
theory Config_File
  imports Xml_Parser Rules
begin

text \<open>
  Configuration files, the rest of \<open>src/config.cpp\<close>: reading attributes and lists, the
  import of YogaDNS profiles, the serializer, the reader of NativeDNS files, and saving with
  \<open>atomic_publish_file\<close> of \<open>src/platform/linux/platform.cpp\<close>.  The file system is a map
  from paths to contents; which of its calls fail is an argument (\<open>record disk\<close>).
\<close>

section \<open>Attributes and values\<close>

definition attr :: "node \<Rightarrow> string \<Rightarrow> string \<Rightarrow> string" where
  "attr node key fallback =
     (case map_of (nd_attrs node) key of None \<Rightarrow> fallback | Some v \<Rightarrow> v)"

definition number :: "string \<Rightarrow> error + 32 word" where
  "number text =
     (case from_chars (2 ^ 32) text of
        Some n \<Rightarrow> Inr (of_nat n)
      | None \<Rightarrow> Inl (Error ''CONFIG_NUMBER'' (''Invalid unsigned integer: '' @ text)))"

definition num :: "node \<Rightarrow> string \<Rightarrow> 32 word \<Rightarrow> error + 32 word" where
  "num node key fallback = number (attr node key (to_string (unat fallback)))"

definition flag :: "node \<Rightarrow> string \<Rightarrow> bool \<Rightarrow> error + bool" where
  "flag node key fallback =
     (let v = attr node key (if fallback then ''1'' else ''0'') in
      bindE (requireE (\<not> (v \<noteq> ''0'' \<and> v \<noteq> ''1''))
               (Error ''CONFIG_BOOL'' (''Invalid boolean: '' @ key))) (\<lambda>_.
      Inr (v = ''1'')))"

definition read_protocol :: "string \<Rightarrow> error + protocol" where
  "read_protocol name =
     (case find (\<lambda>p. name = protocol_name p)
             [udp, tcp, doh, dot, doh3, doq, dnscrypt, anonymized_dnscrypt] of
        Some p \<Rightarrow> Inr p
      | None \<Rightarrow>
          if name = ''plain'' then Inr udp
          else Inl (Error ''PROTOCOL'' (''Unsupported protocol in config: '' @ name)))"

definition read_action :: "string \<Rightarrow> error + action" where
  "read_action name =
     (if name = ''process'' \<or> name = ''process_server'' then Inr Action_process
      else if name = ''bypass'' then Inr Action_bypass
      else if name = ''block'' then Inr Action_block
      else Inl (Error ''ACTION'' (''Unsupported action: '' @ name)))"

definition known :: "node \<Rightarrow> string list \<Rightarrow> error + unit" where
  "known node keys =
     bindE (mapE (\<lambda>(key, v). requireE (key \<in> set keys)
              (Error ''CONFIG_FIELD'' (''Unknown field '' @ nd_name node @ ''/'' @ key)))
              (nd_attrs node)) (\<lambda>_.
     Inr ())"

text \<open>\<open>split\<close> with \<open>std::getline\<close>: empty pieces are dropped.\<close>

function split_list :: "string \<Rightarrow> string list" where
  "split_list text =
     (if text = [] then []
      else let v = takeWhile (\<lambda>c. c \<noteq> CHR '';'') text in
        (if v \<noteq> [] then [v] else []) @ split_list (drop (length v + 1) text))"
  by pat_completeness auto
termination
  by (relation "measure length") auto

declare split_list.simps [simp del]

fun join_step :: "string \<Rightarrow> string \<Rightarrow> string" where
  "join_step v out = (if out \<noteq> [] then out @ '';'' @ v else out @ v)"

definition join_list :: "string list \<Rightarrow> string" where
  "join_list values = fold join_step values []"

definition join_ids :: "32 word list \<Rightarrow> string" where
  "join_ids values = fold join_step (map (\<lambda>v. to_string (unat v)) values) []"

definition split_ids :: "string \<Rightarrow> error + 32 word list" where
  "split_ids text = mapE number (split_list text)"

section \<open>Writing\<close>

text \<open>\<open>widen\<close> is called for its check only; it fails on the same texts for both widths.\<close>

definition escape_char :: "char \<Rightarrow> error + string" where
  "escape_char c =
     (if c = CHR ''&'' then Inr ''&amp;''
      else if c = CHR ''<'' then Inr ''&lt;''
      else if c = CHR ''>'' then Inr ''&gt;''
      else if c = CHR 0x22 then Inr ''&quot;''
      else if c = CHR 0x0A then Inr ''&#10;''
      else if c = CHR 0x0D then Inr ''&#13;''
      else if c = CHR 0x09 then Inr ''&#9;''
      else if code c < 32 then Inl (xml_error ''Control character cannot be serialized'')
      else Inr [c])"

definition escape :: "string \<Rightarrow> error + string" where
  "escape v =
     bindE (widen True v) (\<lambda>_.
     bindE (mapE escape_char v) (\<lambda>cs. Inr (concat cs)))"

definition field :: "string \<Rightarrow> string \<Rightarrow> error + string" where
  "field name v = bindE (escape v) (\<lambda>e. Inr ('' '' @ name @ ''='' @ [CHR 0x22] @ e @ [CHR 0x22]))"

text \<open>The overload for numbers and booleans gives a text to \<open>field\<close>.\<close>

definition num_text :: "32 word \<Rightarrow> string" where
  "num_text v = to_string (unat v)"

definition bool_text :: "bool \<Rightarrow> string" where
  "bool_text b = (if b then ''1'' else ''0'')"

definition field_list :: "(string \<times> string) list \<Rightarrow> error + string" where
  "field_list kvs = bindE (mapE (\<lambda>(k, v). field k v) kvs) (\<lambda>fs. Inr (concat fs))"

abbreviation newline :: string where "newline \<equiv> [CHR 0x0A]"

definition metadata :: "smap \<Rightarrow> error + string" where
  "metadata values =
     bindE (mapE (\<lambda>(k, v).
       bindE (field_list [(''key'', k), (''value'', v)]) (\<lambda>f.
       Inr (''    <Meta'' @ f @ ''/>'' @ newline))) values) (\<lambda>ms.
     Inr (concat ms))"

definition server_fields :: "server \<Rightarrow> (string \<times> string) list" where
  "server_fields s =
     [(''id'', num_text (srv_id s)), (''name'', srv_name s), (''enabled'', bool_text (srv_enabled s)),
      (''protocol'', protocol_name (srv_protocol s)), (''ip'', srv_ip s),
      (''port'', num_text (ucast (srv_port s))), (''hostname'', srv_hostname s),
      (''url'', srv_url s), (''dnssec'', bool_text (srv_dnssec_supported s)),
      (''timeout'', num_text (srv_timeout_ms s)),
      (''directCertificateFallback'', bool_text (srv_allow_direct s)),
      (''fallbacks'', join_ids (srv_fallback_ids s)), (''bootstrap'', join_list (srv_bootstrap s)),
      (''hashes'', join_list (srv_hashes s)), (''publicKey'', srv_public_key s),
      (''provider'', srv_provider_name s), (''relay'', srv_relay s)]"

definition rule_fields :: "rule \<Rightarrow> (string \<times> string) list" where
  "rule_fields r =
     [(''id'', num_text (rl_id r)), (''name'', rl_name r), (''enabled'', bool_text (rl_enabled r)),
      (''default'', bool_text (rl_is_default r)), (''patterns'', join_list (rl_patterns r)),
      (''action'', action_name (rl_action r)), (''server'', num_text (rl_server_id r)),
      (''interface'', rl_interface_id r), (''validate'', bool_text (rl_dnssec_validate r)),
      (''rejectUnsigned'', bool_text (rl_dnssec_reject_unsigned r)),
      (''blockMode'', num_text (rl_block_mode r))]"

definition logging_fields :: "logging_settings \<Rightarrow> (string \<times> string) list" where
  "logging_fields l =
     [(''screen'', num_text (lg_screen l)), (''file'', num_text (lg_file l)),
      (''enabled'', bool_text (lg_file_enabled l)), (''directory'', lg_directory l)]"

definition serialize_server :: "server \<Rightarrow> error + string" where
  "serialize_server s =
     bindE (field_list (server_fields s)) (\<lambda>f.
     bindE (metadata (srv_metadata s)) (\<lambda>m.
     Inr (''  <Server'' @ f @ ''>'' @ newline @ m @ ''  </Server>'' @ newline)))"

definition serialize_rule :: "rule \<Rightarrow> error + string" where
  "serialize_rule r =
     bindE (field_list (rule_fields r)) (\<lambda>f.
     bindE (metadata (rl_metadata r)) (\<lambda>m.
     Inr (''  <Rule'' @ f @ ''>'' @ newline @ m @ ''  </Rule>'' @ newline)))"

abbreviation xml_declaration :: string where
  "xml_declaration \<equiv> ''<?xml version='' @ [CHR 0x22] @ ''1.0'' @ [CHR 0x22] @ '' encoding='' @
     [CHR 0x22] @ ''UTF-8'' @ [CHR 0x22] @ ''?>''"

definition serialize_config :: "inet \<Rightarrow> config \<Rightarrow> error + string" where
  "serialize_config inet config =
     bindE (validate inet config) (\<lambda>_.
     bindE (field_list [(''testTarget'', cf_test_target config),
                    (''testConcurrency'', num_text (cf_test_concurrency config))]) (\<lambda>root.
     bindE (metadata (cf_settings config)) (\<lambda>settings.
     bindE (field_list (logging_fields (cf_logging config))) (\<lambda>logging.
     bindE (mapE serialize_server (cf_servers config)) (\<lambda>servers.
     bindE (mapE serialize_rule (cf_rules config)) (\<lambda>rules.
     let result = xml_declaration @ newline @
       ''<NativeDNS schemaVersion='' @ [CHR 0x22] @ ''1'' @ [CHR 0x22] @ root @ ''>'' @ newline @
       ''  <Settings>'' @ newline @ settings @ ''  </Settings>'' @ newline @
       ''  <Logging'' @ logging @ ''/>'' @ newline @
       concat servers @ concat rules @ ''</NativeDNS>'' @ newline in
     bindE (requireE (\<not> length result > config_limit)
              (Error ''CONFIG_LIMIT'' ''Serialized config exceeds 4 MiB'')) (\<lambda>_.
     Inr result)))))))"

section \<open>Reading\<close>

definition meta_step :: "string \<Rightarrow> node \<Rightarrow> smap \<Rightarrow> error + smap" where
  "meta_step parent item result =
     bindE (requireE (\<not> (nd_name item \<noteq> ''Meta'' \<or> nd_children item \<noteq> []))
              (Error ''CONFIG_FIELD'' (''Unexpected child of '' @ parent))) (\<lambda>_.
     bindE (known item [''key'', ''value'']) (\<lambda>_.
     let (result, inserted) = smap_emplace (attr item ''key'' []) (attr item ''value'' []) result in
     bindE (requireE inserted (Error ''CONFIG_FIELD'' ''Duplicate metadata key'')) (\<lambda>_.
     Inr result)))"

definition read_metadata :: "node \<Rightarrow> error + smap" where
  "read_metadata node = foldE (meta_step (nd_name node)) (nd_children node) []"

definition read_logging :: "node \<Rightarrow> error + logging_settings" where
  "read_logging node =
     bindE (known node [''screen'', ''file'', ''enabled'', ''directory'']) (\<lambda>_.
     bindE (num node ''screen'' 1) (\<lambda>screen.
     bindE (num node ''file'' 1) (\<lambda>file.
     bindE (flag node ''enabled'' True) (\<lambda>enabled.
     Inr \<lparr>lg_screen = screen, lg_file = file, lg_file_enabled = enabled,
          lg_directory = attr node ''directory'' ''logs''\<rparr>))))"

definition read_server :: "node \<Rightarrow> error + server" where
  "read_server node =
     bindE (known node [''id'', ''name'', ''enabled'', ''protocol'', ''ip'', ''port'', ''hostname'',
       ''url'', ''dnssec'', ''timeout'', ''directCertificateFallback'', ''fallbacks'',
       ''bootstrap'', ''hashes'', ''publicKey'', ''provider'', ''relay'']) (\<lambda>_.
     bindE (num node ''id'' 0) (\<lambda>i.
     bindE (flag node ''enabled'' True) (\<lambda>enabled.
     bindE (read_protocol (attr node ''protocol'' [])) (\<lambda>protocol.
     bindE (num node ''port'' 0) (\<lambda>port.
     bindE (requireE (\<not> port > 65535) (Error ''ENDPOINT'' ''Port out of range'')) (\<lambda>_.
     bindE (flag node ''dnssec'' False) (\<lambda>dnssec.
     bindE (num node ''timeout'' 3000) (\<lambda>timeout.
     bindE (flag node ''directCertificateFallback'' False) (\<lambda>direct.
     bindE (split_ids (attr node ''fallbacks'' [])) (\<lambda>fallbacks.
     bindE (read_metadata node) (\<lambda>meta.
     Inr (default_server\<lparr>srv_id := i, srv_name := attr node ''name'' [], srv_enabled := enabled,
       srv_protocol := protocol, srv_ip := attr node ''ip'' [], srv_port := ucast port,
       srv_hostname := attr node ''hostname'' [], srv_url := attr node ''url'' [],
       srv_dnssec_supported := dnssec, srv_timeout_ms := timeout, srv_allow_direct := direct,
       srv_fallback_ids := fallbacks,
       srv_bootstrap := split_list (attr node ''bootstrap'' []),
       srv_hashes := split_list (attr node ''hashes'' []),
       srv_public_key := attr node ''publicKey'' [],
       srv_provider_name := attr node ''provider'' [], srv_relay := attr node ''relay'' [],
       srv_metadata := meta\<rparr>))))))))))))"

definition read_rule :: "node \<Rightarrow> error + rule" where
  "read_rule node =
     bindE (known node [''id'', ''name'', ''enabled'', ''default'', ''patterns'', ''action'',
       ''server'', ''interface'', ''validate'', ''rejectUnsigned'', ''blockMode'']) (\<lambda>_.
     bindE (num node ''id'' 0) (\<lambda>i.
     bindE (flag node ''enabled'' True) (\<lambda>enabled.
     bindE (flag node ''default'' False) (\<lambda>is_default.
     bindE (read_action (attr node ''action'' [])) (\<lambda>act.
     bindE (num node ''server'' 0) (\<lambda>server.
     bindE (flag node ''validate'' False) (\<lambda>validate.
     bindE (flag node ''rejectUnsigned'' False) (\<lambda>reject.
     bindE (num node ''blockMode'' 0) (\<lambda>mode.
     bindE (read_metadata node) (\<lambda>meta.
     Inr (default_rule\<lparr>rl_id := i, rl_name := attr node ''name'' [], rl_enabled := enabled,
       rl_is_default := is_default, rl_patterns := split_list (attr node ''patterns'' []),
       rl_action := act, rl_server_id := server, rl_interface_id := attr node ''interface'' [],
       rl_dnssec_validate := validate, rl_dnssec_reject_unsigned := reject,
       rl_block_mode := mode, rl_metadata := meta\<rparr>)))))))))))"

text \<open>The body of the loop over the children of the root, with its two flags.\<close>

definition child_step :: "node \<Rightarrow> config \<times> bool \<times> bool \<Rightarrow> error + config \<times> bool \<times> bool" where
  "child_step node s =
     (let (config, saw_settings, saw_logging) = s in
      if nd_name node = ''Settings'' then
        bindE (known node []) (\<lambda>_.
        bindE (requireE (\<not> saw_settings) (Error ''CONFIG'' ''Duplicate Settings'')) (\<lambda>_.
        bindE (read_metadata node) (\<lambda>meta.
        Inr (config\<lparr>cf_settings := meta\<rparr>, True, saw_logging))))
      else if nd_name node = ''Logging'' then
        bindE (requireE (\<not> (saw_logging \<or> nd_children node \<noteq> []))
                 (Error ''CONFIG'' ''Invalid Logging element'')) (\<lambda>_.
        bindE (read_logging node) (\<lambda>logging.
        Inr (config\<lparr>cf_logging := logging\<rparr>, saw_settings, True)))
      else if nd_name node = ''Server'' then
        bindE (read_server node) (\<lambda>server.
        Inr (config\<lparr>cf_servers := cf_servers config @ [server]\<rparr>, saw_settings, saw_logging))
      else if nd_name node = ''Rule'' then
        bindE (read_rule node) (\<lambda>rule.
        Inr (config\<lparr>cf_rules := cf_rules config @ [rule]\<rparr>, saw_settings, saw_logging))
      else Inl (Error ''CONFIG_FIELD'' (''Unknown element: '' @ nd_name node)))"

definition config_from_root :: "inet \<Rightarrow> node \<Rightarrow> error + config" where
  "config_from_root inet root =
     bindE (requireE (nd_name root = ''NativeDNS'') (Error ''CONFIG'' ''Expected NativeDNS root'')) (\<lambda>_.
     bindE (known root [''schemaVersion'', ''testTarget'', ''testConcurrency'']) (\<lambda>_.
     bindE (num root ''schemaVersion'' 0) (\<lambda>schema.
     bindE (num root ''testConcurrency'' 15) (\<lambda>concurrency.
     bindE (foldE child_step (nd_children root)
              (empty_config\<lparr>cf_schema_version := schema,
                 cf_test_target := attr root ''testTarget'' ''iana.org'',
                 cf_test_concurrency := concurrency\<rparr>, False, False)) (\<lambda>(config, _, _).
     bindE (validate inet config) (\<lambda>_.
     Inr config))))))"

definition parse_config :: "inet \<Rightarrow> string \<Rightarrow> error + config" where
  "parse_config inet text = bindE (parse_xml text) (config_from_root inet)"

section \<open>YogaDNS profiles\<close>

record import_result =
  ir_config :: config
  ir_warnings :: "string list"

definition runtime_keys :: "string list" where
  "runtime_keys = [''clearDnsCache'', ''ttlMin'', ''ttlMax'', ''blockTcpPort53'',
     ''interceptOthers'', ''captivePortalDetection'', ''ignore_rule_if_interface_down'']"

definition yoga_setting :: "string \<times> string \<Rightarrow> import_result \<Rightarrow> import_result" where
  "yoga_setting kv result =
     (let (key, v) = kv; config = ir_config result in
      result\<lparr>ir_config := config\<lparr>cf_settings :=
                 smap_put (''yoga.settings.'' @ key) v (cf_settings config)\<rparr>,
             ir_warnings := ir_warnings result @
               (if key \<notin> set runtime_keys
                then [''Preserved Yoga setting pending runtime support: '' @ key] else [])\<rparr>)"

definition yoga_checker :: "node \<Rightarrow> import_result \<Rightarrow> error + import_result" where
  "yoga_checker child result =
     bindE (requireE (\<not> (nd_name child \<noteq> ''DnsChecker'' \<or> nd_children child \<noteq> []))
              (Error ''YOGA_FIELD'' (''Unsupported Settings child: '' @ nd_name child))) (\<lambda>_.
     bindE (num child ''testsPerTime'' 15) (\<lambda>concurrency.
     Inr (fold (\<lambda>(key, v) result.
            let config = ir_config result in
            result\<lparr>ir_config := config\<lparr>cf_settings :=
                      smap_put (''yoga.checker.'' @ key) v (cf_settings config)\<rparr>,
                   ir_warnings := ir_warnings result @
                     (if key \<noteq> ''testTarget'' \<and> key \<noteq> ''testsPerTime''
                      then [''Preserved checker field: '' @ key] else [])\<rparr>)
            (nd_attrs child)
            (result\<lparr>ir_config := (ir_config result)\<lparr>
               cf_test_target := attr child ''testTarget'' ''iana.org'',
               cf_test_concurrency := concurrency\<rparr>\<rparr>))))"

definition unmapped :: "string \<Rightarrow> string list \<Rightarrow> node \<Rightarrow> string list" where
  "unmapped message keys node =
     map (\<lambda>(key, v). message @ key) (filter (\<lambda>(key, v). key \<notin> set keys) (nd_attrs node))"

definition yoga_server :: "node \<Rightarrow> error + server \<times> string list" where
  "yoga_server node =
     bindE (requireE (nd_children node = []) (Error ''YOGA_FIELD'' ''Unexpected server children'')) (\<lambda>_.
     bindE (num node ''id'' 0) (\<lambda>i.
     bindE (read_protocol (attr node ''protocol'' [])) (\<lambda>protocol.
     bindE (flag node ''enabled'' True) (\<lambda>enabled.
     bindE (flag node ''dnssec_supported'' False) (\<lambda>dnssec.
     bindE (num node ''port'' 0) (\<lambda>port.
     bindE (requireE (\<not> port > 65535) (Error ''ENDPOINT'' ''Port out of range'')) (\<lambda>_.
     let server = default_server\<lparr>srv_id := i, srv_name := attr node ''name'' [],
           srv_protocol := protocol, srv_ip := attr node ''ip'' [], srv_enabled := enabled,
           srv_dnssec_supported := dnssec, srv_port := ucast port\<rparr>;
         server =
           (if protocol = doh \<or> protocol = doh3 then
              server\<lparr>srv_hostname := attr node ''doh_host_name'' [],
                srv_url := ''https://'' @ attr node ''doh_host_name'' [] @
                  (if port \<noteq> 0 then '':'' @ num_text port else []) @
                  attr node ''doh_path'' ''/dns-query''\<rparr>
            else if protocol = dot then server\<lparr>srv_hostname := attr node ''dot_host_name'' []\<rparr>
            else server) in
     Inr (server\<lparr>srv_metadata := nd_attrs node\<rparr>,
       unmapped ''Unmapped server field retained: ''
         [''id'', ''name'', ''protocol'', ''ip'', ''af'', ''port'', ''enabled'', ''dnssec_supported'',
          ''dot_host_name'', ''doh_host_name'', ''doh_path''] node))))))))"

definition yoga_rule :: "32 word \<Rightarrow> node \<Rightarrow> error + rule \<times> string list" where
  "yoga_rule rule_id node =
     bindE (requireE (nd_children node = []) (Error ''YOGA_FIELD'' ''Unexpected rule children'')) (\<lambda>_.
     bindE (flag node ''enabled'' True) (\<lambda>enabled.
     bindE (split_patterns (attr node ''hostnames'' [])) (\<lambda>patterns.
     bindE (read_action (attr node ''action'' [])) (\<lambda>act.
     bindE (num node ''action_id'' 0) (\<lambda>target.
     bindE (flag node ''dnssec_local_validation'' False) (\<lambda>validate.
     bindE (flag node ''dnssec_reject_unsigned'' False) (\<lambda>reject.
     let name = attr node ''name'' []; interface = attr node ''interface_id'' [] in
     Inr (default_rule\<lparr>rl_id := rule_id, rl_name := name, rl_enabled := enabled,
            rl_patterns := patterns, rl_is_default := (name = ''Default''), rl_action := act,
            rl_server_id := (if act = Action_process then target else 0),
            rl_interface_id := interface, rl_dnssec_validate := validate,
            rl_dnssec_reject_unsigned := reject, rl_metadata := nd_attrs node\<rparr>,
          (if act \<noteq> Action_process \<and> target \<noteq> 0
           then [''Inactive action_id preserved in rule metadata: '' @ name] else []) @
          (if interface \<noteq> [] \<or> validate \<or> reject
           then [''Rule needs runtime capability validation: '' @ name] else []) @
          unmapped ''Unmapped rule field retained: ''
            [''name'', ''enabled'', ''hostnames'', ''action'', ''action_id'', ''interface_id'',
             ''interface_id_type'', ''interface_name'', ''dnssec_local_validation'',
             ''dnssec_reject_unsigned''] node))))))))"

text \<open>The body of the loop over the children; the state is the result and \<open>rule_id\<close>.\<close>

definition yoga_child :: "node \<Rightarrow> import_result \<times> 32 word \<Rightarrow> error + import_result \<times> 32 word" where
  "yoga_child node s =
     (let (result, rule_id) = s in
      if nd_name node = ''Settings'' then
        bindE (foldE yoga_checker (nd_children node) (fold yoga_setting (nd_attrs node) result)) (\<lambda>result.
        Inr (result, rule_id))
      else if nd_name node = ''DnsServer'' then
        bindE (yoga_server node) (\<lambda>(server, warnings).
        Inr (result\<lparr>ir_config := (ir_config result)\<lparr>cf_servers :=
                        cf_servers (ir_config result) @ [server]\<rparr>,
                    ir_warnings := ir_warnings result @ warnings\<rparr>, rule_id))
      else if nd_name node = ''Rule'' then
        bindE (yoga_rule rule_id node) (\<lambda>(rule, warnings).
        Inr (result\<lparr>ir_config := (ir_config result)\<lparr>cf_rules :=
                        cf_rules (ir_config result) @ [rule]\<rparr>,
                    ir_warnings := ir_warnings result @ warnings\<rparr>, rule_id + 1))
      else Inl (Error ''YOGA_FIELD'' (''Unsupported Yoga element: '' @ nd_name node)))"

definition import_yoga :: "inet \<Rightarrow> string \<Rightarrow> error + import_result" where
  "import_yoga inet text =
     bindE (parse_xml text) (\<lambda>root.
     bindE (requireE (\<not> (nd_name root \<noteq> ''YogaDnsProfile'' \<or> attr root ''file_format'' [] \<noteq> ''1''))
              (Error ''YOGA_FORMAT'' ''Unsupported YogaDNS profile'')) (\<lambda>_.
     let config = empty_config\<lparr>cf_settings :=
           fold (\<lambda>(key, v). smap_put (''yoga.root.'' @ key) v) (nd_attrs root) []\<rparr> in
     bindE (foldE yoga_child (nd_children root) (\<lparr>ir_config = config, ir_warnings = []\<rparr>, 1))
       (\<lambda>(result, rule_id).
     let config = ir_config result;
         result =
           (if \<exists>r \<in> set (cf_rules config). rl_is_default r then result
            else result\<lparr>
              ir_config := config\<lparr>cf_rules := cf_rules config @
                [(hd (cf_rules default_config))\<lparr>rl_id := rule_id\<rparr>]\<rparr>,
              ir_warnings := ir_warnings result @
                [''Missing Default added as Process/original destination'']\<rparr>) in
     bindE (validate inet (ir_config result)) (\<lambda>_.
     Inr result))))"

section \<open>Files\<close>

type_synonym files = "string \<Rightarrow> string option"

text \<open>\<open>read_xml\<close>: a file that exists can be opened and read.\<close>

definition read_xml :: "files \<Rightarrow> string \<Rightarrow> error + node" where
  "read_xml files path =
     (case files path of
        None \<Rightarrow> Inl (Error ''CONFIG_IO'' ''Cannot read config or config exceeds 4 MiB'')
      | Some text \<Rightarrow>
          bindE (requireE (\<not> length text > config_limit)
                   (Error ''CONFIG_IO'' ''Cannot read config or config exceeds 4 MiB'')) (\<lambda>_.
          parse_xml text))"

definition load_config :: "inet \<Rightarrow> files \<Rightarrow> string \<Rightarrow> error + config" where
  "load_config inet files path = bindE (read_xml files path) (config_from_root inet)"

text \<open>
  What the system does while a file is saved: an error of \<open>create_directories\<close>, whether the
  temporary file can be created, \<open>None\<close> for a complete write or what a failed write left, and
  errors of the copy and of the rename.
\<close>

record disk =
  dk_directories :: "error option"
  dk_create :: bool
  dk_write :: "string option"
  dk_copy :: "string option"
  dk_rename :: "string option"

definition atomic_publish_file ::
  "disk \<Rightarrow> string \<Rightarrow> string \<Rightarrow> string \<Rightarrow> files \<Rightarrow> error option \<times> files" where
  "atomic_publish_file disk temp target backup files =
     (case (files target, dk_copy disk) of
        (Some _, Some m) \<Rightarrow> (Some (Error ''CONFIG_IO'' (''Cannot create config backup: '' @ m)), files)
      | _ \<Rightarrow>
          let files = (if files target \<noteq> None then files(backup := files target) else files) in
          (case dk_rename disk of
             Some m \<Rightarrow> (Some (Error ''CONFIG_IO'' (''Atomic config rename failed: '' @ m)), files)
           | None \<Rightarrow> (None, files(target := files temp, temp := None))))"

text \<open>The \<open>try\<close> block of \<open>save_config\<close>.\<close>

definition write_config ::
  "inet \<Rightarrow> disk \<Rightarrow> string \<Rightarrow> string \<Rightarrow> string \<Rightarrow> string \<Rightarrow> files \<Rightarrow> error option \<times> files" where
  "write_config inet disk data temp path backup files =
     (if \<not> dk_create disk
      then (Some (Error ''CONFIG_IO'' ''Cannot create sibling temporary config''), files)
      else case dk_write disk of
        Some partial \<Rightarrow>
          (Some (Error ''CONFIG_IO'' ''Cannot write/flush configuration''), files(temp \<mapsto> partial))
      | None \<Rightarrow>
          (let files = files(temp \<mapsto> data) in
           case load_config inet files temp of
             Inl e \<Rightarrow> (Some e, files)
           | Inr _ \<Rightarrow> atomic_publish_file disk temp path backup files))"

definition save_config ::
  "inet \<Rightarrow> disk \<Rightarrow> 32 word \<Rightarrow> config \<Rightarrow> string \<Rightarrow> files \<Rightarrow> error option \<times> files" where
  "save_config inet disk random config path files =
     (case serialize_config inet config of
        Inl e \<Rightarrow> (Some e, files)
      | Inr data \<Rightarrow>
          (case (if files path \<noteq> None then bindE (load_config inet files path) (\<lambda>_. Inr ()) else Inr ()) of
             Inl e \<Rightarrow> (Some e, files)
           | Inr _ \<Rightarrow>
               (case dk_directories disk of
                  Some e \<Rightarrow> (Some e, files)
                | None \<Rightarrow>
                    let temp = path @ ''.'' @ num_text random @ ''.tmp''; backup = path @ ''.bak'' in
                    (case write_config inet disk data temp path backup files of
                       (None, files) \<Rightarrow> (None, files)
                     | (Some e, files) \<Rightarrow> (Some e, files(temp := None))))))"

end
