(* ===== verification/Config_Render.thy ===== *)
theory Config_Render
  imports Xml_Facts Config_File
begin

text \<open>
  Texts the serializer writes are read back by the XML reader: escaped values, lists of
  attributes, and elements.  \<open>renders t x\<close> says that the text \<open>t\<close>, wherever it stands, is
  read as the element \<open>x\<close>.
\<close>

section \<open>Values and attributes\<close>

lemma takeWhile_stop: "list_all P xs \<Longrightarrow> \<not> P y \<Longrightarrow> takeWhile P (xs @ y # ys) = xs"
  by (simp add: takeWhile_append2 list_all_iff)

lemma dropWhile_stop: "list_all P xs \<Longrightarrow> \<not> P y \<Longrightarrow> dropWhile P (xs @ y # ys) = y # ys"
  by (simp add: dropWhile_append2 list_all_iff)

lemma decode_entities:
  "decode_entity ''amp'' = Inr ''&''" "decode_entity ''lt'' = Inr ''<''"
  "decode_entity ''gt'' = Inr ''>''" "decode_entity ''quot'' = Inr [CHR 0x22]"
  "decode_entity ''#10'' = Inr newline" "decode_entity ''#13'' = Inr [CHR 0x0D]"
  "decode_entity ''#9'' = Inr [CHR 0x09]"
  by (simp_all add: decode_entity_def entity_digit_def entity_utf8_def Let_def code_def chr_def
      del: bindE_Inr_iff) (code_simp+)

lemma escape_char_cases:
  assumes "escape_char c = Inr e"
  obtains (entity) n where "e = CHR ''&'' # n @ '';''" "decode_entity n = Inr [c]"
      "list_all (\<lambda>d. d \<noteq> CHR '';'') n"
  | (plain) "e = [c]" "c \<noteq> CHR ''&''" "c \<noteq> CHR 0x22" "\<not> code c < 32"
proof -
  consider "c = CHR ''&''" | "c = CHR ''<''" | "c = CHR ''>''" | "c = CHR 0x22" | "c = CHR 0x0A"
    | "c = CHR 0x0D" | "c = CHR 0x09"
    | "c \<noteq> CHR ''&''" "c \<noteq> CHR 0x22" "e = [c]" "\<not> code c < 32"
    using assms by (auto simp: escape_char_def split: if_splits)
  then show ?thesis
    using assms entity [of "''amp''"] entity [of "''lt''"] entity [of "''gt''"] entity [of "''quot''"]
      entity [of "''#10''"] entity [of "''#13''"] entity [of "''#9''"] plain
    by cases (simp_all add: escape_char_def decode_entities)
qed

lemma quoted_escape_char:
  assumes "escape_char c = Inr e"
  shows "quoted_loop CHR 0x22 (e @ s) = bindE (quoted_loop CHR 0x22 s) (\<lambda>(out, r). Inr (c # out, r))"
  using assms
proof (cases rule: escape_char_cases)
  case (entity n)
  have "takeWhile (\<lambda>d. d \<noteq> CHR '';'') (n @ CHR '';'' # s) = n"
    by (rule takeWhile_stop [OF entity(3)]) simp
  then show ?thesis using entity(1,2) by (simp del: bindE_Inr_iff)
next
  case plain
  then show ?thesis by (simp del: bindE_Inr_iff)
qed

lemma quoted_field_value:
  assumes "escape v = Inr e"
  shows "quoted (CHR 0x22 # e @ CHR 0x22 # r) = Inr (v, r)"
proof -
  from assms obtain cs where cs: "mapE escape_char v = Inr cs" "e = concat cs"
    by (auto simp: escape_def)
  from cs(1) have "quoted_loop CHR 0x22 (concat cs @ CHR 0x22 # r) = Inr (v, r)"
  proof (induction v arbitrary: cs)
    case (Cons c v)
    then obtain x xs where *: "escape_char c = Inr x" "mapE escape_char v = Inr xs" "cs = x # xs"
      by auto
    then show ?case
      using Cons.IH [OF *(2)] quoted_escape_char [OF *(1), of "concat xs @ CHR 0x22 # r"]
      by (simp del: quoted_loop.simps bindE_Inr_iff)
  qed simp
  then show ?thesis by (simp add: quoted_def cs(2))
qed

lemma xml_char_stops [simp]:
  "\<not> xml_char CHR ''=''" "\<not> xml_char CHR ''>''" "\<not> xml_char CHR '' ''" "\<not> xml_char CHR ''/''"
  "\<not> xml_char CHR 0x0A"
  by (simp_all add: xml_char_def c_alnum_def code_def)

lemma c_space_simps [simp]:
  "c_space CHR '' ''" "c_space CHR 0x0A" "\<not> c_space CHR ''<''" "\<not> c_space CHR ''>''" "\<not> c_space CHR ''/''"
  "\<not> c_space CHR ''=''" "\<not> c_space CHR 0x22"
  by (simp_all add: c_space_def code_def)

lemma xml_char_not_space: "xml_char c \<Longrightarrow> \<not> c_space c"
  by (auto simp: xml_char_def c_alnum_def c_space_def code_def)

lemma xml_char_no_mark:
  "xml_char c \<Longrightarrow> c \<noteq> CHR ''/'' \<and> c \<noteq> CHR ''>'' \<and> c \<noteq> CHR ''!'' \<and> c \<noteq> CHR ''?'' \<and> c \<noteq> CHR ''<''"
  by (auto simp: xml_char_def c_alnum_def code_def)

lemma xml_name_stop:
  "good_name n \<Longrightarrow> \<not> xml_char c \<Longrightarrow> xml_name (n @ c # r) = Inr (n, c # r)"
  by (simp add: xml_name_def good_name_def takeWhile_stop dropWhile_stop)

lemma skip_ws_stop: "\<not> c_space c \<Longrightarrow> skip_ws (c # s) = c # s"
  by (simp add: skip_ws_def)

lemma skip_ws_space [simp]: "c_space c \<Longrightarrow> skip_ws (c # s) = skip_ws s"
  by (simp add: skip_ws_def)

lemma skip_ws_append: "list_all c_space ws \<Longrightarrow> skip_ws (ws @ s) = skip_ws s"
  by (induction ws) simp_all

lemma smap_emplace_new: "k \<notin> smap_keys m \<Longrightarrow> smap_emplace k v m = (smap_put k v m, True)"
  by (induction m) auto

lemma parse_attrs_field:
  assumes "field k v = Inr f" "good_name k" "k \<notin> smap_keys acc"
  shows "parse_attrs (f @ s) acc = parse_attrs s (smap_put k v acc)"
proof -
  from assms(1) obtain e where e: "escape v = Inr e"
    and f: "f = '' '' @ k @ ''='' @ [CHR 0x22] @ e @ [CHR 0x22]"
    by (auto simp: field_def)
  obtain c k' where k: "k = c # k'" "xml_char c" using assms(2) by (cases k) (auto simp: good_name_def)
  let ?rest = "CHR 0x22 # e @ CHR 0x22 # s"
  have skip: "skip_ws (f @ s) = k @ CHR ''='' # ?rest"
    by (simp add: f k skip_ws_stop xml_char_not_space)
  show ?thesis
    using xml_char_no_mark [OF k(2)] xml_name_stop [OF assms(2), of "CHR ''=''" ?rest]
      quoted_field_value [OF e, of s]
    by (subst parse_attrs.simps)
      (simp add: skip Let_def skip_ws_stop smap_emplace_new [OF assms(3)], simp add: k)
qed

text \<open>The attributes a list of fields is read as.\<close>

definition attrs_of :: "(string \<times> string) list \<Rightarrow> smap \<Rightarrow> bool" where
  "attrs_of kvs m \<longleftrightarrow> smap_wf m \<and> map_of m = map_of kvs \<and> smap_keys m = fst ` set kvs"

lemma parse_attrs_fields:
  assumes "field_list kvs = Inr f" "\<forall>k \<in> fst ` set kvs. good_name k" "distinct (map fst kvs)"
  obtains m where "attrs_of kvs m" "\<And>s. parse_attrs (f @ ''/>'' @ s) [] = Inr (m, True, s)"
    "\<And>s. parse_attrs (f @ ''>'' @ s) [] = Inr (m, False, s)"
proof -
  from assms(1) obtain fs where fs: "mapE (\<lambda>(k, v). field k v) kvs = Inr fs" "f = concat fs"
    by (auto simp: field_list_def)
  have "\<exists>m. smap_wf m \<and> map_of m = map_of (rev kvs) ++ map_of acc \<and> smap_keys m = fst ` set kvs \<union> smap_keys acc \<and>
     (\<forall>s. parse_attrs (concat fs @ s) acc = parse_attrs s m)"
    if "mapE (\<lambda>(k, v). field k v) kvs = Inr fs" "\<forall>k \<in> fst ` set kvs. good_name k"
      "distinct (map fst kvs)" "fst ` set kvs \<inter> smap_keys acc = {}" "smap_wf acc" for kvs fs acc
    using that
  proof (induction kvs arbitrary: fs acc)
    case (Cons kv kvs)
    obtain k v where kv: "kv = (k, v)" by (cases kv)
    from Cons.prems(1) obtain x xs where x: "field k v = Inr x" "mapE (\<lambda>(k, v). field k v) kvs = Inr xs"
      "fs = x # xs" by (auto simp: kv)
    define acc' where "acc' = smap_put k v acc"
    have acc': "parse_attrs (x @ s) acc = parse_attrs s acc'" for s
      unfolding acc'_def using Cons.prems(2,4) by (intro parse_attrs_field [OF x(1)]) (auto simp: kv)
    have a: "smap_wf acc'" "map_of acc' = (map_of acc)(k \<mapsto> v)" "smap_keys acc' = insert k (smap_keys acc)"
      using Cons.prems(5) by (simp_all add: acc'_def smap_put_wf smap_put_lookup)
    obtain m where m: "smap_wf m" "map_of m = map_of (rev kvs) ++ map_of acc'"
      "smap_keys m = fst ` set kvs \<union> smap_keys acc'" "\<And>s. parse_attrs (concat xs @ s) acc' = parse_attrs s m"
      using Cons.IH [OF x(2), of acc'] Cons.prems(2-5) a(1,3) by (auto simp: kv)
    have "k \<notin> dom (map_of acc)" using Cons.prems(4) by (auto simp: kv smap_keys_def dom_map_of_conv_image_fst)
    moreover have "k \<notin> dom (map_of (rev kvs))" using Cons.prems(3) by (auto simp: kv dom_map_of_conv_image_fst)
    ultimately have "map_of m = map_of (rev (kv # kvs)) ++ map_of acc"
      using m(2) a(2) by (auto simp: kv fun_eq_iff map_add_def split: option.splits)
    then show ?case using m a(3) acc' by (auto simp: x(3) kv)
  qed auto
  from this [OF fs(1) assms(2,3), of "[]"] obtain m where
    m: "smap_wf m" "map_of m = map_of (rev kvs)" "smap_keys m = fst ` set kvs"
      "\<And>s. parse_attrs (concat fs @ s) [] = parse_attrs s m" by auto
  have "map_of (rev kvs) = map_of kvs"
    using assms(3) by (simp add: map_of_inject_set rev_map [symmetric])
  with m have "attrs_of kvs m" by (simp add: attrs_of_def)
  moreover have "parse_attrs (f @ ''/>'' @ s) [] = Inr (m, True, s)" "parse_attrs (f @ ''>'' @ s) [] = Inr (m, False, s)" for s
    using m(4) by (simp_all add: fs(2) parse_attrs.simps skip_ws_stop)
  ultimately show ?thesis by (rule that)
qed

section \<open>Elements\<close>

definition renders :: "string \<Rightarrow> node \<Rightarrow> bool" where
  "renders t x \<longleftrightarrow>
     (\<exists>ws c u. t = ws @ CHR ''<'' # c # u \<and> list_all c_space ws \<and> xml_char c) \<and>
     21 * node_count x \<le> length t \<and>
     (\<forall>n depth k r. 2 * length (t @ r) < n \<longrightarrow> depth + node_height x \<le> 17 \<longrightarrow>
        k + node_count x \<le> 200000 \<longrightarrow> parse_element n depth k (t @ r) = Inr (x, k + node_count x, r))"

lemma skip_ws_idem: "skip_ws (skip_ws s) = skip_ws s"
  by (induction s) (auto simp: skip_ws_def)

lemma parse_element_skip_ws: "parse_element n depth k (skip_ws s) = parse_element n depth k s"
  by (cases n) (simp_all add: parse_element.simps(2) skip_ws_idem)

lemma renders_parse:
  assumes "renders t x" "2 * length (t @ r) < n" "depth + node_height x \<le> 17" "k + node_count x \<le> 200000"
  shows "parse_element n depth k (t @ r) = Inr (x, k + node_count x, r)"
  using assms unfolding renders_def by blast

lemma field_list_stop:
  assumes "field_list kvs = Inr f" "\<not> xml_char x"
  obtains c u where "f @ x # s = c # u" "\<not> xml_char c"
proof (cases kvs)
  case Nil
  then show ?thesis using assms that by (auto simp: field_list_def)
next
  case (Cons kv kvs')
  obtain u where "f = CHR '' '' # u"
    using assms(1) by (cases kv) (auto simp: Cons field_list_def field_def)
  then show ?thesis using that by simp
qed

lemma open_tag:
  assumes "list_all c_space ws" "good_name name" "field_list kvs = Inr f" "\<not> xml_char x"
  shows "xml_name (drop 1 (skip_ws (ws @ ''<'' @ name @ f @ x # s))) = Inr (name, f @ x # s)"
    and "starts (skip_ws (ws @ ''<'' @ name @ f @ x # s)) ''<''"
    and "\<not> starts (skip_ws (ws @ ''<'' @ name @ f @ x # s)) ''</''"
    and "\<not> starts (drop 1 (skip_ws (ws @ ''<'' @ name @ f @ x # s))) ''!''"
    and "\<not> starts (drop 1 (skip_ws (ws @ ''<'' @ name @ f @ x # s))) ''?''"
proof -
  have skip: "skip_ws (ws @ ''<'' @ name @ f @ x # s) = CHR ''<'' # name @ f @ x # s"
    using assms(1) by (simp add: skip_ws_append skip_ws_stop)
  obtain c u where "f @ x # s = c # u" "\<not> xml_char c" using field_list_stop [OF assms(3,4)] by metis
  then show "xml_name (drop 1 (skip_ws (ws @ ''<'' @ name @ f @ x # s))) = Inr (name, f @ x # s)"
    using xml_name_stop [OF assms(2)] unfolding skip by simp
  obtain d v where name: "name = d # v" "xml_char d" using assms(2) by (cases name) (auto simp: good_name_def)
  show "starts (skip_ws (ws @ ''<'' @ name @ f @ x # s)) ''<''"
    "\<not> starts (skip_ws (ws @ ''<'' @ name @ f @ x # s)) ''</''"
    "\<not> starts (drop 1 (skip_ws (ws @ ''<'' @ name @ f @ x # s))) ''!''"
    "\<not> starts (drop 1 (skip_ws (ws @ ''<'' @ name @ f @ x # s))) ''?''"
    using xml_char_no_mark [OF name(2)] name(1) unfolding skip by simp_all
qed

lemma renders_start:
  assumes "list_all c_space ws" "good_name name"
  shows "\<exists>ws' c u. ws @ ''<'' @ name @ t = ws' @ CHR ''<'' # c # u \<and> list_all c_space ws' \<and> xml_char c"
  using assms by (cases name) (auto simp: good_name_def)

lemma renders_empty:
  assumes "list_all c_space ws" "good_name name" "field_list kvs = Inr f"
    and "\<forall>k \<in> fst ` set kvs. good_name k" "distinct (map fst kvs)"
    and "18 \<le> length ws + length name + length f"
  obtains m where "attrs_of kvs m" "renders (ws @ ''<'' @ name @ f @ ''/>'') (Node name m [])"
proof -
  from parse_attrs_fields [OF assms(3-5)] obtain m where m: "attrs_of kvs m"
    "\<And>s. parse_attrs (f @ ''/>'' @ s) [] = Inr (m, True, s)" by blast
  have "parse_element n depth k (ws @ ''<'' @ name @ f @ ''/>'' @ r) = Inr (Node name m [], k + 1, r)"
    if "2 * length (ws @ ''<'' @ name @ f @ ''/>'' @ r) < n" "depth \<le> 16" "k + 1 \<le> 200000" for n depth k r
  proof (cases n)
    case (Suc n')
    note tag = open_tag [OF assms(1-3), of "CHR ''/''" "CHR ''>'' # r", simplified]
    show ?thesis
      using tag that(2,3) m(2) [of r]
      by (simp add: Suc parse_element.simps(2) Let_def del: bindE_Inr_iff)
  qed (use that in simp)
  then have "renders (ws @ ''<'' @ name @ f @ ''/>'') (Node name m [])"
    using renders_start [OF assms(1,2), of "f @ ''/>''"] assms(6) by (auto simp: renders_def)
  with m(1) show ?thesis by (rule that)
qed

lemma renders_not_closing:
  assumes "renders t x"
  shows "\<not> starts (skip_ws (t @ s)) ''</''" "\<not> starts (skip_ws (t @ s)) ''<!--''"
    "\<not> starts (skip_ws (t @ s)) ''<![CDATA[''" "starts (skip_ws (t @ s)) ''<''" "2 < length t"
proof -
  from assms obtain ws c u where t: "t = ws @ CHR ''<'' # c # u" "list_all c_space ws" "xml_char c"
    by (auto simp: renders_def)
  have "skip_ws (t @ s) = CHR ''<'' # c # u @ s" using t(2) by (simp add: t(1) skip_ws_append skip_ws_stop)
  then show "\<not> starts (skip_ws (t @ s)) ''</''" "\<not> starts (skip_ws (t @ s)) ''<!--''"
    "\<not> starts (skip_ws (t @ s)) ''<![CDATA[''" "starts (skip_ws (t @ s)) ''<''"
    using xml_char_no_mark [OF t(3)] by simp_all
  have "1 \<le> node_count x" by (cases x) simp
  then show "2 < length t" using assms by (simp add: renders_def)
qed

lemma parse_content_renders:
  assumes "list_all2 renders ts xs" "list_all c_space ws" "good_name name"
    and "2 * length (concat ts @ ws @ ''</'' @ name @ ''>'' @ r) + 1 < n"
    and "depth + foldr (\<lambda>t. max (node_height t)) xs 0 \<le> 16" "k + sum_list (map node_count xs) \<le> 200000"
  shows "parse_content n depth name k (concat ts @ ws @ ''</'' @ name @ ''>'' @ r) =
    Inr (xs, k + sum_list (map node_count xs), r)"
  using assms(1,4-6)
proof (induction ts xs arbitrary: n k rule: list_all2_induct)
  case Nil
  obtain n' where n: "n = Suc n'" using Nil by (cases n) auto
  have skip: "skip_ws (ws @ ''</'' @ name @ ''>'' @ r) = ''</'' @ name @ ''>'' @ r"
    using assms(2) by (simp add: skip_ws_append skip_ws_stop)
  have name: "xml_name (name @ ''>'' @ r) = Inr (name, ''>'' @ r)"
    using xml_name_stop [OF assms(3), of "CHR ''>''" r] by simp
  have "skip_ws (''>'' @ r) = ''>'' @ r" by (simp add: skip_ws_stop)
  with name show ?case
    unfolding n parse_content.simps(2) Let_def concat.simps append.simps(1) skip by (simp del: bindE_Inr_iff)
next
  case (Cons t ts x xs)
  let ?rest = "concat ts @ ws @ ''</'' @ name @ ''>'' @ r"
  note start = renders_not_closing [OF Cons.hyps(1)]
  obtain n' where n: "n = Suc n'" using Cons.prems(1) by (cases n) auto
  have x: "parse_element n' (depth + 1) k (skip_ws (t @ ?rest)) = Inr (x, k + node_count x, ?rest)"
    unfolding parse_element_skip_ws
    using Cons.prems n by (intro renders_parse [OF Cons.hyps(1)]) auto
  have xs: "parse_content n' depth name (k + node_count x) ?rest =
      Inr (xs, k + node_count x + sum_list (map node_count xs), r)"
    using Cons.prems n start(5) by (intro Cons.IH) auto
  show ?case
    using start(1-4) [of ?rest] x xs by (simp add: n parse_content.simps(2) Let_def add.assoc del: bindE_Inr_iff)
qed

lemma renders_full:
  assumes "list_all c_space ws" "good_name name" "field_list kvs = Inr f"
    and "\<forall>k \<in> fst ` set kvs. good_name k" "distinct (map fst kvs)"
    and "list_all2 renders ts xs" "list_all c_space ws'"
    and "16 \<le> length ws + 2 * length name + length ws' + length f"
  obtains m where "attrs_of kvs m"
    "renders (ws @ ''<'' @ name @ f @ ''>'' @ concat ts @ ws' @ ''</'' @ name @ ''>'') (Node name m xs)"
proof -
  let ?body = "concat ts @ ws' @ ''</'' @ name @ ''>''"
  from parse_attrs_fields [OF assms(3-5)] obtain m where m: "attrs_of kvs m"
    "\<And>s. parse_attrs (f @ ''>'' @ s) [] = Inr (m, False, s)" by blast
  have "parse_element n depth k (ws @ ''<'' @ name @ f @ ''>'' @ ?body @ r) =
      Inr (Node name m xs, k + node_count (Node name m xs), r)"
    if "2 * length (ws @ ''<'' @ name @ f @ ''>'' @ ?body @ r) < n" "depth + node_height (Node name m xs) \<le> 17"
      "k + node_count (Node name m xs) \<le> 200000" for n depth k r
  proof (cases n)
    case (Suc n')
    note tag = open_tag [OF assms(1-3), of "CHR ''>''" "?body @ r", simplified]
    have "parse_content n' depth name (k + 1) (concat ts @ ws' @ ''</'' @ name @ ''>'' @ r) =
        Inr (xs, k + 1 + sum_list (map node_count xs), r)"
      using that Suc assms(2) by (intro parse_content_renders assms) (auto simp: good_name_def)
    then show ?thesis
      using tag that(2,3) m(2) [of "?body @ r"]
      by (simp add: Suc parse_element.simps(2) Let_def del: bindE_Inr_iff)
  qed (use that in simp)
  moreover have "21 * sum_list (map node_count xs) \<le> length (concat ts)"
    using assms(6) by (induction rule: list_all2_induct) (auto simp: renders_def)
  ultimately have "renders (ws @ ''<'' @ name @ f @ ''>'' @ ?body) (Node name m xs)"
    using renders_start [OF assms(1,2), of "f @ ''>'' @ ?body"] assms(8) by (auto simp: renders_def)
  with m(1) show ?thesis by (rule that)
qed

end
