(* ===== verification/Rules_Facts.thy ===== *)
theory Rules_Facts
  imports Rules "HOL-Library.Multiset"
begin

text \<open>
  What the rule engine guarantees: the search for fallback cycles is exact, a validated
  configuration is well formed, the first rule that applies is chosen, a decision that
  carries an error never lets the packet through, and the editor keeps all of it.
\<close>

section \<open>The search for fallback cycles\<close>

text \<open>The edges of the fallback graph.\<close>

definition fallback_edges :: "(32 word \<Rightarrow> server option) \<Rightarrow> (32 word \<times> 32 word) set" where
  "fallback_edges sv = {(a, b). \<exists>s. sv a = Some s \<and> b \<in> set (srv_fallback_ids s)}"

text \<open>The set of visited servers is closed under fallback and free of cycles.\<close>

definition settled :: "(32 word \<Rightarrow> server option) \<Rightarrow> 32 word set \<Rightarrow> bool" where
  "settled sv D \<longleftrightarrow>
     (\<forall>a \<in> D. \<forall>b. (a, b) \<in> fallback_edges sv \<longrightarrow> b \<in> D) \<and>
     (\<forall>a \<in> D. (a, a) \<notin> (fallback_edges sv)\<^sup>+)"

lemma settled_trancl:
  assumes "settled sv D" "(a, b) \<in> (fallback_edges sv)\<^sup>+" "a \<in> D"
  shows "b \<in> D"
  using assms(2,3)
proof (induction rule: trancl_induct)
  case (base b)
  then show ?case using assms(1) unfolding settled_def by blast
next
  case (step b c)
  then show ?case using assms(1) unfolding settled_def by blast
qed

lemma settled_insert:
  assumes "settled sv D" "\<And>b. (i, b) \<in> fallback_edges sv \<Longrightarrow> b \<in> D" "i \<notin> D"
  shows "settled sv (insert i D)"
proof -
  have "(i, i) \<notin> (fallback_edges sv)\<^sup>+"
  proof
    assume "(i, i) \<in> (fallback_edges sv)\<^sup>+"
    then obtain b where b: "(i, b) \<in> fallback_edges sv" "(b, i) \<in> (fallback_edges sv)\<^sup>*"
      by (meson tranclD)
    have "b \<in> D" using assms(2) b(1) by simp
    moreover have "b = i \<or> (b, i) \<in> (fallback_edges sv)\<^sup>+" using b(2) by (auto simp: rtrancl_eq_or_trancl)
    ultimately have "i \<in> D" using settled_trancl [OF assms(1)] by blast
    then show False using assms(3) by simp
  qed
  then show ?thesis using assms(1,2) unfolding settled_def by blast
qed

text \<open>
  What one visit does.  \<open>ids\<close> are the known servers, every fallback is one of them, the
  servers on the stack lead to the current one; the fuel exceeds the number of servers off
  the stack.
\<close>

definition visit_post ::
  "(32 word \<Rightarrow> server option) \<Rightarrow> 32 word set \<Rightarrow> 32 word set \<Rightarrow> 32 word set \<times> 32 word set \<Rightarrow>
   32 word set \<Rightarrow> bool" where
  "visit_post sv vg vd s' must \<longleftrightarrow>
     fst s' = vg \<and> vd \<subseteq> snd s' \<and> must \<subseteq> snd s' \<and> settled sv (snd s') \<and> snd s' \<inter> vg = {}"

abbreviation has_cycle :: "(32 word \<Rightarrow> server option) \<Rightarrow> bool" where
  "has_cycle sv \<equiv> \<exists>x. (x, x) \<in> (fallback_edges sv)\<^sup>+"

lemma visit_spec:
  fixes ids :: "32 word set"
  assumes "finite ids" and known: "\<And>a. a \<in> ids \<Longrightarrow> sv a \<noteq> None"
    and closed: "\<And>a b. (a, b) \<in> fallback_edges sv \<Longrightarrow> b \<in> ids"
  shows "i \<in> ids \<Longrightarrow> vg \<subseteq> ids \<Longrightarrow> card ids < n + card vg \<Longrightarrow> settled sv vd \<Longrightarrow> vd \<inter> vg = {} \<Longrightarrow>
    (\<And>v. v \<in> vg \<Longrightarrow> (v, i) \<in> (fallback_edges sv)\<^sup>+) \<Longrightarrow>
    (case visit n sv i (vg, vd) of
       Inl e \<Rightarrow> e = cycle_error \<and> has_cycle sv
     | Inr s' \<Rightarrow> visit_post sv vg vd s' {i})"
proof (induction n arbitrary: i vg vd)
  case 0
  have "card vg \<le> card ids" using 0 assms(1) by (simp add: card_mono)
  then show ?case using 0 by simp
next
  case (Suc n)
  show ?case
  proof (cases "i \<in> vd \<or> i \<in> vg")
    case True
    then show ?thesis using Suc.prems by (auto simp: visit_post_def)
  next
    case False
    obtain s where s: "sv i = Some s" using known Suc.prems(1) by blast
    let ?vg = "insert i vg"
    have fin: "finite vg" using Suc.prems(2) assms(1) finite_subset by blast
    have edge: "(i, b) \<in> fallback_edges sv" if "b \<in> set (srv_fallback_ids s)" for b
      using that s by (auto simp: fallback_edges_def)
    have inner: "(case foldE (visit n sv) fb (?vg, vd') of
       Inl e \<Rightarrow> e = cycle_error \<and> has_cycle sv
     | Inr s' \<Rightarrow> visit_post sv ?vg vd' s' (set fb))"
      if "set fb \<subseteq> set (srv_fallback_ids s)" "settled sv vd'" "vd' \<inter> ?vg = {}" for fb vd'
      using that
    proof (induction fb arbitrary: vd')
      case Nil
      then show ?case by (simp add: visit_post_def)
    next
      case (Cons b fb)
      have b: "(i, b) \<in> fallback_edges sv" using edge Cons.prems(1) by simp
      have anc: "(v, b) \<in> (fallback_edges sv)\<^sup>+" if "v \<in> ?vg" for v
        using that b Suc.prems(6) [of v] by (auto intro: trancl_into_trancl)
      have one: "case visit n sv b (?vg, vd') of
         Inl e \<Rightarrow> e = cycle_error \<and> has_cycle sv | Inr s' \<Rightarrow> visit_post sv ?vg vd' s' {b}"
        using Suc.prems(1-3) False fin Cons.prems(2,3) anc closed [OF b]
        by (intro Suc.IH) auto
      show ?case
      proof (cases "visit n sv b (?vg, vd')")
        case (Inl e)
        then show ?thesis using one by simp
      next
        case (Inr s')
        then obtain vd2 where s': "s' = (?vg, vd2)" and v2: "vd' \<subseteq> vd2" "b \<in> vd2" "settled sv vd2" "vd2 \<inter> ?vg = {}"
          using one by (cases s') (auto simp: visit_post_def)
        have "case foldE (visit n sv) fb (?vg, vd2) of
            Inl e \<Rightarrow> e = cycle_error \<and> has_cycle sv | Inr s' \<Rightarrow> visit_post sv ?vg vd2 s' (set fb)"
          by (rule Cons.IH) (use Cons.prems(1) v2 in auto)
        then show ?thesis using Inr s' v2
          by (cases "foldE (visit n sv) fb (?vg, vd2)") (auto simp: visit_post_def)
      qed
    qed
    have "case foldE (visit n sv) (srv_fallback_ids s) (?vg, vd) of
       Inl e \<Rightarrow> e = cycle_error \<and> has_cycle sv
     | Inr s' \<Rightarrow> visit_post sv ?vg vd s' (set (srv_fallback_ids s))"
      by (rule inner) (use Suc.prems False in auto)
    then show ?thesis
    proof (cases "foldE (visit n sv) (srv_fallback_ids s) (?vg, vd)")
      case (Inl e)
      with inner [of "srv_fallback_ids s" vd] Suc.prems False s show ?thesis by simp
    next
      case (Inr s')
      with inner [of "srv_fallback_ids s" vd] Suc.prems False obtain vd2 where
        s': "s' = (?vg, vd2)" and v2: "vd \<subseteq> vd2" "set (srv_fallback_ids s) \<subseteq> vd2" "settled sv vd2" "vd2 \<inter> ?vg = {}"
        by (cases s') (auto simp: visit_post_def)
      have "settled sv (insert i vd2)"
        by (rule settled_insert [OF v2(3)]) (use v2 s in \<open>auto simp: fallback_edges_def\<close>)
      then show ?thesis using Inr s' v2 False s
        by (auto simp: visit_post_def)
    qed
  qed
qed

section \<open>What validation guarantees\<close>

lemma fallback_loop_Inr:
  "fallback_loop self fb seen = Inr () \<Longrightarrow> distinct fb \<and> 0 \<notin> set fb \<and> self \<notin> set fb \<and> set fb \<inter> seen = {}"
  by (induction fb arbitrary: seen) auto

lemma validate_server_Inr:
  "validate_server inet s ids = Inr ids' \<Longrightarrow>
   srv_id s \<noteq> 0 \<and> srv_id s \<notin> ids \<and> ids' = insert (srv_id s) ids \<and> srv_name s \<noteq> [] \<and>
   fallback_loop (srv_id s) (srv_fallback_ids s) {} = Inr ()"
  by (auto simp: validate_server_def)

lemma validate_servers_Inr:
  "foldE (validate_server inet) ss ids = Inr ids' \<Longrightarrow>
   ids' = ids \<union> srv_id ` set ss \<and> distinct (map srv_id ss) \<and> srv_id ` set ss \<inter> ids = {} \<and>
   0 \<notin> srv_id ` set ss \<and> (\<forall>s \<in> set ss. srv_id s \<notin> set (srv_fallback_ids s))"
proof (induction ss arbitrary: ids)
  case (Cons s ss)
  from Cons.prems obtain ids1 where 1: "validate_server inet s ids = Inr ids1"
    "foldE (validate_server inet) ss ids1 = Inr ids'" by auto
  from validate_server_Inr [OF 1(1)] Cons.IH [OF 1(2)] fallback_loop_Inr show ?case by auto
qed simp

lemma find_distinct:
  "distinct (map srv_id ss) \<Longrightarrow> find (\<lambda>s. srv_id s = a) ss = Some s \<longleftrightarrow> s \<in> set ss \<and> srv_id s = a"
  by (induction ss) auto

lemma server_map_Some:
  "distinct (map srv_id (cf_servers c)) \<Longrightarrow>
   server_map c a = Some s \<longleftrightarrow> s \<in> set (cf_servers c) \<and> srv_id s = a"
  by (simp add: server_map_def find_distinct)

lemma server_map_dom: "server_map c a \<noteq> None \<longleftrightarrow> a \<in> srv_id ` set (cf_servers c)"
  unfolding server_map_def find_None_iff by auto

text \<open>The pass over the servers after the fallbacks were found to exist.\<close>

lemma visit_all_spec:
  assumes known: "\<And>a b. (a, b) \<in> fallback_edges (server_map c) \<Longrightarrow> b \<in> srv_id ` set (cf_servers c)"
    and "set js \<subseteq> srv_id ` set (cf_servers c)" "settled (server_map c) vd"
  shows "case foldE (visit (Suc (length (cf_servers c))) (server_map c)) js ({}, vd) of
       Inl e \<Rightarrow> e = cycle_error \<and> has_cycle (server_map c)
     | Inr s' \<Rightarrow> visit_post (server_map c) {} vd s' (set js)"
  using assms(2,3)
proof (induction js arbitrary: vd)
  case Nil
  then show ?case by (simp add: visit_post_def)
next
  case (Cons i js)
  let ?ids = "srv_id ` set (cf_servers c)" and ?n = "Suc (length (cf_servers c))"
  have "card ?ids < ?n + card ({} :: 32 word set)"
    using card_image_le [of "set (cf_servers c)" srv_id] card_length [of "cf_servers c"] by simp
  then have one: "case visit ?n (server_map c) i ({}, vd) of
      Inl e \<Rightarrow> e = cycle_error \<and> has_cycle (server_map c)
    | Inr s' \<Rightarrow> visit_post (server_map c) {} vd s' {i}"
    using Cons.prems known server_map_dom by (intro visit_spec [where ids = ?ids]) auto
  show ?case
  proof (cases "visit ?n (server_map c) i ({}, vd)")
    case (Inl e)
    then show ?thesis using one by (simp del: visit.simps)
  next
    case (Inr s')
    then obtain vd2 where s': "s' = ({}, vd2)" and v2: "vd \<subseteq> vd2" "i \<in> vd2" "settled (server_map c) vd2"
      using one by (cases s') (auto simp: visit_post_def simp del: visit.simps)
    have "case foldE (visit ?n (server_map c)) js ({}, vd2) of
       Inl e \<Rightarrow> e = cycle_error \<and> has_cycle (server_map c)
     | Inr s' \<Rightarrow> visit_post (server_map c) {} vd2 s' (set js)"
      by (rule Cons.IH) (use Cons.prems(1) v2 in auto)
    then show ?thesis using Inr s' v2
      by (cases "foldE (visit ?n (server_map c)) js ({}, vd2)")
        (auto simp: visit_post_def simp del: visit.simps)
  qed
qed

lemma fallback_search:
  assumes "\<And>a b. (a, b) \<in> fallback_edges (server_map c) \<Longrightarrow> b \<in> srv_id ` set (cf_servers c)"
  shows "foldE (visit (Suc (length (cf_servers c))) (server_map c)) (map srv_id (cf_servers c)) ({}, {}) =
      Inl cycle_error \<and> has_cycle (server_map c) \<or>
    (\<exists>s'. foldE (visit (Suc (length (cf_servers c))) (server_map c)) (map srv_id (cf_servers c)) ({}, {}) =
      Inr s') \<and> \<not> has_cycle (server_map c)"
proof -
  have "settled (server_map c) {}" by (simp add: settled_def)
  then have spec: "case foldE (visit (Suc (length (cf_servers c))) (server_map c)) (map srv_id (cf_servers c)) ({}, {}) of
       Inl e \<Rightarrow> e = cycle_error \<and> has_cycle (server_map c)
     | Inr s' \<Rightarrow> visit_post (server_map c) {} {} s' (set (map srv_id (cf_servers c)))"
    using visit_all_spec [where js = "map srv_id (cf_servers c)" and c = c and vd = "{}"] assms
    by (simp del: visit.simps)
  show ?thesis
  proof (cases "foldE (visit (Suc (length (cf_servers c))) (server_map c)) (map srv_id (cf_servers c)) ({}, {})")
    case (Inl e)
    then show ?thesis using spec by (simp del: visit.simps)
  next
    case (Inr s')
    then have post: "srv_id ` set (cf_servers c) \<subseteq> snd s'" "settled (server_map c) (snd s')"
      using spec by (simp_all add: visit_post_def del: visit.simps)
    have "(x, x) \<notin> (fallback_edges (server_map c))\<^sup>+" for x
    proof
      assume "(x, x) \<in> (fallback_edges (server_map c))\<^sup>+"
      then obtain y where "(y, x) \<in> fallback_edges (server_map c)" by (meson tranclD2)
      then have "x \<in> snd s'" using assms post(1) by blast
      then show False using post(2) \<open>(x, x) \<in> _\<close> by (simp add: settled_def)
    qed
    then show ?thesis using Inr by blast
  qed
qed

lemma validate_rules_Inr:
  "foldE (validate_rule ids n) rs (i, seen) = Inr s' \<Longrightarrow>
   distinct (map rl_id rs) \<and> rl_id ` set rs \<inter> seen = {} \<and>
   (\<forall>k < length rs. rl_is_default (rs ! k) = (i + k = n - 1)) \<and>
   (\<forall>r \<in> set rs. (rl_is_default r \<longrightarrow> rl_enabled r \<and> rl_patterns r = [''*'']) \<and>
      rl_patterns r \<noteq> [] \<and>
      (\<exists>ps. mapE (\<lambda>pattern. normalize_dns_name pattern True) (rl_patterns r) = Inr ps) \<and>
      (rl_server_id r \<noteq> 0 \<longrightarrow> rl_action r = Action_process \<and> rl_server_id r \<in> ids))"
proof (induction rs arbitrary: i seen)
  case (Cons r rs)
  from Cons.prems obtain s1 where 1: "validate_rule ids n r (i, seen) = Inr s1"
    "foldE (validate_rule ids n) rs s1 = Inr s'" by auto
  from 1(1) have s1: "s1 = (i + 1, insert (rl_id r) seen)" and
    r: "rl_id r \<notin> seen" "rl_is_default r = (i = n - 1)"
    "rl_is_default r \<longrightarrow> rl_enabled r \<and> rl_patterns r = [''*'']"
    "rl_patterns r \<noteq> []" "\<exists>ps. mapE (\<lambda>pattern. normalize_dns_name pattern True) (rl_patterns r) = Inr ps"
    "rl_server_id r \<noteq> 0 \<longrightarrow> rl_action r = Action_process \<and> rl_server_id r \<in> ids"
    by (auto simp: validate_rule_def)
  note IH = Cons.IH [OF 1(2) [unfolded s1]]
  have "rl_is_default ((r # rs) ! k) = (i + k = n - 1)" if "k < length (r # rs)" for k
    using IH r(2) that by (cases k) auto
  then show ?case using IH r by auto
qed simp

lemma validate_Inr:
  assumes "validate inet c = Inr u"
  obtains options where "runtime_options c = Inr options" "cf_rules c \<noteq> []"
    "distinct (map srv_id (cf_servers c))" "0 \<notin> srv_id ` set (cf_servers c)"
    "\<And>s f. s \<in> set (cf_servers c) \<Longrightarrow> f \<in> set (srv_fallback_ids s) \<Longrightarrow> f \<in> srv_id ` set (cf_servers c)"
    "\<not> has_cycle (server_map c)"
    "distinct (map rl_id (cf_rules c))"
    "\<And>k. k < length (cf_rules c) \<Longrightarrow> rl_is_default (cf_rules c ! k) = (k = length (cf_rules c) - 1)"
    "\<And>r. r \<in> set (cf_rules c) \<Longrightarrow> (rl_is_default r \<longrightarrow> rl_enabled r \<and> rl_patterns r = [''*'']) \<and>
      rl_patterns r \<noteq> [] \<and>
      (\<exists>ps. mapE (\<lambda>pattern. normalize_dns_name pattern True) (rl_patterns r) = Inr ps) \<and>
      (rl_server_id r \<noteq> 0 \<longrightarrow> rl_action r = Action_process \<and> rl_server_id r \<in> srv_id ` set (cf_servers c))"
proof -
  from assms obtain options ids vs s' us where
    1: "runtime_options c = Inr options" "cf_rules c \<noteq> []"
    "foldE (validate_server inet) (cf_servers c) {} = Inr ids"
    "mapE (\<lambda>server. mapE (\<lambda>fallback. requireE (server_map c fallback \<noteq> None)
                (Error ''SERVER_FALLBACK'' ''Fallback references a missing server''))
              (srv_fallback_ids server)) (cf_servers c) = Inr us"
    "foldE (visit (Suc (length (cf_servers c))) (server_map c)) (map srv_id (cf_servers c)) ({}, {}) = Inr vs"
    "foldE (validate_rule ids (length (cf_rules c))) (cf_rules c) (0, {}) = Inr s'"
    by (auto simp: validate_def simp del: visit.simps not_None_eq)
  note sv = validate_servers_Inr [OF 1(3)]
  note rl = validate_rules_Inr [OF 1(6)]
  have ids: "ids = srv_id ` set (cf_servers c)" using sv by simp
  have known: "f \<in> srv_id ` set (cf_servers c)"
    if "s \<in> set (cf_servers c)" "f \<in> set (srv_fallback_ids s)" for s f
    using 1(4) that server_map_dom [of c f] unfolding mapE_Inr_iff
    by (auto simp: list_all2_conv_all_nth in_set_conv_nth)
  have edges: "b \<in> srv_id ` set (cf_servers c)" if "(a, b) \<in> fallback_edges (server_map c)" for a b
    using that known sv server_map_Some [of c a] by (auto simp: fallback_edges_def)
  have "\<not> has_cycle (server_map c)"
    using fallback_search [OF edges] 1(5) by (auto simp del: visit.simps)
  then show ?thesis
    using rl by (intro that [OF 1(1,2) _ _ known]) (auto simp: sv ids)
qed

section \<open>The rule that applies\<close>

lemma normalized_no_star:
  assumes "normalize_dns_name hostname False = Inr host"
  shows "CHR ''*'' \<notin> set host"
proof
  assume "CHR ''*'' \<in> set host"
  moreover from assms normalize_sound [of hostname False False host] obtain ls where
    "list_all (good_label False False) ls" "host = join_labels ls"
    unfolding normalize_dns_name_def normal_name_def by blast
  ultimately have "label_char False False CHR ''*'' = Inr CHR ''*''"
    using join_labels_chars [of False False ls "CHR ''*''"] by auto
  from label_char_props(7) [OF this] show False by (simp add: wild_def)
qed

lemma normalize_star: "normalize_dns_name ''*'' True = Inr ''*''"
  by code_simp

lemma glob_anything: "glob ''*'' h"
  by (induction h) auto

text \<open>A rule applies to a host: it is enabled and one of its patterns matches, as a glob.\<close>

definition rule_applies :: "string \<Rightarrow> rule \<Rightarrow> bool" where
  "rule_applies host rule \<longleftrightarrow> rl_enabled rule \<and>
     (\<exists>pattern \<in> set (rl_patterns rule). \<exists>p. normalize_dns_name pattern True = Inr p \<and> glob p host)"

lemma matches_any_spec:
  assumes "CHR ''*'' \<notin> set host" "mapE (\<lambda>pattern. normalize_dns_name pattern True) patterns = Inr ps"
  shows "matches_any host patterns = Inr (\<exists>pattern \<in> set patterns. \<exists>p.
    normalize_dns_name pattern True = Inr p \<and> glob p host)"
  using assms(2)
  by (induction patterns arbitrary: ps) (auto simp: host_matches_glob [OF assms(1)])

lemma matching_rule:
  assumes "CHR ''*'' \<notin> set host"
    and "\<exists>ps. mapE (\<lambda>pattern. normalize_dns_name pattern True) (rl_patterns rule) = Inr ps"
  shows "(if \<not> rl_enabled rule then Inr False else matches_any host (rl_patterns rule)) =
    Inr (rule_applies host rule)"
  using matches_any_spec [OF assms(1)] assms(2) by (auto simp: rule_applies_def)

text \<open>The first element of a list with a property splits the list.\<close>

definition first_rule :: "(rule \<Rightarrow> bool) \<Rightarrow> rule list \<Rightarrow> rule \<Rightarrow> bool" where
  "first_rule P rules r \<longleftrightarrow> (\<exists>pre post. rules = pre @ r # post \<and> P r \<and> (\<forall>r' \<in> set pre. \<not> P r'))"

lemma first_rule_Cons: "first_rule P (r # rules) x \<longleftrightarrow> (if P r then x = r else first_rule P rules x)"
proof (cases "P r")
  case False
  show ?thesis
  proof
    assume "first_rule P (r # rules) x"
    then show "if P r then x = r else first_rule P rules x"
      using False by (auto simp: first_rule_def Cons_eq_append_conv)
  next
    assume "if P r then x = r else first_rule P rules x"
    then obtain pre post where "rules = pre @ x # post" "P x" "\<forall>r' \<in> set pre. \<not> P r'"
      using False by (auto simp: first_rule_def)
    then show "first_rule P (r # rules) x"
      using False unfolding first_rule_def by (intro exI [of _ "r # pre"] exI [of _ post]) simp
  qed
qed (auto simp: first_rule_def Cons_eq_append_conv)

lemma match_rules_first:
  assumes "CHR ''*'' \<notin> set host"
    and "\<And>r. r \<in> set rules \<Longrightarrow> \<exists>ps. mapE (\<lambda>pattern. normalize_dns_name pattern True) (rl_patterns r) = Inr ps"
  shows "match_rules host rules = Inr r \<longleftrightarrow> first_rule (rule_applies host) rules r"
  using assms(2)
proof (induction rules)
  case (Cons x rules)
  have "match_rules host (x # rules) = (if rule_applies host x then Inr x else match_rules host rules)"
    using matching_rule [OF assms(1), of x] Cons.prems by (auto split: if_splits)
  then show ?case using Cons by (auto simp: first_rule_Cons)
qed (simp add: first_rule_def)

lemma match_rules_total:
  assumes "CHR ''*'' \<notin> set host"
    and "\<And>r. r \<in> set rules \<Longrightarrow> \<exists>ps. mapE (\<lambda>pattern. normalize_dns_name pattern True) (rl_patterns r) = Inr ps"
    and "\<exists>r \<in> set rules. rule_applies host r"
  shows "\<exists>r. match_rules host rules = Inr r"
  using assms(2,3)
proof (induction rules)
  case (Cons x rules)
  have "match_rules host (x # rules) = (if rule_applies host x then Inr x else match_rules host rules)"
    using matching_rule [OF assms(1), of x] Cons.prems by (auto split: if_splits)
  then show ?case using Cons by auto
qed simp

lemma default_last:
  assumes "validate inet c = Inr u"
  shows "last (cf_rules c) \<in> set (cf_rules c) \<and> rl_is_default (last (cf_rules c)) \<and>
    rl_enabled (last (cf_rules c)) \<and> rl_patterns (last (cf_rules c)) = [''*'']"
  using assms
proof (cases rule: validate_Inr)
  case (1 options)
  then have "last (cf_rules c) = cf_rules c ! (length (cf_rules c) - 1)" by (simp add: last_conv_nth)
  then have "rl_is_default (last (cf_rules c))" using 1(2) 1(8) [of "length (cf_rules c) - 1"] by simp
  then show ?thesis using 1(2) 1(9) [of "last (cf_rules c)"] by simp
qed

lemma default_applies:
  "validate inet c = Inr u \<Longrightarrow> rule_applies host (last (cf_rules c))"
  by (auto dest!: default_last simp: rule_applies_def normalize_star glob_anything)

theorem match_rule_first:
  assumes "validate inet c = Inr u" "normalize_dns_name hostname False = Inr host"
  shows "\<exists>r. match_rule c hostname = Inr r \<and> first_rule (rule_applies host) (cf_rules c) r"
  using assms(1)
proof (cases rule: validate_Inr)
  case (1 options)
  note star = normalized_no_star [OF assms(2)]
  from match_rules_total [where rules = "cf_rules c", OF star] 1(9) default_last [OF assms(1)] default_applies [OF assms(1)]
  obtain r where "match_rules host (cf_rules c) = Inr r" by blast
  with match_rules_first [where rules = "cf_rules c", OF star] 1(9) show ?thesis
    using assms(2) by (auto simp: match_rule_def)
qed

section \<open>Decisions\<close>

lemma evaluate_loop_spec:
  assumes "CHR ''*'' \<notin> set host"
    and "\<And>r. r \<in> set rules \<Longrightarrow> \<exists>ps. mapE (\<lambda>pattern. normalize_dns_name pattern True) (rl_patterns r) = Inr ps"
    and "\<exists>r \<in> set rules. rule_applies host r \<and> rl_is_default r"
  shows "\<exists>r d. evaluate_loop options net host rules = Inr d \<and>
    first_rule (\<lambda>r. rule_applies host r \<and>
      select_route options net r (no_decision\<lparr>rd_rule := Some r\<rparr>) \<noteq> Inr None) rules r \<and>
    d = (case select_route options net r (no_decision\<lparr>rd_rule := Some r\<rparr>) of
        Inl d \<Rightarrow> d | Inr x \<Rightarrow> finish_decision options net host r (the x))"
  using assms(2,3)
proof (induction rules)
  case (Cons x rules)
  let ?sel = "select_route options net x (no_decision\<lparr>rd_rule := Some x\<rparr>)"
  have step: "evaluate_loop options net host (x # rules) =
    (if \<not> rule_applies host x then evaluate_loop options net host rules
     else (case ?sel of Inl d \<Rightarrow> Inr d | Inr None \<Rightarrow> evaluate_loop options net host rules
        | Inr (Some d) \<Rightarrow> Inr (finish_decision options net host x d)))"
    using matching_rule [OF assms(1), of x] Cons.prems(1) by simp
  show ?case
  proof (cases "rule_applies host x \<and> ?sel \<noteq> Inr None")
    case True
    then show ?thesis unfolding step
      by (cases ?sel) (auto simp: first_rule_Cons split: option.splits)
  next
    case False
    have "\<not> (rule_applies host x \<and> rl_is_default x)"
      using False by (auto simp: select_route_def Let_def split: if_splits sum.splits)
    with Cons obtain r d where "evaluate_loop options net host rules = Inr d"
      "first_rule (\<lambda>r. rule_applies host r \<and>
        select_route options net r (no_decision\<lparr>rd_rule := Some r\<rparr>) \<noteq> Inr None) rules r"
      "d = (case select_route options net r (no_decision\<lparr>rd_rule := Some r\<rparr>) of
        Inl d \<Rightarrow> d | Inr x \<Rightarrow> finish_decision options net host r (the x))" by fastforce
    then show ?thesis using False unfolding step by (auto simp: first_rule_Cons)
  qed
qed simp

text \<open>What a decision for rule \<open>r\<close> looks like.\<close>

definition decision_for :: "rule \<Rightarrow> rule_decision \<Rightarrow> bool" where
  "decision_for r d \<longleftrightarrow> rd_rule d = Some r \<and>
     (rd_error_code d \<noteq> [] \<longrightarrow> \<not> rd_reinject_udp d) \<and>
     (rl_action r = Action_block \<longrightarrow> \<not> rd_reinject_udp d) \<and>
     (rl_dnssec_validate r \<or> rl_dnssec_reject_unsigned r \<longrightarrow> rd_error_code d \<noteq> []) \<and>
     (rule_selector r \<noteq> [] \<and> rd_error_code d = [] \<longrightarrow> \<not> rd_captive_bypass d)"

lemma select_route_Inl:
  "select_route options net r d = Inl d' \<Longrightarrow>
    rd_rule d' = rd_rule d \<and> rd_reinject_udp d' = rd_reinject_udp d \<and> rd_captive_bypass d' = rd_captive_bypass d"
  by (auto simp: select_route_def Let_def split: if_splits sum.splits)

lemma select_route_Inr:
  "select_route options net r d = Inr (Some d') \<Longrightarrow>
    rd_rule d' = rd_rule d \<and> rd_reinject_udp d' = rd_reinject_udp d \<and>
    rd_captive_bypass d' = rd_captive_bypass d \<and> rd_error_code d' = rd_error_code d"
  by (auto simp: select_route_def Let_def split: if_splits sum.splits)

lemma find_loop_code: "find_loop needle match infos found = Inl e \<Longrightarrow> err_code e \<noteq> []"
  by (induction needle match infos found rule: find_loop.induct) (auto split: if_splits)

lemma select_route_code:
  "select_route options net r d = Inl d' \<Longrightarrow> rd_error_code d' \<noteq> []"
  by (auto simp: select_route_def Let_def find_interface_def bindE_Inl_iff requireE_Inl_iff
      dest: find_loop_code split: if_splits sum.splits)

lemma finish_decision_for:
  "rd_rule d = Some r \<Longrightarrow> \<not> rd_reinject_udp d \<Longrightarrow> \<not> rd_captive_bypass d \<Longrightarrow> rd_error_code d = [] \<Longrightarrow>
   decision_for r (finish_decision options net host r d)"
  by (auto simp: decision_for_def finish_decision_def Let_def)

text \<open>C1: On a validated configuration every hostname that normalises gets a decision, for the
  first rule that applies and is not skipped for a missing interface; a decision that
  carries an error, or whose rule blocks, never lets the packet through to the system
  resolver.\<close>

theorem evaluate_rule_decision:
  assumes "validate inet c = Inr u" "normalize_dns_name hostname False = Inr host"
  shows "\<exists>options r d. runtime_options c = Inr options \<and>
    evaluate_rule c hostname network shared = Inr d \<and> decision_for r d \<and>
    first_rule (\<lambda>r. rule_applies host r \<and>
      select_route options (case network of Some n \<Rightarrow> n | None \<Rightarrow> shared) r
        (no_decision\<lparr>rd_rule := Some r\<rparr>) \<noteq> Inr None) (cf_rules c) r"
  using assms(1)
proof (cases rule: validate_Inr)
  case (1 options)
  let ?net = "case network of Some n \<Rightarrow> n | None \<Rightarrow> shared"
  from evaluate_loop_spec [OF normalized_no_star [OF assms(2)], of "cf_rules c" options ?net]
    1(9) default_last [OF assms(1)] default_applies [where host = host, OF assms(1)]
  obtain r d where d: "evaluate_loop options ?net host (cf_rules c) = Inr d"
    "first_rule (\<lambda>r. rule_applies host r \<and>
      select_route options ?net r (no_decision\<lparr>rd_rule := Some r\<rparr>) \<noteq> Inr None) (cf_rules c) r"
    "d = (case select_route options ?net r (no_decision\<lparr>rd_rule := Some r\<rparr>) of
        Inl d \<Rightarrow> d | Inr x \<Rightarrow> finish_decision options ?net host r (the x))" by blast
  have "decision_for r d"
  proof (cases "select_route options ?net r (no_decision\<lparr>rd_rule := Some r\<rparr>)")
    case (Inl d')
    then show ?thesis using d(3) select_route_Inl [OF Inl] select_route_code [OF Inl]
      by (simp add: decision_for_def no_decision_def)
  next
    case (Inr x)
    then obtain d' where d': "x = Some d'" using d(2) by (cases x) (auto simp: first_rule_def)
    from select_route_Inr [OF Inr [unfolded d']] d(3) Inr d' show ?thesis
      by (simp add: finish_decision_for no_decision_def)
  qed
  then show ?thesis using d(1,2) 1(1) assms(2) by (auto simp: evaluate_rule_def)
qed

section \<open>The editor\<close>

lemma commit_Inr: "commit inet c = Inr c' \<longleftrightarrow> c' = c \<and> validate inet c = Inr ()"
  by (auto simp: commit_def)

lemmas editor_defs = add_rule_def update_rule_def remove_rule_def move_rule_def clone_rule_def
  add_server_def update_server_def remove_server_def

lemma edit_step_valid: "edit_step inet e c = Inr c' \<Longrightarrow> validate inet c' = Inr ()"
  by (cases e) (auto simp: editor_defs commit_Inr Let_def)

interpretation editor: transition_system "edit_step inet" "\<lambda>c. validate inet c = Inr ()" for inet
  by unfold_locales (rule edit_step_valid)

text \<open>A session of the editor: operations that throw leave the configuration as it is.\<close>

fun edit_session :: "inet \<Rightarrow> edit list \<Rightarrow> config \<Rightarrow> config" where
  "edit_session inet [] c = c"
| "edit_session inet (e # es) c =
     edit_session inet es (case edit_step inet e c of Inl _ \<Rightarrow> c | Inr c' \<Rightarrow> c')"

lemma edit_session_run: "edit_session inet es c = editor.run inet es c"
  by (induction es arbitrary: c) simp_all

text \<open>C37: Any sequence of editor operations, whatever succeeds or throws, leaves a valid
  configuration.\<close>

theorem edit_session_valid:
  assumes "config_editor inet c = Inr c0"
  shows "validate inet (edit_session inet es c0) = Inr ()"
  unfolding edit_session_run by (rule editor.run_inv) (use assms in \<open>auto simp: config_editor_def\<close>)

lemma rule_index_found:
  "rule_index c i < length (cf_rules c) \<Longrightarrow> rl_id (cf_rules c ! rule_index c i) = i"
  unfolding rule_index_def using nth_length_takeWhile by fastforce

lemma rule_index_le: "rule_index c i \<le> length (cf_rules c)"
  by (simp add: rule_index_def length_takeWhile_le)

lemma last_update_other: "k < length xs - 1 \<Longrightarrow> last (xs[k := x]) = last xs"
  by (cases "xs = []") (simp_all add: last_list_update)

lemma default_position:
  assumes "validate inet c = Inr u" "k < length (cf_rules c)" "\<not> rl_is_default (cf_rules c ! k)"
  shows "k < length (cf_rules c) - 1"
  using assms(1)
proof (cases rule: validate_Inr)
  case (1 options)
  then show ?thesis using assms(2,3) 1(8) [of k] by simp
qed

abbreviation default_id :: "config \<Rightarrow> 32 word" where
  "default_id c \<equiv> rl_id (last (cf_rules c))"

lemma update_rule_default:
  assumes "validate inet c = Inr u" "update_rule inet r c = Inr c'"
  shows "default_id c' = default_id c"
proof -
  let ?k = "rule_index c (rl_id r)"
  from assms(2) have c': "cf_rules c' = (cf_rules c)[?k := r]" "?k \<noteq> length (cf_rules c)"
    by (auto simp: update_rule_def commit_Inr Let_def)
  then have k: "?k < length (cf_rules c)" using rule_index_le [of c "rl_id r"] by simp
  then have "cf_rules c \<noteq> []" by auto
  then have "last ((cf_rules c)[?k := r]) = (if ?k = length (cf_rules c) - 1 then r else last (cf_rules c))"
    by (rule last_list_update)
  moreover have "last (cf_rules c) = cf_rules c ! (length (cf_rules c) - 1)"
    using \<open>cf_rules c \<noteq> []\<close> by (rule last_conv_nth)
  ultimately show ?thesis using rule_index_found [OF k] unfolding c'(1) by (simp split: if_splits)
qed

lemma remove_rule_default:
  assumes "validate inet c = Inr u" "remove_rule inet i c = Inr c'"
  shows "default_id c' = default_id c"
proof -
  let ?k = "rule_index c i"
  from assms(2) have c': "cf_rules c' = take ?k (cf_rules c) @ drop (?k + 1) (cf_rules c)"
    "?k \<noteq> length (cf_rules c)" "\<not> rl_is_default (cf_rules c ! ?k)"
    by (auto simp: remove_rule_def commit_Inr Let_def)
  then have k: "?k < length (cf_rules c)" using rule_index_le [of c i] by simp
  from default_position [OF assms(1) k c'(3)] show ?thesis by (simp add: c'(1))
qed

lemma move_rule_Inr:
  assumes "validate inet c = Inr u" "move_rule inet i direction c = Inr c'"
  shows "\<exists>k k'. cf_rules c' = (cf_rules c)[k := cf_rules c ! k', k' := cf_rules c ! k] \<and>
    rl_id (cf_rules c ! k) = i \<and> int k' = int k + direction \<and>
    k < length (cf_rules c) - 1 \<and> k' < length (cf_rules c) - 1"
proof -
  let ?k = "rule_index c i"
  from assms(2) have c': "direction = -1 \<or> direction = 1" "?k \<noteq> length (cf_rules c)"
    "\<not> rl_is_default (cf_rules c ! ?k)" "\<not> (direction < 0 \<and> ?k = 0)"
    "\<not> (direction > 0 \<and> rl_is_default (cf_rules c ! (?k + 1)))"
    "cf_rules c' = (cf_rules c)[?k := cf_rules c ! nat (int ?k + direction), nat (int ?k + direction) := cf_rules c ! ?k]"
    by (auto simp: move_rule_def commit_Inr Let_def)
  have k: "?k < length (cf_rules c)" using c'(2) rule_index_le [of c i] by simp
  note k1 = default_position [OF assms(1) k c'(3)]
  have "nat (int ?k + direction) < length (cf_rules c) - 1"
  proof (cases "direction = 1")
    case True
    then have "\<not> rl_is_default (cf_rules c ! (?k + 1))" using c'(5) by simp
    from default_position [OF assms(1) _ this] k1 True show ?thesis by (simp add: nat_add_distrib)
  next
    case False
    then show ?thesis using c'(1) k1 by auto
  qed
  moreover have "int (nat (int ?k + direction)) = int ?k + direction" using c'(1,4) by auto
  ultimately show ?thesis using c'(6) k1 rule_index_found [OF k] by blast
qed

theorem edit_keeps_default:
  assumes "validate inet c = Inr u" "edit_step inet e c = Inr c'"
  shows "default_id c' = default_id c"
proof (cases e)
  case (Add_rule r)
  then show ?thesis using assms by (auto simp: add_rule_def commit_Inr Let_def)
next
  case (Update_rule r)
  then show ?thesis using assms update_rule_default by simp
next
  case (Remove_rule i)
  then show ?thesis using assms remove_rule_default by simp
next
  case (Move_rule i d)
  then obtain k k' where "cf_rules c' = (cf_rules c)[k := cf_rules c ! k', k' := cf_rules c ! k]"
    "k < length (cf_rules c) - 1" "k' < length (cf_rules c) - 1"
    using move_rule_Inr [OF assms(1), of i d c'] assms(2) by auto
  then show ?thesis by (simp add: last_update_other)
next
  case (Clone_rule i j)
  then show ?thesis using assms by (auto simp: clone_rule_def add_rule_def commit_Inr Let_def)
qed (use assms in \<open>auto simp: editor_defs commit_Inr Let_def\<close>)

theorem move_rule_swaps:
  assumes "validate inet c = Inr u" "move_rule inet i direction c = Inr c'"
  shows "cf_servers c' = cf_servers c \<and> mset (cf_rules c') = mset (cf_rules c) \<and>
    (\<exists>k k'. cf_rules c' = (cf_rules c)[k := cf_rules c ! k', k' := cf_rules c ! k] \<and>
      rl_id (cf_rules c ! k) = i \<and> int k' = int k + direction)"
proof -
  from move_rule_Inr [OF assms] obtain k k' where
    k: "cf_rules c' = (cf_rules c)[k := cf_rules c ! k', k' := cf_rules c ! k]"
    "rl_id (cf_rules c ! k) = i" "int k' = int k + direction"
    "k < length (cf_rules c) - 1" "k' < length (cf_rules c) - 1" by blast
  have "cf_servers c' = cf_servers c" using assms(2) by (auto simp: move_rule_def commit_Inr Let_def)
  moreover have "mset (cf_rules c') = mset (cf_rules c)"
    unfolding k(1) by (rule mset_swap) (use k(4,5) in auto)
  ultimately show ?thesis using k(1-3) by blast
qed

section \<open>Summary of validation\<close>

text \<open>C2: A configuration that validate accepts is well formed: exactly one Default rule, the
  last, enabled and matching everything; distinct rule and server ids; server references
  that resolve; an acyclic fallback graph.\<close>

theorem validate_sound:
  assumes "validate inet c = Inr u"
  shows "(\<exists>rules d. cf_rules c = rules @ [d] \<and> rl_is_default d \<and> rl_enabled d \<and> rl_patterns d = [''*''] \<and>
      (\<forall>r \<in> set rules. \<not> rl_is_default r)) \<and>
    distinct (map rl_id (cf_rules c)) \<and> distinct (map srv_id (cf_servers c)) \<and>
    (\<forall>r \<in> set (cf_rules c). rl_server_id r \<noteq> 0 \<longrightarrow>
      rl_action r = Action_process \<and> (\<exists>s. server_map c (rl_server_id r) = Some s)) \<and>
    (\<forall>s \<in> set (cf_servers c). \<forall>f \<in> set (srv_fallback_ids s). \<exists>s'. server_map c f = Some s') \<and>
    acyclic (fallback_edges (server_map c))"
  using assms
proof (cases rule: validate_Inr)
  case (1 options)
  let ?rs = "cf_rules c"
  have split: "?rs = butlast ?rs @ [last ?rs]" using 1(2) by simp
  have "\<not> rl_is_default r" if "r \<in> set (butlast ?rs)" for r
  proof -
    from that obtain k where "k < length ?rs - 1" "r = ?rs ! k"
      by (auto simp: in_set_conv_nth nth_butlast)
    then show ?thesis using 1(8) [of k] by simp
  qed
  moreover have dom: "\<exists>s. server_map c a = Some s" if "a \<in> srv_id ` set (cf_servers c)" for a
    using that server_map_dom [of c a] by simp
  moreover have "acyclic (fallback_edges (server_map c))" using 1(6) by (simp add: acyclic_def)
  moreover have "\<exists>s. server_map c (rl_server_id r) = Some s" "rl_action r = Action_process"
    if "r \<in> set ?rs" "rl_server_id r \<noteq> 0" for r
    using 1(9) [OF that(1)] that(2) dom by simp_all
  moreover have "\<exists>s'. server_map c f = Some s'"
    if "s \<in> set (cf_servers c)" "f \<in> set (srv_fallback_ids s)" for s f
    using dom [OF 1(5) [OF that]] .
  moreover have "\<exists>rules d. ?rs = rules @ [d] \<and> rl_is_default d \<and> rl_enabled d \<and> rl_patterns d = [''*''] \<and>
      (\<forall>r \<in> set rules. \<not> rl_is_default r)"
    using split default_last [OF assms] calculation(1) by (intro exI [of _ "butlast ?rs"] exI [of _ "last ?rs"]) simp
  ultimately show ?thesis using 1(3,7) by simp
qed

text \<open>C36: The depth-first search over the fallback servers, with a depth bound of the number of
  servers plus one, never exceeds the bound: it reports a cycle exactly when the graph has
  one, and no other error.\<close>

theorem fallback_search_exact:
  assumes "Range (fallback_edges (server_map c)) \<subseteq> srv_id ` set (cf_servers c)"
  shows "(foldE (visit (Suc (length (cf_servers c))) (server_map c)) (map srv_id (cf_servers c)) ({}, {}) =
      Inl cycle_error) = has_cycle (server_map c) \<and>
    (\<forall>e. foldE (visit (Suc (length (cf_servers c))) (server_map c)) (map srv_id (cf_servers c)) ({}, {}) =
      Inl e \<longrightarrow> e = cycle_error)"
proof -
  from assms have "\<forall>a b. (a, b) \<in> fallback_edges (server_map c) \<longrightarrow> b \<in> srv_id ` set (cf_servers c)" by blast
  then show ?thesis using fallback_search [of c] by (auto simp del: visit.simps)
qed

section \<open>A sample configuration\<close>

definition sample_inet :: inet where
  "sample_inet = \<lparr>pton4 = (\<lambda>s. if s = ''192.0.2.1'' then Some [192, 0, 2, 1] else None),
     pton6 = (\<lambda>_. None)\<rparr>"

definition sample_server :: server where
  "sample_server = default_server\<lparr>srv_id := 1, srv_name := ''A'', srv_ip := ''192.0.2.1'',
     srv_fallback_ids := [2]\<rparr>"

definition sample_block_rule :: rule where
  "sample_block_rule = default_rule\<lparr>rl_id := 2, rl_name := ''Ads'', rl_patterns := [''*.ads''],
     rl_action := Action_block\<rparr>"

definition sample_config :: config where
  "sample_config = default_config\<lparr>
     cf_servers := [sample_server, sample_server\<lparr>srv_id := 2, srv_fallback_ids := []\<rparr>],
     cf_rules := sample_block_rule # cf_rules default_config\<rparr>"

lemmas sample_defs = sample_config_def sample_block_rule_def sample_server_def default_config_def
  empty_config_def default_rule_def default_server_def

lemma sample_options: "runtime_options sample_config =
    Inr \<lparr>ro_clear_dns_cache = False, ro_block_tcp53 = False, ro_intercept_others = False,
      ro_captive_portal_detection = False, ro_ignore_interface_down = False,
      ro_ttl_min = 0, ro_ttl_max = int_max\<rparr>"
  by (simp add: runtime_options_def bool_setting_def number_setting_def setting_def sample_defs)

lemma sample_servers: "foldE (validate_server sample_inet) (cf_servers sample_config) {} = Inr {1, 2}"
proof -
  have "parse_numeric_endpoint sample_inet ''192.0.2.1'' =
    Inr \<lparr>ne_address = ''192.0.2.1'', ne_scope6 = 0, ne_ipv6 = False\<rparr>" by code_simp
  then show ?thesis by (auto simp: validate_server_def sample_defs)
qed

lemma sample_valid_rules:
  assumes "foldE (validate_rule {1, 2} (length rs)) rs (0, {}) = Inr s" "rs \<noteq> []" "length rs \<le> 4096"
  shows "validate sample_inet (sample_config\<lparr>cf_rules := rs\<rparr>) = Inr ()"
proof -
  let ?c = "sample_config\<lparr>cf_rules := rs\<rparr>"
  have o: "\<exists>ro. runtime_options ?c = Inr ro"
    by (simp add: runtime_options_def bool_setting_def number_setting_def setting_def sample_defs)
  have n: "normalize_host (cf_test_target ?c) False = Inr ''iana.org''" by code_simp
  have m: "mapE (\<lambda>server. mapE (\<lambda>fallback.
              requireE (server_map ?c fallback \<noteq> None)
                (Error ''SERVER_FALLBACK'' ''Fallback references a missing server''))
              (srv_fallback_ids server)) (cf_servers sample_config) = Inr [[()], []]"
    by (simp add: sample_defs server_map_def)
  have v: "\<exists>s. foldE (visit (Suc (length (cf_servers ?c))) (server_map ?c))
              (map srv_id (cf_servers ?c)) ({}, {}) = Inr s"
    by (simp add: sample_defs server_map_def)
  have c: "cf_schema_version sample_config = 1" "length (cf_servers sample_config) = 2"
    "cf_test_concurrency sample_config = 15"
    "enum_le (lg_screen (cf_logging sample_config)) debug" "enum_le (lg_file (cf_logging sample_config)) debug"
    by (simp_all add: sample_defs enum_le_def)
  show ?thesis
    using o v m n assms unfolding validate_def
    by (auto simp: c sample_servers simp del: visit.simps not_None_eq)
qed

lemma sample_pattern: "normalize_dns_name ''*.ads'' True = Inr ''*.ads''" by code_simp

lemma sample_valid: "validate sample_inet sample_config = Inr ()"
proof -
  have "sample_config = sample_config\<lparr>cf_rules := cf_rules sample_config\<rparr>" by simp
  also have "validate sample_inet \<dots> = Inr ()"
    by (rule sample_valid_rules [where s = "(2, {1, 2})"])
      (auto simp: validate_rule_def sample_defs normalize_star sample_pattern enum_le_def)
  finally show ?thesis .
qed

theorem validate_sound_witness:
  "acyclic (fallback_edges (server_map sample_config)) \<and> distinct (map rl_id (cf_rules sample_config))"
  using validate_sound [OF sample_valid] by blast

theorem fallback_search_exact_witness:
  "(foldE (visit (Suc (length (cf_servers sample_config))) (server_map sample_config))
     (map srv_id (cf_servers sample_config)) ({}, {}) = Inl cycle_error) = has_cycle (server_map sample_config)"
proof -
  have "Range (fallback_edges (server_map sample_config)) \<subseteq> srv_id ` set (cf_servers sample_config)"
    by (auto simp: fallback_edges_def sample_defs server_map_def split: if_splits)
  from fallback_search_exact [OF this] show ?thesis by blast
qed

theorem match_rule_first_witness:
  "\<exists>r. match_rule sample_config ''x.ads'' = Inr r \<and> first_rule (rule_applies ''x.ads'') (cf_rules sample_config) r"
proof -
  have "normalize_dns_name ''x.ads'' False = Inr ''x.ads''" by code_simp
  from match_rule_first [OF sample_valid this] show ?thesis .
qed

theorem evaluate_rule_decision_witness:
  "\<exists>r d. evaluate_rule sample_config ''x.ads'' None sample_snapshot = Inr d \<and> decision_for r d"
proof -
  have "normalize_dns_name ''x.ads'' False = Inr ''x.ads''" by code_simp
  from evaluate_rule_decision [OF sample_valid this, of None sample_snapshot] show ?thesis by blast
qed

theorem edit_session_valid_witness:
  "validate sample_inet (edit_session sample_inet [Move_rule 2 1, Remove_rule 2] sample_config) = Inr ()"
proof -
  have "config_editor sample_inet sample_config = Inr sample_config"
    by (simp add: config_editor_def sample_valid)
  from edit_session_valid [OF this] show ?thesis .
qed

definition two_rules :: "rule list" where
  "two_rules = [sample_block_rule, sample_block_rule\<lparr>rl_id := 3\<rparr>] @ cf_rules default_config"

definition two_rules_swapped :: "rule list" where
  "two_rules_swapped = [sample_block_rule\<lparr>rl_id := 3\<rparr>, sample_block_rule] @ cf_rules default_config"

lemma two_rules_valid: "validate sample_inet (sample_config\<lparr>cf_rules := two_rules\<rparr>) = Inr ()"
  by (rule sample_valid_rules [where s = "(3, {1, 2, 3})"])
    (auto simp: two_rules_def validate_rule_def sample_defs normalize_star sample_pattern enum_le_def)

lemma two_rules_swapped_valid: "validate sample_inet (sample_config\<lparr>cf_rules := two_rules_swapped\<rparr>) = Inr ()"
  by (rule sample_valid_rules [where s = "(3, {1, 2, 3})"])
    (auto simp: two_rules_swapped_def validate_rule_def sample_defs normalize_star sample_pattern enum_le_def)

lemma two_rules_move: "move_rule sample_inet 2 1 (sample_config\<lparr>cf_rules := two_rules\<rparr>) =
    Inr (sample_config\<lparr>cf_rules := two_rules_swapped\<rparr>)"
proof -
  have "two_rules[0 := two_rules ! 1, 1 := two_rules ! 0] = two_rules_swapped" "length two_rules = 3"
    "\<not> rl_is_default (two_rules ! 0)" "\<not> rl_is_default (two_rules ! 1)"
    by (simp_all add: two_rules_def two_rules_swapped_def sample_defs)
  moreover from this(2) have "two_rules \<noteq> []" by auto
  moreover have "rule_index (sample_config\<lparr>cf_rules := two_rules\<rparr>) 2 = 0"
    by (simp add: rule_index_def two_rules_def sample_defs)
  ultimately show ?thesis
    using two_rules_swapped_valid by (simp add: move_rule_def commit_def Let_def)
qed

theorem move_rule_swaps_witness:
  "mset two_rules_swapped = mset two_rules"
  using move_rule_swaps [OF two_rules_valid two_rules_move] by simp

theorem edit_keeps_default_witness:
  "default_id (sample_config\<lparr>cf_rules := two_rules_swapped\<rparr>) = default_id (sample_config\<lparr>cf_rules := two_rules\<rparr>)"
  by (rule edit_keeps_default [OF two_rules_valid, of "Move_rule 2 1"]) (simp add: two_rules_move)

end
