(* ===== verification/Config_Facts.thy ===== *)
theory Config_Facts
  imports Config_Render Rules_Facts
begin

text \<open>
  Facts about configuration files: a configuration that is written is read back, and saving
  a configuration replaces the file at once or not at all.
\<close>

section \<open>Single values\<close>

lemma number_num_text [simp]: "number (num_text v) = Inr v"
proof -
  have "unat v < 2 ^ 32" using unsigned_less [of v] by simp
  then have "from_chars (2 ^ 32) (to_string (unat v)) = Some (unat v)" by (rule from_chars_to_string)
  then show ?thesis by (simp add: number_def num_text_def)
qed

lemma read_protocol_name [simp]: "read_protocol (protocol_name p) = Inr p"
  by (cases p) (simp_all add: read_protocol_def protocol_name_def)

lemma read_action_name [simp]: "read_action (action_name a) = Inr a"
  by (cases a) (simp_all add: read_action_def action_name_def)

lemma port_fits [simp]: "ucast (ucast (p :: 16 word) :: 32 word) = p" "\<not> (ucast p :: 32 word) > 65535"
proof -
  have p: "unat (ucast p :: 32 word) = unat p"
    using unsigned_less [of p, where ?'a = nat] by (simp add: unsigned_ucast_eq take_bit_nat_eq_self_iff)
  show "ucast (ucast p :: 32 word) = p" by (simp add: ucast_up_ucast_id is_up)
  show "\<not> (ucast p :: 32 word) > 65535"
    using unsigned_less [of p, where ?'a = nat] p by (simp add: word_less_nat_alt)
qed

lemma attr_of: "attrs_of kvs m \<Longrightarrow> attr (Node name m xs) k d = (case map_of kvs k of None \<Rightarrow> d | Some v \<Rightarrow> v)"
  by (simp add: attr_def attrs_of_def)

lemma known_of:
  assumes "attrs_of kvs m" "fst ` set kvs \<subseteq> set keys"
  shows "known (Node name m xs) keys = Inr ()"
proof -
  have "fst ` set m \<subseteq> set keys" using assms by (simp add: attrs_of_def smap_keys_def)
  then have "mapE (\<lambda>(key, v). requireE (key \<in> set keys)
      (Error ''CONFIG_FIELD'' (''Unknown field '' @ name @ ''/'' @ key))) m = Inr (map (\<lambda>_. ()) m)"
    by (intro mapE_Inr_map) (auto simp: requireE_def)
  then show ?thesis by (simp add: known_def)
qed

definition clean_item :: "string \<Rightarrow> bool" where
  "clean_item v \<longleftrightarrow> v \<noteq> [] \<and> CHR '';'' \<notin> set v"

text \<open>What a list becomes in a file: its items are split at semicolons, and empty pieces are dropped.\<close>

definition stored_list :: "string list \<Rightarrow> string list" where
  "stored_list vs = concat (map split_list vs)"

lemma split_list_Nil [simp]: "split_list [] = []"
  by (simp add: split_list.simps [of "[]"])

lemma split_list_append: "split_list (v @ CHR '';'' # w) = split_list v @ split_list w"
proof (induction "length v" arbitrary: v rule: less_induct)
  case less
  let ?u = "takeWhile (\<lambda>c. c \<noteq> CHR '';'') v"
  show ?case
  proof (cases "CHR '';'' \<in> set v")
    case True
    then obtain u x where v: "v = u @ CHR '';'' # x" "CHR '';'' \<notin> set u" by (meson split_list_first)
    then have t: "takeWhile (\<lambda>c. c \<noteq> CHR '';'') (u @ CHR '';'' # y) = u" for y
      by (auto simp: takeWhile_append takeWhile_eq_all_conv)
    have "split_list (u @ CHR '';'' # y) = (if u \<noteq> [] then [u] else []) @ split_list y" for y
      by (subst split_list.simps) (simp add: t Let_def)
    with less.hyps [of x] v show ?thesis by simp
  next
    case False
    then have t: "takeWhile (\<lambda>c. c \<noteq> CHR '';'') (v @ CHR '';'' # w) = v" "takeWhile (\<lambda>c. c \<noteq> CHR '';'') v = v"
      by (auto simp: takeWhile_append takeWhile_eq_all_conv)
    show ?thesis
      by (subst split_list.simps, subst (2) split_list.simps) (simp add: t Let_def)
  qed
qed

lemma split_join: "split_list (fold join_step vs out) = split_list out @ stored_list vs"
  by (induction vs arbitrary: out) (simp_all add: stored_list_def split_list_append)

lemma split_join_list [simp]: "split_list (join_list vs) = stored_list vs"
  by (simp add: join_list_def split_join)

lemma stored_clean: "list_all clean_item vs \<Longrightarrow> stored_list vs = vs"
proof -
  have "split_list v = [v]" if "clean_item v" for v
  proof -
    have "takeWhile (\<lambda>c. c \<noteq> CHR '';'') v = v" using that by (auto simp: clean_item_def takeWhile_eq_all_conv)
    note this [simp]
    show ?thesis using that by (subst split_list.simps) (simp add: clean_item_def Let_def)
  qed
  then show "list_all clean_item vs \<Longrightarrow> stored_list vs = vs" by (induction vs) (simp_all add: stored_list_def)
qed

lemma split_join_ids [simp]: "split_ids (join_ids ids) = Inr ids"
proof -
  have "clean_item (num_text v)" for v
    using to_string_digits [of "unat v"] by (auto simp: clean_item_def num_text_def list_all_iff is_digit_def code_def)
  then have "split_list (join_ids ids) = map num_text ids"
    unfolding join_ids_def num_text_def [symmetric] by (simp add: split_join stored_clean list_all_iff)
  moreover have "mapE number (map num_text ids) = Inr ids" by (induction ids) simp_all
  ultimately show ?thesis by (simp add: split_ids_def)
qed

lemma good_keys:
  "\<forall>k \<in> fst ` set (server_fields s). good_name k" "distinct (map fst (server_fields s))"
  "\<forall>k \<in> fst ` set (rule_fields r). good_name k" "distinct (map fst (rule_fields r))"
  "\<forall>k \<in> fst ` set (logging_fields l). good_name k" "distinct (map fst (logging_fields l))"
  "good_name ''Meta'' \<and> good_name ''key'' \<and> good_name ''value'' \<and> good_name ''Server'' \<and> good_name ''Rule''
   \<and> good_name ''Settings'' \<and> good_name ''Logging'' \<and> good_name ''NativeDNS'' \<and>
   good_name ''schemaVersion'' \<and> good_name ''testTarget'' \<and> good_name ''testConcurrency''"
  by (simp_all add: server_fields_def rule_fields_def logging_fields_def good_name_def xml_char_def
      c_alnum_def code_def)

section \<open>Pieces of the text\<close>

text \<open>The serializer ends lines; an element with the end of the line before it can be put in a row.\<close>

definition piece :: "string \<Rightarrow> node \<Rightarrow> bool" where
  "piece t x \<longleftrightarrow> (\<exists>t'. newline @ t = t' @ newline \<and> renders t' x)"

lemma pieces:
  assumes "list_all2 piece ts xs"
  obtains ts' where "newline @ concat ts = concat ts' @ newline" "list_all2 renders ts' xs"
  using assms
proof (induction arbitrary: thesis rule: list_all2_induct)
  case Nil
  show ?case by (rule Nil [of "[]"]) simp_all
next
  case (Cons t ts x xs)
  from Cons.hyps(1) obtain t' where t': "newline @ t = t' @ newline" "renders t' x"
    by (auto simp: piece_def)
  from Cons.IH obtain ts' where ts': "newline @ concat ts = concat ts' @ newline" "list_all2 renders ts' xs" .
  have "newline @ concat (t # ts) = concat (t' # ts') @ newline"
    using t'(1) ts'(1) by simp (metis append.assoc append_Cons append_Nil)
  then show ?case using t'(2) ts'(2) by (intro Cons.prems) auto
qed

lemma piece_empty:
  assumes "good_name name" "field_list kvs = Inr f" "\<forall>k \<in> fst ` set kvs. good_name k"
    "distinct (map fst kvs)" "list_all c_space ws" "17 \<le> length ws + length name + length f"
  obtains m where "attrs_of kvs m" "piece (ws @ ''<'' @ name @ f @ ''/>'' @ newline) (Node name m [])"
proof -
  obtain m where m: "attrs_of kvs m" "renders ((newline @ ws) @ ''<'' @ name @ f @ ''/>'') (Node name m [])"
    by (rule renders_empty [OF _ assms(1-4), of "newline @ ws"]) (use assms(5,6) in simp_all)
  then have "piece (ws @ ''<'' @ name @ f @ ''/>'' @ newline) (Node name m [])"
    unfolding piece_def by (intro exI [of _ "(newline @ ws) @ ''<'' @ name @ f @ ''/>''"]) simp
  with m(1) show ?thesis by (rule that)
qed

lemma piece_full:
  assumes "good_name name" "field_list kvs = Inr f" "\<forall>k \<in> fst ` set kvs. good_name k"
    "distinct (map fst kvs)" "list_all c_space ws" "list_all2 piece ts xs" "14 \<le> 2 * (length ws + length name) + length f"
  obtains m where "attrs_of kvs m"
    "piece (ws @ ''<'' @ name @ f @ ''>'' @ newline @ concat ts @ ws @ ''</'' @ name @ ''>'' @ newline) (Node name m xs)"
proof -
  from pieces [OF assms(6)] obtain ts' where
    ts': "newline @ concat ts = concat ts' @ newline" "list_all2 renders ts' xs" .
  obtain m where m: "attrs_of kvs m"
    "renders ((newline @ ws) @ ''<'' @ name @ f @ ''>'' @ concat ts' @ (newline @ ws) @ ''</'' @ name @ ''>'') (Node name m xs)"
    by (rule renders_full [OF _ assms(1-4) ts'(2), of "newline @ ws" "newline @ ws"]) (use assms(5,7) in simp_all)
  have "newline @ ws @ ''<'' @ name @ f @ ''>'' @ newline @ concat ts @ ws @ ''</'' @ name @ ''>'' @ newline =
      ((newline @ ws) @ ''<'' @ name @ f @ ''>'' @ concat ts' @ (newline @ ws) @ ''</'' @ name @ ''>'') @ newline"
    using arg_cong [where f = "\<lambda>x. x @ ws", OF ts'(1)] by simp
  then have "piece (ws @ ''<'' @ name @ f @ ''>'' @ newline @ concat ts @ ws @ ''</'' @ name @ ''>'' @ newline) (Node name m xs)"
    unfolding piece_def using m(2) by blast
  with m(1) show ?thesis by (rule that)
qed

lemma metadata_pieces:
  assumes "metadata kvs = Inr t"
  obtains ts xs where "t = concat ts" "list_all2 piece ts xs"
    "list_all2 (\<lambda>(k, v) x. \<exists>m. attrs_of [(''key'', k), (''value'', v)] m \<and> x = Node ''Meta'' m []) kvs xs"
proof -
  define body where "body = (\<lambda>(k, v). bindE (field_list [(''key'', k), (''value'', v)])
    (\<lambda>f. Inr (''    <Meta'' @ f @ ''/>'' @ newline) :: error + string))"
  from assms obtain ts where ts: "mapE body kvs = Inr ts" "t = concat ts"
    by (auto simp: metadata_def body_def)
  from ts(1) have "\<exists>xs. list_all2 piece ts xs \<and>
    list_all2 (\<lambda>(k, v) x. \<exists>m. attrs_of [(''key'', k), (''value'', v)] m \<and> x = Node ''Meta'' m []) kvs xs"
  proof (induction kvs arbitrary: ts)
    case (Cons kv kvs)
    obtain k v where kv: "kv = (k, v)" by (cases kv)
    from Cons.prems obtain t ts' where t: "body kv = Inr t" "mapE body kvs = Inr ts'" "ts = t # ts'" by auto
    from t(1) obtain f where f: "field_list [(''key'', k), (''value'', v)] = Inr f"
      "t = ''    '' @ ''<'' @ ''Meta'' @ f @ ''/>'' @ newline"
      by (auto simp: body_def kv)
    have len: "9 \<le> length f" using f(1) by (auto simp: field_list_def field_def)
    obtain m where "attrs_of [(''key'', k), (''value'', v)] m" "piece t (Node ''Meta'' m [])"
      unfolding f(2)
      by (rule piece_empty [OF _ f(1), of "''Meta''" "''    ''"]) (use good_keys len in auto)
    then show ?case using Cons.IH [OF t(2)] by (auto simp: kv t(3) list_all2_Cons1)
  qed simp
  with ts(2) show ?thesis using that by blast
qed

lemma read_metadata_pieces:
  assumes "list_all2 (\<lambda>(k, v) x. \<exists>m. attrs_of [(''key'', k), (''value'', v)] m \<and> x = Node ''Meta'' m []) kvs xs"
    "smap_wf kvs"
  shows "read_metadata (Node name m xs) = Inr kvs"
proof -
  have "foldE (meta_step name) xs acc = Inr (acc @ kvs)"
    if "\<forall>k \<in> smap_keys acc. \<forall>k' \<in> smap_keys kvs. k < k'" for acc
    using assms that
  proof (induction kvs xs arbitrary: acc rule: list_all2_induct)
    case (Cons kv kvs x xs)
    obtain k v where kv: "kv = (k, v)" by (cases kv)
    from Cons.hyps(1) obtain m where m: "attrs_of [(''key'', k), (''value'', v)] m" "x = Node ''Meta'' m []"
      by (auto simp: kv)
    have "smap_emplace k v acc = (acc @ [(k, v)], True)"
      using Cons.prems(2) by (intro smap_emplace_last) (simp add: kv)
    then have "meta_step name x acc = Inr (acc @ [(k, v)])"
      using attr_of [OF m(1)] known_of [OF m(1), of "[''key'', ''value'']"]
      by (simp add: meta_step_def m(2))
    then show ?case
      using Cons.IH [of "acc @ [(k, v)]"] Cons.prems by (auto simp: kv)
  qed simp
  from this [of "[]"] show ?thesis by (simp add: read_metadata_def)
qed

section \<open>The whole configuration\<close>

text \<open>
  The maps of a configuration are in key order, as those of the standard library are.  What a file
  gives back of a configuration: lists as above, and the default values of the two members that are
  not written.  \<open>storable\<close> configurations are given back as they are.
\<close>

definition ordered_maps :: "config \<Rightarrow> bool" where
  "ordered_maps c \<longleftrightarrow> smap_wf (cf_settings c) \<and> list_all (\<lambda>s. smap_wf (srv_metadata s)) (cf_servers c) \<and>
     list_all (\<lambda>r. smap_wf (rl_metadata r)) (cf_rules c)"

definition stored_server :: "server \<Rightarrow> server" where
  "stored_server s = s\<lparr>srv_bootstrap := stored_list (srv_bootstrap s), srv_hashes := stored_list (srv_hashes s),
     srv_use_system_bootstrap := False, srv_route := default_route\<rparr>"

definition stored_rule :: "rule \<Rightarrow> rule" where
  "stored_rule r = r\<lparr>rl_patterns := stored_list (rl_patterns r)\<rparr>"

definition stored :: "config \<Rightarrow> config" where
  "stored c = c\<lparr>cf_servers := map stored_server (cf_servers c), cf_rules := map stored_rule (cf_rules c)\<rparr>"

definition storable :: "config \<Rightarrow> bool" where
  "storable c \<longleftrightarrow>
     list_all (\<lambda>s. list_all clean_item (srv_bootstrap s) \<and> list_all clean_item (srv_hashes s) \<and>
       \<not> srv_use_system_bootstrap s \<and> srv_route s = default_route) (cf_servers c) \<and>
     list_all (\<lambda>r. list_all clean_item (rl_patterns r)) (cf_rules c)"

lemma stored_storable: "storable c \<Longrightarrow> stored c = c"
proof -
  assume "storable c"
  then have "map stored_server (cf_servers c) = cf_servers c" "map stored_rule (cf_rules c) = cf_rules c"
    by (auto simp: storable_def list_all_iff stored_server_def stored_rule_def stored_clean intro!: map_idI)
  then show ?thesis by (simp add: stored_def)
qed

lemma flag_of:
  "attrs_of kvs m \<Longrightarrow> map_of kvs k = Some (bool_text b) \<Longrightarrow> flag (Node name m xs) k d = Inr b"
  by (cases b) (simp_all add: flag_def attr_of bool_text_def)

lemma num_of:
  "attrs_of kvs m \<Longrightarrow> map_of kvs k = Some (num_text v) \<Longrightarrow> num (Node name m xs) k d = Inr v"
  by (simp add: num_def attr_of)

lemma read_server_back:
  assumes "attrs_of (server_fields s) m" "read_metadata (Node name m xs) = Inr (srv_metadata s)"
  shows "read_server (Node name m xs) = Inr (stored_server s)"
proof -
  note of = attr_of [OF assms(1)] flag_of [OF assms(1)] num_of [OF assms(1)]
  have "known (Node name m xs) [''id'', ''name'', ''enabled'', ''protocol'', ''ip'', ''port'', ''hostname'',
       ''url'', ''dnssec'', ''timeout'', ''directCertificateFallback'', ''fallbacks'',
       ''bootstrap'', ''hashes'', ''publicKey'', ''provider'', ''relay''] = Inr ()"
    by (rule known_of [OF assms(1)]) (simp add: server_fields_def)
  moreover have "num (Node name m xs) ''id'' 0 = Inr (srv_id s)"
    "flag (Node name m xs) ''enabled'' True = Inr (srv_enabled s)"
    "num (Node name m xs) ''port'' 0 = Inr (ucast (srv_port s))"
    "flag (Node name m xs) ''dnssec'' False = Inr (srv_dnssec_supported s)"
    "num (Node name m xs) ''timeout'' 3000 = Inr (srv_timeout_ms s)"
    "flag (Node name m xs) ''directCertificateFallback'' False = Inr (srv_allow_direct s)"
    by (rule of; simp add: server_fields_def)+
  moreover have "stored_server s = default_server\<lparr>srv_id := srv_id s, srv_name := srv_name s, srv_enabled := srv_enabled s,
       srv_protocol := srv_protocol s, srv_ip := srv_ip s, srv_port := srv_port s,
       srv_hostname := srv_hostname s, srv_url := srv_url s,
       srv_dnssec_supported := srv_dnssec_supported s, srv_timeout_ms := srv_timeout_ms s,
       srv_allow_direct := srv_allow_direct s,
       srv_fallback_ids := srv_fallback_ids s, srv_bootstrap := stored_list (srv_bootstrap s),
       srv_hashes := stored_list (srv_hashes s),
       srv_public_key := srv_public_key s, srv_provider_name := srv_provider_name s,
       srv_relay := srv_relay s, srv_metadata := srv_metadata s\<rparr>"
    by (cases s) (simp add: stored_server_def default_server_def)
  ultimately show ?thesis
    using assms(2) attr_of [OF assms(1)]
    by (simp add: read_server_def server_fields_def del: bindE_Inr_iff)
qed

lemma read_rule_back:
  assumes "attrs_of (rule_fields r) m" "read_metadata (Node name m xs) = Inr (rl_metadata r)"
  shows "read_rule (Node name m xs) = Inr (stored_rule r)"
proof -
  note of = attr_of [OF assms(1)] flag_of [OF assms(1)] num_of [OF assms(1)]
  have "known (Node name m xs) [''id'', ''name'', ''enabled'', ''default'', ''patterns'', ''action'',
       ''server'', ''interface'', ''validate'', ''rejectUnsigned'', ''blockMode''] = Inr ()"
    by (rule known_of [OF assms(1)]) (simp add: rule_fields_def)
  moreover have "num (Node name m xs) ''id'' 0 = Inr (rl_id r)"
    "flag (Node name m xs) ''enabled'' True = Inr (rl_enabled r)"
    "flag (Node name m xs) ''default'' False = Inr (rl_is_default r)"
    "num (Node name m xs) ''server'' 0 = Inr (rl_server_id r)"
    "flag (Node name m xs) ''validate'' False = Inr (rl_dnssec_validate r)"
    "flag (Node name m xs) ''rejectUnsigned'' False = Inr (rl_dnssec_reject_unsigned r)"
    "num (Node name m xs) ''blockMode'' 0 = Inr (rl_block_mode r)"
    by (rule of; simp add: rule_fields_def)+
  ultimately show ?thesis
    using assms(2) attr_of [OF assms(1)]
    by (cases r) (simp add: read_rule_def rule_fields_def stored_rule_def default_rule_def del: bindE_Inr_iff)
qed

lemma read_logging_back:
  assumes "attrs_of (logging_fields l) m"
  shows "read_logging (Node name m xs) = Inr l"
proof -
  note of = attr_of [OF assms(1)] flag_of [OF assms(1)] num_of [OF assms(1)]
  have "known (Node name m xs) [''screen'', ''file'', ''enabled'', ''directory''] = Inr ()"
    by (rule known_of [OF assms(1)]) (simp add: logging_fields_def)
  moreover have "num (Node name m xs) ''screen'' 1 = Inr (lg_screen l)"
    "num (Node name m xs) ''file'' 1 = Inr (lg_file l)"
    "flag (Node name m xs) ''enabled'' True = Inr (lg_file_enabled l)"
    by (rule of; simp add: logging_fields_def)+
  ultimately show ?thesis
    using attr_of [OF assms(1)] by (simp add: read_logging_def logging_fields_def del: bindE_Inr_iff)
qed

lemma meta_heights: "list_all2 (\<lambda>(k, v) x. \<exists>m. attrs_of [(''key'', k), (''value'', v)] m \<and> x = Node ''Meta'' m []) kvs xs
  \<Longrightarrow> foldr (\<lambda>t. max (node_height t)) xs 0 \<le> 1"
  by (induction kvs xs rule: list_all2_induct) auto

lemma server_piece:
  assumes "serialize_server s = Inr t" "smap_wf (srv_metadata s)"
  shows "\<exists>x. piece t x \<and> node_height x \<le> 2 \<and> nd_name x = ''Server'' \<and> read_server x = Inr (stored_server s)"
proof -
  from assms(1) obtain f mt where f: "field_list (server_fields s) = Inr f" "metadata (srv_metadata s) = Inr mt"
    "t = ''  <Server'' @ f @ ''>'' @ newline @ mt @ ''  </Server>'' @ newline"
    by (auto simp: serialize_server_def)
  from metadata_pieces [OF f(2)] obtain ts xs where x: "mt = concat ts" "list_all2 piece ts xs"
    "list_all2 (\<lambda>(k, v) x. \<exists>m. attrs_of [(''key'', k), (''value'', v)] m \<and> x = Node ''Meta'' m []) (srv_metadata s) xs" .
  obtain m where m: "attrs_of (server_fields s) m"
    "piece (''  '' @ ''<'' @ ''Server'' @ f @ ''>'' @ newline @ concat ts @ ''  '' @ ''</'' @ ''Server'' @ ''>'' @ newline)
       (Node ''Server'' m xs)"
    by (rule piece_full [OF _ f(1) good_keys(1,2) _ x(2), of "''Server''" "''  ''"]) (use good_keys in auto)
  have "read_metadata (Node ''Server'' m xs) = Inr (srv_metadata s)"
    by (rule read_metadata_pieces [OF x(3) assms(2)])
  then have "read_server (Node ''Server'' m xs) = Inr (stored_server s)" by (rule read_server_back [OF m(1)])
  then show ?thesis
    using m(2) meta_heights [OF x(3)] by (intro exI [of _ "Node ''Server'' m xs"]) (simp add: f(3) x(1))
qed

lemma rule_piece:
  assumes "serialize_rule r = Inr t" "smap_wf (rl_metadata r)"
  shows "\<exists>x. piece t x \<and> node_height x \<le> 2 \<and> nd_name x = ''Rule'' \<and> read_rule x = Inr (stored_rule r)"
proof -
  from assms(1) obtain f mt where f: "field_list (rule_fields r) = Inr f" "metadata (rl_metadata r) = Inr mt"
    "t = ''  <Rule'' @ f @ ''>'' @ newline @ mt @ ''  </Rule>'' @ newline"
    by (auto simp: serialize_rule_def)
  from metadata_pieces [OF f(2)] obtain ts xs where x: "mt = concat ts" "list_all2 piece ts xs"
    "list_all2 (\<lambda>(k, v) x. \<exists>m. attrs_of [(''key'', k), (''value'', v)] m \<and> x = Node ''Meta'' m []) (rl_metadata r) xs" .
  have len: "2 \<le> length f" using f(1) by (auto simp: field_list_def rule_fields_def field_def)
  obtain m where m: "attrs_of (rule_fields r) m"
    "piece (''  '' @ ''<'' @ ''Rule'' @ f @ ''>'' @ newline @ concat ts @ ''  '' @ ''</'' @ ''Rule'' @ ''>'' @ newline)
       (Node ''Rule'' m xs)"
    by (rule piece_full [OF _ f(1) good_keys(3,4) _ x(2), of "''Rule''" "''  ''"]) (use good_keys len in auto)
  have "read_metadata (Node ''Rule'' m xs) = Inr (rl_metadata r)"
    by (rule read_metadata_pieces [OF x(3) assms(2)])
  then have "read_rule (Node ''Rule'' m xs) = Inr (stored_rule r)" by (rule read_rule_back [OF m(1)])
  then show ?thesis
    using m(2) meta_heights [OF x(3)] by (intro exI [of _ "Node ''Rule'' m xs"]) (simp add: f(3) x(1))
qed

lemma settings_piece:
  assumes "metadata kvs = Inr mt" "smap_wf kvs"
  shows "\<exists>x. piece (''  <Settings>'' @ newline @ mt @ ''  </Settings>'' @ newline) x \<and> node_height x \<le> 2 \<and>
    nd_name x = ''Settings'' \<and> known x [] = Inr () \<and> read_metadata x = Inr kvs"
proof -
  from metadata_pieces [OF assms(1)] obtain ts xs where x: "mt = concat ts" "list_all2 piece ts xs"
    "list_all2 (\<lambda>(k, v) x. \<exists>m. attrs_of [(''key'', k), (''value'', v)] m \<and> x = Node ''Meta'' m []) kvs xs" .
  have f: "field_list [] = Inr []" by (simp add: field_list_def)
  obtain m where m: "attrs_of [] m"
    "piece (''  '' @ ''<'' @ ''Settings'' @ [] @ ''>'' @ newline @ concat ts @ ''  '' @ ''</'' @ ''Settings'' @ ''>'' @ newline)
       (Node ''Settings'' m xs)"
    by (rule piece_full [OF _ f _ _ _ x(2), of "''Settings''" "''  ''"]) (use good_keys in auto)
  have "known (Node ''Settings'' m xs) [] = Inr ()" by (rule known_of [OF m(1)]) simp
  then show ?thesis
    using m(2) meta_heights [OF x(3)] read_metadata_pieces [OF x(3) assms(2)]
    by (intro exI [of _ "Node ''Settings'' m xs"]) (simp add: x(1))
qed

lemma logging_piece:
  assumes "field_list (logging_fields l) = Inr f"
  shows "\<exists>x. piece (''  <Logging'' @ f @ ''/>'' @ newline) x \<and> node_height x \<le> 2 \<and>
    nd_name x = ''Logging'' \<and> nd_children x = [] \<and> read_logging x = Inr l"
proof -
  have len: "8 \<le> length f" using assms by (auto simp: field_list_def logging_fields_def field_def)
  obtain m where m: "attrs_of (logging_fields l) m"
    "piece (''  '' @ ''<'' @ ''Logging'' @ f @ ''/>'' @ newline) (Node ''Logging'' m [])"
    by (rule piece_empty [OF _ assms good_keys(5,6), of "''Logging''" "''  ''"]) (use good_keys len in auto)
  then show ?thesis using read_logging_back [OF m(1)]
    by (intro exI [of _ "Node ''Logging'' m []"]) simp
qed

lemma list_pieces:
  assumes "mapE g vs = Inr ts"
    and "\<And>v t. v \<in> set vs \<Longrightarrow> g v = Inr t \<Longrightarrow> \<exists>x. piece t x \<and> Q v x"
  obtains xs where "list_all2 piece ts xs" "list_all2 Q vs xs"
proof -
  have "\<exists>xs. list_all2 piece ts xs \<and> list_all2 Q vs xs" using assms
  proof (induction vs arbitrary: ts)
    case (Cons v vs)
    from Cons.prems(1) obtain t ts' where t: "g v = Inr t" "mapE g vs = Inr ts'" "ts = t # ts'" by auto
    with Cons.prems(2) obtain x where "piece t x \<and> Q v x" by auto
    moreover obtain xs where "list_all2 piece ts' xs \<and> list_all2 Q vs xs"
      using Cons.IH [OF t(2)] Cons.prems(2) by auto
    ultimately show ?case by (intro exI [of _ "x # xs"]) (simp add: t(3))
  qed simp
  then show ?thesis using that by blast
qed

lemma foldE_servers:
  "list_all2 (\<lambda>s x. nd_name x = ''Server'' \<and> read_server x = Inr s) ss xs \<Longrightarrow>
   foldE child_step xs (c, b1, b2) = Inr (c\<lparr>cf_servers := cf_servers c @ ss\<rparr>, b1, b2)"
  by (induction ss xs arbitrary: c rule: list_all2_induct) (auto simp: child_step_def simp del: bindE_Inr_iff)

lemma foldE_rules:
  "list_all2 (\<lambda>s x. nd_name x = ''Rule'' \<and> read_rule x = Inr s) ss xs \<Longrightarrow>
   foldE child_step xs (c, b1, b2) = Inr (c\<lparr>cf_rules := cf_rules c @ ss\<rparr>, b1, b2)"
  by (induction ss xs arbitrary: c rule: list_all2_induct) (auto simp: child_step_def simp del: bindE_Inr_iff)

lemma skip_until_stop:
  "list_all (\<lambda>c. c \<noteq> t) u \<Longrightarrow> skip_until (t # ts) (u @ t # ts @ r) = Inr r"
  by (induction u) (auto simp: starts_def)

lemma skip_misc_declaration: "skip_misc (xml_declaration @ newline @ CHR ''<'' # CHR ''N'' # r) = Inr (CHR ''<'' # CHR ''N'' # r)"
proof -
  let ?r = "newline @ CHR ''<'' # CHR ''N'' # r"
  let ?u = "''xml version='' @ [CHR 0x22] @ ''1.0'' @ [CHR 0x22] @ '' encoding='' @ [CHR 0x22] @ ''UTF-8'' @ [CHR 0x22]"
  have "skip_until ''?>'' (?u @ CHR ''?'' # ''>'' @ ?r) = Inr ?r" by (rule skip_until_stop) simp
  then have "skip_misc (xml_declaration @ ?r) = skip_misc ?r"
    by (subst skip_misc.simps) (simp add: skip_ws_stop Let_def del: skip_until.simps bindE_Inr_iff)
  also have "\<dots> = Inr (CHR ''<'' # CHR ''N'' # r)"
    by (subst skip_misc.simps) (simp add: skip_ws_stop Let_def)
  finally show ?thesis .
qed

lemma parse_xml_file:
  assumes "renders (CHR ''<'' # CHR ''N'' # t) x" "node_height x \<le> 17"
    and "length (xml_declaration @ newline @ CHR ''<'' # CHR ''N'' # t @ newline) \<le> config_limit"
  shows "parse_xml (xml_declaration @ newline @ CHR ''<'' # CHR ''N'' # t @ newline) = Inr x"
proof -
  let ?text = "xml_declaration @ newline @ CHR ''<'' # CHR ''N'' # t @ newline"
  have "21 * node_count x \<le> length (CHR ''<'' # CHR ''N'' # t)" using assms(1) by (simp add: renders_def)
  then have count: "node_count x \<le> 200000" using assms(3) by (simp add: config_limit_def)
  have "parse_element (2 * length ?text + 1) 0 0 ((CHR ''<'' # CHR ''N'' # t) @ newline) = Inr (x, 0 + node_count x, newline)"
    by (rule renders_parse [OF assms(1)]) (use assms(2) count in simp_all)
  moreover have "skip_misc newline = Inr []"
    by (subst skip_misc.simps) (simp add: skip_ws_def Let_def)
  moreover have "\<not> starts ?text [CHR 0xEF, CHR 0xBB, CHR 0xBF]" by simp
  moreover have "skip_misc ?text = Inr ((CHR ''<'' # CHR ''N'' # t) @ newline)"
    using skip_misc_declaration [of "t @ newline"] by simp
  ultimately show ?thesis
    using assms(3) unfolding parse_xml_def Let_def
    by (simp only: if_False bindE_simps requireE_simps not_le not_less simp_thms prod.case) (simp add: skip_ws_def)
qed

lemma validate_schema: "validate inet c = Inr u \<Longrightarrow> cf_schema_version c = 1"
  by (auto simp: validate_def)

lemma low_trees: "\<forall>z \<in> set zs. node_height z \<le> 2 \<Longrightarrow> node_height (Node name m zs) \<le> 17"
proof -
  assume "\<forall>z \<in> set zs. node_height z \<le> 2"
  then have "foldr (\<lambda>t. max (node_height t)) zs 0 \<le> 2" by (induction zs) auto
  then show ?thesis by simp
qed

lemma number_one: "number ''1'' = Inr 1"
  by (simp add: number_def from_chars_def is_digit_def digits_value_def code_def)

lemma schema_field: "field ''schemaVersion'' ''1'' = Inr ('' schemaVersion='' @ [CHR 0x22] @ ''1'' @ [CHR 0x22])"
proof -
  have "decode_utf8 [ord CHR ''1''] = Inr [0x31]" by code_simp
  then have "widen True ''1'' = Inr [0x31]"
    by (simp add: widen_def text_limit_def utf16_units_def del: decode_utf8.simps bindE_Inr_iff)
  then show ?thesis by (simp add: field_def escape_def escape_char_def code_def del: bindE_Inr_iff)
qed

lemma foldE_children:
  assumes "nd_name xset = ''Settings''" "known xset [] = Inr ()" "read_metadata xset = Inr settings"
    "nd_name xlog = ''Logging''" "nd_children xlog = []" "read_logging xlog = Inr logging"
    "list_all2 (\<lambda>s x. node_height x \<le> 2 \<and> nd_name x = ''Server'' \<and> read_server x = Inr s) servers xs"
    "list_all2 (\<lambda>r x. node_height x \<le> 2 \<and> nd_name x = ''Rule'' \<and> read_rule x = Inr r) rules ys"
  shows "foldE child_step ([xset, xlog] @ xs @ ys) (c, False, False) =
      Inr (c\<lparr>cf_settings := settings, cf_logging := logging, cf_servers := cf_servers c @ servers,
        cf_rules := cf_rules c @ rules\<rparr>, True, True)"
proof -
  have "list_all2 (\<lambda>s x. nd_name x = ''Server'' \<and> read_server x = Inr s) servers xs"
    "list_all2 (\<lambda>r x. nd_name x = ''Rule'' \<and> read_rule x = Inr r) rules ys"
    using assms(7,8) by (auto elim: list_all2_mono)
  then show ?thesis
    using assms(1-6) by (simp add: child_step_def foldE_append foldE_servers foldE_rules del: bindE_Inr_iff)
qed

lemma serialize_config_Inr:
  assumes "serialize_config inet c = Inr text"
  obtains root settings logging servers rules where
    "validate inet c = Inr ()"
    "field_list [(''testTarget'', cf_test_target c), (''testConcurrency'', num_text (cf_test_concurrency c))] = Inr root"
    "metadata (cf_settings c) = Inr settings"
    "field_list (logging_fields (cf_logging c)) = Inr logging"
    "mapE serialize_server (cf_servers c) = Inr servers"
    "mapE serialize_rule (cf_rules c) = Inr rules"
    "length text \<le> config_limit"
    "text = xml_declaration @ newline @ ''<NativeDNS schemaVersion='' @ [CHR 0x22] @ ''1'' @ [CHR 0x22] @ root @ ''>'' @ newline @
       concat ([''  <Settings>'' @ newline @ settings @ ''  </Settings>'' @ newline,
         ''  <Logging'' @ logging @ ''/>'' @ newline] @ servers @ rules) @ ''</NativeDNS>'' @ newline"
proof -
  from assms obtain u root settings logging servers rules where
    *: "validate inet c = Inr u"
    "field_list [(''testTarget'', cf_test_target c), (''testConcurrency'', num_text (cf_test_concurrency c))] = Inr root"
    "metadata (cf_settings c) = Inr settings"
    "field_list (logging_fields (cf_logging c)) = Inr logging"
    "mapE serialize_server (cf_servers c) = Inr servers"
    "mapE serialize_rule (cf_rules c) = Inr rules"
    and rest: "(let result = xml_declaration @ newline @
       ''<NativeDNS schemaVersion='' @ [CHR 0x22] @ ''1'' @ [CHR 0x22] @ root @ ''>'' @ newline @
       ''  <Settings>'' @ newline @ settings @ ''  </Settings>'' @ newline @
       ''  <Logging'' @ logging @ ''/>'' @ newline @
       concat servers @ concat rules @ ''</NativeDNS>'' @ newline in
     bindE (requireE (\<not> length result > config_limit)
              (Error ''CONFIG_LIMIT'' ''Serialized config exceeds 4 MiB'')) (\<lambda>_.
     Inr result)) = Inr text"
    unfolding serialize_config_def by (elim bindE_InrE) (rule that)
  show ?thesis
    using rest by (intro that [OF _ *(2-6)]) (auto simp: *(1) Let_def not_less)
qed

lemma file_roundtrip:
  assumes "serialize_config inet c = Inr text" "ordered_maps c"
  shows "parse_config inet text = bindE (validate inet (stored c)) (\<lambda>_. Inr (stored c))"
proof -
  from serialize_config_Inr [OF assms(1)] obtain root settings logging servers rules where
    valid: "validate inet c = Inr ()" and
    root: "field_list [(''testTarget'', cf_test_target c), (''testConcurrency'', num_text (cf_test_concurrency c))] = Inr root" and
    settings: "metadata (cf_settings c) = Inr settings" and
    logging: "field_list (logging_fields (cf_logging c)) = Inr logging" and
    servers: "mapE serialize_server (cf_servers c) = Inr servers" and
    rules: "mapE serialize_rule (cf_rules c) = Inr rules" and
    limit: "length text \<le> config_limit" and
    result: "text = xml_declaration @ newline @ ''<NativeDNS schemaVersion='' @ [CHR 0x22] @ ''1'' @ [CHR 0x22] @ root @ ''>'' @ newline @
       concat ([''  <Settings>'' @ newline @ settings @ ''  </Settings>'' @ newline,
         ''  <Logging'' @ logging @ ''/>'' @ newline] @ servers @ rules) @ ''</NativeDNS>'' @ newline" .
  obtain xset where xset: "piece (''  <Settings>'' @ newline @ settings @ ''  </Settings>'' @ newline) xset"
    "node_height xset \<le> 2" "nd_name xset = ''Settings''" "known xset [] = Inr ()" "read_metadata xset = Inr (cf_settings c)"
    using settings_piece [OF settings] assms(2) by (auto simp: ordered_maps_def)
  obtain xlog where xlog: "piece (''  <Logging'' @ logging @ ''/>'' @ newline) xlog"
    "node_height xlog \<le> 2" "nd_name xlog = ''Logging''" "nd_children xlog = []" "read_logging xlog = Inr (cf_logging c)"
    using logging_piece [OF logging] by auto
  obtain xs where xs: "list_all2 piece servers xs"
    "list_all2 (\<lambda>s x. node_height x \<le> 2 \<and> nd_name x = ''Server'' \<and> read_server x = Inr s) (map stored_server (cf_servers c)) xs"
    unfolding list_all2_map1
    by (rule list_pieces [OF servers]) (use assms(2) in \<open>auto simp: ordered_maps_def list_all_iff intro: server_piece\<close>)
  obtain ys where ys: "list_all2 piece rules ys"
    "list_all2 (\<lambda>r x. node_height x \<le> 2 \<and> nd_name x = ''Rule'' \<and> read_rule x = Inr r) (map stored_rule (cf_rules c)) ys"
    unfolding list_all2_map1
    by (rule list_pieces [OF rules]) (use assms(2) in \<open>auto simp: ordered_maps_def list_all_iff intro: rule_piece\<close>)
  let ?ts = "[''  <Settings>'' @ newline @ settings @ ''  </Settings>'' @ newline, ''  <Logging'' @ logging @ ''/>'' @ newline]
    @ servers @ rules"
  let ?xs = "[xset, xlog] @ xs @ ys"
  have "list_all2 piece ?ts ?xs" using xset(1) xlog(1) xs(1) ys(1) by (auto intro: list_all2_appendI)
  from pieces [OF this] obtain ts where
    ts: "newline @ concat ?ts = concat ts @ newline" "list_all2 renders ts ?xs" .
  let ?kvs = "[(''schemaVersion'', ''1''), (''testTarget'', cf_test_target c),
    (''testConcurrency'', num_text (cf_test_concurrency c))]"
  let ?f = "'' schemaVersion='' @ [CHR 0x22] @ ''1'' @ [CHR 0x22] @ root"
  have f: "field_list ?kvs = Inr ?f"
    using root schema_field by (auto simp: field_list_def)
  obtain m where m: "attrs_of ?kvs m"
    "renders ([] @ ''<'' @ ''NativeDNS'' @ ?f @ ''>'' @ concat ts @ newline @ ''</'' @ ''NativeDNS'' @ ''>'') (Node ''NativeDNS'' m ?xs)"
    by (rule renders_full [OF _ _ f _ _ ts(2), of "[]" "''NativeDNS''" newline]) (use good_keys in auto)
  let ?root = "Node ''NativeDNS'' m ?xs"
  let ?t = "''ativeDNS'' @ ?f @ ''>'' @ concat ts @ newline @ ''</NativeDNS>''"
  have "text = xml_declaration @ newline @ CHR ''<'' # CHR ''N'' # ?t @ newline"
    using arg_cong [where f = "\<lambda>x. x @ ''</NativeDNS>'' @ newline", OF ts(1)] unfolding result by simp
  moreover have "node_height ?root \<le> 17"
    using xset(2) xlog(2) xs(2) ys(2)
    by (intro low_trees) (auto simp: list_all2_conv_all_nth in_set_conv_nth)
  ultimately have parsed: "parse_xml text = Inr ?root"
    using parse_xml_file [of ?t ?root] m(2) limit by simp
  have known: "known ?root [''schemaVersion'', ''testTarget'', ''testConcurrency''] = Inr ()"
    by (rule known_of [OF m(1)]) simp
  have "num ?root ''schemaVersion'' 0 = Inr 1"
    by (simp add: num_def attr_of [OF m(1)] number_one)
  moreover have "num ?root ''testConcurrency'' 15 = Inr (cf_test_concurrency c)" by (rule num_of [OF m(1)]) simp
  moreover have "attr ?root ''testTarget'' ''iana.org'' = cf_test_target c" by (simp add: attr_of [OF m(1)])
  moreover note foldE_children [OF xset(3-5) xlog(3-5) xs(2) ys(2)]
  moreover have "empty_config\<lparr>cf_schema_version := 1, cf_test_target := cf_test_target c,
      cf_test_concurrency := cf_test_concurrency c, cf_settings := cf_settings c, cf_logging := cf_logging c,
      cf_servers := [] @ map stored_server (cf_servers c), cf_rules := [] @ map stored_rule (cf_rules c)\<rparr> = stored c"
    using validate_schema [OF valid] by (cases c) (simp add: stored_def)
  ultimately show ?thesis
    using known parsed
    by (simp add: parse_config_def config_from_root_def empty_config_def del: bindE_Inr_iff foldE.simps)
qed

lemma config_file_read:
  assumes "serialize_config inet c = Inr text" "ordered_maps c"
  shows "parse_config inet text = bindE (validate inet (stored c)) (\<lambda>_. Inr (stored c)) \<and>
    (storable c \<longrightarrow> parse_config inet text = Inr c)"
proof -
  have "validate inet c = Inr ()" using serialize_config_Inr [OF assms(1)] by metis
  then show ?thesis using file_roundtrip [OF assms] stored_storable [of c] by auto
qed

text \<open>C16: A configuration that is written to XML, its maps in key order, is read back as what
  the format stores of it, if that is valid, and otherwise reading fails with the error of
  the validation: the same configuration, but with every list (patterns, bootstrap servers,
  hashes) split at semicolons without empty items and with default values of the two members
  that are not written; when no item is empty or has a semicolon and those members have
  their defaults, it is the same configuration. This covers escaping, attributes, lists,
  metadata, element nesting and the node and size limits.\<close>

theorem config_file_roundtrip:
  assumes "serialize_config inet c = Inr text" "ordered_maps c"
  shows "parse_config inet text = bindE (validate inet (stored c)) (\<lambda>_. Inr (stored c)) \<and>
    (storable c \<longrightarrow> parse_config inet text = Inr c)"
  by (rule config_file_read [OF assms])

section \<open>Saving\<close>

definition temp_path :: "string \<Rightarrow> 32 word \<Rightarrow> string" where
  "temp_path path r = path @ ''.'' @ num_text r @ ''.tmp''"

lemma temp_path_other [simp]:
  "temp_path path r \<noteq> path" "path \<noteq> temp_path path r" "path @ ''.bak'' \<noteq> temp_path path r"
  "temp_path path r \<noteq> path @ ''.bak''" "path @ ''.bak'' \<noteq> path"
proof -
  have "last (temp_path path r) \<noteq> last (path @ ''.bak'')" by (simp add: temp_path_def)
  then show "path @ ''.bak'' \<noteq> temp_path path r" "temp_path path r \<noteq> path @ ''.bak''" by metis+
qed (simp_all add: temp_path_def)

lemma atomic_publish_file_cases:
  assumes "atomic_publish_file disk temp path backup files = (res, files')"
    "temp \<noteq> path" "backup \<noteq> temp" "backup \<noteq> path"
  shows "(\<forall>p. p \<notin> {path, backup, temp} \<longrightarrow> files' p = files p) \<and>
    (case res of None \<Rightarrow> files' path = files temp \<and> (files path \<noteq> None \<longrightarrow> files' backup = files path)
     | Some e \<Rightarrow> files' path = files path)"
  using assms by (auto simp: atomic_publish_file_def Let_def split: option.splits if_splits)

lemma load_config_parse:
  "files p = Some t \<Longrightarrow> length t \<le> config_limit \<Longrightarrow> load_config inet files p = parse_config inet t"
  by (simp add: load_config_def read_xml_def parse_config_def)

lemma write_config_cases:
  assumes "write_config inet disk data temp path backup files = (res, files')"
    "temp \<noteq> path" "backup \<noteq> temp" "backup \<noteq> path"
  shows "(\<forall>p. p \<notin> {path, backup, temp} \<longrightarrow> files' p = files p) \<and>
    (case res of
       None \<Rightarrow> files' path = Some data \<and> (\<exists>c. load_config inet (files(temp \<mapsto> data)) temp = Inr c) \<and>
         (files path \<noteq> None \<longrightarrow> files' backup = files path)
     | Some e \<Rightarrow> files' path = files path)"
proof (cases "atomic_publish_file disk temp path backup (files(temp \<mapsto> data)) = (res, files') \<and>
    (\<exists>c. load_config inet (files(temp \<mapsto> data)) temp = Inr c)")
  case True
  then have "atomic_publish_file disk temp path backup (files(temp \<mapsto> data)) = (res, files')" by blast
  from atomic_publish_file_cases [OF this assms(2-4)] assms(2) True show ?thesis
    by (auto split: option.splits)
next
  case False
  with assms show ?thesis
    by (auto simp: write_config_def Let_def split: if_splits option.splits sum.splits)
qed

text \<open>C17: Saving either fails and leaves the configuration file as it was, or succeeds, and
  then the file loads as what the format stores of the saved configuration (lists split at
  semicolons, the two unwritten members at their defaults), which is the saved configuration
  itself when no list item is empty or has a semicolon and those members have their
  defaults, with the old contents kept as backup; no other file is touched, wherever the
  system fails.\<close>

theorem save_config_atomic:
  assumes "save_config inet disk r c path files = (res, files')" "ordered_maps c"
  shows "(\<forall>p. p \<notin> {path, path @ ''.bak'', path @ ''.'' @ num_text r @ ''.tmp''} \<longrightarrow> files' p = files p) \<and>
    (case res of
       None \<Rightarrow> load_config inet files' path = Inr (stored c) \<and> (storable c \<longrightarrow> stored c = c) \<and>
         (files path \<noteq> None \<longrightarrow> files' (path @ ''.bak'') = files path)
     | Some e \<Rightarrow> files' path = files path)"
proof (cases "serialize_config inet c")
  case (Inl e)
  then show ?thesis using assms(1) by (auto simp: save_config_def)
next
  case (Inr data)
  obtain w files2 where w: "write_config inet disk data (temp_path path r) path (path @ ''.bak'') files = (w, files2)"
    by (cases "write_config inet disk data (temp_path path r) path (path @ ''.bak'') files")
  have limit: "length data \<le> config_limit" using serialize_config_Inr [OF Inr] by metis
  have loads: "load_config inet f p = bindE (validate inet (stored c)) (\<lambda>_. Inr (stored c))" if "f p = Some data" for f p
    using config_file_read [OF Inr assms(2)] load_config_parse [of f, OF that limit] by simp
  have load: "load_config inet files' path = Inr (stored c)"
    if "files' path = Some data" "\<exists>c. load_config inet (files(temp_path path r \<mapsto> data)) (temp_path path r) = Inr c"
    using loads [of files' path] that loads [of "files(temp_path path r \<mapsto> data)" "temp_path path r"] by auto
  have "res \<noteq> None \<and> files' = files \<or>
      res = w \<and> files' = (if w = None then files2 else files2(temp_path path r := None))"
    using assms(1) Inr w
    by (cases "dk_directories disk"; cases w)
      (auto simp: save_config_def Let_def temp_path_def split: sum.splits if_splits)
  then consider "res \<noteq> None" "files' = files"
    | "res = w" "files' = (if w = None then files2 else files2(temp_path path r := None))" by blast
  then show ?thesis
  proof cases
    case 2
    note save = 2 and kept = write_config_cases [OF w]
    show ?thesis unfolding temp_path_def [symmetric]
    proof (cases w)
      case None
      then have "files' = files2" "res = None" using save by simp_all
      then show "(\<forall>p. p \<notin> {path, path @ ''.bak'', temp_path path r} \<longrightarrow> files' p = files p) \<and>
        (case res of None \<Rightarrow> load_config inet files' path = Inr (stored c) \<and> (storable c \<longrightarrow> stored c = c) \<and> (files path \<noteq> None \<longrightarrow> files' (path @ ''.bak'') = files path)
         | Some e \<Rightarrow> files' path = files path)"
        using kept load stored_storable None by simp
    next
      case (Some e)
      then have "files' = files2(temp_path path r := None)" "res = Some e" using save by simp_all
      then show "(\<forall>p. p \<notin> {path, path @ ''.bak'', temp_path path r} \<longrightarrow> files' p = files p) \<and>
        (case res of None \<Rightarrow> load_config inet files' path = Inr (stored c) \<and> (storable c \<longrightarrow> stored c = c) \<and> (files path \<noteq> None \<longrightarrow> files' (path @ ''.bak'') = files path)
         | Some e \<Rightarrow> files' path = files path)"
        using kept Some by simp
    qed
  qed auto
qed

section \<open>A sample file\<close>

lemma escape_plain:
  assumes "list_all (\<lambda>c. escape_char c = Inr [c] \<and> code c < 128) v" "length v \<le> text_limit"
  shows "escape v = Inr v"
proof -
  have "decode_utf8 (map ord v) = Inr (map (\<lambda>c. ucast (ord c)) v)"
    using assms(1)
  proof (induction v)
    case (Cons c v)
    have "append_utf8 (ucast (ord c)) = [ord c]"
      using Cons.prems by (simp add: append_utf8_def word_le_nat_alt ucast_up_ucast_id is_up)
    moreover have "scalar (ucast (ord c))" using Cons.prems by (simp add: scalar_def word_le_nat_alt word_less_nat_alt)
    ultimately show ?case using decode_append_utf8 [of "ucast (ord c)" "map ord v"] Cons by simp
  qed simp
  moreover have "mapE escape_char v = Inr (map (\<lambda>c. [c]) v)"
    using assms(1) by (intro mapE_Inr_map) (auto simp: list_all_iff)
  ultimately show ?thesis using assms(2) by (simp add: escape_def widen_def)
qed

lemma digits:
  "digit 0 = CHR ''0''" "digit (Suc 0) = CHR ''1''" "digit 1 = CHR ''1''" "digit 2 = CHR ''2''" "digit 3 = CHR ''3''" "digit 4 = CHR ''4''"
  "digit 5 = CHR ''5''" "digit 6 = CHR ''6''" "digit 7 = CHR ''7''" "digit 8 = CHR ''8''" "digit 9 = CHR ''9''"
  by code_simp+

lemma sample_serialized: "\<exists>t. serialize_config sample_inet sample_config = Inr t"
  unfolding serialize_config_def sample_valid bindE_simps
  by (simp add: field_list_def field_def metadata_def serialize_server_def serialize_rule_def
      server_fields_def rule_fields_def logging_fields_def sample_defs bool_text_def protocol_name_def action_name_def
      join_list_def join_ids_def num_text_def to_string.simps digits escape_plain escape_char_def code_def
      text_limit_def config_limit_def del: bindE_Inr_iff)

lemma sample_storable: "storable sample_config" "ordered_maps sample_config"
  by (simp_all add: storable_def ordered_maps_def clean_item_def sample_defs)

theorem config_file_roundtrip_witness:
  "\<exists>t. serialize_config sample_inet sample_config = Inr t \<and> parse_config sample_inet t = Inr sample_config"
  using sample_serialized config_file_roundtrip [OF _ sample_storable(2)] sample_storable(1) by blast

text \<open>
  A name may contain a semicolon, so a valid pattern with one is given back as two patterns.
\<close>

lemma semicolon_splits:
  "stored_list [''a;b'', ''c''] = [''a'', ''b'', ''c'']" "stored_list [''a;'', []] = [''a'']"
  by (simp_all add: stored_list_def split_list.simps)

definition sample_disk :: disk where
  "sample_disk = \<lparr>dk_directories = None, dk_create = True, dk_write = None, dk_copy = None, dk_rename = None\<rparr>"

theorem save_config_atomic_witness:
  "\<exists>fs. save_config sample_inet sample_disk 7 sample_config ''c.xml'' (\<lambda>_. None) = (None, fs) \<and>
     load_config sample_inet fs ''c.xml'' = Inr sample_config"
proof -
  obtain t where t: "serialize_config sample_inet sample_config = Inr t" using sample_serialized by blast
  have "length t \<le> config_limit" using serialize_config_Inr [OF t] by metis
  then have "load_config sample_inet f p = Inr sample_config" if "f p = Some t" for f p
    using config_file_read [OF t sample_storable(2)] sample_storable(1) load_config_parse [of f, OF that] by metis
  then have "\<exists>fs. save_config sample_inet sample_disk 7 sample_config ''c.xml'' (\<lambda>_. None) = (None, fs)"
    using t by (simp add: save_config_def write_config_def atomic_publish_file_def sample_disk_def Let_def)
  then show ?thesis using save_config_atomic [OF _ sample_storable(2)] sample_storable(1) by fastforce
qed

end
