(* ===== verification/Ordered_Map.thy ===== *)
theory Ordered_Map
  imports Main "HOL-Library.AList" "HOL-Library.List_Lexorder" "HOL-Library.Char_ord"
begin

text \<open>
  \<open>std::map\<close> as the list of its entries in the order of the keys: insertion keeps the order,
  \<open>AList.delete\<close> erases, \<open>map_of\<close> finds, and \<open>min_element\<close> walks the entries in order.  The
  answer cache of the router and the suppression table of the logger are such maps.
\<close>

fun put_entry :: "'k::linorder \<Rightarrow> 'v \<Rightarrow> ('k \<times> 'v) list \<Rightarrow> ('k \<times> 'v) list" where
  "put_entry k v [] = [(k, v)]"
| "put_entry k v ((k', v') # m) =
     (if k < k' then (k, v) # (k', v') # m
      else if k = k' then (k, v) # m
      else (k', v') # put_entry k v m)"

text \<open>\<open>std::min_element\<close> with a comparison of a number: the first of the smallest.\<close>

fun min_element :: "('a \<Rightarrow> nat) \<Rightarrow> 'a list \<Rightarrow> 'a option" where
  "min_element f [] = None"
| "min_element f (e # es) =
     (case min_element f es of None \<Rightarrow> Some e | Some m \<Rightarrow> if f m < f e then Some m else Some e)"

lemma min_element_in: "min_element f es = Some e \<Longrightarrow> e \<in> set es"
  by (induction es arbitrary: e) (auto split: option.splits if_splits)

lemma min_element_None: "min_element f es = None \<longleftrightarrow> es = []"
  by (cases es) (auto split: option.splits)

lemma min_element_least: "min_element f es = Some e \<Longrightarrow> x \<in> set es \<Longrightarrow> f e \<le> f x"
proof (induction es arbitrary: e)
  case (Cons a es)
  then show ?case
  proof (cases "min_element f es")
    case (Some m)
    with Cons.prems Cons.IH [OF Some] show ?thesis by (auto split: if_splits)
  qed (auto simp: min_element_None)
qed simp

lemma sorted_keys_distinct:
  "sorted_wrt (<) (map fst (es :: ('k::linorder \<times> 'v) list)) \<Longrightarrow> distinct (map fst es)"
  by (simp add: strict_sorted_iff)

lemma sorted_delete: "sorted_wrt (<) (map fst es) \<Longrightarrow> sorted_wrt (<) (map fst (AList.delete k es))"
  by (simp add: AList.delete_eq sorted_wrt_map sorted_wrt_filter)

lemma put_entry_keys: "fst ` set (put_entry k v es) = insert k (fst ` set es)"
  by (induction k v es rule: put_entry.induct) auto

lemma put_entry_sorted: "sorted_wrt (<) (map fst es) \<Longrightarrow> sorted_wrt (<) (map fst (put_entry k v es))"
proof (induction k v es rule: put_entry.induct)
  case (2 k v k' v' m)
  then show ?case using put_entry_keys [of k v m] by (auto simp: image_def)
qed simp

lemma put_entry_lookup:
  "sorted_wrt (<) (map fst es) \<Longrightarrow> map_of (put_entry k v es) = (map_of es)(k \<mapsto> v)"
  by (induction es) (auto simp: fun_eq_iff)

lemma put_entry_length:
  assumes "sorted_wrt (<) (map fst es)"
  shows "length (put_entry k v es) = (if k \<in> fst ` set es then length es else length es + 1)"
  using assms
proof (induction k v es rule: put_entry.induct)
  case (2 k v k' v' m)
  then show ?case by force
qed simp

end
