(* ===== verification/Router.thy ===== *)
theory Router
  imports Rules Ordered_Map Complex_Main
begin

text \<open>
  The router of \<open>src/router.cpp\<close>: log texts, the fallback groups with their health records,
  the answer cache with the queries in flight, and the routing of one query.  The members of
  \<open>Snapshot\<close> that change under its mutexes are \<open>record shared\<close>; each critical section is one
  function on it.  What the outside does is \<open>record upstream\<close>: what an exchange that starts at
  a time returns and when, what a coalesced query gets, whether requests are cancelled, and how
  durations are printed.  Time is the steady clock in nanoseconds; it passes in exchanges and
  waits only.  The latency average is exact (\<open>rat\<close>) where the code rounds doubles.
\<close>

section \<open>Log texts\<close>

definition protocol_log_suffix :: "protocol \<Rightarrow> string" where
  "protocol_log_suffix protocol =
     (case protocol of
        udp \<Rightarrow> '' (UDP) (DNS over UDP)'' | tcp \<Rightarrow> '' (TCP) (DNS over TCP)''
      | doh \<Rightarrow> '' (DoH) (DNS over HTTPS)'' | dot \<Rightarrow> '' (DoT) (DNS over TLS)''
      | doh3 \<Rightarrow> '' (DoH3) (DNS over HTTPS/3)'' | doq \<Rightarrow> '' (DoQ) (DNS over QUIC)''
      | dnscrypt \<Rightarrow> '' (DNSCrypt)'' | anonymized_dnscrypt \<Rightarrow> '' (Anonymized DNSCrypt)'')"

text \<open>\<open>elapsed\<close> is the duration in milliseconds, already printed with two decimals.\<close>

definition route_log_message :: "question \<Rightarrow> rule \<Rightarrow> server option \<Rightarrow> string option \<Rightarrow> string" where
  "route_log_message question rule server elapsed =
     q_name question @ '' ['' @ dns_type_name (q_type question) @ ''] - '' @
     action_name (rl_action rule) @ '' : '' @
     (case server of None \<Rightarrow> []
      | Some s \<Rightarrow>
          ''server='' @
          (if rl_server_id rule \<noteq> 0 \<and> srv_name s \<noteq> [] then srv_name s
           else if srv_ip s \<noteq> [] then srv_ip s else srv_name s) @
          protocol_log_suffix (srv_protocol s) @ '', '') @
     ''rule='' @ rl_name rule @
     (case elapsed of None \<Rightarrow> [] | Some ms \<Rightarrow> '', time='' @ ms @ '' ms'') @
     (case server of None \<Rightarrow> []
      | Some s \<Rightarrow>
          '', endpoint='' @
          (if srv_ip s \<noteq> [] then srv_ip s
           else if srv_hostname s \<noteq> [] then srv_hostname s else srv_url s) @
          '' port='' @ to_string (unat (srv_port s)) @ '' interface='' @
          (if nr_interface_id (srv_route s) = [] then ''automatic'' else nr_interface_id (srv_route s)) @
          '' generation='' @ to_string (unat (nr_generation (srv_route s))))"

section \<open>State and environment\<close>

definition seconds :: "nat \<Rightarrow> nat" where
  "seconds n = n * 1000000000"

definition milliseconds :: "nat \<Rightarrow> nat" where
  "milliseconds n = n * 1000000"

record health =
  hl_failures :: "32 word"
  hl_retry_after :: nat
  hl_latency :: "rat option"

definition no_health :: health where
  "no_health = \<lparr>hl_failures = 0, hl_retry_after = 0, hl_latency = None\<rparr>"

record cache_entry =
  ce_packet :: packet
  ce_stored :: nat
  ce_expires :: nat
  ce_used_server_id :: "32 word"

record pending =
  pd_done :: bool
  pd_packet :: packet
  pd_used_server_id :: "32 word"
  pd_error_code :: string
  pd_error_message :: string

definition no_pending :: pending where
  "no_pending = \<lparr>pd_done = False, pd_packet = [], pd_used_server_id = 0, pd_error_code = [],
     pd_error_message = []\<rparr>"

text \<open>
  The maps are association lists with distinct keys, \<open>sh_cache\<close> in key order.  \<open>sh_slots\<close> are
  the \<open>Pending\<close> objects that were made so far; \<open>sh_pending\<close> points into it.
\<close>

record shared =
  sh_health :: "(string \<times> health) list"
  sh_cache :: "(string \<times> cache_entry) list"
  sh_bytes :: nat
  sh_pending :: "(string \<times> nat) list"
  sh_slots :: "pending list"

definition no_shared :: shared where
  "no_shared = \<lparr>sh_health = [], sh_cache = [], sh_bytes = 0, sh_pending = [], sh_slots = []\<rparr>"

datatype log_call =
  Log_write (lc_level: level) (lc_code: string) (lc_message: string)
| Log_limited (lc_level: level) (lc_key: string) (lc_code: string) (lc_message: string)

record upstream =
  up_exchange :: "nat \<Rightarrow> packet \<Rightarrow> server \<Rightarrow> (error + packet) \<times> nat"
  up_wait :: "nat \<Rightarrow> nat \<Rightarrow> shared \<Rightarrow> (error + shared) \<times> nat"
  up_cancelled :: "nat \<Rightarrow> bool"
  up_elapsed :: "nat \<Rightarrow> string"
  up_enabled :: "level \<Rightarrow> bool"
  up_format :: "packet \<Rightarrow> bool \<Rightarrow> error + string"

definition cancelled :: error where
  "cancelled = Error ''CANCELLED'' ''DNS operation cancelled during shutdown''"

text \<open>\<open>Router::exchange\<close>: the transport of the protocol is made on first use.\<close>

definition exchange :: "upstream \<Rightarrow> nat \<Rightarrow> packet \<Rightarrow> server \<Rightarrow> (error + packet) \<times> nat" where
  "exchange up now request server =
     (if up_cancelled up now then (Inl cancelled, now) else up_exchange up now request server)"

section \<open>Fallback groups\<close>

text \<open>
  The recursive lambda \<open>append\<close>; the state is \<open>(added, candidates)\<close>.  The first argument
  bounds the depth; \<open>append_server_reachable\<close> in \<open>Router_Facts\<close> shows that the number of
  servers plus two is enough.
\<close>

fun append_server ::
  "nat \<Rightarrow> server list \<Rightarrow> server \<Rightarrow> 32 word set \<times> server list \<Rightarrow> 32 word set \<times> server list" where
  "append_server 0 servers server s = s"
| "append_server (Suc n) servers server s =
     (let (added, candidates) = s in
      if srv_id server \<in> added then s
      else
        fold (\<lambda>i s. case find (\<lambda>v. srv_id v = i) servers of
                      Some v \<Rightarrow> append_server n servers v s | None \<Rightarrow> s)
          (srv_fallback_ids server) (insert (srv_id server) added, candidates @ [server]))"

definition group_candidates :: "config \<Rightarrow> server \<Rightarrow> server list" where
  "group_candidates config primary =
     filter srv_enabled
       (snd (append_server (length (cf_servers config) + 2) (cf_servers config) primary ({}, [])))"

definition group_budget :: "server list \<Rightarrow> nat" where
  "group_budget candidates =
     foldl (\<lambda>budget s. min 120000 (budget + unat (srv_timeout_ms s))) 0 candidates"

definition health_key :: "server \<Rightarrow> server \<Rightarrow> string" where
  "health_key primary server =
     to_string (unat (srv_id server)) @ ''|'' @ network_route_key (srv_route primary)"

definition health_of :: "(string \<times> health) list \<Rightarrow> string \<Rightarrow> health" where
  "health_of healths key = (case map_of healths key of Some h \<Rightarrow> h | None \<Rightarrow> no_health)"

text \<open>The first critical section: the records of the candidates exist afterwards.\<close>

definition enter_health :: "server \<Rightarrow> server list \<Rightarrow> (string \<times> health) list \<Rightarrow> (string \<times> health) list" where
  "enter_health primary candidates healths =
     fold (\<lambda>c hs. if map_of hs (health_key primary c) = None
                    then AList.update (health_key primary c) no_health hs else hs)
       candidates (if length healths + length candidates > 8192 then [] else healths)"

text \<open>The comparison of \<open>std::stable_sort\<close>: \<open>a\<close> before \<open>b\<close>.\<close>

definition health_less :: "nat \<Rightarrow> bool \<Rightarrow> health \<Rightarrow> health \<Rightarrow> bool" where
  "health_less now any_ready a b =
     (let a_open = any_ready \<and> hl_retry_after a > now;
          b_open = any_ready \<and> hl_retry_after b > now;
          a_probe = hl_failures a \<ge> 2 \<and> hl_retry_after a \<le> now;
          b_probe = hl_failures b \<ge> 2 \<and> hl_retry_after b \<le> now in
      if a_open \<noteq> b_open then \<not> a_open
      else if a_probe \<noteq> b_probe then a_probe
      else case (hl_latency a, hl_latency b) of (Some x, Some y) \<Rightarrow> x < y | _ \<Rightarrow> False)"

text \<open>
  The sort, by insertion.  When the comparison is a strict weak order, every stable sort has
  this result; \<open>health_less_not_weak\<close> in \<open>Router_Facts\<close> shows that it need not be one.
\<close>

fun insert_back :: "('a \<Rightarrow> 'a \<Rightarrow> bool) \<Rightarrow> 'a \<Rightarrow> 'a list \<Rightarrow> 'a list" where
  "insert_back lt x [] = [x]"
| "insert_back lt x (y # ys) = (if lt x y then y # insert_back lt x ys else x # y # ys)"

definition stable_sort :: "('a \<Rightarrow> 'a \<Rightarrow> bool) \<Rightarrow> 'a list \<Rightarrow> 'a list" where
  "stable_sort lt xs = rev (fold (insert_back lt) xs [])"

definition order_candidates :: "nat \<Rightarrow> server \<Rightarrow> (string \<times> health) list \<Rightarrow> server list \<Rightarrow> server list" where
  "order_candidates now primary healths candidates =
     (let h = (\<lambda>s. health_of healths (health_key primary s));
          any_ready = (\<exists>s \<in> set candidates. hl_retry_after (h s) \<le> now) in
      stable_sort (\<lambda>a b. health_less now any_ready (h a) (h b)) candidates)"

definition record_success :: "nat \<Rightarrow> nat \<Rightarrow> health \<Rightarrow> health" where
  "record_success started ended h =
     (let elapsed = (of_nat (ended - started) :: rat) / 1000000 in
      h\<lparr>hl_failures := 0, hl_retry_after := 0,
        hl_latency := Some (case hl_latency h of Some l \<Rightarrow> l * 8 / 10 + elapsed * 2 / 10 | None \<Rightarrow> elapsed)\<rparr>)"

definition record_failure :: "nat \<Rightarrow> health \<Rightarrow> health" where
  "record_failure now h =
     (let failures = hl_failures h + 1; h = h\<lparr>hl_failures := failures\<rparr> in
      if failures \<ge> 2
      then h\<lparr>hl_retry_after := now + seconds (30 * 2 ^ unat (min (failures - 2) 3))\<rparr> else h)"

text \<open>The candidate with the route of the primary server and what is left of the budget.\<close>

definition attempt_server :: "nat \<Rightarrow> nat \<Rightarrow> server \<Rightarrow> server \<Rightarrow> server" where
  "attempt_server now deadline primary candidate =
     candidate\<lparr>srv_route := srv_route primary,
       srv_timeout_ms := of_nat (min (unat (srv_timeout_ms candidate))
         (max 1 ((deadline - now) div 1000000)))\<rparr>"

definition failure_text :: "server \<Rightarrow> server \<Rightarrow> error \<Rightarrow> string" where
  "failure_text candidate attempt e =
     ''server='' @ srv_name candidate @ '' protocol='' @ protocol_name (srv_protocol candidate) @
     '' context='' @ network_route_key (srv_route attempt) @ '' error='' @ err_msg e"

definition failover_log :: "upstream \<Rightarrow> server \<Rightarrow> server \<Rightarrow> error \<Rightarrow> 32 word \<Rightarrow> log_call list" where
  "failover_log up primary candidate e failures =
     (if up_enabled up verbose then
        [Log_limited verbose (''fallback|'' @ health_key primary candidate @ ''|'' @ err_code e)
           ''UPSTREAM_FAILOVER''
           (''server='' @ srv_name candidate @ '' failure='' @ err_code e @ '' consecutive='' @
            to_string (unat failures))]
      else [])"

text \<open>
  The loop over the candidates: \<open>all\<close> are all of them, \<open>prev\<close> the code and message of the last
  failure.  The result has the health records, the time and the log calls.
\<close>

fun attempt_loop ::
  "upstream \<Rightarrow> packet \<Rightarrow> server \<Rightarrow> nat \<Rightarrow> server list \<Rightarrow> server list \<Rightarrow> nat \<Rightarrow> error \<Rightarrow>
   (string \<times> health) list \<Rightarrow>
   (error + packet \<times> server) \<times> (string \<times> health) list \<times> nat \<times> log_call list" where
  "attempt_loop up request primary deadline all [] now prev hs =
     (Inl (Error (err_code prev) (''Fallback group exhausted: '' @ err_msg prev)), hs, now, [])"
| "attempt_loop up request primary deadline all (candidate # rest) now prev hs =
     (if now \<ge> deadline then
        (Inl (Error (err_code prev) (''Fallback group exhausted: '' @ err_msg prev)), hs, now, [])
      else
        let key = health_key primary candidate;
            another_ready = (\<exists>s \<in> set all. s \<noteq> candidate \<and>
              hl_retry_after (health_of hs (health_key primary s)) \<le> now) in
        if hl_retry_after (health_of hs key) > now \<and> another_ready then
          attempt_loop up request primary deadline all rest now prev hs
        else
          let attempt = attempt_server now deadline primary candidate in
          case exchange up now request attempt of
            (Inr packet, ended) \<Rightarrow>
              (Inr (packet, candidate),
               AList.update key (record_success now ended (health_of hs key)) hs, ended, [])
          | (Inl e, ended) \<Rightarrow>
              if err_code e = ''CANCELLED'' then (Inl e, hs, ended, [])
              else
                let h = record_failure ended (health_of hs key);
                    (r, hs, now, logs) =
                      attempt_loop up request primary deadline all rest ended
                        (Error (err_code e) (failure_text candidate attempt e))
                        (AList.update key h hs) in
                (r, hs, now, failover_log up primary candidate e (hl_failures h) @ logs))"

definition exchange_group ::
  "upstream \<Rightarrow> config \<Rightarrow> nat \<Rightarrow> packet \<Rightarrow> server \<Rightarrow> (string \<times> health) list \<Rightarrow>
   (error + packet \<times> server) \<times> (string \<times> health) list \<times> nat \<times> log_call list" where
  "exchange_group up config now request primary hs =
     (if srv_id primary = 0 \<or> srv_fallback_ids primary = [] then
        (case exchange up now request primary of
           (Inr packet, ended) \<Rightarrow> (Inr (packet, primary), hs, ended, [])
         | (Inl e, ended) \<Rightarrow> (Inl e, hs, ended, []))
      else
        let candidates = group_candidates config primary in
        if candidates = [] then
          (Inl (Error ''SERVER_DISABLED'' ''All servers in fallback group are disabled''), hs, now, [])
        else
          let deadline = now + milliseconds (group_budget candidates);
              hs = enter_health primary candidates hs;
              candidates = order_candidates now primary hs candidates in
          attempt_loop up request primary deadline candidates candidates now
            (Error ''UPSTREAM_UNAVAILABLE'' ''No upstream attempt completed'') hs)"

section \<open>The cache\<close>

definition protocol_index :: "protocol \<Rightarrow> nat" where
  "protocol_index p =
     (case p of udp \<Rightarrow> 0 | tcp \<Rightarrow> 1 | doh \<Rightarrow> 2 | dot \<Rightarrow> 3 | doh3 \<Rightarrow> 4 | doq \<Rightarrow> 5
      | dnscrypt \<Rightarrow> 6 | anonymized_dnscrypt \<Rightarrow> 7)"

definition cache_key :: "packet \<Rightarrow> server \<Rightarrow> bool \<Rightarrow> string" where
  "cache_key request primary configured =
     (if configured then ''configured:'' else ''original:'') @
     to_string (if configured then unat (srv_id primary) else protocol_index (srv_protocol primary)) @
     ''|'' @ network_route_key (srv_route primary) @ ''|'' @
     (if \<not> configured then srv_ip primary @ ''|'' @ to_string (unat (srv_port primary)) @ ''|'' else []) @
     [CHR 0x00, CHR 0x00] @ map chr (drop 2 request)"

definition entry_bytes :: "string \<times> cache_entry \<Rightarrow> nat" where
  "entry_bytes e = length (ce_packet (snd e)) + length (fst e)"

text \<open>The loop that removes expired entries, with the byte counter.\<close>

fun expire_loop :: "nat \<Rightarrow> (string \<times> cache_entry) list \<Rightarrow> nat \<Rightarrow> (string \<times> cache_entry) list \<times> nat" where
  "expire_loop now [] bytes = ([], bytes)"
| "expire_loop now (e # es) bytes =
     (if ce_expires (snd e) \<le> now then expire_loop now es (bytes - entry_bytes e)
      else let (es, bytes) = expire_loop now es bytes in (e # es, bytes))"

datatype looked_up =
  Served "error + packet \<times> 32 word"
| Follow nat
| Lead nat

text \<open>
  The first critical section of \<open>exchange_cached\<close>: the answer from the cache, the object of a
  query in flight, or a new one this caller is the leader of.
\<close>

definition look_up :: "nat \<Rightarrow> string \<Rightarrow> 16 word \<Rightarrow> shared \<Rightarrow> looked_up \<times> shared" where
  "look_up now key transaction_id s =
     (let (cache, bytes) = expire_loop now (sh_cache s) (sh_bytes s);
          s = s\<lparr>sh_cache := cache, sh_bytes := bytes\<rparr> in
      case map_of (sh_cache s) key of
        Some entry \<Rightarrow>
          (Served (bindE (age_dns_response (ce_packet entry) transaction_id
                            (of_nat ((now - ce_stored entry) div 1000000000)))
                    (\<lambda>p. Inr (p, ce_used_server_id entry))), s)
      | None \<Rightarrow>
          (case map_of (sh_pending s) key of
             Some slot \<Rightarrow> (Follow slot, s)
           | None \<Rightarrow>
               if length (sh_pending s) \<ge> 256 then
                 (Served (Inl (Error ''UPSTREAM_BUSY'' ''Too many distinct DNS queries in flight'')), s)
               else
                 (Lead (length (sh_slots s)),
                  s\<lparr>sh_pending := (key, length (sh_slots s)) # sh_pending s,
                    sh_slots := sh_slots s @ [no_pending]\<rparr>)))"

text \<open>What a follower returns when its object is done.\<close>

definition follow :: "16 word \<Rightarrow> pending \<Rightarrow> error + packet \<times> 32 word" where
  "follow transaction_id p =
     (if pd_error_code p \<noteq> [] then Inl (Error (pd_error_code p) (pd_error_message p))
      else bindE (age_dns_response (pd_packet p) transaction_id 0) (\<lambda>r. Inr (r, pd_used_server_id p)))"

definition max_cache_bytes :: nat where
  "max_cache_bytes = 32 * 1024 * 1024"

text \<open>\<open>std::min_element\<close> by the time of expiry: the first of the smallest.\<close>

definition oldest_entry :: "(string \<times> cache_entry) list \<Rightarrow> (string \<times> cache_entry) option" where
  "oldest_entry es = min_element (\<lambda>e. ce_expires (snd e)) es"

lemma oldest_entry_in: "oldest_entry es = Some e \<Longrightarrow> e \<in> set es"
  by (simp add: oldest_entry_def min_element_in)

function evict_loop ::
  "nat \<Rightarrow> (string \<times> cache_entry) list \<Rightarrow> nat \<Rightarrow> (string \<times> cache_entry) list \<times> nat" where
  "evict_loop needed cache bytes =
     (if length cache \<ge> 4096 \<or> bytes + needed > max_cache_bytes then
        (case oldest_entry cache of
           None \<Rightarrow> (cache, bytes)
         | Some e \<Rightarrow> evict_loop needed (AList.delete (fst e) cache) (bytes - entry_bytes e))
      else (cache, bytes))"
  by pat_completeness auto
termination
proof (relation "measure (\<lambda>(n, cache, b). length cache)", simp, goal_cases)
  case (1 needed cache bytes e)
  from 1(2) have "e \<in> set cache" by (rule oldest_entry_in)
  then have "length (AList.delete (fst e) cache) < length cache"
    unfolding AList.delete_eq by (induction cache) (auto simp: less_Suc_eq_le length_filter_le)
  then show ?case by simp
qed

declare evict_loop.simps [simp del]

definition store_answer :: "nat \<Rightarrow> string \<Rightarrow> packet \<Rightarrow> 32 word \<Rightarrow> 32 word \<Rightarrow> shared \<Rightarrow> shared" where
  "store_answer now key packet used_id cache_ttl s =
     (let needed = length packet + length key;
          (cache, bytes) = evict_loop needed (sh_cache s) (sh_bytes s);
          ttl = min cache_ttl 86400;
          entry = \<lparr>ce_packet = packet, ce_stored = now, ce_expires = now + seconds (unat ttl),
            ce_used_server_id = used_id\<rparr> in
      s\<lparr>sh_cache := put_entry key entry cache, sh_bytes := bytes + needed\<rparr>)"

text \<open>The critical section of a leader that has an answer, and of one that has failed.\<close>

definition publish ::
  "nat \<Rightarrow> string \<Rightarrow> nat \<Rightarrow> packet \<Rightarrow> dns_answer \<Rightarrow> 32 word \<Rightarrow> shared \<Rightarrow> shared" where
  "publish now key slot packet parsed used_id s =
     (let s = (if an_cacheable parsed
               then store_answer now key packet used_id (an_cache_ttl parsed) s else s) in
      s\<lparr>sh_slots := (sh_slots s)[slot := (sh_slots s ! slot)\<lparr>pd_packet := packet,
          pd_used_server_id := used_id, pd_done := True\<rparr>],
        sh_pending := AList.delete key (sh_pending s)\<rparr>)"

definition publish_failure :: "string \<Rightarrow> nat \<Rightarrow> error \<Rightarrow> shared \<Rightarrow> shared" where
  "publish_failure key slot e s =
     s\<lparr>sh_slots := (sh_slots s)[slot := (sh_slots s ! slot)\<lparr>pd_error_code := err_code e,
         pd_error_message := err_msg e, pd_done := True\<rparr>],
       sh_pending := AList.delete key (sh_pending s)\<rparr>"

text \<open>
  \<open>exchange_cached\<close> of one caller.  While it waits for another caller, \<open>up_wait\<close> gives the
  state in which the object is done, or the error of a deadline or cancellation.
\<close>

definition lead_query ::
  "upstream \<Rightarrow> config \<Rightarrow> run_options \<Rightarrow> nat \<Rightarrow> packet \<Rightarrow> server \<Rightarrow> bool \<Rightarrow> string \<Rightarrow> nat \<Rightarrow> shared \<Rightarrow>
   (error + packet \<times> 32 word) \<times> shared \<times> nat \<times> log_call list" where
  "lead_query up config options now request primary configured key slot s =
     (let (r, hs, now, logs) = exchange_group up config now request primary (sh_health s);
          s = s\<lparr>sh_health := hs\<rparr>;
          r = bindE r (\<lambda>(packet, server).
              bindE (clamp_dns_ttl (up_format up) packet (ro_ttl_min options) (ro_ttl_max options)) (\<lambda>packet.
              bindE (parse_question request) (\<lambda>question.
              bindE (parse_response (up_format up) packet question) (\<lambda>parsed.
              Inr (packet, parsed, if configured then srv_id server else 0))))) in
      case r of
        Inr (packet, parsed, used_id) \<Rightarrow>
          (Inr (packet, used_id), publish now key slot packet parsed used_id s, now, logs)
      | Inl e \<Rightarrow> (Inl e, publish_failure key slot e s, now, logs))"

definition exchange_cached ::
  "upstream \<Rightarrow> config \<Rightarrow> run_options \<Rightarrow> nat \<Rightarrow> packet \<Rightarrow> server \<Rightarrow> bool \<Rightarrow> shared \<Rightarrow>
   (error + packet \<times> 32 word) \<times> shared \<times> nat \<times> log_call list" where
  "exchange_cached up config options now request primary configured s =
     (if length request < 2 then (Inl (malformed ''DNS request is too short''), s, now, [])
      else
        let key = cache_key request primary configured;
            transaction_id = push_bit 8 (ucast (request ! 0)) OR ucast (request ! 1) in
        case look_up now key transaction_id s of
          (Served r, s) \<Rightarrow>
            (r, s, now, if map_of (sh_cache s) key \<noteq> None \<and> up_enabled up debug
                        then [Log_write debug ''DNS_CACHE_HIT'' (''server='' @ srv_name primary)] else [])
        | (Follow slot, s) \<Rightarrow>
            let logs = (if up_enabled up debug
                        then [Log_write debug ''DNS_COALESCED'' (''server='' @ srv_name primary)] else []) in
            (case up_wait up now slot s of
               (Inl e, ended) \<Rightarrow> (Inl e, s, ended, logs)
             | (Inr s, ended) \<Rightarrow> (follow transaction_id (sh_slots s ! slot), s, ended, logs))
        | (Lead slot, s) \<Rightarrow> lead_query up config options now request primary configured key slot s)"

section \<open>Routing a query\<close>

datatype disposition = Reply | Forward_original | Drop_silently

record route_result =
  rr_disposition :: disposition
  rr_packet :: packet
  rr_rule_id :: "32 word"
  rr_server_id :: "32 word"
  rr_action :: action
  rr_error_code :: string
  rr_message :: string

definition no_result :: route_result where
  "no_result = \<lparr>rr_disposition = Reply, rr_packet = [], rr_rule_id = 0, rr_server_id = 0,
     rr_action = Action_process, rr_error_code = [], rr_message = []\<rparr>"

text \<open>The lambda \<open>log\<close>: errors are limited per upstream.\<close>

definition route_log :: "string \<Rightarrow> server option \<Rightarrow> level \<Rightarrow> string \<Rightarrow> string \<Rightarrow> log_call" where
  "route_log rule_name selected lvl err message =
     (if lvl = errors_only then
        Log_limited lvl
          (err @ ''|'' @ rule_name @ ''|'' @
           (case selected of
              Some s \<Rightarrow> to_string (unat (srv_id s)) @ ''|'' @ protocol_name (srv_protocol s) @ ''|'' @
                srv_ip s @ ''|'' @ srv_hostname s @ ''|'' @ srv_url s @ ''|'' @
                to_string (unat (srv_port s)) @ ''|'' @ network_route_key (srv_route s)
            | None \<Rightarrow> ''no-upstream'')) err message
      else Log_write lvl err message)"

text \<open>The \<open>catch\<close> blocks: an error response, or silence when there is no valid question.\<close>

definition route_failed :: "packet \<Rightarrow> bool \<Rightarrow> error \<Rightarrow> route_result \<Rightarrow> error + route_result" where
  "route_failed request valid_question e result =
     (let result = result\<lparr>rr_error_code := err_code e, rr_message := err_msg e\<rparr> in
      if valid_question
      then bindE (make_error_response request 2) (\<lambda>p. Inr (result\<lparr>rr_packet := p\<rparr>))
      else Inr (result\<lparr>rr_disposition := Drop_silently\<rparr>))"

text \<open>The server of the rule, with the route of the decision and the network generation.\<close>

definition routed_server ::
  "config \<Rightarrow> 64 word \<Rightarrow> server \<Rightarrow> rule \<Rightarrow> rule_decision \<Rightarrow> server option \<times> (error + server)" where
  "routed_server config generation original rule decision =
     (let found = (if rl_server_id rule \<noteq> 0
                   then find (\<lambda>s. srv_id s = rl_server_id rule) (cf_servers config) else Some original) in
      case found of
        None \<Rightarrow> (None, Inl (Error ''SERVER_REFERENCE'' ''Missing selected server''))
      | Some server \<Rightarrow>
          if nr_interface_id (rd_route decision) \<noteq> [] then
            let server = server\<lparr>srv_route := rd_route decision\<rparr> in
            if rl_server_id rule = 0 then
              (case rd_interface_dns decision of
                 [] \<Rightarrow> (Some server, Inl (Error ''INTERFACE_DNS'' ''Selected interface has no DNS resolver''))
               | dns # _ \<Rightarrow>
                   let server = server\<lparr>srv_ip := dns, srv_port := 53\<rparr> in
                   (Some server, Inr (with_network_context generation server)))
            else (Some server, Inr (with_network_context generation server))
          else (Some server, Inr (with_network_context generation server)))"

text \<open>What is done with the answer, after \<open>exchange_cached\<close>.\<close>

definition finish_route ::
  "upstream \<Rightarrow> config \<Rightarrow> question \<Rightarrow> rule \<Rightarrow> server \<Rightarrow> nat \<Rightarrow> packet \<Rightarrow> 32 word \<Rightarrow> route_result \<Rightarrow>
   server \<times> route_result \<times> (error + log_call list \<times> route_result)" where
  "finish_route up config question rule server elapsed packet used_id result =
     (let result = result\<lparr>rr_packet := packet, rr_server_id := used_id\<rparr>;
          server =
            (if used_id \<noteq> 0 then
               (case find (\<lambda>s. srv_id s = used_id) (cf_servers config) of
                  Some used \<Rightarrow> used\<lparr>srv_route := srv_route server\<rparr> | None \<Rightarrow> server)
             else server);
          log = route_log (rl_name rule) (Some server);
          line = route_log_message question rule (Some server) (Some (up_elapsed up elapsed)) in
      (server, result,
       bindE (parse_response (up_format up) packet question) (\<lambda>parsed.
       if an_rcode parsed \<noteq> 0 then
         let message = ''Upstream returned RCODE '' @ to_string (unat (an_rcode parsed)) in
         Inr ([log errors_only ''DNS_RCODE'' (line @ '', error='' @ message)],
              result\<lparr>rr_error_code := ''DNS_RCODE'', rr_message := message\<rparr>)
       else
         Inr ((if up_enabled up normal then [log normal ''DNS_ROUTE'' line] else []) @
              (if up_enabled up debug
               then [log debug ''DNS_REPLY_DETAIL''
                       (q_name question @ '' bytes='' @ to_string (length packet) @ '' addresses='' @
                        to_string (length (an_addresses parsed)))] else []),
              result))))"

text \<open>
  The part of \<open>route\<close> for a rule that processes the query.  An error is returned with the
  selected server, the start of the exchange if there was one, and the result so far.
\<close>

definition process_query ::
  "upstream \<Rightarrow> config \<Rightarrow> run_options \<Rightarrow> 64 word \<Rightarrow> nat \<Rightarrow> packet \<Rightarrow> server \<Rightarrow> question \<Rightarrow> rule \<Rightarrow>
   rule_decision \<Rightarrow> route_result \<Rightarrow> shared \<Rightarrow>
   (error \<times> server option \<times> nat option \<times> route_result + route_result) \<times> shared \<times> nat \<times> log_call list" where
  "process_query up config options generation now request original question rule decision result s =
     (case routed_server config generation original rule decision of
        (selected, Inl e) \<Rightarrow> (Inl (e, selected, None, result), s, now, [])
      | (_, Inr server) \<Rightarrow>
          let upstream_log =
                (if up_enabled up verbose
                 then [route_log (rl_name rule) (Some server) verbose ''DNS_UPSTREAM''
                         (route_log_message question rule (Some server) None)] else []) in
          (case exchange_cached up config options now request server (rl_server_id rule \<noteq> 0) s of
             (Inl e, s, ended, logs) \<Rightarrow>
               (Inl (e, Some server, Some now, result), s, ended, upstream_log @ logs)
           | (Inr (packet, used_id), s, ended, logs) \<Rightarrow>
               (case finish_route up config question rule server (ended - now) packet used_id result of
                  (server, result, Inl e) \<Rightarrow>
                    (Inl (e, Some server, Some now, result), s, ended, upstream_log @ logs)
                | (_, _, Inr (final, result)) \<Rightarrow> (Inr result, s, ended, upstream_log @ logs @ final))))"

text \<open>
  \<open>Router::route\<close>.  \<open>network\<close> is the snapshot of the shared monitor.  The outcome is an
  error only when \<open>make_error_response\<close> throws in a \<open>catch\<close> block.
\<close>

definition route ::
  "upstream \<Rightarrow> snapshot \<Rightarrow> config \<Rightarrow> run_options \<Rightarrow> nat \<Rightarrow> packet \<Rightarrow> server \<Rightarrow> shared \<Rightarrow>
   (error + route_result) \<times> shared \<times> nat \<times> log_call list" where
  "route up network config options now request original s =
     (case bindE (parse_question request) (\<lambda>question.
             bindE (requireE (q_flags question AND 0x8000 = 0)
                      (malformed ''Cannot route a reply as a query'')) (\<lambda>_. Inr question)) of
        Inl e \<Rightarrow>
          (route_failed request False e no_result, s, now,
           [route_log [] None errors_only (err_code e)
              ((case parse_question request of Inr q \<Rightarrow> q_name q | Inl _ \<Rightarrow> []) @ '' '' @ err_msg e)])
      | Inr question \<Rightarrow>
          (case evaluate_rule config (q_name question) None network of
             Inl e \<Rightarrow>
               (route_failed request True e no_result, s, now,
                [route_log [] None errors_only (err_code e) (q_name question @ '' '' @ err_msg e)])
           | Inr decision \<Rightarrow>
               let rule = the (rd_rule decision);
                   result = no_result\<lparr>rr_rule_id := rl_id rule, rr_server_id := rl_server_id rule,
                     rr_action := rl_action rule\<rparr>;
                   log = route_log (rl_name rule);
                   failure_log = (\<lambda>e selected elapsed. log selected errors_only (err_code e)
                     (route_log_message question rule selected elapsed @ '', error='' @ err_msg e)) in
               if rd_error_code decision \<noteq> [] then
                 let e = Error (rd_error_code decision) (rd_message decision) in
                 (route_failed request True e result, s, now, [failure_log e None None])
               else if rd_captive_bypass decision \<or> rl_action rule = Action_bypass then
                 (Inr (result\<lparr>rr_disposition := Forward_original, rr_packet := request\<rparr>), s, now,
                  (if rd_captive_bypass decision
                   then [log None normal ''CAPTIVE_PORTAL_BYPASS''
                           ''Preserving OS resolver for captive portal discovery''] else []) @
                  (if up_enabled up normal
                   then [log None normal ''DNS_ROUTE'' (route_log_message question rule (Some original) None)]
                   else []))
               else if rl_action rule = Action_block then
                 let logs = (if up_enabled up normal
                       then [log None normal ''DNS_ROUTE'' (route_log_message question rule None None)] else []) in
                 if rl_block_mode rule = silent_drop
                 then (Inr (result\<lparr>rr_disposition := Drop_silently\<rparr>), s, now, logs)
                 else
                   (case make_block_response request (rl_block_mode rule) of
                      Inr packet \<Rightarrow> (Inr (result\<lparr>rr_packet := packet\<rparr>), s, now, logs)
                    | Inl e \<Rightarrow> (route_failed request True e result, s, now, logs @ [failure_log e None None]))
               else
                 (case process_query up config options (sn_generation network) now request original
                         question rule decision result s of
                    (Inr result, s, ended, logs) \<Rightarrow> (Inr result, s, ended, logs)
                  | (Inl (e, selected, started, result), s, ended, logs) \<Rightarrow>
                      (route_failed request True e result, s, ended,
                       logs @ [failure_log e selected
                         (map_option (\<lambda>t. up_elapsed up (ended - t)) started)]))))"

section \<open>The life of the router\<close>

text \<open>
  \<open>rt_transports\<close> says which transports were made, \<open>rt_stopped\<close> whether a stop was requested on
  the current source.
\<close>

record router =
  rt_config :: config
  rt_options :: run_options
  rt_shared :: shared
  rt_stopped :: bool
  rt_transports :: "bool list"

definition reload :: "inet \<Rightarrow> config \<Rightarrow> router \<Rightarrow> error + router" where
  "reload inet config r =
     bindE (validate inet config) (\<lambda>_.
     bindE (runtime_options config) (\<lambda>options.
     Inr (r\<lparr>rt_config := config, rt_options := options, rt_shared := no_shared\<rparr>)))"

definition cancel_pending :: "router \<Rightarrow> router" where
  "cancel_pending r = r\<lparr>rt_stopped := True, rt_transports := replicate 8 False\<rparr>"

definition resume :: "inet \<Rightarrow> router \<Rightarrow> error + router" where
  "resume inet r =
     (if rt_stopped r then reload inet (rt_config r) (r\<lparr>rt_stopped := False\<rparr>) else Inr r)"

end
