(* ===== verification/Router_Cache.thy ===== *)
theory Router_Cache
  imports Router
begin

text \<open>
  The answer cache with any number of concurrent callers: the critical sections of
  \<open>exchange_cached\<close> are the steps of a relation on the shared state and the callers.  The
  invariant \<open>world_ok\<close> holds in every reachable state; from it follow the bounds of the cache
  and of the table of queries in flight, that a query in flight has exactly one leader, and
  that no caller waits forever.
\<close>

section \<open>Callers and their steps\<close>

datatype client =
  Leading (cl_key: string) (cl_slot: nat)
| Waiting (cl_slot: nat) (cl_id: "16 word")
| Finished "error + packet \<times> 32 word"

record world =
  wd_shared :: shared
  wd_clients :: "client list"
  wd_now :: nat

definition first_world :: world where
  "first_world = \<lparr>wd_shared = no_shared, wd_clients = [], wd_now = 0\<rparr>"

fun entered :: "string \<Rightarrow> 16 word \<Rightarrow> looked_up \<Rightarrow> client" where
  "entered key i (Served r) = Finished r"
| "entered key i (Follow slot) = Waiting slot i"
| "entered key i (Lead slot) = Leading key slot"

text \<open>
  Steps that finish a caller: a leader publishes its answer or its failure (error codes are
  never empty), a follower finds its object done.
\<close>

inductive progress :: "world \<Rightarrow> world \<Rightarrow> bool" where
  answered: "\<lbrakk>i < length (wd_clients w); wd_clients w ! i = Leading key slot; wd_now w \<le> now\<rbrakk> \<Longrightarrow>
     progress w \<lparr>wd_shared = publish now key slot packet parsed used_id (wd_shared w),
       wd_clients = (wd_clients w)[i := Finished (Inr (packet, used_id))], wd_now = now\<rparr>"
| failed: "\<lbrakk>i < length (wd_clients w); wd_clients w ! i = Leading key slot; err_code e \<noteq> []\<rbrakk> \<Longrightarrow>
     progress w \<lparr>wd_shared = publish_failure key slot e (wd_shared w),
       wd_clients = (wd_clients w)[i := Finished (Inl e)], wd_now = wd_now w\<rparr>"
| woken: "\<lbrakk>i < length (wd_clients w); wd_clients w ! i = Waiting slot tid;
      pd_done (sh_slots (wd_shared w) ! slot)\<rbrakk> \<Longrightarrow>
     progress w (w\<lparr>wd_clients := (wd_clients w)[i := Finished (follow tid (sh_slots (wd_shared w) ! slot))]\<rparr>)"

text \<open>
  All steps: also a caller that arrives, one that gives up waiting (deadline or cancellation),
  and a leader's update of the health records.
\<close>

inductive serve :: "world \<Rightarrow> world \<Rightarrow> bool" where
  progressed: "progress w w' \<Longrightarrow> serve w w'"
| arrived: "\<lbrakk>wd_now w \<le> now; look_up now key tid (wd_shared w) = (r, s)\<rbrakk> \<Longrightarrow>
     serve w \<lparr>wd_shared = s, wd_clients = wd_clients w @ [entered key tid r], wd_now = now\<rparr>"
| gave_up: "\<lbrakk>i < length (wd_clients w); wd_clients w ! i = Waiting slot tid\<rbrakk> \<Longrightarrow>
     serve w (w\<lparr>wd_clients := (wd_clients w)[i := Finished (Inl e)]\<rparr>)"
| health_changed: "serve w (w\<lparr>wd_shared := (wd_shared w)\<lparr>sh_health := hs\<rparr>\<rparr>)"

inductive_cases progressE: "progress w w'"
inductive_cases serveE: "serve w w'"

section \<open>The cache\<close>

definition cache_bytes :: "(string \<times> cache_entry) list \<Rightarrow> nat" where
  "cache_bytes es = sum_list (map entry_bytes es)"

definition cache_ok :: "shared \<Rightarrow> bool" where
  "cache_ok s \<longleftrightarrow> sorted_wrt (<) (map fst (sh_cache s)) \<and> sh_bytes s = cache_bytes (sh_cache s) \<and>
     length (sh_cache s) \<le> 4096 \<and> (sh_bytes s \<le> max_cache_bytes \<or> length (sh_cache s) = 1)"

lemma cache_ok_same [simp]:
  "cache_ok (s\<lparr>sh_pending := p\<rparr>) = cache_ok s" "cache_ok (s\<lparr>sh_slots := sl\<rparr>) = cache_ok s"
  "cache_ok (s\<lparr>sh_health := h\<rparr>) = cache_ok s"
  by (simp_all add: cache_ok_def)

lemma cache_bytes_simps [simp]:
  "cache_bytes [] = 0" "cache_bytes (e # es) = entry_bytes e + cache_bytes es"
  by (simp_all add: cache_bytes_def)

lemma expire_loop_spec:
  "expire_loop now es (cache_bytes es + b) =
     (filter (\<lambda>e. \<not> ce_expires (snd e) \<le> now) es, cache_bytes (filter (\<lambda>e. \<not> ce_expires (snd e) \<le> now) es) + b)"
proof (induction es arbitrary: b)
  case (Cons e es)
  from Cons [of b] Cons [of "entry_bytes e + b"] show ?case by (simp add: ac_simps)
qed simp

lemma cache_bytes_filter: "cache_bytes (filter P es) \<le> cache_bytes es"
  by (induction es) auto

lemma cache_bytes_delete:
  "distinct (map fst es) \<Longrightarrow> e \<in> set es \<Longrightarrow>
   cache_bytes (AList.delete (fst e) es) + entry_bytes e = cache_bytes es"
proof (induction es)
  case (Cons x es)
  show ?case
  proof (cases "x = e")
    case True
    with Cons.prems have "AList.delete (fst e) es = es"
      by (force intro: delete_idem)
    then show ?thesis using True by simp
  next
    case False
    with Cons have "fst x \<noteq> fst e" by force
    with False Cons show ?thesis by simp
  qed
qed simp

lemma oldest_entry_None: "oldest_entry es = None \<longleftrightarrow> es = []"
  by (simp add: oldest_entry_def min_element_None)

lemma evict_loop_spec:
  assumes "sorted_wrt (<) (map fst es)" "evict_loop needed es (cache_bytes es) = (es', b)"
  shows "sorted_wrt (<) (map fst es') \<and> b = cache_bytes es' \<and> set es' \<subseteq> set es \<and>
    length es' < 4096 \<and> (b + needed \<le> max_cache_bytes \<or> es' = [])"
  using assms
proof (induction "length es" arbitrary: es rule: less_induct)
  case less
  show ?case
  proof (cases "length es \<ge> 4096 \<or> cache_bytes es + needed > max_cache_bytes")
    case False
    with less.prems show ?thesis by (subst (asm) evict_loop.simps) auto
  next
    case True
    show ?thesis
    proof (cases "oldest_entry es")
      case None
      with less.prems True show ?thesis
        by (subst (asm) evict_loop.simps) (auto simp: oldest_entry_None)
    next
      case (Some e)
      then have e: "e \<in> set es" by (rule oldest_entry_in)
      let ?d = "AList.delete (fst e) es"
      have b: "cache_bytes es - entry_bytes e = cache_bytes ?d"
        using cache_bytes_delete [OF sorted_keys_distinct [OF less.prems(1)] e] by simp
      have "length ?d < length es"
        using e unfolding AList.delete_eq by (induction es) (auto simp: less_Suc_eq_le length_filter_le)
      moreover have "evict_loop needed ?d (cache_bytes ?d) = (es', b)"
        using less.prems(2) True Some by (subst (asm) evict_loop.simps) (simp add: b)
      ultimately have "sorted_wrt (<) (map fst es') \<and> b = cache_bytes es' \<and> set es' \<subseteq> set ?d \<and>
          length es' < 4096 \<and> (b + needed \<le> max_cache_bytes \<or> es' = [])"
        by (intro less.hyps sorted_delete less.prems(1))
      moreover have "set ?d \<subseteq> set es" by (auto simp: AList.delete_eq)
      ultimately show ?thesis by blast
    qed
  qed
qed

lemma put_entry_new:
  assumes "k \<notin> fst ` set es" "sorted_wrt (<) (map fst es)"
  shows "sorted_wrt (<) (map fst (put_entry k v es)) \<and> set (put_entry k v es) = insert (k, v) (set es) \<and>
    cache_bytes (put_entry k v es) = entry_bytes (k, v) + cache_bytes es \<and> length (put_entry k v es) = length es + 1"
  using assms
proof (induction es)
  case (Cons e es)
  obtain k' v' where e: "e = (k', v')" by (cases e)
  consider "k < k'" | "k' < k" using Cons.prems(1) by (auto simp: e elim: linorder_neqE)
  then show ?case
  proof cases
    case 1
    then show ?thesis using Cons.prems by (auto simp: e)
  next
    case 2
    then have "\<not> k < k'" "k \<noteq> k'" by auto
    with Cons 2 show ?thesis by (auto simp: e)
  qed
qed simp

lemma store_answer_ok:
  assumes "cache_ok s" "key \<notin> fst ` set (sh_cache s)"
  shows "cache_ok (store_answer now key packet used_id ttl s)"
    and "fst ` set (sh_cache (store_answer now key packet used_id ttl s)) \<subseteq> insert key (fst ` set (sh_cache s))"
proof -
  obtain es b where e: "evict_loop (length packet + length key) (sh_cache s) (cache_bytes (sh_cache s)) = (es, b)"
    by (cases "evict_loop (length packet + length key) (sh_cache s) (cache_bytes (sh_cache s))")
  have srt: "sorted_wrt (<) (map fst (sh_cache s))" using assms(1) by (simp add: cache_ok_def)
  have spec: "sorted_wrt (<) (map fst es)" "b = cache_bytes es" "set es \<subseteq> set (sh_cache s)" "length es < 4096"
      "b + (length packet + length key) \<le> max_cache_bytes \<or> es = []"
    using evict_loop_spec [OF srt e] by auto
  have new: "key \<notin> fst ` set es" using assms(2) spec(3) by auto
  note put = put_entry_new [OF new spec(1)]
  have bytes: "sh_bytes s = cache_bytes (sh_cache s)" using assms(1) by (simp add: cache_ok_def)
  show "cache_ok (store_answer now key packet used_id ttl s)"
    using put spec(2,4,5) e by (auto simp: store_answer_def Let_def cache_ok_def bytes entry_bytes_def)
  show "fst ` set (sh_cache (store_answer now key packet used_id ttl s)) \<subseteq> insert key (fst ` set (sh_cache s))"
    using put spec(3) e by (auto simp: store_answer_def Let_def bytes)
qed

lemma expired_ok:
  assumes "cache_ok s" "expire_loop now (sh_cache s) (sh_bytes s) = (es, b)"
  shows "cache_ok (s\<lparr>sh_cache := es, sh_bytes := b\<rparr>)" "set es \<subseteq> set (sh_cache s)"
proof -
  have bytes: "sh_bytes s = cache_bytes (sh_cache s) + 0" using assms(1) by (simp add: cache_ok_def)
  have es: "es = filter (\<lambda>e. \<not> ce_expires (snd e) \<le> now) (sh_cache s)" "b = cache_bytes es"
    using assms(2) unfolding bytes expire_loop_spec by auto
  have less: "cache_bytes es \<le> cache_bytes (sh_cache s)" "length es \<le> length (sh_cache s)"
    unfolding es(1) by (simp_all add: cache_bytes_filter)
  show "set es \<subseteq> set (sh_cache s)" by (auto simp: es(1))
  have "b \<le> max_cache_bytes \<or> length es = 1"
  proof (cases "es = []")
    case True
    then show ?thesis by (simp add: es(2))
  next
    case False
    then have "length es \<noteq> 0" by simp
    then show ?thesis using assms(1) less es(2) unfolding cache_ok_def by linarith
  qed
  moreover have "length es \<le> 4096" using assms(1) less(2) by (simp add: cache_ok_def)
  moreover have "sorted_wrt (<) (map fst es)"
    using assms(1) unfolding es(1) by (simp add: cache_ok_def sorted_wrt_map sorted_wrt_filter)
  ultimately show "cache_ok (s\<lparr>sh_cache := es, sh_bytes := b\<rparr>)" by (simp add: cache_ok_def es(2))
qed

section \<open>The invariant of the whole\<close>

definition leads :: "world \<Rightarrow> nat \<Rightarrow> string \<Rightarrow> nat \<Rightarrow> bool" where
  "leads w i k slot \<longleftrightarrow> i < length (wd_clients w) \<and> wd_clients w ! i = Leading k slot"

definition world_ok :: "world \<Rightarrow> bool" where
  "world_ok w \<longleftrightarrow>
     (let s = wd_shared w in
      cache_ok s \<and> distinct (map fst (sh_pending s)) \<and> length (sh_pending s) \<le> 256 \<and>
      fst ` set (sh_pending s) \<inter> fst ` set (sh_cache s) = {} \<and>
      (\<forall>k slot. (k, slot) \<in> set (sh_pending s) \<longleftrightarrow> (\<exists>i. leads w i k slot)) \<and>
      (\<forall>i j k k' slot. leads w i k slot \<longrightarrow> leads w j k' slot \<longrightarrow> i = j) \<and>
      (\<forall>slot < length (sh_slots s). pd_done (sh_slots s ! slot) \<longleftrightarrow> slot \<notin> snd ` set (sh_pending s)) \<and>
      (\<forall>(k, slot) \<in> set (sh_pending s). slot < length (sh_slots s)) \<and>
      (\<forall>c \<in> set (wd_clients w). \<forall>slot tid. c = Waiting slot tid \<longrightarrow> slot < length (sh_slots s)))"

lemma world_okD:
  assumes "world_ok w"
  shows "cache_ok (wd_shared w)" "distinct (map fst (sh_pending (wd_shared w)))"
    "length (sh_pending (wd_shared w)) \<le> 256"
    "fst ` set (sh_pending (wd_shared w)) \<inter> fst ` set (sh_cache (wd_shared w)) = {}"
    "(k, slot) \<in> set (sh_pending (wd_shared w)) \<longleftrightarrow> (\<exists>i. leads w i k slot)"
    "leads w i k slot \<Longrightarrow> leads w j k' slot \<Longrightarrow> i = j"
    "slot < length (sh_slots (wd_shared w)) \<Longrightarrow>
      pd_done (sh_slots (wd_shared w) ! slot) \<longleftrightarrow> slot \<notin> snd ` set (sh_pending (wd_shared w))"
    "(k, slot) \<in> set (sh_pending (wd_shared w)) \<Longrightarrow> slot < length (sh_slots (wd_shared w))"
    "Waiting slot tid \<in> set (wd_clients w) \<Longrightarrow> slot < length (sh_slots (wd_shared w))"
proof -
  let ?s = "wd_shared w"
  note all = assms [unfolded world_ok_def Let_def]
  note 1 = all [THEN conjunct1]
  note 2 = all [THEN conjunct2, THEN conjunct1]
  note 3 = all [THEN conjunct2, THEN conjunct2, THEN conjunct1]
  note 4 = all [THEN conjunct2, THEN conjunct2, THEN conjunct2, THEN conjunct1]
  note 5 = all [THEN conjunct2, THEN conjunct2, THEN conjunct2, THEN conjunct2, THEN conjunct1]
  note 6 = all [THEN conjunct2, THEN conjunct2, THEN conjunct2, THEN conjunct2, THEN conjunct2, THEN conjunct1]
  note 7 = all [THEN conjunct2, THEN conjunct2, THEN conjunct2, THEN conjunct2, THEN conjunct2, THEN conjunct2, THEN conjunct1]
  note 8 = all [THEN conjunct2, THEN conjunct2, THEN conjunct2, THEN conjunct2, THEN conjunct2, THEN conjunct2, THEN conjunct2, THEN conjunct1]
  note 9 = all [THEN conjunct2, THEN conjunct2, THEN conjunct2, THEN conjunct2, THEN conjunct2, THEN conjunct2, THEN conjunct2, THEN conjunct2]
  show "cache_ok ?s" "distinct (map fst (sh_pending ?s))" "length (sh_pending ?s) \<le> 256"
    "fst ` set (sh_pending ?s) \<inter> fst ` set (sh_cache ?s) = {}" by (rule 1 2 3 4)+
  from 5 show "(k, slot) \<in> set (sh_pending ?s) \<longleftrightarrow> (\<exists>i. leads w i k slot)" by blast
  from 6 show "leads w i k slot \<Longrightarrow> leads w j k' slot \<Longrightarrow> i = j" by blast
  from 7 show "slot < length (sh_slots ?s) \<Longrightarrow>
      pd_done (sh_slots ?s ! slot) \<longleftrightarrow> slot \<notin> snd ` set (sh_pending ?s)" by blast
  from 8 show "(k, slot) \<in> set (sh_pending ?s) \<Longrightarrow> slot < length (sh_slots ?s)" by blast
  from 9 show "Waiting slot tid \<in> set (wd_clients w) \<Longrightarrow> slot < length (sh_slots ?s)" by blast
qed

lemma world_okI:
  assumes "cache_ok (wd_shared w)" "distinct (map fst (sh_pending (wd_shared w)))"
    "length (sh_pending (wd_shared w)) \<le> 256"
    "fst ` set (sh_pending (wd_shared w)) \<inter> fst ` set (sh_cache (wd_shared w)) = {}"
    "\<And>k slot. (k, slot) \<in> set (sh_pending (wd_shared w)) \<longleftrightarrow> (\<exists>i. leads w i k slot)"
    "\<And>i j k k' slot. leads w i k slot \<Longrightarrow> leads w j k' slot \<Longrightarrow> i = j"
    "\<And>slot. slot < length (sh_slots (wd_shared w)) \<Longrightarrow>
      pd_done (sh_slots (wd_shared w) ! slot) \<longleftrightarrow> slot \<notin> snd ` set (sh_pending (wd_shared w))"
    "\<And>k slot. (k, slot) \<in> set (sh_pending (wd_shared w)) \<Longrightarrow> slot < length (sh_slots (wd_shared w))"
    "\<And>slot tid. Waiting slot tid \<in> set (wd_clients w) \<Longrightarrow> slot < length (sh_slots (wd_shared w))"
  shows "world_ok w"
  unfolding world_ok_def Let_def using assms(1-4)
proof (intro conjI)
  show "\<forall>k slot. (k, slot) \<in> set (sh_pending (wd_shared w)) \<longleftrightarrow> (\<exists>i. leads w i k slot)" using assms(5) by blast
  show "\<forall>i j k k' slot. leads w i k slot \<longrightarrow> leads w j k' slot \<longrightarrow> i = j" using assms(6) by blast
  show "\<forall>slot < length (sh_slots (wd_shared w)).
      pd_done (sh_slots (wd_shared w) ! slot) \<longleftrightarrow> slot \<notin> snd ` set (sh_pending (wd_shared w))" using assms(7) by blast
  show "\<forall>(k, slot) \<in> set (sh_pending (wd_shared w)). slot < length (sh_slots (wd_shared w))" using assms(8) by blast
  show "\<forall>c \<in> set (wd_clients w). \<forall>slot tid. c = Waiting slot tid \<longrightarrow> slot < length (sh_slots (wd_shared w))"
    using assms(9) by blast
qed

lemma first_world_ok: "world_ok first_world"
  by (simp add: world_ok_def first_world_def no_shared_def cache_ok_def leads_def)

text \<open>A leader leaves: its key is no longer pending and its object is done.\<close>

lemma pending_same_key:
  "world_ok w \<Longrightarrow> (k, a) \<in> set (sh_pending (wd_shared w)) \<Longrightarrow> (k, b) \<in> set (sh_pending (wd_shared w)) \<Longrightarrow> a = b"
  by (rule eq_key_imp_eq_value [OF world_okD(2)])

lemma pending_same_slot:
  assumes "world_ok w" "(k, a) \<in> set (sh_pending (wd_shared w))" "(k', a) \<in> set (sh_pending (wd_shared w))"
  shows "k = k'"
proof -
  from assms obtain i j where "leads w i k a" "leads w j k' a" using world_okD(5) by blast
  moreover from this have "i = j" by (rule world_okD(6) [OF assms(1)])
  ultimately show ?thesis by (simp add: leads_def)
qed

lemma settle_ok:
  assumes ok: "world_ok w" and lead: "leads w i key slot"
    and cache: "cache_ok s" "fst ` set (sh_cache s) \<subseteq> insert key (fst ` set (sh_cache (wd_shared w)))"
    and pend: "sh_pending s = AList.delete key (sh_pending (wd_shared w))"
    and slots: "sh_slots s = (sh_slots (wd_shared w))[slot := p]" "pd_done p"
  shows "world_ok \<lparr>wd_shared = s, wd_clients = (wd_clients w)[i := Finished r], wd_now = now\<rparr>"
proof (rule world_okI, simp_all only: world.simps)
  let ?w = "\<lparr>wd_shared = s, wd_clients = (wd_clients w)[i := Finished r], wd_now = now\<rparr>"
  let ?p = "set (sh_pending (wd_shared w))"
  have key: "(key, slot) \<in> ?p" using lead world_okD(5) [OF ok] by blast
  have pset: "set (sh_pending s) = {e \<in> ?p. fst e \<noteq> key}" by (auto simp: pend AList.delete_eq)
  have leads: "leads ?w j k sl \<longleftrightarrow> leads w j k sl \<and> j \<noteq> i" for j k sl
    using lead by (auto simp: leads_def nth_list_update)
  show "cache_ok s" by (rule cache)
  show "distinct (map fst (sh_pending s))" by (simp add: pend world_okD(2) [OF ok] distinct_delete)
  show "length (sh_pending s) \<le> 256"
    using world_okD(3) [OF ok] length_delete_le [of key "sh_pending (wd_shared w)"] by (simp add: pend)
  show "fst ` set (sh_pending s) \<inter> fst ` set (sh_cache s) = {}"
  proof -
    have "fst ` set (sh_pending s) \<subseteq> fst ` ?p - {key}" by (auto simp: pset)
    then show ?thesis using world_okD(4) [OF ok] cache(2) by blast
  qed
  show "i' = j" if "leads ?w i' k sl" "leads ?w j k' sl" for i' j k k' sl
    using that world_okD(6) [OF ok] unfolding leads by blast
  show "(k, sl) \<in> set (sh_pending s) \<longleftrightarrow> (\<exists>j. leads ?w j k sl)" for k sl
  proof
    assume "(k, sl) \<in> set (sh_pending s)"
    then have "(k, sl) \<in> ?p" "k \<noteq> key" by (auto simp: pset)
    from this(1) obtain j where j: "leads w j k sl" using world_okD(5) [OF ok] by blast
    moreover have "j \<noteq> i" using \<open>k \<noteq> key\<close> j lead by (auto simp: leads_def)
    ultimately show "\<exists>j. leads ?w j k sl" unfolding leads by blast
  next
    assume "\<exists>j. leads ?w j k sl"
    then obtain j where j: "leads w j k sl" "j \<noteq> i" unfolding leads by blast
    then have k: "(k, sl) \<in> ?p" using world_okD(5) [OF ok] by blast
    have "sl \<noteq> slot" using j lead world_okD(6) [OF ok] by blast
    then have "k \<noteq> key" using k key pending_same_key [OF ok] by blast
    with k show "(k, sl) \<in> set (sh_pending s)" by (simp add: pset)
  qed
  show "pd_done (sh_slots s ! sl) \<longleftrightarrow> sl \<notin> snd ` set (sh_pending s)" if "sl < length (sh_slots s)" for sl
  proof (cases "sl = slot")
    case True
    have "slot \<notin> snd ` set (sh_pending s)" using pending_same_slot [OF ok key] by (auto simp: pset)
    moreover have "pd_done (sh_slots s ! slot)" using that slots True by simp
    ultimately show ?thesis using True by simp
  next
    case False
    then have "sl \<in> snd ` set (sh_pending s) \<longleftrightarrow> sl \<in> snd ` ?p"
      using pending_same_key [OF ok key] by (force simp: pset)
    with False show ?thesis using that world_okD(7) [OF ok, of sl] slots(1) by simp
  qed
  show "sl < length (sh_slots s)" if "(k, sl) \<in> set (sh_pending s)" for k sl
    using that world_okD(8) [OF ok] by (auto simp: pset slots(1))
  show "sl < length (sh_slots s)" if "Waiting sl tid \<in> set ((wd_clients w)[i := Finished r])" for sl tid
    using that world_okD(9) [OF ok, of sl tid] set_update_subset_insert [of "wd_clients w" i "Finished r"]
    by (auto simp: slots(1))
qed

lemma publish_ok:
  assumes "world_ok w" "leads w i key slot"
  shows "world_ok \<lparr>wd_shared = publish now key slot packet parsed used_id (wd_shared w),
    wd_clients = (wd_clients w)[i := Finished r], wd_now = t\<rparr>"
proof -
  let ?s = "wd_shared w"
  have "(key, slot) \<in> set (sh_pending ?s)" using assms(2) world_okD(5) [OF assms(1)] by blast
  then have "key \<notin> fst ` set (sh_cache ?s)" using world_okD(4) [OF assms(1)] by force
  note store = store_answer_ok [OF world_okD(1) [OF assms(1)] this]
  define s where "s = (if an_cacheable parsed then store_answer now key packet used_id (an_cache_ttl parsed) ?s else ?s)"
  have s: "cache_ok s" "fst ` set (sh_cache s) \<subseteq> insert key (fst ` set (sh_cache ?s))"
    using store world_okD(1) [OF assms(1)] by (auto simp: s_def)
  have rest: "sh_pending s = sh_pending ?s" "sh_slots s = sh_slots ?s"
    by (simp_all add: s_def store_answer_def Let_def split: prod.split)
  show ?thesis
    using s rest
    by (intro settle_ok [OF assms, where p = "(sh_slots ?s ! slot)\<lparr>pd_packet := packet,
        pd_used_server_id := used_id, pd_done := True\<rparr>"])
      (auto simp: publish_def simp flip: s_def)
qed

lemma publish_failure_ok:
  assumes "world_ok w" "leads w i key slot"
  shows "world_ok \<lparr>wd_shared = publish_failure key slot e (wd_shared w),
    wd_clients = (wd_clients w)[i := Finished r], wd_now = t\<rparr>"
  using world_okD(1) [OF assms(1)]
  by (intro settle_ok [OF assms]) (auto simp: publish_failure_def)

text \<open>A follower leaves, whatever it returns.\<close>

lemma leave_ok:
  assumes ok: "world_ok w" and wait: "wd_clients w ! i = Waiting slot tid" "i < length (wd_clients w)"
  shows "world_ok (w\<lparr>wd_clients := (wd_clients w)[i := Finished r]\<rparr>)"
proof -
  let ?w = "w\<lparr>wd_clients := (wd_clients w)[i := Finished r]\<rparr>"
  have leads: "leads ?w = leads w"
    using wait by (auto simp: leads_def fun_eq_iff nth_list_update)
  have "Waiting sl t \<in> set (wd_clients w)" if "Waiting sl t \<in> set (wd_clients ?w)" for sl t
    using that set_update_subset_insert [of "wd_clients w" i "Finished r"] by auto
  then have "sl < length (sh_slots (wd_shared w))" if "Waiting sl t \<in> set (wd_clients ?w)" for sl t
    using that world_okD(9) [OF ok] by blast
  then show ?thesis
    using world_okD(1-8) [OF ok] by (intro world_okI) (simp_all add: leads)
qed

lemma arrive_ok:
  assumes ok: "world_ok w" and look: "look_up now key tid (wd_shared w) = (r, s)"
  shows "world_ok \<lparr>wd_shared = s, wd_clients = wd_clients w @ [entered key tid r], wd_now = t\<rparr>"
proof -
  let ?s = "wd_shared w" and ?n = "length (wd_clients w)"
  let ?w = "\<lambda>c s. \<lparr>wd_shared = s, wd_clients = wd_clients w @ [c], wd_now = t\<rparr>"
  obtain es b where e: "expire_loop now (sh_cache ?s) (sh_bytes ?s) = (es, b)"
    by (cases "expire_loop now (sh_cache ?s) (sh_bytes ?s)")
  define s1 where "s1 = ?s\<lparr>sh_cache := es, sh_bytes := b\<rparr>"
  note exp = expired_ok [OF world_okD(1) [OF ok] e, folded s1_def]
  have s1: "sh_pending s1 = sh_pending ?s" "sh_slots s1 = sh_slots ?s" "sh_cache s1 = es" by (simp_all add: s1_def)
  have disj: "fst ` set (sh_pending s1) \<inter> fst ` set (sh_cache s1) = {}"
    using world_okD(4) [OF ok] exp(2) unfolding s1 by blast
  have other: "world_ok (?w c s1)"
    if "\<And>k sl. c \<noteq> Leading k sl" "\<And>sl tid. c = Waiting sl tid \<Longrightarrow> sl < length (sh_slots ?s)" for c
  proof -
    have leads: "leads (?w c s1) = leads w"
      using that(1) by (auto simp: leads_def fun_eq_iff nth_append less_Suc_eq)
    show ?thesis
      using world_okD [OF ok] exp(1) disj that(2) by (intro world_okI) (auto simp: leads s1)
  qed
  consider (cached) v where "map_of es key = Some v" "\<exists>x. r = Served x" "s = s1"
    | (follow) slot where "map_of (sh_pending ?s) key = Some slot" "r = Follow slot" "s = s1"
    | (busy) "\<exists>x. r = Served x" "s = s1"
    | (lead) "map_of es key = None" "map_of (sh_pending ?s) key = None" "length (sh_pending ?s) < 256"
        "r = Lead (length (sh_slots ?s))"
        "s = s1\<lparr>sh_pending := (key, length (sh_slots ?s)) # sh_pending ?s, sh_slots := sh_slots ?s @ [no_pending]\<rparr>"
    using look unfolding look_up_def e by (auto simp: Let_def s1_def split: option.splits if_splits)
  then show ?thesis
  proof cases
    case cached
    then obtain x where "r = Served x" by blast
    then show ?thesis using other [of "Finished x"] cached(3) by simp
  next
    case busy
    then obtain x where "r = Served x" by blast
    then show ?thesis using other [of "Finished x"] busy(2) by simp
  next
    case follow
    then have "slot < length (sh_slots ?s)" using world_okD(8) [OF ok] by (auto dest: map_of_SomeD)
    then show ?thesis using other [of "Waiting slot tid"] follow by simp
  next
    case lead
    let ?slot = "length (sh_slots ?s)"
    have new: "key \<notin> fst ` set (sh_pending ?s)" "key \<notin> fst ` set es" using lead by (simp_all add: map_of_eq_None_iff)
    have old: "sl < ?slot" if "(k, sl) \<in> set (sh_pending ?s)" for k sl using world_okD(8) [OF ok that] .
    have leads: "leads (?w (Leading key ?slot) s) j k sl \<longleftrightarrow> leads w j k sl \<or> j = ?n \<and> k = key \<and> sl = ?slot" for j k sl
      by (auto simp: leads_def nth_append less_Suc_eq)
    have fresh: "\<not> leads w j k ?slot" for j k
      using old world_okD(5) [OF ok, of k ?slot] by blast
    have "world_ok (?w (Leading key ?slot) s)"
    proof (rule world_okI, simp_all only: world.simps)
      show "cache_ok s" using exp(1) by (simp add: lead)
      show "distinct (map fst (sh_pending s))" using new(1) world_okD(2) [OF ok] by (simp add: lead)
      show "length (sh_pending s) \<le> 256" using lead(3) by (simp add: lead(5))
      show "fst ` set (sh_pending s) \<inter> fst ` set (sh_cache s) = {}" using new(2) disj by (simp add: lead s1)
      show "(k, sl) \<in> set (sh_pending s) \<longleftrightarrow> (\<exists>j. leads (?w (Leading key ?slot) s) j k sl)" for k sl
        using world_okD(5) [OF ok, of k sl] unfolding leads by (auto simp: lead)
      show "i = j" if "leads (?w (Leading key ?slot) s) i k sl" "leads (?w (Leading key ?slot) s) j k' sl" for i j k k' sl
        using that world_okD(6) [OF ok] fresh unfolding leads by blast
      show "pd_done (sh_slots s ! sl) \<longleftrightarrow> sl \<notin> snd ` set (sh_pending s)" if "sl < length (sh_slots s)" for sl
        using that world_okD(7) [OF ok, of sl] old
        by (auto simp: lead nth_append less_Suc_eq no_pending_def)
      show "sl < length (sh_slots s)" if "(k, sl) \<in> set (sh_pending s)" for k sl
        using that old by (auto simp: lead less_Suc_eq)
      show "sl < length (sh_slots s)" if "Waiting sl i \<in> set (wd_clients w @ [Leading key ?slot])" for sl i
        using that world_okD(9) [OF ok, of sl i] by (auto simp: lead)
    qed
    then show ?thesis by (simp add: lead)
  qed
qed

lemma progress_ok: "progress w w' \<Longrightarrow> world_ok w \<Longrightarrow> world_ok w'"
  by (induction rule: progress.induct)
    (auto intro: publish_ok publish_failure_ok leave_ok simp: leads_def)

lemma serve_ok:
  assumes "world_ok w" "serve w w'"
  shows "world_ok w'"
  using assms(2)
proof cases
  case progressed
  then show ?thesis by (rule progress_ok [OF _ assms(1)])
next
  case (arrived now key tid r s)
  then show ?thesis using arrive_ok [OF assms(1)] by blast
next
  case (gave_up i slot tid e)
  then show ?thesis using leave_ok [OF assms(1)] by blast
next
  case (health_changed hs)
  then show ?thesis using assms(1) by (simp add: world_ok_def leads_def Let_def)
qed

interpretation answers: step_system first_world serve world_ok
  by unfold_locales (auto intro: first_world_ok serve_ok)

section \<open>Everybody gets an answer\<close>

definition unfinished :: "world \<Rightarrow> nat" where
  "unfinished w = length (filter (\<lambda>c. \<not> (\<exists>r. c = Finished r)) (wd_clients w))"

lemma finish_one:
  assumes "i < length cs" "\<not> (\<exists>r. cs ! i = Finished r)"
  shows "length (filter (\<lambda>c. \<not> (\<exists>r. c = Finished r)) (cs[i := Finished r])) <
    length (filter (\<lambda>c. \<not> (\<exists>r. c = Finished r)) cs)"
  using assms
proof (induction cs arbitrary: i)
  case (Cons c cs)
  then show ?case by (cases i) auto
qed simp

text \<open>A step to the end is always possible: a leader may fail, and a follower without a leader is done.\<close>

lemma unfinished_less:
  assumes "i < length (wd_clients w)" "\<not> (\<exists>r. wd_clients w ! i = Finished r)"
    "wd_clients w' = (wd_clients w)[i := Finished r]"
  shows "unfinished w' < unfinished w"
  using finish_one [OF assms(1,2)] by (simp add: unfinished_def assms(3))

lemma progress_possible:
  assumes ok: "world_ok w" and busy: "unfinished w \<noteq> 0"
  shows "\<exists>w'. progress w w' \<and> unfinished w' < unfinished w"
proof -
  from busy obtain c where "c \<in> set (wd_clients w)" "\<not> (\<exists>r. c = Finished r)"
    by (auto simp: unfinished_def filter_empty_conv)
  then obtain i where i: "i < length (wd_clients w)" "\<not> (\<exists>r. wd_clients w ! i = Finished r)"
    by (auto simp: in_set_conv_nth)
  show ?thesis
  proof (cases "\<exists>j k slot. leads w j k slot")
    case True
    then obtain j k slot where j: "leads w j k slot" by blast
    let ?w = "\<lparr>wd_shared = publish_failure k slot cancelled (wd_shared w),
        wd_clients = (wd_clients w)[j := Finished (Inl cancelled)], wd_now = wd_now w\<rparr>"
    have "progress w ?w" using j by (intro failed) (auto simp: leads_def cancelled_def)
    moreover have "unfinished ?w < unfinished w"
      using j by (intro unfinished_less [of j _ _ "Inl cancelled"]) (simp_all add: leads_def)
    ultimately show ?thesis by blast
  next
    case False
    then obtain slot tid where wait: "wd_clients w ! i = Waiting slot tid"
      using i by (cases "wd_clients w ! i") (auto simp: leads_def)
    then have "Waiting slot tid \<in> set (wd_clients w)" using i(1) by (metis nth_mem)
    then have "slot < length (sh_slots (wd_shared w))" by (rule world_okD(9) [OF ok])
    moreover have "slot \<notin> snd ` set (sh_pending (wd_shared w))"
      using False world_okD(5) [OF ok] by force
    ultimately have "pd_done (sh_slots (wd_shared w) ! slot)" using world_okD(7) [OF ok] by blast
    note step = woken [OF i(1) wait this]
    have "unfinished (w\<lparr>wd_clients := (wd_clients w)[i := Finished (follow tid (sh_slots (wd_shared w) ! slot))]\<rparr>) <
        unfinished w"
      by (rule unfinished_less [OF i]) simp
    with step show ?thesis by blast
  qed
qed

text \<open>C7: However the concurrent callers interleave, the cache has distinct keys, its byte
  counter is the exact sum, it holds at most 4096 entries and 32 MiB (or one larger entry),
  and at most 256 distinct queries are in flight.\<close>

theorem cache_invariant:
  assumes "serve\<^sup>*\<^sup>* first_world w"
  shows "distinct (map fst (sh_cache (wd_shared w))) \<and>
    sh_bytes (wd_shared w) = sum_list (map entry_bytes (sh_cache (wd_shared w))) \<and>
    length (sh_cache (wd_shared w)) \<le> 4096 \<and>
    (sh_bytes (wd_shared w) \<le> 32 * 1024 * 1024 \<or> length (sh_cache (wd_shared w)) = 1) \<and>
    length (sh_pending (wd_shared w)) \<le> 256"
  using answers.reachable_inv [OF assms, THEN world_okD(1)] answers.reachable_inv [OF assms, THEN world_okD(3)]
  by (auto simp: cache_ok_def sorted_keys_distinct cache_bytes_def max_cache_bytes_def)

text \<open>C8: However the concurrent callers interleave, a query in flight has exactly one leader,
  is not in the cache, and its waiters are not woken before the leader has published.\<close>

theorem one_leader_per_query:
  assumes "serve\<^sup>*\<^sup>* first_world w" "wd_clients w ! i = Leading key slot" "i < length (wd_clients w)"
  shows "(wd_clients w ! j = Leading key slot' \<and> j < length (wd_clients w) \<longrightarrow> j = i) \<and>
    key \<notin> fst ` set (sh_cache (wd_shared w)) \<and> \<not> pd_done (sh_slots (wd_shared w) ! slot)"
proof -
  note ok = answers.reachable_inv [OF assms(1)]
  have lead: "leads w i key slot" using assms(2,3) by (simp add: leads_def)
  then have p: "(key, slot) \<in> set (sh_pending (wd_shared w))" using world_okD(5) [OF ok] by blast
  have "j = i" if "leads w j key slot'"
  proof -
    have "(key, slot') \<in> set (sh_pending (wd_shared w))" using that world_okD(5) [OF ok] by blast
    then have "slot' = slot" using p by (rule pending_same_key [OF ok])
    then show ?thesis using that lead world_okD(6) [OF ok] by blast
  qed
  moreover have "key \<notin> fst ` set (sh_cache (wd_shared w))" using p world_okD(4) [OF ok] by force
  moreover have "\<not> pd_done (sh_slots (wd_shared w) ! slot)"
    using p world_okD(7) [OF ok world_okD(8) [OF ok p]] by force
  ultimately show ?thesis by (simp add: leads_def)
qed

text \<open>C9: From every reachable state the steps of leaders and woken waiters alone finish all
  callers: no waiter is left behind by an answer, a failure or an eviction.\<close>

theorem everybody_answered:
  assumes "serve\<^sup>*\<^sup>* first_world w"
  shows "\<exists>w'. progress\<^sup>*\<^sup>* w w' \<and> length (wd_clients w') = length (wd_clients w) \<and>
    (\<forall>c \<in> set (wd_clients w'). \<exists>r. c = Finished r)"
proof -
  have same: "length (wd_clients w') = length (wd_clients w)" if "progress w w'" for w w'
    using that by cases auto
  have "world_ok w \<Longrightarrow> \<exists>w'. progress\<^sup>*\<^sup>* w w' \<and> length (wd_clients w') = length (wd_clients w) \<and> unfinished w' = 0" for w
  proof (induction "unfinished w" arbitrary: w rule: less_induct)
    case less
    show ?case
    proof (cases "unfinished w = 0")
      case False
      from progress_possible [OF less.prems False] obtain w1 where
        w1: "progress w w1" "unfinished w1 < unfinished w" by blast
      from less.hyps [OF w1(2) progress_ok [OF w1(1) less.prems]] obtain w' where
        "progress\<^sup>*\<^sup>* w1 w'" "length (wd_clients w') = length (wd_clients w1)" "unfinished w' = 0" by blast
      then show ?thesis using w1(1) same [OF w1(1)] by (metis converse_rtranclp_into_rtranclp)
    qed auto
  qed
  from this [OF answers.reachable_inv [OF assms]] show ?thesis
    by (auto simp: unfinished_def filter_empty_conv)
qed

section \<open>A sample run\<close>

definition sample_world :: world where
  "sample_world = \<lparr>wd_shared = no_shared\<lparr>sh_pending := [(''k'', 0)], sh_slots := [no_pending]\<rparr>,
     wd_clients = [Leading ''k'' 0, Waiting 0 7], wd_now = 1\<rparr>"

lemma sample_run: "serve\<^sup>*\<^sup>* first_world sample_world"
proof -
  let ?s = "no_shared\<lparr>sh_pending := [(''k'', 0)], sh_slots := [no_pending]\<rparr>"
  let ?w = "\<lparr>wd_shared = ?s, wd_clients = [Leading ''k'' 0], wd_now = 0\<rparr>"
  have "look_up 0 ''k'' 3 no_shared = (Lead 0, ?s)" by (simp add: look_up_def no_shared_def)
  then have one: "serve first_world ?w"
    using arrived [of first_world 0 "''k''" 3 "Lead 0" ?s] by (simp add: first_world_def)
  have "look_up 1 ''k'' 7 ?s = (Follow 0, ?s)" by (simp add: look_up_def no_shared_def)
  then have "serve ?w sample_world"
    using arrived [of ?w 1 "''k''" 7 "Follow 0" ?s] by (simp add: sample_world_def)
  with one show ?thesis by (meson converse_rtranclp_into_rtranclp rtranclp.rtrancl_refl)
qed

theorem cache_invariant_witness: "sh_bytes (wd_shared sample_world) \<le> 32 * 1024 * 1024 \<or>
    length (sh_cache (wd_shared sample_world)) = 1"
  using cache_invariant [OF sample_run] by blast

theorem one_leader_per_query_witness:
  "''k'' \<notin> fst ` set (sh_cache (wd_shared sample_world)) \<and> \<not> pd_done (sh_slots (wd_shared sample_world) ! 0)"
  using one_leader_per_query [OF sample_run, of 0 "''k''" 0] by (simp add: sample_world_def)

theorem everybody_answered_witness:
  "\<exists>w. progress\<^sup>*\<^sup>* sample_world w \<and> length (wd_clients w) = 2 \<and> (\<forall>c \<in> set (wd_clients w). \<exists>r. c = Finished r)"
proof -
  have "length (wd_clients sample_world) = 2" by (simp add: sample_world_def)
  with everybody_answered [OF sample_run] show ?thesis by simp
qed

end
