(* ===== verification/Router_Facts.thy ===== *)
theory Router_Facts
  imports Router_Cache Rules_Facts Dns_Messages
begin

text \<open>
  Facts about the router: keys of the cache tell queries apart, the cache behaves as a map of
  answers, fallback groups are the reachable servers, and what a routed query can result in.
\<close>

section \<open>Keys\<close>

definition plain_text :: "string \<Rightarrow> bool" where
  "plain_text t \<longleftrightarrow> CHR 0x00 \<notin> set t"

lemma plain_simps [simp]:
  "plain_text (a @ b) \<longleftrightarrow> plain_text a \<and> plain_text b" "plain_text (c # a) \<longleftrightarrow> c \<noteq> CHR 0x00 \<and> plain_text a"
  "plain_text []" "plain_text (to_string n)"
  using to_string_digits [of n] by (auto simp: plain_text_def list_all_iff is_digit_def)

lemma first_stop:
  assumes "c \<notin> set a" "c \<notin> set b" "a @ c # x = b @ c # y"
  shows "a = b \<and> x = y"
  using assms
proof (induction a arbitrary: b)
  case Nil
  then show ?case by (cases b) auto
next
  case (Cons d a)
  then show ?case by (cases b) auto
qed

lemma number_split: "to_string m @ ''|'' @ x = to_string n @ ''|'' @ y \<Longrightarrow> m = n \<and> x = y"
  using first_stop [of "CHR ''|''" "to_string m" "to_string n" x y] to_string_no_bar by (simp add: to_string_inj)

lemma protocol_index_inj: "protocol_index p = protocol_index q \<longleftrightarrow> p = q"
  by (cases p; cases q) (simp_all add: protocol_index_def)

text \<open>C20: Two queries have the same cache key exactly when they agree on everything but the
  transaction id, on the route (display name apart) and on the configured server, or on the
  protocol, address and port of the original one.\<close>

theorem cache_key_exact:
  assumes "plain_text (nr_interface_id (srv_route s))" "plain_text (nr_interface_id (srv_route s'))"
    and "plain_text (srv_ip s)" "plain_text (srv_ip s')"
    and "CHR ''|'' \<notin> set (srv_ip s)" "CHR ''|'' \<notin> set (srv_ip s')"
  shows "cache_key request s configured = cache_key request' s' configured' \<longleftrightarrow>
    configured = configured' \<and> drop 2 request = drop 2 request' \<and>
    (srv_route s)\<lparr>nr_interface_name := []\<rparr> = (srv_route s')\<lparr>nr_interface_name := []\<rparr> \<and>
    (if configured then srv_id s = srv_id s'
     else srv_protocol s = srv_protocol s' \<and> srv_ip s = srv_ip s' \<and> srv_port s = srv_port s')"
    (is "?l \<longleftrightarrow> ?r")
proof
  let ?tail = "\<lambda>s c. network_route_key (srv_route s) @ ''|'' @
     (if \<not> c then srv_ip s @ ''|'' @ to_string (unat (srv_port s)) @ ''|'' else [])"
  let ?pre = "\<lambda>s c. (if c then ''configured:'' else ''original:'') @
     to_string (if c then unat (srv_id s) else protocol_index (srv_protocol s)) @ ''|'' @ ?tail s c"
  have key: "cache_key r s c = ?pre s c @ CHR 0x00 # CHR 0x00 # map chr (drop 2 r)" for r s c
    by (simp add: cache_key_def)
  have pre: "CHR 0x00 \<notin> set (?pre s configured)" "CHR 0x00 \<notin> set (?pre s' configured')"
    using assms(1-4) unfolding plain_text_def [symmetric] by (simp_all add: network_route_key_def)
  assume ?l
  then have "?pre s configured = ?pre s' configured' \<and>
      CHR 0x00 # map chr (drop 2 request) = CHR 0x00 # map chr (drop 2 request')"
    unfolding key by (rule first_stop [OF pre])
  then have eq: "?pre s configured = ?pre s' configured'" and body: "drop 2 request = drop 2 request'"
    by (auto simp: inj_map_eq_map inj_def)
  then have conf: "configured = configured'" by (auto split: if_splits)
  let ?n = "\<lambda>s. if configured then unat (srv_id s) else protocol_index (srv_protocol s)"
  have "to_string (?n s) @ ''|'' @ ?tail s configured = to_string (?n s') @ ''|'' @ ?tail s' configured"
    using eq conf by simp
  from number_split [OF this] have tails: "?tail s configured = ?tail s' configured"
    and num: "(if configured then unat (srv_id s) else protocol_index (srv_protocol s)) =
      (if configured then unat (srv_id s') else protocol_index (srv_protocol s'))"
    by simp_all
  show ?r
  proof (cases configured)
    case True
    then show ?thesis using conf body tails num by (simp add: network_route_key_inj flip: word_unat_eq_iff)
  next
    case False
    let ?p = "\<lambda>s. to_string (unat (srv_port s))"
    have 1: "(network_route_key (srv_route s) @ ''|'' @ srv_ip s) @ ''|'' @ ?p s =
        (network_route_key (srv_route s') @ ''|'' @ srv_ip s') @ ''|'' @ ?p s'"
      using tails False by simp
    from bar_split [OF 1 to_string_no_bar to_string_no_bar]
    have 2: "network_route_key (srv_route s) @ ''|'' @ srv_ip s = network_route_key (srv_route s') @ ''|'' @ srv_ip s'"
      and port: "?p s = ?p s'" by simp_all
    from bar_split [OF 2 assms(5,6)] show ?thesis
      using conf body num port False
      by (simp add: network_route_key_inj to_string_inj protocol_index_inj flip: word_unat_eq_iff)
  qed
next
  assume ?r
  then show ?l by (auto simp: cache_key_def network_route_key_inj [symmetric] split: if_splits)
qed

theorem cache_key_exact_witness:
  "cache_key [0, 1, 2] default_server True \<noteq> cache_key [0, 1, 3] default_server True \<and>
   cache_key [0, 1, 2] default_server True = cache_key [5, 5, 2] default_server True"
  by (subst (1 2) cache_key_exact) (simp_all add: default_server_def default_route_def)

section \<open>The cache as a map\<close>

text \<open>The abstract cache at a time: the entries that have not expired.\<close>

definition live :: "nat \<Rightarrow> shared \<Rightarrow> string \<Rightarrow> cache_entry option" where
  "live now s key = (case map_of (sh_cache s) key of
     Some e \<Rightarrow> if ce_expires e \<le> now then None else Some e | None \<Rightarrow> None)"

lemma map_of_filter_distinct:
  "distinct (map fst es) \<Longrightarrow> map_of (filter (\<lambda>e. P (snd e)) es) k =
    (case map_of es k of Some v \<Rightarrow> if P v then Some v else None | None \<Rightarrow> None)"
proof (induction es)
  case (Cons e es)
  then show ?case
  proof (cases "fst e = k")
    case True
    then have "k \<notin> fst ` set es" using Cons.prems by auto
    then have "map_of es k = None" by (simp add: map_of_eq_None_iff)
    with True Cons show ?thesis by (cases e) auto
  qed (cases e; auto)
qed simp

lemma expire_live:
  assumes "cache_ok s" "expire_loop now (sh_cache s) (sh_bytes s) = (es, b)"
  shows "map_of es = live now s"
proof -
  have bytes: "sh_bytes s = cache_bytes (sh_cache s) + 0" using assms(1) by (simp add: cache_ok_def)
  have "es = filter (\<lambda>e. \<not> ce_expires (snd e) \<le> now) (sh_cache s)"
    using assms(2) unfolding bytes expire_loop_spec by auto
  moreover have "distinct (map fst (sh_cache s))" using assms(1) by (simp add: cache_ok_def sorted_keys_distinct)
  ultimately show ?thesis
    by (auto simp: fun_eq_iff live_def map_of_filter_distinct [where P = "\<lambda>e. \<not> ce_expires e \<le> now"] split: option.splits)
qed

lemma live_fresh: "live now s k = Some v \<Longrightarrow> \<not> ce_expires v \<le> now"
  by (auto simp: live_def split: option.splits if_splits)

lemma look_up_live:
  assumes "cache_ok s"
  shows "live now (snd (look_up now key tid s)) = live now s"
    and "live now s key = Some e \<Longrightarrow> fst (look_up now key tid s) =
      Served (bindE (age_dns_response (ce_packet e) tid (of_nat ((now - ce_stored e) div 1000000000)))
        (\<lambda>p. Inr (p, ce_used_server_id e)))"
    and "live now s key = None \<Longrightarrow> fst (look_up now key tid s) \<in>
      {Follow (the (map_of (sh_pending s) key)), Lead (length (sh_slots s)),
       Served (Inl (Error ''UPSTREAM_BUSY'' ''Too many distinct DNS queries in flight''))}"
proof -
  obtain es b where e: "expire_loop now (sh_cache s) (sh_bytes s) = (es, b)"
    by (cases "expire_loop now (sh_cache s) (sh_bytes s)")
  note es = expire_live [OF assms e]
  have "sh_cache (snd (look_up now key tid s)) = es"
    by (simp add: look_up_def e Let_def split: option.split)
  then show "live now (snd (look_up now key tid s)) = live now s"
    by (auto simp: live_def [of now "snd _"] es fun_eq_iff split: option.split dest: live_fresh)
  show "live now s key = Some e \<Longrightarrow> fst (look_up now key tid s) =
      Served (bindE (age_dns_response (ce_packet e) tid (of_nat ((now - ce_stored e) div 1000000000)))
        (\<lambda>p. Inr (p, ce_used_server_id e)))"
    by (simp add: look_up_def e Let_def es)
  show "live now s key = None \<Longrightarrow> fst (look_up now key tid s) \<in>
      {Follow (the (map_of (sh_pending s) key)), Lead (length (sh_slots s)),
       Served (Inl (Error ''UPSTREAM_BUSY'' ''Too many distinct DNS queries in flight''))}"
    by (simp add: look_up_def e Let_def es split: option.split)
qed

lemma store_answer_live:
  fixes now packet ttl used_id
  assumes "cache_ok s" "key \<notin> fst ` set (sh_cache s)"
  defines "entry \<equiv> \<lparr>ce_packet = packet, ce_stored = now, ce_expires = now + seconds (unat (min ttl 86400)),
    ce_used_server_id = used_id\<rparr>"
  shows "live now (store_answer now key packet used_id ttl s) \<subseteq>\<^sub>m (live now s)(key \<mapsto> entry)"
    and "live now (store_answer now key packet used_id ttl s) key = (if ttl = 0 then None else Some entry)"
proof -
  obtain es b where e: "evict_loop (length packet + length key) (sh_cache s) (cache_bytes (sh_cache s)) = (es, b)"
    by (cases "evict_loop (length packet + length key) (sh_cache s) (cache_bytes (sh_cache s))")
  have srt: "sorted_wrt (<) (map fst (sh_cache s))" and bytes: "sh_bytes s = cache_bytes (sh_cache s)"
    using assms(1) by (simp_all add: cache_ok_def)
  have spec: "sorted_wrt (<) (map fst es)" "set es \<subseteq> set (sh_cache s)" using evict_loop_spec [OF srt e] by auto
  have cache: "map_of (sh_cache (store_answer now key packet used_id ttl s)) = (map_of es)(key \<mapsto> entry)"
    by (simp add: store_answer_def Let_def bytes e put_entry_lookup [OF spec(1)] entry_def)
  have sub: "map_of (sh_cache s) k = Some v" if "map_of es k = Some v" for k v
    using that spec(2) sorted_keys_distinct [OF srt] by (meson map_of_SomeD map_of_is_SomeI subsetD)
  have kept: "live now (store_answer now key packet used_id ttl s) k = Some v \<Longrightarrow> k \<noteq> key \<Longrightarrow> live now s k = Some v" for k v
    using sub by (auto simp: live_def cache split: option.splits if_splits)
  have expires: "ce_expires entry \<le> now \<longleftrightarrow> ttl = 0"
    by (auto simp: entry_def seconds_def min_def unat_eq_zero split: if_splits)
  then show key: "live now (store_answer now key packet used_id ttl s) key = (if ttl = 0 then None else Some entry)"
    by (simp add: live_def cache)
  show "live now (store_answer now key packet used_id ttl s) \<subseteq>\<^sub>m (live now s)(key \<mapsto> entry)"
  proof (unfold map_le_def, intro ballI)
    fix k assume "k \<in> dom (live now (store_answer now key packet used_id ttl s))"
    then obtain v where v: "live now (store_answer now key packet used_id ttl s) k = Some v" by auto
    show "live now (store_answer now key packet used_id ttl s) k = ((live now s)(key \<mapsto> entry)) k"
      using v key kept [OF v] by (cases "k = key") (auto split: if_splits)
  qed
qed

text \<open>C6: The answer cache implements a map of live answers: a look-up leaves the live answers
  alone and serves the aged answer of its key exactly when there is one, otherwise it
  coalesces, leads or reports that too many queries are in flight; storing an answer adds
  it, evicting others at most.\<close>

theorem cache_refines_map:
  assumes "cache_ok s"
  shows "live now (snd (look_up now key tid s)) = live now s \<and>
    (case live now s key of
       Some e \<Rightarrow> fst (look_up now key tid s) =
         Served (bindE (age_dns_response (ce_packet e) tid (of_nat ((now - ce_stored e) div 1000000000)))
           (\<lambda>p. Inr (p, ce_used_server_id e)))
     | None \<Rightarrow> fst (look_up now key tid s) \<in>
         {Follow (the (map_of (sh_pending s) key)), Lead (length (sh_slots s)),
          Served (Inl (Error ''UPSTREAM_BUSY'' ''Too many distinct DNS queries in flight''))}) \<and>
    (key \<notin> fst ` set (sh_cache s) \<longrightarrow>
      (let entry = \<lparr>ce_packet = packet, ce_stored = now, ce_expires = now + seconds (unat (min ttl 86400)),
             ce_used_server_id = used_id\<rparr>;
           stored = live now (store_answer now key packet used_id ttl s) in
       stored \<subseteq>\<^sub>m (live now s)(key \<mapsto> entry) \<and> stored key = (if ttl = 0 then None else Some entry)))"
  using look_up_live [OF assms, where now = now and key = key and tid = tid]
    store_answer_live [OF assms, where now = now and key = key and packet = packet and used_id = used_id and ttl = ttl]
  by (auto simp: Let_def split: option.split)

theorem cache_refines_map_witness:
  "live 5 (store_answer 5 ''k'' [1] 2 60 no_shared) ''k'' =
    Some \<lparr>ce_packet = [1], ce_stored = 5, ce_expires = 5 + seconds 60, ce_used_server_id = 2\<rparr>"
proof -
  have "cache_ok no_shared" by (simp add: cache_ok_def no_shared_def)
  from cache_refines_map [OF this, where now = 5 and key = "''k''" and tid = 0 and used_id = 2
      and packet = "[1]" and ttl = 60] show ?thesis
    by (simp add: no_shared_def Let_def)
qed

section \<open>Fallback groups\<close>

text \<open>The server an id stands for in a group, and the fallback relation on ids.\<close>

definition group_server :: "server list \<Rightarrow> server \<Rightarrow> 32 word \<Rightarrow> server option" where
  "group_server servers primary i =
     (if i = srv_id primary then Some primary else find (\<lambda>v. srv_id v = i) servers)"

definition fallback_of :: "server list \<Rightarrow> server \<Rightarrow> (32 word \<times> 32 word) set" where
  "fallback_of servers primary =
     {(i, j). \<exists>v. group_server servers primary i = Some v \<and> j \<in> set (srv_fallback_ids v) \<and>
        find (\<lambda>v. srv_id v = j) servers \<noteq> None}"

text \<open>
  What \<open>append_server\<close> does to a state: it adds ids and their servers at the end, among them
  its argument, and all fallbacks of what it added.
\<close>

definition group_state :: "server list \<Rightarrow> server \<Rightarrow> 32 word set \<times> server list \<Rightarrow> bool" where
  "group_state servers primary s \<longleftrightarrow> distinct (map srv_id (snd s)) \<and> fst s = srv_id ` set (snd s) \<and>
     (\<forall>v \<in> set (snd s). group_server servers primary (srv_id v) = Some v)"

definition grows :: "server list \<Rightarrow> server \<Rightarrow> 32 word set \<times> server list \<Rightarrow> 32 word set \<times> server list \<Rightarrow> bool" where
  "grows servers primary s s' \<longleftrightarrow> group_state servers primary s' \<and> fst s \<subseteq> fst s' \<and>
     (\<exists>vs. snd s' = snd s @ vs) \<and>
     (\<forall>i \<in> fst s' - fst s. \<forall>j. (i, j) \<in> fallback_of servers primary \<longrightarrow> j \<in> fst s') \<and>
     (\<forall>i \<in> fst s' - fst s. (srv_id primary, i) \<in> (fallback_of servers primary)\<^sup>*)"

lemma growsD:
  assumes "grows servers primary s s'"
  shows "group_state servers primary s'" "fst s \<subseteq> fst s'" "\<exists>vs. snd s' = snd s @ vs"
    "i \<in> fst s' \<Longrightarrow> i \<notin> fst s \<Longrightarrow> (i, j) \<in> fallback_of servers primary \<Longrightarrow> j \<in> fst s'"
    "i \<in> fst s' \<Longrightarrow> i \<notin> fst s \<Longrightarrow> (srv_id primary, i) \<in> (fallback_of servers primary)\<^sup>*"
  using assms unfolding grows_def by blast+

lemma growsI:
  assumes "group_state servers primary s'" "fst s \<subseteq> fst s'" "snd s' = snd s @ vs"
    "\<And>i j. i \<in> fst s' \<Longrightarrow> i \<notin> fst s \<Longrightarrow> (i, j) \<in> fallback_of servers primary \<Longrightarrow> j \<in> fst s'"
    "\<And>i. i \<in> fst s' \<Longrightarrow> i \<notin> fst s \<Longrightarrow> (srv_id primary, i) \<in> (fallback_of servers primary)\<^sup>*"
  shows "grows servers primary s s'"
  using assms unfolding grows_def by blast

lemma grows_refl: "group_state servers primary s \<Longrightarrow> grows servers primary s s"
  by (rule growsI [where vs = "[]"]) simp_all

lemma grows_trans:
  assumes "grows servers primary s t" "grows servers primary t u"
  shows "grows servers primary s u"
proof -
  obtain vs ws where "snd t = snd s @ vs" "snd u = snd t @ ws" using growsD(3) [OF assms(1)] growsD(3) [OF assms(2)] by blast
  then have "snd u = snd s @ vs @ ws" by simp
  moreover have "fst s \<subseteq> fst t" "fst t \<subseteq> fst u" using assms by (auto dest: growsD(2))
  ultimately show ?thesis
    using growsD(4,5) [OF assms(1)] growsD(4,5) [OF assms(2)] growsD(1) [OF assms(2)]
    by (intro growsI [of servers primary u s "vs @ ws"]) blast+
qed

lemma find_id: "find (\<lambda>v. srv_id v = i) servers = Some v \<Longrightarrow> srv_id v = i \<and> v \<in> set servers"
  by (auto simp: find_Some_iff)

lemma append_server_grows:
  assumes "card (insert (srv_id primary) (srv_id ` set servers) - fst s) < n"
    and "group_state servers primary s"
    and "srv_id server \<in> fst s \<or> group_server servers primary (srv_id server) = Some server"
    and "srv_id server = srv_id primary \<or> srv_id primary \<in> fst s"
    and "(srv_id primary, srv_id server) \<in> (fallback_of servers primary)\<^sup>*"
  shows "grows servers primary s (append_server n servers server s) \<and>
    srv_id server \<in> fst (append_server n servers server s)"
  using assms
proof (induction n arbitrary: server s)
  case (Suc n)
  obtain added cands where s: "s = (added, cands)" by (cases s)
  show ?case
  proof (cases "srv_id server \<in> added")
    case True
    then show ?thesis using Suc.prems(2) by (simp add: s grows_refl)
  next
    case False
    let ?U = "insert (srv_id primary) (srv_id ` set servers)"
    let ?s1 = "(insert (srv_id server) added, cands @ [server])"
    let ?f = "\<lambda>i s. case find (\<lambda>v. srv_id v = i) servers of
                      Some v \<Rightarrow> append_server n servers v s | None \<Rightarrow> s"
    have gs: "group_server servers primary (srv_id server) = Some server" using Suc.prems(3) False by (simp add: s)
    then have inU: "srv_id server \<in> ?U" by (auto simp: group_server_def dest: find_id split: if_splits)
    have card: "card (?U - insert (srv_id server) added) < n"
    proof -
      have "?U - insert (srv_id server) added = (?U - added) - {srv_id server}" by blast
      moreover have "srv_id server \<in> ?U - added" using inU False by blast
      ultimately have "card (?U - insert (srv_id server) added) < card (?U - added)"
        by (metis card_Diff1_less finite_Diff finite_imageI finite_insert finite_set)
      then show ?thesis using Suc.prems(1) by (simp add: s)
    qed
    have prim: "srv_id primary \<in> insert (srv_id server) added" using Suc.prems(4) by (auto simp: s)
    have s1: "group_state servers primary ?s1"
      using Suc.prems(2) False gs by (auto simp: group_state_def s)
    have loop: "grows servers primary t (fold ?f ids t) \<and>
        (\<forall>i \<in> set ids. find (\<lambda>v. srv_id v = i) servers \<noteq> None \<longrightarrow> i \<in> fst (fold ?f ids t))"
      if "group_state servers primary t" "insert (srv_id server) added \<subseteq> fst t"
        "set ids \<subseteq> set (srv_fallback_ids server)" for ids t
      using that
    proof (induction ids arbitrary: t)
      case Nil
      then show ?case by (simp add: grows_refl)
    next
      case (Cons i ids)
      have step: "grows servers primary t (?f i t) \<and> (find (\<lambda>v. srv_id v = i) servers \<noteq> None \<longrightarrow> i \<in> fst (?f i t))"
      proof (cases "find (\<lambda>v. srv_id v = i) servers")
        case None
        then show ?thesis using Cons.prems by (simp add: grows_refl)
      next
        case (Some v)
        have "card (?U - fst t) \<le> card (?U - insert (srv_id server) added)"
          using Cons.prems(2) by (intro card_mono) auto
        then have "card (?U - fst t) < n" using card by simp
        moreover have "srv_id v \<in> fst t \<or> group_server servers primary (srv_id v) = Some v"
          using Some find_id [OF Some] prim Cons.prems(2) by (auto simp: group_server_def)
        moreover have "srv_id primary \<in> fst t" using prim Cons.prems(2) by blast
        moreover have "(srv_id primary, srv_id v) \<in> (fallback_of servers primary)\<^sup>*"
        proof (rule rtrancl_into_rtrancl [OF Suc.prems(5)])
          show "(srv_id server, srv_id v) \<in> fallback_of servers primary"
            using gs Some find_id [OF Some] Cons.prems(3) by (auto simp: fallback_of_def)
        qed
        ultimately show ?thesis using Suc.IH [of t v] Cons.prems(1) Some find_id [OF Some] by simp
      qed
      let ?t = "?f i t"
      have t: "group_state servers primary ?t" "insert (srv_id server) added \<subseteq> fst ?t"
        by (rule growsD(1) [OF step [THEN conjunct1]])
          (rule order_trans [OF Cons.prems(2) growsD(2) [OF step [THEN conjunct1]]])
      have ids: "set ids \<subseteq> set (srv_fallback_ids server)" using Cons.prems(3) by simp
      note IH = Cons.IH [OF t ids]
      have "grows servers primary t (fold ?f ids ?t)"
        by (rule grows_trans [OF step [THEN conjunct1] IH [THEN conjunct1]])
      moreover have "fst ?t \<subseteq> fst (fold ?f ids ?t)" by (rule growsD(2) [OF IH [THEN conjunct1]])
      ultimately show ?case
        using step IH [THEN conjunct2] unfolding fold_simps list.set ball_simps by blast
    qed
    let ?r = "fold ?f (srv_fallback_ids server) ?s1"
    have r: "append_server (Suc n) servers server s = ?r" using False by (simp add: s)
    from loop [OF s1, of "srv_fallback_ids server"] have
      grow: "grows servers primary ?s1 ?r" and
      next_in: "\<And>i. i \<in> set (srv_fallback_ids server) \<Longrightarrow> find (\<lambda>v. srv_id v = i) servers \<noteq> None \<Longrightarrow> i \<in> fst ?r"
      by auto
    obtain vs where vs: "snd ?r = (cands @ [server]) @ vs" using growsD(3) [OF grow] by auto
    have sub: "insert (srv_id server) added \<subseteq> fst ?r" using growsD(2) [OF grow] by simp
    have "grows servers primary s ?r"
    proof (rule growsI [where vs = "server # vs"])
      show "group_state servers primary ?r" by (rule growsD(1) [OF grow])
      show "fst s \<subseteq> fst ?r" using sub by (simp only: s fst_conv) blast
      show "snd ?r = snd s @ server # vs" using vs by (simp only: s snd_conv append_assoc append.simps)
    next
      fix i j assume i: "i \<in> fst ?r" "i \<notin> fst s" "(i, j) \<in> fallback_of servers primary"
      show "j \<in> fst ?r"
      proof (cases "i = srv_id server")
        case True
        then have "j \<in> set (srv_fallback_ids server)" "find (\<lambda>v. srv_id v = j) servers \<noteq> None"
          using i(3) gs by (simp_all only: fallback_of_def mem_Collect_eq prod.case) auto
        then show ?thesis by (rule next_in)
      next
        case False
        then have "i \<notin> fst ?s1" using i(2) by (simp add: s)
        then show ?thesis by (rule growsD(4) [OF grow i(1) _ i(3)])
      qed
    next
      fix i assume i: "i \<in> fst ?r" "i \<notin> fst s"
      show "(srv_id primary, i) \<in> (fallback_of servers primary)\<^sup>*"
      proof (cases "i = srv_id server")
        case False
        then have "i \<notin> fst ?s1" using i(2) by (simp add: s)
        then show ?thesis by (rule growsD(5) [OF grow i(1)])
      qed (use Suc.prems(5) in simp)
    qed
    moreover have "srv_id server \<in> fst ?r" using sub by blast
    ultimately show ?thesis unfolding r by (rule conjI)
  qed
qed simp

text \<open>The candidates are exactly the enabled servers that the fallbacks reach.\<close>

lemma group_ids:
  assumes "append_server (length (cf_servers config) + 2) (cf_servers config) primary ({}, []) = (added, cands)"
  shows "group_state (cf_servers config) primary (added, cands)"
    and "added = {i. (srv_id primary, i) \<in> (fallback_of (cf_servers config) primary)\<^sup>*}"
proof -
  let ?S = "cf_servers config" and ?E = "fallback_of (cf_servers config) primary"
  have "card (srv_id ` set ?S) \<le> length ?S" by (meson card_image_le card_length finite_set le_trans)
  then have "card (insert (srv_id primary) (srv_id ` set ?S) - fst ({}, [])) < length ?S + 2"
    by (simp add: card_insert_if)
  note grow = append_server_grows [OF this, of primary, unfolded assms fst_conv]
  have g: "grows ?S primary ({}, []) (added, cands)" and root: "srv_id primary \<in> added"
    using grow by (simp_all add: group_state_def group_server_def)
  then show "group_state ?S primary (added, cands)" by (intro growsD(1))
  have "i \<in> added" if "(srv_id primary, i) \<in> ?E\<^sup>*" for i
    using that
  proof (induction rule: rtrancl_induct)
    case (step i j)
    then show ?case using growsD(4) [OF g, of i j] by simp
  qed (rule root)
  moreover have "(srv_id primary, i) \<in> ?E\<^sup>*" if "i \<in> added" for i
    using growsD(5) [OF g, of i] that by simp
  ultimately show "added = {i. (srv_id primary, i) \<in> ?E\<^sup>*}" by blast
qed

lemma group_candidates_exact:
  "distinct (map srv_id (group_candidates config primary)) \<and>
   set (group_candidates config primary) =
     {v. srv_enabled v \<and> group_server (cf_servers config) primary (srv_id v) = Some v \<and>
         (srv_id primary, srv_id v) \<in> (fallback_of (cf_servers config) primary)\<^sup>*}"
proof -
  obtain added cands where e:
    "append_server (length (cf_servers config) + 2) (cf_servers config) primary ({}, []) = (added, cands)"
    by (cases "append_server (length (cf_servers config) + 2) (cf_servers config) primary ({}, [])")
  note ids = group_ids [OF e]
  then have gs: "distinct (map srv_id cands)" "added = srv_id ` set cands"
    "\<forall>v \<in> set cands. group_server (cf_servers config) primary (srv_id v) = Some v"
    by (simp_all add: group_state_def)
  have "v \<in> set cands" if "group_server (cf_servers config) primary (srv_id v) = Some v" "srv_id v \<in> added" for v
    using that gs(2,3) by force
  then have "set cands = {v. group_server (cf_servers config) primary (srv_id v) = Some v \<and> srv_id v \<in> added}"
    using gs(2,3) by auto
  then show ?thesis
    using gs(1) unfolding group_candidates_def e snd_conv ids(2) by (auto simp: distinct_map_filter)
qed

lemma insert_back_set: "set (insert_back lt x xs) = insert x (set xs)"
  by (induction xs) auto

lemma stable_sort_set: "set (stable_sort lt xs) = set xs"
proof -
  have "set (fold (insert_back lt) xs acc) = set xs \<union> set acc" for acc
    by (induction xs arbitrary: acc) (auto simp: insert_back_set)
  then show ?thesis by (simp add: stable_sort_def)
qed

lemma group_budget_bound: "group_budget candidates \<le> 120000"
proof -
  have "foldl (\<lambda>budget s. min 120000 (budget + unat (srv_timeout_ms s))) b candidates \<le> 120000" if "b \<le> 120000" for b
    using that by (induction candidates arbitrary: b) auto
  then show ?thesis by (simp add: group_budget_def)
qed

lemma attempt_loop_sound:
  "fst (attempt_loop up request primary deadline all rest now prev hs) = Inr (packet, server) \<Longrightarrow>
   server \<in> set rest \<and> (\<exists>t < deadline. fst (exchange up t request (attempt_server t deadline primary server)) = Inr packet)"
proof (induction rest arbitrary: now prev hs)
  case (Cons c rest)
  show ?case
  proof (cases "now \<ge> deadline")
    case False
    let ?skip = "hl_retry_after (health_of hs (health_key primary c)) > now \<and> (\<exists>s \<in> set all. s \<noteq> c \<and>
              hl_retry_after (health_of hs (health_key primary s)) \<le> now)"
    obtain r ended where e: "exchange up now request (attempt_server now deadline primary c) = (r, ended)"
      by (cases "exchange up now request (attempt_server now deadline primary c)")
    show ?thesis
    proof (cases ?skip)
      case True
      then show ?thesis using Cons.IH [of now prev hs] Cons.prems False by (auto simp: Let_def)
    next
      case no_skip: False
      show ?thesis
      proof (cases r)
        case (Inr p)
        then have "p = packet" "c = server" using Cons.prems False no_skip e by (auto simp: Let_def split: if_splits)
        then show ?thesis using False e Inr by (intro conjI exI [of _ now]) auto
      next
        case (Inl err)
        then have "err_code err \<noteq> ''CANCELLED''" using Cons.prems False no_skip e by (auto simp: Let_def split: if_splits)
        then have "fst (attempt_loop up request primary deadline all rest ended
            (Error (err_code err) (failure_text c (attempt_server now deadline primary c) err))
            (AList.update (health_key primary c) (record_failure ended (health_of hs (health_key primary c))) hs)) =
            Inr (packet, server)"
          using Cons.prems False no_skip e Inl by (auto simp: Let_def split: if_splits prod.splits)
        from Cons.IH [OF this] show ?thesis by auto
      qed
    qed
  qed (use Cons.prems in simp)
qed simp

text \<open>C19: A fallback group answers with what some enabled server reachable through the
  fallbacks returned for the request, sent before the deadline of the group, which is at
  most two minutes away; a server without fallbacks answers itself.\<close>

theorem exchange_group_sound:
  assumes "exchange_group up config now request primary hs = (Inr (packet, server), hs', ended, logs)"
  shows "(srv_id primary = 0 \<or> srv_fallback_ids primary = []) \<and> server = primary \<and>
      fst (exchange up now request primary) = Inr packet
    \<or> srv_enabled server \<and> group_server (cf_servers config) primary (srv_id server) = Some server \<and>
      (srv_id primary, srv_id server) \<in> (fallback_of (cf_servers config) primary)\<^sup>* \<and>
      (\<exists>t deadline. t < deadline \<and> deadline \<le> now + milliseconds 120000 \<and>
         fst (exchange up t request (attempt_server t deadline primary server)) = Inr packet)"
proof (cases "srv_id primary = 0 \<or> srv_fallback_ids primary = []")
  case True
  with assms show ?thesis by (auto simp: exchange_group_def split: prod.splits sum.splits)
next
  case False
  let ?c = "group_candidates config primary"
  let ?hs = "enter_health primary ?c hs"
  let ?o = "order_candidates now primary ?hs ?c"
  let ?d = "now + milliseconds (group_budget ?c)"
  have "fst (attempt_loop up request primary ?d ?o ?o now
      (Error ''UPSTREAM_UNAVAILABLE'' ''No upstream attempt completed'') ?hs) = Inr (packet, server)"
    using assms False by (auto simp: exchange_group_def Let_def split: if_splits)
  from attempt_loop_sound [OF this] obtain t where t: "server \<in> set ?o" "t < ?d"
    "fst (exchange up t request (attempt_server t ?d primary server)) = Inr packet" by blast
  have "set ?o = set ?c" by (simp add: order_candidates_def Let_def stable_sort_set)
  with t(1) have "server \<in> set ?c" by simp
  moreover have "?d \<le> now + milliseconds 120000" using group_budget_bound [of ?c] by (simp add: milliseconds_def)
  ultimately show ?thesis using group_candidates_exact [of config primary] t(2,3) by blast
qed

lemma attempt_timeout:
  "unat (srv_timeout_ms (attempt_server t deadline primary c)) \<le> unat (srv_timeout_ms c)"
proof -
  have "unat (of_nat m :: 32 word) \<le> m" for m by (simp add: unat_of_nat)
  then show ?thesis by (simp add: attempt_server_def) (meson le_trans min.cobounded1)
qed

text \<open>
  The comparison that orders the candidates is no strict weak order: a candidate without a
  measured latency is equivalent to every other one, but those need not be equivalent.
\<close>

lemma health_less_not_weak:
  "\<exists>a b c. \<not> health_less now True a b \<and> \<not> health_less now True b a \<and> \<not> health_less now True b c \<and>
     \<not> health_less now True c b \<and> health_less now True a c"
proof -
  let ?h = "\<lambda>l. no_health\<lparr>hl_latency := l\<rparr>"
  have "\<not> health_less now True (?h (Some 1)) (?h None) \<and> \<not> health_less now True (?h None) (?h (Some 1)) \<and>
     \<not> health_less now True (?h None) (?h (Some 2)) \<and> \<not> health_less now True (?h (Some 2)) (?h None) \<and>
     health_less now True (?h (Some 1)) (?h (Some 2))"
    by (simp add: health_less_def no_health_def Let_def)
  then show ?thesis by blast
qed

section \<open>Routing\<close>

definition routable :: "packet \<Rightarrow> question \<Rightarrow> bool" where
  "routable request q \<longleftrightarrow> parse_question request = Inr q \<and> q_flags q AND 0x8000 = 0"

lemma make_error_response_ok:
  assumes "routable request q" "edns_request request q = Inr e"
  shows "\<exists>p. make_error_response request 2 = Inr p"
  using assms by (simp add: routable_def make_error_response_def synthetic_response_def Let_def del: bindE_Inr_iff)

lemma route_failed_cases:
  "route_failed request False e result =
    Inr (result\<lparr>rr_error_code := err_code e, rr_message := err_msg e, rr_disposition := Drop_silently\<rparr>)"
  "route_failed request True e result = Inr r \<Longrightarrow>
    rr_error_code r = err_code e \<and> rr_disposition r = rr_disposition result \<and> rr_action r = rr_action result \<and>
    make_error_response request 2 = Inr (rr_packet r)"
  by (auto simp: route_failed_def Let_def)

lemma route_unfold:
  assumes "routable request q"
  shows "route up network config options now request original s =
    (case evaluate_rule config (q_name q) None network of
             Inl e \<Rightarrow>
               (route_failed request True e no_result, s, now,
                [route_log [] None errors_only (err_code e) (q_name q @ '' '' @ err_msg e)])
           | Inr decision \<Rightarrow>
               let rule = the (rd_rule decision);
                   result = no_result\<lparr>rr_rule_id := rl_id rule, rr_server_id := rl_server_id rule,
                     rr_action := rl_action rule\<rparr>;
                   log = route_log (rl_name rule);
                   failure_log = (\<lambda>e selected elapsed. log selected errors_only (err_code e)
                     (route_log_message q rule selected elapsed @ '', error='' @ err_msg e)) in
               if rd_error_code decision \<noteq> [] then
                 let e = Error (rd_error_code decision) (rd_message decision) in
                 (route_failed request True e result, s, now, [failure_log e None None])
               else if rd_captive_bypass decision \<or> rl_action rule = Action_bypass then
                 (Inr (result\<lparr>rr_disposition := Forward_original, rr_packet := request\<rparr>), s, now,
                  (if rd_captive_bypass decision
                   then [log None normal ''CAPTIVE_PORTAL_BYPASS''
                           ''Preserving OS resolver for captive portal discovery''] else []) @
                  (if up_enabled up normal
                   then [log None normal ''DNS_ROUTE'' (route_log_message q rule (Some original) None)]
                   else []))
               else if rl_action rule = Action_block then
                 let logs = (if up_enabled up normal
                       then [log None normal ''DNS_ROUTE'' (route_log_message q rule None None)] else []) in
                 if rl_block_mode rule = silent_drop
                 then (Inr (result\<lparr>rr_disposition := Drop_silently\<rparr>), s, now, logs)
                 else
                   (case make_block_response request (rl_block_mode rule) of
                      Inr packet \<Rightarrow> (Inr (result\<lparr>rr_packet := packet\<rparr>), s, now, logs)
                    | Inl e \<Rightarrow> (route_failed request True e result, s, now, logs @ [failure_log e None None]))
               else
                 (case process_query up config options (sn_generation network) now request original
                         q rule decision result s of
                    (Inr result, s, ended, logs) \<Rightarrow> (Inr result, s, ended, logs)
                  | (Inl (e, selected, started, result), s, ended, logs) \<Rightarrow>
                      (route_failed request True e result, s, ended,
                       logs @ [failure_log e selected
                         (map_option (\<lambda>t. up_elapsed up (ended - t)) started)])))"
  using assms by (simp add: route_def routable_def del: bindE_Inr_iff)

text \<open>What \<open>process_query\<close> keeps of the result it is given, and what it returns.\<close>

definition answered_for :: "upstream \<Rightarrow> question \<Rightarrow> route_result \<Rightarrow> route_result \<Rightarrow> bool" where
  "answered_for up q result r \<longleftrightarrow> rr_disposition r = rr_disposition result \<and> rr_action r = rr_action result \<and>
     (\<exists>a. parse_response (up_format up) (rr_packet r) q = Inr a)"

lemma finish_route_result:
  assumes "finish_route up config q rule server elapsed packet used_id result = (sv, r1, out)"
  shows "rr_disposition r1 = rr_disposition result \<and> rr_action r1 = rr_action result \<and>
    (\<forall>logs r. out = Inr (logs, r) \<longrightarrow> answered_for up q result r)"
  using assms by (auto simp: finish_route_def Let_def answered_for_def split: if_splits)

lemma process_query_result:
  assumes "process_query up config options generation now request original q rule decision result s = (out, s', ended, logs)"
  shows "case out of
      Inl (e, selected, started, r) \<Rightarrow> rr_disposition r = rr_disposition result \<and> rr_action r = rr_action result
    | Inr r \<Rightarrow> answered_for up q result r"
proof (cases "routed_server config generation original rule decision")
  case (Pair selected found)
  show ?thesis
  proof (cases found)
    case (Inl e)
    with Pair assms show ?thesis by (auto simp: process_query_def)
  next
    case (Inr server)
    obtain x s1 t l where x: "exchange_cached up config options now request server (rl_server_id rule \<noteq> 0) s = (x, s1, t, l)"
      by (cases "exchange_cached up config options now request server (rl_server_id rule \<noteq> 0) s")
    show ?thesis
    proof (cases x)
      case (Inl e)
      with Pair Inr x assms show ?thesis by (auto simp: process_query_def Let_def)
    next
      case r: (Inr y)
      obtain packet used where y: "y = (packet, used)" by (cases y)
      obtain sv r1 fin where f: "finish_route up config q rule server (t - now) packet used result = (sv, r1, fin)"
        by (cases "finish_route up config q rule server (t - now) packet used result")
      show ?thesis
        using Pair Inr x r y f finish_route_result [OF f] assms
        by (cases fin) (auto simp: process_query_def Let_def)
    qed
  qed
qed

lemma not_routable:
  assumes "\<nexists>q. routable request q"
  shows "\<exists>e logs. route up network config options now request original s =
    (Inr (no_result\<lparr>rr_error_code := err_code e, rr_message := err_msg e, rr_disposition := Drop_silently\<rparr>), s, now, logs)"
proof (cases "parse_question request")
  case (Inl e)
  then show ?thesis by (auto simp: route_def route_failed_cases(1))
next
  case (Inr q)
  then have "q_flags q AND 0x8000 \<noteq> 0" using assms by (auto simp: routable_def)
  then show ?thesis using Inr
    by (intro exI [where x = "malformed ''Cannot route a reply as a query''"])
      (auto simp: route_def route_failed_cases(1))
qed

text \<open>
  \<open>route\<close> throws only for a request whose question is valid but whose records are not: then
  \<open>make_error_response\<close> throws in the \<open>catch\<close> block.
\<close>

text \<open>C33: Every failure inside route becomes a result; the only requests for which it can throw
  are those with a valid question whose records do not parse.\<close>

theorem route_returns:
  "(\<exists>r. fst (route up network config options now request original s) = Inr r) \<or>
   (\<exists>q e. routable request q \<and> edns_request request q = Inl e)"
proof (cases "\<exists>q. routable request q")
  case False
  from not_routable [OF this, of up network config options now original s] show ?thesis by auto
next
  case True
  then obtain q where q: "routable request q" by blast
  show ?thesis
  proof (cases "edns_request request q")
    case (Inr ed)
    obtain p where "make_error_response request 2 = Inr p" using make_error_response_ok [OF q Inr] by blast
    then have failed: "\<exists>r. route_failed request True e result = Inr r" for e result
      by (simp add: route_failed_def Let_def)
    show ?thesis
      unfolding route_unfold [OF q] Let_def
      by (auto simp: failed split: sum.splits prod.splits)
  qed (use q in blast)
qed

text \<open>C18: What route returns: a forwarded packet is the request unchanged and nothing was
  exchanged; a blocked or dropped query touches neither the upstream nor the cache; a reply
  is an error response, a block response, or a packet that parse_response accepts as the
  answer to the question.\<close>

theorem route_outcome:
  assumes "route up network config options now request original s = (Inr r, s', t, logs)"
  shows "(rr_disposition r = Forward_original \<longrightarrow> rr_packet r = request \<and> s' = s \<and> t = now) \<and>
    (rr_disposition r = Drop_silently \<or> rr_action r = Action_block \<longrightarrow> s' = s \<and> t = now) \<and>
    (rr_disposition r = Reply \<longrightarrow>
       make_error_response request 2 = Inr (rr_packet r) \<or>
       rr_action r = Action_block \<and> (\<exists>m. make_block_response request m = Inr (rr_packet r)) \<or>
       (\<exists>q a. routable request q \<and> parse_response (up_format up) (rr_packet r) q = Inr a))"
proof (cases "\<exists>q. routable request q")
  case False
  from not_routable [OF this, of up network config options now original s] assms show ?thesis by auto
next
  case True
  then obtain q where q: "routable request q" by blast
  note route = assms [unfolded route_unfold [OF q] Let_def]
  note failed = route_failed_cases(2)
  show ?thesis
  proof (cases "evaluate_rule config (q_name q) None network")
    case (Inl e)
    with route failed [of request e no_result r] show ?thesis by (simp add: no_result_def)
  next
    case (Inr d)
    let ?rule = "the (rd_rule d)"
    let ?result = "no_result\<lparr>rr_rule_id := rl_id ?rule, rr_server_id := rl_server_id ?rule, rr_action := rl_action ?rule\<rparr>"
    have result: "rr_disposition ?result = Reply" "rr_action ?result = rl_action ?rule" by (simp_all add: no_result_def)
    consider "rd_error_code d \<noteq> []"
      | "rd_error_code d = []" "rd_captive_bypass d \<or> rl_action ?rule = Action_bypass"
      | "rd_error_code d = []" "\<not> (rd_captive_bypass d \<or> rl_action ?rule = Action_bypass)" "rl_action ?rule = Action_block"
      | "rd_error_code d = []" "\<not> (rd_captive_bypass d \<or> rl_action ?rule = Action_bypass)" "rl_action ?rule \<noteq> Action_block"
      by blast
    then show ?thesis
    proof cases
      case 1
      with route Inr failed [of request "Error (rd_error_code d) (rd_message d)" ?result r] show ?thesis
        by (auto simp: result)
    next
      case 2
      with route Inr show ?thesis by auto
    next
      case 3
      show ?thesis
      proof (cases "make_block_response request (rl_block_mode ?rule)")
        case (Inl e)
        then consider "r = ?result\<lparr>rr_disposition := Drop_silently\<rparr>" "s' = s" "t = now"
          | "route_failed request True e ?result = Inr r" "s' = s" "t = now"
          using route Inr 3 \<open>evaluate_rule config (q_name q) None network = Inr d\<close>
          by (cases "rl_block_mode ?rule = silent_drop") (auto simp: Let_def)
        then show ?thesis
        proof cases
          case 2
          then show ?thesis using failed [OF 2(1)] by (simp add: result)
        qed simp
      next
        case (Inr p)
        then show ?thesis using route 3 \<open>evaluate_rule config (q_name q) None network = Inr d\<close>
          by (cases "rl_block_mode ?rule = silent_drop") (auto simp: Let_def result no_result_def)
      qed
    next
      case 4
      obtain out s1 t1 l where p: "process_query up config options (sn_generation network) now request original
          q ?rule d ?result s = (out, s1, t1, l)"
        by (cases "process_query up config options (sn_generation network) now request original q ?rule d ?result s")
      note kept = process_query_result [OF p]
      show ?thesis
      proof (cases out)
        case (Inl x)
        obtain e sel st r1 where x: "x = (e, sel, st, r1)" by (cases x)
        with route Inr 4 p Inl have "route_failed request True e r1 = Inr r" by simp
        from failed [OF this] kept 4(3) show ?thesis by (simp add: Inl x result)
      next
        case r1: (Inr r1)
        with route Inr 4 p have "r1 = r" by simp
        then show ?thesis using kept r1 4(3) q by (auto simp: answered_for_def result)
      qed
    qed
  qed
qed

section \<open>A sample upstream\<close>

text \<open>Server 1 times out, server 2 echoes.  The configuration sends every query to server 1.\<close>

definition sample_upstream :: upstream where
  "sample_upstream = \<lparr>
     up_exchange = (\<lambda>now request v. if srv_id v = 2 then (Inr request, now + 1)
                      else (Inl (Error ''UDP_TIMEOUT'' ''No reply''), now + milliseconds 5)),
     up_wait = (\<lambda>now slot s. (Inl cancelled, now)),
     up_cancelled = (\<lambda>_. False), up_elapsed = to_string, up_enabled = (\<lambda>_. False),
     up_format = (\<lambda>_ _. Inr [])\<rparr>"

definition server_pair :: "server list" where
  "server_pair =
     [default_server\<lparr>srv_id := 1, srv_enabled := True, srv_fallback_ids := [2], srv_timeout_ms := 100\<rparr>,
      default_server\<lparr>srv_id := 2, srv_enabled := True, srv_timeout_ms := 100\<rparr>]"

lemma sample_group:
  "group_candidates (default_config\<lparr>cf_servers := server_pair\<rparr>) (server_pair ! 0) = server_pair"
  by (simp add: group_candidates_def server_pair_def default_server_def numeral_2_eq_2)

lemma sample_attempt:
  "\<exists>hs t logs. exchange_group sample_upstream (default_config\<lparr>cf_servers := server_pair\<rparr>) 0 [1, 2] (server_pair ! 0) [] =
     (Inr ([1, 2], server_pair ! 1), hs, t, logs)"
proof -
  have ids: "srv_id (server_pair ! 0) = 1" "srv_fallback_ids (server_pair ! 0) = [2]"
    by (simp_all add: server_pair_def)
  show ?thesis
    unfolding exchange_group_def sample_group ids
    by (simp add: server_pair_def default_server_def enter_health_def order_candidates_def stable_sort_def
        health_of_def health_less_def no_health_def attempt_server_def exchange_def sample_upstream_def
        group_budget_def milliseconds_def Let_def record_failure_def update_conv')
qed

theorem exchange_group_sound_witness:
  "\<exists>t deadline. t < deadline \<and> fst (exchange sample_upstream t [1, 2]
     (attempt_server t deadline (server_pair ! 0) (server_pair ! 1))) = Inr [1, 2]"
proof -
  obtain hs t logs where e: "exchange_group sample_upstream (default_config\<lparr>cf_servers := server_pair\<rparr>) 0 [1, 2]
      (server_pair ! 0) [] = (Inr ([1, 2], server_pair ! 1), hs, t, logs)"
    using sample_attempt by blast
  have "srv_id (server_pair ! 1) \<noteq> srv_id (server_pair ! 0)" by (simp add: server_pair_def)
  then have "server_pair ! 1 \<noteq> server_pair ! 0" by auto
  with exchange_group_sound [OF e] show ?thesis by blast
qed

definition bypass_config :: config where
  "bypass_config = default_config\<lparr>cf_rules :=
     [default_rule\<lparr>rl_id := 1, rl_is_default := True, rl_patterns := [''*''], rl_action := Action_bypass\<rparr>]\<rparr>"

definition no_network :: snapshot where
  "no_network = \<lparr>sn_generation = 0, sn_interfaces = [], sn_error = []\<rparr>"

lemma sample_decision:
  "case evaluate_rule bypass_config ''a.io'' None no_network of
     Inl e \<Rightarrow> False
   | Inr d \<Rightarrow> rd_error_code d = [] \<and> \<not> rd_captive_bypass d \<and> rl_action (the (rd_rule d)) = Action_bypass"
  by code_simp

definition plain_options :: run_options where
  "plain_options = \<lparr>ro_clear_dns_cache = False, ro_block_tcp53 = False, ro_intercept_others = False,
     ro_captive_portal_detection = False, ro_ignore_interface_down = False, ro_ttl_min = 0, ro_ttl_max = int_max\<rparr>"

theorem route_outcome_witness:
  "\<exists>r s t logs. route sample_upstream no_network bypass_config plain_options 0 sample_query default_server no_shared =
     (Inr r, s, t, logs) \<and> rr_disposition r = Forward_original \<and> rr_packet r = sample_query \<and> s = no_shared"
proof -
  have q: "routable sample_query sample_question"
    by (simp add: routable_def sample_parse) (simp add: sample_question_def)
  have name: "q_name sample_question = ''a.io''" by (simp add: sample_question_def)
  obtain d where d: "evaluate_rule bypass_config ''a.io'' None no_network = Inr d" "rd_error_code d = []"
    "\<not> rd_captive_bypass d" "rl_action (the (rd_rule d)) = Action_bypass"
    using sample_decision by (auto split: sum.splits)
  then have "\<exists>r s t logs. route sample_upstream no_network bypass_config plain_options 0 sample_query
      default_server no_shared = (Inr r, s, t, logs) \<and> rr_disposition r = Forward_original"
    by (simp add: route_unfold [OF q] name Let_def)
  then show ?thesis using route_outcome by blast
qed

end
