(* ===== verification/Intercept.thy ===== *)
theory Intercept
  imports Rules Dns_Packet
begin

text \<open>
  Captured IP packets, from \<open>src/platform/windows/windivert_interception.cpp\<close>: the Internet
  checksum, the views of UDP and TCP in IPv4 and IPv6, the response to a captured query, the
  reset of a captured connection and the reflected TCP packet.  Packets are changed in place,
  as in the code.  \<open>InetNtopA\<close> is a parameter.
\<close>

section \<open>Bytes and checksums\<close>

definition intercept_error :: "string \<Rightarrow> error" where
  "intercept_error message = Error ''INTERCEPT_PACKET'' message"

definition read16 :: "packet \<Rightarrow> nat \<Rightarrow> 16 word" where
  "read16 p at = push_bit 8 (ucast (p ! at)) OR ucast (p ! (at + 1))"

definition write16 :: "packet \<Rightarrow> nat \<Rightarrow> 16 word \<Rightarrow> packet" where
  "write16 p at value16 = p[at := ucast (drop_bit 8 value16), at + 1 := ucast value16]"

fun checksum_add :: "32 word \<Rightarrow> packet \<Rightarrow> 32 word" where
  "checksum_add acc [] = acc"
| "checksum_add acc [a] = acc + ucast (push_bit 8 (ucast a) :: 16 word)"
| "checksum_add acc (a # b # bytes) =
     checksum_add (acc + ucast (push_bit 8 (ucast a) OR ucast b :: 16 word)) bytes"

lemma unat_halves:
  "unat ((w :: 32 word) AND 0xFFFF) = unat w mod 65536" "unat (drop_bit 16 w) = unat w div 65536"
proof -
  have "w AND 0xFFFF = take_bit 16 w" by (simp add: take_bit_eq_mask mask_eq_exp_minus_1)
  then show "unat (w AND 0xFFFF) = unat w mod 65536"
    by (simp only: unsigned_take_bit_eq) (simp add: take_bit_eq_mod)
  have "take_bit 32 (unat w) = unat w" using unsigned_less [of w] by (simp add: take_bit_nat_eq_self_iff)
  then show "unat (drop_bit 16 w) = unat w div 65536"
    by (simp only: unsigned_drop_bit_eq) (simp add: drop_bit_eq_div)
qed

lemma halves_less:
  assumes "(n :: nat) div 65536 \<noteq> 0"
  shows "n mod 65536 + n div 65536 < n"
proof -
  have "n div 65536 * 65536 + n mod 65536 = n" by (rule div_mult_mod_eq)
  moreover have "n div 65536 < n div 65536 * 65536" using assms by simp
  ultimately show ?thesis by (metis add.commute add_less_cancel_right)
qed

function checksum_fold :: "32 word \<Rightarrow> 32 word" where
  "checksum_fold acc =
     (if drop_bit 16 acc \<noteq> 0 then checksum_fold ((acc AND 0xFFFF) + drop_bit 16 acc) else acc)"
  by pat_completeness auto
termination
proof (relation "measure unat", simp)
  fix acc :: "32 word"
  assume "drop_bit 16 acc \<noteq> 0"
  then have d: "unat (drop_bit 16 acc) \<noteq> 0" by (simp add: unat_eq_0)
  have "unat ((acc AND 0xFFFF) + drop_bit 16 acc) \<le> unat acc mod 65536 + unat acc div 65536"
    using unat_plus_if' [of "acc AND 0xFFFF" "drop_bit 16 acc"] by (simp add: unat_halves split: if_splits)
  also have "\<dots> < unat acc" using d unfolding unat_halves by (rule halves_less)
  finally show "((acc AND 0xFFFF) + drop_bit 16 acc, acc) \<in> measure unat" by simp
qed

declare checksum_fold.simps [simp del]

definition checksum_finish :: "32 word \<Rightarrow> 16 word" where
  "checksum_finish acc =
     (let result = NOT (ucast (checksum_fold acc) :: 16 word) in if result \<noteq> 0 then result else 0xFFFF)"

section \<open>Views\<close>

abbreviation (input) ipproto_tcp :: byte where "ipproto_tcp \<equiv> 6"
abbreviation (input) ipproto_udp :: byte where "ipproto_udp \<equiv> 17"

record udp_view =
  uv_udp :: nat
  uv_payload :: nat
  uv_ipv6 :: bool

record tcp_view =
  tv_tcp :: nat
  tv_payload :: nat
  tv_ipv6 :: bool

text \<open>
  The loop over the extension headers.  The first argument is the number of rounds left, the
  result the protocol and where it starts.
\<close>

fun ipv6_headers :: "nat \<Rightarrow> packet \<Rightarrow> byte \<Rightarrow> nat \<Rightarrow> error + byte \<times> nat" where
  "ipv6_headers 0 p next_header at = Inl (intercept_error ''Too many IPv6 extension headers'')"
| "ipv6_headers (Suc n) p next_header at =
     (if next_header = ipproto_udp \<or> next_header = ipproto_tcp then Inr (next_header, at)
      else if next_header = 0 \<or> next_header = 43 \<or> next_header = 60 then
        (if at + 2 > length p then Inl (intercept_error ''Truncated IPv6 extension header'')
         else
           let len = (unat (p ! (at + 1)) + 1) * 8 in
           if at + len > length p then Inl (intercept_error ''Invalid IPv6 extension header length'')
           else ipv6_headers n p (p ! at) (at + len))
      else if next_header = 44 then
        (if at + 8 > length p then Inl (intercept_error ''Truncated IPv6 fragment header'')
         else if read16 p (at + 2) AND 0xFFF9 \<noteq> 0
         then Inl (intercept_error ''Fragmented IPv6 DNS packet is unsupported'')
         else ipv6_headers n p (p ! at) (at + 8))
      else if next_header = 51 then
        (if at + 2 > length p then Inl (intercept_error ''Truncated IPv6 authentication header'')
         else
           let len = (unat (p ! (at + 1)) + 2) * 4 in
           if at + len > length p then Inl (intercept_error ''Invalid IPv6 authentication header length'')
           else ipv6_headers n p (p ! at) (at + len))
      else Inl (intercept_error (''Unsupported IPv6 next header '' @ to_string (unat next_header))))"

definition ipv6_transport :: "packet \<Rightarrow> error + byte \<times> nat" where
  "ipv6_transport p =
     (if length p < 40 \<or> unat (read16 p 4) + 40 \<noteq> length p
      then Inl (intercept_error ''Invalid IPv6 packet length'')
      else ipv6_headers 16 p (p ! 6) 40)"

definition ip_version :: "packet \<Rightarrow> byte" where
  "ip_version p = drop_bit 4 (p ! 0)"

definition ipv4_header :: "packet \<Rightarrow> nat" where
  "ipv4_header p = unat (p ! 0 AND 0x0F) * 4"

definition udp_start :: "packet \<Rightarrow> error + nat \<times> bool" where
  "udp_start p =
     (if ip_version p = 4 then
        let header = ipv4_header p in
        if header < 20 \<or> header + 8 > length p \<or> p ! 9 \<noteq> ipproto_udp \<or> unat (read16 p 2) \<noteq> length p
        then Inl (intercept_error ''Invalid IPv4 UDP packet'')
        else if read16 p 6 AND 0x3FFF \<noteq> 0 then Inl (intercept_error ''Fragmented DNS packet is unsupported'')
        else Inr (header, False)
      else if ip_version p = 6 then
        bindE (ipv6_transport p) (\<lambda>(protocol, offset).
        if protocol \<noteq> ipproto_udp \<or> offset + 8 > length p
        then Inl (intercept_error ''IPv6 packet is not UDP'') else Inr (offset, True))
      else Inl (intercept_error ''Unsupported IP version''))"

definition udp_view_of :: "packet \<Rightarrow> error + udp_view" where
  "udp_view_of p =
     (if length p < 28 then Inl (intercept_error ''Captured packet is too short'')
      else
        bindE (udp_start p) (\<lambda>(udp, ipv6).
        if read16 p (udp + 2) \<noteq> 53 \<or> unat (read16 p (udp + 4)) \<noteq> length p - udp
        then Inl (intercept_error ''Packet is not a complete UDP DNS query'')
        else if length p - (udp + 8) < 12 then Inl (intercept_error ''DNS payload is too short'')
        else Inr \<lparr>uv_udp = udp, uv_payload = udp + 8, uv_ipv6 = ipv6\<rparr>))"

definition tcp_start :: "packet \<Rightarrow> error + nat \<times> bool" where
  "tcp_start p =
     (if ip_version p = 4 then
        let header = ipv4_header p in
        if header < 20 \<or> header + 20 > length p \<or> p ! 9 \<noteq> ipproto_tcp \<or> unat (read16 p 2) \<noteq> length p
        then Inl (intercept_error ''Invalid IPv4 TCP packet'')
        else if read16 p 6 AND 0x3FFF \<noteq> 0 then Inl (intercept_error ''Fragmented TCP packet is unsupported'')
        else Inr (header, False)
      else if ip_version p = 6 then
        bindE (ipv6_transport p) (\<lambda>(protocol, offset).
        if protocol \<noteq> ipproto_tcp \<or> offset + 20 > length p
        then Inl (intercept_error ''IPv6 packet is not TCP'') else Inr (offset, True))
      else Inl (intercept_error ''Unsupported IP version''))"

definition tcp_view_of :: "packet \<Rightarrow> error + tcp_view" where
  "tcp_view_of p =
     (if length p < 40 then Inl (intercept_error ''Captured TCP packet is too short'')
      else
        bindE (tcp_start p) (\<lambda>(tcp, ipv6).
        let header = unat (drop_bit 4 (p ! (tcp + 12))) * 4 in
        if header < 20 \<or> tcp + header > length p then Inl (intercept_error ''Invalid TCP header length'')
        else Inr \<lparr>tv_tcp = tcp, tv_payload = tcp + header, tv_ipv6 = ipv6\<rparr>))"

definition is_tcp_packet :: "packet \<Rightarrow> error + bool" where
  "is_tcp_packet p =
     (if p = [] then Inr False
      else if ip_version p = 4 then Inr (length p > 9 \<and> p ! 9 = ipproto_tcp)
      else if ip_version p \<noteq> 6 then Inr False
      else bindE (ipv6_transport p) (\<lambda>(protocol, offset). Inr (protocol = ipproto_tcp)))"

section \<open>Addresses\<close>

type_synonym ntop = "bool \<Rightarrow> packet \<Rightarrow> string option"

definition address_bytes :: "packet \<Rightarrow> bool \<Rightarrow> packet" where
  "address_bytes p ipv6 = (if ipv6 then take 16 (drop 24 p) else take 4 (drop 16 p))"

text \<open>\<open>fe80::/10\<close>.\<close>

definition link_local :: "packet \<Rightarrow> bool" where
  "link_local p \<longleftrightarrow> p ! 24 = 0xFE \<and> p ! 25 AND 0xC0 = 0x80"

definition original_server :: "ntop \<Rightarrow> packet \<Rightarrow> udp_view \<Rightarrow> error + server" where
  "original_server ntop p view =
     (case ntop (uv_ipv6 view) (address_bytes p (uv_ipv6 view)) of
        None \<Rightarrow> Inl (intercept_error ''Cannot format original DNS address'')
      | Some address \<Rightarrow>
          Inr (default_server\<lparr>srv_name := ''Original intercepted resolver'', srv_protocol := udp,
            srv_ip := address, srv_port := read16 p (uv_udp view + 2)\<rparr>))"

definition destination_ip :: "ntop \<Rightarrow> packet \<Rightarrow> bool \<Rightarrow> 32 word \<Rightarrow> error + string" where
  "destination_ip ntop p ipv6 scope6 =
     (case ntop ipv6 (address_bytes p ipv6) of
        None \<Rightarrow> Inl (intercept_error ''Cannot format TCP DNS destination'')
      | Some address \<Rightarrow>
          Inr (if ipv6 \<and> scope6 \<noteq> 0 \<and> link_local p then address @ ''%'' @ to_string (unat scope6)
               else address))"

section \<open>Rewriting packets\<close>

definition swap_bytes :: "nat \<Rightarrow> nat \<Rightarrow> packet \<Rightarrow> packet" where
  "swap_bytes i j p = p[i := p ! j, j := p ! i]"

definition swap_blocks :: "nat \<Rightarrow> nat \<Rightarrow> nat \<Rightarrow> packet \<Rightarrow> packet" where
  "swap_blocks n i j p = fold (\<lambda>k. swap_bytes (i + k) (j + k)) [0 ..< n] p"

definition swap_addresses :: "bool \<Rightarrow> packet \<Rightarrow> packet" where
  "swap_addresses ipv6 p = (if ipv6 then swap_blocks 16 8 24 p else swap_blocks 4 12 16 p)"

text \<open>The sum over the pseudo header; \<open>len\<close> is the length of the UDP or TCP segment.\<close>

definition pseudo_sum :: "bool \<Rightarrow> packet \<Rightarrow> byte list \<Rightarrow> byte list \<Rightarrow> 32 word" where
  "pseudo_sum ipv6 p suffix6 suffix4 =
     (if ipv6 then checksum_add (checksum_add 0 (take 32 (drop 8 p))) suffix6
      else checksum_add (checksum_add 0 (take 8 (drop 12 p))) suffix4)"

definition byte_at :: "nat \<Rightarrow> nat \<Rightarrow> byte" where
  "byte_at shift n = word_of_nat (n div 2 ^ shift)"

definition write_ipv4_checksum :: "bool \<Rightarrow> nat \<Rightarrow> packet \<Rightarrow> packet" where
  "write_ipv4_checksum ipv6 header p =
     (if ipv6 then p
      else let p = write16 p 10 0 in write16 p 10 (checksum_finish (checksum_add 0 (take header p))))"

definition make_intercepted_udp_response :: "packet \<Rightarrow> packet \<Rightarrow> error + packet" where
  "make_intercepted_udp_response captured response =
     bindE (udp_view_of captured) (\<lambda>view.
     if length response < 12 \<or> length response > 65507 \<or> uv_payload view + length response > 65535
     then Inl (intercept_error ''Invalid DNS response size'')
     else
       let udp = uv_udp view; ipv6 = uv_ipv6 view; len = 8 + length response;
           p = take (uv_payload view) captured @ response;
           p = (if ipv6 then write16 p 4 (word_of_nat (length p - 40)) else write16 p 2 (word_of_nat (length p)));
           p = swap_addresses ipv6 p;
           p = swap_bytes udp (udp + 2) p;
           p = swap_bytes (udp + 1) (udp + 3) p;
           p = write16 p (udp + 4) (word_of_nat len);
           p = write16 p (udp + 6) 0;
           acc = pseudo_sum ipv6 p [0, 0, byte_at 8 len, byte_at 0 len, 0, 0, 0, ipproto_udp]
                   [0, ipproto_udp, byte_at 8 len, byte_at 0 len];
           acc = checksum_add acc (drop udp p);
           p = write16 p (udp + 6) (checksum_finish acc) in
       Inr (write_ipv4_checksum ipv6 udp p))"

definition make_reflected_tcp_packet :: "packet \<Rightarrow> 16 word \<Rightarrow> bool \<Rightarrow> 16 word \<Rightarrow> error + packet" where
  "make_reflected_tcp_packet captured proxy_port toward_proxy intercepted_port =
     bindE (tcp_view_of captured) (\<lambda>view.
     let tcp = tv_tcp view; ipv6 = tv_ipv6 view in
     bindE (requireE (proxy_port \<noteq> 0 \<and> intercepted_port \<noteq> 0)
              (intercept_error ''TCP reflection port is zero'')) (\<lambda>_.
     bindE (requireE (\<not> (toward_proxy \<and> read16 captured (tcp + 2) \<noteq> intercepted_port))
              (intercept_error ''TCP packet is not addressed to DNS'')) (\<lambda>_.
     bindE (requireE (\<not> (\<not> toward_proxy \<and> read16 captured tcp \<noteq> proxy_port))
              (intercept_error ''TCP packet is not from the stream proxy'')) (\<lambda>_.
     let p = swap_addresses ipv6 captured;
         p = write16 p (tcp + (if toward_proxy then 2 else 0)) (if toward_proxy then proxy_port else intercepted_port);
         p = write16 p (tcp + 16) 0;
         len = length p - tcp;
         acc = pseudo_sum ipv6 p [byte_at 24 len, byte_at 16 len, byte_at 8 len, byte_at 0 len, 0, 0, 0, ipproto_tcp]
                 [0, ipproto_tcp, byte_at 8 len, byte_at 0 len];
         acc = checksum_add acc (drop tcp p);
         p = write16 p (tcp + 16) (checksum_finish acc) in
     Inr (write_ipv4_checksum ipv6 tcp p)))))"

definition read32 :: "packet \<Rightarrow> nat \<Rightarrow> 32 word" where
  "read32 p at =
     push_bit 24 (ucast (p ! at)) OR push_bit 16 (ucast (p ! (at + 1))) OR
     push_bit 8 (ucast (p ! (at + 2))) OR ucast (p ! (at + 3))"

definition write32 :: "packet \<Rightarrow> nat \<Rightarrow> 32 word \<Rightarrow> packet" where
  "write32 p at v = fold (\<lambda>k p. p[at + k := ucast (drop_bit (24 - 8 * k) v)]) [0 ..< 4] p"

text \<open>An empty packet when there is nothing to send: a reset is not answered by another one.\<close>

definition make_intercepted_tcp_reset :: "packet \<Rightarrow> error + packet" where
  "make_intercepted_tcp_reset captured =
     bindE (tcp_view_of captured) (\<lambda>view.
     let tcp = tv_tcp view; flags = captured ! (tcp + 13) in
     if read16 captured (tcp + 2) \<noteq> 53 then Inl (intercept_error ''Reset requires a TCP DNS destination'')
     else if flags AND 0x04 \<noteq> 0 then Inr []
     else
       let p = take (tcp + 20) captured;
           p = swap_bytes tcp (tcp + 2) p;
           p = swap_bytes (tcp + 1) (tcp + 3) p;
           p = take (tcp + 4) p @ replicate 16 0;
           p = p[tcp + 12 := 0x50];
           p = (if flags AND 0x10 \<noteq> 0 then
                  (write32 p (tcp + 4) (read32 captured (tcp + 8)))[tcp + 13 := 0x04]
                else
                  (write32 p (tcp + 8)
                     (read32 captured (tcp + 4) + word_of_nat (length captured - tv_payload view) +
                      (if flags AND 0x02 \<noteq> 0 then 1 else 0) + (if flags AND 0x01 \<noteq> 0 then 1 else 0)))
                    [tcp + 13 := 0x14]);
           p = (if tv_ipv6 view then write16 p 4 (word_of_nat (length p - 40))
                else write16 p 2 (word_of_nat (length p))) in
       make_reflected_tcp_packet p 53 False 53)"

definition should_reinject_udp_immediately :: "config \<Rightarrow> snapshot \<Rightarrow> packet \<Rightarrow> error + bool" where
  "should_reinject_udp_immediately config network captured =
     bindE (udp_view_of captured) (\<lambda>view.
     bindE (parse_question (drop (uv_payload view) captured)) (\<lambda>question.
     bindE (requireE (q_flags question AND 0x8000 = 0) (malformed ''Cannot route a reply as a query'')) (\<lambda>_.
     bindE (evaluate_rule config (q_name question) None network) (\<lambda>decision.
     Inr (rd_reinject_udp decision)))))"

end
