(* ===== verification/Reflection.thy ===== *)
theory Reflection
  imports Router "HOL-Library.AList"
begin

text \<open>
  Two tables the interception asks about TCP and UDP sockets: the sockets of the program's own
  transports (\<open>src/platform/windows/dns_transport.cpp\<close>) and the connections the reflection
  proxy expects (\<open>src/platform/windows/tcp_dns_proxy.cpp\<close>).  Both are changed under a mutex;
  each critical section is one function.
\<close>

section \<open>Sockets of the program\<close>

text \<open>How many guards a local port has, by protocol (TCP or not), port and family (IPv6 or not).\<close>

type_synonym socket_key = "bool \<times> 16 word \<times> bool"

definition guard_socket :: "socket_key \<Rightarrow> (socket_key \<rightharpoonup> nat) \<Rightarrow> (socket_key \<rightharpoonup> nat)" where
  "guard_socket key m = m(key \<mapsto> (case m key of None \<Rightarrow> 1 | Some n \<Rightarrow> n + 1))"

definition unguard_socket :: "socket_key \<Rightarrow> (socket_key \<rightharpoonup> nat) \<Rightarrow> (socket_key \<rightharpoonup> nat)" where
  "unguard_socket key m =
     (case m key of None \<Rightarrow> m | Some n \<Rightarrow> if n - 1 = 0 then m(key := None) else m(key \<mapsto> n - 1))"

definition is_network_upstream :: "(socket_key \<rightharpoonup> nat) \<Rightarrow> bool \<Rightarrow> 16 word \<Rightarrow> bool \<Rightarrow> bool" where
  "is_network_upstream m is_tcp local_port ipv6 \<longleftrightarrow> m (is_tcp, local_port, ipv6) \<noteq> None"

section \<open>Expected connections\<close>

text \<open>Until when a connection is expected, by address and port; the keys are distinct.\<close>

type_synonym expected = "((string \<times> 16 word) \<times> nat) list"

definition prune_expected :: "nat \<Rightarrow> expected \<Rightarrow> expected" where
  "prune_expected now es = filter (\<lambda>e. \<not> snd e \<le> now) es"

definition expect_connection :: "nat \<Rightarrow> string \<Rightarrow> 16 word \<Rightarrow> expected \<Rightarrow> (error + unit) \<times> expected" where
  "expect_connection now original_ip client_port es =
     (if original_ip = [] \<or> client_port = 0
      then (Inl (Error ''TCP_PROXY_IO'' ''Invalid expected TCP connection''), es)
      else
        let es = prune_expected now es in
        if length es \<ge> 4096 \<and> map_of es (original_ip, client_port) = None
        then (Inl (Error ''TCP_PROXY_BUSY'' ''Too many pending reflected TCP connections''), es)
        else (Inr (), AList.update (original_ip, client_port) (now + seconds 5) es))"

definition forget_connection :: "string \<Rightarrow> 16 word \<Rightarrow> expected \<Rightarrow> expected" where
  "forget_connection original_ip client_port es =
     (if original_ip = [] \<or> client_port = 0 then es else AList.delete (original_ip, client_port) es)"

definition consume_expected :: "nat \<Rightarrow> string \<Rightarrow> 16 word \<Rightarrow> expected \<Rightarrow> bool \<times> expected" where
  "consume_expected now address client_port es =
     (let es = prune_expected now es in
      if map_of es (address, client_port) = None then (False, es)
      else (True, AList.delete (address, client_port) es))"

section \<open>Facts\<close>

text \<open>A port counts as the program's own from its first guard to the end of its last one.\<close>

definition guards_in :: "socket_key \<Rightarrow> (bool \<times> socket_key) list \<Rightarrow> nat \<Rightarrow> nat" where
  "guards_in key = fold (\<lambda>(made, k) n. if k \<noteq> key then n else if made then n + 1 else n - 1)"

definition run_guards :: "(bool \<times> socket_key) list \<Rightarrow> (socket_key \<rightharpoonup> nat) \<Rightarrow> (socket_key \<rightharpoonup> nat)" where
  "run_guards = fold (\<lambda>(made, k). if made then guard_socket k else unguard_socket k)"

lemma run_guards_Cons:
  "run_guards ((made, k) # events) m = run_guards events (if made then guard_socket k m else unguard_socket k m)"
  by (simp add: run_guards_def)

lemma guards_in_Cons:
  "guards_in key ((made, k) # events) n =
     guards_in key events (if k \<noteq> key then n else if made then n + 1 else n - 1)"
  by (simp add: guards_in_def)

lemma guard_count:
  assumes "m key = (if n = 0 then None else Some n)"
  shows "run_guards events m key = (let n = guards_in key events n in if n = 0 then None else Some n)"
  using assms
proof (induction events arbitrary: m n)
  case (Cons e events)
  obtain made k where e: "e = (made, k)" by (cases e)
  let ?n = "if k \<noteq> key then n else if made then n + 1 else n - 1"
  let ?m = "if made then guard_socket k m else unguard_socket k m"
  have "?m key = (if ?n = 0 then None else Some ?n)"
    using Cons.prems by (auto simp: guard_socket_def unguard_socket_def split: option.splits)
  from Cons.IH [of ?m ?n, OF this] show ?case unfolding e run_guards_Cons guards_in_Cons .
qed (simp add: run_guards_def guards_in_def)

theorem upstream_while_guarded:
  "is_network_upstream (run_guards events Map.empty) is_tcp port ipv6 \<longleftrightarrow>
     guards_in (is_tcp, port, ipv6) events 0 \<noteq> 0"
  using guard_count [of Map.empty "(is_tcp, port, ipv6)" 0 events]
  by (simp add: is_network_upstream_def Let_def)

text \<open>
  The expected connections as a map from connection to deadline: an entry is live until its
  deadline.  The table refines it: expecting sets a deadline of five seconds, forgetting removes
  it, and an accepted connection uses up a live entry.
\<close>

definition expected_ok :: "expected \<Rightarrow> bool" where
  "expected_ok es \<longleftrightarrow> distinct (map fst es) \<and> length es \<le> 4096"

definition expects :: "nat \<Rightarrow> expected \<Rightarrow> string \<times> 16 word \<Rightarrow> bool" where
  "expects now es key \<longleftrightarrow> (\<exists>deadline. map_of es key = Some deadline \<and> now < deadline)"

lemma distinct_filter_keys: "distinct (map fst es) \<Longrightarrow> distinct (map fst (filter P es))"
  by (induction es) auto

lemma map_of_prune:
  "distinct (map fst es) \<Longrightarrow>
     map_of (prune_expected now es) key =
       (case map_of es key of None \<Rightarrow> None | Some d \<Rightarrow> if d \<le> now then None else Some d)"
  unfolding prune_expected_def
proof (induction es)
  case (Cons e es)
  have "map_of es (fst e) = None" "map_of (filter (\<lambda>e. \<not> snd e \<le> now) es) (fst e) = None"
    using Cons.prems by (auto simp: map_of_eq_None_iff)
  then show ?case using Cons by (cases e) (auto split: option.splits)
qed simp

lemma prune_ok: "expected_ok es \<Longrightarrow> expected_ok (prune_expected now es)"
  by (auto simp: expected_ok_def prune_expected_def distinct_filter_keys intro: le_trans [OF length_filter_le])

lemma expects_prune: "expected_ok es \<Longrightarrow> expects now (prune_expected now es) key = expects now es key"
  by (auto simp: expects_def expected_ok_def map_of_prune simp del: map_of_eq_Some_iff
      split: option.splits if_splits)

lemma delete_ok: "expected_ok es \<Longrightarrow> expected_ok (AList.delete key es)"
  unfolding expected_ok_def AList.delete_eq
  by (auto simp: distinct_filter_keys intro: le_trans [OF length_filter_le])

lemma length_alist_update:
  "length (AList.update k v es) = (if map_of es k = None then length es + 1 else length es)"
  by (induction es) auto

theorem connection_expected_once:
  assumes "expected_ok es"
  shows "case consume_expected now address port es of (accepted, es') \<Rightarrow>
    expected_ok es' \<and> accepted = expects now es (address, port) \<and>
    (\<forall>key. expects now es' key \<longleftrightarrow> expects now es key \<and> key \<noteq> (address, port))"
proof -
  let ?p = "prune_expected now es"
  have p: "expected_ok ?p" using assms by (rule prune_ok)
  have live: "expects now es key \<longleftrightarrow> map_of ?p key \<noteq> None" for key
    using assms
    by (auto simp: expects_def map_of_prune expected_ok_def simp del: map_of_eq_Some_iff split: option.splits)
  have rest: "expects now (AList.delete (address, port) ?p) key \<longleftrightarrow> expects now es key \<and> key \<noteq> (address, port)" for key
    using expects_prune [OF assms, of now key] by (auto simp: expects_def delete_conv')
  show ?thesis
    using p live [of "(address, port)"] rest expects_prune [OF assms]
    by (auto simp: consume_expected_def Let_def delete_ok)
qed

theorem expectation_registered:
  assumes "expected_ok es" and "ip \<noteq> []" and "port \<noteq> 0"
  shows "case expect_connection now ip port es of (r, es') \<Rightarrow>
    expected_ok es' \<and>
    (case r of
       Inr _ \<Rightarrow> \<forall>key. expects now es' key \<longleftrightarrow> expects now es key \<or> key = (ip, port)
     | Inl e \<Rightarrow> err_code e = ''TCP_PROXY_BUSY'' \<and> card {key. expects now es key} = 4096)"
proof -
  let ?p = "prune_expected now es"
  have p: "expected_ok ?p" using assms(1) by (rule prune_ok)
  have live: "expects now es key \<longleftrightarrow> map_of ?p key \<noteq> None" for key
    using assms(1)
    by (auto simp: expects_def map_of_prune expected_ok_def simp del: map_of_eq_Some_iff split: option.splits)
  show ?thesis
  proof (cases "length ?p \<ge> 4096 \<and> map_of ?p (ip, port) = None")
    case True
    have "{key. expects now es key} = fst ` set ?p" unfolding live by (auto simp: map_of_eq_None_iff)
    then have "card {key. expects now es key} = length ?p"
      using p distinct_card [of "map fst ?p"] by (simp add: expected_ok_def)
    then show ?thesis using True p assms(2,3) by (simp add: expect_connection_def Let_def expected_ok_def)
  next
    case False
    let ?u = "AList.update (ip, port) (now + seconds 5) ?p"
    have "length ?u \<le> 4096"
      using False p by (auto simp: length_alist_update expected_ok_def not_le)
    then have "expected_ok ?u" using p by (simp add: expected_ok_def distinct_update)
    moreover have "expects now ?u key \<longleftrightarrow> expects now es key \<or> key = (ip, port)" for key
      using expects_prune [OF assms(1), of now key] by (auto simp: expects_def update_conv' seconds_def)
    ultimately show ?thesis using False assms(2,3) by (auto simp: expect_connection_def Let_def)
  qed
qed


definition sample_expected :: expected where
  "sample_expected = [((''8.8.8.8'', 40000), 7), ((''8.8.8.8'', 40001), 3)]"

theorem connection_expected_once_witness:
  "expected_ok sample_expected \<and>
     (case consume_expected 5 ''8.8.8.8'' 40000 sample_expected of (accepted, es') \<Rightarrow>
        expected_ok es' \<and> accepted = expects 5 sample_expected (''8.8.8.8'', 40000) \<and>
        (\<forall>key. expects 5 es' key \<longleftrightarrow> expects 5 sample_expected key \<and> key \<noteq> (''8.8.8.8'', 40000))) \<and>
     expects 5 sample_expected (''8.8.8.8'', 40000)"
proof -
  have ok: "expected_ok sample_expected" by (simp add: expected_ok_def sample_expected_def)
  moreover have "expects 5 sample_expected (''8.8.8.8'', 40000)"
    by (simp add: expects_def sample_expected_def)
  ultimately show ?thesis using connection_expected_once [OF ok, of 5 "''8.8.8.8''" 40000] by simp
qed


theorem expectation_registered_witness:
  "expected_ok sample_expected \<and>
     (case expect_connection 5 ''1.1.1.1'' 40000 sample_expected of (r, es') \<Rightarrow>
        expected_ok es' \<and>
        (case r of
           Inr _ \<Rightarrow> \<forall>key. expects 5 es' key \<longleftrightarrow> expects 5 sample_expected key \<or> key = (''1.1.1.1'', 40000)
         | Inl e \<Rightarrow> err_code e = ''TCP_PROXY_BUSY'' \<and> card {key. expects 5 sample_expected key} = 4096))"
proof -
  have ok: "expected_ok sample_expected" by (simp add: expected_ok_def sample_expected_def)
  then show ?thesis using expectation_registered [OF ok, of "''1.1.1.1''" 40000 5] by simp
qed

end
