(* ===== verification/Intercept_Loop.thy ===== *)
theory Intercept_Loop
  imports Intercept Reflection
begin

text \<open>
  The loops of \<open>src/platform/windows/windivert_interception.cpp\<close>: what happens to a captured
  packet, the queue of routing jobs, the workers, and the start and stop of the interception.
  The driver is a parameter: the error of the n-th call of \<open>WinDivertSend\<close> if it fails, what
  \<open>WinDivertHelperCalcChecksums\<close> makes of a packet, and which starting step fails.  What leaves
  the component is recorded in the state, in its order.
\<close>

section \<open>The driver and the state\<close>

text \<open>The fields of \<open>WINDIVERT_ADDRESS\<close> the code reads or writes.\<close>

record divert_address =
  da_outbound :: bool
  da_impostor :: bool
  da_if_index :: "32 word"
  da_ip_checksum :: bool
  da_tcp_checksum :: bool
  da_udp_checksum :: bool

record divert =
  dv_send :: "nat \<Rightarrow> packet \<Rightarrow> divert_address \<Rightarrow> nat option"
  dv_checksums :: "packet \<Rightarrow> divert_address \<Rightarrow> (packet \<times> divert_address) option"
  dv_ntop :: ntop
  dv_enabled :: "level \<Rightarrow> bool"

datatype run_state = Stopped | Starting | Running | Stopping | Failed

datatype effect =
  Sent packet divert_address
| Shut_down
| Logged log_call

record job =
  jb_packet :: packet
  jb_address :: divert_address
  jb_config :: config
  jb_options :: run_options

text \<open>
  \<open>cp_active\<close> are the jobs workers have taken and not finished, \<open>cp_sends\<close> counts the calls of
  the driver, \<open>cp_shut\<close> is whether \<open>WinDivertShutdown\<close> was called on the open handle.
\<close>

record capture =
  cp_state :: run_state
  cp_error_code :: string
  cp_error_message :: string
  cp_router :: router
  cp_jobs :: "job list"
  cp_queued_bytes :: nat
  cp_active :: "job list"
  cp_overloads :: "64 word"
  cp_expected :: expected
  cp_proxy_port :: "16 word"
  cp_tcp_port :: "16 word"
  cp_sends :: nat
  cp_shut :: bool
  cp_effects :: "effect list"

section \<open>Effects\<close>

text \<open>A step that may throw and keeps the changes it made: \<open>bindA\<close> is the sequence of two.\<close>

definition bindA :: "('s \<Rightarrow> ('e + 'a) \<times> 's) \<Rightarrow> ('a \<Rightarrow> 's \<Rightarrow> ('e + 'b) \<times> 's) \<Rightarrow> 's \<Rightarrow> ('e + 'b) \<times> 's" where
  "bindA m f s = (case m s of (Inl e, s) \<Rightarrow> (Inl e, s) | (Inr x, s) \<Rightarrow> f x s)"

definition doneA :: "'s \<Rightarrow> ('e + unit) \<times> 's" where
  "doneA s = (Inr (), s)"

definition liftA :: "'e + 'a \<Rightarrow> 's \<Rightarrow> ('e + 'a) \<times> 's" where
  "liftA r s = (r, s)"

definition effect :: "effect \<Rightarrow> capture \<Rightarrow> ('e + unit) \<times> capture" where
  "effect e s = (Inr (), s\<lparr>cp_effects := cp_effects s @ [e]\<rparr>)"

definition log_if :: "divert \<Rightarrow> level \<Rightarrow> string \<Rightarrow> string \<Rightarrow> capture \<Rightarrow> ('e + unit) \<times> capture" where
  "log_if env level event message =
     (if dv_enabled env level then effect (Logged (Log_write level event message)) else doneA)"

text \<open>1232 is \<open>ERROR_HOST_UNREACHABLE\<close>.\<close>

definition inject :: "divert \<Rightarrow> packet \<Rightarrow> divert_address \<Rightarrow> capture \<Rightarrow> (error + unit) \<times> capture" where
  "inject env p address s =
     (let s' = s\<lparr>cp_sends := cp_sends s + 1\<rparr> in
      case dv_send env (cp_sends s) p address of
        None \<Rightarrow> effect (Sent p address) s'
      | Some failure \<Rightarrow>
          if da_impostor address \<and> failure = 1232 then
            effect (Logged (Log_limited errors_only ''impostor-loop'' ''INTERCEPT_LOOP_PREVENTED''
              ''Injected packet exhausted its hop limit'')) s'
          else (Inl (Error ''WINDIVERT_SEND'' (''WinDivertSend failed: '' @ to_string failure)), s'))"

definition inbound_tcp :: "divert_address \<Rightarrow> divert_address" where
  "inbound_tcp a = a\<lparr>da_outbound := False, da_ip_checksum := False, da_tcp_checksum := False\<rparr>"

definition inbound_udp :: "divert_address \<Rightarrow> divert_address" where
  "inbound_udp a = a\<lparr>da_outbound := False, da_ip_checksum := False, da_udp_checksum := False\<rparr>"

section \<open>A captured packet\<close>

text \<open>
  In the \<open>try\<close> block of the receiver an error is tagged with \<open>policy_selected\<close>: \<open>guarded sel m\<close>
  is the step \<open>m\<close> while the flag is \<open>sel\<close>.
\<close>

definition guarded :: "bool \<Rightarrow> ('s \<Rightarrow> ('e + 'a) \<times> 's) \<Rightarrow> 's \<Rightarrow> ('e \<times> bool + 'a) \<times> 's" where
  "guarded sel m s = (case m s of (Inl e, s) \<Rightarrow> (Inl (e, sel), s) | (Inr x, s) \<Rightarrow> (Inr x, s))"

definition expect_step :: "nat \<Rightarrow> string \<Rightarrow> 16 word \<Rightarrow> capture \<Rightarrow> (error + unit) \<times> capture" where
  "expect_step now ip port s =
     (case expect_connection now ip port (cp_expected s) of (r, es) \<Rightarrow> (r, s\<lparr>cp_expected := es\<rparr>))"

definition forget_step :: "string \<Rightarrow> 16 word \<Rightarrow> capture \<Rightarrow> (error + unit) \<times> capture" where
  "forget_step ip port s = (Inr (), s\<lparr>cp_expected := forget_connection ip port (cp_expected s)\<rparr>)"

text \<open>A SYN registers the connection with the proxy, a reset forgets it.\<close>

definition track_connection ::
  "divert \<Rightarrow> nat \<Rightarrow> packet \<Rightarrow> tcp_view \<Rightarrow> divert_address \<Rightarrow> bool \<Rightarrow> capture \<Rightarrow> (error + unit) \<times> capture" where
  "track_connection env now p view address toward_proxy =
     (let source_port = read16 p (tv_tcp view); flags = p ! (tv_tcp view + 13);
          ip = destination_ip (dv_ntop env) p (tv_ipv6 view) (da_if_index address) in
      if toward_proxy \<and> flags AND 0x02 \<noteq> 0 \<and> flags AND 0x10 = 0
      then bindA (liftA ip) (\<lambda>ip. expect_step now ip source_port)
      else if toward_proxy \<and> flags AND 0x04 \<noteq> 0
      then bindA (liftA ip) (\<lambda>ip. forget_step ip source_port)
      else doneA)"

definition reflect_tcp ::
  "divert \<Rightarrow> nat \<Rightarrow> packet \<Rightarrow> tcp_view \<Rightarrow> divert_address \<Rightarrow> bool \<Rightarrow> capture \<Rightarrow> (error + unit) \<times> capture" where
  "reflect_tcp env now p view address toward_proxy =
     bindA (track_connection env now p view address toward_proxy) (\<lambda>_.
     bindA (log_if env debug ''WINDIVERT_TCP_REFLECT''
              ((if toward_proxy then ''to_proxy'' else ''to_client'') @ '' source_port='' @
               to_string (unat (read16 p (tv_tcp view))))) (\<lambda>_ s.
     bindA (liftA (make_reflected_tcp_packet p (cp_proxy_port s) toward_proxy (cp_tcp_port s))) (\<lambda>reflected.
     case dv_checksums env reflected (inbound_tcp address) of
       None \<Rightarrow> liftA (Inl (Error ''WINDIVERT_CHECKSUM'' ''Cannot calculate reflected TCP checksums''))
     | Some (reflected, address) \<Rightarrow> inject env reflected address) s))"

definition capture_tcp ::
  "divert \<Rightarrow> (socket_key \<rightharpoonup> nat) \<Rightarrow> nat \<Rightarrow> packet \<Rightarrow> divert_address \<Rightarrow> capture \<Rightarrow>
   (error \<times> bool + unit) \<times> capture" where
  "capture_tcp env sockets now p address =
     bindA (guarded False (liftA (tcp_view_of p))) (\<lambda>view s.
     let source_port = read16 p (tv_tcp view); destination_port = read16 p (tv_tcp view + 2);
         toward_proxy = (destination_port = cp_tcp_port s) in
     if \<not> da_outbound address then guarded False (inject env p address) s
     else if toward_proxy \<and> is_network_upstream sockets True source_port (tv_ipv6 view)
     then guarded False (inject env p address) s
     else if destination_port = 53 \<and> ro_block_tcp53 (rt_options (cp_router s)) then
       guarded True (bindA (liftA (make_intercepted_tcp_reset p)) (\<lambda>reset.
         if reset \<noteq> [] then inject env reset (inbound_tcp address) else doneA)) s
     else if \<not> toward_proxy \<and> source_port \<noteq> cp_proxy_port s then guarded False (inject env p address) s
     else guarded True (reflect_tcp env now p view address toward_proxy) s)"


definition max_queued_bytes :: nat where
  "max_queued_bytes = 32 * 1024 * 1024"

definition reject_overload ::
  "divert \<Rightarrow> packet \<Rightarrow> udp_view \<Rightarrow> divert_address \<Rightarrow> capture \<Rightarrow> (error + unit) \<times> capture" where
  "reject_overload env p view address =
     bindA (liftA (bindE (make_error_response (drop (uv_payload view) p) 2)
                     (make_intercepted_udp_response p))) (\<lambda>response.
     bindA (inject env response (inbound_udp address)) (\<lambda>_ s.
     let count = cp_overloads s + 1; s = s\<lparr>cp_overloads := count\<rparr> in
     if count = 1 \<or> count AND (count - 1) = 0
     then effect (Logged (Log_write errors_only ''WINDIVERT_SATURATED''
            (''Routing queue is full; returned SERVFAIL (count='' @ to_string (unat count) @ '')''))) s
     else doneA s))"

definition enqueue ::
  "divert \<Rightarrow> packet \<Rightarrow> udp_view \<Rightarrow> divert_address \<Rightarrow> config \<Rightarrow> run_options \<Rightarrow> capture \<Rightarrow>
   (error + unit) \<times> capture" where
  "enqueue env p view address config options s =
     (if length (cp_jobs s) < 4096 \<and> cp_queued_bytes s + length p \<le> max_queued_bytes
      then doneA (s\<lparr>cp_queued_bytes := cp_queued_bytes s + length p,
        cp_jobs := cp_jobs s @ [\<lparr>jb_packet = p, jb_address = address, jb_config = config, jb_options = options\<rparr>]\<rparr>)
      else reject_overload env p view address s)"

text \<open>A query that is not the program's own; \<open>network\<close> is the monitor's snapshot.\<close>

definition route_udp ::
  "divert \<Rightarrow> snapshot \<Rightarrow> packet \<Rightarrow> udp_view \<Rightarrow> divert_address \<Rightarrow> capture \<Rightarrow> (error + unit) \<times> capture" where
  "route_udp env network p view address =
     bindA (liftA (parse_question (drop (uv_payload view) p))) (\<lambda>question.
     bindA (liftA (requireE (q_flags question AND 0x8000 = 0)
              (malformed ''Cannot route a reply as a query''))) (\<lambda>_ s.
     let config = rt_config (cp_router s); options = rt_options (cp_router s) in
     bindA (liftA (evaluate_rule config (q_name question) None network)) (\<lambda>decision.
     let rule = the (rd_rule decision) in
     bindA (log_if env debug ''DNS_CAPTURE''
              (''transport=udp name='' @ q_name question @ '' interface_index='' @
               to_string (unat (da_if_index address)) @ '' generation='' @
               to_string (unat (sn_generation network)) @ '' impostor='' @
               (if da_impostor address then ''1'' else ''0'') @ '' rule='' @ rl_name rule @
               '' action='' @ action_name (rl_action rule) @ '' server='' @
               to_string (unat (rl_server_id rule)))) (\<lambda>_.
     if rd_reinject_udp decision then
       bindA (liftA (original_server (dv_ntop env) p view)) (\<lambda>original.
       bindA (log_if env normal ''DNS_ROUTE'' (route_log_message question rule (Some original) None)) (\<lambda>_.
       bindA (log_if env debug ''WINDIVERT_RULE_FAST_PATH''
                (q_name question @ '' bypass/original query reinjected before worker queue'')) (\<lambda>_.
       inject env p address)))
     else enqueue env p view address config options)) s))"

definition capture_udp ::
  "divert \<Rightarrow> (socket_key \<rightharpoonup> nat) \<Rightarrow> snapshot \<Rightarrow> packet \<Rightarrow> divert_address \<Rightarrow> capture \<Rightarrow>
   (error \<times> bool + unit) \<times> capture" where
  "capture_udp env sockets network p address =
     bindA (guarded False (liftA (udp_view_of p))) (\<lambda>view.
     let source_port = read16 p (uv_udp view) in
     if is_network_upstream sockets False source_port (uv_ipv6 view) then
       guarded False
         (bindA (log_if env debug ''WINDIVERT_UPSTREAM_BYPASS'' (''source_port='' @ to_string (unat source_port)))
           (\<lambda>_. inject env p address))
     else guarded True (route_udp env network p view address))"

text \<open>One round of the receiver: errors other than those of the driver end the packet only.\<close>

definition receive_packet ::
  "divert \<Rightarrow> (socket_key \<rightharpoonup> nat) \<Rightarrow> nat \<Rightarrow> snapshot \<Rightarrow> packet \<Rightarrow> divert_address \<Rightarrow> capture \<Rightarrow>
   (error + unit) \<times> capture" where
  "receive_packet env sockets now network p address s =
     (case bindA (guarded False (liftA (is_tcp_packet p))) (\<lambda>stream.
              if stream then capture_tcp env sockets now p address
              else capture_udp env sockets network p address) s of
        (Inr _, s) \<Rightarrow> doneA s
      | (Inl (e, policy_selected), s) \<Rightarrow>
          if err_code e = ''WINDIVERT_SEND'' then (Inl e, s)
          else
            bindA (effect (Logged (Log_limited errors_only
                (''capture|'' @ err_code e @ ''|'' @ to_string (unat (da_if_index address))) (err_code e)
                (err_msg e @ '' interface_index='' @ to_string (unat (da_if_index address))))))
              (\<lambda>_. if policy_selected then doneA else inject env p address) s)"

text \<open>The \<open>catch\<close> block around the loop.\<close>

definition receive_failed :: "error \<Rightarrow> capture \<Rightarrow> capture" where
  "receive_failed e s =
     (let s = s\<lparr>cp_shut := True, cp_effects := cp_effects s @ [Shut_down]\<rparr> in
      if cp_state s = Running then
        s\<lparr>cp_error_code := err_code e, cp_error_message := err_msg e, cp_state := Failed,
          cp_router := cancel_pending (cp_router s),
          cp_effects := cp_effects s @ [Logged (Log_write errors_only (err_code e) (err_msg e))]\<rparr>
      else s)"

text \<open>What \<open>WinDivertRecv\<close> returned, and whether the loop goes on.\<close>

datatype received = Received packet divert_address | Not_received nat

definition receive_event ::
  "divert \<Rightarrow> (socket_key \<rightharpoonup> nat) \<Rightarrow> nat \<Rightarrow> snapshot \<Rightarrow> received \<Rightarrow> capture \<Rightarrow> bool \<times> capture" where
  "receive_event env sockets now network input s =
     (case input of
        Not_received failure \<Rightarrow>
          if cp_state s \<noteq> Running then (False, s)
          else (False, receive_failed
                  (Error ''WINDIVERT_RECV'' (''WinDivertRecv failed: '' @ to_string failure)) s)
      | Received p address \<Rightarrow>
          (case receive_packet env sockets now network p address s of
             (Inl e, s) \<Rightarrow> (False, receive_failed e s)
           | (Inr _, s) \<Rightarrow> (cp_state s = Running, s)))"

section \<open>The workers\<close>

definition take_job :: "capture \<Rightarrow> capture" where
  "take_job s =
     (case cp_jobs s of
        [] \<Rightarrow> s
      | job # rest \<Rightarrow>
          if cp_state s \<noteq> Running then s
          else s\<lparr>cp_jobs := rest, cp_queued_bytes := cp_queued_bytes s - length (jb_packet job),
                 cp_active := cp_active s @ [job]\<rparr>)"

text \<open>\<open>process\<close>; \<open>routed\<close> is the call of \<open>Router::route\<close> with the snapshot of the job.\<close>

definition process_try ::
  "divert \<Rightarrow> (packet \<Rightarrow> server \<Rightarrow> error + route_result) \<Rightarrow> job \<Rightarrow> capture \<Rightarrow> (error + unit) \<times> capture" where
  "process_try env routed job =
     bindA (liftA (udp_view_of (jb_packet job))) (\<lambda>view.
     let query = drop (uv_payload view) (jb_packet job) in
     bindA (liftA (original_server (dv_ntop env) (jb_packet job) view)) (\<lambda>original.
     let original =
       (if uv_ipv6 view \<and> link_local (jb_packet job)
        then original\<lparr>srv_route := (srv_route original)\<lparr>nr_scope6 := da_if_index (jb_address job)\<rparr>\<rparr>
        else original) in
     bindA (liftA (routed query original)) (\<lambda>r s.
     if cp_state s \<noteq> Running then doneA s
     else if rr_disposition r = Forward_original then inject env (jb_packet job) (jb_address job) s
     else if rr_disposition r = Drop_silently \<or> rr_packet r = [] then doneA s
     else bindA (liftA (bindE (fit_udp_response query (rr_packet r)) (make_intercepted_udp_response (jb_packet job))))
            (\<lambda>response. inject env response (inbound_udp (jb_address job))) s)))"

definition process_job ::
  "divert \<Rightarrow> (packet \<Rightarrow> server \<Rightarrow> error + route_result) \<Rightarrow> job \<Rightarrow> capture \<Rightarrow> capture" where
  "process_job env routed job s =
     (case process_try env routed job s of
        (Inr _, s) \<Rightarrow> s
      | (Inl e, s) \<Rightarrow>
          if cp_state s = Running then
            let s = (if err_code e = ''WINDIVERT_SEND''
                     then s\<lparr>cp_error_code := err_code e, cp_error_message := err_msg e,
                       cp_state := Failed, cp_shut := True, cp_effects := cp_effects s @ [Shut_down]\<rparr>
                     else s) in
            s\<lparr>cp_effects := cp_effects s @ [Logged (Log_limited errors_only (''worker|'' @ err_code e) (err_code e) (err_msg e))]\<rparr>
          else s)"

end
