(* ===== verification/Intercept_Life.thy ===== *)
theory Intercept_Life
  imports Intercept_Loop
begin

text \<open>
  The life of \<open>WinDivertInterception\<close>: start, the threads it runs, stop, reload and status
  (\<open>src/platform/windows/windivert_interception.cpp\<close>, second half).  \<open>record launch\<close> says
  what the system answers during one start; an exception of the standard library is an error
  with code \<open>INTERNAL\<close>, as the code stores it.  A start is one step, although its failure path
  releases the mutex \<open>lifecycle\<close> while it joins the threads.
\<close>

section \<open>Resources\<close>

text \<open>
  What the interception holds besides its state: the firewall rule, the reflection proxy, the
  driver library and handle, the receiver and the worker threads.
\<close>

record interception =
  ic_capture :: capture
  ic_firewall :: bool
  ic_proxy :: bool
  ic_module :: bool
  ic_handle :: bool
  ic_receiver :: bool
  ic_workers :: nat
  ic_stop_driver :: bool

datatype service_owner = Owner_missing | Owner_application | Owner_other

record launch =
  la_fault :: "string \<Rightarrow> error option"
  la_conflicts :: "(bool \<times> string \<times> string) list"
  la_proxy :: "error + 16 word"
  la_owner :: "service_owner option"
  la_module :: "nat option"
  la_symbol :: "string \<Rightarrow> bool"
  la_filter :: "string \<Rightarrow> (string \<times> nat) option"
  la_handle :: "nat option"
  la_params :: "nat option"
  la_firewall :: "error option"
  la_threads :: nat
  la_spawn :: "(nat \<times> string) option"

definition log_event_of :: "level \<Rightarrow> string \<Rightarrow> string \<Rightarrow> capture \<Rightarrow> capture" where
  "log_event_of level event message s = snd (effect (Logged (Log_write level event message)) s :: (error + unit) \<times> capture)"

definition on_capture :: "(capture \<Rightarrow> capture) \<Rightarrow> interception \<Rightarrow> (error + unit) \<times> interception" where
  "on_capture f i = (Inr (), i\<lparr>ic_capture := f (ic_capture i)\<rparr>)"

definition log_start :: "level \<Rightarrow> string \<Rightarrow> string \<Rightarrow> interception \<Rightarrow> (error + unit) \<times> interception" where
  "log_start level event message = on_capture (log_event_of level event message)"

definition fault_point :: "launch \<Rightarrow> string \<Rightarrow> interception \<Rightarrow> (error + unit) \<times> interception" where
  "fault_point la stage = liftA (case la_fault la stage of None \<Rightarrow> Inr () | Some e \<Rightarrow> Inl e)"

definition changed :: "(interception \<Rightarrow> interception) \<Rightarrow> interception \<Rightarrow> (error + unit) \<times> interception" where
  "changed f i = (Inr (), f i)"

section \<open>Start\<close>

definition windivert_exports :: "string list" where
  "windivert_exports =
     [''WinDivertOpen'', ''WinDivertRecv'', ''WinDivertSend'', ''WinDivertShutdown'',
      ''WinDivertClose'', ''WinDivertSetParam'', ''WinDivertHelperCompileFilter'',
      ''WinDivertHelperCalcChecksums'']"

definition windivert_filter :: "bool \<Rightarrow> 16 word \<Rightarrow> 16 word \<Rightarrow> string" where
  "windivert_filter intercept_others tcp_port proxy_port =
     (let target = to_string (unat tcp_port); proxy = to_string (unat proxy_port);
          injected = (if intercept_others then [] else ''!impostor and '') in
      ''(outbound and !loopback and '' @ injected @
      ''!fragment and udp.DstPort == 53 and udp.PayloadLength >= 12) or ('' @ injected @
      ''tcp and !fragment and (tcp.DstPort == '' @ target @ '' or tcp.SrcPort == '' @ target @
      '' or tcp.DstPort == '' @ proxy @ '' or tcp.SrcPort == '' @ proxy @ ''))'')"

text \<open>The proxy and what is written about conflicts.\<close>

definition start_proxy :: "inet \<Rightarrow> launch \<Rightarrow> interception \<Rightarrow> (error + unit) \<times> interception" where
  "start_proxy inet la =
     bindA (\<lambda>i. case resume inet (cp_router (ic_capture i)) of
              Inl e \<Rightarrow> (Inl e, i)
            | Inr r \<Rightarrow> (Inr (), i\<lparr>ic_capture := (ic_capture i)\<lparr>cp_router := r\<rparr>\<rparr>)) (\<lambda>_.
     bindA (changed (\<lambda>i. i\<lparr>ic_firewall := False\<rparr>)) (\<lambda>_.
     bindA (on_capture (fold (\<lambda>(suspected, event, message).
              log_event_of (if suspected then errors_only else normal) event message) (la_conflicts la))) (\<lambda>_.
     bindA (log_start verbose ''FIREWALL_STALE_CLEANUP''
              ''Removed any stale TCP interception firewall rule'') (\<lambda>_.
     bindA (fault_point la ''windivert.tcp_proxy'') (\<lambda>_.
     bindA (liftA (la_proxy la)) (\<lambda>port.
     bindA (changed (\<lambda>i. i\<lparr>ic_proxy := True, ic_capture := (ic_capture i)\<lparr>cp_proxy_port := port\<rparr>\<rparr>)) (\<lambda>_.
     bindA (log_start verbose ''TCP_PROXY_STARTED''
              (''TCP reflection proxy listening on port='' @ to_string (unat port))) (\<lambda>_.
     changed (\<lambda>i. i\<lparr>ic_stop_driver := la_owner la \<in> {Some Owner_missing, Some Owner_application}\<rparr>)))))))))"

text \<open>The driver library and the handle.\<close>

definition open_driver :: "launch \<Rightarrow> interception \<Rightarrow> (error + unit) \<times> interception" where
  "open_driver la =
     bindA (fault_point la ''windivert.load'') (\<lambda>_.
     bindA (liftA (case la_module la of
              None \<Rightarrow> Inr ()
            | Some failure \<Rightarrow> Inl (Error ''WINDIVERT_LOAD'' (''Cannot load WinDivert.dll: '' @ to_string failure)))) (\<lambda>_.
     bindA (changed (\<lambda>i. i\<lparr>ic_module := True\<rparr>)) (\<lambda>_.
     bindA (log_start verbose ''WINDIVERT_LOADED'' ''WinDivert.dll loaded successfully'') (\<lambda>_.
     bindA (liftA (case find (\<lambda>name. \<not> la_symbol la name) windivert_exports of
              None \<Rightarrow> Inr ()
            | Some name \<Rightarrow> Inl (Error ''WINDIVERT_LOAD'' (''Missing WinDivert export: '' @ name)))) (\<lambda>_ i.
     let s = ic_capture i;
         filter_text = windivert_filter (ro_intercept_others (rt_options (cp_router s))) (cp_tcp_port s) (cp_proxy_port s) in
     bindA (liftA (case la_filter la filter_text of
              None \<Rightarrow> Inr ()
            | Some (message, position) \<Rightarrow>
                Inl (Error ''WINDIVERT_FILTER''
                  ((if message = [] then ''Invalid filter'' else message) @ '' at '' @ to_string position)))) (\<lambda>_.
     bindA (fault_point la ''windivert.open'') (\<lambda>_.
     bindA (liftA (case la_handle la of
              None \<Rightarrow> Inr ()
            | Some failure \<Rightarrow>
                Inl (Error (if failure = 5 then ''ELEVATION_REQUIRED'' else ''WINDIVERT_OPEN'')
                  (''WinDivertOpen failed: '' @ to_string failure)))) (\<lambda>_.
     bindA (changed (\<lambda>i. i\<lparr>ic_handle := True, ic_capture := (ic_capture i)\<lparr>cp_shut := False\<rparr>\<rparr>)) (\<lambda>_.
     bindA (log_start verbose ''WINDIVERT_HANDLE_OPEN'' ''WinDivert network handle opened'') (\<lambda>_.
     liftA (case la_params la of
              None \<Rightarrow> Inr ()
            | Some failure \<Rightarrow>
                Inl (Error ''WINDIVERT_QUEUE'' (''Cannot configure WinDivert queue: '' @ to_string failure)))))))) i)))))"

text \<open>\<open>std::clamp(std::thread::hardware_concurrency(), 4u, 16u)\<close>.\<close>

definition worker_count :: "nat \<Rightarrow> nat" where
  "worker_count threads = (if threads < 4 then 4 else if 16 < threads then 16 else threads)"

definition start_threads :: "launch \<Rightarrow> interception \<Rightarrow> (error + unit) \<times> interception" where
  "start_threads la =
     bindA (fault_point la ''windivert.firewall'') (\<lambda>_.
     bindA (liftA (case la_firewall la of None \<Rightarrow> Inr () | Some e \<Rightarrow> Inl e)) (\<lambda>_.
     bindA (changed (\<lambda>i. i\<lparr>ic_firewall := True\<rparr>)) (\<lambda>_.
     bindA (log_start verbose ''FIREWALL_RULE_ACTIVE'' ''TCP proxy firewall rule enabled'') (\<lambda>_.
     bindA (on_capture (\<lambda>s. s\<lparr>cp_state := Running\<rparr>)) (\<lambda>_.
     bindA (case la_spawn la of
              None \<Rightarrow> changed (\<lambda>i. i\<lparr>ic_workers := worker_count (la_threads la), ic_receiver := True\<rparr>)
            | Some (started, message) \<Rightarrow> (\<lambda>i. (Inl (Error ''INTERNAL'' message), i\<lparr>ic_workers := started\<rparr>))) (\<lambda>_ i.
     let s = ic_capture i in
     bindA (log_start normal ''WINDIVERT_STARTED''
              (''Transparent UDP/TCP DNS interception started; TCP proxy port='' @
               to_string (unat (cp_proxy_port s)) @ '', routing workers='' @ to_string (worker_count (la_threads la)))) (\<lambda>_.
     log_start verbose ''INTERCEPTION_SCOPE''
       (''backend=WinDivert priority=123 UDP/TCP port=53; encrypted OS/application DNS '' @
        ''on HTTPS/TLS/QUIC ports is outside this filter; network-layer process ID is '' @
        ''unavailable; interceptOthers='' @
        (if ro_intercept_others (rt_options (cp_router s)) then ''1'' else ''0''))) i))))))"

text \<open>\<open>release\<close>; \<open>owner\<close> and \<open>driver_stopped\<close> are what the service manager says.\<close>

definition release_log :: "service_owner \<Rightarrow> bool \<Rightarrow> capture \<Rightarrow> capture" where
  "release_log owner driver_stopped =
     (if owner = Owner_application \<and> driver_stopped
      then log_event_of verbose ''WINDIVERT_DRIVER_STOPPED'' ''NativeDNS WinDivert driver service stopped''
      else if owner = Owner_missing
      then log_event_of verbose ''WINDIVERT_DRIVER_STOPPED'' ''NativeDNS WinDivert driver service was already removed''
      else log_event_of verbose ''WINDIVERT_DRIVER_RETAINED''
             ''WinDivert service is foreign, still in use, or ownership could not be verified'')"

definition release_all :: "service_owner \<Rightarrow> bool \<Rightarrow> interception \<Rightarrow> interception" where
  "release_all owner driver_stopped i =
     (let s = ic_capture i;
          s = s\<lparr>cp_proxy_port := 0, cp_expected := (if ic_proxy i then [] else cp_expected s)\<rparr>;
          s = (if ic_stop_driver i then release_log owner driver_stopped s else s) in
      i\<lparr>ic_firewall := False, ic_proxy := False, ic_handle := False, ic_module := False,
        ic_stop_driver := False, ic_capture := s\<rparr>)"

text \<open>The \<open>catch\<close> block: threads end, the queue is emptied, everything is released.\<close>

definition start_failed :: "service_owner \<Rightarrow> bool \<Rightarrow> error \<Rightarrow> interception \<Rightarrow> interception" where
  "start_failed owner driver_stopped e i =
     (let s = (ic_capture i)\<lparr>cp_state := Stopping, cp_router := cancel_pending (cp_router (ic_capture i))\<rparr>;
          s = (if ic_handle i then s\<lparr>cp_shut := True, cp_effects := cp_effects s @ [Shut_down]\<rparr> else s);
          s = s\<lparr>cp_jobs := [], cp_queued_bytes := 0, cp_error_code := err_code e, cp_error_message := err_msg e\<rparr>;
          i = release_all owner driver_stopped (i\<lparr>ic_receiver := False, ic_workers := 0, ic_capture := s\<rparr>) in
      i\<lparr>ic_capture := (ic_capture i)\<lparr>cp_state := Failed\<rparr>\<rparr>)"

definition start_interception ::
  "inet \<Rightarrow> launch \<Rightarrow> service_owner \<Rightarrow> bool \<Rightarrow> interception \<Rightarrow> (error + unit) \<times> interception" where
  "start_interception inet la owner driver_stopped i =
     (if cp_state (ic_capture i) \<noteq> Stopped
      then (Inl (Error ''LIFECYCLE'' ''WinDivert interception is not stopped''), i)
      else
        let i = i\<lparr>ic_capture := (ic_capture i)\<lparr>cp_state := Starting, cp_error_code := [], cp_error_message := []\<rparr>\<rparr> in
        case bindA (start_proxy inet la) (\<lambda>_. bindA (open_driver la) (\<lambda>_. start_threads la)) i of
          (Inr _, i) \<Rightarrow> (Inr (), i)
        | (Inl e, i) \<Rightarrow> (Inl e, start_failed owner driver_stopped e i))"

section \<open>Stop, reload, status\<close>

text \<open>
  \<open>stop\<close> up to the joins, and after them: the second part runs when the receiver has ended and
  no worker has a job any more.
\<close>

definition begin_stop :: "interception \<Rightarrow> interception" where
  "begin_stop i =
     (let s = (ic_capture i)\<lparr>cp_state := Stopping, cp_router := cancel_pending (cp_router (ic_capture i))\<rparr>;
          s = (if ic_handle i then s\<lparr>cp_shut := True, cp_effects := cp_effects s @ [Shut_down]\<rparr> else s) in
      if cp_state (ic_capture i) = Stopped then i else i\<lparr>ic_capture := s\<rparr>)"

definition end_stop :: "service_owner \<Rightarrow> bool \<Rightarrow> interception \<Rightarrow> interception" where
  "end_stop owner driver_stopped i =
     (let s = (ic_capture i)\<lparr>cp_jobs := [], cp_queued_bytes := 0\<rparr>;
          i = release_all owner driver_stopped (i\<lparr>ic_workers := 0, ic_capture := s\<rparr>) in
      i\<lparr>ic_capture := (ic_capture i)\<lparr>cp_state := Stopped\<rparr>\<rparr>)"

definition reload_interception :: "inet \<Rightarrow> config \<Rightarrow> interception \<Rightarrow> (error + unit) \<times> interception" where
  "reload_interception inet config i =
     (let router = cp_router (ic_capture i) in
      case bindE (runtime_options config) (\<lambda>options.
           bindE (requireE (ro_intercept_others options = ro_intercept_others (rt_options router))
                    (Error ''RESTART_REQUIRED'' ''Changing interceptOthers requires a CoreHost restart'')) (\<lambda>_.
           reload inet config router)) of
        Inl e \<Rightarrow> (Inl e, i)
      | Inr router \<Rightarrow> (Inr (), i\<lparr>ic_capture := (ic_capture i)\<lparr>cp_router := router\<rparr>\<rparr>))"

record interception_status =
  is_state :: run_state
  is_port :: "16 word"
  is_transparent :: bool
  is_udp :: bool
  is_tcp :: bool
  is_error_code :: string
  is_error_message :: string

definition status_of :: "interception \<Rightarrow> interception_status" where
  "status_of i =
     (let s = ic_capture i in
      \<lparr>is_state = cp_state s, is_port = cp_proxy_port s, is_transparent = True, is_udp = True, is_tcp = True,
       is_error_code = cp_error_code s, is_error_message = cp_error_message s\<rparr>)"

end
