(* ===== verification/Intercept_Facts.thy ===== *)
theory Intercept_Facts
  imports Intercept Dns_Names
begin

text \<open>
  Facts about captured packets: what the checksum routine computes, that responses, resets and
  reflected packets carry checksums that verify, and where the views lie.
\<close>

section \<open>The Internet checksum\<close>

text \<open>
  The sum of the 16-bit words, an odd byte padded with zero.  A receiver accepts bytes whose
  one's complement sum is 65535; that sum is \<open>ones_sum\<close> modulo 65535.
\<close>

fun ones_sum :: "packet \<Rightarrow> nat" where
  "ones_sum [] = 0"
| "ones_sum [a] = 256 * unat a"
| "ones_sum (a # b # bytes) = 256 * unat a + unat b + ones_sum bytes"

lemma unat_word16: "unat (push_bit 8 (ucast (a :: byte)) OR ucast (b :: byte) :: 16 word) = 256 * unat a + unat b"
proof -
  have a: "unat (ucast a :: 16 word) = unat a" and b: "unat (ucast b :: 16 word) = unat b" by simp_all
  have "unat (push_bit 8 (ucast a) :: 16 word) = 256 * unat a"
    using byte_less [of a] by (simp add: push_bit_eq_mult unat_word_ariths a)
  moreover have "(push_bit 8 (ucast a) :: 16 word) AND ucast b = 0"
    by (rule bit_word_eqI) (auto simp: bit_simps dest: bit_imp_le_length)
  then have "push_bit 8 (ucast a) OR ucast b = (push_bit 8 (ucast a) + ucast b :: 16 word)"
    by (simp add: disjunctive_add bit_eq_iff bit_simps)
  moreover have "256 * unat a + unat b < 65536" using byte_less [of a] byte_less [of b] by linarith
  ultimately show ?thesis using b by (simp add: unat_word_ariths)
qed

lemma unat_read16: "unat (read16 p at) = 256 * unat (p ! at) + unat (p ! (at + 1))"
  by (simp only: read16_def unat_word16)

lemma unat_ucast_16_32: "unat (ucast (w :: 16 word) :: 32 word) = unat w"
proof -
  have "unat w < 65536" using unsigned_less [of w, where ?'a = nat] by simp
  then show ?thesis by (simp add: unsigned_ucast_eq take_bit_nat_eq_self_iff)
qed

lemma unat_odd_byte: "unat (ucast (push_bit 8 (ucast (a :: byte)) :: 16 word) :: 32 word) = 256 * unat a"
  using byte_less [of a] by (simp add: unat_ucast_16_32 push_bit_eq_mult unat_word_ariths)

lemma ones_sum_bound: "ones_sum bytes \<le> 65535 * ((length bytes + 1) div 2)"
proof (induction bytes rule: ones_sum.induct)
  case (2 a)
  have "256 * unat a \<le> 65535" using byte_less [of a] by linarith
  then show ?case by simp
next
  case (3 a b bytes)
  have "256 * unat a + unat b \<le> 65535" using byte_less [of a] byte_less [of b] by linarith
  with 3 show ?case by simp
qed simp

lemma checksum_add_sum:
  "unat acc + ones_sum bytes < 2 ^ 32 \<Longrightarrow> unat (checksum_add acc bytes) = unat acc + ones_sum bytes"
proof (induction acc bytes rule: checksum_add.induct)
  case (2 acc a)
  then show ?case by (simp add: unat_word_ariths unat_odd_byte)
next
  case (3 acc a b bytes)
  have "unat (acc + ucast (push_bit 8 (ucast a) OR ucast b :: 16 word)) = unat acc + (256 * unat a + unat b)"
    using 3(2) by (simp add: unat_word_ariths unat_ucast_16_32 unat_word16)
  with 3 show ?case by simp
qed simp

lemma checksum_add_append:
  "even (length xs) \<Longrightarrow> checksum_add (checksum_add acc xs) ys = checksum_add acc (xs @ ys)"
  by (induction acc xs rule: checksum_add.induct) simp_all

lemma ones_sum_append: "even (length xs) \<Longrightarrow> ones_sum (xs @ ys) = ones_sum xs + ones_sum ys"
  by (induction xs rule: ones_sum.induct) simp_all

lemma mod_ones: "(a mod 65536 + a div 65536) mod 65535 = (a :: nat) mod 65535"
proof -
  have "a = a mod 65536 + a div 65536 + a div 65536 * 65535"
    using div_mult_mod_eq [of a 65536] by linarith
  then show ?thesis by (metis mod_mult_self1)
qed

lemma checksum_fold_spec:
  "unat (checksum_fold acc) < 65536 \<and> unat (checksum_fold acc) mod 65535 = unat acc mod 65535"
proof (induction acc rule: checksum_fold.induct)
  case (1 acc)
  show ?case
  proof (cases "drop_bit 16 acc = 0")
    case True
    then have "unat (drop_bit 16 acc) = 0" by simp
    then have "unat acc < 65536" unfolding unat_halves by simp
    then show ?thesis using True by (subst (1 2) checksum_fold.simps) simp
  next
    case False
    have "unat acc mod 65536 + unat acc div 65536 \<le> unat acc"
      using div_mult_mod_eq [of "unat acc" 65536] by linarith
    then have "unat acc mod 65536 + unat acc div 65536 < 2 ^ 32"
      using unsigned_less [of acc, where ?'a = nat] by simp
    then have "unat ((acc AND 0xFFFF) + drop_bit 16 acc) = unat acc mod 65536 + unat acc div 65536"
      unfolding unat_plus_if' unat_halves by simp
    then have "unat ((acc AND 0xFFFF) + drop_bit 16 acc) mod 65535 = unat acc mod 65535"
      by (simp only: mod_ones)
    then show ?thesis using 1 False by (subst (1 2) checksum_fold.simps) simp
  qed
qed

lemma checksum_finish_spec: "(unat acc + unat (checksum_finish acc)) mod 65535 = 0"
proof -
  let ?f = "checksum_fold acc"
  have f: "unat ?f < 65536" "unat ?f mod 65535 = unat acc mod 65535" using checksum_fold_spec by auto
  then have u: "unat (ucast ?f :: 16 word) = unat ?f" by (simp add: unsigned_ucast_eq take_bit_nat_eq_self_iff)
  have n: "unat (NOT (ucast ?f) :: 16 word) = 65535 - unat ?f"
  proof -
    have "NOT (ucast ?f) = (- 1 :: 16 word) - ucast ?f" by (simp add: not_eq_complement)
    moreover have "unat (- 1 :: 16 word) = 65535" by (simp add: unsigned_minus_1_eq_mask mask_eq_exp_minus_1)
    ultimately show ?thesis using unat_sub [OF word_n1_ge, of "ucast ?f :: 16 word"] u by metis
  qed
  show ?thesis
  proof (cases "NOT (ucast ?f) = (0 :: 16 word)")
    case True
    then have "unat ?f = 65535" using n f(1) by simp
    then have "unat acc mod 65535 = 0" using f(2) by simp
    then show ?thesis using True by (simp add: checksum_finish_def mod_add_eq [symmetric])
  next
    case False
    then have "(unat ?f + unat (checksum_finish acc)) mod 65535 = 0" using n f(1) by (simp add: checksum_finish_def Let_def)
    then show ?thesis using f(2) by (metis mod_add_cong)
  qed
qed


section \<open>Reading and writing\<close>

lemma length_write16 [simp]: "length (write16 p at w) = length p"
  by (simp add: write16_def)

lemma nth_write16:
  "at + 1 < length p \<Longrightarrow>
     write16 p at w ! i = (if i = at then ucast (drop_bit 8 w) else if i = at + 1 then ucast w else p ! i)"
  by (simp add: write16_def nth_list_update)

lemma nth_write16_other: "i \<noteq> at \<Longrightarrow> i \<noteq> at + 1 \<Longrightarrow> write16 p at w ! i = p ! i"
  by (simp add: write16_def)

lemma drop_write16 [simp]: "drop s (write16 p (s + k) w) = write16 (drop s p) k w"
  by (simp add: write16_def drop_update_swap)

lemma drop_write16_before: "at + 1 < s \<Longrightarrow> drop s (write16 p at w) = drop s p"
  by (simp add: write16_def)

lemma take_write16_after: "n \<le> at \<Longrightarrow> take n (write16 p at w) = take n p"
  by (simp add: write16_def)

lemma read16_write16 [simp]: "at + 1 < length p \<Longrightarrow> read16 (write16 p at w) at = w"
  by (simp add: read16_def nth_write16 word_bytes)

lemma ones_sum_write16:
  assumes "even at" and "at + 1 < length p" and "read16 p at = 0"
  shows "ones_sum (write16 p at w) = ones_sum p + unat w"
proof -
  have rest: "drop at q = q ! at # q ! (at + 1) # drop (at + 2) q" if "length q = length p" for q :: packet
    using that assms(2) by (simp add: Cons_nth_drop_Suc)
  have split: "ones_sum q = ones_sum (take at q) + unat (read16 q at) + ones_sum (drop (at + 2) q)"
    if "length q = length p" for q :: packet
  proof -
    have "ones_sum q = ones_sum (take at q @ drop at q)" by simp
    also have "\<dots> = ones_sum (take at q) + ones_sum (drop at q)"
      using assms that by (intro ones_sum_append) simp
    also have "ones_sum (drop at q) = unat (read16 q at) + ones_sum (drop (at + 2) q)"
      by (subst rest [OF that]) (simp add: unat_read16)
    finally show ?thesis by simp
  qed
  show ?thesis using assms split [of p] split [of "write16 p at w"]
    by (simp add: take_write16_after drop_write16_before)
qed

lemma fill_checksum:
  assumes "even k" and "k + 1 < length bytes" and "read16 bytes k = 0"
    and "unat acc + ones_sum bytes < 2 ^ 32"
  shows "(unat acc + ones_sum (write16 bytes k (checksum_finish (checksum_add acc bytes)))) mod 65535 = 0"
  using checksum_finish_spec [of "checksum_add acc bytes"] checksum_add_sum [OF assms(4)]
    ones_sum_write16 [OF assms(1-3)]
  by (simp add: add.assoc)

lemma length_swap_bytes [simp]: "length (swap_bytes i j p) = length p"
  by (simp add: swap_bytes_def)

lemma swap_blocks_Suc: "swap_blocks (Suc n) i j p = swap_bytes (i + n) (j + n) (swap_blocks n i j p)"
  by (simp add: swap_blocks_def)

lemma length_swap_blocks [simp]: "length (swap_blocks n i j p) = length p"
  by (induction n) (simp_all add: swap_blocks_Suc, simp add: swap_blocks_def)

lemma nth_swap_bytes:
  "i < length p \<Longrightarrow> j < length p \<Longrightarrow>
     swap_bytes i j p ! k = (if k = i then p ! j else if k = j then p ! i else p ! k)"
  by (simp add: swap_bytes_def nth_list_update)

lemma nth_swap_blocks:
  "i + n \<le> j \<Longrightarrow> j + n \<le> length p \<Longrightarrow>
     swap_blocks n i j p ! k =
       (if i \<le> k \<and> k < i + n then p ! (k - i + j) else if j \<le> k \<and> k < j + n then p ! (k - j + i) else p ! k)"
proof (induction n arbitrary: k)
  case 0
  then show ?case by (auto simp: swap_blocks_def)
next
  case (Suc n)
  then show ?case by (auto simp: swap_blocks_Suc nth_swap_bytes add.commute less_Suc_eq not_less)
qed

text \<open>The addresses of a packet; \<open>address_bytes\<close> is the destination.\<close>

definition source_bytes :: "packet \<Rightarrow> bool \<Rightarrow> packet" where
  "source_bytes p ipv6 = (if ipv6 then take 16 (drop 8 p) else take 4 (drop 12 p))"

definition ip_end :: "bool \<Rightarrow> nat" where
  "ip_end ipv6 = (if ipv6 then 40 else 20)"

lemma take_drop_eqI:
  assumes "length p = length q" and "a + n \<le> length p" and "b + n \<le> length p"
    and "\<And>k. k < n \<Longrightarrow> p ! (a + k) = q ! (b + k)"
  shows "take n (drop a p) = take n (drop b q)"
  using assms by (intro nth_equalityI) auto

lemma swap_addresses_swaps:
  assumes "ip_end ipv6 \<le> length p"
  shows "source_bytes (swap_addresses ipv6 p) ipv6 = address_bytes p ipv6"
    and "address_bytes (swap_addresses ipv6 p) ipv6 = source_bytes p ipv6"
    and "length (swap_addresses ipv6 p) = length p"
  using assms unfolding swap_addresses_def source_bytes_def address_bytes_def ip_end_def
  by (auto intro!: take_drop_eqI simp: nth_swap_blocks add.commute)

lemma swap_addresses_rest:
  assumes "ip_end ipv6 \<le> length p" and "i < 8 \<or> (\<not> ipv6 \<and> i < 12) \<or> ip_end ipv6 \<le> i"
  shows "swap_addresses ipv6 p ! i = p ! i"
  using assms unfolding swap_addresses_def ip_end_def by (auto simp: nth_swap_blocks split: if_splits)


section \<open>Sealing a packet\<close>

text \<open>
  What a receiver checks: the one's complement sum of the pseudo header and the segment is zero
  modulo 65535, and that of the IPv4 header as well.
\<close>

definition pseudo_header :: "bool \<Rightarrow> byte \<Rightarrow> nat \<Rightarrow> packet \<Rightarrow> packet" where
  "pseudo_header ipv6 protocol len p =
     source_bytes p ipv6 @ address_bytes p ipv6 @
     (if ipv6 then [byte_at 24 len, byte_at 16 len, byte_at 8 len, byte_at 0 len, 0, 0, 0, protocol]
      else [0, protocol, byte_at 8 len, byte_at 0 len])"

definition checksums_ok :: "bool \<Rightarrow> byte \<Rightarrow> nat \<Rightarrow> packet \<Rightarrow> bool" where
  "checksums_ok ipv6 protocol start p \<longleftrightarrow>
     (ones_sum (pseudo_header ipv6 protocol (length p - start) p) + ones_sum (drop start p)) mod 65535 = 0 \<and>
     (\<not> ipv6 \<longrightarrow> ones_sum (take start p) mod 65535 = 0)"

text \<open>The last steps of both builders: the checksum at \<open>k\<close> of the segment, then the header's.\<close>

definition seal :: "bool \<Rightarrow> byte \<Rightarrow> nat \<Rightarrow> nat \<Rightarrow> packet \<Rightarrow> packet" where
  "seal ipv6 protocol start k p =
     (let p = write16 p (start + k) 0; len = length p - start;
          acc = pseudo_sum ipv6 p
                  [byte_at 24 len, byte_at 16 len, byte_at 8 len, byte_at 0 len, 0, 0, 0, protocol]
                  [0, protocol, byte_at 8 len, byte_at 0 len] in
      write_ipv4_checksum ipv6 start
        (write16 p (start + k) (checksum_finish (checksum_add acc (drop start p)))))"

lemma pseudo_header_cong:
  "source_bytes p ipv6 = source_bytes q ipv6 \<Longrightarrow> address_bytes p ipv6 = address_bytes q ipv6 \<Longrightarrow>
     pseudo_header ipv6 protocol len p = pseudo_header ipv6 protocol len q"
  by (simp add: pseudo_header_def)

lemma addresses_write16:
  assumes "ip_end ipv6 \<le> at \<or> at < 11 \<and> \<not> ipv6 \<or> at < 7"
  shows "source_bytes (write16 p at w) ipv6 = source_bytes p ipv6"
    and "address_bytes (write16 p at w) ipv6 = address_bytes p ipv6"
  using assms
  by (auto simp: source_bytes_def address_bytes_def ip_end_def intro!: nth_equalityI nth_write16_other)

lemma take_add_drop: "take m (drop a p) @ take n (drop (a + m) p) = take (m + n) (drop a p)"
  by (simp add: take_add add.commute)

lemma pseudo_sum_spec:
  assumes "ip_end ipv6 \<le> length p"
  shows "unat (pseudo_sum ipv6 p
             [byte_at 24 len, byte_at 16 len, byte_at 8 len, byte_at 0 len, 0, 0, 0, protocol]
             [0, protocol, byte_at 8 len, byte_at 0 len]) = ones_sum (pseudo_header ipv6 protocol len p)"
    (is "unat ?acc = ones_sum ?h") and "length (pseudo_header ipv6 protocol len p) \<le> 40"
proof -
  have s: "ones_sum ?h < 2 ^ 32" if "length ?h \<le> 40"
  proof -
    have "ones_sum ?h \<le> 65535 * ((length ?h + 1) div 2)" by (rule ones_sum_bound)
    also have "\<dots> \<le> 65535 * 20" using that by simp
    finally show ?thesis by simp
  qed
  show l: "length ?h \<le> 40" using assms by (auto simp: pseudo_header_def source_bytes_def address_bytes_def)
  have "?acc = checksum_add 0 ?h"
  proof (cases ipv6)
    case True
    then show ?thesis using assms take_add_drop [of 16 8 p 16]
      by (simp add: pseudo_sum_def pseudo_header_def source_bytes_def address_bytes_def
          checksum_add_append ip_end_def del: checksum_add.simps flip: append_assoc)
  next
    case False
    then show ?thesis using assms take_add_drop [of 4 12 p 4]
      by (simp add: pseudo_sum_def pseudo_header_def source_bytes_def address_bytes_def
          checksum_add_append ip_end_def del: checksum_add.simps flip: append_assoc)
  qed
  then show "unat ?acc = ones_sum ?h" using checksum_add_sum [of 0 ?h] s [OF l] by simp
qed

lemma write_ipv4_checksum_props:
  assumes "20 \<le> start" and "even start" and "start \<le> 60" and "start \<le> length p"
  shows "length (write_ipv4_checksum ipv6 start p) = length p"
    and "drop start (write_ipv4_checksum ipv6 start p) = drop start p"
    and "\<not> ipv6 \<Longrightarrow> ones_sum (take start (write_ipv4_checksum False start p)) mod 65535 = 0"
    and "\<And>i. ipv6 \<or> (i \<noteq> 10 \<and> i \<noteq> 11) \<Longrightarrow> write_ipv4_checksum ipv6 start p ! i = p ! i"
proof -
  let ?q = "write16 p 10 0"
  have q: "unat (0 :: 32 word) + ones_sum (take start ?q) < 2 ^ 32"
  proof -
    have "ones_sum (take start ?q) \<le> 65535 * ((length (take start ?q) + 1) div 2)" by (rule ones_sum_bound)
    also have "\<dots> \<le> 65535 * 30" using assms by (intro mult_left_mono) auto
    finally show ?thesis by simp
  qed
  have t: "take start (write16 r 10 w) = write16 (take start r) 10 w" if "length r = length p" for r w
    using that assms by (simp add: write16_def take_update_swap)
  show "length (write_ipv4_checksum ipv6 start p) = length p"
    by (simp add: write_ipv4_checksum_def Let_def)
  show "drop start (write_ipv4_checksum ipv6 start p) = drop start p"
    using assms by (simp add: write_ipv4_checksum_def Let_def drop_write16_before)
  show "ones_sum (take start (write_ipv4_checksum False start p)) mod 65535 = 0"
    using fill_checksum [of 10 "take start ?q" 0] q assms
    by (simp add: write_ipv4_checksum_def Let_def t)
  show "\<And>i. ipv6 \<or> (i \<noteq> 10 \<and> i \<noteq> 11) \<Longrightarrow> write_ipv4_checksum ipv6 start p ! i = p ! i"
    by (auto simp: write_ipv4_checksum_def Let_def nth_write16_other)
qed

lemma addresses_ipv4_checksum:
  "source_bytes (write_ipv4_checksum ipv6 start p) ipv6 = source_bytes p ipv6"
  "address_bytes (write_ipv4_checksum ipv6 start p) ipv6 = address_bytes p ipv6"
  by (auto simp: write_ipv4_checksum_def Let_def addresses_write16)

text \<open>Where a segment lies: after the addresses, and after an IPv4 header of whole words.\<close>

definition segment_at :: "bool \<Rightarrow> nat \<Rightarrow> nat \<Rightarrow> packet \<Rightarrow> bool" where
  "segment_at ipv6 start k p \<longleftrightarrow>
     ip_end ipv6 \<le> start \<and> (\<not> ipv6 \<longrightarrow> even start \<and> start \<le> 60) \<and> even k \<and> start + k + 2 \<le> length p \<and>
     length p < 65576"

lemma seal_props:
  assumes "segment_at ipv6 start k p"
  shows "checksums_ok ipv6 protocol start (seal ipv6 protocol start k p)"
    and "length (seal ipv6 protocol start k p) = length p"
    and "source_bytes (seal ipv6 protocol start k p) ipv6 = source_bytes p ipv6"
    and "address_bytes (seal ipv6 protocol start k p) ipv6 = address_bytes p ipv6"
    and "\<And>i. i \<noteq> start + k \<Longrightarrow> i \<noteq> start + k + 1 \<Longrightarrow> ipv6 \<or> (i \<noteq> 10 \<and> i \<noteq> 11) \<Longrightarrow>
           seal ipv6 protocol start k p ! i = p ! i"
proof -
  define q where "q = write16 p (start + k) 0"
  define len where "len = length p - start"
  define acc where "acc = pseudo_sum ipv6 q
    [byte_at 24 len, byte_at 16 len, byte_at 8 len, byte_at 0 len, 0, 0, 0, protocol]
    [0, protocol, byte_at 8 len, byte_at 0 len]"
  define r where "r = write16 q (start + k) (checksum_finish (checksum_add acc (drop start q)))"
  note a = assms [unfolded segment_at_def]
  have seal: "seal ipv6 protocol start k p = write_ipv4_checksum ipv6 start r"
    by (simp add: seal_def r_def acc_def q_def len_def Let_def)
  have l: "length q = length p" "length r = length p" by (simp_all add: q_def r_def)
  show ls: "length (seal ipv6 protocol start k p) = length p"
    by (simp add: seal write_ipv4_checksum_def Let_def l)
  have src: "source_bytes (seal ipv6 protocol start k p) ipv6 = source_bytes q ipv6"
    and dst: "address_bytes (seal ipv6 protocol start k p) ipv6 = address_bytes q ipv6"
    using a by (simp_all add: seal addresses_ipv4_checksum r_def addresses_write16)
  then show "source_bytes (seal ipv6 protocol start k p) ipv6 = source_bytes p ipv6"
    and "address_bytes (seal ipv6 protocol start k p) ipv6 = address_bytes p ipv6"
    using a by (simp_all add: q_def addresses_write16)
  show "seal ipv6 protocol start k p ! i = p ! i"
    if "i \<noteq> start + k" "i \<noteq> start + k + 1" "ipv6 \<or> (i \<noteq> 10 \<and> i \<noteq> 11)" for i
    using that by (auto simp: seal write_ipv4_checksum_def Let_def r_def q_def nth_write16_other)
  have acc: "unat acc = ones_sum (pseudo_header ipv6 protocol len q)"
    and h: "length (pseudo_header ipv6 protocol len q) \<le> 40"
    unfolding acc_def using a l by (simp_all add: pseudo_sum_spec)
  have "unat acc + ones_sum (drop start q) < 2 ^ 32"
  proof -
    have "unat acc \<le> 65535 * 20" unfolding acc
      by (rule order_trans [OF ones_sum_bound]) (use h in simp)
    moreover have "ones_sum (drop start q) \<le> 65535 * 32788"
    proof (rule order_trans [OF ones_sum_bound])
      have "length (drop start q) \<le> length p" using l by simp
      then have "length (drop start q) + 1 \<le> 65576" using a by linarith
      then show "65535 * ((length (drop start q) + 1) div 2) \<le> 65535 * 32788"
        using div_le_mono [of _ 65576 2] by fastforce
    qed
    ultimately show ?thesis by simp
  qed
  then have "(unat acc + ones_sum (drop start r)) mod 65535 = 0"
    unfolding r_def drop_write16 using a l
    by (intro fill_checksum) (auto simp: q_def less_diff_conv)
  moreover have "pseudo_header ipv6 protocol len (seal ipv6 protocol start k p) = pseudo_header ipv6 protocol len q"
    using src dst by (rule pseudo_header_cong)
  moreover have "drop start (seal ipv6 protocol start k p) = drop start r"
    unfolding seal using a
    by (auto simp: write_ipv4_checksum_def Let_def drop_write16_before ip_end_def split: if_splits)
  moreover have "\<not> ipv6 \<Longrightarrow> ones_sum (take start (seal ipv6 protocol start k p)) mod 65535 = 0"
    unfolding seal using a l by (simp add: ip_end_def write_ipv4_checksum_props)
  ultimately show "checksums_ok ipv6 protocol start (seal ipv6 protocol start k p)"
    using acc by (simp add: checksums_ok_def ls flip: len_def)
qed


section \<open>Views\<close>

lemma ipv6_headers_bounds:
  "ipv6_headers n p h at = Inr (protocol, start) \<Longrightarrow>
     at \<le> start \<and> (protocol = ipproto_udp \<or> protocol = ipproto_tcp)"
  by (induction n p h at rule: ipv6_headers.induct)
    (auto simp: Let_def split: if_splits)

lemma ipv6_headers_cong:
  "ipv6_headers n p h at = Inr (protocol, start) \<Longrightarrow> start \<le> length q \<Longrightarrow>
     (\<And>i. at \<le> i \<Longrightarrow> i < start \<Longrightarrow> q ! i = p ! i) \<Longrightarrow>
     ipv6_headers n q h at = Inr (protocol, start)"
proof (induction n arbitrary: h at)
  case (Suc n)
  have next_header: "\<exists>len. ipv6_headers n p (p ! at) (at + len) = Inr (protocol, start) \<and> 8 \<le> len \<and>
      ipv6_headers (Suc n) q h at = ipv6_headers n q (q ! at) (at + len)"
    if "h \<noteq> ipproto_udp" "h \<noteq> ipproto_tcp"
  proof -
    have less: "at + 8 \<le> start"
      using that Suc.prems(1) by (auto simp: Let_def split: if_splits dest!: ipv6_headers_bounds)
    then have e: "q ! at = p ! at" "q ! (at + 1) = p ! (at + 1)" "read16 q (at + 2) = read16 p (at + 2)"
      using Suc.prems(3) by (simp_all add: read16_def)
    show ?thesis
      using that Suc.prems(1,2) less e
      by (auto simp: Let_def split: if_splits dest: ipv6_headers_bounds)
  qed
  show ?case
  proof (cases "h = ipproto_udp \<or> h = ipproto_tcp")
    case True
    then show ?thesis using Suc.prems(1) by auto
  next
    case False
    then obtain len where len: "ipv6_headers n p (p ! at) (at + len) = Inr (protocol, start)" "8 \<le> len"
      and q: "ipv6_headers (Suc n) q h at = ipv6_headers n q (q ! at) (at + len)" using next_header by blast
    have "at + len \<le> start" using ipv6_headers_bounds [OF len(1)] by simp
    then have "q ! at = p ! at" using Suc.prems(3) len(2) by simp
    then show ?thesis unfolding q using Suc.IH [OF len(1) Suc.prems(2)] Suc.prems(3) by simp
  qed
qed simp


lemma word16_length: "unat (read16 p at) = length p \<Longrightarrow> length p < 65536"
  using unsigned_less [of "read16 p at", where ?'a = nat] by simp

lemma ipv4_header_bounds: "even (ipv4_header p)" "ipv4_header p \<le> 60"
proof -
  have "p ! 0 AND 0x0F = take_bit 4 (p ! 0)" by (simp add: take_bit_eq_mask mask_eq_exp_minus_1)
  then have "unat (p ! 0 AND 0x0F) = unat (p ! 0) mod 16"
    by (simp only: unsigned_take_bit_eq) (simp add: take_bit_eq_mod)
  then show "ipv4_header p \<le> 60" by (simp add: ipv4_header_def)
  show "even (ipv4_header p)" by (simp add: ipv4_header_def)
qed

text \<open>What the views guarantee: where the segment lies, in a packet of at most 65575 bytes.\<close>

definition located :: "nat \<Rightarrow> packet \<Rightarrow> nat \<Rightarrow> bool \<Rightarrow> bool" where
  "located header p start ipv6 \<longleftrightarrow>
     ip_end ipv6 \<le> start \<and> (\<not> ipv6 \<longrightarrow> even start \<and> start \<le> 60) \<and> start + header \<le> length p \<and>
     length p < 65576"

lemma udp_start_located: "udp_start p = Inr (start, ipv6) \<Longrightarrow> located 8 p start ipv6"
  using ipv4_header_bounds [of p] word16_length [of p 2] unsigned_less [of "read16 p 4", where ?'a = nat]
  by (auto simp: udp_start_def ipv6_transport_def located_def ip_end_def Let_def
      dest: ipv6_headers_bounds split: if_splits)

lemma tcp_start_located: "tcp_start p = Inr (start, ipv6) \<Longrightarrow> located 20 p start ipv6"
  using ipv4_header_bounds [of p] word16_length [of p 2] unsigned_less [of "read16 p 4", where ?'a = nat]
  by (auto simp: tcp_start_def ipv6_transport_def located_def ip_end_def Let_def
      dest: ipv6_headers_bounds split: if_splits)

lemma udp_view_Inr_iff:
  "udp_view_of p = Inr view \<longleftrightarrow>
     28 \<le> length p \<and> udp_start p = Inr (uv_udp view, uv_ipv6 view) \<and> uv_payload view = uv_udp view + 8 \<and>
     read16 p (uv_udp view + 2) = 53 \<and> unat (read16 p (uv_udp view + 4)) = length p - uv_udp view \<and>
     uv_udp view + 20 \<le> length p"
proof
  assume "udp_view_of p = Inr view"
  then show "28 \<le> length p \<and> udp_start p = Inr (uv_udp view, uv_ipv6 view) \<and>
      uv_payload view = uv_udp view + 8 \<and> read16 p (uv_udp view + 2) = 53 \<and>
      unat (read16 p (uv_udp view + 4)) = length p - uv_udp view \<and> uv_udp view + 20 \<le> length p"
    by (auto simp: udp_view_of_def split: if_splits)
next
  assume "28 \<le> length p \<and> udp_start p = Inr (uv_udp view, uv_ipv6 view) \<and>
      uv_payload view = uv_udp view + 8 \<and> read16 p (uv_udp view + 2) = 53 \<and>
      unat (read16 p (uv_udp view + 4)) = length p - uv_udp view \<and> uv_udp view + 20 \<le> length p"
  then show "udp_view_of p = Inr view"
    by (cases view) (auto simp: udp_view_of_def)
qed

text \<open>Both parsers read only the first bytes of the IP header and what is before the segment.\<close>

definition same_route :: "nat \<Rightarrow> bool \<Rightarrow> packet \<Rightarrow> packet \<Rightarrow> bool" where
  "same_route start ipv6 p q \<longleftrightarrow>
     (if ipv6 then length q = unat (read16 q 4) + 40 else length q = unat (read16 q 2)) \<and>
     (\<forall>i \<in> {0, 6, 7}. q ! i = p ! i) \<and> (\<not> ipv6 \<longrightarrow> q ! 9 = p ! 9) \<and> (ipv6 \<longrightarrow> (\<forall>i. 40 \<le> i \<and> i < start \<longrightarrow> q ! i = p ! i))"

lemma udp_start_same:
  assumes "udp_start p = Inr (start, ipv6)" and "same_route start ipv6 p q" and "start + 8 \<le> length q"
  shows "udp_start q = Inr (start, ipv6)"
proof -
  have l: "20 \<le> start" "ipv6 \<Longrightarrow> 40 \<le> start"
    using udp_start_located [OF assms(1)] by (auto simp: located_def ip_end_def split: if_splits)
  have e: "q ! 0 = p ! 0" "\<not> ipv6 \<Longrightarrow> q ! 9 = p ! 9" "q ! 6 = p ! 6" "q ! 7 = p ! 7"
    using assms(2) l by (auto simp: same_route_def)
  then have h: "ip_version q = ip_version p" "ipv4_header q = ipv4_header p" "read16 q 6 = read16 p 6"
    by (simp_all add: ip_version_def ipv4_header_def read16_def)
  show ?thesis
  proof (cases ipv6)
    case True
    then obtain protocol where t: "ip_version p = 6" "ipv6_headers 16 p (p ! 6) 40 = Inr (protocol, start)"
      "protocol = ipproto_udp"
      using assms(1) by (auto simp: udp_start_def ipv6_transport_def Let_def split: if_splits)
    then have "ipv6_headers 16 q (p ! 6) 40 = Inr (protocol, start)"
      using assms(2,3) True by (intro ipv6_headers_cong [OF t(2)]) (auto simp: same_route_def)
    then show ?thesis using t h e True assms(2,3) l
      by (simp add: udp_start_def ipv6_transport_def same_route_def)
  next
    case False
    then show ?thesis using assms h e l
      by (auto simp: udp_start_def Let_def same_route_def split: if_splits)
  qed
qed


section \<open>The response to a captured query\<close>

text \<open>Who sends and who receives: address and port on both sides.\<close>

definition endpoints :: "bool \<Rightarrow> nat \<Rightarrow> packet \<Rightarrow> (packet \<times> 16 word) \<times> (packet \<times> 16 word)" where
  "endpoints ipv6 start p =
     ((source_bytes p ipv6, read16 p start), (address_bytes p ipv6, read16 p (start + 2)))"

lemma addresses_cong:
  assumes "ip_end ipv6 \<le> length p" and "ip_end ipv6 \<le> length q"
    and "\<And>i. (if ipv6 then 8 else 12) \<le> i \<Longrightarrow> i < ip_end ipv6 \<Longrightarrow> p ! i = q ! i"
  shows "source_bytes p ipv6 = source_bytes q ipv6" and "address_bytes p ipv6 = address_bytes q ipv6"
  using assms by (auto simp: source_bytes_def address_bytes_def ip_end_def intro!: nth_equalityI split: if_splits)

lemma unat_word_of_nat16: "n < 65536 \<Longrightarrow> unat (word_of_nat n :: 16 word) = n"
  by (simp add: unsigned_of_nat take_bit_nat_eq_self)

lemma byte_at_high: "len < 65536 \<Longrightarrow> byte_at 24 len = 0 \<and> byte_at 16 len = 0"
  by (simp add: byte_at_def)

definition udp_reply :: "udp_view \<Rightarrow> packet \<Rightarrow> packet \<Rightarrow> packet" where
  "udp_reply view captured response =
     (let p = take (uv_payload view) captured @ response;
          p = (if uv_ipv6 view then write16 p 4 (word_of_nat (length p - 40))
               else write16 p 2 (word_of_nat (length p)));
          p = swap_addresses (uv_ipv6 view) p;
          p = swap_bytes (uv_udp view) (uv_udp view + 2) p;
          p = swap_bytes (uv_udp view + 1) (uv_udp view + 3) p in
      write16 p (uv_udp view + 4) (word_of_nat (8 + length response)))"

lemma length_swap_addresses [simp]: "length (swap_addresses ipv6 p) = length p"
  by (simp add: swap_addresses_def)

lemma length_udp_reply:
  "uv_payload view \<le> length captured \<Longrightarrow>
     length (udp_reply view captured response) = uv_payload view + length response"
  by (simp add: udp_reply_def Let_def)

lemma udp_response_eq:
  assumes "udp_view_of captured = Inr view" and "12 \<le> length response" and "length response \<le> 65507"
    and "uv_payload view + length response \<le> 65535"
  shows "make_intercepted_udp_response captured response =
      Inr (seal (uv_ipv6 view) ipproto_udp (uv_udp view) 6 (udp_reply view captured response))"
proof -
  have b: "uv_payload view = uv_udp view + 8" "uv_udp view + 20 \<le> length captured"
    using assms(1) by (auto simp: udp_view_Inr_iff)
  then have len: "length (udp_reply view captured response) - uv_udp view = 8 + length response"
    by (simp add: length_udp_reply)
  show ?thesis
    using assms b byte_at_high [of "8 + length response"]
    unfolding seal_def len length_write16
    by (simp add: make_intercepted_udp_response_def udp_reply_def Let_def)
qed

lemma udp_response_sealed:
  assumes "make_intercepted_udp_response captured response = Inr p"
  shows "\<exists>view. udp_view_of captured = Inr view \<and> 12 \<le> length response \<and>
    uv_payload view + length response \<le> 65535 \<and>
    p = seal (uv_ipv6 view) ipproto_udp (uv_udp view) 6 (udp_reply view captured response)"
proof -
  obtain view where v: "udp_view_of captured = Inr view"
    and r: "12 \<le> length response" "length response \<le> 65507" "uv_payload view + length response \<le> 65535"
    using assms by (auto simp: make_intercepted_udp_response_def Let_def split: if_splits)
  then show ?thesis using assms udp_response_eq [OF v r] by auto
qed

lemma udp_reply_props:
  assumes "udp_view_of captured = Inr view" and "12 \<le> length response"
    and "uv_payload view + length response \<le> 65535"
  defines "ipv6 \<equiv> uv_ipv6 view" and "start \<equiv> uv_udp view" and "q \<equiv> udp_reply view captured response"
  shows "length q = uv_payload view + length response"
    and "drop (uv_payload view) q = response"
    and "source_bytes q ipv6 = address_bytes captured ipv6"
    and "address_bytes q ipv6 = source_bytes captured ipv6"
    and "read16 q start = read16 captured (start + 2)" and "read16 q (start + 2) = read16 captured start"
    and "unat (read16 q (start + 4)) = length q - start"
    and "unat (read16 q (if ipv6 then 4 else 2)) = length q - (if ipv6 then 40 else 0)"
    and "\<And>i. i < start \<Longrightarrow> i < 8 \<and> i \<noteq> (if ipv6 then 4 else 2) \<and> i \<noteq> (if ipv6 then 5 else 3) \<or> (\<not> ipv6 \<and> 8 \<le> i \<and> i < 12) \<or> (ipv6 \<and> 40 \<le> i) \<Longrightarrow>
           q ! i = captured ! i"
proof -
  let ?n = "uv_payload view"
  define a where "a = take ?n captured @ response"
  define b where "b = (if ipv6 then write16 a 4 (word_of_nat (length a - 40)) else write16 a 2 (word_of_nat (length a)))"
  define c where "c = swap_addresses ipv6 b"
  define d where "d = swap_bytes (start + 1) (start + 3) (swap_bytes start (start + 2) c)"
  have v: "?n = start + 8" "start + 20 \<le> length captured" "ip_end ipv6 \<le> start"
    using assms(1) udp_start_located [of captured start ipv6]
    by (auto simp: udp_view_Inr_iff located_def start_def ipv6_def)
  have q: "q = write16 d (start + 4) (word_of_nat (8 + length response))"
    by (simp add: q_def udp_reply_def a_def b_def c_def d_def ipv6_def start_def Let_def)
  have e: "20 \<le> ip_end ipv6" "ipv6 \<Longrightarrow> ip_end ipv6 = 40" by (auto simp: ip_end_def)
  have la: "length a = ?n + length response" using v by (simp add: a_def)
  have l: "length b = length a" "length c = length a" "length d = length a" "length q = length a"
    by (simp_all add: b_def c_def d_def q)
  show "length q = ?n + length response" using la l by simp
  have qd: "q ! i = c ! i" if "i < start \<or> ?n \<le> i" for i
    using that v l la by (auto simp: q d_def nth_write16_other nth_swap_bytes)
  have cb: "c ! i = b ! i" if "i < 8 \<or> (\<not> ipv6 \<and> i < 12) \<or> ip_end ipv6 \<le> i" for i
    unfolding c_def using that v l la by (intro swap_addresses_rest) auto
  have ba: "b ! i = a ! i" if "i \<noteq> (if ipv6 then 4 else 2)" "i \<noteq> (if ipv6 then 5 else 3)" for i
    using that by (auto simp: b_def nth_write16_other)
  have ac: "a ! i = captured ! i" if "i < ?n" for i using that v by (simp add: a_def nth_append)
  show "drop ?n q = response"
  proof (rule nth_equalityI)
    fix i assume "i < length (drop ?n q)"
    then show "drop ?n q ! i = response ! i"
      using v e l la qd [of "?n + i"] cb [of "?n + i"] ba [of "?n + i"] by (auto simp: a_def nth_append)
  qed (simp add: l la)
  have bc: "source_bytes b ipv6 = source_bytes captured ipv6" "address_bytes b ipv6 = address_bytes captured ipv6"
    using v l la e by (auto intro!: addresses_cong simp: ba ac ip_end_def split: if_splits)
  have qc: "source_bytes q ipv6 = source_bytes c ipv6" "address_bytes q ipv6 = address_bytes c ipv6"
    using v l la e by (auto intro!: addresses_cong simp: qd)
  have "ip_end ipv6 \<le> length b" using v l la by simp
  note swap_addresses_swaps(1,2) [OF this, folded c_def]
  then show "source_bytes q ipv6 = address_bytes captured ipv6"
    and "address_bytes q ipv6 = source_bytes captured ipv6"
    by (simp_all add: qc bc)
  have cc: "c ! i = captured ! i" if "start \<le> i" "i < ?n" for i
    using that v e cb [of i] ba [of i] ac [of i] by (auto split: if_splits)
  have "q ! start = c ! (start + 2)" "q ! (start + 1) = c ! (start + 3)"
    "q ! (start + 2) = c ! start" "q ! (start + 3) = c ! (start + 1)"
    using v l la by (auto simp: q d_def nth_write16_other nth_swap_bytes)
  then show "read16 q start = read16 captured (start + 2)" and "read16 q (start + 2) = read16 captured start"
    using cc v by (simp_all add: read16_def eval_nat_numeral)
  show "unat (read16 q (start + 4)) = length q - start"
    using v l la assms(3) by (simp add: q unat_word_of_nat16 del: of_nat_add)
  have "read16 q (if ipv6 then 4 else 2) = read16 b (if ipv6 then 4 else 2)"
    using v e qd cb by (auto simp: read16_def)
  also have "\<dots> = word_of_nat (length a - (if ipv6 then 40 else 0))"
    using v l la by (auto simp: b_def)
  finally show "unat (read16 q (if ipv6 then 4 else 2)) = length q - (if ipv6 then 40 else 0)"
    using l la assms(3) by (simp add: unat_word_of_nat16)
  show "q ! i = captured ! i"
    if "i < start" "i < 8 \<and> i \<noteq> (if ipv6 then 4 else 2) \<and> i \<noteq> (if ipv6 then 5 else 3) \<or> (\<not> ipv6 \<and> 8 \<le> i \<and> i < 12) \<or> (ipv6 \<and> 40 \<le> i)" for i
    using that v e qd [of i] cb [of i] ba [of i] ac [of i] by (auto split: if_splits)
qed

lemma udp_response_facts:
  assumes "make_intercepted_udp_response captured response = Inr p"
  shows "\<exists>view. udp_view_of captured = Inr view \<and>
    udp_start p = Inr (uv_udp view, uv_ipv6 view) \<and> drop (uv_payload view) p = response \<and>
    endpoints (uv_ipv6 view) (uv_udp view) p = prod.swap (endpoints (uv_ipv6 view) (uv_udp view) captured) \<and>
    unat (read16 p (uv_udp view + 4)) = length p - uv_udp view \<and>
    checksums_ok (uv_ipv6 view) ipproto_udp (uv_udp view) p"
proof -
  obtain view where v: "udp_view_of captured = Inr view" and r: "12 \<le> length response"
      "uv_payload view + length response \<le> 65535"
    and p: "p = seal (uv_ipv6 view) ipproto_udp (uv_udp view) 6 (udp_reply view captured response)"
    using udp_response_sealed [OF assms] by blast
  let ?q = "udp_reply view captured response" and ?u = "uv_udp view"
  note q = udp_reply_props [OF v r]
  have u: "udp_start captured = Inr (?u, uv_ipv6 view)" "uv_payload view = ?u + 8"
    using v by (auto simp: udp_view_Inr_iff)
  then have at: "segment_at (uv_ipv6 view) ?u 6 ?q"
    using udp_start_located [OF u(1)] q(1) r by (auto simp: located_def segment_at_def)
  then have u20: "ip_end (uv_ipv6 view) \<le> ?u" by (simp add: segment_at_def)
  note s = seal_props [OF at, where protocol = ipproto_udp, folded p]
  have keep: "p ! i = ?q ! i" if "i < 10 \<or> (uv_ipv6 view \<and> i < ?u) \<or> (?u \<le> i \<and> i < ?u + 6) \<or> ?u + 8 \<le> i" for i
    using s(5) [of i] that u20 by (auto simp: ip_end_def split: if_splits)
  have "drop (uv_payload view) p = drop (uv_payload view) ?q"
    using s(2) u by (intro nth_equalityI) (auto intro: keep)
  moreover have "read16 p i = read16 ?q i" if "i < 8 \<or> (?u \<le> i \<and> i < ?u + 5)" for i
    using that u20 keep [of i] keep [of "i + 1"] by (auto simp: read16_def)
  moreover have "udp_start p = Inr (?u, uv_ipv6 view)"
  proof (rule udp_start_same [OF u(1)])
    have "p ! i = captured ! i" if "i \<in> {0, 6, 7} \<or> (\<not> uv_ipv6 view \<and> i = 9) \<or> (uv_ipv6 view \<and> 40 \<le> i \<and> i < ?u)" for i
      using that u20 keep [of i] q(9) [of i] by (auto simp: ip_end_def split: if_splits)
    moreover have "read16 p (if uv_ipv6 view then 4 else 2) = read16 ?q (if uv_ipv6 view then 4 else 2)"
      using keep by (auto simp: read16_def)
    ultimately show "same_route ?u (uv_ipv6 view) captured p"
      unfolding same_route_def using q(1,8) s(2) u u20 by (auto simp: ip_end_def split: if_splits)
    show "?u + 8 \<le> length p" using s(2) q(1) u by simp
  qed
  ultimately show ?thesis using v q s(1-4)
    by (intro exI [of _ view]) (auto simp: endpoints_def)
qed


text \<open>
  The response the application receives: the parser accepts it as a datagram from the server it
  asked, to the port it asked from, with the given DNS message as payload, lengths that agree and
  checksums that verify.
\<close>

text \<open>C28: The UDP response built for a captured query is a datagram from the server asked to
  the port it was asked from, whose payload is the DNS message, with lengths that agree and
  checksums that verify, for IPv4 and IPv6.\<close>

theorem udp_response_delivered:
  assumes "make_intercepted_udp_response captured response = Inr p"
  shows "\<exists>view. udp_view_of captured = Inr view \<and>
    udp_start p = Inr (uv_udp view, uv_ipv6 view) \<and> drop (uv_payload view) p = response \<and>
    endpoints (uv_ipv6 view) (uv_udp view) p = prod.swap (endpoints (uv_ipv6 view) (uv_udp view) captured) \<and>
    unat (read16 p (uv_udp view + 4)) = length p - uv_udp view \<and>
    checksums_ok (uv_ipv6 view) ipproto_udp (uv_udp view) p"
  using assms by (rule udp_response_facts)

section \<open>Reflected TCP packets\<close>

lemma tcp_view_Inr_iff:
  "tcp_view_of p = Inr view \<longleftrightarrow>
     40 \<le> length p \<and> tcp_start p = Inr (tv_tcp view, tv_ipv6 view) \<and>
     tv_payload view = tv_tcp view + unat (drop_bit 4 (p ! (tv_tcp view + 12))) * 4 \<and>
     tv_tcp view + 20 \<le> tv_payload view \<and> tv_payload view \<le> length p"
proof
  assume "tcp_view_of p = Inr view"
  then show "40 \<le> length p \<and> tcp_start p = Inr (tv_tcp view, tv_ipv6 view) \<and>
     tv_payload view = tv_tcp view + unat (drop_bit 4 (p ! (tv_tcp view + 12))) * 4 \<and>
     tv_tcp view + 20 \<le> tv_payload view \<and> tv_payload view \<le> length p"
    by (auto simp: tcp_view_of_def Let_def split: if_splits)
next
  assume "40 \<le> length p \<and> tcp_start p = Inr (tv_tcp view, tv_ipv6 view) \<and>
     tv_payload view = tv_tcp view + unat (drop_bit 4 (p ! (tv_tcp view + 12))) * 4 \<and>
     tv_tcp view + 20 \<le> tv_payload view \<and> tv_payload view \<le> length p"
  then show "tcp_view_of p = Inr view"
    by (cases view) (auto simp: tcp_view_of_def Let_def)
qed

lemma tcp_start_same:
  assumes "tcp_start p = Inr (start, ipv6)" and "same_route start ipv6 p q" and "start + 20 \<le> length q"
  shows "tcp_start q = Inr (start, ipv6)"
proof -
  have l: "20 \<le> start" "ipv6 \<Longrightarrow> 40 \<le> start"
    using tcp_start_located [OF assms(1)] by (auto simp: located_def ip_end_def split: if_splits)
  have e: "q ! 0 = p ! 0" "\<not> ipv6 \<Longrightarrow> q ! 9 = p ! 9" "q ! 6 = p ! 6" "q ! 7 = p ! 7"
    using assms(2) l by (auto simp: same_route_def)
  then have h: "ip_version q = ip_version p" "ipv4_header q = ipv4_header p" "read16 q 6 = read16 p 6"
    by (simp_all add: ip_version_def ipv4_header_def read16_def)
  show ?thesis
  proof (cases ipv6)
    case True
    then obtain protocol where t: "ip_version p = 6" "ipv6_headers 16 p (p ! 6) 40 = Inr (protocol, start)"
      "protocol = ipproto_tcp"
      using assms(1) by (auto simp: tcp_start_def ipv6_transport_def Let_def split: if_splits)
    then have "ipv6_headers 16 q (p ! 6) 40 = Inr (protocol, start)"
      using assms(2,3) True by (intro ipv6_headers_cong [OF t(2)]) (auto simp: same_route_def)
    then show ?thesis using t h e True assms(2,3) l
      by (simp add: tcp_start_def ipv6_transport_def same_route_def)
  next
    case False
    then show ?thesis using assms h e l
      by (auto simp: tcp_start_def Let_def same_route_def split: if_splits)
  qed
qed

lemma tcp_start_length:
  "tcp_start p = Inr (start, ipv6) \<Longrightarrow>
     (if ipv6 then length p = unat (read16 p 4) + 40 else length p = unat (read16 p 2))"
  by (auto simp: tcp_start_def ipv6_transport_def Let_def split: if_splits)

definition reflected :: "tcp_view \<Rightarrow> packet \<Rightarrow> 16 word \<Rightarrow> bool \<Rightarrow> 16 word \<Rightarrow> packet" where
  "reflected view captured proxy_port toward_proxy intercepted_port =
     write16 (swap_addresses (tv_ipv6 view) captured) (tv_tcp view + (if toward_proxy then 2 else 0))
       (if toward_proxy then proxy_port else intercepted_port)"

lemma reflected_Inr_iff:
  "make_reflected_tcp_packet captured proxy_port toward_proxy intercepted_port = Inr p \<longleftrightarrow>
     (\<exists>view. tcp_view_of captured = Inr view \<and> proxy_port \<noteq> 0 \<and> intercepted_port \<noteq> 0 \<and>
       (if toward_proxy then read16 captured (tv_tcp view + 2) = intercepted_port
        else read16 captured (tv_tcp view) = proxy_port) \<and>
       p = seal (tv_ipv6 view) ipproto_tcp (tv_tcp view) 16
             (reflected view captured proxy_port toward_proxy intercepted_port))"
  by (auto simp: make_reflected_tcp_packet_def seal_def reflected_def Let_def)

lemma same_route_reflected:
  assumes "tcp_view_of captured = Inr view"
    and "p = seal (tv_ipv6 view) ipproto_tcp (tv_tcp view) 16 (reflected view captured port toward port')"
  shows "segment_at (tv_ipv6 view) (tv_tcp view) 16 (reflected view captured port toward port')"
    and "\<And>i. i < 8 \<or> (tv_ipv6 view \<and> 40 \<le> i \<and> i < tv_tcp view) \<or> (\<not> tv_ipv6 view \<and> i = 9) \<or>
          (tv_tcp view + 4 \<le> i \<and> i < tv_tcp view + 16) \<or> tv_tcp view + 18 \<le> i \<Longrightarrow> p ! i = captured ! i"
    and "length p = length captured"
proof -
  let ?q = "reflected view captured port toward port'"
  have l: "located 20 captured (tv_tcp view) (tv_ipv6 view)"
    using assms(1) tcp_start_located by (auto simp: tcp_view_Inr_iff)
  then show at: "segment_at (tv_ipv6 view) (tv_tcp view) 16 ?q"
    by (auto simp: located_def segment_at_def reflected_def)
  note s = seal_props [OF at, where protocol = ipproto_tcp, folded assms(2)]
  show "length p = length captured" using s(2) by (simp add: reflected_def)
  show "p ! i = captured ! i"
    if "i < 8 \<or> (tv_ipv6 view \<and> 40 \<le> i \<and> i < tv_tcp view) \<or> (\<not> tv_ipv6 view \<and> i = 9) \<or>
          (tv_tcp view + 4 \<le> i \<and> i < tv_tcp view + 16) \<or> tv_tcp view + 18 \<le> i" for i
  proof -
    have e: "ip_end (tv_ipv6 view) \<le> tv_tcp view" "20 \<le> ip_end (tv_ipv6 view)" "ip_end (tv_ipv6 view) \<le> length captured"
      using l by (auto simp: located_def ip_end_def)
    have "p ! i = ?q ! i" using s(5) [of i] that e by (auto simp: ip_end_def split: if_splits)
    also have "?q ! i = swap_addresses (tv_ipv6 view) captured ! i"
      unfolding reflected_def using that e by (intro nth_write16_other) (auto simp: ip_end_def split: if_splits)
    also have "\<dots> = captured ! i"
      using that e by (intro swap_addresses_rest) (auto simp: ip_end_def split: if_splits)
    finally show ?thesis .
  qed
qed

text \<open>
  A reflected packet is a TCP packet with checksums that verify and the same sequence numbers,
  flags and payload; the addresses are exchanged, and toward the proxy the destination port
  becomes the proxy's, from the proxy the source port becomes the intercepted one.
\<close>

lemma reflection_exact:
  assumes "make_reflected_tcp_packet captured proxy_port toward_proxy intercepted_port = Inr p"
  shows "\<exists>view. tcp_view_of captured = Inr view \<and> tcp_view_of p = Inr view \<and> length p = length captured \<and>
    (let ((src, sport), (dst, dport)) = endpoints (tv_ipv6 view) (tv_tcp view) captured in
      endpoints (tv_ipv6 view) (tv_tcp view) p =
        (if toward_proxy then ((dst, sport), (src, proxy_port)) else ((dst, intercepted_port), (src, dport)))) \<and>
    (\<forall>i. tv_tcp view + 4 \<le> i \<and> i \<noteq> tv_tcp view + 16 \<and> i \<noteq> tv_tcp view + 17 \<longrightarrow> p ! i = captured ! i) \<and>
    checksums_ok (tv_ipv6 view) ipproto_tcp (tv_tcp view) p"
proof -
  obtain view where v: "tcp_view_of captured = Inr view"
    and p: "p = seal (tv_ipv6 view) ipproto_tcp (tv_tcp view) 16
      (reflected view captured proxy_port toward_proxy intercepted_port)"
    using assms unfolding reflected_Inr_iff by blast
  let ?t = "tv_tcp view" and ?q = "reflected view captured proxy_port toward_proxy intercepted_port"
  note k = same_route_reflected [OF v p]
  have c: "40 \<le> length captured" "tcp_start captured = Inr (?t, tv_ipv6 view)"
    "?t + 20 \<le> length captured" "ip_end (tv_ipv6 view) \<le> ?t"
    using v k(1) by (auto simp: tcp_view_Inr_iff segment_at_def)
  note s = seal_props [OF k(1), where protocol = ipproto_tcp, folded p]
  have "same_route ?t (tv_ipv6 view) captured p"
    unfolding same_route_def using tcp_start_length [OF c(2)] k(2,3) by (auto simp: read16_def split: if_splits)
  then have "tcp_view_of p = Inr view"
    using tcp_start_same [OF c(2)] c v k(2) [of "?t + 12"] k(3) by (auto simp: tcp_view_Inr_iff)
  moreover have "source_bytes p (tv_ipv6 view) = address_bytes captured (tv_ipv6 view)"
      "address_bytes p (tv_ipv6 view) = source_bytes captured (tv_ipv6 view)"
    using c s(3,4) by (auto simp: reflected_def addresses_write16 swap_addresses_swaps)
  moreover have "read16 p ?t = (if toward_proxy then read16 captured ?t else intercepted_port)"
      "read16 p (?t + 2) = (if toward_proxy then proxy_port else read16 captured (?t + 2))"
  proof -
    have "read16 p i = read16 ?q i" if "i < ?t + 4" "?t \<le> i" for i
      using s(5) [of i] s(5) [of "i + 1"] c that by (auto simp: read16_def ip_end_def split: if_splits)
    moreover have "swap_addresses (tv_ipv6 view) captured ! i = captured ! i" if "?t \<le> i" for i
      using c that by (intro swap_addresses_rest) auto
    ultimately show "read16 p ?t = (if toward_proxy then read16 captured ?t else intercepted_port)"
      "read16 p (?t + 2) = (if toward_proxy then proxy_port else read16 captured (?t + 2))"
      using c by (auto simp: reflected_def) (auto simp: read16_def nth_write16_other)
  qed
  moreover have "\<forall>i. ?t + 4 \<le> i \<and> i \<noteq> ?t + 16 \<and> i \<noteq> ?t + 17 \<longrightarrow> p ! i = captured ! i"
  proof (intro allI impI)
    fix i assume "?t + 4 \<le> i \<and> i \<noteq> ?t + 16 \<and> i \<noteq> ?t + 17"
    then have "(?t + 4 \<le> i \<and> i < ?t + 16) \<or> ?t + 18 \<le> i" by linarith
    then show "p ! i = captured ! i" using k(2) by blast
  qed
  ultimately show ?thesis using v k(3) s(1)
    by (intro exI [of _ view]) (simp add: endpoints_def)
qed

text \<open>
  Transparency: whatever the proxy answers on the connection it sees, the packet that reaches the
  application is an answer on the connection the application opened.
\<close>

text \<open>C29: The two rewritings of TCP segments are inverse to each other on connections: what the
  proxy answers on the connection it sees reaches the application on the connection it
  opened, payload unchanged and checksums valid.\<close>

theorem reflection_transparent:
  assumes "make_reflected_tcp_packet query proxy_port True intercepted_port = Inr seen"
    and "make_reflected_tcp_packet answer proxy_port False intercepted_port = Inr delivered"
    and "tcp_view_of query = Inr view" and "tcp_view_of answer = Inr view'"
    and "endpoints (tv_ipv6 view') (tv_tcp view') answer =
      prod.swap (endpoints (tv_ipv6 view) (tv_tcp view) seen)"
  shows "endpoints (tv_ipv6 view') (tv_tcp view') delivered =
      prod.swap (endpoints (tv_ipv6 view) (tv_tcp view) query) \<and>
    tcp_view_of seen = Inr view \<and> tcp_view_of delivered = Inr view' \<and>
    drop (tv_payload view) seen = drop (tv_payload view) query \<and>
    drop (tv_payload view') delivered = drop (tv_payload view') answer \<and>
    checksums_ok (tv_ipv6 view) ipproto_tcp (tv_tcp view) seen \<and>
    checksums_ok (tv_ipv6 view') ipproto_tcp (tv_tcp view') delivered"
proof -
  let ?e = "\<lambda>v p. endpoints (tv_ipv6 v) (tv_tcp v) p"
  have q: "tcp_view_of seen = Inr view" "length seen = length query"
      "?e view seen = ((fst (snd (?e view query)), snd (fst (?e view query))), (fst (fst (?e view query)), proxy_port))"
      "\<forall>i. tv_tcp view + 4 \<le> i \<and> i \<noteq> tv_tcp view + 16 \<and> i \<noteq> tv_tcp view + 17 \<longrightarrow> seen ! i = query ! i"
      "checksums_ok (tv_ipv6 view) ipproto_tcp (tv_tcp view) seen"
    using reflection_exact [OF assms(1)] assms(3) by (simp_all add: Let_def case_prod_unfold)
  have a: "tcp_view_of delivered = Inr view'" "length delivered = length answer"
      "?e view' delivered = ((fst (snd (?e view' answer)), intercepted_port), (fst (fst (?e view' answer)), snd (snd (?e view' answer))))"
      "\<forall>i. tv_tcp view' + 4 \<le> i \<and> i \<noteq> tv_tcp view' + 16 \<and> i \<noteq> tv_tcp view' + 17 \<longrightarrow> delivered ! i = answer ! i"
      "checksums_ok (tv_ipv6 view') ipproto_tcp (tv_tcp view') delivered"
    using reflection_exact [OF assms(2)] assms(4) by (simp_all add: Let_def case_prod_unfold)
  have port: "snd (snd (?e view query)) = intercepted_port"
    using assms(1,3) by (simp add: reflected_Inr_iff endpoints_def)
  have payload: "drop (tv_payload v) p = drop (tv_payload v) c"
    if "tcp_view_of c = Inr v" "length p = length c"
      "\<forall>i. tv_tcp v + 4 \<le> i \<and> i \<noteq> tv_tcp v + 16 \<and> i \<noteq> tv_tcp v + 17 \<longrightarrow> p ! i = c ! i" for v p c
    using that by (intro nth_equalityI) (simp_all add: tcp_view_Inr_iff)
  have "?e view' delivered = prod.swap (?e view query)"
    unfolding a(3) assms(5) q(3) by (simp add: prod_eq_iff port)
  then show ?thesis
    using q(1,5) a(1,5) payload [OF assms(3) q(2,4)] payload [OF assms(4) a(2,4)] by simp
qed


section \<open>Resets\<close>

lemma write32_updates:
  "write32 p at v = p[at := ucast (drop_bit 24 v), at + 1 := ucast (drop_bit 16 v),
     at + 2 := ucast (drop_bit 8 v), at + 3 := ucast v]"
  by (simp add: write32_def upt_rec eval_nat_numeral)

lemma length_write32 [simp]: "length (write32 p at v) = length p"
  by (simp add: write32_updates)

lemma nth_write32_other: "i < at \<or> at + 4 \<le> i \<Longrightarrow> write32 p at v ! i = p ! i"
  by (auto simp: write32_updates)

lemma read32_write32: "at + 4 \<le> length p \<Longrightarrow> read32 (write32 p at v) at = v"
  by (simp add: write32_updates read32_def nth_list_update dword_bytes)

lemma read32_cong:
  "(\<And>i. at \<le> i \<Longrightarrow> i < at + 4 \<Longrightarrow> q ! i = p ! i) \<Longrightarrow> read32 q at = read32 p at"
  by (simp add: read32_def)

text \<open>The packet that is reflected, and its steps.\<close>

definition reset_header :: "packet \<Rightarrow> tcp_view \<Rightarrow> packet" where
  "reset_header captured view =
     (let tcp = tv_tcp view;
          p = take (tcp + 20) captured;
          p = swap_bytes tcp (tcp + 2) p;
          p = swap_bytes (tcp + 1) (tcp + 3) p;
          p = take (tcp + 4) p @ replicate 16 0 in
      p[tcp + 12 := 0x50])"

definition reset_flags :: "packet \<Rightarrow> tcp_view \<Rightarrow> packet \<Rightarrow> packet" where
  "reset_flags captured view p =
     (let tcp = tv_tcp view; flags = captured ! (tcp + 13) in
      if flags AND 0x10 \<noteq> 0 then (write32 p (tcp + 4) (read32 captured (tcp + 8)))[tcp + 13 := 0x04]
      else
        (write32 p (tcp + 8)
           (read32 captured (tcp + 4) + word_of_nat (length captured - tv_payload view) +
            (if flags AND 0x02 \<noteq> 0 then 1 else 0) + (if flags AND 0x01 \<noteq> 0 then 1 else 0)))
          [tcp + 13 := 0x14])"

definition reset_packet :: "packet \<Rightarrow> tcp_view \<Rightarrow> packet" where
  "reset_packet captured view =
     (let p = reset_flags captured view (reset_header captured view) in
      if tv_ipv6 view then write16 p 4 (word_of_nat (length p - 40))
      else write16 p 2 (word_of_nat (length p)))"

lemma tcp_reset_unfold:
  "tcp_view_of captured = Inr view \<Longrightarrow> read16 captured (tv_tcp view + 2) = 53 \<Longrightarrow>
     make_intercepted_tcp_reset captured =
       (if captured ! (tv_tcp view + 13) AND 0x04 \<noteq> 0 then Inr []
        else make_reflected_tcp_packet (reset_packet captured view) 53 False 53)"
  by (simp add: make_intercepted_tcp_reset_def reset_packet_def reset_flags_def reset_header_def Let_def)

lemma reset_packet_props:
  assumes v: "tcp_view_of captured = Inr view"
  defines "start \<equiv> tv_tcp view" and "q \<equiv> reset_packet captured view"
  shows "length q = start + 20"
    and "tcp_view_of q = Inr \<lparr>tv_tcp = start, tv_payload = start + 20, tv_ipv6 = tv_ipv6 view\<rparr>"
    and "endpoints (tv_ipv6 view) start q =
      (let ((src, sport), (dst, dport)) = endpoints (tv_ipv6 view) start captured in ((src, dport), (dst, sport)))"
    and "if captured ! (start + 13) AND 0x10 \<noteq> 0
      then q ! (start + 13) = 0x04 \<and> read32 q (start + 4) = read32 captured (start + 8)
      else q ! (start + 13) = 0x14 \<and> read32 q (start + 4) = 0 \<and>
        read32 q (start + 8) = read32 captured (start + 4) + word_of_nat (length captured - tv_payload view) +
          (if captured ! (start + 13) AND 0x02 \<noteq> 0 then 1 else 0) +
          (if captured ! (start + 13) AND 0x01 \<noteq> 0 then 1 else 0)"
proof -
  define h where "h = reset_header captured view"
  define f where "f = reset_flags captured view h"
  have q: "q = (if tv_ipv6 view then write16 f 4 (word_of_nat (length f - 40)) else write16 f 2 (word_of_nat (length f)))"
    by (simp add: q_def reset_packet_def f_def h_def Let_def)
  have c: "40 \<le> length captured" "tcp_start captured = Inr (start, tv_ipv6 view)"
    "start + 20 \<le> length captured"
    using v by (auto simp: tcp_view_Inr_iff start_def)
  have e: "ip_end (tv_ipv6 view) \<le> start" "20 \<le> ip_end (tv_ipv6 view)" "length captured < 65576"
    using tcp_start_located [OF c(2)] by (auto simp: located_def ip_end_def)
  have lh: "length h = start + 20" using c by (simp add: h_def reset_header_def start_def Let_def)
  then have l: "length f = start + 20" by (simp add: f_def reset_flags_def Let_def)
  then show lq: "length q = start + 20" by (simp add: q)
  define g where "g = swap_bytes (start + 1) (start + 3) (swap_bytes start (start + 2) (take (start + 20) captured))"
  have h_g: "h = (take (start + 4) g @ replicate 16 0)[start + 12 := 0x50]"
    by (simp add: h_def g_def reset_header_def start_def Let_def)
  have g: "length g = start + 20" "\<And>i. i < start \<Longrightarrow> g ! i = captured ! i"
    "g ! start = captured ! (start + 2)" "g ! (start + 1) = captured ! (start + 3)"
    "g ! (start + 2) = captured ! start" "g ! (start + 3) = captured ! (start + 1)"
    using c by (auto simp: g_def nth_swap_bytes)
  have h: "\<And>i. i < start \<Longrightarrow> h ! i = captured ! i" "h ! start = captured ! (start + 2)"
    "h ! (start + 1) = captured ! (start + 3)" "h ! (start + 2) = captured ! start"
    "h ! (start + 3) = captured ! (start + 1)" "h ! (start + 12) = 0x50"
    "\<And>i. start + 4 \<le> i \<Longrightarrow> i < start + 12 \<Longrightarrow> h ! i = 0"
    using g by (simp_all add: h_g nth_append nth_list_update)
  have f: "f ! i = h ! i" if "i < start + 4 \<or> i = start + 12" for i
    using that by (auto simp: f_def reset_flags_def start_def [symmetric] Let_def nth_write32_other)
  have qf: "q ! i = f ! i" if "6 \<le> i \<or> i < 2" for i
    using that by (auto simp: q nth_write16_other)
  have qc: "q ! i = captured ! i" if "i < start" "6 \<le> i \<or> i < 2" for i
    using that by (simp add: qf f h(1))
  have qf': "read32 q (start + n) = read32 f (start + n)" "q ! (start + n) = f ! (start + n)" for n
    using e by (auto intro!: read32_cong qf)
  have zero: "read32 f (start + 4) = 0" if "f = (write32 h (start + 8) w)[start + 13 := x]" for w x
    using lh that by (simp add: read32_def nth_write32_other h)
  show "if captured ! (start + 13) AND 0x10 \<noteq> 0
      then q ! (start + 13) = 0x04 \<and> read32 q (start + 4) = read32 captured (start + 8)
      else q ! (start + 13) = 0x14 \<and> read32 q (start + 4) = 0 \<and>
        read32 q (start + 8) = read32 captured (start + 4) + word_of_nat (length captured - tv_payload view) +
          (if captured ! (start + 13) AND 0x02 \<noteq> 0 then 1 else 0) +
          (if captured ! (start + 13) AND 0x01 \<noteq> 0 then 1 else 0)"
  proof (cases "captured ! (start + 13) AND 0x10 = 0")
    case False
    then have "f = (write32 h (start + 4) (read32 captured (start + 8)))[start + 13 := 0x04]"
      by (simp add: f_def reset_flags_def start_def Let_def)
    moreover have "read32 (r[start + 13 := x]) (start + 4) = read32 r (start + 4)" for r x
      by (simp add: read32_def)
    ultimately show ?thesis using False lh by (simp add: qf' read32_write32)
  next
    case True
    then have "f = (write32 h (start + 8)
        (read32 captured (start + 4) + word_of_nat (length captured - tv_payload view) +
          (if captured ! (start + 13) AND 0x02 \<noteq> 0 then 1 else 0) +
          (if captured ! (start + 13) AND 0x01 \<noteq> 0 then 1 else 0)))[start + 13 := 0x14]" (is "f = ?f")
      by (simp add: f_def reset_flags_def start_def Let_def)
    moreover have "read32 (r[start + 13 := x]) (start + 8) = read32 r (start + 8)" for r x
      by (simp add: read32_def)
    ultimately show ?thesis using True lh zero by (simp add: qf' read32_write32)
  qed
  have same: "q ! i = captured ! i" if "(if tv_ipv6 view then 8 else 12) \<le> i" "i < ip_end (tv_ipv6 view)" for i
  proof (rule qc)
    show "i < start" using that(2) e(1) by simp
    show "6 \<le> i \<or> i < 2" using that(1) by (cases "tv_ipv6 view") simp_all
  qed
  have ends: "ip_end (tv_ipv6 view) \<le> length q" "ip_end (tv_ipv6 view) \<le> length captured"
    using c e lq by simp_all
  note addresses_cong [OF ends same]
  moreover have "read16 q start = read16 captured (start + 2)" "read16 q (start + 2) = read16 captured start"
    using e h(2-5) by (simp_all add: read16_def qf f numeral_3_eq_3)
  ultimately show "endpoints (tv_ipv6 view) start q =
      (let ((src, sport), (dst, dport)) = endpoints (tv_ipv6 view) start captured in ((src, dport), (dst, sport)))"
    by (simp add: endpoints_def)
  have "unat (word_of_nat (length f - 40) :: 16 word) = length f - 40"
    by (rule unat_word_of_nat16) (use l c e in linarith)
  moreover have "\<not> tv_ipv6 view \<Longrightarrow> unat (word_of_nat (length f) :: 16 word) = length f"
    by (rule unat_word_of_nat16) (use l tcp_start_located [OF c(2)] in \<open>simp add: located_def\<close>)
  ultimately have "if tv_ipv6 view then length q = unat (read16 q 4) + 40 else length q = unat (read16 q 2)"
    using l lq e by (auto simp: q ip_end_def split: if_splits simp del: l)
  then have "same_route start (tv_ipv6 view) captured q"
    using qc e by (auto simp: same_route_def ip_end_def split: if_splits)
  moreover have "drop_bit 4 (q ! (start + 12)) = 5" using e by (simp add: qf f h)
  ultimately show "tcp_view_of q = Inr \<lparr>tv_tcp = start, tv_payload = start + 20, tv_ipv6 = tv_ipv6 view\<rparr>"
    using tcp_start_same [OF c(2)] lq e by (simp add: tcp_view_Inr_iff)
qed


text \<open>
  The reset of a captured connection attempt: none for a reset; otherwise a packet back to the
  sender that its TCP accepts.  If the segment acknowledges something, the reset takes its
  sequence number from there; otherwise it acknowledges everything the segment occupies, the
  payload and one for SYN and FIN each.
\<close>

theorem tcp_reset_accepted:
  assumes "tcp_view_of captured = Inr view" and "read16 captured (tv_tcp view + 2) = 53"
  shows "if captured ! (tv_tcp view + 13) AND 0x04 \<noteq> 0 then make_intercepted_tcp_reset captured = Inr []
    else \<exists>p. make_intercepted_tcp_reset captured = Inr p \<and> length p = tv_tcp view + 20 \<and>
      tcp_view_of p = Inr (view\<lparr>tv_payload := tv_tcp view + 20\<rparr>) \<and>
      endpoints (tv_ipv6 view) (tv_tcp view) p = prod.swap (endpoints (tv_ipv6 view) (tv_tcp view) captured) \<and>
      (if captured ! (tv_tcp view + 13) AND 0x10 \<noteq> 0
       then p ! (tv_tcp view + 13) = 0x04 \<and> read32 p (tv_tcp view + 4) = read32 captured (tv_tcp view + 8)
       else p ! (tv_tcp view + 13) = 0x14 \<and> read32 p (tv_tcp view + 4) = 0 \<and>
         read32 p (tv_tcp view + 8) = read32 captured (tv_tcp view + 4) +
           word_of_nat (length captured - tv_payload view) +
           (if captured ! (tv_tcp view + 13) AND 0x02 \<noteq> 0 then 1 else 0) +
           (if captured ! (tv_tcp view + 13) AND 0x01 \<noteq> 0 then 1 else 0)) \<and>
      checksums_ok (tv_ipv6 view) ipproto_tcp (tv_tcp view) p"
proof (cases "captured ! (tv_tcp view + 13) AND 0x04 = 0")
  case False
  then show ?thesis using assms by (simp add: tcp_reset_unfold)
next
  case True
  let ?start = "tv_tcp view" and ?q = "reset_packet captured view"
  define v where "v = view\<lparr>tv_payload := ?start + 20\<rparr>"
  have v: "tv_tcp v = ?start" "tv_ipv6 v = tv_ipv6 view" by (simp_all add: v_def)
  note q = reset_packet_props [OF assms(1)]
  have qv: "tcp_view_of ?q = Inr v" using q(2) by (cases view) (simp add: v_def)
  have "read16 ?q ?start = 53" using q(3) assms(2) by (simp add: endpoints_def)
  then obtain p where p: "make_reflected_tcp_packet ?q 53 False 53 = Inr p"
    using qv v by (auto simp: reflected_Inr_iff)
  then have reset: "make_intercepted_tcp_reset captured = Inr p"
    using assms True by (simp add: tcp_reset_unfold)
  have r: "tcp_view_of p = Inr v" "length p = ?start + 20"
    "endpoints (tv_ipv6 view) ?start p = prod.swap (endpoints (tv_ipv6 view) ?start captured)"
    "\<And>i. ?start + 4 \<le> i \<Longrightarrow> i < ?start + 16 \<Longrightarrow> p ! i = ?q ! i"
    "checksums_ok (tv_ipv6 view) ipproto_tcp ?start p"
    using reflection_exact [OF p] qv v q(1,3) assms(2)
    by (simp_all add: Let_def case_prod_unfold endpoints_def)
  have "read32 p (?start + 4) = read32 ?q (?start + 4)" "read32 p (?start + 8) = read32 ?q (?start + 8)"
    "p ! (?start + 13) = ?q ! (?start + 13)"
    by (auto intro!: read32_cong r(4))
  then show ?thesis using True reset r(1,2,3,5) q(4) by (simp add: v_def)
qed

text \<open>The views stay inside the packet: no read or write of the builders is out of range.\<close>

theorem views_in_range:
  "case udp_view_of p of
     Inl e \<Rightarrow> True
   | Inr view \<Rightarrow> located 8 p (uv_udp view) (uv_ipv6 view) \<and> uv_payload view + 12 \<le> length p"
  "case tcp_view_of p of
     Inl e \<Rightarrow> True
   | Inr view \<Rightarrow> located 20 p (tv_tcp view) (tv_ipv6 view) \<and> tv_payload view \<le> length p"
  using udp_start_located tcp_start_located
  by (auto simp: udp_view_Inr_iff tcp_view_Inr_iff split: sum.splits)


section \<open>Concrete packets\<close>

definition sample_datagram :: packet where
  "sample_datagram =
     [0x45, 0, 0, 40, 0, 0, 0, 0, 64, 17, 0, 0, 10, 0, 0, 2, 8, 8, 8, 8,
      0x30, 0x39, 0, 53, 0, 20, 0, 0, 0, 1, 1, 0, 0, 1, 0, 0, 0, 0, 0, 0]"

definition sample_message :: packet where
  "sample_message = [0, 1, 0x81, 0x80, 0, 1, 0, 1, 0, 0, 0, 0, 7]"

definition sample_syn :: packet where
  "sample_syn =
     [0x45, 0, 0, 40, 0, 0, 0, 0, 64, 6, 0, 0, 10, 0, 0, 2, 8, 8, 8, 8,
      0x30, 0x39, 0, 53, 0, 0, 0, 9, 0, 0, 0, 0, 0x50, 2, 0, 0, 0, 0, 0, 0]"


lemma sample_datagram_view:
  "udp_view_of sample_datagram = Inr \<lparr>uv_udp = 20, uv_payload = 28, uv_ipv6 = False\<rparr>"
  by code_simp

lemma sample_response:
  "\<exists>p. make_intercepted_udp_response sample_datagram sample_message = Inr p"
  using udp_response_eq [OF sample_datagram_view, of sample_message] by (simp add: sample_message_def)

theorem udp_response_delivered_witness:
  "\<exists>p. make_intercepted_udp_response sample_datagram sample_message = Inr p \<and>
     drop 28 p = sample_message \<and>
     endpoints False 20 p = prod.swap (endpoints False 20 sample_datagram)"
proof -
  obtain p where p: "make_intercepted_udp_response sample_datagram sample_message = Inr p"
    using sample_response by blast
  from udp_response_delivered [OF p] show ?thesis by (auto simp: p sample_datagram_view)
qed

lemma sample_syn_view:
  "tcp_view_of sample_syn = Inr \<lparr>tv_tcp = 20, tv_payload = 40, tv_ipv6 = False\<rparr>"
  by code_simp

text \<open>The proxy's answer: to the client's address as the proxy sees it, which is the server's.\<close>

definition sample_answer :: packet where
  "sample_answer =
     [0x45, 0, 0, 40, 0, 0, 0, 0, 64, 6, 0, 0, 10, 0, 0, 2, 8, 8, 8, 8,
      0, 54, 0x30, 0x39, 0, 0, 0, 9, 0, 0, 0, 1, 0x50, 0x12, 0, 0, 0, 0, 0, 0]"

lemma sample_answer_view:
  "tcp_view_of sample_answer = Inr \<lparr>tv_tcp = 20, tv_payload = 40, tv_ipv6 = False\<rparr>"
  by code_simp

theorem tcp_reset_accepted_witness:
  "\<exists>p. make_intercepted_tcp_reset sample_syn = Inr p \<and> length p = 40 \<and> p ! 33 = 0x14 \<and>
     read32 p 28 = 10"
proof -
  have s: "read16 sample_syn 22 = 53" "sample_syn ! 33 AND 0x04 = 0" "sample_syn ! 33 AND 0x10 = 0"
    "sample_syn ! 33 AND 0x02 = 2" "sample_syn ! 33 AND 0x01 = 0" "read32 sample_syn 24 = 9" "length sample_syn = 40"
    by code_simp+
  show ?thesis using tcp_reset_accepted [OF sample_syn_view] s by auto
qed

theorem reflection_transparent_witness:
  "\<exists>seen delivered. make_reflected_tcp_packet sample_syn 54 True 53 = Inr seen \<and>
     make_reflected_tcp_packet sample_answer 54 False 53 = Inr delivered \<and>
     endpoints False 20 delivered = prod.swap (endpoints False 20 sample_syn)"
proof -
  have ports: "read16 sample_syn 22 = 53" "read16 sample_answer 20 = 54" by code_simp+
  obtain seen where seen: "make_reflected_tcp_packet sample_syn 54 True 53 = Inr seen"
    using sample_syn_view ports by (auto simp: reflected_Inr_iff)
  obtain delivered where delivered: "make_reflected_tcp_packet sample_answer 54 False 53 = Inr delivered"
    using sample_answer_view ports by (auto simp: reflected_Inr_iff)
  have "endpoints False 20 sample_answer =
      (let ((src, sport), (dst, dport)) = endpoints False 20 sample_syn in ((src, 54), (dst, sport)))"
    by code_simp
  then have "endpoints False 20 sample_answer = prod.swap (endpoints False 20 seen)"
    using reflection_exact [OF seen] sample_syn_view by (simp add: Let_def case_prod_unfold)
  with reflection_transparent [OF seen delivered sample_syn_view sample_answer_view] seen delivered
  show ?thesis by simp
qed

end
