(* ===== verification/Intercept_Loop_Facts.thy ===== *)
theory Intercept_Loop_Facts
  imports Intercept_Loop Intercept_Facts Router_Facts
begin

text \<open>
  What the receiver and the workers may send: a query that policy handles never leaves
  unanswered rules, foreign traffic passes, a job ends in at most one packet, and the queue
  stays within its bounds.
\<close>

section \<open>Relations between states before and after a step\<close>

text \<open>
  A reflexive and transitive relation of states holds across a composed step when it holds
  across its parts.
\<close>

locale step_relation =
  fixes rel :: "'s \<Rightarrow> 's \<Rightarrow> bool"
  assumes rel_refl: "rel s s"
    and rel_trans: "rel s t \<Longrightarrow> rel t u \<Longrightarrow> rel s u"
begin

lemma bindA_rel:
  "rel s (snd (m s)) \<Longrightarrow> (\<And>x t. m s = (Inr x, t) \<Longrightarrow> rel t (snd (f x t))) \<Longrightarrow> rel s (snd (bindA m f s))"
  by (auto simp: bindA_def split: prod.splits sum.splits intro: rel_trans)

lemma liftA_rel: "rel s (snd (liftA r s))"
  by (simp add: liftA_def rel_refl)

lemma doneA_rel: "rel s (snd (doneA s))"
  by (simp add: doneA_def rel_refl)

lemma guarded_rel: "rel s (snd (m s)) \<Longrightarrow> rel s (snd (guarded sel m s))"
  by (auto simp: guarded_def split: prod.splits sum.splits)

lemmas intros = bindA_rel liftA_rel doneA_rel guarded_rel

end

text \<open>The effects of a step: all of them satisfy \<open>ok\<close>.\<close>

definition adds :: "(effect \<Rightarrow> bool) \<Rightarrow> capture \<Rightarrow> capture \<Rightarrow> bool" where
  "adds ok s t \<longleftrightarrow> (\<exists>es. cp_effects t = cp_effects s @ es \<and> (\<forall>e \<in> set es. ok e))"

lemma adds_refl: "adds ok s s"
  by (simp add: adds_def)

lemma adds_trans: "adds ok s t \<Longrightarrow> adds ok t u \<Longrightarrow> adds ok s u"
  by (fastforce simp: adds_def)

interpretation emitted: step_relation "adds ok" for ok
  by unfold_locales (auto intro: adds_refl adds_trans)

text \<open>The parts of the state that the receiver and the workers leave alone.\<close>

definition queue_ok :: "capture \<Rightarrow> bool" where
  "queue_ok s \<longleftrightarrow>
     cp_queued_bytes s = sum_list (map (length \<circ> jb_packet) (cp_jobs s)) \<and>
     length (cp_jobs s) \<le> 4096 \<and> cp_queued_bytes s \<le> max_queued_bytes"

definition keeps :: "capture \<Rightarrow> capture \<Rightarrow> bool" where
  "keeps s t \<longleftrightarrow> (queue_ok s \<longrightarrow> queue_ok t) \<and> (expected_ok (cp_expected s) \<longrightarrow> expected_ok (cp_expected t)) \<and>
     cp_state t = cp_state s \<and> cp_router t = cp_router s \<and> cp_active t = cp_active s \<and>
     cp_proxy_port t = cp_proxy_port s \<and> cp_tcp_port t = cp_tcp_port s \<and> cp_shut t = cp_shut s"

interpretation kept: step_relation keeps
  by unfold_locales (auto simp: keeps_def)

lemma effect_adds: "ok e \<Longrightarrow> adds ok s (snd (effect e s))"
  by (simp add: effect_def adds_def)

lemma effect_keeps: "keeps s (snd (effect e s))"
  by (simp add: effect_def keeps_def queue_ok_def)

lemma log_if_adds: "(\<And>c. ok (Logged c)) \<Longrightarrow> adds ok s (snd (log_if env level event message s))"
  by (simp add: log_if_def effect_adds emitted.doneA_rel)

lemma log_if_keeps: "keeps s (snd (log_if env level event message s))"
  by (simp add: log_if_def effect_keeps kept.doneA_rel)

lemma sends_more:
  "adds ok (s\<lparr>cp_sends := n\<rparr>) t \<longleftrightarrow> adds ok s t" "adds ok s (t\<lparr>cp_sends := n\<rparr>) \<longleftrightarrow> adds ok s t"
  by (simp_all add: adds_def)

lemma inject_adds:
  "(dv_send env (cp_sends s) p address = None \<Longrightarrow> ok (Sent p address)) \<Longrightarrow> (\<And>c. ok (Logged c)) \<Longrightarrow>
     adds ok s (snd (inject env p address s))"
  using effect_adds [where s = "s\<lparr>cp_sends := cp_sends s + 1\<rparr>" and ok = ok]
  by (auto simp: inject_def Let_def sends_more adds_refl split: option.splits)

lemma inject_keeps: "keeps s (snd (inject env p address s))"
  by (auto simp: inject_def Let_def effect_def keeps_def queue_ok_def split: option.splits)

lemma expect_step_adds: "adds ok s (snd (expect_step now ip port s))"
  by (auto simp: expect_step_def adds_def split: prod.splits)

lemma forget_step_adds: "adds ok s (snd (forget_step ip port s))"
  by (auto simp: forget_step_def adds_def)

lemma expect_connection_ok: "expected_ok es \<Longrightarrow> expected_ok (snd (expect_connection now ip port es))"
proof (cases "ip = [] \<or> port = 0")
  case True
  then show "expected_ok es \<Longrightarrow> ?thesis" by (simp add: expect_connection_def)
next
  case False
  assume ok: "expected_ok es"
  let ?p = "prune_expected now es"
  have p: "expected_ok ?p" using ok by (rule prune_ok)
  then show ?thesis using False
    by (auto simp: expect_connection_def Let_def expected_ok_def length_alist_update distinct_update not_le
        split: if_splits)
qed

lemma expect_step_keeps: "keeps s (snd (expect_step now ip port s))"
  using expect_connection_ok [of "cp_expected s" now ip port]
  by (auto simp: expect_step_def keeps_def queue_ok_def split: prod.splits)

lemma forget_step_keeps: "keeps s (snd (forget_step ip port s))"
  by (auto simp: forget_step_def keeps_def queue_ok_def forget_connection_def delete_ok)

lemmas adds_intros = emitted.intros effect_adds log_if_adds inject_adds expect_step_adds forget_step_adds
lemmas keeps_intros = kept.intros effect_keeps log_if_keeps inject_keeps expect_step_keeps forget_step_keeps

lemma track_connection_adds: "adds ok s (snd (track_connection env now p view address toward s))"
  by (auto simp: track_connection_def Let_def intro!: adds_intros)

lemma track_connection_keeps: "keeps s (snd (track_connection env now p view address toward s))"
  by (auto simp: track_connection_def Let_def intro!: keeps_intros)


section \<open>The receiver\<close>

text \<open>The driver's checksum helper does not turn a packet's direction.\<close>

definition keeps_direction :: "divert \<Rightarrow> bool" where
  "keeps_direction env \<longleftrightarrow>
     (\<forall>p a p' a'. dv_checksums env p a = Some (p', a') \<longrightarrow> da_outbound a' = da_outbound a)"

definition quiet :: "(effect \<Rightarrow> bool) \<Rightarrow> bool" where
  "quiet ok \<longleftrightarrow> (\<forall>c. ok (Logged c)) \<and> (\<forall>p a. \<not> da_outbound a \<longrightarrow> ok (Sent p a))"

lemma quietD: "quiet ok \<Longrightarrow> ok (Logged c)" "quiet ok \<Longrightarrow> \<not> da_outbound a \<Longrightarrow> ok (Sent p a)"
  by (simp_all add: quiet_def)

lemma inbound_not_outbound: "\<not> da_outbound (inbound_tcp a)" "\<not> da_outbound (inbound_udp a)"
  by (simp_all add: inbound_tcp_def inbound_udp_def)

lemmas quiet_intros = quietD inbound_not_outbound

lemma reflect_tcp_adds:
  assumes "quiet ok" and "keeps_direction env"
  shows "adds ok s (snd (reflect_tcp env now p view address toward s))"
  unfolding reflect_tcp_def
proof (intro emitted.bindA_rel emitted.liftA_rel track_connection_adds log_if_adds quietD(1) [OF assms(1)], goal_cases)
  case (1 x t y u reflected v)
  show ?case
  proof (cases "dv_checksums env reflected (inbound_tcp address)")
    case None
    then show ?thesis by (simp add: emitted.liftA_rel)
  next
    case (Some pa)
    then have "\<not> da_outbound (snd pa)"
      using assms(2) inbound_not_outbound(1) by (cases pa) (auto simp: keeps_direction_def)
    then show ?thesis using Some by (cases pa) (auto intro!: inject_adds quietD [OF assms(1)])
  qed
qed

lemma reflect_tcp_keeps: "keeps s (snd (reflect_tcp env now p view address toward s))"
  unfolding reflect_tcp_def
proof (intro kept.bindA_rel kept.liftA_rel track_connection_keeps log_if_keeps, goal_cases)
  case (1 x t y u reflected v)
  show ?case
    by (cases "dv_checksums env reflected (inbound_tcp address)")
      (simp_all add: kept.liftA_rel inject_keeps case_prod_unfold)
qed

lemma reject_overload_adds:
  assumes "quiet ok"
  shows "adds ok s (snd (reject_overload env p view address s))"
  unfolding reject_overload_def
proof (intro emitted.bindA_rel emitted.liftA_rel inject_adds, goal_cases)
  case (1 response t)
  show ?case using assms inbound_not_outbound(2) by (rule quietD(2))
next
  case (2 response t c)
  show ?case using assms by (rule quietD(1))
next
  case (3 response t x u)
  show ?case using assms by (simp add: Let_def effect_def doneA_def adds_def quietD)
qed

lemma reject_overload_keeps: "keeps s (snd (reject_overload env p view address s))"
  unfolding reject_overload_def
proof (intro kept.bindA_rel kept.liftA_rel inject_keeps, goal_cases)
  case (1 response t x u)
  show ?case by (simp add: Let_def effect_def doneA_def keeps_def queue_ok_def)
qed

lemma enqueue_adds: "quiet ok \<Longrightarrow> adds ok s (snd (enqueue env p view address config options s))"
  by (auto simp: enqueue_def reject_overload_adds) (simp add: doneA_def adds_def)

lemma enqueue_keeps: "keeps s (snd (enqueue env p view address config options s))"
  by (auto simp: enqueue_def reject_overload_keeps) (simp add: doneA_def keeps_def queue_ok_def)

text \<open>The rule of the configuration in force lets the query through to its server.\<close>

definition reinjected :: "capture \<Rightarrow> snapshot \<Rightarrow> packet \<Rightarrow> bool" where
  "reinjected s network query \<longleftrightarrow>
     (\<exists>question decision. parse_question query = Inr question \<and> q_flags question AND 0x8000 = 0 \<and>
        evaluate_rule (rt_config (cp_router s)) (q_name question) None network = Inr decision \<and>
        rd_reinject_udp decision)"

lemma log_if_state: "snd (log_if env level event message s) = s\<lparr>cp_effects := cp_effects (snd (log_if env level event message s))\<rparr>"
  by (simp add: log_if_def effect_def doneA_def)

lemma route_udp_adds:
  assumes q: "quiet ok" and pass: "reinjected s network (drop (uv_payload view) p) \<Longrightarrow> ok (Sent p address)"
  shows "adds ok s (snd (route_udp env network p view address s))"
  unfolding route_udp_def Let_def
proof (intro emitted.bindA_rel emitted.liftA_rel log_if_adds quietD [OF q], goal_cases)
  case (1 question t u ta decision tb v tc)
  then have r: "parse_question (drop (uv_payload view) p) = Inr question" "q_flags question AND 0x8000 = 0"
      "evaluate_rule (rt_config (cp_router s)) (q_name question) None network = Inr decision"
    by (auto simp: liftA_def requireE_def split: if_splits)
  show ?case
  proof (cases "rd_reinject_udp decision")
    case True
    then have "reinjected s network (drop (uv_payload view) p)" using r by (auto simp: reinjected_def)
    then show ?thesis using True
      by (auto intro!: emitted.intros log_if_adds inject_adds quietD [OF q] pass)
  next
    case False
    then show ?thesis by (simp add: enqueue_adds q)
  qed
qed

lemma route_udp_keeps: "keeps s (snd (route_udp env network p view address s))"
  unfolding route_udp_def Let_def
proof (intro kept.bindA_rel kept.liftA_rel log_if_keeps, goal_cases)
  case (1 question t u ta decision tb v tc)
  show ?case
    by (cases "rd_reinject_udp decision")
      (auto intro!: kept.intros log_if_keeps inject_keeps enqueue_keeps)
qed

lemma capture_udp_adds:
  assumes "quiet ok"
    and "\<And>view. udp_view_of p = Inr view \<Longrightarrow>
      is_network_upstream sockets False (read16 p (uv_udp view)) (uv_ipv6 view) \<or>
      reinjected s network (drop (uv_payload view) p) \<Longrightarrow> ok (Sent p address)"
  shows "adds ok s (snd (capture_udp env sockets network p address s))"
  unfolding capture_udp_def Let_def
proof (intro emitted.bindA_rel emitted.guarded_rel emitted.liftA_rel, goal_cases)
  case (1 view t)
  then have v: "udp_view_of p = Inr view" "t = s" by (auto simp: guarded_def liftA_def split: sum.splits)
  show ?case
  proof (cases "is_network_upstream sockets False (read16 p (uv_udp view)) (uv_ipv6 view)")
    case True
    then show ?thesis using assms(2) [OF v(1)]
      by (auto intro!: emitted.intros log_if_adds inject_adds quietD [OF assms(1)])
  next
    case False
    then show ?thesis using assms(2) [OF v(1)] v(2)
      by (auto intro!: emitted.guarded_rel route_udp_adds assms(1))
  qed
qed

lemma capture_udp_keeps: "keeps s (snd (capture_udp env sockets network p address s))"
  unfolding capture_udp_def Let_def
proof (intro kept.bindA_rel kept.guarded_rel kept.liftA_rel, goal_cases)
  case (1 view t)
  show ?case
    by (cases "is_network_upstream sockets False (read16 p (uv_udp view)) (uv_ipv6 view)")
      (auto intro!: kept.intros log_if_keeps inject_keeps route_udp_keeps)
qed

text \<open>DNS over TCP that goes to the proxy or is refused.\<close>

definition tcp_dns :: "capture \<Rightarrow> (socket_key \<rightharpoonup> nat) \<Rightarrow> packet \<Rightarrow> tcp_view \<Rightarrow> bool" where
  "tcp_dns s sockets p view \<longleftrightarrow>
     (let destination_port = read16 p (tv_tcp view + 2) in
      destination_port = cp_tcp_port s \<and>
        \<not> is_network_upstream sockets True (read16 p (tv_tcp view)) (tv_ipv6 view) \<or>
      destination_port = 53 \<and> destination_port \<noteq> cp_tcp_port s \<and> ro_block_tcp53 (rt_options (cp_router s)))"

lemma capture_tcp_adds:
  assumes q: "quiet ok" "keeps_direction env"
    and pass: "\<And>view. tcp_view_of p = Inr view \<Longrightarrow> \<not> da_outbound address \<or> \<not> tcp_dns s sockets p view \<Longrightarrow> ok (Sent p address)"
  shows "adds ok s (snd (capture_tcp env sockets now p address s))"
  unfolding capture_tcp_def Let_def
proof (intro emitted.bindA_rel emitted.guarded_rel emitted.liftA_rel, goal_cases)
  case (1 view t)
  then have v: "tcp_view_of p = Inr view" "t = s" by (auto simp: guarded_def liftA_def split: sum.splits)
  have sent: "adds ok s (snd (guarded sel (inject env p address) s))"
    if "\<not> da_outbound address \<or> \<not> tcp_dns s sockets p view" for sel
    by (intro emitted.guarded_rel inject_adds quietD [OF q(1)] pass [OF v(1) that])
  have reset: "adds ok s (snd (guarded sel (bindA (liftA (make_intercepted_tcp_reset p)) (\<lambda>reset.
         if reset \<noteq> [] then inject env reset (inbound_tcp address) else doneA)) s))" for sel
    by (auto intro!: emitted.intros inject_adds quietD [OF q(1)] inbound_not_outbound)
  show ?case unfolding v(2)
    using sent reset
    by (auto simp: tcp_dns_def Let_def intro!: emitted.guarded_rel reflect_tcp_adds q)
qed

lemma capture_tcp_keeps: "keeps s (snd (capture_tcp env sockets now p address s))"
  unfolding capture_tcp_def Let_def
proof (intro kept.bindA_rel kept.guarded_rel kept.liftA_rel, goal_cases)
  case (1 view t)
  show ?case by (auto intro!: kept.intros inject_keeps reflect_tcp_keeps)
qed


lemma packet_kind:
  "udp_view_of p = Inr view \<Longrightarrow> is_tcp_packet p = Inr False"
  "tcp_view_of p = Inr view' \<Longrightarrow> is_tcp_packet p = Inr True"
  by (auto simp: udp_view_of_def udp_start_def tcp_view_of_def tcp_start_def is_tcp_packet_def Let_def
      split: if_splits)

lemma guarded_selected: "guarded sel m s = (Inl (e, sel'), t) \<Longrightarrow> sel' = sel"
  by (auto simp: guarded_def split: prod.splits sum.splits)

lemma capture_udp_selected:
  assumes "udp_view_of p = Inr view"
    and "\<not> is_network_upstream sockets False (read16 p (uv_udp view)) (uv_ipv6 view)"
  shows "capture_udp env sockets network p address s = guarded True (route_udp env network p view address) s"
  using assms by (simp add: capture_udp_def bindA_def guarded_def liftA_def Let_def)

lemma capture_tcp_selected:
  assumes "tcp_view_of p = Inr view" and "da_outbound address" and "tcp_dns s sockets p view"
    and "capture_tcp env sockets now p address s = (Inl (e, sel), t)"
  shows "sel"
  using assms
  by (auto simp: capture_tcp_def bindA_def guarded_def liftA_def tcp_dns_def Let_def
      split: prod.splits sum.splits if_splits)

lemma receive_packet_adds:
  assumes q: "quiet ok" "keeps_direction env"
    and udp: "\<And>view. udp_view_of p = Inr view \<Longrightarrow>
      is_network_upstream sockets False (read16 p (uv_udp view)) (uv_ipv6 view) \<or>
      reinjected s network (drop (uv_payload view) p) \<Longrightarrow> ok (Sent p address)"
    and tcp: "\<And>view. tcp_view_of p = Inr view \<Longrightarrow> \<not> da_outbound address \<or> \<not> tcp_dns s sockets p view \<Longrightarrow> ok (Sent p address)"
    and other: "(\<And>view. udp_view_of p \<noteq> Inr view) \<Longrightarrow> (\<And>view. tcp_view_of p \<noteq> Inr view) \<Longrightarrow> ok (Sent p address)"
  shows "adds ok s (snd (receive_packet env sockets now network p address s))"
proof -
  let ?body = "bindA (guarded False (liftA (is_tcp_packet p))) (\<lambda>stream.
      if stream then capture_tcp env sockets now p address else capture_udp env sockets network p address)"
  have "adds ok s (snd (capture_udp env sockets network p address s))"
    "adds ok s (snd (capture_tcp env sockets now p address s))"
    by (rule capture_udp_adds [OF q(1) udp], assumption, assumption)
      (rule capture_tcp_adds [OF q tcp], assumption, assumption)
  then have body: "adds ok s (snd (?body s))"
    by (intro emitted.intros) (auto simp: guarded_def liftA_def split: sum.splits)
  have unselected: "ok (Sent p address)" if "fst (?body s) = Inl (e, False)" for e
  proof (cases "udp_view_of p")
    case (Inr view)
    show ?thesis
    proof (rule udp [OF Inr], rule ccontr)
      assume "\<not> (is_network_upstream sockets False (read16 p (uv_udp view)) (uv_ipv6 view) \<or>
        reinjected s network (drop (uv_payload view) p))"
      then show False using that Inr packet_kind(1) [OF Inr] capture_udp_selected [OF Inr]
        by (auto simp: bindA_def guarded_def liftA_def split: prod.splits sum.splits)
    qed
  next
    case (Inl e1)
    show ?thesis
    proof (cases "tcp_view_of p")
      case (Inr view)
      show ?thesis
      proof (rule tcp [OF Inr], rule ccontr)
        assume "\<not> (\<not> da_outbound address \<or> \<not> tcp_dns s sockets p view)"
        moreover from this have "fst (capture_tcp env sockets now p address s) = Inl (e, False)"
          using that Inr packet_kind(2) [OF Inr]
          by (auto simp: bindA_def guarded_def liftA_def split: prod.splits sum.splits)
        ultimately show False
          using capture_tcp_selected [OF Inr, of address s sockets env now e False] by (metis prod.collapse)
      qed
    next
      case Inl': (Inl e2)
      show ?thesis using Inl Inl' by (intro other) auto
    qed
  qed
  obtain r t where r: "?body s = (r, t)" by (cases "?body s")
  then have t: "adds ok s t" using body by simp
  have after: "adds ok t (snd (bindA (effect (Logged l)) (\<lambda>_. if sel then doneA else inject env p address) t))"
    if "\<not> sel \<Longrightarrow> ok (Sent p address)" for l sel
    using that by (cases sel) (auto intro!: emitted.bindA_rel emitted.doneA_rel effect_adds inject_adds quietD [OF q(1)])
  show ?thesis
  proof (cases r)
    case (Inl es)
    obtain e sel where es: "es = (e, sel)" by (cases es)
    have "\<not> sel \<Longrightarrow> ok (Sent p address)" using unselected [of e] r Inl es by simp
    from adds_trans [OF t after [OF this]] show ?thesis
      using r Inl es t by (auto simp: receive_packet_def)
  next
    case (Inr u)
    then show ?thesis using r t by (simp add: receive_packet_def doneA_def)
  qed
qed

lemma receive_packet_keeps: "keeps s (snd (receive_packet env sockets now network p address s))"
proof -
  let ?body = "bindA (guarded False (liftA (is_tcp_packet p))) (\<lambda>stream.
      if stream then capture_tcp env sockets now p address else capture_udp env sockets network p address)"
  have "keeps s (snd (?body s))"
    by (auto intro!: kept.intros capture_tcp_keeps capture_udp_keeps)
  moreover have "keeps t (snd (bindA (effect (Logged l)) (\<lambda>_. if sel then doneA else inject env p address) t))"
    for l sel t
    by (cases sel) (auto intro!: kept.bindA_rel kept.doneA_rel effect_keeps inject_keeps)
  moreover obtain r t where r: "?body s = (r, t)" by (cases "?body s")
  ultimately have t: "keeps s t"
    and after: "keeps t (snd (bindA (effect (Logged l)) (\<lambda>_. if sel then doneA else inject env p address) t))"
    for l sel by simp_all
  show ?thesis
  proof (cases r)
    case (Inl es)
    obtain e sel where es: "es = (e, sel)" by (cases es)
    show ?thesis using r Inl es t kept.rel_trans [OF t after] by (simp add: receive_packet_def)
  next
    case (Inr u)
    then show ?thesis using r t by (simp add: receive_packet_def doneA_def)
  qed
qed

text \<open>
  A DNS query over UDP that is not the program's own leaves this machine as it is only when the
  rule in force says so.
\<close>

text \<open>C4: A captured DNS query over UDP that is not the program's own leaves the machine,
  unchanged, only when the rule in force says that it may; otherwise the capture of the
  packet sends nothing outwards.\<close>

theorem query_kept_in:
  assumes "keeps_direction env" and "udp_view_of p = Inr view"
    and "\<not> is_network_upstream sockets False (read16 p (uv_udp view)) (uv_ipv6 view)"
    and "receive_packet env sockets now network p address s = (r, s')"
  shows "\<exists>es. cp_effects s' = cp_effects s @ es \<and>
    (\<forall>q a. Sent q a \<in> set es \<and> da_outbound a \<longrightarrow>
       q = p \<and> a = address \<and> reinjected s network (drop (uv_payload view) p))"
proof -
  let ?ok = "\<lambda>e. \<forall>q a. e = Sent q a \<and> da_outbound a \<longrightarrow>
      q = p \<and> a = address \<and> reinjected s network (drop (uv_payload view) p)"
  have no_tcp: "tcp_view_of p \<noteq> Inr v" for v
    using packet_kind(1) [OF assms(2)] packet_kind(2) by fastforce
  have "adds ?ok s (snd (receive_packet env sockets now network p address s))"
    by (rule receive_packet_adds) (use assms no_tcp in \<open>auto simp: quiet_def\<close>)
  then show ?thesis using assms(4) by (auto simp: adds_def)
qed

text \<open>
  DNS over TCP to the intercepted port, or to port 53 when that is blocked, never leaves this
  machine directly.
\<close>

theorem stream_kept_in:
  assumes "keeps_direction env" and "tcp_view_of p = Inr view" and "da_outbound address"
    and "tcp_dns s sockets p view"
    and "receive_packet env sockets now network p address s = (r, s')"
  shows "\<exists>es. cp_effects s' = cp_effects s @ es \<and> (\<forall>q a. Sent q a \<in> set es \<longrightarrow> \<not> da_outbound a)"
proof -
  let ?ok = "\<lambda>e. \<forall>q a. e = Sent q a \<longrightarrow> \<not> da_outbound a"
  have no_udp: "udp_view_of p \<noteq> Inr v" for v
    using packet_kind(2) [OF assms(2)] packet_kind(1) by fastforce
  have "adds ?ok s (snd (receive_packet env sockets now network p address s))"
    by (rule receive_packet_adds) (use assms no_udp in \<open>auto simp: quiet_def\<close>)
  then show ?thesis using assms(5) by (auto simp: adds_def)
qed


lemma ipv6_headers_code: "ipv6_headers n p h offset = Inl e \<Longrightarrow> err_code e = ''INTERCEPT_PACKET''"
  by (induction n p h offset rule: ipv6_headers.induct)
    (auto simp: Let_def intercept_error_def split: if_splits)

lemma ipv6_transport_code: "ipv6_transport p = Inl e \<Longrightarrow> err_code e = ''INTERCEPT_PACKET''"
  by (auto simp: ipv6_transport_def intercept_error_def intro: ipv6_headers_code split: if_splits)

lemma view_codes:
  "is_tcp_packet p = Inl e \<Longrightarrow> err_code e = ''INTERCEPT_PACKET''"
  "udp_view_of p = Inl e \<Longrightarrow> err_code e = ''INTERCEPT_PACKET''"
  "tcp_view_of p = Inl e \<Longrightarrow> err_code e = ''INTERCEPT_PACKET''"
  by (auto simp: is_tcp_packet_def udp_view_of_def tcp_view_of_def udp_start_def tcp_start_def
      intercept_error_def Let_def bindE_Inl_iff dest: ipv6_transport_code split: if_splits)

lemma inject_sent:
  "dv_send env (cp_sends s) p address = None \<Longrightarrow>
     inject env p address s = (Inr (), s\<lparr>cp_sends := cp_sends s + 1, cp_effects := cp_effects s @ [Sent p address]\<rparr>)"
  by (simp add: inject_def effect_def)

lemma inject_code: "inject env p address s = (Inl e, t) \<Longrightarrow> err_code e = ''WINDIVERT_SEND''"
  by (auto simp: inject_def effect_def Let_def split: option.splits if_splits)

text \<open>What is not DNS, or the program's own, passes when the driver takes it.\<close>

theorem foreign_traffic_passes:
  assumes "\<forall>n q a. dv_send env n q a = None"
    and "is_tcp_packet p = Inl e \<or>
      is_tcp_packet p = Inr False \<and> (case udp_view_of p of Inl _ \<Rightarrow> True
        | Inr view \<Rightarrow> is_network_upstream sockets False (read16 p (uv_udp view)) (uv_ipv6 view)) \<or>
      is_tcp_packet p = Inr True \<and> (case tcp_view_of p of Inl _ \<Rightarrow> True
        | Inr view \<Rightarrow> \<not> da_outbound address \<or>
            (read16 p (tv_tcp view + 2) = cp_tcp_port s \<and>
             is_network_upstream sockets True (read16 p (tv_tcp view)) (tv_ipv6 view)))"
  shows "\<exists>s' logs. receive_packet env sockets now network p address s = (Inr (), s') \<and>
    cp_effects s' = cp_effects s @ map Logged logs @ [Sent p address]"
proof -
  let ?body = "bindA (guarded False (liftA (is_tcp_packet p))) (\<lambda>stream.
      if stream then capture_tcp env sockets now p address else capture_udp env sockets network p address) s"
  have one: ?thesis
    if "receive_packet env sockets now network p address s = (Inr (), t)" "\<exists>l. cp_effects t = cp_effects s @ [Logged l, Sent p address]"
    for t
  proof -
    note h = that
    obtain l where "cp_effects t = cp_effects s @ [Logged l, Sent p address]" using h(2) by blast
    then show ?thesis using h(1) by (intro exI [of _ t] exI [of _ "[l]"]) simp
  qed
  have none: ?thesis
    if "receive_packet env sockets now network p address s = (Inr (), t)" "cp_effects t = cp_effects s @ [Sent p address]"
    for t using that by (intro exI [of _ t] exI [of _ "[]"]) simp
  have rejected: ?thesis if "?body = (Inl (e', False), s)" "err_code e' = ''INTERCEPT_PACKET''" for e'
    by (rule one, unfold receive_packet_def that(1)) (simp add: that(2) assms(1) bindA_def effect_def inject_sent, simp)
  have passed: ?thesis
    if b: "?body = guarded False (bindA (log_if env level event message) (\<lambda>_. inject env p address)) s"
    for level event message
  proof (cases "dv_enabled env level")
    case True
    show ?thesis
      by (rule one, unfold receive_packet_def b) (simp add: assms(1) True guarded_def bindA_def log_if_def
          effect_def doneA_def inject_sent, simp)
  next
    case False
    show ?thesis
      by (rule none, unfold receive_packet_def b) (simp add: assms(1) False guarded_def bindA_def log_if_def
          effect_def doneA_def inject_sent, simp)
  qed
  have passed': ?thesis if b: "?body = guarded False (inject env p address) s"
    by (rule none, unfold receive_packet_def b) (simp add: assms(1) guarded_def doneA_def inject_sent, simp)
  consider (broken) "is_tcp_packet p = Inl e"
    | (udp) "is_tcp_packet p = Inr False" "case udp_view_of p of Inl _ \<Rightarrow> True
        | Inr view \<Rightarrow> is_network_upstream sockets False (read16 p (uv_udp view)) (uv_ipv6 view)"
    | (tcp) "is_tcp_packet p = Inr True" "case tcp_view_of p of Inl _ \<Rightarrow> True
        | Inr view \<Rightarrow> \<not> da_outbound address \<or>
            (read16 p (tv_tcp view + 2) = cp_tcp_port s \<and>
             is_network_upstream sockets True (read16 p (tv_tcp view)) (tv_ipv6 view))"
    using assms(2) by blast
  then show ?thesis
  proof cases
    case broken
    then show ?thesis by (intro rejected view_codes(1)) (simp_all add: bindA_def guarded_def liftA_def)
  next
    case udp
    show ?thesis
    proof (cases "udp_view_of p")
      case (Inl e')
      with udp(1) show ?thesis
        by (intro rejected view_codes(2)) (simp_all add: bindA_def guarded_def liftA_def capture_udp_def)
    next
      case (Inr view)
      with udp show ?thesis
        by (intro passed) (simp add: bindA_def guarded_def liftA_def capture_udp_def Let_def)
    qed
  next
    case tcp
    show ?thesis
    proof (cases "tcp_view_of p")
      case (Inl e')
      with tcp(1) show ?thesis
        by (intro rejected view_codes(3)) (simp_all add: bindA_def guarded_def liftA_def capture_tcp_def)
    next
      case (Inr view)
      with tcp show ?thesis
        by (intro passed') (auto simp: bindA_def guarded_def liftA_def capture_tcp_def Let_def)
    qed
  qed
qed

text \<open>Errors of one packet do not end the receiver: only the driver's do.\<close>

theorem only_send_errors_escape:
  assumes "receive_packet env sockets now network p address s = (Inl e, s')"
  shows "err_code e = ''WINDIVERT_SEND'' \<and> cp_state s' = cp_state s"
proof
  show "cp_state s' = cp_state s"
    using receive_packet_keeps [of s env sockets now network p address] assms by (simp add: keeps_def)
  show "err_code e = ''WINDIVERT_SEND''"
    using assms unfolding receive_packet_def
    by (auto simp: bindA_def effect_def doneA_def dest: inject_code split: prod.splits sum.splits if_splits)
qed


section \<open>The workers\<close>

text \<open>The rule of the configuration bypasses the query, or the network asks for a login.\<close>

definition bypassed :: "config \<Rightarrow> snapshot \<Rightarrow> packet \<Rightarrow> bool" where
  "bypassed config network query \<longleftrightarrow>
     (\<exists>q d. parse_question query = Inr q \<and> evaluate_rule config (q_name q) None network = Inr d \<and>
        (rd_captive_bypass d \<or> rl_action (the (rd_rule d)) = Action_bypass))"

lemma route_forward:
  assumes "fst (route up network config options now query original s) = Inr r"
    and "rr_disposition r = Forward_original"
  shows "bypassed config network query"
proof -
  obtain s' t logs where route: "route up network config options now query original s = (Inr r, s', t, logs)"
    using assms(1) by (metis prod_cases4 fst_conv)
  have "\<exists>q. routable query q"
    using not_routable [of query up network config options now original s] route assms(2) by fastforce
  then obtain q where q: "routable query q" by blast
  note route = route [unfolded route_unfold [OF q] Let_def]
  have failed: "rr_disposition r0 = Reply \<Longrightarrow> route_failed query True e r0 = Inr r \<Longrightarrow> False" for e r0
    using route_failed_cases(2) [of query e r0 r] assms(2) by simp
  obtain d where d: "evaluate_rule config (q_name q) None network = Inr d"
    using route failed [of no_result] by (auto simp: no_result_def split: sum.splits)
  have "rd_captive_bypass d \<or> rl_action (the (rd_rule d)) = Action_bypass"
  proof (rule ccontr)
    let ?rule = "the (rd_rule d)"
    let ?result = "no_result\<lparr>rr_rule_id := rl_id ?rule, rr_server_id := rl_server_id ?rule, rr_action := rl_action ?rule\<rparr>"
    assume not: "\<not> (rd_captive_bypass d \<or> rl_action ?rule = Action_bypass)"
    have reply: "rr_disposition ?result = Reply" by (simp add: no_result_def)
    obtain out s1 t1 l where p: "process_query up config options (sn_generation network) now query original
        q ?rule d ?result s = (out, s1, t1, l)"
      by (cases "process_query up config options (sn_generation network) now query original q ?rule d ?result s")
    note kept = process_query_result [OF p]
    show False
      using route d not failed [OF reply] kept p assms(2) reply failed
      by (auto simp: answered_for_def split: if_splits sum.splits prod.splits)
  qed
  then show ?thesis using q d by (auto simp: bypassed_def routable_def)
qed


fun sent_packets :: "effect list \<Rightarrow> (packet \<times> divert_address) list" where
  "sent_packets [] = []"
| "sent_packets (Sent p a # es) = (p, a) # sent_packets es"
| "sent_packets (e # es) = sent_packets es"

lemma sent_packets_append: "sent_packets (es @ es') = sent_packets es @ sent_packets es'"
  by (induction es rule: sent_packets.induct) simp_all

text \<open>The reply goes back to where the query came from and carries the given message.\<close>

definition delivers :: "packet \<Rightarrow> udp_view \<Rightarrow> packet \<Rightarrow> packet \<Rightarrow> bool" where
  "delivers captured view message reply \<longleftrightarrow>
     drop (uv_payload view) reply = message \<and>
     endpoints (uv_ipv6 view) (uv_udp view) reply = prod.swap (endpoints (uv_ipv6 view) (uv_udp view) captured) \<and>
     checksums_ok (uv_ipv6 view) ipproto_udp (uv_udp view) reply"

definition job_router ::
  "upstream \<Rightarrow> snapshot \<Rightarrow> job \<Rightarrow> nat \<Rightarrow> shared \<Rightarrow> packet \<Rightarrow> server \<Rightarrow> error + route_result" where
  "job_router up network job now shared query original =
     fst (route up network (jb_config job) (jb_options job) now query original shared)"

lemma inject_cases:
  "\<exists>es. cp_effects (snd (inject env p address s)) = cp_effects s @ es \<and> sent_packets es \<in> {[], [(p, address)]}"
  by (auto simp: inject_def effect_def Let_def split: option.splits)

lemma process_try_cases:
  assumes "udp_view_of (jb_packet job) = Inr view"
  defines "query \<equiv> drop (uv_payload view) (jb_packet job)"
  shows "\<exists>es. cp_effects (snd (process_try env routed job s)) = cp_effects s @ es \<and>
    (sent_packets es = [] \<or>
     sent_packets es = [(jb_packet job, jb_address job)] \<and>
       (\<exists>original r. routed query original = Inr r \<and> rr_disposition r = Forward_original) \<or>
     (\<exists>reply original r message. sent_packets es = [(reply, inbound_udp (jb_address job))] \<and>
       routed query original = Inr r \<and> fit_udp_response query (rr_packet r) = Inr message \<and>
       delivers (jb_packet job) view message reply))"
proof (cases "original_server (dv_ntop env) (jb_packet job) view")
  case (Inl e)
  then show ?thesis using assms(1)
    by (intro exI [of _ "[]"]) (simp add: process_try_def bindA_def liftA_def Let_def)
next
  case (Inr original)
  let ?original = "if uv_ipv6 view \<and> link_local (jb_packet job)
        then original\<lparr>srv_route := (srv_route original)\<lparr>nr_scope6 := da_if_index (jb_address job)\<rparr>\<rparr>
        else original"
  note start = assms(1) Inr query_def
  show ?thesis
  proof (cases "routed query ?original")
    case (Inl e)
    then show ?thesis using start
      by (intro exI [of _ "[]"]) (simp add: process_try_def bindA_def liftA_def Let_def)
  next
    case (Inr r)
    have run: "process_try env routed job s =
      (if cp_state s \<noteq> Running then doneA s
       else if rr_disposition r = Forward_original then inject env (jb_packet job) (jb_address job) s
       else if rr_disposition r = Drop_silently \<or> rr_packet r = [] then doneA s
       else bindA (liftA (bindE (fit_udp_response query (rr_packet r)) (make_intercepted_udp_response (jb_packet job))))
              (\<lambda>response. inject env response (inbound_udp (jb_address job))) s)"
      using start Inr by (simp add: process_try_def bindA_def liftA_def Let_def)
    consider (quiet) "snd (process_try env routed job s) = s"
      | (forward) "rr_disposition r = Forward_original"
          "process_try env routed job s = inject env (jb_packet job) (jb_address job) s"
      | (reply) message reply where "fit_udp_response query (rr_packet r) = Inr message"
          "make_intercepted_udp_response (jb_packet job) message = Inr reply"
          "process_try env routed job s = inject env reply (inbound_udp (jb_address job)) s"
    proof -
      let ?m = "bindE (fit_udp_response query (rr_packet r)) (make_intercepted_udp_response (jb_packet job))"
      note three = that
      show thesis
      proof (cases "cp_state s \<noteq> Running \<or> rr_disposition r = Drop_silently \<or>
          (rr_disposition r \<noteq> Forward_original \<and> rr_packet r = [])")
        case True
        then show thesis by (intro three(1)) (auto simp: run doneA_def)
      next
        case False
        show thesis
        proof (cases "rr_disposition r = Forward_original")
          case True
          then show thesis using False by (intro three(2)) (simp_all add: run)
        next
          case other: False
          show thesis
          proof (cases ?m)
            case (Inl e)
            then show thesis using False other by (intro three(1)) (simp add: run bindA_def liftA_def)
          next
            case (Inr reply)
            then obtain message where "fit_udp_response query (rr_packet r) = Inr message"
                "make_intercepted_udp_response (jb_packet job) message = Inr reply" by auto
            then show thesis using False other by (intro three(3)) (simp_all add: run bindA_def liftA_def)
          qed
        qed
      qed
    qed
    then show ?thesis
    proof cases
      case quiet
      then show ?thesis by (intro exI [of _ "[]"]) simp
    next
      case forward
      then show ?thesis using inject_cases [of env "jb_packet job" "jb_address job" s] Inr by auto
    next
      case reply
      have "delivers (jb_packet job) view message reply"
        using udp_response_facts [OF reply(2)] assms(1) by (auto simp: delivers_def)
      with reply Inr inject_cases [of env reply "inbound_udp (jb_address job)" s] show ?thesis by auto
    qed
  qed
qed

text \<open>
  A job ends in at most one packet: the captured query, only if the rule of the job's
  configuration bypasses it, or one reply to it.
\<close>

text \<open>C5: A queued query ends in at most one packet: the query itself, only if its configuration
  bypasses it, or one reply that the application accepts, carrying what the router returned
  fitted for UDP.\<close>

theorem job_sends_one_packet:
  assumes "udp_view_of (jb_packet job) = Inr view"
  defines "query \<equiv> drop (uv_payload view) (jb_packet job)"
  shows "\<exists>es. cp_effects (process_job env (job_router up network job now shared) job s) = cp_effects s @ es \<and>
    (sent_packets es = [] \<or>
     sent_packets es = [(jb_packet job, jb_address job)] \<and> bypassed (jb_config job) network query \<or>
     (\<exists>reply original r message. sent_packets es = [(reply, inbound_udp (jb_address job))] \<and>
       job_router up network job now shared query original = Inr r \<and>
       fit_udp_response query (rr_packet r) = Inr message \<and> delivers (jb_packet job) view message reply))"
proof -
  obtain es where es: "cp_effects (snd (process_try env (job_router up network job now shared) job s)) = cp_effects s @ es"
      "sent_packets es = [] \<or>
       sent_packets es = [(jb_packet job, jb_address job)] \<and>
         (\<exists>original r. job_router up network job now shared query original = Inr r \<and> rr_disposition r = Forward_original) \<or>
       (\<exists>reply original r message. sent_packets es = [(reply, inbound_udp (jb_address job))] \<and>
         job_router up network job now shared query original = Inr r \<and> fit_udp_response query (rr_packet r) = Inr message \<and>
         delivers (jb_packet job) view message reply)"
    using process_try_cases [OF assms(1), of env "job_router up network job now shared" s]
    unfolding query_def by blast
  have forward: "bypassed (jb_config job) network query"
    if "job_router up network job now shared query original = Inr r" "rr_disposition r = Forward_original" for original r
    using that by (auto simp: job_router_def intro: route_forward)
  have "\<exists>es'. cp_effects (process_job env routed job s) = cp_effects (snd (process_try env routed job s)) @ es' \<and> sent_packets es' = []" for routed
    by (auto simp: process_job_def Let_def split: prod.splits sum.splits)
  then obtain es' where es': "cp_effects (process_job env (job_router up network job now shared) job s) =
      cp_effects (snd (process_try env (job_router up network job now shared) job s)) @ es'" "sent_packets es' = []"
    by blast
  show ?thesis
    using es es' forward by (intro exI [of _ "es @ es'"]) (auto simp: sent_packets_append)
qed

text \<open>Once the interception is not running any more, a worker's job changes nothing.\<close>

lemma process_job_idle: "cp_state s \<noteq> Running \<Longrightarrow> process_job env routed job s = s"
  by (auto simp: process_job_def process_try_def bindA_def liftA_def doneA_def Let_def split: sum.splits)


lemma take_job_queue: "queue_ok s \<Longrightarrow> queue_ok (take_job s)"
  by (auto simp: take_job_def queue_ok_def split: list.splits)

lemma process_try_keeps: "keeps s (snd (process_try env routed job s))"
  unfolding process_try_def Let_def
  by (intro kept.bindA_rel kept.liftA_rel) (auto intro!: kept.intros inject_keeps)

lemma process_job_parts:
  "queue_ok s \<Longrightarrow> queue_ok (process_job env routed job s)"
  "cp_active (process_job env routed job s) = cp_active s"
  "cp_jobs (process_job env routed job s) = cp_jobs (snd (process_try env routed job s))"
  "cp_expected (process_job env routed job s) = cp_expected (snd (process_try env routed job s))"
  "cp_proxy_port (process_job env routed job s) = cp_proxy_port s"
  "cp_state (process_job env routed job s) \<in> {cp_state s, Failed}"
  "cp_state s \<noteq> Running \<Longrightarrow> cp_state (process_job env routed job s) = cp_state s"
  using process_try_keeps [of s env routed job] process_job_idle [of s env routed job]
  by (auto simp: process_job_def Let_def keeps_def queue_ok_def split: prod.splits sum.splits)


section \<open>A concrete capture\<close>

definition sample_driver :: divert where
  "sample_driver = \<lparr>dv_send = (\<lambda>_ _ _. None), dv_checksums = (\<lambda>p a. Some (p, a)),
     dv_ntop = (\<lambda>_ _. Some ''8.8.8.8''), dv_enabled = (\<lambda>_. False)\<rparr>"

definition sample_address :: divert_address where
  "sample_address = \<lparr>da_outbound = True, da_impostor = False, da_if_index = 3, da_ip_checksum = True,
     da_tcp_checksum = True, da_udp_checksum = True\<rparr>"

definition sample_capture :: capture where
  "sample_capture = \<lparr>cp_state = Running, cp_error_code = [], cp_error_message = [],
     cp_router = \<lparr>rt_config = bypass_config, rt_options = plain_options, rt_shared = no_shared,
       rt_stopped = False, rt_transports = []\<rparr>,
     cp_jobs = [], cp_queued_bytes = 0, cp_active = [], cp_overloads = 0, cp_expected = [],
     cp_proxy_port = 20000, cp_tcp_port = 53, cp_sends = 0, cp_shut = False, cp_effects = []\<rparr>"

lemma sample_simps: "cp_effects sample_capture = []" "da_outbound sample_address"
    "\<not> is_network_upstream Map.empty is_tcp port ipv6"
  by (simp_all add: sample_capture_def sample_address_def is_network_upstream_def)

text \<open>The query of \<open>Dns_Messages\<close> in a datagram to port 53.\<close>

definition sample_captured :: packet where
  "sample_captured =
     [0x45, 0, 0, 50, 0, 0, 0, 0, 64, 17, 0, 0, 10, 0, 0, 2, 8, 8, 8, 8,
      0x30, 0x39, 0, 53, 0, 30, 0, 0] @ sample_query"

lemma sample_captured_view:
  "udp_view_of sample_captured = Inr \<lparr>uv_udp = 20, uv_payload = 28, uv_ipv6 = False\<rparr>"
  by code_simp

lemma sample_direction: "keeps_direction sample_driver"
  by (simp add: keeps_direction_def sample_driver_def)

theorem query_kept_in_witness:
  "\<exists>es. cp_effects (snd (receive_packet sample_driver Map.empty 0 no_network sample_captured sample_address sample_capture)) = es \<and>
     (\<forall>q a. Sent q a \<in> set es \<and> da_outbound a \<longrightarrow>
        q = sample_captured \<and> a = sample_address \<and> reinjected sample_capture no_network sample_query)"
proof -
  have "drop 28 sample_captured = sample_query" by (simp add: sample_captured_def)
  with query_kept_in [OF sample_direction sample_captured_view sample_simps(3) surjective_pairing,
      of 0 no_network sample_address sample_capture]
  show ?thesis by (auto simp: sample_simps)
qed

theorem stream_kept_in_witness:
  "\<exists>es. cp_effects (snd (receive_packet sample_driver Map.empty 0 no_network sample_syn sample_address sample_capture)) = es \<and>
     (\<forall>q a. Sent q a \<in> set es \<longrightarrow> \<not> da_outbound a)"
proof -
  have "read16 sample_syn 22 = 53" by code_simp
  then have "tcp_dns sample_capture Map.empty sample_syn \<lparr>tv_tcp = 20, tv_payload = 40, tv_ipv6 = False\<rparr>"
    by (simp add: tcp_dns_def is_network_upstream_def sample_capture_def)
  from stream_kept_in [OF sample_direction sample_syn_view sample_simps(2) this surjective_pairing]
  show ?thesis by (simp add: sample_simps)
qed

theorem foreign_traffic_passes_witness:
  "\<exists>s' logs. receive_packet sample_driver Map.empty 0 no_network [0x45] sample_address sample_capture = (Inr (), s') \<and>
     cp_effects s' = map Logged logs @ [Sent [0x45] sample_address]"
proof -
  have "is_tcp_packet [0x45] = Inr False" "udp_view_of [0x45] = Inl (intercept_error ''Captured packet is too short'')"
    by code_simp+
  then show ?thesis
    using foreign_traffic_passes [of sample_driver "[0x45]" undefined Map.empty sample_address sample_capture 0 no_network]
    by (simp add: sample_driver_def sample_simps(1))
qed

theorem only_send_errors_escape_witness:
  "\<exists>e s'. receive_packet (sample_driver\<lparr>dv_send := \<lambda>_ _ _. Some 87\<rparr>) Map.empty 0 no_network [0x45] sample_address
       sample_capture = (Inl e, s') \<and> err_code e = ''WINDIVERT_SEND''"
proof -
  have "is_tcp_packet [0x45] = Inr False" "udp_view_of [0x45] = Inl (intercept_error ''Captured packet is too short'')"
    by code_simp+
  then have "\<exists>e s'. receive_packet (sample_driver\<lparr>dv_send := \<lambda>_ _ _. Some 87\<rparr>) Map.empty 0 no_network [0x45]
      sample_address sample_capture = (Inl e, s')"
    by (simp add: receive_packet_def capture_udp_def bindA_def guarded_def liftA_def effect_def inject_def
        intercept_error_def sample_address_def)
  then show ?thesis using only_send_errors_escape by blast
qed

definition sample_job :: job where
  "sample_job = \<lparr>jb_packet = sample_captured, jb_address = sample_address, jb_config = bypass_config,
     jb_options = plain_options\<rparr>"

theorem job_sends_one_packet_witness:
  "\<exists>es. cp_effects (process_job sample_driver (job_router sample_upstream no_network sample_job 0 no_shared) sample_job sample_capture) = es \<and>
     length (sent_packets es) \<le> 1"
proof -
  have v: "udp_view_of (jb_packet sample_job) = Inr \<lparr>uv_udp = 20, uv_payload = 28, uv_ipv6 = False\<rparr>"
    by (simp add: sample_job_def sample_captured_view)
  show ?thesis
    using job_sends_one_packet [OF v, of sample_driver sample_upstream no_network 0 no_shared sample_capture]
    by (auto simp: sample_simps(1))
qed

end
