(* ===== verification/Intercept_Life_Facts.thy ===== *)
theory Intercept_Life_Facts
  imports Intercept_Life Intercept_Loop_Facts
begin

text \<open>
  The interception as a state machine of its threads and of its callers: a start acquires every
  resource or none, a stop releases all of them and can always be completed, and the queue, the
  table of expected connections and the number of jobs in work stay within their bounds.
\<close>

section \<open>Steps\<close>

inductive interception_step ::
  "inet \<Rightarrow> divert \<Rightarrow> upstream \<Rightarrow> interception \<Rightarrow> interception \<Rightarrow> bool" for inet env up where
  Receive:
    "ic_receiver i \<Longrightarrow>
     receive_event env sockets now network input (ic_capture i) = (goes_on, s) \<Longrightarrow>
     interception_step inet env up i (i\<lparr>ic_capture := s, ic_receiver := goes_on\<rparr>)"
| Take:
    "length (cp_active (ic_capture i)) < ic_workers i \<Longrightarrow>
     interception_step inet env up i (i\<lparr>ic_capture := take_job (ic_capture i)\<rparr>)"
| Process:
    "cp_active (ic_capture i) = before @ job # rest \<Longrightarrow>
     s = process_job env (job_router up network job now shared) job (ic_capture i) \<Longrightarrow>
     interception_step inet env up i (i\<lparr>ic_capture := s\<lparr>cp_active := before @ rest\<rparr>\<rparr>)"
| Accept:
    "ic_proxy i \<Longrightarrow> consume_expected now address port (cp_expected (ic_capture i)) = (accepted, es) \<Longrightarrow>
     interception_step inet env up i (i\<lparr>ic_capture := (ic_capture i)\<lparr>cp_expected := es\<rparr>\<rparr>)"
| Start:
    "start_interception inet la owner driver_stopped i = (r, j) \<Longrightarrow> interception_step inet env up i j"
| Begin_stop:
    "interception_step inet env up i (begin_stop i)"
| End_stop:
    "cp_state (ic_capture i) = Stopping \<Longrightarrow> \<not> ic_receiver i \<Longrightarrow> cp_active (ic_capture i) = [] \<Longrightarrow>
     interception_step inet env up i (end_stop owner driver_stopped i)"
| Reload:
    "reload_interception inet config i = (r, j) \<Longrightarrow> interception_step inet env up i j"

inductive_cases interception_stepE: "interception_step inet env up i j"

section \<open>The invariant\<close>

definition holds_all :: "interception \<Rightarrow> bool" where
  "holds_all i \<longleftrightarrow> ic_firewall i \<and> ic_proxy i \<and> ic_module i \<and> ic_handle i"

definition idle :: "interception \<Rightarrow> bool" where
  "idle i \<longleftrightarrow>
     \<not> ic_firewall i \<and> \<not> ic_proxy i \<and> \<not> ic_module i \<and> \<not> ic_handle i \<and> \<not> ic_receiver i \<and> ic_workers i = 0 \<and>
     cp_jobs (ic_capture i) = [] \<and> cp_queued_bytes (ic_capture i) = 0 \<and> cp_active (ic_capture i) = [] \<and>
     cp_expected (ic_capture i) = [] \<and> cp_proxy_port (ic_capture i) = 0"

definition interception_ok :: "interception \<Rightarrow> bool" where
  "interception_ok i \<longleftrightarrow>
     queue_ok (ic_capture i) \<and> expected_ok (cp_expected (ic_capture i)) \<and>
     length (cp_active (ic_capture i)) \<le> ic_workers i \<and> ic_workers i \<le> 16 \<and>
     (idle i \<or> holds_all i) \<and>
     (cp_state (ic_capture i) = Running \<longrightarrow> holds_all i) \<and>
     (cp_state (ic_capture i) = Stopped \<longrightarrow> idle i) \<and>
     cp_state (ic_capture i) \<noteq> Starting"

lemma idle_queue: "idle i \<Longrightarrow> queue_ok (ic_capture i) \<and> expected_ok (cp_expected (ic_capture i))"
  by (simp add: idle_def queue_ok_def expected_ok_def)

section \<open>Start\<close>

text \<open>What the starting steps leave alone.\<close>

definition calm :: "interception \<Rightarrow> interception \<Rightarrow> bool" where
  "calm i j \<longleftrightarrow>
     cp_active (ic_capture j) = cp_active (ic_capture i) \<and> cp_expected (ic_capture j) = cp_expected (ic_capture i) \<and>
     cp_jobs (ic_capture j) = cp_jobs (ic_capture i) \<and> cp_queued_bytes (ic_capture j) = cp_queued_bytes (ic_capture i)"

interpretation calm: step_relation calm
  by unfold_locales (auto simp: calm_def)

lemma log_event_of_same:
  "log_event_of level event message s = s\<lparr>cp_effects := cp_effects s @ [Logged (Log_write level event message)]\<rparr>"
  by (simp add: log_event_of_def effect_def)

lemma log_fold_same:
  fixes cs :: "(bool \<times> string \<times> string) list"
  defines "f \<equiv> \<lambda>(suspected, event, message). log_event_of (if suspected then errors_only else normal) event message"
  shows "cp_active (fold f cs s) = cp_active s \<and> cp_expected (fold f cs s) = cp_expected s \<and>
    cp_jobs (fold f cs s) = cp_jobs s \<and> cp_queued_bytes (fold f cs s) = cp_queued_bytes s \<and>
    cp_state (fold f cs s) = cp_state s"
  by (induction cs arbitrary: s) (auto simp: f_def log_event_of_same)

lemma log_start_calm: "calm i (snd (log_start level event message i))"
  by (simp add: log_start_def on_capture_def log_event_of_same calm_def)

lemma fault_point_calm: "calm i (snd (fault_point la stage i))"
  by (simp add: fault_point_def calm.liftA_rel)

lemma start_proxy_calm: "calm i (snd (start_proxy inet la i))"
  unfolding start_proxy_def
proof (intro calm.bindA_rel calm.liftA_rel log_start_calm fault_point_calm, goal_cases)
  case 1
  show ?case by (auto simp: calm_def split: sum.splits)
next
  case 3
  show ?case by (simp add: on_capture_def calm_def log_fold_same)
qed (simp_all add: changed_def calm_def)

lemma open_driver_calm: "calm i (snd (open_driver la i))"
  unfolding open_driver_def Let_def
  by (intro calm.bindA_rel calm.liftA_rel log_start_calm fault_point_calm) (simp_all add: changed_def calm_def)

lemma start_threads_calm: "calm i (snd (start_threads la i))"
  unfolding start_threads_def Let_def
proof (intro calm.bindA_rel calm.liftA_rel log_start_calm fault_point_calm, goal_cases)
  case (3 x t y u z v w x1)
  show ?case by (cases "la_spawn la") (auto simp: changed_def calm_def)
qed (auto simp: changed_def calm_def on_capture_def split: option.splits)


lemma bindA_InrE:
  assumes "bindA m f s = (Inr y, u)"
  obtains x t where "m s = (Inr x, t)" "f x t = (Inr y, u)"
  using assms by (auto simp: bindA_def split: prod.splits sum.splits)

lemma log_start_Inr: "log_start level event message i = (r, j) \<longleftrightarrow> r = Inr () \<and> j = i\<lparr>ic_capture := log_event_of level event message (ic_capture i)\<rparr>"
  by (auto simp: log_start_def on_capture_def)

lemma liftA_Inr: "liftA r i = (Inr x, j) \<longleftrightarrow> r = Inr x \<and> j = i"
  by (auto simp: liftA_def)

lemma fault_point_Inr: "fault_point la stage i = (Inr x, j) \<Longrightarrow> j = i"
  by (auto simp: fault_point_def liftA_def)

lemma start_proxy_Inr: "start_proxy inet la i = (Inr x, j) \<Longrightarrow> ic_proxy j"
  unfolding start_proxy_def
  by (auto elim!: bindA_InrE simp: log_start_Inr liftA_Inr changed_def dest!: fault_point_Inr)

lemma open_driver_Inr: "open_driver la i = (Inr x, j) \<Longrightarrow> ic_module j \<and> ic_handle j \<and> ic_proxy j = ic_proxy i"
  unfolding open_driver_def Let_def
  by (auto elim!: bindA_InrE simp: log_start_Inr liftA_Inr changed_def dest!: fault_point_Inr)

lemma start_threads_Inr:
  "start_threads la i = (Inr x, j) \<Longrightarrow>
     ic_firewall j \<and> ic_receiver j \<and> ic_workers j = worker_count (la_threads la) \<and>
     cp_state (ic_capture j) = Running \<and>
     ic_module j = ic_module i \<and> ic_handle j = ic_handle i \<and> ic_proxy j = ic_proxy i"
  unfolding start_threads_def Let_def
  by (auto elim!: bindA_InrE simp: log_start_Inr liftA_Inr changed_def on_capture_def log_event_of_same
      dest!: fault_point_Inr split: option.splits prod.splits)

lemma start_failed_idle:
  assumes "calm i j" and "cp_active (ic_capture i) = []" and "cp_expected (ic_capture i) = []"
  shows "idle (start_failed owner driver_stopped e j)" and "cp_state (ic_capture (start_failed owner driver_stopped e j)) = Failed"
    and "cp_error_code (ic_capture (start_failed owner driver_stopped e j)) = err_code e"
  using assms
  by (auto simp: start_failed_def release_all_def release_log_def log_event_of_same idle_def calm_def Let_def)

text \<open>A start from the stopped state ends with everything or with nothing.\<close>

lemma start_all_or_nothing:
  assumes "interception_ok i" and "cp_state (ic_capture i) = Stopped"
    and "start_interception inet la owner driver_stopped i = (r, j)"
  shows "case r of
      Inr _ \<Rightarrow> cp_state (ic_capture j) = Running \<and> holds_all j \<and> ic_receiver j \<and>
        4 \<le> ic_workers j \<and> ic_workers j \<le> 16 \<and> cp_jobs (ic_capture j) = [] \<and>
        cp_queued_bytes (ic_capture j) = 0 \<and> cp_active (ic_capture j) = [] \<and> cp_expected (ic_capture j) = []
    | Inl e \<Rightarrow> cp_state (ic_capture j) = Failed \<and> idle j \<and> cp_error_code (ic_capture j) = err_code e"
proof -
  define i0 where "i0 = i\<lparr>ic_capture := (ic_capture i)\<lparr>cp_state := Starting, cp_error_code := [], cp_error_message := []\<rparr>\<rparr>"
  let ?attempt = "bindA (start_proxy inet la) (\<lambda>_. bindA (open_driver la) (\<lambda>_. start_threads la))"
  have idle: "idle i" using assms(1,2) by (simp add: interception_ok_def)
  have "calm i i0" by (simp add: i0_def calm_def)
  moreover have "calm i0 (snd (?attempt i0))"
    by (intro calm.bindA_rel start_proxy_calm open_driver_calm start_threads_calm)
  ultimately have calm: "calm i (snd (?attempt i0))" by (rule calm.rel_trans)
  obtain r' j' where ran: "?attempt i0 = (r', j')" by (cases "?attempt i0")
  show ?thesis
  proof (cases r')
    case (Inl e)
    then have "r = Inl e" "j = start_failed owner driver_stopped e j'"
      using assms(2,3) ran by (simp_all add: start_interception_def i0_def Let_def)
    then show ?thesis using start_failed_idle [of i j'] calm ran idle by (simp add: idle_def)
  next
    case (Inr u)
    then have j: "r = Inr ()" "j = j'"
      using assms(2,3) ran by (simp_all add: start_interception_def i0_def Let_def)
    from ran Inr obtain i1 i2 x y where steps: "start_proxy inet la i0 = (Inr x, i1)"
        "open_driver la i1 = (Inr y, i2)" "start_threads la i2 = (Inr u, j')"
      by (auto elim!: bindA_InrE)
    have "4 \<le> worker_count n \<and> worker_count n \<le> 16" for n by (simp add: worker_count_def)
    then show ?thesis
      using start_proxy_Inr [OF steps(1)] open_driver_Inr [OF steps(2)] start_threads_Inr [OF steps(3)]
        calm ran idle
      by (simp add: j holds_all_def calm_def idle_def)
  qed
qed

lemma start_refused:
  "cp_state (ic_capture i) \<noteq> Stopped \<Longrightarrow>
     start_interception inet la owner driver_stopped i =
       (Inl (Error ''LIFECYCLE'' ''WinDivert interception is not stopped''), i)"
  by (simp add: start_interception_def)

section \<open>The invariant holds\<close>

lemma receive_failed_parts:
  "queue_ok (receive_failed e s) \<longleftrightarrow> queue_ok s" "cp_expected (receive_failed e s) = cp_expected s"
  "cp_active (receive_failed e s) = cp_active s" "cp_state (receive_failed e s) \<in> {cp_state s, Failed}"
  "cp_state s \<noteq> Running \<Longrightarrow> cp_state (receive_failed e s) = cp_state s" "cp_shut (receive_failed e s)"
  by (auto simp: receive_failed_def queue_ok_def Let_def)

lemma receive_event_parts:
  assumes "receive_event env sockets now network input s = (goes_on, t)"
  shows "(queue_ok s \<longrightarrow> queue_ok t) \<and> (expected_ok (cp_expected s) \<longrightarrow> expected_ok (cp_expected t)) \<and>
    cp_active t = cp_active s \<and> cp_state t \<in> {cp_state s, Failed} \<and>
    (cp_state s \<noteq> Running \<longrightarrow> cp_state t = cp_state s) \<and> (cp_shut s \<longrightarrow> cp_shut t)"
proof (cases input)
  case (Received p address)
  obtain r u where r: "receive_packet env sockets now network p address s = (r, u)"
    by (cases "receive_packet env sockets now network p address s")
  have "keeps s u" using receive_packet_keeps [of s env sockets now network p address] r by simp
  then show ?thesis using assms r receive_failed_parts [where s = u]
    by (auto simp: receive_event_def Received keeps_def split: sum.splits)
next
  case (Not_received n)
  then show ?thesis using assms receive_failed_parts [where s = s]
    by (auto simp: receive_event_def split: if_splits)
qed

lemma interception_ok_active:
  assumes "interception_ok i" and "holds_all i"
    and "queue_ok t" and "expected_ok (cp_expected t)" and "length (cp_active t) \<le> ic_workers i"
    and "cp_state t \<in> {cp_state (ic_capture i), Failed}"
  shows "interception_ok (i\<lparr>ic_capture := t, ic_receiver := b\<rparr>)"
  using assms by (auto simp: interception_ok_def holds_all_def idle_def)

lemma consume_ok: "expected_ok es \<Longrightarrow> consume_expected now address port es = (accepted, es') \<Longrightarrow> expected_ok es'"
  by (auto simp: consume_expected_def Let_def prune_ok delete_ok split: if_splits)

lemma end_stop_idle:
  "\<not> ic_receiver i \<Longrightarrow> cp_active (ic_capture i) = [] \<Longrightarrow> interception_ok i \<Longrightarrow>
     idle (end_stop owner driver_stopped i) \<and> cp_state (ic_capture (end_stop owner driver_stopped i)) = Stopped"
  by (auto simp: end_stop_def release_all_def release_log_def log_event_of_same idle_def Let_def
      interception_ok_def holds_all_def)

lemma idle_ok:
  "idle i \<Longrightarrow> cp_state (ic_capture i) \<in> {Stopped, Failed, Stopping} \<Longrightarrow> interception_ok i"
  using idle_queue [of i] by (auto simp: interception_ok_def idle_def)

lemma router_irrelevant:
  "idle (i\<lparr>ic_capture := (ic_capture i)\<lparr>cp_router := r\<rparr>\<rparr>) = idle i"
  "holds_all (i\<lparr>ic_capture := s\<rparr>) = holds_all i"
  "queue_ok (s\<lparr>cp_router := r\<rparr>) = queue_ok s"
  by (simp_all add: idle_def holds_all_def queue_ok_def)

lemma interception_step_ok:
  "interception_step inet env up i j \<Longrightarrow> interception_ok i \<Longrightarrow> interception_ok j"
proof (induction rule: interception_step.induct)
  case (Receive i sockets now network input goes_on s)
  then have all: "holds_all i" by (auto simp: interception_ok_def idle_def)
  from receive_event_parts [OF Receive(2)] Receive(3) show ?case
    by (intro interception_ok_active all) (auto simp: interception_ok_def)
next
  case (Take i)
  then have all: "holds_all i" by (auto simp: interception_ok_def idle_def)
  have "i\<lparr>ic_capture := take_job (ic_capture i)\<rparr> = i\<lparr>ic_capture := take_job (ic_capture i), ic_receiver := ic_receiver i\<rparr>"
    by simp
  moreover have "interception_ok (i\<lparr>ic_capture := take_job (ic_capture i), ic_receiver := ic_receiver i\<rparr>)"
    using Take all take_job_queue [of "ic_capture i"]
    by (intro interception_ok_active) (auto simp: interception_ok_def take_job_def split: list.splits)
  ultimately show ?case by simp
next
  case (Process i before job rest s network now shared)
  then have all: "holds_all i" by (auto simp: interception_ok_def idle_def)
  let ?t = "s\<lparr>cp_active := before @ rest\<rparr>"
  note parts = process_job_parts [where s = "ic_capture i" and env = env and job = job and
      routed = "job_router up network job now shared", folded Process(2)]
  have "keeps (ic_capture i) (snd (process_try env (job_router up network job now shared) job (ic_capture i)))"
    by (rule process_try_keeps)
  then have "expected_ok (cp_expected s)" using Process(3) parts(4) by (simp add: keeps_def interception_ok_def)
  moreover have "queue_ok ?t" using parts(1) Process(3) by (simp add: interception_ok_def queue_ok_def)
  moreover have "length (before @ rest) \<le> ic_workers i" using Process(1,3) by (simp add: interception_ok_def)
  ultimately have "interception_ok (i\<lparr>ic_capture := ?t, ic_receiver := ic_receiver i\<rparr>)"
    using parts(6) by (intro interception_ok_active Process(3) all) auto
  then show ?case by simp
next
  case (Accept i now address port accepted es)
  then have all: "holds_all i" by (auto simp: interception_ok_def idle_def)
  let ?t = "(ic_capture i)\<lparr>cp_expected := es\<rparr>"
  have "expected_ok es" using consume_ok [OF _ Accept(2)] Accept(3) by (simp add: interception_ok_def)
  then have "interception_ok (i\<lparr>ic_capture := ?t, ic_receiver := ic_receiver i\<rparr>)"
    using Accept(3) by (intro interception_ok_active all) (auto simp: interception_ok_def queue_ok_def)
  then show ?case by simp
next
  case (Start la owner driver_stopped i r j)
  show ?case
  proof (cases "cp_state (ic_capture i) = Stopped")
    case True
    from start_all_or_nothing [OF Start(2) True Start(1)] show ?thesis
    proof (cases r)
      case (Inl e)
      with start_all_or_nothing [OF Start(2) True Start(1)] show ?thesis by (intro idle_ok) simp_all
    next
      case (Inr u)
      with start_all_or_nothing [OF Start(2) True Start(1)] show ?thesis
        by (simp add: interception_ok_def queue_ok_def expected_ok_def)
    qed
  next
    case False
    then show ?thesis using Start by (simp add: start_refused)
  qed
next
  case (Begin_stop i)
  then show ?case
    by (auto simp: begin_stop_def interception_ok_def holds_all_def idle_def queue_ok_def Let_def)
next
  case (End_stop i owner driver_stopped)
  then show ?case using end_stop_idle [of i owner driver_stopped] by (intro idle_ok) simp_all
next
  case (Reload config i r j)
  then have "j = i \<or> (\<exists>router. j = i\<lparr>ic_capture := (ic_capture i)\<lparr>cp_router := router\<rparr>\<rparr>)"
    by (auto simp: reload_interception_def Let_def simp del: bindE_Inr_iff split: sum.splits)
  then show ?case
  proof
    assume "\<exists>router. j = i\<lparr>ic_capture := (ic_capture i)\<lparr>cp_router := router\<rparr>\<rparr>"
    then obtain router where "j = i\<lparr>ic_capture := (ic_capture i)\<lparr>cp_router := router\<rparr>\<rparr>" by blast
    with Reload(2) show ?thesis by (simp add: interception_ok_def router_irrelevant)
  qed (use Reload(2) in simp)
qed

text \<open>The interception as it is constructed.\<close>

definition new_interception :: "router \<Rightarrow> 16 word \<Rightarrow> interception" where
  "new_interception router port =
     \<lparr>ic_capture = \<lparr>cp_state = Stopped, cp_error_code = [], cp_error_message = [], cp_router = router,
        cp_jobs = [], cp_queued_bytes = 0, cp_active = [], cp_overloads = 0, cp_expected = [],
        cp_proxy_port = 0, cp_tcp_port = port, cp_sends = 0, cp_shut = False, cp_effects = []\<rparr>,
      ic_firewall = False, ic_proxy = False, ic_module = False, ic_handle = False, ic_receiver = False,
      ic_workers = 0, ic_stop_driver = False\<rparr>"

lemma new_interception_ok: "interception_ok (new_interception router port)"
  by (rule idle_ok) (simp_all add: idle_def new_interception_def)

interpretation intercepting: step_system "new_interception router port" "interception_step inet env up" interception_ok
  for router port inet env up
  by unfold_locales (auto intro: new_interception_ok interception_step_ok)

text \<open>C10: However receiver, workers, start, stop and reload interleave, the queue is bounded in
  jobs and bytes with an exact byte counter, the expected connections are bounded, and the
  resources are either all held or all released, as the state says.\<close>

theorem interception_invariant:
  assumes "(interception_step inet env up)\<^sup>*\<^sup>* (new_interception router port) i"
  shows "length (cp_jobs (ic_capture i)) \<le> 4096 \<and> cp_queued_bytes (ic_capture i) \<le> max_queued_bytes \<and>
    cp_queued_bytes (ic_capture i) = sum_list (map (length \<circ> jb_packet) (cp_jobs (ic_capture i))) \<and>
    length (cp_expected (ic_capture i)) \<le> 4096 \<and> length (cp_active (ic_capture i)) \<le> 16 \<and>
    (idle i \<or> holds_all i) \<and>
    (cp_state (ic_capture i) = Running \<longrightarrow> holds_all i) \<and> (cp_state (ic_capture i) = Stopped \<longrightarrow> idle i)"
  using intercepting.reachable_inv [OF assms]
  by (auto simp: interception_ok_def queue_ok_def expected_ok_def)

theorem start_acquires_all_or_nothing:
  assumes "(interception_step inet env up)\<^sup>*\<^sup>* (new_interception router port) i"
    and "start_interception inet la owner driver_stopped i = (r, j)"
  shows "if cp_state (ic_capture i) \<noteq> Stopped then j = i \<and> (\<exists>m. r = Inl (Error ''LIFECYCLE'' m))
    else case r of
      Inr _ \<Rightarrow> cp_state (ic_capture j) = Running \<and> holds_all j \<and> ic_receiver j \<and> 4 \<le> ic_workers j
    | Inl e \<Rightarrow> cp_state (ic_capture j) = Failed \<and> idle j \<and> is_error_code (status_of j) = err_code e"
proof (cases "cp_state (ic_capture i) = Stopped")
  case True
  from start_all_or_nothing [OF intercepting.reachable_inv [OF assms(1)] True assms(2)] True
  show ?thesis by (cases r) (simp_all add: status_of_def Let_def)
next
  case False
  then show ?thesis using assms(2) by (auto simp: start_refused)
qed

section \<open>Stop\<close>

text \<open>
  What a stop waits for.  \<open>n\<close> packets are still in the queue of the driver: while there are any,
  \<open>WinDivertRecv\<close> returns one of them; when there is none it blocks, unless the handle was shut
  down, and then it fails with \<open>ERROR_NO_DATA\<close> (232).  A worker finishes the job it has.  One
  without a job is taken to be woken by the notifications of \<open>stop\<close> and of the receiver: both are
  sent without \<open>queue_mutex\<close>, so a worker between its test and its wait could miss them.  After the
  joins everything is released.
\<close>

inductive stop_step ::
  "inet \<Rightarrow> divert \<Rightarrow> upstream \<Rightarrow> nat \<times> interception \<Rightarrow> nat \<times> interception \<Rightarrow> bool" for inet env up where
  Queued:
    "ic_receiver i \<Longrightarrow>
     receive_event env sockets now network (Received p address) (ic_capture i) = (goes_on, s) \<Longrightarrow>
     stop_step inet env up (Suc n, i) (n, i\<lparr>ic_capture := s, ic_receiver := goes_on\<rparr>)"
| Drained:
    "ic_receiver i \<Longrightarrow> cp_shut (ic_capture i) \<Longrightarrow>
     receive_event env sockets now network (Not_received 232) (ic_capture i) = (goes_on, s) \<Longrightarrow>
     stop_step inet env up (0, i) (0, i\<lparr>ic_capture := s, ic_receiver := goes_on\<rparr>)"
| Finished:
    "cp_active (ic_capture i) = before @ job # rest \<Longrightarrow>
     s = process_job env (job_router up network job now shared) job (ic_capture i) \<Longrightarrow>
     stop_step inet env up (n, i) (n, i\<lparr>ic_capture := s\<lparr>cp_active := before @ rest\<rparr>\<rparr>)"
| Joined:
    "cp_state (ic_capture i) = Stopping \<Longrightarrow> \<not> ic_receiver i \<Longrightarrow> cp_active (ic_capture i) = [] \<Longrightarrow>
     stop_step inet env up (n, i) (n, end_stop owner driver_stopped i)"

inductive_cases stop_stepE: "stop_step inet env up x y"

text \<open>
  A run of a stop: the steps it waits for, counted, and whatever else happens meanwhile (reloads,
  connections of the proxy, further calls of \<open>start\<close> and \<open>stop\<close>).
\<close>

inductive stop_run ::
  "inet \<Rightarrow> divert \<Rightarrow> upstream \<Rightarrow> nat \<times> interception \<Rightarrow> nat \<Rightarrow> nat \<times> interception \<Rightarrow> bool" for inet env up x where
  Begun:
    "stop_run inet env up x 0 x"
| Awaited:
    "stop_run inet env up x m y \<Longrightarrow> stop_step inet env up y z \<Longrightarrow> stop_run inet env up x (Suc m) z"
| Meanwhile:
    "stop_run inet env up x m (n, i) \<Longrightarrow> interception_step inet env up i j \<Longrightarrow>
     ic_receiver j = ic_receiver i \<Longrightarrow> cp_active (ic_capture j) = cp_active (ic_capture i) \<Longrightarrow>
     cp_state (ic_capture i) = Stopping \<Longrightarrow> cp_state (ic_capture j) = Stopping \<Longrightarrow>
     stop_run inet env up x m (n, j)"

text \<open>While it stops the receiver cannot block, and these steps are left.\<close>

definition stop_work :: "interception \<Rightarrow> nat" where
  "stop_work i =
     (if cp_state (ic_capture i) = Stopped then 0
      else length (cp_active (ic_capture i)) + (if ic_receiver i then 2 else 1))"

definition stopping_ok :: "interception \<Rightarrow> bool" where
  "stopping_ok i \<longleftrightarrow> interception_ok i \<and> cp_state (ic_capture i) \<in> {Stopping, Stopped} \<and>
     (ic_receiver i \<longrightarrow> cp_shut (ic_capture i))"

lemma stop_begun_ok:
  assumes "interception_ok i"
  shows "stopping_ok (begin_stop i)" and "stop_work (begin_stop i) \<le> 18"
proof -
  have "interception_ok (begin_stop i)" by (rule interception_step_ok [OF Begin_stop assms])
  with assms show "stopping_ok (begin_stop i)"
    by (auto simp: stopping_ok_def begin_stop_def Let_def interception_ok_def holds_all_def idle_def)
  show "stop_work (begin_stop i) \<le> 18"
    using assms by (auto simp: stop_work_def begin_stop_def Let_def interception_ok_def)
qed

lemma stopped_receiver:
  assumes "stopping_ok i" "ic_receiver i"
  shows "cp_state (ic_capture i) = Stopping" and "cp_shut (ic_capture i)"
  using assms by (auto simp: stopping_ok_def interception_ok_def idle_def)

lemma stopped_active:
  assumes "stopping_ok i" "cp_active (ic_capture i) = before @ job # rest"
  shows "cp_state (ic_capture i) = Stopping"
  using assms by (auto simp: stopping_ok_def interception_ok_def idle_def)

lemma receive_ends:
  assumes "receive_event env sockets now network input s = (goes_on, t)" "cp_state s = Stopping"
  shows "\<not> goes_on" and "cp_state t = Stopping" and "cp_active t = cp_active s"
  using assms receive_event_parts [OF assms(1)]
  by (auto simp: receive_event_def split: received.splits if_splits prod.splits sum.splits)

lemma stop_receive:
  assumes "stopping_ok i" "ic_receiver i"
    and "receive_event env sockets now network input (ic_capture i) = (goes_on, s)"
  shows "stopping_ok (i\<lparr>ic_capture := s, ic_receiver := goes_on\<rparr>) \<and>
    Suc (stop_work (i\<lparr>ic_capture := s, ic_receiver := goes_on\<rparr>)) = stop_work i"
proof -
  note state = stopped_receiver(1) [OF assms(1,2)]
  have "interception_ok (i\<lparr>ic_capture := s, ic_receiver := goes_on\<rparr>)"
    using interception_step_ok [OF Receive [OF assms(2,3)]] assms(1) by (simp add: stopping_ok_def)
  with receive_ends [OF assms(3) state] assms(2) state show ?thesis
    by (simp add: stopping_ok_def stop_work_def)
qed

lemma stop_step_work:
  assumes "stop_step inet env up (n, i) (k, j)" and "stopping_ok i"
  shows "stopping_ok j" and "Suc (stop_work j) = stop_work i"
proof -
  have "stopping_ok j \<and> Suc (stop_work j) = stop_work i"
    using assms(1)
  proof cases
    case (Queued sockets now network p address goes_on s)
    then show ?thesis using stop_receive [OF assms(2)] by simp
  next
    case (Drained sockets now network goes_on s)
    then show ?thesis using stop_receive [OF assms(2)] by simp
  next
    case (Finished before job rest s network now shared)
    note state = stopped_active [OF assms(2) Finished(3)]
    have s: "s = ic_capture i" using Finished(4) state by (simp add: process_job_idle)
    have "interception_ok j"
      using interception_step_ok [OF Process [OF Finished(3,4)]] Finished(2) assms(2) by (simp add: stopping_ok_def)
    then show ?thesis using assms(2) state Finished(2,3) s by (auto simp: stopping_ok_def stop_work_def)
  next
    case (Joined owner driver_stopped)
    have "idle j \<and> cp_state (ic_capture j) = Stopped"
      using end_stop_idle [of i owner driver_stopped] Joined assms(2) by (simp add: stopping_ok_def)
    then show ?thesis using Joined idle_ok [of j] by (auto simp: stopping_ok_def stop_work_def idle_def)
  qed
  then show "stopping_ok j" "Suc (stop_work j) = stop_work i" by simp_all
qed

lemma meanwhile_ok:
  assumes "interception_step inet env up i j" and "stopping_ok i"
    and "ic_receiver j = ic_receiver i" "cp_active (ic_capture j) = cp_active (ic_capture i)"
    and "cp_state (ic_capture i) = Stopping" "cp_state (ic_capture j) = Stopping"
  shows "stopping_ok j" and "stop_work j = stop_work i"
proof -
  have "cp_shut (ic_capture j)" if "ic_receiver i" "cp_shut (ic_capture i)"
    using assms(1)
  proof cases
    case (Receive sockets now network input goes_on s)
    then show ?thesis using receive_event_parts [OF Receive(3)] that by simp
  next
    case (Process before job rest s network now shared)
    then show ?thesis using assms(5) that by (simp add: process_job_idle)
  next
    case (Reload config r)
    then show ?thesis using that
      by (auto simp: reload_interception_def Let_def simp del: bindE_Inr_iff split: sum.splits)
  qed (use assms(5) that in \<open>auto simp: take_job_def start_refused begin_stop_def Let_def split: list.splits\<close>)
  then show "stopping_ok j" using assms(2-6) interception_step_ok [OF assms(1)] by (auto simp: stopping_ok_def)
  show "stop_work j = stop_work i" using assms(3-6) by (simp add: stop_work_def)
qed

lemma stop_run_ok:
  assumes "stop_run inet env up x m y" and "stopping_ok (snd x)"
  shows "stopping_ok (snd y) \<and> m + stop_work (snd y) = stop_work (snd x)"
  using assms(1)
proof induction
  case Begun
  then show ?case using assms(2) by simp
next
  case (Awaited m y z)
  then show ?case using stop_step_work [of inet env up "fst y" "snd y" "fst z" "snd z"] by fastforce
next
  case (Meanwhile m n i j)
  then show ?case using meanwhile_ok [OF Meanwhile(2)] by simp
qed

lemma stop_step_enabled:
  assumes "stopping_ok i" "cp_state (ic_capture i) = Stopping"
  shows "\<exists>y. stop_step inet env up (n, i) y"
proof (cases "ic_receiver i")
  case True
  show ?thesis
  proof (cases n)
    case 0
    have "\<exists>s. receive_event env Map.empty 0 undefined (Not_received 232) (ic_capture i) = (False, s)"
      using assms(2) by (simp add: receive_event_def)
    then show ?thesis using Drained [OF True stopped_receiver(2) [OF assms(1) True]] 0 by blast
  next
    case (Suc k)
    obtain goes_on s where "receive_event env Map.empty 0 undefined (Received undefined undefined) (ic_capture i) = (goes_on, s)"
      by (cases "receive_event env Map.empty 0 undefined (Received undefined undefined) (ic_capture i)")
    then show ?thesis using Queued [OF True] Suc by blast
  qed
next
  case False
  show ?thesis
  proof (cases "cp_active (ic_capture i)")
    case Nil
    then show ?thesis using Joined [OF assms(2) False] by blast
  next
    case (Cons job rest)
    then have "cp_active (ic_capture i) = [] @ job # rest" by simp
    from Finished [OF this refl] show ?thesis by blast
  qed
qed

text \<open>Cn: x\<close>

text \<open>C15: Whatever the interception is doing, its stop completes: the receiver gets what the
  driver has queued and then the error of the handle that stop has shut down, the workers
  finish their jobs, and then everything is released. Until then one of these steps is
  always possible, and at most 18 of them are needed, whatever else happens meanwhile; a
  worker without a job is taken to be woken by the notification.\<close>

theorem stop_completes:
  assumes "(interception_step inet env up)\<^sup>*\<^sup>* (new_interception router port) i"
    and "stop_run inet env up (queued, begin_stop i) m (n, j)"
  shows "m \<le> 18 \<and>
    (cp_state (ic_capture j) = Stopped \<and> idle j \<or>
     cp_state (ic_capture j) = Stopping \<and> (\<exists>y. stop_step inet env up (n, j) y))"
proof -
  note begun = stop_begun_ok [OF intercepting.reachable_inv [OF assms(1)]]
  have j: "stopping_ok j" "m + stop_work j = stop_work (begin_stop i)"
    using stop_run_ok [OF assms(2)] begun(1) by simp_all
  have "m \<le> 18" using j(2) begun(2) by simp
  moreover have "idle j" if "cp_state (ic_capture j) = Stopped"
    using j(1) that by (simp add: stopping_ok_def interception_ok_def)
  moreover have "cp_state (ic_capture j) \<in> {Stopping, Stopped}" using j(1) by (simp add: stopping_ok_def)
  ultimately show ?thesis using stop_step_enabled [OF j(1), of inet env up n] by blast
qed

section \<open>A concrete start\<close>

definition sample_launch :: launch where
  "sample_launch = \<lparr>la_fault = (\<lambda>_. None), la_conflicts = [(True, ''FOREIGN'', ''other filter'')],
     la_proxy = Inr 20000, la_owner = Some Owner_missing, la_module = None, la_symbol = (\<lambda>_. True),
     la_filter = (\<lambda>_. None), la_handle = None, la_params = None, la_firewall = None, la_threads = 8,
     la_spawn = None\<rparr>"

definition sample_interception :: interception where
  "sample_interception = new_interception (cp_router sample_capture) 53"

lemma sample_start:
  "fst (start_interception sample_inet sample_launch Owner_missing False sample_interception) = Inr ()"
proof -
  have "find (\<lambda>name. False) windivert_exports = None" by (simp add: find_None_iff)
  then show ?thesis
    by (simp add: start_interception_def sample_interception_def new_interception_def start_proxy_def
        open_driver_def start_threads_def sample_launch_def bindA_def changed_def on_capture_def log_start_def
        fault_point_def liftA_def Let_def resume_def sample_capture_def)
qed

lemma sample_reached:
  "(interception_step sample_inet env up)\<^sup>*\<^sup>* (new_interception (cp_router sample_capture) 53)
     (snd (start_interception sample_inet sample_launch Owner_missing False sample_interception))"
  using Start [OF surjective_pairing, of sample_inet env up "new_interception (cp_router sample_capture) 53"
      sample_launch Owner_missing False]
  unfolding sample_interception_def by (rule r_into_rtranclp)

theorem interception_invariant_witness:
  "let i = snd (start_interception sample_inet sample_launch Owner_missing False sample_interception) in
     length (cp_jobs (ic_capture i)) \<le> 4096 \<and> (idle i \<or> holds_all i)"
  using interception_invariant [OF sample_reached] by (simp add: Let_def)

theorem start_acquires_all_or_nothing_witness:
  "holds_all (snd (start_interception sample_inet sample_launch Owner_missing False sample_interception))"
proof -
  have "cp_state (ic_capture sample_interception) = Stopped"
    by (simp add: sample_interception_def new_interception_def)
  with start_acquires_all_or_nothing [OF rtranclp.rtrancl_refl surjective_pairing,
      of "cp_router sample_capture" 53 sample_inet sample_launch Owner_missing False]
  show ?thesis using sample_start by (simp add: sample_interception_def)
qed

theorem stop_completes_witness:
  "\<exists>y. stop_step sample_inet sample_driver sample_upstream (2,
     begin_stop (snd (start_interception sample_inet sample_launch Owner_missing False sample_interception))) y"
proof -
  let ?i = "snd (start_interception sample_inet sample_launch Owner_missing False sample_interception)"
  have "start_interception sample_inet sample_launch Owner_missing False sample_interception = (Inr (), ?i)"
    using sample_start by (metis prod.collapse)
  moreover have "interception_ok sample_interception" "cp_state (ic_capture sample_interception) = Stopped"
    by (simp_all add: sample_interception_def new_interception_ok) (simp add: new_interception_def)
  ultimately have "cp_state (ic_capture ?i) = Running" using start_all_or_nothing by fastforce
  then have "cp_state (ic_capture (begin_stop ?i)) \<noteq> Stopped" by (simp add: begin_stop_def Let_def)
  with stop_completes [OF sample_reached Begun, of sample_driver sample_upstream 2] show ?thesis by blast
qed

end
