(* ===== verification/Logger.thy ===== *)
theory Logger
  imports Names Ordered_Map
begin

text \<open>
  \<open>src/logger.cpp\<close>, the part in memory: the ring of events, snapshots of it, the suppression of
  repeated errors, and the queue of tasks for the thread that writes the log file.  An
  operation gets the times it reads: \<open>time\<close> of the system clock in milliseconds, \<open>now\<close> of the
  steady clock in nanoseconds.  An exception of the standard library is its message.  The
  promise of a task is a number, and \<open>lo_results\<close> holds the promises that have been set.
\<close>

section \<open>Events and tasks\<close>

record log_context =
  cx_address :: string
  cx_dns_type :: string
  cx_rule :: string
  cx_action :: string

definition no_context :: log_context where
  "no_context = \<lparr>cx_address = [], cx_dns_type = [], cx_rule = [], cx_action = []\<rparr>"

record log_event =
  ev_sequence :: "64 word"
  ev_time :: nat
  ev_level :: level
  ev_code :: string
  ev_message :: string
  ev_context :: log_context

datatype file_task =
  Event_task log_event
| Configure_task bool level string "64 word" "32 word" nat
| Clear_task nat
| Flush_task nat
| Stop_task nat

fun task_ticket :: "file_task \<Rightarrow> nat option" where
  "task_ticket (Event_task e) = None"
| "task_ticket (Configure_task enabled lvl path maximum retained t) = Some t"
| "task_ticket (Clear_task t) = Some t"
| "task_ticket (Flush_task t) = Some t"
| "task_ticket (Stop_task t) = Some t"

record repeated =
  rp_next :: nat
  rp_suppressed :: "64 word"

record logger =
  lo_capacity :: nat
  lo_events :: "log_event list"
  lo_sequence :: "64 word"
  lo_repeated :: "(string \<times> repeated) list"
  lo_file_enabled :: bool
  lo_file_level :: level
  lo_display_level :: level
  lo_tasks :: "file_task list"
  lo_dropped :: "64 word"
  lo_tickets :: nat
  lo_results :: "(nat \<times> string option) list"

definition new_logger :: "nat \<Rightarrow> string + logger" where
  "new_logger capacity =
     (if capacity = 0 then Inl ''log capacity must be positive''
      else Inr \<lparr>lo_capacity = capacity, lo_events = [], lo_sequence = 0, lo_repeated = [],
        lo_file_enabled = False, lo_file_level = normal, lo_display_level = debug,
        lo_tasks = [], lo_dropped = 0, lo_tickets = 0, lo_results = []\<rparr>)"

text \<open>The logger of \<open>CoreHost\<close>, whose capacity is 4096.\<close>

definition core_logger :: logger where
  "core_logger = \<lparr>lo_capacity = 4096, lo_events = [], lo_sequence = 0, lo_repeated = [],
     lo_file_enabled = False, lo_file_level = normal, lo_display_level = debug,
     lo_tasks = [], lo_dropped = 0, lo_tickets = 0, lo_results = []\<rparr>"

section \<open>Writing\<close>

definition enabled :: "level \<Rightarrow> logger \<Rightarrow> bool" where
  "enabled lvl s \<longleftrightarrow> enum_le lvl (lo_display_level s) \<or> lo_file_enabled s \<and> enum_le lvl (lo_file_level s)"

definition set_display_level :: "level \<Rightarrow> logger \<Rightarrow> string + logger" where
  "set_display_level lvl s =
     (if \<not> enum_le lvl debug then Inl ''invalid display logging level''
      else Inr (s\<lparr>lo_display_level := lvl\<rparr>))"

text \<open>Control characters become spaces, then the text is cut.\<close>

definition clean_text :: "nat \<Rightarrow> string \<Rightarrow> string" where
  "clean_text limit t = take limit (map (\<lambda>c. if code c < 32 then CHR '' '' else c) t)"

definition clean_context :: "log_context \<Rightarrow> log_context" where
  "clean_context c =
     \<lparr>cx_address = clean_text 4096 (cx_address c), cx_dns_type = clean_text 4096 (cx_dns_type c),
      cx_rule = clean_text 4096 (cx_rule c), cx_action = clean_text 4096 (cx_action c)\<rparr>"

text \<open>The critical section that appends an event to the ring.\<close>

definition record_event ::
  "nat \<Rightarrow> level \<Rightarrow> string \<Rightarrow> string \<Rightarrow> log_context \<Rightarrow> logger \<Rightarrow> log_event \<times> logger" where
  "record_event time lvl err message context s =
     (let seq = lo_sequence s + 1;
          event = \<lparr>ev_sequence = seq, ev_time = time, ev_level = lvl, ev_code = err,
            ev_message = message, ev_context = context\<rparr>;
          events = lo_events s @ [event] in
      (event, s\<lparr>lo_sequence := seq,
         lo_events := (if length events > lo_capacity s then drop 1 events else events)\<rparr>))"

definition record_file_failure :: "nat \<Rightarrow> string \<Rightarrow> logger \<Rightarrow> logger" where
  "record_file_failure time message s =
     snd (record_event time errors_only ''FILE_LOG_FAILED'' message no_context s)"

text \<open>The critical section that hands an event to the file thread; a full queue drops it.\<close>

definition queue_event :: "nat \<Rightarrow> log_event \<Rightarrow> logger \<Rightarrow> logger" where
  "queue_event time event s =
     (if length (lo_tasks s) < 8192 then s\<lparr>lo_tasks := lo_tasks s @ [Event_task event]\<rparr>
      else
        let dropped = lo_dropped s + 1; s = s\<lparr>lo_dropped := dropped\<rparr> in
        if dropped = 1 \<or> dropped AND (dropped - 1) = 0
        then record_file_failure time
               (''file log queue is full; dropped events='' @ to_string (unat dropped)) s
        else s)"

definition log_write ::
  "nat \<Rightarrow> level \<Rightarrow> string \<Rightarrow> string \<Rightarrow> log_context \<Rightarrow> logger \<Rightarrow> logger" where
  "log_write time lvl err message context s =
     (if \<not> enabled lvl s then s
      else
        let (event, s) = record_event time lvl (clean_text 128 err) (clean_text 4096 message)
                           (clean_context context) s in
        if lo_file_enabled s \<and> enum_le lvl (lo_file_level s) then queue_event time event s else s)"

section \<open>Suppression of repeated events\<close>

text \<open>
  The critical section of \<open>write_limited\<close> on the table: \<open>None\<close> when the event is suppressed,
  otherwise the number of those suppressed since the last one.
\<close>

definition limit_repeated ::
  "nat \<Rightarrow> nat \<Rightarrow> string \<Rightarrow> (string \<times> repeated) list \<Rightarrow> 64 word option \<times> (string \<times> repeated) list" where
  "limit_repeated now interval key table =
     (let fresh = \<lparr>rp_next = now + interval, rp_suppressed = 0\<rparr> in
      case map_of table key of
        Some r \<Rightarrow>
          if now < rp_next r then (None, put_entry key (r\<lparr>rp_suppressed := rp_suppressed r + 1\<rparr>) table)
          else (Some (rp_suppressed r), put_entry key fresh table)
      | None \<Rightarrow>
          let table =
                (if length table \<ge> 256
                 then (case min_element (\<lambda>e. rp_next (snd e)) table of
                         Some oldest \<Rightarrow> AList.delete (fst oldest) table | None \<Rightarrow> table)
                 else table) in
          (Some 0, put_entry key fresh table))"

definition log_write_limited ::
  "nat \<Rightarrow> nat \<Rightarrow> level \<Rightarrow> string \<Rightarrow> string \<Rightarrow> string \<Rightarrow> log_context \<Rightarrow> int \<Rightarrow> logger \<Rightarrow> string + logger" where
  "log_write_limited time now lvl key err message context interval s =
     (if \<not> enabled lvl s then Inr s
      else if interval < 0 then Inl ''negative log suppression interval''
      else
        case limit_repeated now (nat interval * 1000000) (take 1024 key) (lo_repeated s) of
          (None, table) \<Rightarrow> Inr (s\<lparr>lo_repeated := table\<rparr>)
        | (Some suppressed, table) \<Rightarrow>
            let message =
                  (if suppressed \<noteq> 0
                   then ''suppressed='' @ to_string (unat suppressed) @ '' '' @ message else message) in
            Inr (log_write time lvl err message context (s\<lparr>lo_repeated := table\<rparr>)))"

section \<open>Snapshots\<close>

definition events_after :: "level \<Rightarrow> 64 word \<Rightarrow> logger \<Rightarrow> log_event list" where
  "events_after lvl after s = filter (\<lambda>e. ev_sequence e > after \<and> enum_le (ev_level e) lvl) (lo_events s)"

text \<open>A client may carry a sequence of an earlier process.\<close>

definition start_after :: "64 word \<Rightarrow> logger \<Rightarrow> 64 word" where
  "start_after after s = (if after > lo_sequence s then 0 else after)"

definition log_snapshot :: "level \<Rightarrow> 64 word \<Rightarrow> logger \<Rightarrow> log_event list" where
  "log_snapshot lvl after s = events_after lvl (start_after after s) s"

text \<open>\<open>later\<close> is the state in which the wait ends, by a matching event or the timeout.\<close>

definition wait_snapshot :: "level \<Rightarrow> 64 word \<Rightarrow> logger \<Rightarrow> logger \<Rightarrow> log_event list" where
  "wait_snapshot lvl after s later = events_after lvl (start_after after s) later"

definition clear_display :: "logger \<Rightarrow> logger" where
  "clear_display s = s\<lparr>lo_events := [], lo_repeated := []\<rparr>"

section \<open>Tasks of the file thread\<close>

text \<open>\<open>submit_file_task\<close> up to the wait for the promise: the number of the promise is returned.\<close>

definition submit_file_task :: "(nat \<Rightarrow> file_task) \<Rightarrow> logger \<Rightarrow> nat \<times> logger" where
  "submit_file_task task s =
     (let t = lo_tickets s in (t, s\<lparr>lo_tickets := t + 1, lo_tasks := lo_tasks s @ [task t]\<rparr>))"

definition configure_file ::
  "bool \<Rightarrow> level \<Rightarrow> string \<Rightarrow> 64 word \<Rightarrow> 32 word \<Rightarrow> logger \<Rightarrow> string + nat \<times> logger" where
  "configure_file enable lvl path maximum retained s =
     (if \<not> enum_le lvl debug \<or> maximum < 1024 \<or> maximum > 1024 * 1024 * 1024 \<or> retained > 100
      then Inl ''invalid file logging settings''
      else if enable \<and> path = [] then Inl ''file log path is empty''
      else
        let s = (if enable then s else s\<lparr>lo_file_enabled := False\<rparr>) in
        Inr (submit_file_task (Configure_task enable lvl path maximum retained) s))"

definition clear_file :: "logger \<Rightarrow> nat \<times> logger" where
  "clear_file s = submit_file_task Clear_task s"

definition flush_file :: "logger \<Rightarrow> nat \<times> logger" where
  "flush_file s = submit_file_task Flush_task s"

text \<open>The destructor, up to the wait for the thread.\<close>

definition close_logger :: "logger \<Rightarrow> nat \<times> logger" where
  "close_logger s = submit_file_task Stop_task (s\<lparr>lo_file_enabled := False\<rparr>)"

end
