(* ===== verification/Ipc_Wire.thy ===== *)
theory Ipc_Wire
  imports Prelude "HOL-Library.Sublist"
begin

text \<open>
  The framing of the local protocol between CoreHost and its clients: the header of
  \<open>src/ipc_wire.cpp\<close>, and from \<open>src/platform/linux/ipc.cpp\<close> the frames, what the server does
  with one connection and what a client does.  A connection is the bytes the peer sends; reading
  more than that is the peer closing it.  Where a deadline, a stop or the system cuts the
  connection is a \<open>record link\<close>.
\<close>

section \<open>Little-endian fields\<close>

definition get16 :: "packet \<Rightarrow> nat \<Rightarrow> 16 word" where
  "get16 p start = ucast (p ! start) OR push_bit 8 (ucast (p ! (start + 1)))"

definition get32 :: "packet \<Rightarrow> nat \<Rightarrow> 32 word" where
  "get32 p start = fold (\<lambda>i v. v OR push_bit (i * 8) (ucast (p ! (start + i)))) [0 ..< 4] 0"

definition get64 :: "packet \<Rightarrow> nat \<Rightarrow> 64 word" where
  "get64 p start = fold (\<lambda>i v. v OR push_bit (i * 8) (ucast (p ! (start + i)))) [0 ..< 8] 0"

definition put16 :: "16 word \<Rightarrow> packet" where
  "put16 v = [ucast v, ucast (drop_bit 8 v)]"

definition put32 :: "32 word \<Rightarrow> packet" where
  "put32 v = map (\<lambda>i. ucast (drop_bit (i * 8) v)) [0 ..< 4]"

definition put64 :: "64 word \<Rightarrow> packet" where
  "put64 v = map (\<lambda>i. ucast (drop_bit (i * 8) v)) [0 ..< 8]"

section \<open>The header\<close>

record ipc_header =
  ih_operation :: "16 word"
  ih_request :: "64 word"
  ih_length :: "32 word"

definition ipc_magic :: "32 word" where
  "ipc_magic = 0x31444e4e"

definition ipc_max_payload :: "32 word" where
  "ipc_max_payload = 1024 * 1024"

definition ipc_protocol :: "string \<Rightarrow> error" where
  "ipc_protocol message = Error ''IPC_PROTOCOL'' message"

definition parse_ipc_header :: "packet \<Rightarrow> bool \<Rightarrow> error + ipc_header" where
  "parse_ipc_header bytes response =
     (if length bytes \<noteq> 20 then Inl (ipc_protocol ''Invalid IPC header size'')
      else if get32 bytes 0 \<noteq> ipc_magic \<or> get16 bytes 4 \<noteq> 1
      then Inl (ipc_protocol ''Bad IPC magic/version'')
      else
        let header = \<lparr>ih_operation = get16 bytes 6, ih_request = get64 bytes 8, ih_length = get32 bytes 16\<rparr>;
            base = ih_operation header AND 0x7fff in
        if ih_request header = 0 \<or> base < 1 \<or> base > 11 \<or>
           (if response then ih_operation header AND 0x8000 = 0 else ih_operation header AND 0x8000 \<noteq> 0)
        then Inl (ipc_protocol ''Invalid IPC request header'')
        else if (if response then ih_length header < 4 \<or> ih_length header > ipc_max_payload + 4
                 else ih_length header > ipc_max_payload)
        then Inl (ipc_protocol ''Invalid IPC payload size'')
        else Inr header)"

definition frame :: "16 word \<Rightarrow> 64 word \<Rightarrow> 32 word \<Rightarrow> string \<Rightarrow> error + packet" where
  "frame operation request status payload =
     (if length payload > unat ipc_max_payload then Inl (Error ''IPC_LIMIT'' ''IPC payload exceeds 1 MiB'')
      else
        let extra = (if operation AND 0x8000 \<noteq> 0 then 4 else 0 :: nat) in
        Inr (put32 ipc_magic @ put16 1 @ put16 operation @ put64 request @
             put32 (word_of_nat (extra + length payload)) @
             (if extra \<noteq> 0 then put32 status else []) @ map ord payload))"

section \<open>One connection\<close>

record ipc_response =
  ir_status :: "32 word"
  ir_payload :: string

datatype ipc_operation =
  Op_ping | Op_status | Op_start | Op_stop | Op_logs | Op_shutdown | Op_clear_file_log
| Op_clear_display | Op_restart | Op_configure_file_log | Op_reload_config

fun operation_code :: "ipc_operation \<Rightarrow> 16 word" where
  "operation_code Op_ping = 1"
| "operation_code Op_status = 2"
| "operation_code Op_start = 3"
| "operation_code Op_stop = 4"
| "operation_code Op_logs = 5"
| "operation_code Op_shutdown = 6"
| "operation_code Op_clear_file_log = 7"
| "operation_code Op_clear_display = 8"
| "operation_code Op_restart = 9"
| "operation_code Op_configure_file_log = 10"
| "operation_code Op_reload_config = 11"

text \<open>The cast to \<open>IpcOperation\<close>; the header parser accepts the numbers 1 to 11 only.\<close>

definition operation_of :: "16 word \<Rightarrow> ipc_operation option" where
  "operation_of w =
     find (\<lambda>o'. operation_code o' = w)
       [Op_ping, Op_status, Op_start, Op_stop, Op_logs, Op_shutdown, Op_clear_file_log,
        Op_clear_display, Op_restart, Op_configure_file_log, Op_reload_config]"

text \<open>What the handler does: it returns, or throws an \<open>Error\<close> or another exception.\<close>

datatype handled = Responds ipc_response | Throws error | Throws_other string

text \<open>
  What cuts a connection short.  A transfer ends early with an error of its own: the deadline (of
  five seconds for the server, handler included; the timeout of the caller for the client), the
  stop of the server, or the system.  \<open>lk_answer\<close> is the number of bytes of its answer after which
  the server gave up.
\<close>

record link =
  lk_connect :: "error option"
  lk_request :: "error option"
  lk_server_header :: "error option"
  lk_server_payload :: "error option"
  lk_answer :: "nat option"
  lk_client_header :: "error option"
  lk_client_body :: "error option"

definition whole_link :: link where
  "whole_link = \<lparr>lk_connect = None, lk_request = None, lk_server_header = None, lk_server_payload = None,
     lk_answer = None, lk_client_header = None, lk_client_body = None\<rparr>"

text \<open>\<open>transfer\<close> when it reads; reading nothing cannot fail.\<close>

definition receive :: "error option \<Rightarrow> nat \<Rightarrow> packet \<Rightarrow> error + packet \<times> packet" where
  "receive fault n stream =
     (if n = 0 then Inr ([], stream)
      else
        case fault of
          Some e \<Rightarrow> Inl e
        | None \<Rightarrow>
            if n \<le> length stream then Inr (take n stream, drop n stream)
            else Inl (Error ''IPC_IO'' ''IPC peer closed connection''))"

definition answer_of :: "handled \<Rightarrow> ipc_response" where
  "answer_of h =
     (case h of
        Responds r \<Rightarrow> r
      | Throws e \<Rightarrow> \<lparr>ir_status = 1, ir_payload = err_code e @ '': '' @ err_msg e\<rparr>
      | Throws_other message \<Rightarrow> \<lparr>ir_status = 2, ir_payload = ''INTERNAL: '' @ message\<rparr>)"

text \<open>
  The worker of the server: the bytes it sends; none when the request is malformed or its
  transfer fails.
\<close>

definition serve_connection :: "link \<Rightarrow> (ipc_operation \<Rightarrow> string \<Rightarrow> handled) \<Rightarrow> packet \<Rightarrow> packet" where
  "serve_connection link handler stream =
     (case bindE (receive (lk_server_header link) 20 stream) (\<lambda>(header, stream).
           bindE (parse_ipc_header header False) (\<lambda>parsed.
           bindE (receive (lk_server_payload link) (unat (ih_length parsed)) stream) (\<lambda>(payload, stream).
           let response = answer_of (handler (the (operation_of (ih_operation parsed))) (map chr payload)) in
           frame (ih_operation parsed OR 0x8000) (ih_request parsed) (ir_status response) (ir_payload response)))) of
        Inl e \<Rightarrow> []
      | Inr output \<Rightarrow> (case lk_answer link of None \<Rightarrow> output | Some sent \<Rightarrow> take sent output))"

text \<open>\<open>next_request\<close>: the number of this request and the next value of the counter.\<close>

definition next_request :: "64 word \<Rightarrow> 64 word \<times> 64 word" where
  "next_request counter = (if counter = 0 then (counter + 1, counter + 2) else (counter, counter + 1))"

definition pipe_request ::
  "link \<Rightarrow> (packet \<Rightarrow> packet) \<Rightarrow> 64 word \<Rightarrow> ipc_operation \<Rightarrow> string \<Rightarrow> error + ipc_response" where
  "pipe_request link server request operation payload =
     bindE (case lk_connect link of None \<Rightarrow> Inr () | Some e \<Rightarrow> Inl e) (\<lambda>_.
     bindE (frame (operation_code operation) request 0 payload) (\<lambda>output.
     bindE (case lk_request link of None \<Rightarrow> Inr () | Some e \<Rightarrow> Inl e) (\<lambda>_.
     bindE (receive (lk_client_header link) 20 (server output)) (\<lambda>(header, stream).
     bindE (parse_ipc_header header True) (\<lambda>parsed.
     if ih_operation parsed \<noteq> operation_code operation OR 0x8000 \<or> ih_request parsed \<noteq> request
     then Inl (ipc_protocol ''Mismatched IPC response'')
     else
       bindE (receive (lk_client_body link) (unat (ih_length parsed)) stream) (\<lambda>(body, stream).
       Inr \<lparr>ir_status = get32 body 0, ir_payload = map chr (drop 4 body)\<rparr>))))))"

section \<open>Facts\<close>

lemma le_lengths [simp]: "length (put16 a) = 2" "length (put32 b) = 4" "length (put64 c) = 8"
  by (simp_all add: put16_def put32_def put64_def)

lemma upt_8: "[0 ..< 8] = [0, 1, 2, 3, 4, 5, 6, 7 :: nat]" "[0 ..< 4] = [0, 1, 2, 3 :: nat]"
  by (simp_all add: upt_rec)

lemma fold_bytes:
  "bit (fold (\<lambda>i v. v OR push_bit (i * 8) (ucast (f i :: byte))) is (a :: 'a :: len word)) n \<longleftrightarrow>
     bit a n \<or> (n < LENGTH('a) \<and> (\<exists>i \<in> set is. i * 8 \<le> n \<and> bit (f i) (n - i * 8)))"
  by (induction "is" arbitrary: a) (auto simp: bit_simps)


lemma bit_byte: "bit (b :: byte) n \<Longrightarrow> n < 8"
  by (drule bit_imp_le_length) simp

lemma byte_at_bit:
  "(\<exists>i \<in> set [0 ..< k]. i * 8 \<le> n \<and> bit (f i :: byte) (n - i * 8)) \<longleftrightarrow> n div 8 < k \<and> bit (f (n div 8)) (n mod 8)"
proof
  assume "\<exists>i \<in> set [0 ..< k]. i * 8 \<le> n \<and> bit (f i) (n - i * 8)"
  then obtain i where i: "i < k" "i * 8 \<le> n" "bit (f i) (n - i * 8)" by auto
  define r where "r = n - i * 8"
  have "r < 8" "n = r + i * 8" using i(2,3) by (auto simp: r_def dest: bit_byte)
  then have "n div 8 = i" "n mod 8 = r" by simp_all
  with i show "n div 8 < k \<and> bit (f (n div 8)) (n mod 8)" by (simp add: r_def)
next
  assume h: "n div 8 < k \<and> bit (f (n div 8)) (n mod 8)"
  moreover have "n - n div 8 * 8 = n mod 8" by (simp add: minus_div_mult_eq_mod)
  ultimately show "\<exists>i \<in> set [0 ..< k]. i * 8 \<le> n \<and> bit (f i) (n - i * 8)"
    by (intro bexI [of _ "n div 8"]) auto
qed

lemma get_bits:
  "bit (fold (\<lambda>i v. v OR push_bit (i * 8) (ucast (f i :: byte))) [0 ..< k] (0 :: 'a :: len word)) n \<longleftrightarrow>
     n < LENGTH('a) \<and> n div 8 < k \<and> bit (f (n div 8)) (n mod 8)"
  unfolding fold_bytes byte_at_bit by simp

lemma bit_part: "bit (ucast (drop_bit (i * 8) v) :: byte) m \<longleftrightarrow> m < 8 \<and> bit (v :: 'a :: len word) (i * 8 + m)"
  by (auto simp: bit_simps dest: bit_imp_le_length)

lemma get16_put16: "get16 (xs @ put16 v @ ys) (length xs) = v"
proof -
  have n: "(xs @ put16 v @ ys) ! length xs = ucast v" "(xs @ put16 v @ ys) ! (length xs + 1) = ucast (drop_bit 8 v)"
    by (simp_all add: put16_def nth_append)
  show ?thesis unfolding get16_def n by (rule bit_word_eqI) (auto simp: bit_simps)
qed

lemma get32_put32: "get32 (xs @ put32 v @ ys) (length xs) = v"
proof (rule bit_word_eqI)
  fix n assume n: "n < LENGTH(32)"
  then have d: "n div 8 < 4" by simp
  then have "(xs @ put32 v @ ys) ! (length xs + n div 8) = ucast (drop_bit (n div 8 * 8) v)"
    by (simp add: nth_append put32_def)
  then show "bit (get32 (xs @ put32 v @ ys) (length xs)) n = bit v n"
    unfolding get32_def get_bits using n d by (simp add: bit_part)
qed

lemma get64_put64: "get64 (xs @ put64 v @ ys) (length xs) = v"
proof (rule bit_word_eqI)
  fix n assume n: "n < LENGTH(64)"
  then have d: "n div 8 < 8" by simp
  then have "(xs @ put64 v @ ys) ! (length xs + n div 8) = ucast (drop_bit (n div 8 * 8) v)"
    by (simp add: nth_append put64_def)
  then show "bit (get64 (xs @ put64 v @ ys) (length xs)) n = bit v n"
    unfolding get64_def get_bits using n d by (simp add: bit_part)
qed

lemma put_get:
  "start + 2 \<le> length p \<Longrightarrow> put16 (get16 p start) = take 2 (drop start p)"
  "start + 4 \<le> length p \<Longrightarrow> put32 (get32 p start) = take 4 (drop start p)"
  "start + 8 \<le> length p \<Longrightarrow> put64 (get64 p start) = take 8 (drop start p)"
proof -
  assume l: "start + 2 \<le> length p"
  have "(ucast (get16 p start) :: byte) = p ! start" "(ucast (drop_bit 8 (get16 p start)) :: byte) = p ! (start + 1)"
    by (rule bit_word_eqI, auto simp: get16_def bit_simps dest: bit_byte)+
  then show "put16 (get16 p start) = take 2 (drop start p)"
    using l by (simp add: put16_def take_Suc_conv_app_nth numeral_2_eq_2)
next
  assume l: "start + 4 \<le> length p"
  show "put32 (get32 p start) = take 4 (drop start p)"
  proof (rule nth_equalityI)
    fix i assume "i < length (put32 (get32 p start))"
    then have i: "i < 4" by simp
    have "(ucast (drop_bit (i * 8) (get32 p start)) :: byte) = p ! (start + i)"
      using i by (intro bit_word_eqI) (simp add: bit_part get32_def get_bits)
    then show "put32 (get32 p start) ! i = take 4 (drop start p) ! i"
      using i l by (simp add: put32_def)
  qed (use l in simp)
next
  assume l: "start + 8 \<le> length p"
  show "put64 (get64 p start) = take 8 (drop start p)"
  proof (rule nth_equalityI)
    fix i assume "i < length (put64 (get64 p start))"
    then have i: "i < 8" by simp
    have "(ucast (drop_bit (i * 8) (get64 p start)) :: byte) = p ! (start + i)"
      using i by (intro bit_word_eqI) (simp add: bit_part get64_def get_bits)
    then show "put64 (get64 p start) ! i = take 8 (drop start p) ! i"
      using i l by (simp add: put64_def)
  qed (use l in simp)
qed

text \<open>The bytes of a header and what the parser accepts.\<close>

definition header_bytes :: "ipc_header \<Rightarrow> packet" where
  "header_bytes h = put32 ipc_magic @ put16 1 @ put16 (ih_operation h) @ put64 (ih_request h) @ put32 (ih_length h)"

definition header_ok :: "ipc_header \<Rightarrow> bool \<Rightarrow> bool" where
  "header_ok h response \<longleftrightarrow>
     ih_request h \<noteq> 0 \<and> ih_operation h AND 0x7fff \<noteq> 0 \<and> ih_operation h AND 0x7fff \<le> 11 \<and>
     (ih_operation h AND 0x8000 \<noteq> 0) = response \<and>
     (if response then 4 \<le> ih_length h \<and> ih_length h \<le> ipc_max_payload + 4 else ih_length h \<le> ipc_max_payload)"

lemma length_header_bytes [simp]: "length (header_bytes h) = 20"
  by (simp add: header_bytes_def)

lemma header_fields:
  "get32 (header_bytes h @ rest) 0 = ipc_magic" "get16 (header_bytes h @ rest) 4 = 1"
  "get16 (header_bytes h @ rest) 6 = ih_operation h" "get64 (header_bytes h @ rest) 8 = ih_request h"
  "get32 (header_bytes h @ rest) 16 = ih_length h"
  using get32_put32 [of "[]"] get16_put16 [of "put32 ipc_magic"] get16_put16 [of "put32 ipc_magic @ put16 1"]
    get64_put64 [of "put32 ipc_magic @ put16 1 @ put16 (ih_operation h)"]
    get32_put32 [of "put32 ipc_magic @ put16 1 @ put16 (ih_operation h) @ put64 (ih_request h)"]
  by (simp_all add: header_bytes_def)

lemma header_split:
  assumes "length bytes = 20"
  shows "bytes = put32 (get32 bytes 0) @ put16 (get16 bytes 4) @ put16 (get16 bytes 6) @ put64 (get64 bytes 8) @ put32 (get32 bytes 16)"
proof -
  have "bytes = take 4 bytes @ take 2 (drop 4 bytes) @ take 2 (drop 6 bytes) @ take 8 (drop 8 bytes) @ take 4 (drop 16 bytes)"
    using assms append_take_drop_id [of 4 bytes] append_take_drop_id [of 2 "drop 4 bytes"]
      append_take_drop_id [of 2 "drop 6 bytes"] append_take_drop_id [of 8 "drop 8 bytes"] by simp
  then show ?thesis using assms by (simp add: put_get)
qed

lemma parse_header_iff:
  "parse_ipc_header bytes response = Inr h \<longleftrightarrow> bytes = header_bytes h \<and> header_ok h response"
proof
  assume p: "parse_ipc_header bytes response = Inr h"
  then have l: "length bytes = 20" by (auto simp: parse_ipc_header_def split: if_splits)
  from p l show "bytes = header_bytes h \<and> header_ok h response"
    using header_split [OF l]
    by (auto simp: parse_ipc_header_def header_bytes_def header_ok_def Let_def not_less split: if_splits)
next
  assume "bytes = header_bytes h \<and> header_ok h response"
  then show "parse_ipc_header bytes response = Inr h"
    using header_fields [of h "[]"]
    by (auto simp: parse_ipc_header_def header_ok_def Let_def not_less split: if_splits)
qed


section \<open>A request and its answer\<close>

lemma operation_of_code [simp]: "operation_of (operation_code o') = Some o'"
  by (cases o') (simp_all add: operation_of_def)

lemma operation_of_range: "(\<exists>o'. operation_of w = Some o') \<longleftrightarrow> 1 \<le> w \<and> w \<le> 11"
proof
  assume "\<exists>o'. operation_of w = Some o'"
  then obtain o' where "operation_code o' = w" unfolding operation_of_def find_Some_iff by blast
  then show "1 \<le> w \<and> w \<le> 11" by (cases o') auto
next
  assume "1 \<le> w \<and> w \<le> 11"
  then have "unat w \<in> {1 .. 11}" by (auto simp: word_le_nat_alt)
  then have "unat w \<in> set [1 ..< 12]" by auto
  then have "w \<in> word_of_nat ` set [1 ..< 12]" by (intro image_eqI [of _ _ "unat w"]) simp_all
  then have "w \<in> {1, 2, 3, 4, 5, 6, 7, 8, 9, 10, 11}" by (simp add: upt_rec)
  then show "\<exists>o'. operation_of w = Some o'" by (auto simp: operation_of_def)
qed

lemma operation_bits:
  "operation_code o' AND 0x7fff = operation_code o'" "operation_code o' AND 0x8000 = 0"
  "(operation_code o' OR 0x8000) AND 0x7fff = operation_code o'" "(operation_code o' OR 0x8000) AND 0x8000 = 0x8000"
  "operation_code o' \<noteq> 0" "operation_code o' \<le> 11"
  by (cases o'; simp)+

lemma max_payload: "unat ipc_max_payload = 1048576" "unat (ipc_max_payload + 4) = 1048580"
  by (simp_all add: ipc_max_payload_def)

lemma unat_small32: "n \<le> 1048580 \<Longrightarrow> unat (word_of_nat n :: 32 word) = n"
  by (simp add: unsigned_of_nat take_bit_nat_eq_self)

lemma frame_request:
  fixes o' :: ipc_operation
  assumes "length payload \<le> unat ipc_max_payload" and "request \<noteq> 0"
  defines "h \<equiv> \<lparr>ih_operation = operation_code o', ih_request = request, ih_length = word_of_nat (length payload)\<rparr>"
  shows "frame (operation_code o') request 0 payload = Inr (header_bytes h @ map ord payload)"
    and "header_ok h False" and "unat (ih_length h) = length payload"
proof -
  have l: "unat (word_of_nat (length payload) :: 32 word) = length payload"
    using assms(1) by (intro unat_small32) (simp add: max_payload)
  then show "unat (ih_length h) = length payload" by (simp only: h_def ipc_header.simps)
  show "frame (operation_code o') request 0 payload = Inr (header_bytes h @ map ord payload)"
    using assms(1) by (simp add: frame_def header_bytes_def h_def operation_bits)
  have "ih_length h \<le> ipc_max_payload"
    using assms(1) l by (simp only: h_def ipc_header.simps word_le_nat_alt)
  then show "header_ok h False" using assms(2) by (simp add: header_ok_def h_def operation_bits)
qed

lemma frame_response:
  fixes o' :: ipc_operation and status :: "32 word"
  assumes "length payload \<le> unat ipc_max_payload" and "request \<noteq> 0"
  defines "h \<equiv> \<lparr>ih_operation = operation_code o' OR 0x8000, ih_request = request, ih_length = word_of_nat (4 + length payload)\<rparr>"
  shows "frame (operation_code o' OR 0x8000) request status payload =
      Inr (header_bytes h @ put32 status @ map ord payload)"
    and "header_ok h True" and "unat (ih_length h) = 4 + length payload"
proof -
  have l: "unat (word_of_nat (4 + length payload) :: 32 word) = 4 + length payload"
    using assms(1) by (intro unat_small32) (simp add: max_payload)
  then show "unat (ih_length h) = 4 + length payload" by (simp only: h_def ipc_header.simps)
  show "frame (operation_code o' OR 0x8000) request status payload = Inr (header_bytes h @ put32 status @ map ord payload)"
    using assms(1) by (simp add: frame_def header_bytes_def h_def operation_bits)
  have "4 \<le> ih_length h \<and> ih_length h \<le> ipc_max_payload + 4"
    using assms(1) l by (simp only: h_def ipc_header.simps word_le_nat_alt max_payload) simp
  then show "header_ok h True" using assms(2) by (simp add: header_ok_def h_def operation_bits)
qed

text \<open>What a server without interruptions answers, and how much of it is sent.\<close>

definition answer_frame :: "(ipc_operation \<Rightarrow> string \<Rightarrow> handled) \<Rightarrow> 64 word \<Rightarrow> ipc_operation \<Rightarrow> string \<Rightarrow> error + packet" where
  "answer_frame handler request operation payload =
     (let r = answer_of (handler operation payload) in
      frame (operation_code operation OR 0x8000) request (ir_status r) (ir_payload r))"

lemma receive_Inr:
  "receive fault n stream = Inr (bytes, rest) \<Longrightarrow> n \<le> length stream \<and> bytes = take n stream \<and> rest = drop n stream"
  by (auto simp: receive_def split: if_splits option.splits)

lemma serve_framed:
  assumes "header_ok h False" and "unat (ih_length h) = length payload" and "ih_operation h = operation_code o'"
  shows "serve_connection link handler (header_bytes h @ map ord payload) = [] \<or>
      (\<exists>output. answer_frame handler (ih_request h) o' payload = Inr output \<and>
        serve_connection link handler (header_bytes h @ map ord payload) =
          (case lk_answer link of None \<Rightarrow> output | Some sent \<Rightarrow> take sent output))"
    and "serve_connection whole_link handler (header_bytes h @ map ord payload) =
      (case answer_frame handler (ih_request h) o' payload of Inl e \<Rightarrow> [] | Inr output \<Rightarrow> output)"
proof -
  have p: "parse_ipc_header (header_bytes h) False = Inr h" using assms(1) by (simp add: parse_header_iff)
  have m: "map chr (map ord payload) = payload" by (simp add: comp_def)
  have r: "receive fault 20 (header_bytes h @ map ord payload) = Inr (header_bytes h, map ord payload) \<or>
      (\<exists>e. fault = Some e \<and> receive fault 20 (header_bytes h @ map ord payload) = Inl e)" for fault
    by (cases fault) (simp_all add: receive_def)
  have q: "receive fault (length payload) (map ord payload) = Inr (map ord payload, []) \<or>
      (\<exists>e. fault = Some e \<and> receive fault (length payload) (map ord payload) = Inl e)" for fault
    by (cases fault) (simp_all add: receive_def)
  show "serve_connection link handler (header_bytes h @ map ord payload) = [] \<or>
      (\<exists>output. answer_frame handler (ih_request h) o' payload = Inr output \<and>
        serve_connection link handler (header_bytes h @ map ord payload) =
          (case lk_answer link of None \<Rightarrow> output | Some sent \<Rightarrow> take sent output))"
    using r [of "lk_server_header link"] q [of "lk_server_payload link"] p m assms(2,3)
    by (auto simp: serve_connection_def answer_frame_def Let_def split: sum.splits)
  show "serve_connection whole_link handler (header_bytes h @ map ord payload) =
      (case answer_frame handler (ih_request h) o' payload of Inl e \<Rightarrow> [] | Inr output \<Rightarrow> output)"
    using r [of None] q [of None] p m assms(2,3)
    by (simp add: serve_connection_def answer_frame_def whole_link_def Let_def split: sum.split)
qed

text \<open>What the client makes of the bytes it gets: a whole answer, or an error.\<close>

lemma answer_read:
  assumes "answer_frame handler request operation payload = Inr output" "request \<noteq> 0"
    and "length payload \<le> unat ipc_max_payload" "lk_connect link = None" "lk_request link = None"
  defines "r \<equiv> answer_of (handler operation payload)"
  shows "server (header_bytes \<lparr>ih_operation = operation_code operation, ih_request = request,
      ih_length = word_of_nat (length payload)\<rparr> @ map ord payload) = take sent output \<Longrightarrow>
    pipe_request link server request operation payload = Inr x \<Longrightarrow> x = r"
    and "server (header_bytes \<lparr>ih_operation = operation_code operation, ih_request = request,
      ih_length = word_of_nat (length payload)\<rparr> @ map ord payload) = output \<Longrightarrow>
    lk_client_header link = None \<Longrightarrow> lk_client_body link = None \<Longrightarrow>
    pipe_request link server request operation payload = Inr r"
proof -
  note q = frame_request [OF assms(3,2), where o' = operation]
  have small: "length (ir_payload r) \<le> unat ipc_max_payload"
    using assms(1) by (auto simp: answer_frame_def frame_def r_def Let_def split: if_splits)
  let ?h = "\<lparr>ih_operation = operation_code operation OR 0x8000, ih_request = request,
    ih_length = word_of_nat (4 + length (ir_payload r))\<rparr>"
  note a = frame_response(1) [OF small assms(2), where o' = operation and status = "ir_status r"]
    frame_response(2,3) [OF small assms(2), where o' = operation]
  have out: "output = header_bytes ?h @ put32 (ir_status r) @ map ord (ir_payload r)"
    using assms(1) a(1) by (simp add: answer_frame_def r_def Let_def)
  have parsed: "parse_ipc_header (header_bytes ?h) True = Inr ?h" using a(2) by (simp only: parse_header_iff)
  have status: "get32 (put32 (ir_status r) @ xs) 0 = ir_status r" for xs using get32_put32 [of "[]"] by simp
  note request = assms(4,5) q(1)
  {
    assume s: "server (header_bytes \<lparr>ih_operation = operation_code operation, ih_request = request,
        ih_length = word_of_nat (length payload)\<rparr> @ map ord payload) = take sent output"
      and x: "pipe_request link server request operation payload = Inr x"
    from x s request obtain header stream h body rest where
      one: "receive (lk_client_header link) 20 (take sent output) = Inr (header, stream)"
        "parse_ipc_header header True = Inr h"
      and two: "receive (lk_client_body link) (unat (ih_length h)) stream = Inr (body, rest)"
        "x = \<lparr>ir_status = get32 body 0, ir_payload = map chr (drop 4 body)\<rparr>"
      by (auto simp: pipe_request_def split: if_splits)
    from receive_Inr [OF one(1)] have "20 \<le> sent" "header = take 20 output" "stream = drop 20 (take sent output)"
      by (simp_all add: min_def split: if_splits)
    then have "header = header_bytes ?h" using out by simp
    with one(2) parsed have h: "h = ?h" by simp
    have "body = put32 (ir_status r) @ map ord (ir_payload r)"
      using receive_Inr [OF two(1)] a(3) h out \<open>stream = drop 20 (take sent output)\<close> \<open>20 \<le> sent\<close>
      by (auto simp: drop_take min_def split: if_splits)
    with two(2) show "x = r" by (simp add: status comp_def)
  }
  show "pipe_request link server request operation payload = Inr r"
    if "server (header_bytes \<lparr>ih_operation = operation_code operation, ih_request = request,
        ih_length = word_of_nat (length payload)\<rparr> @ map ord payload) = output"
      "lk_client_header link = None" "lk_client_body link = None"
    using that request parsed a(3) out
    by (simp add: pipe_request_def receive_def status comp_def)
qed

lemma frame_too_long:
  "length payload > unat ipc_max_payload \<Longrightarrow>
     frame operation request status payload = Inl (Error ''IPC_LIMIT'' ''IPC payload exceeds 1 MiB'')"
  by (simp add: frame_def)

lemma answer_frame_long:
  "answer_frame handler request operation payload = Inl e \<longleftrightarrow>
     length (ir_payload (answer_of (handler operation payload))) > unat ipc_max_payload \<and>
     e = Error ''IPC_LIMIT'' ''IPC payload exceeds 1 MiB''"
  by (auto simp: answer_frame_def frame_def Let_def)

lemma exchange_answer:
  assumes "request \<noteq> 0" and "length payload \<le> unat ipc_max_payload"
  shows "pipe_request whole_link (serve_connection whole_link handler) request operation payload =
    (let r = answer_of (handler operation payload) in
     if length (ir_payload r) \<le> unat ipc_max_payload then Inr r
     else Inl (Error ''IPC_IO'' ''IPC peer closed connection''))"
proof -
  note q = frame_request [OF assms(2,1), where o' = operation]
  have link: "lk_connect whole_link = None" "lk_request whole_link = None" "lk_client_header whole_link = None"
    "lk_client_body whole_link = None" by (simp_all add: whole_link_def)
  note served = serve_framed(2) [OF q(2,3), where o' = operation and handler = handler]
  show ?thesis
  proof (cases "answer_frame handler request operation payload")
    case (Inr bytes)
    then have "length (ir_payload (answer_of (handler operation payload))) \<le> unat ipc_max_payload"
      by (auto simp: answer_frame_def frame_def Let_def split: if_splits)
    with answer_read(2) [OF Inr assms link(1,2) _ link(3,4)] served Inr show ?thesis by (simp add: Let_def)
  next
    case (Inl e)
    with served q(1) link show ?thesis
      by (simp add: answer_frame_long pipe_request_def receive_def Let_def not_le)
  qed
qed

lemma exchange_sound:
  assumes "request \<noteq> 0" "pipe_request link (serve_connection link' handler) request operation payload = Inr x"
  shows "x = answer_of (handler operation payload)" and "length payload \<le> unat ipc_max_payload"
    and "length (ir_payload x) \<le> unat ipc_max_payload"
proof -
  show payload: "length payload \<le> unat ipc_max_payload"
  proof (rule ccontr)
    assume "\<not> length payload \<le> unat ipc_max_payload"
    then show False using assms(2) frame_too_long [of payload] by (auto simp: pipe_request_def split: option.splits)
  qed
  note q = frame_request [OF payload assms(1), where o' = operation]
  let ?request = "header_bytes \<lparr>ih_operation = operation_code operation, ih_request = request,
      ih_length = word_of_nat (length payload)\<rparr> @ map ord payload"
  have link: "lk_connect link = None" "lk_request link = None"
    using assms(2) q(1) by (auto simp: pipe_request_def split: option.splits)
  have "serve_connection link' handler ?request \<noteq> []"
    using assms(2) q(1) link by (auto simp: pipe_request_def receive_def split: option.splits)
  with serve_framed(1) [OF q(2,3), where o' = operation and handler = handler and link = link'] obtain bytes where
    out: "answer_frame handler request operation payload = Inr bytes"
      "serve_connection link' handler ?request = (case lk_answer link' of None \<Rightarrow> bytes | Some sent \<Rightarrow> take sent bytes)"
    by auto
  then obtain sent where "serve_connection link' handler ?request = take sent bytes"
    by (cases "lk_answer link'") (auto intro: take_all [symmetric])
  from answer_read(1) [OF out(1) assms(1) payload link this assms(2)]
  show x: "x = answer_of (handler operation payload)" .
  show "length (ir_payload x) \<le> unat ipc_max_payload"
    using out(1) unfolding x by (auto simp: answer_frame_def frame_def Let_def split: if_splits)
qed

text \<open>
  A client that gets an answer gets exactly what the handler returned for its operation and
  payload, an exception as status 1 or 2, wherever the connection is cut.
\<close>

text \<open>Cn: x\<close>

text \<open>C22: A client that gets an answer gets exactly what the handler returned for its operation
  and payload, an exception as status 1 or 2, wherever a deadline, a stop of the server or
  an error of the system cuts the connection; on a connection that is not cut it gets that
  answer, unless its request or the answer is larger than 1 MiB, which is an error.\<close>

theorem ipc_exchange:
  assumes "request \<noteq> 0"
  shows "(pipe_request link (serve_connection link handler) request operation payload = Inr x \<longrightarrow>
      x = answer_of (handler operation payload)) \<and>
    pipe_request whole_link (serve_connection whole_link handler) request operation payload =
      (let r = answer_of (handler operation payload) in
       if length payload > unat ipc_max_payload then Inl (Error ''IPC_LIMIT'' ''IPC payload exceeds 1 MiB'')
       else if length (ir_payload r) \<le> unat ipc_max_payload then Inr r
       else Inl (Error ''IPC_IO'' ''IPC peer closed connection''))"
proof (cases "length payload > unat ipc_max_payload")
  case True
  then show ?thesis using exchange_sound(1) [OF assms] by (auto simp: pipe_request_def whole_link_def frame_too_long)
next
  case False
  then show ?thesis using exchange_answer [OF assms] exchange_sound(1) [OF assms] by auto
qed

text \<open>Whatever bytes arrive, the server answers only well-formed requests, and once.\<close>

theorem server_answers_requests_only:
  "serve_connection link handler stream = [] \<or>
   (\<exists>h payload rest output. stream = header_bytes h @ payload @ rest \<and> header_ok h False \<and>
      length payload = unat (ih_length h) \<and>
      (let r = answer_of (handler (the (operation_of (ih_operation h))) (map chr payload)) in
       frame (ih_operation h OR 0x8000) (ih_request h) (ir_status r) (ir_payload r) = Inr output) \<and>
      prefix (serve_connection link handler stream) output)"
proof (cases "bindE (receive (lk_server_header link) 20 stream) (\<lambda>(header, stream).
    bindE (parse_ipc_header header False) (\<lambda>parsed.
    bindE (receive (lk_server_payload link) (unat (ih_length parsed)) stream) (\<lambda>(payload, stream). Inr (parsed, payload))))")
  case (Inl e)
  then have "serve_connection link handler stream = []"
    by (auto simp: serve_connection_def bindE_Inl_iff case_prod_unfold split: sum.splits)
  then show ?thesis by blast
next
  case (Inr hp)
  obtain h payload where hp: "hp = (h, payload)" by (cases hp)
  then obtain header middle rest where
    one: "receive (lk_server_header link) 20 stream = Inr (header, middle)" "parse_ipc_header header False = Inr h"
      "receive (lk_server_payload link) (unat (ih_length h)) middle = Inr (payload, rest)"
    using Inr by auto
  let ?r = "answer_of (handler (the (operation_of (ih_operation h))) (map chr payload))"
  have served: "serve_connection link handler stream =
      (case frame (ih_operation h OR 0x8000) (ih_request h) (ir_status ?r) (ir_payload ?r) of
         Inl e \<Rightarrow> [] | Inr output \<Rightarrow> (case lk_answer link of None \<Rightarrow> output | Some sent \<Rightarrow> take sent output))"
    using one by (simp add: serve_connection_def Let_def)
  have "stream = header_bytes h @ payload @ rest" "header_ok h False"
    using receive_Inr [OF one(1)] receive_Inr [OF one(3)] one(2) append_take_drop_id [of 20 stream]
      append_take_drop_id [of "unat (ih_length h)" middle]
    by (simp_all add: parse_header_iff)
  moreover have "length payload = unat (ih_length h)" using receive_Inr [OF one(3)] by simp
  moreover have "serve_connection link handler stream = [] \<or>
      (\<exists>output. frame (ih_operation h OR 0x8000) (ih_request h) (ir_status ?r) (ir_payload ?r) = Inr output \<and>
        prefix (serve_connection link handler stream) output)"
    unfolding served by (auto simp: take_is_prefix split: sum.split option.split)
  ultimately show ?thesis unfolding Let_def by blast
qed

theorem ipc_exchange_witness:
  "pipe_request whole_link (serve_connection whole_link (\<lambda>o' payload. Responds \<lparr>ir_status = 0, ir_payload = ''NativeDNS Core API 1''\<rparr>))
     5 Op_ping [] = Inr \<lparr>ir_status = 0, ir_payload = ''NativeDNS Core API 1''\<rparr>"
  using ipc_exchange [of 5 _ "\<lambda>o' payload. Responds \<lparr>ir_status = 0, ir_payload = ''NativeDNS Core API 1''\<rparr>" Op_ping "[]"]
  by (simp add: answer_of_def max_payload)

end
