(* ===== verification/Log_Stream.thy ===== *)
theory Log_Stream
  imports Logger Ipc_Wire
begin

text \<open>
  The live log: the \<open>logs\<close> operation of \<open>CoreHost::handle\<close> (\<open>src/host.cpp\<close>), and its client,
  \<open>NativeDnsWindow::refreshLogs\<close> (\<open>NativeDNS.GUI/qt_app.cpp\<close>) with \<open>decodeLogRecords\<close>
  (\<open>NativeDNS.GUI/log_filter.cpp\<close>).  A \<open>QString\<close> is the list of its UTF-16 units; what the
  client asks of Qt (UTF-8, numbers, dates, regular expressions) is \<open>record qt\<close>.
\<close>

section \<open>The host\<close>

abbreviation (input) tab :: char where "tab \<equiv> CHR 0x09"
abbreviation (input) newline :: char where "newline \<equiv> CHR 0x0A"

record logs_query =
  lq_structured :: bool
  lq_after :: "64 word"
  lq_wait :: nat
  lq_level :: level

definition structured_suffix :: string where
  "structured_suffix = tab # ''structured''"

text \<open>\<open>screen\<close> is the display level of the configuration.\<close>

definition logs_request :: "level \<Rightarrow> string \<Rightarrow> error + logs_query" where
  "logs_request screen payload =
     (let structured = suffix structured_suffix payload;
          text = (if structured then take (length payload - 11) payload else payload);
          sequence = takeWhile (\<lambda>c. c \<noteq> tab) text;
          rest = dropWhile (\<lambda>c. c \<noteq> tab) text;
          wait = takeWhile (\<lambda>c. c \<noteq> tab) (tl rest);
          level_rest = dropWhile (\<lambda>c. c \<noteq> tab) (tl rest) in
      bindE (if sequence = [] then Inr 0
             else case from_chars (2 ^ 64) sequence of
                    Some n \<Rightarrow> Inr n
                  | None \<Rightarrow> Inl (ipc_protocol ''logs payload has invalid sequence'')) (\<lambda>after.
      bindE (if rest = [] then Inr 0
             else case from_chars (2 ^ 64) wait of
                    Some n \<Rightarrow> if n > 1000 then Inl (ipc_protocol ''logs wait must be 0..1000 ms'') else Inr n
                  | None \<Rightarrow> Inl (ipc_protocol ''logs wait must be 0..1000 ms'')) (\<lambda>wait_ms.
      bindE (if level_rest = [] then Inr screen
             else case from_chars (2 ^ 64) (tl level_rest) of
                    Some n \<Rightarrow> if n > 3 then Inl (ipc_protocol ''logs level must be 0..3'') else Inr (of_nat n)
                  | None \<Rightarrow> Inl (ipc_protocol ''logs level must be 0..3'')) (\<lambda>lvl.
      Inr \<lparr>lq_structured = structured, lq_after = of_nat after, lq_wait = wait_ms, lq_level = lvl\<rparr>))))"

definition event_line :: "bool \<Rightarrow> log_event \<Rightarrow> string" where
  "event_line structured e =
     to_string (unat (ev_sequence e)) @ tab # to_string (unat (ev_level e)) @ tab #
     to_string (ev_time e) @ tab # ev_code e @ tab # ev_message e @
     (if structured
      then tab # cx_address (ev_context e) @ tab # cx_dns_type (ev_context e) @ tab #
           cx_rule (ev_context e) @ tab # cx_action (ev_context e)
      else []) @ [newline]"

text \<open>The loop over the events; \<open>written\<close> is what the stream holds.\<close>

definition max_log_reply :: nat where
  "max_log_reply = 1024 * 1024"

fun log_lines :: "bool \<Rightarrow> nat \<Rightarrow> log_event list \<Rightarrow> string" where
  "log_lines structured written [] = []"
| "log_lines structured written (e # es) =
     (let line = event_line structured e in
      if written + length line > max_log_reply then []
      else line @ log_lines structured (written + length line) es)"

text \<open>\<open>later\<close> is the logger at the end of the wait, when the client asked for one.\<close>

definition logs_reply :: "level \<Rightarrow> logger \<Rightarrow> logger \<Rightarrow> string \<Rightarrow> handled" where
  "logs_reply screen s later payload =
     (case logs_request screen payload of
        Inl e \<Rightarrow> Throws e
      | Inr query \<Rightarrow>
          let events =
                (if lq_wait query \<noteq> 0 then wait_snapshot (lq_level query) (lq_after query) s later
                 else log_snapshot (lq_level query) (lq_after query) s) in
          Responds \<lparr>ir_status = 0, ir_payload = log_lines (lq_structured query) 0 events\<rparr>)"

text \<open>The handler of the log endpoint; \<open>handle\<close> is that of the host.\<close>

definition log_endpoint :: "(ipc_operation \<Rightarrow> string \<Rightarrow> handled) \<Rightarrow> ipc_operation \<Rightarrow> string \<Rightarrow> handled" where
  "log_endpoint handle operation payload =
     (if operation \<noteq> Op_logs
      then Throws (ipc_protocol ''Log IPC endpoint only accepts logs operation'')
      else handle operation payload)"

section \<open>The client\<close>

type_synonym qstring = "nat list"

definition lit :: "string \<Rightarrow> qstring" where
  "lit s = map code s"

record qt =
  qt_utf8 :: "string \<Rightarrow> qstring"
  qt_ulonglong :: "qstring \<Rightarrow> nat option"
  qt_longlong :: "qstring \<Rightarrow> int option"
  qt_valid_time :: "int \<Rightarrow> bool"
  qt_now :: int
  qt_route :: "qstring \<Rightarrow> (qstring \<times> qstring \<times> qstring \<times> qstring) option"

record log_record =
  lr_sequence :: nat
  lr_time :: int
  lr_code :: qstring
  lr_message :: qstring
  lr_address :: qstring
  lr_dns_type :: qstring
  lr_rule :: qstring
  lr_action :: qstring
  lr_error :: bool

text \<open>\<open>QString::fromUtf8\<close>, which skips a byte order mark at the start; \<open>qt_utf8\<close> is the rest of it.\<close>

definition byte_order_mark :: string where
  "byte_order_mark = [CHR 0xEF, CHR 0xBB, CHR 0xBF]"

definition from_utf8 :: "qt \<Rightarrow> string \<Rightarrow> qstring" where
  "from_utf8 q text = qt_utf8 q (if prefix byte_order_mark text then drop 3 text else text)"

text \<open>\<open>QString::split\<close> and \<open>QStringList::join\<close>.\<close>

fun split_on :: "'a \<Rightarrow> 'a list \<Rightarrow> 'a list list" where
  "split_on c [] = [[]]"
| "split_on c (x # xs) =
     (if x = c then [] # split_on c xs
      else (x # hd (split_on c xs)) # tl (split_on c xs))"

fun join_with :: "'a \<Rightarrow> 'a list list \<Rightarrow> 'a list" where
  "join_with c [] = []"
| "join_with c [x] = x"
| "join_with c (x # y # xs) = x @ c # join_with c (y # xs)"

text \<open>The fields that are missing are taken from the text of the message.\<close>

definition recover_route :: "qt \<Rightarrow> log_record \<Rightarrow> log_record" where
  "recover_route q r =
     (if lr_address r = [] \<or> lr_dns_type r = [] \<or> lr_rule r = [] \<or> lr_action r = [] then
        (case qt_route q (lr_message r) of
           None \<Rightarrow> r
         | Some (address, dns_type, action, rule) \<Rightarrow>
             r\<lparr>lr_address := (if lr_address r = [] then address else lr_address r),
               lr_dns_type := (if lr_dns_type r = [] then dns_type else lr_dns_type r),
               lr_action := (if lr_action r = [] then action else lr_action r),
               lr_rule := (if lr_rule r = [] then rule else lr_rule r)\<rparr>)
      else r)"

definition decode_line :: "qt \<Rightarrow> qstring \<Rightarrow> log_record option" where
  "decode_line q line =
     (let fields = split_on 9 line in
      if length fields < 4 then None
      else
        case qt_ulonglong q (fields ! 0) of
          None \<Rightarrow> None
        | Some seq \<Rightarrow>
            let milliseconds = (if length fields \<ge> 5 then qt_longlong q (fields ! 2) else None);
                message = (if milliseconds = None then 3 else 4);
                time = (case milliseconds of
                          Some ms \<Rightarrow> if qt_valid_time q ms then ms else qt_now q
                        | None \<Rightarrow> qt_now q);
                explicit = (message = 4 \<and> length fields = 9) in
            Some (recover_route q
              \<lparr>lr_sequence = seq, lr_time = time, lr_code = fields ! (message - 1),
               lr_message = (if explicit then fields ! message else join_with 9 (drop message fields)),
               lr_address = (if explicit then fields ! 5 else []),
               lr_dns_type = (if explicit then fields ! 6 else []),
               lr_rule = (if explicit then fields ! 7 else []),
               lr_action = (if explicit then fields ! 8 else []),
               lr_error = (fields ! 1 = lit ''0'')\<rparr>))"

definition decode_log_records :: "qt \<Rightarrow> qstring \<Rightarrow> log_record list" where
  "decode_log_records q payload =
     concat (map (\<lambda>line. case decode_line q line of None \<Rightarrow> [] | Some r \<Rightarrow> [r])
       (filter (\<lambda>line. line \<noteq> []) (split_on 10 payload)))"

text \<open>\<open>refreshLogs\<close>: the text it gets; the number and the connection of its two requests.\<close>

type_synonym attempt = "link \<times> 64 word"

definition logs_text :: "nat \<Rightarrow> level \<Rightarrow> string" where
  "logs_text seq screen = to_string seq @ tab # ''0'' @ tab # to_string (unat screen)"

definition refresh_logs ::
  "(link \<Rightarrow> packet \<Rightarrow> packet) \<Rightarrow> attempt \<Rightarrow> attempt \<Rightarrow> nat \<Rightarrow> level \<Rightarrow> string" where
  "refresh_logs server first second seq screen =
     (let request = logs_text seq screen;
          ask = (\<lambda>(link, number) text. pipe_request link (server link) number Op_logs text) in
      case bindE (ask first (request @ structured_suffix)) (\<lambda>response.
           if ir_status response \<noteq> 0 then ask second request else Inr response) of
        Inl e \<Rightarrow> []
      | Inr response \<Rightarrow> if ir_status response = 0 then ir_payload response else [])"

text \<open>\<open>appendLogLines\<close>: the records and the next sequence.\<close>

definition append_log_lines :: "qt \<Rightarrow> qstring \<Rightarrow> nat \<Rightarrow> log_record list \<times> nat" where
  "append_log_lines q payload seq =
     (let records = decode_log_records q payload in
      (records, fold (\<lambda>r seq. max seq (lr_sequence r)) records seq))"

text \<open>\<open>isTechnicalLogRecord\<close>.\<close>

definition query_events :: "string list" where
  "query_events =
     [''WINDIVERT_RULE_FAST_PATH'', ''WINDIVERT_TCP_REFLECT'', ''WINDIVERT_UPSTREAM_BYPASS'',
      ''TCP_PROXY_ACCEPT'', ''TCP_PROXY_REJECT'', ''TCP_PROXY_IO'', ''TCP_PROXY_BUSY'',
      ''CAPTIVE_PORTAL_BYPASS'']"

definition is_technical_record :: "log_record \<Rightarrow> bool" where
  "is_technical_record r \<longleftrightarrow>
     lr_address r = [] \<and> lr_dns_type r = [] \<and> lr_action r = [] \<and>
     (lr_code r = lit ''DNS_CACHE_CLEARED'' \<or>
      take 4 (lr_code r) \<noteq> lit ''DNS_'' \<and> lr_code r \<notin> lit ` set query_events)"

end
