(* ===== verification/Log_File.thy ===== *)
theory Log_File
  imports Logger "HOL-Library.Product_Lexorder"
begin

text \<open>
  \<open>src/logger.cpp\<close>, the part on disk: names with time stamps, pruning, rotation, batches of
  lines, and an iteration of the file thread.  The file system is a map from paths to
  contents; \<open>record file_env\<close> is what it answers: whether a file can be opened, how much of a
  write arrives, errors of removing and renaming, the entries of a directory, the local time.
  Paths are those of POSIX.
\<close>

type_synonym log_files = "string \<Rightarrow> string option"

text \<open>\<open>std::tm\<close>, as far as it is used.\<close>

record calendar =
  tm_hour :: nat
  tm_min :: nat
  tm_sec :: nat
  tm_mday :: nat
  tm_mon :: nat
  tm_year :: nat

text \<open>
  \<open>fe_write\<close> is \<open>None\<close> when all of the text arrives, and otherwise the number of bytes that
  do.  The other errors are messages.
\<close>

record file_env =
  fe_open :: "log_files \<Rightarrow> string \<Rightarrow> bool"
  fe_write :: "log_files \<Rightarrow> string \<Rightarrow> string \<Rightarrow> nat option"
  fe_flush :: "log_files \<Rightarrow> string \<Rightarrow> bool"
  fe_remove :: "log_files \<Rightarrow> string \<Rightarrow> string option"
  fe_rename :: "log_files \<Rightarrow> string \<Rightarrow> string \<Rightarrow> string option"
  fe_make_directories :: "log_files \<Rightarrow> string \<Rightarrow> string option"
  fe_entries :: "log_files \<Rightarrow> string \<Rightarrow> string + (string \<times> bool \<times> nat) list"
  fe_local_time :: "nat \<Rightarrow> calendar"
  fe_clock :: "log_files \<Rightarrow> nat"

section \<open>Names\<close>

definition filename :: "string \<Rightarrow> string" where
  "filename path = rev (takeWhile (\<lambda>c. c \<noteq> CHR ''/'') (rev path))"

definition parent_path :: "string \<Rightarrow> string" where
  "parent_path path =
     (let d = rev (dropWhile (\<lambda>c. c \<noteq> CHR ''/'') (rev path));
          e = rev (dropWhile (\<lambda>c. c = CHR ''/'') (rev d)) in
      if e = [] then d else e)"

definition join_path :: "string \<Rightarrow> string \<Rightarrow> string" where
  "join_path directory name =
     (if directory = [] \<or> last directory = CHR ''/'' then directory @ name
      else directory @ ''/'' @ name)"

definition is_timestamped_log_path :: "string \<Rightarrow> bool" where
  "is_timestamped_log_path path =
     (let name = filename path in
      length name = 29 \<and> take 10 name = ''NativeDNS-'' \<and> drop 25 name = ''.log'' \<and>
      name ! 16 = CHR ''-'' \<and>
      list_all is_digit (take 6 (drop 10 name)) \<and> list_all is_digit (take 8 (drop 17 name)))"

text \<open>\<open>std::put_time\<close> with two digits.\<close>

definition two_digits :: "nat \<Rightarrow> string" where
  "two_digits n = [char_of (48 + n div 10 mod 10), char_of (48 + n mod 10)]"

definition stamp_name :: "calendar \<Rightarrow> string" where
  "stamp_name t =
     ''NativeDNS-'' @ two_digits (tm_hour t) @ two_digits (tm_min t) @ two_digits (tm_sec t) @ ''-'' @
     two_digits (tm_mday t) @ two_digits (tm_mon t + 1) @ to_string (tm_year t + 1900) @ ''.log''"

definition timestamped_log_path ::
  "file_env \<Rightarrow> log_files \<Rightarrow> string \<Rightarrow> nat \<Rightarrow> string + string" where
  "timestamped_log_path env files directory started_at =
     (let path = (\<lambda>collision. join_path directory (stamp_name (fe_local_time env (started_at + collision)))) in
      case find (\<lambda>collision. files (path collision) = None) [0 ..< 101] of
        Some collision \<Rightarrow> Inr (path collision)
      | None \<Rightarrow> Inl ''cannot allocate a unique timestamped log file name'')"

section \<open>Pruning\<close>

text \<open>The loop that removes the first file while there are too many.\<close>

fun remove_oldest :: "file_env \<Rightarrow> nat \<Rightarrow> string list \<Rightarrow> log_files \<Rightarrow> string option \<times> log_files" where
  "remove_oldest env keep [] files = (None, files)"
| "remove_oldest env keep (p # ps) files =
     (if length (p # ps) > keep then
        (case fe_remove env files p of
           Some m \<Rightarrow> (Some (''cannot remove old log file: '' @ m), files)
         | None \<Rightarrow> remove_oldest env keep ps (files(p := None)))
      else (None, files))"

definition prune_timestamped_logs ::
  "file_env \<Rightarrow> string \<Rightarrow> nat \<Rightarrow> log_files \<Rightarrow> string option \<times> log_files" where
  "prune_timestamped_logs env directory keep files =
     (case fe_entries env files directory of
        Inl m \<Rightarrow> (Some (''cannot enumerate log files: '' @ m), files)
      | Inr entries \<Rightarrow>
          let logs = filter (\<lambda>(path, regular, modified). regular \<and> is_timestamped_log_path path) entries;
              logs = sort_key (\<lambda>(path, regular, modified). (modified, filename path)) logs in
          remove_oldest env keep (map fst logs) files)"

section \<open>Rotation\<close>

record sink =
  sk_enabled :: bool
  sk_path :: string
  sk_maximum :: "64 word"
  sk_retained :: "32 word"

definition first_sink :: sink where
  "first_sink = \<lparr>sk_enabled = False, sk_path = [], sk_maximum = 4 * 1024 * 1024, sk_retained = 3\<rparr>"

definition log_part :: "string \<Rightarrow> nat \<Rightarrow> string" where
  "log_part path i = (if i = 0 then path else path @ ''.'' @ to_string i)"

text \<open>The loop that shifts the files, from the largest index down.\<close>

fun shift_files :: "file_env \<Rightarrow> string \<Rightarrow> nat \<Rightarrow> log_files \<Rightarrow> string option \<times> log_files" where
  "shift_files env path 0 files = (None, files)"
| "shift_files env path (Suc i) files =
     (let destination = log_part path (Suc i); source = log_part path i in
      if files source \<noteq> None then
        let files = (if fe_remove env files destination = None then files(destination := None) else files) in
        (case fe_rename env files source destination of
           Some m \<Rightarrow> (Some (''cannot rotate log file: '' @ m), files)
         | None \<Rightarrow> shift_files env path i (files(destination := files source, source := None)))
      else shift_files env path i files)"

definition file_bytes :: "log_files \<Rightarrow> string \<Rightarrow> nat" where
  "file_bytes files path = (case files path of Some t \<Rightarrow> length t | None \<Rightarrow> 0)"

definition rotate_file ::
  "file_env \<Rightarrow> nat \<Rightarrow> sink \<Rightarrow> log_files \<Rightarrow> string option \<times> sink \<times> log_files" where
  "rotate_file env incoming sk files =
     (let path = sk_path sk in
      if files path \<noteq> None \<and> file_bytes files path + incoming \<le> unat (sk_maximum sk)
      then (None, sk, files)
      else if is_timestamped_log_path path then
        let directory = parent_path path in
        (case timestamped_log_path env files directory (fe_clock env files) of
           Inl m \<Rightarrow> (Some m, sk, files)
         | Inr fresh \<Rightarrow>
             let (r, files) = prune_timestamped_logs env directory (unat (sk_retained sk)) files in
             (r, sk\<lparr>sk_path := fresh\<rparr>, files))
      else if sk_retained sk = 0 then
        (if fe_open env files path then (None, sk, files(path := Some []))
         else (Some ''cannot truncate log file'', sk, files))
      else
        let (r, files) = shift_files env path (unat (sk_retained sk)) files in (r, sk, files))"

section \<open>Batches\<close>

definition level_name :: "level \<Rightarrow> string" where
  "level_name lvl =
     (if lvl = errors_only then ''ERROR'' else if lvl = normal then ''INFO''
      else if lvl = verbose then ''VERBOSE'' else if lvl = debug then ''DEBUG'' else ''UNKNOWN'')"

definition log_line :: "file_env \<Rightarrow> log_event \<Rightarrow> string" where
  "log_line env e =
     (let t = fe_local_time env (ev_time e div 1000) in
      ''['' @ two_digits (tm_mday t) @ ''.'' @ two_digits (tm_mon t + 1) @ ''.'' @
      to_string (tm_year t + 1900) @ '' '' @ two_digits (tm_hour t) @ '':'' @ two_digits (tm_min t) @
      '':'' @ two_digits (tm_sec t) @ ''] '' @ to_string (unat (ev_sequence e)) @ '' ['' @
      level_name (ev_level e) @ ''] '' @ ev_code e @ '' '' @ ev_message e @ [CHR 0x0D, CHR 0x0A])"

text \<open>Opening for appending when it is not open, and writing a line.\<close>

definition append_text ::
  "file_env \<Rightarrow> bool \<Rightarrow> string \<Rightarrow> string \<Rightarrow> log_files \<Rightarrow> string option \<times> log_files" where
  "append_text env opened path line files =
     (if \<not> opened \<and> \<not> fe_open env files path then (Some ''cannot append log file'', files)
      else
        let old = (case files path of Some t \<Rightarrow> t | None \<Rightarrow> []) in
        (case fe_write env files path line of
           Some n \<Rightarrow> (Some ''cannot append log file'', files(path \<mapsto> old @ take n line))
         | None \<Rightarrow> (None, files(path \<mapsto> old @ line))))"

text \<open>
  The first part of the loop's body: when the line does not fit, the stream is closed and the
  file rotated.  The loop's variables are \<open>opened\<close>, whether the stream is open, and \<open>current\<close>.
\<close>

definition make_room ::
  "file_env \<Rightarrow> bool \<Rightarrow> nat \<Rightarrow> string \<Rightarrow> sink \<Rightarrow> log_files \<Rightarrow>
   string option \<times> bool \<times> nat \<times> sink \<times> log_files" where
  "make_room env opened current line sk files =
     (if current + length line \<le> unat (sk_maximum sk) then (None, opened, current, sk, files)
      else if opened \<and> \<not> fe_flush env files (sk_path sk)
      then (Some ''cannot flush log file'', opened, current, sk, files)
      else
        let (r, sk, files) = rotate_file env (length line) sk files in
        (r, False, file_bytes files (sk_path sk), sk, files))"

fun batch_loop ::
  "file_env \<Rightarrow> bool \<Rightarrow> nat \<Rightarrow> log_event list \<Rightarrow> sink \<Rightarrow> log_files \<Rightarrow> string option \<times> sink \<times> log_files" where
  "batch_loop env opened current [] sk files =
     (if opened \<and> \<not> fe_flush env files (sk_path sk) then (Some ''cannot flush log file'', sk, files)
      else (None, sk, files))"
| "batch_loop env opened current (e # es) sk files =
     (case make_room env opened current (log_line env e) sk files of
        (Some m, _, _, sk, files) \<Rightarrow> (Some m, sk, files)
      | (None, opened, current, sk, files) \<Rightarrow>
          (case append_text env opened (sk_path sk) (log_line env e) files of
             (Some m, files) \<Rightarrow> (Some m, sk, files)
           | (None, files) \<Rightarrow> batch_loop env True (current + length (log_line env e)) es sk files))"

definition write_file_batch ::
  "file_env \<Rightarrow> log_event list \<Rightarrow> sink \<Rightarrow> log_files \<Rightarrow> string option \<times> sink \<times> log_files" where
  "write_file_batch env events sk files =
     batch_loop env False (file_bytes files (sk_path sk)) events sk files"

section \<open>The file thread\<close>

text \<open>The events at the front of the queue, at most \<open>n\<close> of them, and the rest of the queue.\<close>

fun take_events :: "nat \<Rightarrow> file_task list \<Rightarrow> log_event list \<times> file_task list" where
  "take_events (Suc n) (Event_task e # tasks) =
     (let (es, rest) = take_events n tasks in (e # es, rest))"
| "take_events n tasks = ([], tasks)"

record file_world =
  fw_logger :: logger
  fw_sink :: sink
  fw_files :: log_files
  fw_stopped :: bool

text \<open>The body of the branch \<open>configure\<close> and of the branch \<open>clear\<close>.\<close>

definition configure_sink ::
  "file_env \<Rightarrow> bool \<Rightarrow> string \<Rightarrow> 32 word \<Rightarrow> log_files \<Rightarrow> string option \<times> log_files" where
  "configure_sink env enable path retained files =
     (if \<not> enable then (None, files)
      else
        let parent = parent_path path in
        case (if parent \<noteq> [] then fe_make_directories env files parent else None) of
          Some m \<Rightarrow> (Some m, files)
        | None \<Rightarrow>
            if \<not> fe_open env files path then (Some ''cannot open log file'', files)
            else
              let files = (if files path = None then files(path \<mapsto> []) else files) in
              if is_timestamped_log_path path
              then prune_timestamped_logs env parent (unat retained + 1) files
              else (None, files))"

definition clear_sink :: "file_env \<Rightarrow> string \<Rightarrow> log_files \<Rightarrow> string option \<times> log_files" where
  "clear_sink env path files =
     (if path \<noteq> [] \<and> files path \<noteq> None then
        (if \<not> fe_open env files path then (Some ''cannot clear log file'', files)
         else
           let files = files(path \<mapsto> []) in
           if fe_flush env files path then (None, files)
           else (Some ''cannot flush cleared log file'', files))
      else (None, files))"

definition complete :: "nat option \<Rightarrow> string option \<Rightarrow> logger \<Rightarrow> logger" where
  "complete ticket result s =
     (case ticket of Some t \<Rightarrow> s\<lparr>lo_results := (t, result) # lo_results s\<rparr> | None \<Rightarrow> s)"

text \<open>The \<open>catch\<close> block.\<close>

definition task_failed :: "nat \<Rightarrow> nat option \<Rightarrow> string \<Rightarrow> file_world \<Rightarrow> file_world" where
  "task_failed time ticket message w =
     w\<lparr>fw_sink := (fw_sink w)\<lparr>sk_enabled := False\<rparr>,
       fw_logger := complete ticket (Some message)
         (record_file_failure time message ((fw_logger w)\<lparr>lo_file_enabled := False\<rparr>))\<rparr>"

text \<open>One iteration of \<open>file_loop\<close>; with an empty queue, or after a stop, nothing happens.\<close>

definition file_step :: "file_env \<Rightarrow> nat \<Rightarrow> file_world \<Rightarrow> file_world" where
  "file_step env time w =
     (let s = fw_logger w; sk = fw_sink w; files = fw_files w in
      if fw_stopped w then w
      else
        case lo_tasks s of
          [] \<Rightarrow> w
        | task # tasks \<Rightarrow>
            let s = s\<lparr>lo_tasks := tasks\<rparr> in
            (case task of
               Event_task e \<Rightarrow>
                 let (es, rest) = take_events 255 tasks;
                     w = w\<lparr>fw_logger := s\<lparr>lo_tasks := rest\<rparr>\<rparr> in
                 if sk_enabled sk then
                   (case write_file_batch env (e # es) sk files of
                      (None, sk, files) \<Rightarrow> w\<lparr>fw_sink := sk, fw_files := files\<rparr>
                    | (Some m, sk, files) \<Rightarrow> task_failed time None m (w\<lparr>fw_sink := sk, fw_files := files\<rparr>))
                 else w
             | Configure_task enable lvl path maximum retained ticket \<Rightarrow>
                 (case configure_sink env enable path retained files of
                    (Some m, files) \<Rightarrow>
                      task_failed time (Some ticket) m (w\<lparr>fw_logger := s, fw_files := files\<rparr>)
                  | (None, files) \<Rightarrow>
                      w\<lparr>fw_files := files,
                        fw_sink := \<lparr>sk_enabled = enable, sk_path = path, sk_maximum = maximum,
                          sk_retained = retained\<rparr>,
                        fw_logger := complete (Some ticket) None
                          (s\<lparr>lo_file_level := lvl, lo_file_enabled := enable, lo_dropped := 0\<rparr>)\<rparr>)
             | Clear_task ticket \<Rightarrow>
                 (case clear_sink env (sk_path sk) files of
                    (Some m, files) \<Rightarrow>
                      task_failed time (Some ticket) m (w\<lparr>fw_logger := s, fw_files := files\<rparr>)
                  | (None, files) \<Rightarrow>
                      w\<lparr>fw_files := files, fw_logger := complete (Some ticket) None s\<rparr>)
             | Flush_task ticket \<Rightarrow> w\<lparr>fw_logger := complete (Some ticket) None s\<rparr>
             | Stop_task ticket \<Rightarrow> w\<lparr>fw_logger := complete (Some ticket) None s, fw_stopped := True\<rparr>))"

end
