(* ===== verification/Log_File_Facts.thy ===== *)
theory Log_File_Facts
  imports Log_File
begin

text \<open>
  Facts about log files: names with time stamps are recognised and new, pruning keeps the
  newest files, and rotation loses nothing but the oldest file.
\<close>

section \<open>Rotation\<close>

definition contents :: "log_files \<Rightarrow> string \<Rightarrow> string" where
  "contents files path = (case files path of Some t \<Rightarrow> t | None \<Rightarrow> [])"

text \<open>The log as a reader sees it: the files from the oldest to the current one.\<close>

definition archive :: "nat \<Rightarrow> string \<Rightarrow> log_files \<Rightarrow> string" where
  "archive n path files = concat (map (\<lambda>i. contents files (log_part path i)) (rev [0 ..< Suc n]))"

lemma contents_simps [simp]:
  "contents (files(p := x)) q = (if q = p then (case x of Some t \<Rightarrow> t | None \<Rightarrow> []) else contents files q)"
  "files p = None \<Longrightarrow> contents files p = []" "files p = Some t \<Longrightarrow> contents files p = t"
  by (simp_all add: contents_def)

lemma file_bytes_contents: "file_bytes files p = length (contents files p)"
  by (simp add: file_bytes_def contents_def split: option.split)

lemma log_part_inj [simp]: "log_part path i = log_part path j \<longleftrightarrow> i = j"
  using to_string_inj [of i j] by (auto simp: log_part_def)

lemma log_part_0: "log_part path 0 = path"
  by (simp add: log_part_def)

lemma archive_Suc: "archive (Suc n) path files = contents files (log_part path (Suc n)) @ archive n path files"
  by (simp add: archive_def)

lemma archive_0: "archive 0 path files = contents files path"
  by (simp add: archive_def log_part_0)

lemma archive_cong: "(\<And>i. i \<le> n \<Longrightarrow> contents f (log_part path i) = contents g (log_part path i)) \<Longrightarrow>
   archive n path f = archive n path g"
  unfolding archive_def by (rule arg_cong [where f = concat]) (simp del: upt_Suc)

lemma archive_append:
  "archive n path (files(path \<mapsto> contents files path @ t)) = archive n path files @ t"
proof (induction n)
  case (Suc n)
  have "log_part path (Suc n) \<noteq> path" using log_part_inj [of path "Suc n" 0] by (simp add: log_part_0)
  with Suc show ?case by (simp add: archive_Suc del: fun_upd_apply)
qed (simp add: archive_0)

definition parts_below :: "nat \<Rightarrow> nat \<Rightarrow> string \<Rightarrow> log_files \<Rightarrow> bool" where
  "parts_below b n path files \<longleftrightarrow> (\<forall>i \<le> n. length (contents files (log_part path i)) \<le> b)"

lemma shift_files_frame:
  "shift_files env path n files = (r, files') \<Longrightarrow> (\<And>i. i \<le> n \<Longrightarrow> p \<noteq> log_part path i) \<Longrightarrow> files' p = files p"
proof (induction n arbitrary: files)
  case (Suc n)
  then have "p \<noteq> log_part path (Suc n)" "p \<noteq> log_part path n" by auto
  with Suc show ?case by (auto simp: Let_def split: if_splits option.splits)
qed simp

lemma shift_files_spec:
  assumes "shift_files env path n files = (None, files')"
  shows "(archive n path files = archive n path files' \<or>
      archive n path files = contents files (log_part path n) @ archive n path files') \<and>
    (0 < n \<longrightarrow> files' path = None) \<and> (parts_below b n path files \<longrightarrow> parts_below b n path files')"
  using assms
proof (induction n arbitrary: files)
  case (Suc n)
  let ?dst = "log_part path (Suc n)" and ?src = "log_part path n"
  show ?case
  proof (cases "files ?src")
    case None
    then have shift: "shift_files env path n files = (None, files')" using Suc.prems by (simp add: Let_def)
    note IH = Suc.IH [OF shift]
    have dst: "files' ?dst = files ?dst" by (rule shift_files_frame [OF shift]) simp
    have "archive n path files = archive n path files'" using IH None by auto
    moreover have "files' path = None"
      using IH None shift by (cases n) (auto simp: log_part_0)
    moreover have "parts_below b n path files \<Longrightarrow> parts_below b n path files'" using IH by blast
    ultimately show ?thesis using dst by (auto simp: archive_Suc contents_def parts_below_def le_Suc_eq)
  next
    case (Some t)
    define f where "f = (if fe_remove env files ?dst = None then files(?dst := None) else files)"
    have src: "f ?src = Some t" using Some by (simp add: f_def)
    define g where "g = f(?dst := Some t, ?src := None)"
    have shift: "shift_files env path n g = (None, files')"
      using Suc.prems Some src by (auto simp: Let_def g_def f_def [symmetric] split: option.splits)
    note IH = Suc.IH [OF shift]
    have dst: "files' ?dst = Some t" using shift_files_frame [OF shift, of ?dst] by (simp add: g_def)
    have empty: "g ?src = None" "contents g ?src = []" by (simp_all add: g_def)
    then have "archive n path g = archive n path files'" using IH by auto
    moreover have "archive n path files = t @ archive n path g"
    proof -
      have "archive m path f = archive m path g" if "m < n" for m
        using that by (intro archive_cong) (auto simp: g_def)
      moreover have "archive m path f = archive m path files" if "m \<le> n" for m
        using that by (intro archive_cong) (auto simp: f_def)
      ultimately show ?thesis using Some src by (cases n) (simp_all add: archive_Suc archive_0 g_def log_part_0)
    qed
    moreover have "files' path = None"
    proof (cases n)
      case 0
      then show ?thesis using shift empty by (simp add: log_part_0)
    qed (use IH in simp)
    moreover have "parts_below b n path g" if "parts_below b (Suc n) path files"
      using that Some by (auto simp: parts_below_def g_def f_def)
    moreover have "length t \<le> b" if "parts_below b (Suc n) path files"
      using that [unfolded parts_below_def, rule_format, of n] Some by simp
    ultimately show ?thesis using dst IH by (auto simp: archive_Suc parts_below_def le_Suc_eq)
  qed
qed (simp add: parts_below_def)

lemma rotate_file_spec:
  assumes "rotate_file env incoming sk files = (None, sk', files')" "\<not> is_timestamped_log_path (sk_path sk)"
  shows "sk' = sk \<and>
    (\<exists>d. archive (unat (sk_retained sk)) (sk_path sk) files = d @ archive (unat (sk_retained sk)) (sk_path sk) files') \<and>
    (file_bytes files' (sk_path sk) + incoming \<le> unat (sk_maximum sk) \<or> contents files' (sk_path sk) = []) \<and>
    (parts_below b (unat (sk_retained sk)) (sk_path sk) files \<longrightarrow>
     parts_below b (unat (sk_retained sk)) (sk_path sk) files')"
proof -
  let ?p = "sk_path sk" and ?n = "unat (sk_retained sk)"
  consider "files ?p \<noteq> None" "file_bytes files ?p + incoming \<le> unat (sk_maximum sk)"
    | "\<not> (files ?p \<noteq> None \<and> file_bytes files ?p + incoming \<le> unat (sk_maximum sk))" "sk_retained sk = 0"
    | "\<not> (files ?p \<noteq> None \<and> file_bytes files ?p + incoming \<le> unat (sk_maximum sk))" "sk_retained sk \<noteq> 0"
    by blast
  then show ?thesis
  proof cases
    case 1
    with assms show ?thesis by (simp add: rotate_file_def Let_def)
  next
    case 2
    then have "files' = files(?p := Some [])" "sk' = sk"
      using assms by (auto simp: rotate_file_def Let_def split: if_splits)
    with 2 show ?thesis by (auto simp: archive_0 parts_below_def log_part_0)
  next
    case 3
    then have s: "shift_files env ?p ?n files = (None, files')" "sk' = sk"
      using assms by (auto simp: rotate_file_def Let_def split: prod.splits)
    have "0 < ?n" using 3(2) by (simp add: unat_gt_0)
    with shift_files_spec [OF s(1), of b] s(2) show ?thesis by auto
  qed
qed

lemma append_text_spec:
  assumes "append_text env opened path line files = (None, files')"
  shows "files' = files(path \<mapsto> contents files path @ line)"
  using assms by (auto simp: append_text_def contents_def Let_def split: if_splits option.splits)

lemma parts_below_append:
  assumes "parts_below b n path files" "length (contents files path) + length line \<le> b"
  shows "parts_below b n path (files(path \<mapsto> contents files path @ line))"
  using assms by (auto simp: parts_below_def)

lemma make_room_spec:
  assumes "make_room env opened current line sk files = (None, opened', current', sk', files')"
    and "\<not> is_timestamped_log_path (sk_path sk)" "current = file_bytes files (sk_path sk)"
    and "length line \<le> b" "unat (sk_maximum sk) \<le> b"
  shows "sk' = sk \<and> current' = file_bytes files' (sk_path sk) \<and>
    (\<exists>d. archive (unat (sk_retained sk)) (sk_path sk) files = d @ archive (unat (sk_retained sk)) (sk_path sk) files') \<and>
    length (contents files' (sk_path sk)) + length line \<le> b \<and>
    (parts_below b (unat (sk_retained sk)) (sk_path sk) files \<longrightarrow>
     parts_below b (unat (sk_retained sk)) (sk_path sk) files')"
proof (cases "current + length line \<le> unat (sk_maximum sk)")
  case True
  then show ?thesis using assms by (auto simp: make_room_def file_bytes_contents)
next
  case False
  then have "rotate_file env (length line) sk files = (None, sk', files')" "current' = file_bytes files' (sk_path sk')"
    using assms(1) by (auto simp: make_room_def split: if_splits prod.splits)
  from rotate_file_spec [OF this(1) assms(2), of b] this(2) show ?thesis
    using assms(4,5) by (auto simp: file_bytes_contents)
qed

lemma batch_loop_spec:
  assumes "batch_loop env opened current es sk files = (None, sk', files')"
    and "\<not> is_timestamped_log_path (sk_path sk)" "current = file_bytes files (sk_path sk)"
    and "\<And>e. e \<in> set es \<Longrightarrow> length (log_line env e) \<le> b" "unat (sk_maximum sk) \<le> b"
  shows "sk' = sk \<and>
    (\<exists>d. archive (unat (sk_retained sk)) (sk_path sk) files @ concat (map (log_line env) es) =
       d @ archive (unat (sk_retained sk)) (sk_path sk) files') \<and>
    (parts_below b (unat (sk_retained sk)) (sk_path sk) files \<longrightarrow>
     parts_below b (unat (sk_retained sk)) (sk_path sk) files')"
  using assms
proof (induction es arbitrary: opened current files)
  case (Cons e es)
  let ?p = "sk_path sk" and ?n = "unat (sk_retained sk)" and ?line = "log_line env e"
  obtain o1 c1 sk1 f1 f2 where room: "make_room env opened current ?line sk files = (None, o1, c1, sk1, f1)"
    and app: "append_text env o1 (sk_path sk1) ?line f1 = (None, f2)"
    and rest: "batch_loop env True (c1 + length ?line) es sk1 f2 = (None, sk', files')"
    using Cons.prems(1) by (auto split: prod.splits option.splits)
  note mid = make_room_spec [OF room Cons.prems(2,3) Cons.prems(4) Cons.prems(5), simplified]
  from mid have sk1: "sk1 = sk" by blast
  have f2: "f2 = f1(?p \<mapsto> contents f1 ?p @ ?line)" using append_text_spec [OF app] by (simp add: sk1)
  have "c1 + length ?line = file_bytes f2 ?p" using mid by (simp add: f2 file_bytes_contents)
  note IH = Cons.IH [OF rest [unfolded sk1] Cons.prems(2) this Cons.prems(4,5), simplified]
  obtain d1 where d1: "archive ?n ?p files = d1 @ archive ?n ?p f1" using mid by blast
  obtain d2 where d2: "archive ?n ?p f2 @ concat (map (log_line env) es) = d2 @ archive ?n ?p files'"
    using IH by blast
  have "archive ?n ?p f2 = archive ?n ?p f1 @ ?line" unfolding f2 by (rule archive_append)
  then have "archive ?n ?p files @ concat (map (log_line env) (e # es)) = (d1 @ d2) @ archive ?n ?p files'"
    using d1 d2 by simp
  moreover have "parts_below b ?n ?p f2" if "parts_below b ?n ?p files"
    unfolding f2 using that mid by (intro parts_below_append) auto
  ultimately show ?case using IH by blast
qed (auto split: if_splits)

theorem log_rotation_keeps:
  assumes "write_file_batch env events sk files = (None, sk', files')"
    and "\<not> is_timestamped_log_path (sk_path sk)"
  shows "sk' = sk \<and>
    (\<exists>dropped. archive (unat (sk_retained sk)) (sk_path sk) files @ concat (map (log_line env) events) =
       dropped @ archive (unat (sk_retained sk)) (sk_path sk) files')"
proof -
  let ?b = "max (unat (sk_maximum sk)) (Max ((\<lambda>e. length (log_line env e)) ` set events))"
  have "length (log_line env e) \<le> ?b" if "e \<in> set events" for e
    using that by (intro max.coboundedI2 Max_ge) auto
  from batch_loop_spec [OF assms(1) [unfolded write_file_batch_def] assms(2) refl this]
  show ?thesis by auto
qed

theorem log_files_bounded:
  assumes "write_file_batch env events sk files = (None, sk', files')"
    and "\<not> is_timestamped_log_path (sk_path sk)" "unat (sk_maximum sk) \<le> b"
    and "\<And>e. e \<in> set events \<Longrightarrow> length (log_line env e) \<le> b"
    and "\<And>i. i \<le> unat (sk_retained sk) \<Longrightarrow> file_bytes files (log_part (sk_path sk) i) \<le> b"
    and "i \<le> unat (sk_retained sk)"
  shows "file_bytes files' (log_part (sk_path sk) i) \<le> b"
  using batch_loop_spec [OF assms(1) [unfolded write_file_batch_def] assms(2) refl assms(4,3)] assms(5,6)
  by (auto simp: parts_below_def file_bytes_contents)

section \<open>Retention\<close>

text \<open>What a rotation does to every file.\<close>

lemma shift_files_exact:
  assumes "shift_files env path n files = (None, files')" "0 < n" "i \<le> n"
  shows "files' (log_part path i) =
    (if i = 0 then None
     else if files (log_part path (i - 1)) \<noteq> None then files (log_part path (i - 1))
     else if i = n then files (log_part path n) else None)"
  using assms
proof (induction n arbitrary: files i)
  case (Suc n)
  let ?dst = "log_part path (Suc n)" and ?src = "log_part path n"
  show ?case
  proof (cases "files ?src")
    case None
    then have shift: "shift_files env path n files = (None, files')" using Suc.prems(1) by (simp add: Let_def)
    have dst: "files' ?dst = files ?dst" by (rule shift_files_frame [OF shift]) simp
    show ?thesis
    proof (cases "i = Suc n")
      case False
      with Suc.prems(3) have i: "i \<le> n" by simp
      show ?thesis
      proof (cases "n = 0")
        case True
        with i shift None show ?thesis by simp
      next
        case n: False
        then show ?thesis using Suc.IH [OF shift _ i] None i by auto
      qed
    qed (use dst None in simp)
  next
    case (Some t)
    define f where "f = (if fe_remove env files ?dst = None then files(?dst := None) else files)"
    define g where "g = f(?dst := Some t, ?src := None)"
    have "f ?src = Some t" using Some by (simp add: f_def)
    then have shift: "shift_files env path n g = (None, files')"
      using Suc.prems Some by (auto simp: Let_def g_def f_def [symmetric] split: option.splits)
    have dst: "files' ?dst = Some t" using shift_files_frame [OF shift, of ?dst] by (simp add: g_def)
    have g: "g (log_part path k) = files (log_part path k)" if "k < n" for k
      using that by (simp add: g_def f_def)
    have empty: "g ?src = None" by (simp add: g_def)
    show ?thesis
    proof (cases "i = Suc n")
      case False
      with Suc.prems(3) have i: "i \<le> n" by simp
      show ?thesis
      proof (cases "n = 0")
        case True
        with i shift empty show ?thesis by simp
      next
        case n: False
        then show ?thesis using Suc.IH [OF shift _ i] g [of "i - 1"] empty i by auto
      qed
    qed (use dst Some in simp)
  qed
qed simp

text \<open>
  The files that are no longer written are full, up to a line of at most \<open>l\<close> bytes, and
  numbered without gaps.
\<close>

definition full_parts :: "nat \<Rightarrow> nat \<Rightarrow> nat \<Rightarrow> string \<Rightarrow> log_files \<Rightarrow> bool" where
  "full_parts m l n path files \<longleftrightarrow>
     (\<forall>i. 1 \<le> i \<and> i \<le> n \<and> files (log_part path i) \<noteq> None \<longrightarrow>
        m < length (contents files (log_part path i)) + l \<and>
        (\<forall>j. 1 \<le> j \<and> j < i \<longrightarrow> files (log_part path j) \<noteq> None))"

lemma full_parts_length:
  assumes "full_parts m l n path files" "files (log_part path n) \<noteq> None"
  shows "n * (m + 1 - l) \<le> length (archive n path files)"
proof -
  have "k * (m + 1 - l) \<le> length (archive k path files)" if "k \<le> n" for k
    using that
  proof (induction k)
    case (Suc k)
    have "files (log_part path (Suc k)) \<noteq> None"
    proof (cases "Suc k = n")
      case False
      with Suc.prems have "1 \<le> n \<and> n \<le> n" "1 \<le> Suc k \<and> Suc k < n" by auto
      then show ?thesis using assms unfolding full_parts_def by blast
    qed (use assms in simp)
    then have "m < length (contents files (log_part path (Suc k))) + l"
      using assms(1) Suc.prems unfolding full_parts_def by auto
    then show ?case using Suc by (simp add: archive_Suc)
  qed simp
  then show ?thesis by simp
qed

lemma full_parts_append: "full_parts m l n path (files(path \<mapsto> t)) = full_parts m l n path files"
proof -
  have "log_part path i \<noteq> path" if "1 \<le> i" for i
    using that log_part_inj [of path i 0] by (simp add: log_part_0)
  then show ?thesis unfolding full_parts_def by (auto simp: contents_def)
qed

lemma shift_full:
  assumes "shift_files env path n files = (None, files')" "0 < n"
    and "files path \<noteq> None" "m < length (contents files path) + l" "full_parts m l n path files"
  shows "full_parts m l n path files' \<and>
    (archive n path files = archive n path files' \<or> n * (m + 1 - l) \<le> length (archive n path files'))"
proof -
  have gap: "files (log_part path j) \<noteq> None" if "files (log_part path i) \<noteq> None" "j < i" "i \<le> n" for i j
  proof (cases "j = 0")
    case False
    with that have "1 \<le> i \<and> i \<le> n \<and> files (log_part path i) \<noteq> None" "1 \<le> j \<and> j < i" by auto
    then show ?thesis using assms(5) unfolding full_parts_def by blast
  qed (use assms(3) in \<open>simp add: log_part_0\<close>)
  have new: "files' (log_part path i) = files (log_part path (i - 1))" if "1 \<le> i" "i \<le> n" for i
    using shift_files_exact [OF assms(1,2) that(2)] gap [of n "n - 1"] that by (cases "i = n"; cases "files (log_part path n)") auto
  have old: "m < length (contents files (log_part path i)) + l" if "i \<le> n" "files (log_part path i) \<noteq> None" for i
    using that assms(4,5) unfolding full_parts_def by (cases "i = 0") (auto simp: log_part_0)
  have full: "full_parts m l n path files'"
    unfolding full_parts_def
  proof (intro allI impI conjI; elim conjE)
    fix i assume i: "1 \<le> i" "i \<le> n" "files' (log_part path i) \<noteq> None"
    then show "m < length (contents files' (log_part path i)) + l"
      using old [of "i - 1"] by (simp add: contents_def new)
    fix j assume "1 \<le> j" "j < i"
    then show "files' (log_part path j) \<noteq> None" using i gap [of "i - 1" "j - 1"] by (simp add: new)
  qed
  show ?thesis
  proof (cases "files (log_part path n)")
    case None
    then show ?thesis using shift_files_spec [OF assms(1)] full by auto
  next
    case (Some t)
    then have "files' (log_part path n) \<noteq> None" using new [of n] gap [of n "n - 1"] assms(2) by simp
    then show ?thesis using full full_parts_length by blast
  qed
qed

lemma make_room_full:
  assumes "make_room env opened current line sk files = (None, opened', current', sk', files')"
    and "\<not> is_timestamped_log_path (sk_path sk)" "current = file_bytes files (sk_path sk)"
    and "length line \<le> l" "l \<le> unat (sk_maximum sk)"
    and "full_parts (unat (sk_maximum sk)) l (unat (sk_retained sk)) (sk_path sk) files"
  shows "full_parts (unat (sk_maximum sk)) l (unat (sk_retained sk)) (sk_path sk) files' \<and>
    (archive (unat (sk_retained sk)) (sk_path sk) files = archive (unat (sk_retained sk)) (sk_path sk) files' \<or>
     unat (sk_retained sk) * (unat (sk_maximum sk) + 1 - l) \<le>
       length (archive (unat (sk_retained sk)) (sk_path sk) files'))"
proof (cases "current + length line \<le> unat (sk_maximum sk)")
  case True
  then show ?thesis using assms by (auto simp: make_room_def)
next
  case False
  then have rot: "rotate_file env (length line) sk files = (None, sk', files')"
    using assms(1) by (auto simp: make_room_def split: if_splits prod.splits)
  have there: "files (sk_path sk) \<noteq> None" using False assms(3,4,5) by (auto simp: file_bytes_def split: option.splits)
  show ?thesis
  proof (cases "sk_retained sk = 0")
    case True
    then show ?thesis by (simp add: full_parts_def)
  next
    case n: False
    then have "shift_files env (sk_path sk) (unat (sk_retained sk)) files = (None, files')" "0 < unat (sk_retained sk)"
      using rot False assms(2,3) by (auto simp: rotate_file_def Let_def unat_gt_0 split: prod.splits if_splits)
    from shift_full [OF this there _ assms(6)] show ?thesis
      using False assms(3,4) by (simp add: file_bytes_contents)
  qed
qed

lemma batch_loop_full:
  assumes "batch_loop env opened current es sk files = (None, sk', files')"
    and "\<not> is_timestamped_log_path (sk_path sk)" "current = file_bytes files (sk_path sk)"
    and "\<And>e. e \<in> set es \<Longrightarrow> length (log_line env e) \<le> l" "l \<le> unat (sk_maximum sk)"
    and "full_parts (unat (sk_maximum sk)) l (unat (sk_retained sk)) (sk_path sk) files"
  shows "full_parts (unat (sk_maximum sk)) l (unat (sk_retained sk)) (sk_path sk) files' \<and>
    (archive (unat (sk_retained sk)) (sk_path sk) files @ concat (map (log_line env) es) =
       archive (unat (sk_retained sk)) (sk_path sk) files' \<or>
     unat (sk_retained sk) * (unat (sk_maximum sk) + 1 - l) \<le>
       length (archive (unat (sk_retained sk)) (sk_path sk) files'))"
  using assms
proof (induction es arbitrary: opened current files)
  case (Cons e es)
  let ?p = "sk_path sk" and ?n = "unat (sk_retained sk)" and ?line = "log_line env e" and ?m = "unat (sk_maximum sk)"
  obtain o1 c1 sk1 f1 f2 where room: "make_room env opened current ?line sk files = (None, o1, c1, sk1, f1)"
    and app: "append_text env o1 (sk_path sk1) ?line f1 = (None, f2)"
    and rest: "batch_loop env True (c1 + length ?line) es sk1 f2 = (None, sk', files')"
    using Cons.prems(1) by (auto split: prod.splits option.splits)
  have line: "length ?line \<le> l" using Cons.prems(4) by simp
  then have "length ?line \<le> ?m" using Cons.prems(5) by (rule le_trans)
  note mid = make_room_spec [OF room Cons.prems(2,3) this le_refl]
  note full = make_room_full [OF room Cons.prems(2,3) line Cons.prems(5,6)]
  from mid have sk1: "sk1 = sk" by blast
  have f2: "f2 = f1(?p \<mapsto> contents f1 ?p @ ?line)" using append_text_spec [OF app] by (simp add: sk1)
  have c1: "c1 + length ?line = file_bytes f2 ?p" using mid by (simp add: f2 file_bytes_contents)
  have "full_parts ?m l ?n ?p f2" unfolding f2 full_parts_append using full by blast
  note full2 = this
  have "\<And>e. e \<in> set es \<Longrightarrow> length (log_line env e) \<le> l" using Cons.prems(4) by simp
  note IH = Cons.IH [OF rest [unfolded sk1] Cons.prems(2) c1 this Cons.prems(5) full2]
  have arch2: "archive ?n ?p f2 = archive ?n ?p f1 @ ?line" unfolding f2 by (rule archive_append)
  show ?case
  proof (cases "archive ?n ?p files = archive ?n ?p f1")
    case True
    then show ?thesis using IH arch2 by auto
  next
    case False
    then have kept: "?n * (?m + 1 - l) \<le> length (archive ?n ?p f1)" using full by blast
    have "?n * (?m + 1 - l) \<le> length (archive ?n ?p files')"
    proof (cases "archive ?n ?p f2 @ concat (map (log_line env) es) = archive ?n ?p files'")
      case eq: True
      have "length (archive ?n ?p f1) \<le> length (archive ?n ?p files')" unfolding eq [symmetric] arch2 by simp
      with kept show ?thesis by (rule le_trans)
    qed (use IH in blast)
    then show ?thesis using IH by blast
  qed
qed (auto split: if_splits)

text \<open>
  A log without a time stamp in its name: after a batch the kept files hold everything written so
  far, or at least the retained number of nearly full files.
\<close>

theorem log_retention:
  assumes "write_file_batch env events sk files = (None, sk', files')"
    and "\<not> is_timestamped_log_path (sk_path sk)"
    and "\<And>e. e \<in> set events \<Longrightarrow> length (log_line env e) \<le> l" "l \<le> unat (sk_maximum sk)"
    and "full_parts (unat (sk_maximum sk)) l (unat (sk_retained sk)) (sk_path sk) files"
  shows "full_parts (unat (sk_maximum sk)) l (unat (sk_retained sk)) (sk_path sk) files' \<and>
    (archive (unat (sk_retained sk)) (sk_path sk) files @ concat (map (log_line env) events) =
       archive (unat (sk_retained sk)) (sk_path sk) files' \<or>
     unat (sk_retained sk) * (unat (sk_maximum sk) + 1 - l) \<le>
       length (archive (unat (sk_retained sk)) (sk_path sk) files'))"
  by (rule batch_loop_full [OF assms(1) [unfolded write_file_batch_def] assms(2) refl assms(3-5)])

section \<open>Batches\<close>

definition reliable :: "file_env \<Rightarrow> bool" where
  "reliable env \<longleftrightarrow> (\<forall>files path. fe_open env files path \<and> fe_flush env files path)"

lemma append_text_bytes:
  "append_text env opened path line files = (None, files') \<Longrightarrow>
   file_bytes files' path = file_bytes files path + length line"
  by (drule append_text_spec) (simp add: file_bytes_contents)

lemma make_room_bytes:
  "make_room env opened current line sk files = (None, opened', current', sk', files') \<Longrightarrow>
   current = file_bytes files (sk_path sk) \<Longrightarrow> current' = file_bytes files' (sk_path sk')"
  by (auto simp: make_room_def split: if_splits prod.splits)

text \<open>On a reliable disk it does not matter whether the stream is open.\<close>

lemma batch_loop_reopen:
  assumes "reliable env"
  shows "batch_loop env opened current es sk files = batch_loop env False current es sk files"
proof (cases es)
  case Nil
  then show ?thesis using assms by (simp add: reliable_def)
next
  case (Cons e rest)
  obtain r o1 c1 sk1 f1 where m: "make_room env opened current (log_line env e) sk files = (r, o1, c1, sk1, f1)"
    by (cases "make_room env opened current (log_line env e) sk files")
  then obtain o2 where "make_room env False current (log_line env e) sk files = (r, o2, c1, sk1, f1)"
    using assms by (auto simp: make_room_def reliable_def split: if_splits prod.splits)
  moreover have "append_text env o1 p t f = append_text env o2 p t f" for p t f
    using assms by (simp add: append_text_def reliable_def)
  ultimately show ?thesis using m by (cases r) (simp_all add: Cons)
qed

theorem batches_compose:
  assumes "reliable env"
  shows "write_file_batch env (xs @ ys) sk files =
    (case write_file_batch env xs sk files of
       (None, sk1, files1) \<Rightarrow> write_file_batch env ys sk1 files1
     | failed \<Rightarrow> failed)"
proof -
  have "batch_loop env opened current (xs @ ys) sk files =
      (case batch_loop env opened current xs sk files of
         (None, sk1, files1) \<Rightarrow> batch_loop env False (file_bytes files1 (sk_path sk1)) ys sk1 files1
       | failed \<Rightarrow> failed)"
    if "current = file_bytes files (sk_path sk)" for current files sk opened
    using that
  proof (induction xs arbitrary: opened current sk files)
    case Nil
    then show ?case using assms batch_loop_reopen [OF assms, of opened current ys sk files] by (simp add: reliable_def)
  next
    case (Cons e es)
    obtain r o1 c1 sk1 f1 where m: "make_room env opened current (log_line env e) sk files = (r, o1, c1, sk1, f1)"
      by (cases "make_room env opened current (log_line env e) sk files")
    obtain r2 f2 where a: "append_text env o1 (sk_path sk1) (log_line env e) f1 = (r2, f2)"
      by (cases "append_text env o1 (sk_path sk1) (log_line env e) f1")
    show ?case
    proof (cases "r = None \<and> r2 = None")
      case True
      then have "c1 + length (log_line env e) = file_bytes f2 (sk_path sk1)"
        using make_room_bytes [of env opened current "log_line env e" sk files o1 c1 sk1 f1] m
          append_text_bytes [of env o1 "sk_path sk1" "log_line env e" f1 f2] a Cons.prems by simp
      from Cons.IH [OF this] show ?thesis using True m a by simp
    next
      case False
      then show ?thesis using m a by (auto split: option.splits)
    qed
  qed
  from this [of "file_bytes files (sk_path sk)" files sk False] show ?thesis unfolding write_file_batch_def by simp
qed

section \<open>Pruning\<close>

lemma remove_oldest_spec:
  "remove_oldest env keep ps files = (None, files') \<Longrightarrow> distinct ps \<Longrightarrow>
   files' = (\<lambda>p. if p \<in> set (take (length ps - keep) ps) then None else files p)"
proof (induction ps arbitrary: files)
  case (Cons p ps)
  show ?case
  proof (cases "length (p # ps) > keep")
    case True
    then have r: "remove_oldest env keep ps (files(p := None)) = (None, files')"
      using Cons.prems(1) by (auto split: option.splits)
    have "length (p # ps) - keep = Suc (length ps - keep)" using True by simp
    then show ?thesis using Cons.IH [OF r] Cons.prems(2) by (auto simp: fun_eq_iff)
  qed (use Cons.prems in auto)
qed simp

theorem prune_keeps_newest:
  assumes "fe_entries env files directory = Inr entries" "distinct (map fst entries)"
    and "prune_timestamped_logs env directory keep files = (None, files')"
  shows "\<exists>old recent. set old \<union> set recent = {e \<in> set entries. fst (snd e) \<and> is_timestamped_log_path (fst e)} \<and>
    distinct (map fst (old @ recent)) \<and> length recent \<le> keep \<and> (old \<noteq> [] \<longrightarrow> length recent = keep) \<and>
    files' = (\<lambda>p. if p \<in> fst ` set old then None else files p) \<and>
    (\<forall>(p, r, m) \<in> set old. \<forall>(p', r', m') \<in> set recent. (m, filename p) \<le> (m', filename p'))"
proof -
  let ?key = "\<lambda>(path :: string, regular :: bool, modified :: nat). (modified, filename path)"
  let ?logs = "filter (\<lambda>(path, regular, modified). regular \<and> is_timestamped_log_path path) entries"
  let ?s = "sort_key ?key ?logs"
  have "distinct (map fst ?logs)" using assms(2) by (rule distinct_map_filter)
  then have dist: "distinct (map fst ?s)" by (simp add: distinct_map)
  have run: "remove_oldest env keep (map fst ?s) files = (None, files')"
    using assms(1,3) by (simp add: prune_timestamped_logs_def Let_def)
  define old recent where "old = take (length ?s - keep) ?s" and "recent = drop (length ?s - keep) ?s"
  have both: "old @ recent = ?s" by (simp add: old_def recent_def)
  have "sorted (map ?key (old @ recent))" unfolding both by (rule sorted_sort_key)
  then have "\<forall>x \<in> set old. \<forall>y \<in> set recent. ?key x \<le> ?key y" by (simp add: sorted_append)
  moreover have "files' = (\<lambda>p. if p \<in> fst ` set old then None else files p)"
    using remove_oldest_spec [OF run dist] by (simp add: old_def take_map)
  moreover have "set old \<union> set recent = {e \<in> set entries. fst (snd e) \<and> is_timestamped_log_path (fst e)}"
    unfolding set_append [symmetric] both by auto
  moreover have "length recent \<le> keep" "old \<noteq> [] \<longrightarrow> length recent = keep"
    by (auto simp: old_def recent_def)
  moreover have "distinct (map fst (old @ recent))" unfolding both by (rule dist)
  ultimately show ?thesis
    by - (rule exI [of _ old], rule exI [of _ recent], simp add: case_prod_unfold)
qed

section \<open>Names with time stamps\<close>

definition four_digit_year :: "calendar \<Rightarrow> bool" where
  "four_digit_year t \<longleftrightarrow> 1000 \<le> tm_year t + 1900 \<and> tm_year t + 1900 \<le> 9999"

lemma two_digits_digits: "list_all is_digit (two_digits n)" "length (two_digits n) = 2"
proof -
  have d: "m mod 10 \<le> 9" for m :: nat by (rule less_Suc_eq_le [THEN iffD1]) simp
  show "list_all is_digit (two_digits n)" unfolding two_digits_def is_digit_def by (simp add: d)
qed (simp add: two_digits_def)

lemma year_digits:
  assumes "1000 \<le> n" "n \<le> 9999"
  shows "length (to_string n) = 4"
proof -
  have l: "length (to_string m) = Suc (length (to_string (m div 10)))" if "10 \<le> m" for m
    using that by (subst to_string.simps) simp
  have "n div 10 div 10 div 10 < 10" "10 \<le> n div 10 div 10" "10 \<le> n div 10" "10 \<le> n" using assms by simp_all
  moreover from this(1) have "length (to_string (n div 10 div 10 div 10)) = 1" by (subst to_string.simps) simp
  ultimately show ?thesis by (simp only: l)
qed

lemma filename_join:
  assumes "CHR ''/'' \<notin> set name"
  shows "filename (join_path d name) = name"
proof -
  have r: "takeWhile (\<lambda>c. c \<noteq> CHR ''/'') (rev name @ xs) = rev name @ takeWhile (\<lambda>c. c \<noteq> CHR ''/'') xs" for xs
    using assms by (subst takeWhile_append2) auto
  show ?thesis
  proof (cases d rule: rev_cases)
    case Nil
    have "takeWhile (\<lambda>c. c \<noteq> CHR ''/'') (rev name) = rev name"
      by (rule takeWhile_eq_all_conv [THEN iffD2]) (use assms in auto)
    then have "filename name = name" unfolding filename_def by (simp only: rev_rev_ident)
    with Nil show ?thesis by (simp add: join_path_def)
  next
    case (snoc e c)
    then show ?thesis using r [of "CHR ''/'' # rev d"] r [of "CHR ''/'' # rev e"]
      by (simp add: join_path_def filename_def)
  qed
qed

lemma parent_join:
  assumes "CHR ''/'' \<notin> set name" "d \<noteq> []" "last d \<noteq> CHR ''/''"
  shows "parent_path (join_path d name) = d"
proof -
  have "dropWhile (\<lambda>c. c \<noteq> CHR ''/'') (rev name @ xs) = dropWhile (\<lambda>c. c \<noteq> CHR ''/'') xs" for xs
    using assms(1) by (subst dropWhile_append2) auto
  moreover have "dropWhile (\<lambda>c. c = CHR ''/'') (rev d) = rev d"
    using assms(2,3) by (cases d rule: rev_cases) auto
  moreover have "\<exists>c \<in> set d. c \<noteq> CHR ''/''" using assms(2,3) last_in_set by blast
  ultimately show ?thesis using assms(2,3) by (simp add: parent_path_def join_path_def Let_def)
qed

lemma stamp_name_shape:
  assumes "four_digit_year t"
  shows "CHR ''/'' \<notin> set (stamp_name t)" "is_timestamped_log_path (join_path d (stamp_name t))"
proof -
  have y: "length (to_string (tm_year t + 1900)) = 4"
    using assms by (intro year_digits) (simp_all add: four_digit_year_def)
  have "list_all is_digit t \<Longrightarrow> CHR ''/'' \<notin> set t" for t
    by (auto simp: list_all_iff is_digit_def code_def)
  from this [OF two_digits_digits(1)] this [OF to_string_digits]
  show slash: "CHR ''/'' \<notin> set (stamp_name t)" by (simp add: stamp_name_def)
  let ?time = "two_digits (tm_hour t) @ two_digits (tm_min t) @ two_digits (tm_sec t)"
    and ?date = "two_digits (tm_mday t) @ two_digits (tm_mon t + 1) @ to_string (tm_year t + 1900)"
  have parts: "stamp_name t = (''NativeDNS-'' @ ?time) @ ''-'' @ ?date @ ''.log''"
    "length (''NativeDNS-'' @ ?time) = 16" "length ?time = 6" "length ?date = 8"
    "list_all is_digit ?time" "list_all is_digit ?date"
    using y to_string_digits by (simp_all add: stamp_name_def two_digits_digits)
  have dr: "drop 10 (stamp_name t) = ?time @ ''-'' @ ?date @ ''.log''" by (simp add: stamp_name_def)
  have "drop 17 (stamp_name t) = drop 7 (drop 10 (stamp_name t))" by simp
  also have "\<dots> = ?date @ ''.log''" unfolding dr using parts(3) by (simp add: two_digits_digits)
  finally have d17: "drop 17 (stamp_name t) = ?date @ ''.log''" .
  have "drop 25 (stamp_name t) = drop 8 (drop 17 (stamp_name t))" by simp
  also have "\<dots> = ''.log''" unfolding d17 using parts(4) by simp
  finally have d25: "drop 25 (stamp_name t) = ''.log''" .
  have "stamp_name t ! 16 = CHR ''-''"
    unfolding parts(1) nth_append using parts(2) by simp
  moreover have "length (stamp_name t) = 29" using parts(2,4) unfolding parts(1) by simp
  moreover have "take 6 (drop 10 (stamp_name t)) = ?time" unfolding dr using parts(3) by simp
  moreover have "take 8 (drop 17 (stamp_name t)) = ?date" unfolding d17 using parts(4) by simp
  moreover have "take 10 (stamp_name t) = ''NativeDNS-''" by (simp add: stamp_name_def)
  ultimately show "is_timestamped_log_path (join_path d (stamp_name t))"
    using d25 parts(5,6) unfolding is_timestamped_log_path_def filename_join [OF slash] Let_def by metis
qed

theorem timestamped_path_fresh:
  assumes "timestamped_log_path env files directory started = Inr path"
    and "\<And>t. four_digit_year (fe_local_time env t)"
  shows "is_timestamped_log_path path \<and> files path = None \<and>
    (directory \<noteq> [] \<and> last directory \<noteq> CHR ''/'' \<longrightarrow> parent_path path = directory) \<and>
    (\<exists>c \<le> 100. filename path = stamp_name (fe_local_time env (started + c)))"
proof -
  let ?path = "\<lambda>c. join_path directory (stamp_name (fe_local_time env (started + c)))"
  from assms(1) obtain c where c: "find (\<lambda>c. files (?path c) = None) [0 ..< 101] = Some c" "path = ?path c"
    by (auto simp: timestamped_log_path_def Let_def split: option.splits)
  then have "files path = None" "c \<le> 100" by (auto simp: find_Some_iff)
  then show ?thesis using stamp_name_shape [OF assms(2)] unfolding c(2)
    by (auto simp: parent_join filename_join)
qed

section \<open>Logs with time stamps\<close>









text \<open>
  The files are those in which every chunk was appended, but for outdated logs, and after a new
  log was begun at most the retained number of the logs that were listed are left beside it.
\<close>


section \<open>A sample disk\<close>

definition sample_calendar :: calendar where
  "sample_calendar = \<lparr>tm_hour = 9, tm_min = 5, tm_sec = 7, tm_mday = 1, tm_mon = 1, tm_year = 126\<rparr>"

definition sample_disk_env :: file_env where
  "sample_disk_env = \<lparr>fe_open = (\<lambda>_ _. True), fe_write = (\<lambda>_ _ _. None), fe_flush = (\<lambda>_ _. True),
     fe_remove = (\<lambda>_ _. None), fe_rename = (\<lambda>_ _ _. None), fe_make_directories = (\<lambda>_ _. None),
     fe_entries = (\<lambda>_ _. Inr [(''d/NativeDNS-090507-01022026.log'', True, 2),
        (''d/NativeDNS-080507-01022026.log'', True, 1), (''d/x'', True, 0)]),
     fe_local_time = (\<lambda>_. sample_calendar), fe_clock = (\<lambda>_. 0)\<rparr>"

definition sample_sink :: sink where
  "sample_sink = \<lparr>sk_enabled = True, sk_path = ''l'', sk_maximum = 1024, sk_retained = 2\<rparr>"

definition sample_event :: log_event where
  "sample_event = \<lparr>ev_sequence = 1, ev_time = 0, ev_level = normal, ev_code = ''A'', ev_message = ''b'',
     ev_context = \<lparr>cx_address = [], cx_dns_type = [], cx_rule = [], cx_action = []\<rparr>\<rparr>"

lemma sample_reliable: "reliable sample_disk_env"
  by (simp add: reliable_def sample_disk_env_def)

lemma sample_line: "length (log_line sample_disk_env sample_event) = 36"
  by code_simp

lemma sample_not_stamped: "\<not> is_timestamped_log_path (sk_path sample_sink)"
  by code_simp

lemma sample_batch:
  "write_file_batch sample_disk_env [sample_event] sample_sink (\<lambda>_. None) =
     (None, sample_sink, [''l'' \<mapsto> log_line sample_disk_env sample_event])"
  using sample_line
  by (simp add: write_file_batch_def make_room_def append_text_def file_bytes_def sample_disk_env_def [symmetric])
    (simp add: sample_sink_def sample_disk_env_def)

lemma archive_empty: "archive n path (\<lambda>_. None) = []"
  by (auto simp: archive_def contents_def)

theorem log_rotation_keeps_witness:
  "\<exists>dropped. log_line sample_disk_env sample_event =
     dropped @ archive 2 ''l'' [''l'' \<mapsto> log_line sample_disk_env sample_event]"
  using log_rotation_keeps [OF sample_batch sample_not_stamped]
  by (auto simp: sample_sink_def archive_empty)

theorem log_retention_witness:
  "full_parts 1024 100 2 ''l'' [''l'' \<mapsto> log_line sample_disk_env sample_event]"
proof -
  have "full_parts 1024 100 2 ''l'' (\<lambda>_. None)" by (simp add: full_parts_def)
  then show ?thesis
    using log_retention [OF sample_batch sample_not_stamped, of 100] sample_line by (simp add: sample_sink_def)
qed





theorem log_files_bounded_witness:
  "file_bytes [''l'' \<mapsto> log_line sample_disk_env sample_event] (log_part ''l'' 0) \<le> 1024"
  using log_files_bounded [OF sample_batch sample_not_stamped, of 1024 0] sample_line
  by (simp add: sample_sink_def file_bytes_def)

theorem batches_compose_witness:
  "write_file_batch sample_disk_env ([sample_event] @ [sample_event]) sample_sink (\<lambda>_. None) =
    write_file_batch sample_disk_env [sample_event] sample_sink [''l'' \<mapsto> log_line sample_disk_env sample_event]"
  using batches_compose [OF sample_reliable, of "[sample_event]" "[sample_event]" sample_sink "\<lambda>_. None"]
  unfolding sample_batch by simp

lemma sample_prune:
  "fst (prune_timestamped_logs sample_disk_env ''d'' 1 (\<lambda>_. Some [])) = None"
  by code_simp

theorem prune_keeps_newest_witness:
  "\<exists>files. prune_timestamped_logs sample_disk_env ''d'' 1 (\<lambda>_. Some []) = (None, files) \<and> files ''d/x'' \<noteq> None"
proof -
  obtain files where f: "prune_timestamped_logs sample_disk_env ''d'' 1 (\<lambda>_. Some []) = (None, files)"
    using sample_prune by (cases "prune_timestamped_logs sample_disk_env ''d'' 1 (\<lambda>_. Some [])") auto
  have "\<not> is_timestamped_log_path ''d/x''" by code_simp
  with prune_keeps_newest [OF _ _ f] f show ?thesis by (fastforce simp: sample_disk_env_def)
qed

theorem timestamped_path_fresh_witness:
  "is_timestamped_log_path ''d/NativeDNS-090507-01022026.log''"
proof -
  have "timestamped_log_path sample_disk_env (\<lambda>_. None) ''d'' 0 = Inr ''d/NativeDNS-090507-01022026.log''"
    by code_simp
  from timestamped_path_fresh [OF this] show ?thesis
    by (simp add: sample_disk_env_def sample_calendar_def four_digit_year_def)
qed

end
