(* ===== verification/Logger_Facts.thy ===== *)
theory Logger_Facts
  imports Log_File_Facts
begin

text \<open>
  Facts about the logger: callers and the file thread as a step relation and what holds in
  every reachable state, snapshots as the end of the history of events, suppression of
  repeated events, and the promises of the file tasks.
\<close>

section \<open>Callers and the file thread\<close>

text \<open>
  The second component is the events that a caller has recorded and not yet handed to the
  file thread: the two critical sections of \<open>write\<close> are two steps.
\<close>

type_synonym log_world = "file_world \<times> log_event list"

abbreviation with_logger :: "file_world \<Rightarrow> logger \<Rightarrow> file_world" where
  "with_logger w s \<equiv> w\<lparr>fw_logger := s\<rparr>"

inductive log_step :: "file_env \<Rightarrow> log_world \<Rightarrow> log_world \<Rightarrow> bool" for env where
  recorded: "\<lbrakk>enabled lvl (fw_logger w);
     record_event time lvl (clean_text 128 err) (clean_text 4096 message) (clean_context context)
       (fw_logger w) = (e, s)\<rbrakk> \<Longrightarrow>
     log_step env (w, flight) (with_logger w s, e # flight)"
| queued: "s = (if lo_file_enabled (fw_logger w) \<and> enum_le (ev_level e) (lo_file_level (fw_logger w))
          then queue_event time e (fw_logger w) else fw_logger w) \<Longrightarrow>
     log_step env (w, before @ e # after) (with_logger w s, before @ after)"
| limited: "limit_repeated now interval (take 1024 key) (lo_repeated (fw_logger w)) = (r, table) \<Longrightarrow>
     log_step env (w, flight) (with_logger w ((fw_logger w)\<lparr>lo_repeated := table\<rparr>), flight)"
| displayed: "set_display_level lvl (fw_logger w) = Inr s \<Longrightarrow>
     log_step env (w, flight) (with_logger w s, flight)"
| configured: "configure_file enable lvl path maximum retained (fw_logger w) = Inr (ticket, s) \<Longrightarrow>
     log_step env (w, flight) (with_logger w s, flight)"
| emptied: "clear_file (fw_logger w) = (ticket, s) \<Longrightarrow> log_step env (w, flight) (with_logger w s, flight)"
| flushed: "flush_file (fw_logger w) = (ticket, s) \<Longrightarrow> log_step env (w, flight) (with_logger w s, flight)"
| filed: "log_step env (w, flight) (file_step env time w, flight)"

text \<open>All steps: also \<open>clear_display\<close>.\<close>

inductive logger_step :: "file_env \<Rightarrow> log_world \<Rightarrow> log_world \<Rightarrow> bool" for env where
  worked: "log_step env x y \<Longrightarrow> logger_step env x y"
| cleared: "logger_step env (w, flight) (with_logger w (clear_display (fw_logger w)), flight)"

inductive_cases logger_stepE: "logger_step env x y"

definition log_start :: "logger \<Rightarrow> log_files \<Rightarrow> log_world" where
  "log_start s files =
     (\<lparr>fw_logger = s, fw_sink = first_sink, fw_files = files, fw_stopped = False\<rparr>, [])"

text \<open>\<open>write\<close> is its two critical sections, one after the other.\<close>

lemma log_write_steps:
  "(log_step env)\<^sup>*\<^sup>* (w, flight) (with_logger w (log_write time lvl err message context (fw_logger w)), flight)"
proof (cases "enabled lvl (fw_logger w)")
  case True
  obtain e s where e: "record_event time lvl (clean_text 128 err) (clean_text 4096 message) (clean_context context)
      (fw_logger w) = (e, s)" by (cases "record_event time lvl (clean_text 128 err) (clean_text 4096 message)
      (clean_context context) (fw_logger w)")
  then have lvl: "ev_level e = lvl" by (auto simp: record_event_def Let_def)
  have "log_step env (w, flight) (with_logger w s, e # flight)" using True e by (rule recorded)
  moreover have "log_step env (with_logger w s, [] @ e # flight)
      (with_logger (with_logger w s) (log_write time lvl err message context (fw_logger w)), [] @ flight)"
    by (rule queued [where time = time]) (use True e lvl in \<open>simp add: log_write_def\<close>)
  ultimately show ?thesis by (simp add: converse_rtranclp_into_rtranclp)
qed (simp add: log_write_def)

section \<open>Invariants\<close>

definition ring_ok :: "logger \<Rightarrow> bool" where
  "ring_ok s \<longleftrightarrow> length (lo_events s) \<le> lo_capacity s \<and> length (lo_events s) \<le> unat (lo_sequence s) \<and>
     map (\<lambda>e. unat (ev_sequence e)) (lo_events s) =
       [unat (lo_sequence s) + 1 - length (lo_events s) ..< unat (lo_sequence s) + 1]"

definition table_ok :: "(string \<times> repeated) list \<Rightarrow> bool" where
  "table_ok t \<longleftrightarrow> sorted_wrt (<) (map fst t) \<and> length t \<le> 256"

definition tickets :: "file_task list \<Rightarrow> nat list" where
  "tickets tasks = List.map_filter task_ticket tasks"

definition waiting_events :: "file_task list \<Rightarrow> nat" where
  "waiting_events tasks = length (filter (\<lambda>t. task_ticket t = None) tasks)"

definition tickets_ok :: "logger \<Rightarrow> bool" where
  "tickets_ok s \<longleftrightarrow> distinct (map fst (lo_results s) @ tickets (lo_tasks s)) \<and>
     set (map fst (lo_results s) @ tickets (lo_tasks s)) = {..< lo_tickets s}"

text \<open>The number of steps bounds the sequence number, which wraps around only at \<open>2 ^ 64\<close>.\<close>

definition logger_inv :: "nat \<Rightarrow> nat \<Rightarrow> log_world \<Rightarrow> bool" where
  "logger_inv capacity n x \<longleftrightarrow> (case x of (w, flight) \<Rightarrow> let s = fw_logger w in
     lo_capacity s = capacity \<and> 0 < capacity \<and>
     (n < 2 ^ 64 \<longrightarrow> ring_ok s \<and> unat (lo_sequence s) \<le> n) \<and>
     table_ok (lo_repeated s) \<and> waiting_events (lo_tasks s) \<le> 8192 \<and> tickets_ok s \<and>
     (lo_file_enabled s \<longrightarrow> sk_enabled (fw_sink w)))"

lemma tickets_simps [simp]:
  "tickets [] = []" "tickets (t # ts) = (case task_ticket t of None \<Rightarrow> tickets ts | Some i \<Rightarrow> i # tickets ts)"
  "tickets (xs @ ys) = tickets xs @ tickets ys"
  by (simp_all add: tickets_def List.map_filter_def split: option.split)

lemma waiting_events_simps [simp]:
  "waiting_events [] = 0"
  "waiting_events (t # ts) = (if task_ticket t = None then 1 else 0) + waiting_events ts"
  "waiting_events (xs @ ys) = waiting_events xs + waiting_events ys"
  by (simp_all add: waiting_events_def)

lemma waiting_le: "waiting_events ts \<le> length ts"
  by (simp add: waiting_events_def)

lemma take_events_append: "take_events n ts = (es, rest) \<Longrightarrow> ts = map Event_task es @ rest \<and> length es \<le> n"
  by (induction n ts arbitrary: es rule: take_events.induct) (auto split: prod.splits)

lemma event_tasks [simp]: "tickets (map Event_task es) = []" "waiting_events (map Event_task es) = length es"
  by (induction es) simp_all

text \<open>Recording an event keeps the ring.\<close>

lemma record_event_ring:
  assumes "ring_ok s" "0 < lo_capacity s" "unat (lo_sequence s) + 1 < 2 ^ 64"
    and "record_event time lvl err message context s = (e, s')"
  shows "ring_ok s' \<and> unat (lo_sequence s') = unat (lo_sequence s) + 1"
proof -
  let ?n = "unat (lo_sequence s)" and ?k = "length (lo_events s)" and ?q = "\<lambda>e. unat (ev_sequence e)"
  have seq: "unat (lo_sequence s + 1) = ?n + 1" using assms(3) by (simp add: unat_word_ariths)
  have e: "ev_sequence e = lo_sequence s + 1" and s': "lo_sequence s' = lo_sequence s + 1"
    "lo_capacity s' = lo_capacity s"
    "lo_events s' = (if ?k + 1 > lo_capacity s then drop 1 (lo_events s @ [e]) else lo_events s @ [e])"
    using assms(4) by (auto simp: record_event_def Let_def)
  have "map ?q (lo_events s @ [e]) = [?n + 1 - ?k ..< ?n + 1] @ [?n + 1]"
    using assms(1) by (simp add: ring_ok_def e seq)
  also have "\<dots> = [?n + 1 - ?k ..< ?n + 2]" using assms(1) by (simp add: ring_ok_def)
  finally have all: "map ?q (lo_events s @ [e]) = [?n + 1 - ?k ..< ?n + 2]" .
  have k: "?k \<le> lo_capacity s" "?k \<le> ?n" using assms(1) by (simp_all add: ring_ok_def)
  show ?thesis
  proof (cases "?k + 1 > lo_capacity s")
    case True
    have "map ?q (lo_events s') = drop 1 (map ?q (lo_events s @ [e]))" using True unfolding s' drop_map by simp
    also have "\<dots> = [?n + 2 - ?k ..< ?n + 2]"
      unfolding all drop_upt using k by (simp add: Suc_diff_le del: upt_Suc)
    finally have m: "map ?q (lo_events s') = [?n + 2 - ?k ..< ?n + 2]" .
    have "?k = lo_capacity s" using True k by simp
    then have len: "length (lo_events s') = ?k" using assms(2) by (simp add: s'(3))
    show ?thesis using k m by (simp add: ring_ok_def len s'(1,2) seq del: upt_Suc)
  next
    case False
    then have "map ?q (lo_events s') = [?n + 1 - ?k ..< ?n + 2]" using all by (simp add: s')
    then show ?thesis using False k by (simp add: ring_ok_def s' seq)
  qed
qed

text \<open>Every step but \<open>clear_display\<close> leaves the ring as it is or records one event.\<close>

definition same_ring :: "logger \<Rightarrow> logger \<Rightarrow> bool" where
  "same_ring s s' \<longleftrightarrow> lo_capacity s' = lo_capacity s \<and> lo_events s' = lo_events s \<and> lo_sequence s' = lo_sequence s"

definition ring_step :: "logger \<Rightarrow> logger \<Rightarrow> bool" where
  "ring_step s s' \<longleftrightarrow> same_ring s s' \<or>
     (\<exists>time lvl err message context. same_ring (snd (record_event time lvl err message context s)) s')"

lemma same_ring_refl [simp]: "same_ring s s"
  by (simp add: same_ring_def)

lemma same_ring_trans: "same_ring a b \<Longrightarrow> same_ring b c \<Longrightarrow> same_ring a c"
  by (simp add: same_ring_def)

lemma record_event_same:
  "same_ring s s0 \<Longrightarrow> same_ring (snd (record_event time lvl err message context s))
     (snd (record_event time lvl err message context s0))"
  by (simp add: same_ring_def record_event_def Let_def)

text \<open>The file thread and a full queue record nothing, or a failure of the file log.\<close>

definition file_ring :: "logger \<Rightarrow> logger \<Rightarrow> bool" where
  "file_ring s s' \<longleftrightarrow> same_ring s s' \<or> (\<exists>time m. same_ring (record_file_failure time m s) s')"

lemma ring_stepI:
  "same_ring s s' \<Longrightarrow> ring_step s s'"
  "file_ring s s' \<Longrightarrow> ring_step s s'"
  "record_event time lvl err message context s = (e, s') \<Longrightarrow> ring_step s s'"
  unfolding ring_step_def file_ring_def record_file_failure_def by (blast, blast) (metis same_ring_refl snd_conv)

lemma file_ringI:
  "same_ring s s' \<Longrightarrow> file_ring s s'"
  "same_ring s s0 \<Longrightarrow> same_ring (record_file_failure time m s0) s' \<Longrightarrow> file_ring s s'"
proof -
  show "same_ring s s' \<Longrightarrow> file_ring s s'" by (simp add: file_ring_def)
  show "file_ring s s'" if "same_ring s s0" "same_ring (record_file_failure time m s0) s'"
    using same_ring_trans [OF record_event_same [OF that(1)] that(2) [unfolded record_file_failure_def]]
    unfolding file_ring_def record_file_failure_def by blast
qed

lemma queue_event_ring: "file_ring s (queue_event time e s)"
proof (cases "length (lo_tasks s) < 8192")
  case False
  let ?s = "s\<lparr>lo_dropped := lo_dropped s + 1\<rparr>"
  have same: "same_ring s ?s" by (simp add: same_ring_def)
  then have "file_ring s (record_file_failure time m ?s)" for m by (rule file_ringI(2) [OF _ same_ring_refl])
  then show ?thesis using False file_ringI(1) [OF same] unfolding queue_event_def Let_def by presburger
qed (auto simp: queue_event_def same_ring_def intro!: file_ringI(1))

lemma task_failed_ring:
  "same_ring s (fw_logger w) \<Longrightarrow> file_ring s (fw_logger (task_failed time ticket m w))"
  by (rule file_ringI(2) [where ?s0.0 = "(fw_logger w)\<lparr>lo_file_enabled := False\<rparr>" and time = time and m = m])
    (auto simp: same_ring_def task_failed_def complete_def split: option.split)

lemma file_step_ring: "file_ring (fw_logger w) (fw_logger (file_step env time w))"
proof (cases "fw_stopped w \<or> lo_tasks (fw_logger w) = []")
  case True
  then show ?thesis by (auto simp: file_step_def Let_def intro: file_ringI(1) split: list.split)
next
  case False
  then obtain t ts where ts: "lo_tasks (fw_logger w) = t # ts" by (cases "lo_tasks (fw_logger w)") auto
  show ?thesis
    using False by (cases t) (auto simp: file_step_def Let_def ts same_ring_def complete_def
      split: prod.split option.split intro!: file_ringI(1) task_failed_ring)
qed

text \<open>A step is the first half of a \<open>write\<close>, or records at most a failure of the file log.\<close>

lemma log_step_cases:
  assumes "log_step env (w, flight) (w', flight')"
  obtains (written) lvl time err message cx e where "enabled lvl (fw_logger w)"
      "record_event time lvl (clean_text 128 err) (clean_text 4096 message) (clean_context cx) (fw_logger w) =
        (e, fw_logger w')" "w' = with_logger w (fw_logger w')" "flight' = e # flight"
  | (silent) "file_ring (fw_logger w) (fw_logger w')"
  using assms
proof cases
  case (queued s e time before after)
  have "file_ring (fw_logger w) (fw_logger w')" using queued queue_event_ring by (auto intro: file_ringI(1))
  then show ?thesis by (rule silent)
next
  case (recorded lvl time err message cx e s)
  then show ?thesis using written by auto
next
  case (filed time)
  then show ?thesis using file_step_ring silent by simp
qed (rule silent, auto simp: same_ring_def set_display_level_def configure_file_def clear_file_def flush_file_def
    submit_file_task_def Let_def split: if_splits intro!: file_ringI(1))+

lemma log_step_ring:
  assumes "log_step env (w, flight) (w', flight')"
  shows "ring_step (fw_logger w) (fw_logger w')"
  using assms by (cases rule: log_step_cases) (auto intro: ring_stepI)

lemma ring_step_ok:
  assumes "ring_step s s'" "ring_ok s" "0 < lo_capacity s" "unat (lo_sequence s) + 1 < 2 ^ 64"
  shows "ring_ok s' \<and> unat (lo_sequence s') \<le> unat (lo_sequence s) + 1 \<and> lo_capacity s' = lo_capacity s"
proof -
  consider "same_ring s s'" | time lvl err message cx where
    "same_ring (snd (record_event time lvl err message cx s)) s'"
    using assms(1) by (auto simp: ring_step_def)
  then show ?thesis
  proof cases
    case 2
    obtain e s1 where r: "record_event time lvl err message cx s = (e, s1)"
      by (cases "record_event time lvl err message cx s")
    from record_event_ring [OF assms(2-4) r] 2 show ?thesis
      using r by (auto simp: same_ring_def ring_ok_def record_event_def Let_def)
  qed (use assms in \<open>simp add: same_ring_def ring_ok_def\<close>)
qed

text \<open>The other parts of the invariant.\<close>

lemma table_step:
  assumes "table_ok t" "limit_repeated now interval key t = (r, t')"
  shows "table_ok t'"
proof -
  have put: "table_ok (put_entry k v u)" if "table_ok u" "length u < 256 \<or> k \<in> fst ` set u" for k v u
    using that put_entry_length [of u k v] by (auto simp: table_ok_def put_entry_sorted)
  show ?thesis
  proof (cases "map_of t key")
    case (Some x)
    then have "key \<in> fst ` set t" by (metis map_of_SomeD fst_conv image_eqI)
    then show ?thesis using assms Some by (auto simp: limit_repeated_def Let_def intro: put split: if_splits)
  next
    case None
    define u where "u = (if length t \<ge> 256 then (case min_element (\<lambda>e. rp_next (snd e)) t of
      Some oldest \<Rightarrow> AList.delete (fst oldest) t | None \<Rightarrow> t) else t)"
    have u: "table_ok u \<and> length u < 256"
    proof (cases "length t \<ge> 256")
      case True
      then obtain e where e: "min_element (\<lambda>e. rp_next (snd e)) t = Some e" "e \<in> set t"
        by (metis list.size(3) min_element_None min_element_in not_None_eq not_numeral_le_zero)
      have "length (AList.delete (fst e) t) < length t"
        using e(2) unfolding AList.delete_eq by (induction t) (auto simp: less_Suc_eq_le length_filter_le)
      then show ?thesis using True assms(1) e(1) sorted_delete by (auto simp: u_def table_ok_def)
    qed (use assms(1) in \<open>simp add: u_def\<close>)
    have "t' = put_entry key \<lparr>rp_next = now + interval, rp_suppressed = 0\<rparr> u"
      using assms(2) None by (simp add: limit_repeated_def Let_def u_def)
    with put u show ?thesis by blast
  qed
qed

lemma tickets_ok_submit:
  "tickets_ok s \<Longrightarrow> task_ticket (task (lo_tickets s)) = Some (lo_tickets s) \<Longrightarrow>
   submit_file_task task s = (t, s') \<Longrightarrow> tickets_ok s'"
proof -
  let ?all = "map fst (lo_results s) @ tickets (lo_tasks s)"
  assume ok: "tickets_ok s" and task: "task_ticket (task (lo_tickets s)) = Some (lo_tickets s)"
    and s': "submit_file_task task s = (t, s')"
  have "map fst (lo_results s') @ tickets (lo_tasks s') = ?all @ [lo_tickets s]" "lo_tickets s' = Suc (lo_tickets s)"
    using s' task by (auto simp: submit_file_task_def Let_def)
  moreover have all: "distinct ?all" "set ?all = {..< lo_tickets s}" using ok by (simp_all add: tickets_ok_def)
  then have "distinct (?all @ [lo_tickets s])" unfolding distinct_append by simp
  moreover have "set (?all @ [lo_tickets s]) = {..< Suc (lo_tickets s)}"
    unfolding set_append [of ?all] all(2) by auto
  ultimately show ?thesis unfolding tickets_ok_def by (simp only:)
qed

lemma tickets_ok_done:
  assumes "tickets_ok s" "tickets (lo_tasks s) = t # ts" "lo_results s' = (t, r) # lo_results s"
    "tickets (lo_tasks s') = ts" "lo_tickets s' = lo_tickets s"
  shows "tickets_ok s'"
  using assms by (auto simp: tickets_ok_def)

lemma tickets_ok_same:
  assumes "tickets_ok s" "tickets (lo_tasks s') = tickets (lo_tasks s)" "lo_results s' = lo_results s"
    "lo_tickets s' = lo_tickets s"
  shows "tickets_ok s'"
  using assms by (simp add: tickets_ok_def)

lemma queue_event_rest:
  "lo_results (queue_event time e s) = lo_results s" "lo_tickets (queue_event time e s) = lo_tickets s"
  "lo_repeated (queue_event time e s) = lo_repeated s"
  "lo_file_enabled (queue_event time e s) = lo_file_enabled s"
  "tickets (lo_tasks (queue_event time e s)) = tickets (lo_tasks s)"
  "waiting_events (lo_tasks s) \<le> 8192 \<Longrightarrow> waiting_events (lo_tasks (queue_event time e s)) \<le> 8192"
  using waiting_le [of "lo_tasks s"]
  by (auto simp: queue_event_def Let_def record_file_failure_def record_event_def)

text \<open>The queue, the promises and the sink in an iteration of the file thread.\<close>

definition file_inv :: "file_world \<Rightarrow> bool" where
  "file_inv w \<longleftrightarrow> waiting_events (lo_tasks (fw_logger w)) \<le> 8192 \<and> tickets_ok (fw_logger w) \<and>
     (lo_file_enabled (fw_logger w) \<longrightarrow> sk_enabled (fw_sink w))"

lemma task_failed_rest [simp]:
  "lo_tasks (fw_logger (task_failed time ticket m w)) = lo_tasks (fw_logger w)"
  "lo_tickets (fw_logger (task_failed time ticket m w)) = lo_tickets (fw_logger w)"
  "lo_results (fw_logger (task_failed time ticket m w)) =
     (case ticket of Some t \<Rightarrow> (t, Some m) # lo_results (fw_logger w) | None \<Rightarrow> lo_results (fw_logger w))"
  "lo_repeated (fw_logger (task_failed time ticket m w)) = lo_repeated (fw_logger w)"
  "\<not> lo_file_enabled (fw_logger (task_failed time ticket m w))"
  by (auto simp: task_failed_def complete_def record_file_failure_def record_event_def Let_def split: option.split)

lemma file_step_rest:
  assumes "lo_tasks (fw_logger w) = task # tasks" "\<not> fw_stopped w"
  shows "\<exists>rest es. tasks = map Event_task es @ rest \<and> lo_tasks (fw_logger (file_step env time w)) = rest \<and>
    (task_ticket task \<noteq> None \<longrightarrow> es = []) \<and>
    lo_tickets (fw_logger (file_step env time w)) = lo_tickets (fw_logger w) \<and>
    lo_repeated (fw_logger (file_step env time w)) = lo_repeated (fw_logger w) \<and>
    (case task_ticket task of
       None \<Rightarrow> lo_results (fw_logger (file_step env time w)) = lo_results (fw_logger w)
     | Some t \<Rightarrow> \<exists>r. lo_results (fw_logger (file_step env time w)) = (t, r) # lo_results (fw_logger w))"
proof (cases task)
  case (Event_task e)
  obtain es rest where t: "take_events 255 tasks = (es, rest)" by (cases "take_events 255 tasks")
  then show ?thesis using assms Event_task take_events_append [OF t]
    by (intro exI [of _ rest] exI [of _ es])
      (simp add: file_step_def Let_def split: option.split prod.split)
qed (use assms in \<open>auto simp: file_step_def Let_def complete_def split: option.split prod.split\<close>)

lemma write_file_batch_enabled:
  "write_file_batch env es sk files = (r, sk', files') \<Longrightarrow> sk_enabled sk' = sk_enabled sk"
proof -
  have "batch_loop env opened current es sk files = (r, sk', files') \<Longrightarrow> sk_enabled sk' = sk_enabled sk"
    for opened current
  proof (induction es arbitrary: opened current sk files)
    case (Cons e es)
    obtain r1 o1 c1 sk1 f1 where m: "make_room env opened current (log_line env e) sk files = (r1, o1, c1, sk1, f1)"
      by (cases "make_room env opened current (log_line env e) sk files")
    then have "sk_enabled sk1 = sk_enabled sk"
      by (auto simp: make_room_def rotate_file_def Let_def split: if_splits prod.splits sum.splits)
    then show ?case using Cons m by (auto split: option.splits prod.splits)
  qed (auto split: if_splits)
  then show "write_file_batch env es sk files = (r, sk', files') \<Longrightarrow> sk_enabled sk' = sk_enabled sk"
    by (simp add: write_file_batch_def)
qed

lemma file_step_sink:
  assumes "lo_file_enabled (fw_logger w) \<longrightarrow> sk_enabled (fw_sink w)"
  shows "lo_file_enabled (fw_logger (file_step env time w)) \<longrightarrow> sk_enabled (fw_sink (file_step env time w))"
  using assms by (auto simp: file_step_def Let_def complete_def write_file_batch_enabled
    split: list.split file_task.split option.split prod.split)

lemma file_step_inv:
  assumes "file_inv w"
  shows "file_inv (file_step env time w)"
proof (cases "fw_stopped w \<or> lo_tasks (fw_logger w) = []")
  case True
  then have "file_step env time w = w" by (auto simp: file_step_def Let_def split: list.split)
  with assms show ?thesis by simp
next
  case False
  then obtain task tasks where ts: "lo_tasks (fw_logger w) = task # tasks" "\<not> fw_stopped w"
    by (cases "lo_tasks (fw_logger w)") auto
  from file_step_rest [OF this, of env time] obtain rest es where
    rest: "tasks = map Event_task es @ rest" "lo_tasks (fw_logger (file_step env time w)) = rest"
    and same: "lo_tickets (fw_logger (file_step env time w)) = lo_tickets (fw_logger w)"
    and results: "case task_ticket task of
       None \<Rightarrow> lo_results (fw_logger (file_step env time w)) = lo_results (fw_logger w)
     | Some t \<Rightarrow> \<exists>r. lo_results (fw_logger (file_step env time w)) = (t, r) # lo_results (fw_logger w)"
    by blast
  have ok: "tickets_ok (fw_logger w)" using assms by (simp add: file_inv_def)
  have "tickets_ok (fw_logger (file_step env time w))"
  proof (cases "task_ticket task")
    case None
    then show ?thesis using results rest same by (intro tickets_ok_same [OF ok]) (simp_all add: ts)
  next
    case (Some t)
    then obtain r where "lo_results (fw_logger (file_step env time w)) = (t, r) # lo_results (fw_logger w)"
      using results by auto
    then show ?thesis by (rule tickets_ok_done [OF ok, rotated]) (use Some rest same in \<open>simp_all add: ts\<close>)
  qed
  moreover have "waiting_events rest \<le> 8192" using assms rest by (simp add: file_inv_def ts)
  ultimately show ?thesis using assms rest(2) file_step_sink unfolding file_inv_def by blast
qed

lemma record_event_rest:
  "record_event time lvl err message context s = (e, s') \<Longrightarrow>
   lo_tasks s' = lo_tasks s \<and> lo_tickets s' = lo_tickets s \<and> lo_results s' = lo_results s \<and>
   lo_repeated s' = lo_repeated s \<and> lo_file_enabled s' = lo_file_enabled s"
  by (auto simp: record_event_def Let_def)

lemma tickets_ok_fields [simp]:
  "tickets_ok (s\<lparr>lo_display_level := lvl\<rparr>) = tickets_ok s" "tickets_ok (s\<lparr>lo_repeated := table\<rparr>) = tickets_ok s"
  "tickets_ok (s\<lparr>lo_file_enabled := b\<rparr>) = tickets_ok s" "tickets_ok (s\<lparr>lo_events := es\<rparr>) = tickets_ok s"
  by (simp_all add: tickets_ok_def)

lemma submit_file_inv:
  assumes "submit_file_task task s = (ticket, s')" "file_inv (with_logger w s)"
    and "task_ticket (task (lo_tickets s)) = Some (lo_tickets s)"
  shows "file_inv (with_logger w s')"
proof -
  have "tickets_ok s'" using assms(2) by (intro tickets_ok_submit [OF _ assms(3,1)]) (simp add: file_inv_def)
  then show ?thesis using assms by (auto simp: file_inv_def submit_file_task_def Let_def)
qed

lemma log_step_file_inv:
  assumes "log_step env (w, flight) (w', flight')" "file_inv w"
  shows "file_inv w'"
  using assms
proof cases
  case (queued s e time before after)
  have "tickets_ok (fw_logger w) \<Longrightarrow> tickets_ok (queue_event time e (fw_logger w))"
    by (erule tickets_ok_same) (simp_all add: queue_event_rest)
  then show ?thesis using assms(2) queued by (auto simp: file_inv_def queue_event_rest)
next
  case (recorded lvl time err message cx e s)
  then show ?thesis using assms(2) record_event_rest [OF recorded(4)] by (auto simp: file_inv_def tickets_ok_def)
next
  case (configured enable lvl path maximum retained ticket s)
  let ?s = "if enable then fw_logger w else (fw_logger w)\<lparr>lo_file_enabled := False\<rparr>"
  have "submit_file_task (Configure_task enable lvl path maximum retained) ?s = (ticket, s)"
    using configured by (auto simp: configure_file_def Let_def split: if_splits)
  moreover have "file_inv (with_logger w ?s)" using assms(2) by (simp add: file_inv_def)
  ultimately show ?thesis unfolding configured(1) by (rule submit_file_inv) simp
next
  case (emptied ticket s)
  then show ?thesis using assms(2) by (auto simp: clear_file_def intro: submit_file_inv)
next
  case (flushed ticket s)
  then show ?thesis using assms(2) by (auto simp: flush_file_def intro: submit_file_inv)
next
  case (filed time)
  then show ?thesis using assms(2) file_step_inv by blast
qed (auto simp: file_inv_def set_display_level_def split: if_splits)

lemma log_step_table:
  assumes "log_step env (w, flight) (w', flight')" "table_ok (lo_repeated (fw_logger w))"
  shows "table_ok (lo_repeated (fw_logger w'))"
  using assms
proof cases
  case (recorded lvl time err message cx e s)
  then show ?thesis using assms(2) record_event_rest [OF recorded(4)] by simp
next
  case (filed time)
  have "lo_repeated (fw_logger (file_step env time w)) = lo_repeated (fw_logger w)"
  proof (cases "fw_stopped w \<or> lo_tasks (fw_logger w) = []")
    case True
    then show ?thesis by (auto simp: file_step_def Let_def split: list.split)
  next
    case False
    then show ?thesis by (cases "lo_tasks (fw_logger w)") (use file_step_rest [of w _ _ env time] in auto)
  qed
  then show ?thesis using assms(2) filed by simp
qed (auto simp: queue_event_rest set_display_level_def configure_file_def clear_file_def flush_file_def
    submit_file_task_def Let_def intro: table_step split: if_splits)

text \<open>
  A step relation whose invariant may mention the number of steps so far.  Forgetting the
  number gives the interface of the prelude.
\<close>

locale counted_system =
  fixes start :: "'s" and steps :: "'s \<Rightarrow> 's \<Rightarrow> bool" and inv :: "nat \<Rightarrow> 's \<Rightarrow> bool"
  assumes start_counted: "inv 0 start"
    and steps_counted: "inv n s \<Longrightarrow> steps s s' \<Longrightarrow> inv (Suc n) s'"
begin

lemma after_steps: "(steps ^^ n) start s \<Longrightarrow> inv n s"
proof (induction n arbitrary: s)
  case (Suc n)
  then obtain t where "(steps ^^ n) start t" "steps t s" by auto
  with Suc.IH show ?case by (blast intro: steps_counted)
qed (auto intro: start_counted)

end

sublocale counted_system \<subseteq> step_system start steps "\<lambda>s. \<exists>n. inv n s"
  by unfold_locales (auto intro: start_counted steps_counted)

lemma logger_inv_start: "new_logger capacity = Inr s \<Longrightarrow> logger_inv capacity 0 (log_start s files)"
  by (auto simp: new_logger_def logger_inv_def log_start_def ring_ok_def table_ok_def tickets_ok_def
      split: if_splits)

lemma logger_inv_file: "logger_inv capacity n (w, flight) \<Longrightarrow> file_inv w"
  by (simp add: logger_inv_def file_inv_def Let_def)

lemma logger_inv_step:
  assumes "logger_inv capacity n x" "logger_step env x y"
  shows "logger_inv capacity (Suc n) y"
  using assms(2)
proof cases
  case worked
  obtain w flight w' flight' where xy: "x = (w, flight)" "y = (w', flight')" by (cases x; cases y)
  note step = worked [unfolded xy]
  note inv = assms(1) [unfolded xy logger_inv_def, simplified, unfolded Let_def]
  have "file_inv w'" by (rule log_step_file_inv [OF step logger_inv_file [OF assms(1) [unfolded xy]]])
  moreover have "table_ok (lo_repeated (fw_logger w'))" using log_step_table [OF step] inv by blast
  moreover have ring: "ring_step (fw_logger w) (fw_logger w')" by (rule log_step_ring [OF step])
  then have "lo_capacity (fw_logger w') = lo_capacity (fw_logger w)"
    by (auto simp: ring_step_def same_ring_def record_event_def Let_def)
  moreover have "ring_ok (fw_logger w') \<and> unat (lo_sequence (fw_logger w')) \<le> Suc n" if "Suc n < 2 ^ 64"
    using ring_step_ok [OF ring] inv that by fastforce
  ultimately show ?thesis using inv by (simp add: xy logger_inv_def file_inv_def Let_def)
next
  case (cleared w flight)
  then show ?thesis using assms(1)
    by (auto simp: logger_inv_def clear_display_def ring_ok_def table_ok_def Let_def)
qed

lemma logger_counted:
  assumes "new_logger capacity = Inr s"
  shows "counted_system (log_start s files) (logger_step env) (logger_inv capacity)"
  using assms by unfold_locales (auto intro: logger_inv_start logger_inv_step)

lemma core_logger_new: "new_logger 4096 = Inr core_logger"
  by (simp add: new_logger_def core_logger_def)

interpretation logging: counted_system "log_start core_logger files" "logger_step env" "logger_inv 4096"
  by (rule logger_counted [OF core_logger_new])

theorem logger_invariant:
  assumes "(logger_step env ^^ n) (log_start core_logger files) (w, flight)"
  shows "table_ok (lo_repeated (fw_logger w)) \<and> waiting_events (lo_tasks (fw_logger w)) \<le> 8192 \<and>
    (lo_file_enabled (fw_logger w) \<longrightarrow> sk_enabled (fw_sink w)) \<and>
    (n < 2 ^ 64 \<longrightarrow> length (lo_events (fw_logger w)) \<le> 4096 \<and>
       map (\<lambda>e. unat (ev_sequence e)) (lo_events (fw_logger w)) =
         [unat (lo_sequence (fw_logger w)) + 1 - length (lo_events (fw_logger w)) ..<
          unat (lo_sequence (fw_logger w)) + 1])"
  using logging.after_steps [OF assms]
  by (auto simp: logger_inv_def ring_ok_def Let_def simp del: upt_Suc)

text \<open>
  Every promise is set at most once, and the promises that are not set are exactly those of
  the tasks in the queue.
\<close>

theorem promises_set_once:
  assumes "(logger_step env)\<^sup>*\<^sup>* (log_start core_logger files) (w, flight)"
  shows "distinct (map fst (lo_results (fw_logger w))) \<and>
    (\<forall>t < lo_tickets (fw_logger w).
       t \<in> fst ` set (lo_results (fw_logger w)) \<longleftrightarrow> Some t \<notin> task_ticket ` set (lo_tasks (fw_logger w)))"
proof -
  obtain n where "logger_inv 4096 n (w, flight)" using logging.reachable_inv [OF assms] by blast
  then have "tickets_ok (fw_logger w)" using logger_inv_file by (simp add: file_inv_def)
  then have dist: "distinct (map fst (lo_results (fw_logger w)))"
    and apart: "fst ` set (lo_results (fw_logger w)) \<inter> set (tickets (lo_tasks (fw_logger w))) = {}"
    and all: "fst ` set (lo_results (fw_logger w)) \<union> set (tickets (lo_tasks (fw_logger w))) = {..< lo_tickets (fw_logger w)}"
    by (simp_all add: tickets_ok_def)
  have task: "t \<in> set (tickets ts) \<longleftrightarrow> Some t \<in> task_ticket ` set ts" for t ts
    by (induction ts) (auto split: option.splits)
  have "t \<in> fst ` set (lo_results (fw_logger w)) \<longleftrightarrow> Some t \<notin> task_ticket ` set (lo_tasks (fw_logger w))"
    if "t < lo_tickets (fw_logger w)" for t
  proof -
    have "t \<in> fst ` set (lo_results (fw_logger w)) \<union> set (tickets (lo_tasks (fw_logger w)))" using that all by simp
    with apart show ?thesis unfolding task [symmetric] by blast
  qed
  with dist show ?thesis by blast
qed

section \<open>The history of events\<close>

text \<open>
  What has been recorded: the arguments of the calls of \<open>write\<close> that the level lets through, and
  the failures of the file log.
\<close>

datatype log_entry =
  Written nat level string string log_context
| File_failed nat string

fun entry_event :: "nat \<Rightarrow> log_entry \<Rightarrow> log_event" where
  "entry_event n (Written time lvl err message context) =
     \<lparr>ev_sequence = of_nat n, ev_time = time, ev_level = lvl, ev_code = clean_text 128 err,
      ev_message = clean_text 4096 message, ev_context = clean_context context\<rparr>"
| "entry_event n (File_failed time message) =
     \<lparr>ev_sequence = of_nat n, ev_time = time, ev_level = errors_only, ev_code = ''FILE_LOG_FAILED'',
      ev_message = message, ev_context = no_context\<rparr>"

text \<open>The events of a history are numbered from 1.\<close>

definition numbered :: "log_entry list \<Rightarrow> log_event list" where
  "numbered history = map (\<lambda>i. entry_event (Suc i) (history ! i)) [0 ..< length history]"

text \<open>
  \<open>logged env files history gone x\<close>: the steps to \<open>x\<close> recorded \<open>history\<close>, of which the last
  \<open>clear_display\<close> removed the first \<open>gone\<close> entries.
\<close>

inductive logged :: "file_env \<Rightarrow> log_files \<Rightarrow> log_entry list \<Rightarrow> nat \<Rightarrow> log_world \<Rightarrow> bool" for env files where
  Fresh: "logged env files [] 0 (log_start core_logger files)"
| Wrote: "\<lbrakk>logged env files history gone (w, flight); enabled lvl (fw_logger w);
     record_event time lvl (clean_text 128 err) (clean_text 4096 message) (clean_context context)
       (fw_logger w) = (e, s)\<rbrakk> \<Longrightarrow>
     logged env files (history @ [Written time lvl err message context]) gone (with_logger w s, e # flight)"
| Reported: "\<lbrakk>logged env files history gone (w, flight); log_step env (w, flight) (w', flight');
     same_ring (record_file_failure time message (fw_logger w)) (fw_logger w')\<rbrakk> \<Longrightarrow>
     logged env files (history @ [File_failed time message]) gone (w', flight')"
| Silent: "\<lbrakk>logged env files history gone (w, flight); log_step env (w, flight) (w', flight');
     same_ring (fw_logger w) (fw_logger w')\<rbrakk> \<Longrightarrow>
     logged env files history gone (w', flight')"
| Emptied: "logged env files history gone (w, flight) \<Longrightarrow>
     logged env files history (length history) (with_logger w (clear_display (fw_logger w)), flight)"

text \<open>Every state that can be reached has a history, and only those have one.\<close>

lemma logged_reachable:
  "logged env files history gone x \<Longrightarrow> (logger_step env)\<^sup>*\<^sup>* (log_start core_logger files) x"
  by (induction rule: logged.induct)
    (auto intro: rtranclp.rtrancl_into_rtrancl worked cleared dest: recorded [where env = env])

lemma reachable_logged:
  assumes "(logger_step env)\<^sup>*\<^sup>* (log_start core_logger files) x"
  shows "\<exists>history gone. logged env files history gone x"
  using assms
proof (induction rule: rtranclp_induct)
  case base
  show ?case using Fresh by blast
next
  case (step y z)
  then obtain history gone where h: "logged env files history gone y" by blast
  from step(2) show ?case
  proof cases
    case worked
    obtain w flight w' flight' where yz: "y = (w, flight)" "z = (w', flight')" by (cases y; cases z)
    from worked [unfolded yz] show ?thesis
    proof (cases rule: log_step_cases)
      case (written lvl time err message cx e)
      from Wrote [OF h [unfolded yz] written(1,2)] written(3,4) show ?thesis unfolding yz by metis
    next
      case silent
      then consider "same_ring (fw_logger w) (fw_logger w')"
        | time m where "same_ring (record_file_failure time m (fw_logger w)) (fw_logger w')"
        by (auto simp: file_ring_def)
      then show ?thesis
        using Silent [OF h [unfolded yz] worked [unfolded yz]] Reported [OF h [unfolded yz] worked [unfolded yz]]
        unfolding yz by cases blast+
    qed
  next
    case (cleared w flight)
    then show ?thesis using Emptied h by blast
  qed
qed

section \<open>Snapshots\<close>

lemma numbered_length [simp]: "length (numbered history) = length history"
  by (simp add: numbered_def)

lemma numbered_snoc: "numbered (history @ [x]) = numbered history @ [entry_event (Suc (length history)) x]"
proof -
  have "map (\<lambda>i. entry_event (Suc i) ((history @ [x]) ! i)) [0 ..< length history] =
      map (\<lambda>i. entry_event (Suc i) (history ! i)) [0 ..< length history]"
    by (rule map_cong) (simp_all add: nth_append)
  then show ?thesis by (simp add: numbered_def)
qed

lemma entry_sequence [simp]: "ev_sequence (entry_event n x) = of_nat n"
  by (cases x) simp_all

lemma numbered_sequence:
  assumes "e \<in> set (numbered history)"
  obtains n where "0 < n" "n \<le> length history" "ev_sequence e = of_nat n" "e = entry_event n (history ! (n - 1))"
proof -
  from assms obtain i where "i < length history" "e = entry_event (Suc i) (history ! i)" by (auto simp: numbered_def)
  then show ?thesis using that [of "Suc i"] by simp
qed

text \<open>The ring is the end of the history.\<close>

definition ring_holds :: "log_entry list \<Rightarrow> nat \<Rightarrow> logger \<Rightarrow> bool" where
  "ring_holds history gone s \<longleftrightarrow>
     lo_capacity s = 4096 \<and> lo_sequence s = of_nat (length history) \<and> gone \<le> length history \<and>
     lo_events s = drop (max gone (length history - 4096)) (numbered history)"

lemma drop_ring:
  assumes "k \<le> length xs" "length xs - k \<le> c" "0 < c"
  shows "(if length (drop k xs @ [e]) > c then drop 1 (drop k xs @ [e]) else drop k xs @ [e]) =
    drop (if length xs - k = c then Suc k else k) (xs @ [e])"
proof (cases "length xs - k = c")
  case True
  have "drop k xs @ [e] = drop k (xs @ [e])" using assms(1) by simp
  then have "drop 1 (drop k xs @ [e]) = drop (1 + k) (xs @ [e])" by (simp only: drop_drop)
  then show ?thesis using True by simp
qed (use assms in simp)

lemma ring_holds_record:
  assumes "ring_holds history gone s" "same_ring (snd (record_event time lvl err message context s)) s'"
    and "entry_event (Suc (length history)) x = \<lparr>ev_sequence = of_nat (Suc (length history)), ev_time = time,
      ev_level = lvl, ev_code = err, ev_message = message, ev_context = context\<rparr>"
  shows "ring_holds (history @ [x]) gone s'"
proof -
  let ?k = "max gone (length history - 4096)" and ?e = "entry_event (Suc (length history)) x"
  have s: "lo_capacity s = 4096" "lo_sequence s = of_nat (length history)" "gone \<le> length history"
      "lo_events s = drop ?k (numbered history)"
    using assms(1) by (simp_all add: ring_holds_def)
  have "lo_events s' = (if length (drop ?k (numbered history) @ [?e]) > 4096
      then drop 1 (drop ?k (numbered history) @ [?e]) else drop ?k (numbered history) @ [?e])"
    using assms(2,3) s by (simp add: same_ring_def record_event_def Let_def add.commute)
  also have "\<dots> = drop (if length (numbered history) - ?k = 4096 then Suc ?k else ?k) (numbered history @ [?e])"
    using s(3) by (intro drop_ring) auto
  also have "(if length (numbered history) - ?k = 4096 then Suc ?k else ?k) = max gone (length (history @ [x]) - 4096)"
    using s(3) by (auto simp: max_def)
  finally show ?thesis
    using assms(2) s by (simp add: ring_holds_def numbered_snoc same_ring_def record_event_def Let_def add.commute)
qed

lemma logged_ring: "logged env files history gone x \<Longrightarrow> ring_holds history gone (fw_logger (fst x))"
proof (induction rule: logged.induct)
  case Fresh
  then show ?case by (simp add: ring_holds_def log_start_def core_logger_def numbered_def)
next
  case (Wrote history gone w flight lvl time err message cx e s)
  have "same_ring (snd (record_event time lvl (clean_text 128 err) (clean_text 4096 message) (clean_context cx)
      (fw_logger w))) s" by (simp add: Wrote(3))
  from ring_holds_record [OF _ this, of history gone "Written time lvl err message cx"] Wrote(4)
  show ?case by simp
next
  case (Reported history gone w flight w' flight' time message)
  from ring_holds_record [OF _ Reported(3) [unfolded record_file_failure_def], of history gone "File_failed time message"]
    Reported(4)
  show ?case by simp
next
  case (Silent history gone w flight w' flight')
  then show ?case by (simp add: ring_holds_def same_ring_def)
next
  case (Emptied history gone w flight)
  then show ?case by (simp add: ring_holds_def clear_display_def)
qed

lemma snapshot_complete_at:
  assumes "logged env files history gone (w, flight)" and "length history < 2 ^ 64"
  shows "log_snapshot lvl after (fw_logger w) =
    filter (\<lambda>e. enum_le (ev_level e) lvl \<and> (length history < unat after \<or> unat after < unat (ev_sequence e)))
      (drop (max gone (length history - 4096)) (numbered history))"
proof -
  have ring: "lo_sequence (fw_logger w) = of_nat (length history)"
      "lo_events (fw_logger w) = drop (max gone (length history - 4096)) (numbered history)"
    using logged_ring [OF assms(1)] by (simp_all add: ring_holds_def)
  have un: "unat (of_nat n :: 64 word) = n" if "n \<le> length history" for n
    using that assms(2) by (simp add: unat_of_nat)
  have "start_after after (fw_logger w) < ev_sequence e \<longleftrightarrow>
      length history < unat after \<or> unat after < unat (ev_sequence e)" if e: "e \<in> set (numbered history)" for e
  proof -
    obtain n where n: "0 < n" "n \<le> length history" "ev_sequence e = of_nat n"
      using numbered_sequence [OF e] by metis
    then have "0 < ev_sequence e" "unat (ev_sequence e) = n" using un [of n] by (simp_all add: word_less_nat_alt)
    then show ?thesis using n un [OF order_refl] ring(1) by (auto simp: start_after_def word_less_nat_alt)
  qed
  then show ?thesis
    unfolding log_snapshot_def events_after_def ring(2) by (intro filter_cong refl) (auto dest: in_set_dropD)
qed

text \<open>C30: A snapshot returns exactly the events of the history, that is the calls of write that
  the levels let through and the failures of the file log, numbered from 1 (fewer than 2^64
  of them), that are above the given sequence (or all of them, when it is ahead of the
  logger), not above the level, among the last 4096, and not cleared from the display since,
  in their order.\<close>

theorem snapshot_complete:
  assumes "logged env files history gone (w, flight)" and "length history < 2 ^ 64"
  shows "log_snapshot lvl after (fw_logger w) =
    filter (\<lambda>e. enum_le (ev_level e) lvl \<and> (length history < unat after \<or> unat after < unat (ev_sequence e)))
      (drop (max gone (length history - 4096)) (numbered history))"
  using assms by (rule snapshot_complete_at)

section \<open>Suppression\<close>

text \<open>A run of calls \<open>(now, interval, key)\<close> and their outcomes.\<close>

type_synonym limit_call = "nat \<times> nat \<times> string"

abbreviation call_key :: "limit_call \<Rightarrow> string" where
  "call_key c \<equiv> snd (snd c)"

fun limit_run :: "limit_call list \<Rightarrow> (string \<times> repeated) list \<Rightarrow> 64 word option list \<times> (string \<times> repeated) list" where
  "limit_run [] table = ([], table)"
| "limit_run ((now, interval, key) # calls) table =
     (let (r, table) = limit_repeated now interval key table; (rs, table) = limit_run calls table in
      (r # rs, table))"

definition calls_of :: "string \<Rightarrow> limit_call list \<Rightarrow> nat" where
  "calls_of key calls = length (filter (\<lambda>c. call_key c = key) calls)"

text \<open>The events written for a key, and those they report as suppressed.\<close>

definition reported :: "string \<Rightarrow> limit_call list \<Rightarrow> 64 word option list \<Rightarrow> nat" where
  "reported key calls rs =
     (\<Sum>(c, r) \<leftarrow> zip calls rs. if call_key c = key then (case r of Some n \<Rightarrow> 1 + unat n | None \<Rightarrow> 0) else 0)"

definition pending_of :: "string \<Rightarrow> (string \<times> repeated) list \<Rightarrow> nat" where
  "pending_of key table = (case map_of table key of Some r \<Rightarrow> unat (rp_suppressed r) | None \<Rightarrow> 0)"

definition spaced :: "limit_call list \<Rightarrow> 64 word option list \<Rightarrow> bool" where
  "spaced calls rs \<longleftrightarrow> (\<forall>j < length calls. \<forall>i < j. call_key (calls ! i) = call_key (calls ! j) \<and>
     rs ! i \<noteq> None \<and> rs ! j \<noteq> None \<longrightarrow> fst (calls ! i) + fst (snd (calls ! i)) \<le> fst (calls ! j))"

lemma limit_run_snoc:
  "limit_run (calls @ [(now, interval, key)]) table =
    (let (rs, table) = limit_run calls table; (r, table) = limit_repeated now interval key table in
     (rs @ [r], table))"
  by (induction calls arbitrary: table) (auto split: prod.splits)

definition limit_inv :: "limit_call list \<Rightarrow> 64 word option list \<Rightarrow> (string \<times> repeated) list \<Rightarrow> bool" where
  "limit_inv calls rs table \<longleftrightarrow> length rs = length calls \<and> sorted_wrt (<) (map fst table) \<and>
     fst ` set table = call_key ` set calls \<and>
     (\<forall>key. calls_of key calls = reported key calls rs + pending_of key table) \<and>
     (\<forall>i < length calls. rs ! i \<noteq> None \<longrightarrow>
        (\<exists>r. map_of table (call_key (calls ! i)) = Some r \<and> fst (calls ! i) + fst (snd (calls ! i)) \<le> rp_next r)) \<and>
     spaced calls rs"

lemma limit_inv_snoc:
  assumes inv: "limit_inv calls rs table" and small: "card (insert key (call_key ` set calls)) \<le> 256"
    and short: "length calls + 1 < 2 ^ 64"
    and step: "limit_repeated now interval key table = (r, table')"
  shows "limit_inv (calls @ [(now, interval, key)]) (rs @ [r]) table'"
proof -
  let ?fresh = "\<lparr>rp_next = now + interval, rp_suppressed = 0\<rparr>" and ?calls = "calls @ [(now, interval, key)]"
  have len: "length rs = length calls" and srt: "sorted_wrt (<) (map fst table)"
    and keys: "fst ` set table = call_key ` set calls"
    and acc: "\<And>k. calls_of k calls = reported k calls rs + pending_of k table"
    and next_ok: "\<And>i. i < length calls \<Longrightarrow> rs ! i \<noteq> None \<Longrightarrow> \<exists>r. map_of table (call_key (calls ! i)) = Some r \<and>
        fst (calls ! i) + fst (snd (calls ! i)) \<le> rp_next r"
    and sp: "spaced calls rs"
    using inv by (simp_all add: limit_inv_def)
  have put: "sorted_wrt (<) (map fst (put_entry key v table))" "fst ` set (put_entry key v table) = call_key ` set ?calls"
    "map_of (put_entry key v table) = (map_of table)(key \<mapsto> v)" for v
    using put_entry_sorted [OF srt] put_entry_keys [of key v table] put_entry_lookup [OF srt] keys by simp_all
  have rep: "reported k ?calls (rs @ [r]) = reported k calls rs +
      (if k = key then (case r of Some n \<Rightarrow> 1 + unat n | None \<Rightarrow> 0) else 0)" for k
    by (simp add: reported_def len)
  have cnt: "calls_of k ?calls = calls_of k calls + (if k = key then 1 else 0)" for k
    by (simp add: calls_of_def)
  have few: "calls_of k calls < 2 ^ 64 - 1" for k
    using short le_trans [OF length_filter_le] unfolding calls_of_def by (metis (no_types, lifting) le_less_trans less_diff_conv length_filter_le)
  show ?thesis
  proof (cases "map_of table key")
    case None
    then have new: "key \<notin> fst ` set table" by (simp add: map_of_eq_None_iff)
    have "length table = card (fst ` set table)"
      using distinct_card [OF sorted_keys_distinct [OF srt]] by simp
    then have "length table < 256" using small new keys by simp
    then have t': "table' = put_entry key ?fresh table" and r: "r = Some 0"
      using step None by (auto simp: limit_repeated_def Let_def)
    have "calls_of k ?calls = reported k ?calls (rs @ [r]) + pending_of k table'" for k
      using acc [of k] None unfolding rep cnt by (simp add: r t' pending_of_def put)
    moreover have "\<forall>i < length calls. rs ! i \<noteq> None \<longrightarrow> call_key (calls ! i) \<noteq> key"
      using next_ok None by fastforce
    ultimately show ?thesis using len put next_ok sp unfolding limit_inv_def spaced_def t' r
      by (auto simp: nth_append less_Suc_eq)
  next
    case (Some x)
    show ?thesis
    proof (cases "now < rp_next x")
      case True
      then have t': "table' = put_entry key (x\<lparr>rp_suppressed := rp_suppressed x + 1\<rparr>) table" and r: "r = None"
        using step Some by (auto simp: limit_repeated_def Let_def)
      have "unat (rp_suppressed x) < 2 ^ 64 - 1" using acc [of key] few [of key] Some by (simp add: pending_of_def)
      then have "unat (rp_suppressed x + 1) = unat (rp_suppressed x) + 1" by (simp add: unat_word_ariths)
      then have "calls_of k ?calls = reported k ?calls (rs @ [r]) + pending_of k table'" for k
        using acc [of k] Some unfolding rep cnt by (simp add: r t' pending_of_def put)
      moreover have "\<forall>i < length calls. rs ! i \<noteq> None \<and> call_key (calls ! i) = key \<longrightarrow>
          fst (calls ! i) + fst (snd (calls ! i)) \<le> rp_next x"
        using next_ok Some by fastforce
      ultimately show ?thesis using len put next_ok sp Some unfolding limit_inv_def spaced_def t' r
        by (auto simp: nth_append less_Suc_eq)
    next
      case False
      then have t': "table' = put_entry key ?fresh table" and r: "r = Some (rp_suppressed x)"
        using step Some by (auto simp: limit_repeated_def Let_def)
      have "calls_of k ?calls = reported k ?calls (rs @ [r]) + pending_of k table'" for k
        using acc [of k] Some unfolding rep cnt by (simp add: r t' pending_of_def put)
      moreover have "\<forall>i < length calls. rs ! i \<noteq> None \<and> call_key (calls ! i) = key \<longrightarrow>
          fst (calls ! i) + fst (snd (calls ! i)) \<le> now"
        using next_ok Some False by fastforce
      ultimately show ?thesis using len put next_ok sp unfolding limit_inv_def spaced_def t' r
        by (auto simp: nth_append less_Suc_eq)
    qed
  qed
qed

theorem suppression_accounts:
  assumes "limit_run calls [] = (rs, table)"
    and "card (call_key ` set calls) \<le> 256" "length calls < 2 ^ 64"
  shows "calls_of key calls = reported key calls rs + pending_of key table \<and> spaced calls rs"
proof -
  have "limit_inv calls rs table"
    using assms
  proof (induction calls arbitrary: rs table rule: rev_induct)
    case Nil
    then show ?case by (simp add: limit_inv_def calls_of_def reported_def pending_of_def spaced_def)
  next
    case (snoc c calls)
    obtain now interval k where c: "c = (now, interval, k)" by (cases c)
    obtain rs1 t1 r where run: "limit_run calls [] = (rs1, t1)" "limit_repeated now interval k t1 = (r, table)"
      "rs = rs1 @ [r]"
      using snoc.prems(1) by (auto simp: c limit_run_snoc Let_def split: prod.splits)
    have "card (call_key ` set calls) \<le> card (insert k (call_key ` set calls))" by (intro card_mono) auto
    then have "limit_inv calls rs1 t1" using snoc.IH [OF run(1)] snoc.prems by (simp add: c)
    from limit_inv_snoc [OF this _ _ run(2)] show ?case using snoc.prems by (simp add: c run(3))
  qed
  then show ?thesis by (simp add: limit_inv_def)
qed

section \<open>The end of the file thread\<close>

definition running :: "file_world \<Rightarrow> bool" where
  "running w \<longleftrightarrow> \<not> fw_stopped w \<and> (\<forall>t. Stop_task t \<notin> set (lo_tasks (fw_logger w)))"

definition file_run :: "file_env \<Rightarrow> nat list \<Rightarrow> file_world \<Rightarrow> file_world" where
  "file_run env clock w = fold (file_step env) clock w"

lemma file_run_simps [simp]:
  "file_run env [] w = w" "file_run env (t # ts) w = file_run env ts (file_step env t w)"
  by (simp_all add: file_run_def)

lemma task_failed_stopped [simp]: "fw_stopped (task_failed time ticket m w) = fw_stopped w"
  by (simp add: task_failed_def)

lemma file_step_stopped:
  assumes "lo_tasks (fw_logger w) = task # tasks" "\<not> fw_stopped w"
  shows "fw_stopped (file_step env time w) \<longleftrightarrow> (\<exists>t. task = Stop_task t)"
  using assms by (cases task) (auto simp: file_step_def Let_def split: option.split prod.split)

lemma file_step_idle: "fw_stopped w \<or> lo_tasks (fw_logger w) = [] \<Longrightarrow> file_step env time w = w"
  by (auto simp: file_step_def Let_def split: list.split)

lemma log_step_running:
  assumes "log_step env (w, flight) (w', flight')" "running w"
  shows "running w'"
  using assms
proof cases
  case (recorded lvl time err message cx e s)
  then show ?thesis using assms(2) record_event_rest [OF recorded(4)] by (simp add: running_def)
next
  case (filed time)
  show ?thesis
  proof (cases "lo_tasks (fw_logger w)")
    case (Cons task tasks)
    from file_step_rest [OF Cons, of env time] obtain rest es where
      "tasks = map Event_task es @ rest" "lo_tasks (fw_logger (file_step env time w)) = rest"
      using assms(2) by (auto simp: running_def)
    then show ?thesis using assms(2) filed file_step_stopped [OF Cons, of env time] Cons
      by (auto simp: running_def)
  qed (use assms(2) filed file_step_idle in simp)
qed (auto simp: running_def queue_event_def record_file_failure_def record_event_def set_display_level_def
    configure_file_def clear_file_def flush_file_def submit_file_task_def Let_def split: if_splits)

lemma reachable_running:
  assumes "(logger_step env)\<^sup>*\<^sup>* (log_start core_logger files) x"
  shows "running (fst x)"
  using assms
proof (induction rule: rtranclp_induct)
  case base
  show ?case by (simp add: running_def log_start_def core_logger_def)
next
  case (step y z)
  from step(2) show ?case
  proof cases
    case worked
    then show ?thesis using log_step_running step.IH by (cases y; cases z) auto
  next
    case (cleared w flight)
    then show ?thesis using step.IH by (simp add: running_def clear_display_def)
  qed
qed

lemma file_run_stops:
  assumes "\<not> fw_stopped w" "lo_tasks (fw_logger w) = ts @ [Stop_task t]" "\<And>i. Stop_task i \<notin> set ts"
    and "length ts < length clock"
  shows "fw_stopped (file_run env clock w) \<and> lo_tasks (fw_logger (file_run env clock w)) = []"
  using assms
proof (induction clock arbitrary: w ts)
  case (Cons time clock)
  let ?w = "file_step env time w"
  have idle: "file_run env clock v = v" if "fw_stopped v" for v
    using that by (induction clock) (simp_all add: file_step_idle)
  show ?case
  proof (cases ts)
    case Nil
    then have tasks: "lo_tasks (fw_logger w) = Stop_task t # []" using Cons.prems(2) by simp
    have "fw_stopped ?w" using file_step_stopped [OF tasks Cons.prems(1)] by simp
    moreover have "lo_tasks (fw_logger ?w) = []" using file_step_rest [OF tasks Cons.prems(1), of env time] by auto
    ultimately show ?thesis using idle by simp
  next
    case (Cons task tasks)
    note c = Cons
    have tasks: "lo_tasks (fw_logger w) = task # (tasks @ [Stop_task t])" using Cons.prems(2) c by simp
    from file_step_rest [OF tasks Cons.prems(1), of env time] obtain rest es where
      rest: "tasks @ [Stop_task t] = map Event_task es @ rest" "lo_tasks (fw_logger ?w) = rest" by blast
    have "set (tasks @ [Stop_task t]) = set (map Event_task es @ rest)" by (simp only: rest(1))
    then have "rest \<noteq> []" by auto
    with rest(1) obtain more where more: "rest = more @ [Stop_task t]" "tasks = map Event_task es @ more"
      by (cases rest rule: rev_cases) (auto dest: arg_cong [where f = "last"])
    have "\<not> fw_stopped ?w" using file_step_stopped [OF tasks Cons.prems(1)] Cons.prems(3) c by auto
    moreover have "Stop_task i \<notin> set more" for i using Cons.prems(3) [of i] more(2) c by auto
    moreover have "length more < length clock" using Cons.prems(4) more(2) c by simp
    ultimately show ?thesis using Cons.IH [of ?w more] rest(2) more(1) by simp
  qed
qed simp

text \<open>
  When the logger is destroyed, the file thread finishes the queue and stops, and then every
  promise has been set, the destructor's own included: nobody waits forever.
\<close>

text \<open>C31: When the logger is destroyed, its file thread finishes the queue and stops, and every
  promise has been set: no caller waits forever.\<close>

theorem file_thread_drains:
  assumes "(logger_step env)\<^sup>*\<^sup>* (log_start core_logger files) (w, flight)"
    and "close_logger (fw_logger w) = (ticket, s)" "length (lo_tasks s) \<le> length clock"
  shows "fw_stopped (file_run env clock (with_logger w s)) \<and>
    lo_tasks (fw_logger (file_run env clock (with_logger w s))) = [] \<and>
    fst ` set (lo_results (fw_logger (file_run env clock (with_logger w s)))) = {..ticket}"
proof -
  let ?w = "with_logger w s" and ?e = "file_run env clock (with_logger w s)"
  have "running w" using reachable_running [OF assms(1)] by simp
  have s: "lo_tasks s = lo_tasks (fw_logger w) @ [Stop_task ticket]" "lo_tickets s = Suc ticket"
    using assms(2) by (auto simp: close_logger_def submit_file_task_def Let_def)
  have stops: "fw_stopped ?e \<and> lo_tasks (fw_logger ?e) = []"
    using \<open>running w\<close> s(1) assms(3) unfolding running_def by (intro file_run_stops) auto
  obtain n where "logger_inv 4096 n (w, flight)" using logging.reachable_inv [OF assms(1)] by blast
  then have "file_inv (with_logger w ((fw_logger w)\<lparr>lo_file_enabled := False\<rparr>))"
    using logger_inv_file by (simp add: file_inv_def)
  then have "file_inv ?w" by (rule submit_file_inv [OF assms(2) [unfolded close_logger_def]]) simp
  then have "file_inv ?e \<and> lo_tickets (fw_logger ?e) = lo_tickets s"
  proof -
    have "file_inv v \<Longrightarrow> file_inv (file_run env ts v) \<and> lo_tickets (fw_logger (file_run env ts v)) = lo_tickets (fw_logger v)"
      for ts v
    proof (induction ts arbitrary: v)
      case (Cons t ts)
      have "lo_tickets (fw_logger (file_step env t v)) = lo_tickets (fw_logger v)"
      proof (cases "fw_stopped v \<or> lo_tasks (fw_logger v) = []")
        case False
        then show ?thesis by (cases "lo_tasks (fw_logger v)") (use file_step_rest [of v _ _ env t] in auto)
      qed (simp add: file_step_idle)
      then show ?case using Cons.IH [OF file_step_inv [OF Cons.prems]] by simp
    qed simp
    then show "file_inv ?w \<Longrightarrow> ?thesis" by fastforce
  qed
  then show ?thesis using stops s(2) by (auto simp: file_inv_def tickets_ok_def lessThan_Suc_atMost)
qed

section \<open>Flushing\<close>

lemma take_events_flush:
  "take_events n (map Event_task es @ [Flush_task t]) = (take n es, map Event_task (drop n es) @ [Flush_task t])"
proof (induction n arbitrary: es)
  case (Suc n)
  then show ?case by (cases es) auto
qed simp

text \<open>
  A flush waits for every event that was queued before it, and on a reliable disk the files
  are as if all of them had been written in one batch.
\<close>

theorem flush_writes_all:
  assumes "reliable env" "\<not> fw_stopped w" "sk_enabled (fw_sink w)"
    and "lo_tasks (fw_logger w) = map Event_task es @ [Flush_task t]"
    and "write_file_batch env es (fw_sink w) (fw_files w) = (None, sk, files)"
  shows "\<exists>n. let w' = file_run env (replicate n time) w in
    (t, None) \<in> set (lo_results (fw_logger w')) \<and> lo_tasks (fw_logger w') = [] \<and>
    fw_sink w' = sk \<and> fw_files w' = files"
  using assms(2-5)
proof (induction "length es" arbitrary: w es rule: less_induct)
  case less
  show ?case
  proof (cases es)
    case Nil
    then show ?thesis using less.prems
      by (intro exI [of _ 1]) (auto simp: file_step_def complete_def write_file_batch_def Let_def split: if_splits)
  next
    case (Cons e rest)
    let ?now = "e # take 255 rest" and ?later = "drop 255 rest"
    have es: "es = ?now @ ?later" using Cons by simp
    obtain r sk1 f1 where now: "write_file_batch env ?now (fw_sink w) (fw_files w) = (r, sk1, f1)"
      by (cases "write_file_batch env ?now (fw_sink w) (fw_files w)")
    have whole: "write_file_batch env (?now @ ?later) (fw_sink w) (fw_files w) = (None, sk, files)"
      using less.prems(4) es by simp
    have r: "r = None" and later: "write_file_batch env ?later sk1 f1 = (None, sk, files)"
      using whole unfolding batches_compose [OF assms(1)] now by (auto split: option.splits)
    let ?w = "w\<lparr>fw_logger := (fw_logger w)\<lparr>lo_tasks := map Event_task ?later @ [Flush_task t]\<rparr>,
      fw_sink := sk1, fw_files := f1\<rparr>"
    have step: "file_step env time w = ?w"
      using less.prems now r Cons by (simp add: file_step_def Let_def take_events_flush)
    have shorter: "length ?later < length es" by (simp add: Cons)
    have "sk_enabled sk1" using write_file_batch_enabled [OF now] less.prems(2) by simp
    then obtain n where "let w' = file_run env (replicate n time) ?w in
        (t, None) \<in> set (lo_results (fw_logger w')) \<and> lo_tasks (fw_logger w') = [] \<and>
        fw_sink w' = sk \<and> fw_files w' = files"
      using less.hyps [OF shorter, of ?w] less.prems(1) later by auto
    then show ?thesis using step by (intro exI [of _ "Suc n"]) simp
  qed
qed

section \<open>Samples\<close>

abbreviation no_files :: log_files where
  "no_files \<equiv> \<lambda>_. None"

definition flushing :: file_world where
  "flushing = with_logger (fst (log_start core_logger no_files)) (snd (flush_file core_logger))"

lemma sample_flushing: "logger_step sample_disk_env (log_start core_logger no_files) (flushing, [])"
proof -
  have start: "log_start core_logger no_files = (fst (log_start core_logger no_files), [])"
    "fw_logger (fst (log_start core_logger no_files)) = core_logger"
    by (simp_all add: log_start_def)
  show ?thesis
    unfolding flushing_def
    by (subst start(1), intro worked, rule flushed [where ticket = "fst (flush_file core_logger)"])
      (simp add: start(2))
qed

lemma sample_flushing_run:
  "(logger_step sample_disk_env ^^ 1) (log_start core_logger no_files) (flushing, [])"
  "(logger_step sample_disk_env)\<^sup>*\<^sup>* (log_start core_logger no_files) (flushing, [])"
  using sample_flushing by (simp_all only: relpowp_1 r_into_rtranclp)

theorem logger_invariant_witness:
  "waiting_events (lo_tasks (fw_logger flushing)) \<le> 8192 \<and> table_ok (lo_repeated (fw_logger flushing))"
  using logger_invariant [OF sample_flushing_run(1)] by blast

theorem promises_set_once_witness:
  "distinct (map fst (lo_results (fw_logger flushing))) \<and> Some 0 \<in> task_ticket ` set (lo_tasks (fw_logger flushing))"
proof -
  have "0 < lo_tickets (fw_logger flushing)" "lo_results (fw_logger flushing) = []"
    by (simp_all add: flushing_def flush_file_def submit_file_task_def log_start_def core_logger_def Let_def)
  then show ?thesis
    using promises_set_once [OF sample_flushing_run(2)] by fastforce
qed

theorem file_thread_drains_witness:
  "fw_stopped (file_run sample_disk_env [0, 0] (with_logger flushing (snd (close_logger (fw_logger flushing)))))"
proof -
  have "close_logger (fw_logger flushing) = (1, snd (close_logger (fw_logger flushing)))"
    "length (lo_tasks (snd (close_logger (fw_logger flushing)))) \<le> length [0, 0 :: nat]"
    by (simp_all add: flushing_def flush_file_def submit_file_task_def log_start_def core_logger_def
        close_logger_def Let_def)
  from file_thread_drains [OF sample_flushing_run(2) this] show ?thesis by blast
qed

definition shown :: file_world where
  "shown = with_logger (fst (log_start core_logger no_files))
     (snd (record_event 0 normal ''A'' ''b'' (clean_context no_context) core_logger))"

lemma sample_shown:
  "log_step sample_disk_env (log_start core_logger no_files)
     (shown, [fst (record_event 0 normal ''A'' ''b'' (clean_context no_context) core_logger)])"
proof -
  have "enabled normal core_logger" by code_simp
  moreover have "clean_text 128 ''A'' = ''A''" "clean_text 4096 ''b'' = ''b''" by (simp_all add: clean_text_def code_def)
  moreover have "log_start core_logger no_files = (fst (log_start core_logger no_files), [])"
    "fw_logger (fst (log_start core_logger no_files)) = core_logger"
    by (simp_all add: log_start_def)
  ultimately show ?thesis
    unfolding shown_def
    using recorded [of normal "fst (log_start core_logger no_files)" 0 "''A''" "''b''" no_context _ _ sample_disk_env "[]"]
    by (metis prod.collapse)
qed

lemma sample_logged:
  "logged sample_disk_env no_files [Written 0 normal ''A'' ''b'' no_context] 0
     (shown, [fst (record_event 0 normal ''A'' ''b'' (clean_context no_context) core_logger)])"
proof -
  have "enabled normal core_logger" by code_simp
  moreover have "clean_text 128 ''A'' = ''A''" "clean_text 4096 ''b'' = ''b''" by (simp_all add: clean_text_def code_def)
  moreover have start: "log_start core_logger no_files = (fst (log_start core_logger no_files), [])"
    "fw_logger (fst (log_start core_logger no_files)) = core_logger"
    by (simp_all add: log_start_def)
  moreover have "logged sample_disk_env no_files [] 0 (fst (log_start core_logger no_files), [])"
    using Fresh [of sample_disk_env no_files] start(1) by simp
  ultimately show ?thesis
    using Wrote [of sample_disk_env no_files "[]" 0 "fst (log_start core_logger no_files)" "[]" normal 0 "''A''" "''b''"
        no_context]
    by (simp add: shown_def)
qed

theorem snapshot_complete_witness:
  "log_snapshot normal 0 (fw_logger shown) = [entry_event 1 (Written 0 normal ''A'' ''b'' no_context)]"
  using snapshot_complete [OF sample_logged, of normal 0] by (simp add: numbered_def enum_le_def)

definition sample_calls :: "limit_call list" where
  "sample_calls = [(0, 5, ''k''), (1, 5, ''k''), (2, 5, ''j''), (7, 5, ''k'')]"

theorem suppression_accounts_witness:
  "\<exists>rs table. limit_run sample_calls [] = (rs, table) \<and> 3 = reported ''k'' sample_calls rs + pending_of ''k'' table"
proof -
  obtain rs table where r: "limit_run sample_calls [] = (rs, table)" by (cases "limit_run sample_calls []")
  have "call_key ` set sample_calls = {''j'', ''k''}" by (auto simp: sample_calls_def)
  then have "card (call_key ` set sample_calls) \<le> 256" "length sample_calls < 2 ^ 64" by (simp_all add: sample_calls_def)
  from suppression_accounts [OF r this, of "''k''"] r show ?thesis by (simp add: calls_of_def sample_calls_def)
qed

definition queued_flush :: file_world where
  "queued_flush = \<lparr>fw_logger = core_logger\<lparr>lo_tasks := [Event_task sample_event, Flush_task 0]\<rparr>,
     fw_sink = sample_sink, fw_files = no_files, fw_stopped = False\<rparr>"

theorem flush_writes_all_witness:
  "\<exists>n. fw_files (file_run sample_disk_env (replicate n 0) queued_flush) =
     [''l'' \<mapsto> log_line sample_disk_env sample_event]"
proof -
  have "lo_tasks (fw_logger queued_flush) = map Event_task [sample_event] @ [Flush_task 0]"
    "\<not> fw_stopped queued_flush" "sk_enabled (fw_sink queued_flush)"
    and w: "fw_sink queued_flush = sample_sink" "fw_files queued_flush = no_files"
    by (simp_all add: queued_flush_def sample_sink_def)
  from flush_writes_all [OF sample_reliable this(2,3,1), unfolded w, OF sample_batch, of 0]
  show ?thesis by (auto simp: Let_def)
qed

end
