(* ===== verification/Log_Stream_Facts.thy ===== *)
theory Log_Stream_Facts
  imports Log_Stream Logger_Facts
begin

text \<open>
  Facts on the live log: what the client decodes is what the host recorded, and polling
  delivers every event once and in order.
\<close>

section \<open>Splitting\<close>

lemma split_on_nonempty [simp]: "split_on c xs \<noteq> []"
  by (cases xs) simp_all

lemma split_on_single: "c \<notin> set xs \<Longrightarrow> split_on c xs = [xs]"
  by (induction xs) auto

lemma split_on_append: "c \<notin> set xs \<Longrightarrow> split_on c (xs @ c # ys) = xs # split_on c ys"
  by (induction xs) auto

lemma split_lines:
  "(\<And>l. l \<in> set ls \<Longrightarrow> c \<notin> set l) \<Longrightarrow> split_on c (concat (map (\<lambda>l. l @ [c]) ls)) = ls @ [[]]"
proof (induction ls)
  case (Cons l ls)
  then show ?case using split_on_append [of c l "concat (map (\<lambda>l. l @ [c]) ls)"] by simp
qed simp

section \<open>What the client asks of Qt\<close>

text \<open>
  The decoder, without the byte order mark at the start of a text: UTF-8 text is converted piece
  by piece around ASCII characters, other bytes never become ASCII (also when they are
  malformed), and decimal numbers in range are read.
\<close>

definition utf8_law :: "(string \<Rightarrow> qstring) \<Rightarrow> bool" where
  "utf8_law conv \<longleftrightarrow>
     conv [] = [] \<and>
     (\<forall>xs c ys. code c < 128 \<longrightarrow> conv (xs @ c # ys) = conv xs @ code c # conv ys) \<and>
     (\<forall>xs. (\<forall>c \<in> set xs. 128 \<le> code c) \<longrightarrow> (\<forall>u \<in> set (conv xs). 128 \<le> u))"

definition number_law :: "qt \<Rightarrow> bool" where
  "number_law q \<longleftrightarrow>
     (\<forall>n < 2 ^ 64. qt_ulonglong q (lit (to_string n)) = Some n) \<and>
     (\<forall>n < 2 ^ 63. qt_longlong q (lit (to_string n)) = Some (int n))"

lemma lit_simps [simp]: "lit [] = []" "lit (c # s) = code c # lit s" "lit (s @ t) = lit s @ lit t"
  by (simp_all add: lit_def)

lemma utf8_ascii:
  assumes "utf8_law conv" "\<forall>c \<in> set xs. code c < 128"
  shows "conv (xs @ ys) = lit xs @ conv ys"
  using assms(2)
proof (induction xs)
  case (Cons c xs)
  then have "conv ([] @ c # (xs @ ys)) = conv [] @ code c # conv (xs @ ys)"
    using assms(1) unfolding utf8_law_def by (metis list.set_intros(1))
  moreover have "conv [] = []" using assms(1) by (simp add: utf8_law_def)
  ultimately show ?case using Cons by simp
qed simp

lemma utf8_lit: "utf8_law conv \<Longrightarrow> \<forall>c \<in> set xs. code c < 128 \<Longrightarrow> conv xs = lit xs"
  using utf8_ascii [of conv xs "[]"] by (simp add: utf8_law_def)

lemma utf8_cut: "utf8_law conv \<Longrightarrow> code c < 128 \<Longrightarrow> conv (xs @ c # ys) = conv xs @ code c # conv ys"
  unfolding utf8_law_def by blast

lemma utf8_no_ascii:
  assumes "utf8_law conv" "n < 128" "n \<notin> code ` set xs"
  shows "n \<notin> set (conv xs)"
  using assms(3)
proof (induction "length xs" arbitrary: xs rule: less_induct)
  case less
  show ?case
  proof (cases "\<exists>c \<in> set xs. code c < 128")
    case True
    then obtain ys c zs where s: "xs = ys @ c # zs" "code c < 128" "\<forall>y \<in> set ys. \<not> code y < 128"
      using split_list_first_prop [of xs "\<lambda>c. code c < 128"] by blast
    have "n \<notin> code ` set ys" "n \<notin> code ` set zs" using less.prems s(1) by auto
    then have "n \<notin> set (conv ys)" "n \<notin> set (conv zs)" using less.hyps [of ys] less.hyps [of zs] s(1) by simp_all
    moreover have "n \<noteq> code c" using less.prems s(1) by auto
    ultimately show ?thesis using utf8_cut [OF assms(1) s(2)] s(1) by simp
  next
    case False
    then have "\<forall>u \<in> set (conv xs). 128 \<le> u" using assms(1) unfolding utf8_law_def by (meson not_less)
    with assms(2) show ?thesis by auto
  qed
qed

lemma to_string_ascii: "\<forall>c \<in> set (to_string n). code c < 128"
  using to_string_digits [of n] by (auto simp: list_all_iff is_digit_def)

lemma to_string_plain: "n \<notin> code ` set (to_string m)" if "n < 32"
  using to_string_digits [of m] that by (auto simp: list_all_iff is_digit_def)

section \<open>Records of events\<close>

text \<open>An event without control characters, at a time the client can represent.\<close>

definition plain :: "string \<Rightarrow> bool" where
  "plain s \<longleftrightarrow> (\<forall>c \<in> set s. 32 \<le> code c)"

definition plain_event :: "log_event \<Rightarrow> bool" where
  "plain_event e \<longleftrightarrow> plain (ev_code e) \<and> plain (ev_message e) \<and> plain (cx_address (ev_context e)) \<and>
     plain (cx_dns_type (ev_context e)) \<and> plain (cx_rule (ev_context e)) \<and> plain (cx_action (ev_context e))"

definition sendable :: "qt \<Rightarrow> log_event \<Rightarrow> bool" where
  "sendable q e \<longleftrightarrow> plain_event e \<and> ev_time e < 2 ^ 63 \<and> qt_valid_time q (int (ev_time e))"

definition record_of :: "qt \<Rightarrow> log_event \<Rightarrow> log_record" where
  "record_of q e = recover_route q
     \<lparr>lr_sequence = unat (ev_sequence e), lr_time = int (ev_time e), lr_code = qt_utf8 q (ev_code e),
      lr_message = qt_utf8 q (ev_message e), lr_address = qt_utf8 q (cx_address (ev_context e)),
      lr_dns_type = qt_utf8 q (cx_dns_type (ev_context e)), lr_rule = qt_utf8 q (cx_rule (ev_context e)),
      lr_action = qt_utf8 q (cx_action (ev_context e)), lr_error = (ev_level e = errors_only)\<rparr>"

text \<open>The longest prefix whose lines fit into one reply.\<close>

fun shipped :: "bool \<Rightarrow> nat \<Rightarrow> log_event list \<Rightarrow> log_event list" where
  "shipped structured written [] = []"
| "shipped structured written (e # es) =
     (let n = written + length (event_line structured e) in
      if n > max_log_reply then [] else e # shipped structured n es)"

lemma log_lines_shipped: "log_lines structured written es = concat (map (event_line structured) (shipped structured written es))"
  by (induction es arbitrary: written) (simp_all add: Let_def)

lemma shipped_prefix: "prefix (shipped structured written es) es"
  by (induction es arbitrary: written) (simp_all add: Let_def)

lemma log_lines_length: "written \<le> max_log_reply \<Longrightarrow> written + length (log_lines structured written es) \<le> max_log_reply"
proof (induction es arbitrary: written)
  case (Cons e es)
  show ?case
  proof (cases "written + length (event_line structured e) > max_log_reply")
    case False
    from Cons.IH [OF this [unfolded not_less]] show ?thesis using False by (simp add: Let_def add.assoc)
  qed (use Cons.prems in simp)
qed simp

lemma plain_lit: "plain s \<Longrightarrow> n < 32 \<Longrightarrow> n \<notin> code ` set s"
  by (auto simp: plain_def)

lemma to_string_zero: "to_string n = ''0'' \<longleftrightarrow> n = 0"
proof -
  have "to_string 0 = ''0''" by code_simp
  then show ?thesis by (metis to_string_inj)
qed

lemma lit_inj: "lit s = lit t \<longleftrightarrow> s = t"
  by (simp add: lit_def inj_map_eq_map inj_def code_inj)

lemma decode_event:
  assumes "utf8_law (qt_utf8 q)" "number_law q" "sendable q e"
  shows "\<exists>line. qt_utf8 q (event_line True e @ rest) = line @ 10 # qt_utf8 q rest \<and> 10 \<notin> set line \<and> line \<noteq> [] \<and>
    decode_line q line = Some (record_of q e)"
proof -
  let ?u = "qt_utf8 q" and ?cx = "ev_context e"
  have first: "qt_utf8 q (c # s) = code c # qt_utf8 q s" if "code c < 128" for c s
    using utf8_cut [OF assms(1) that, of "[]" s] assms(1) by (simp add: utf8_law_def)
  note cut = utf8_cut [OF assms(1)] first and ascii = utf8_ascii [OF assms(1) to_string_ascii]
  let ?fields = "[lit (to_string (unat (ev_sequence e))), lit (to_string (unat (ev_level e))),
    lit (to_string (ev_time e)), ?u (ev_code e), ?u (ev_message e), ?u (cx_address ?cx),
    ?u (cx_dns_type ?cx), ?u (cx_rule ?cx), ?u (cx_action ?cx)]"
  let ?line = "join_with 9 ?fields"
  have c: "code tab = 9" "code newline = 10" by (simp_all add: code_def)
  have plain: "plain_event e" using assms(3) by (simp add: sendable_def)
  have clean: "n \<notin> set f" if "f \<in> set ?fields" "n < 32" for f n
  proof -
    have "n \<notin> set (?u s)" if "plain s" for s
      using utf8_no_ascii [OF assms(1)] plain_lit [OF that \<open>n < 32\<close>] \<open>n < 32\<close> by simp
    moreover have "n \<notin> set (lit (to_string m))" for m
      using to_string_plain [OF \<open>n < 32\<close>] by (simp add: lit_def)
    ultimately show ?thesis using that(1) plain by (auto simp: plain_event_def)
  qed
  have "?u (event_line True e @ rest) = ?line @ 10 # ?u rest"
    by (simp add: event_line_def ascii cut c)
  moreover have "10 \<notin> set ?line" using clean [of _ 10] by simp
  moreover have "?line \<noteq> []" by simp
  moreover have split: "split_on 9 ?line = ?fields"
    using clean [of _ 9] by (simp add: split_on_append split_on_single)
  have "decode_line q ?line = Some (record_of q e)"
  proof -
    have "unat (ev_sequence e) < 2 ^ LENGTH(64)" by (rule unsigned_less)
    then have in_range: "unat (ev_sequence e) < 18446744073709551616" by simp
    have n: "qt_ulonglong q (lit (to_string (unat (ev_sequence e)))) = Some (unat (ev_sequence e))"
      "qt_longlong q (lit (to_string (ev_time e))) = Some (int (ev_time e))"
      "qt_valid_time q (int (ev_time e))"
      using assms(2,3) in_range by (simp_all add: number_law_def sendable_def)
    have z: "lit (to_string (unat (ev_level e))) = lit ''0'' \<longleftrightarrow> ev_level e = 0"
      by (simp only: lit_inj to_string_zero unat_eq_0)
    then have "lit (to_string (unat (ev_level e))) = [48] \<longleftrightarrow> ev_level e = 0" by (simp add: code_def)
    note z = z this
    show ?thesis unfolding decode_line_def split Let_def by (simp add: n z record_of_def)
  qed
  ultimately show ?thesis by blast
qed

lemma decode_lines:
  assumes "utf8_law (qt_utf8 q)" "number_law q" "\<And>e. e \<in> set es \<Longrightarrow> sendable q e"
  shows "decode_log_records q (qt_utf8 q (concat (map (event_line True) es))) = map (record_of q) es"
  using assms(3)
proof (induction es)
  case Nil
  then show ?case using assms(1) by (simp add: utf8_law_def decode_log_records_def)
next
  case (Cons e es)
  obtain line where "qt_utf8 q (event_line True e @ concat (map (event_line True) es)) =
      line @ 10 # qt_utf8 q (concat (map (event_line True) es))" "10 \<notin> set line" "line \<noteq> []"
      "decode_line q line = Some (record_of q e)"
    using decode_event [OF assms(1,2), of e] Cons.prems by auto
  then show ?case using Cons by (simp add: decode_log_records_def split_on_append)
qed

text \<open>The reply to a structured request is decoded to the records of the events it has room for.\<close>

theorem log_reply_decoded:
  assumes "utf8_law (qt_utf8 q)" "number_law q" "\<And>e. e \<in> set es \<Longrightarrow> sendable q e"
  shows "prefix (shipped True 0 es) es \<and> length (log_lines True 0 es) \<le> max_log_reply \<and>
    decode_log_records q (qt_utf8 q (log_lines True 0 es)) = map (record_of q) (shipped True 0 es)"
proof -
  have "sendable q e" if "e \<in> set (shipped True 0 es)" for e
    using that assms(3) set_mono_prefix [OF shipped_prefix] by blast
  then show ?thesis
    using decode_lines [OF assms(1,2)] shipped_prefix log_lines_length [of 0 True es] by (simp add: log_lines_shipped)
qed

section \<open>Polling\<close>

text \<open>The events of the ring are in the order of their sequence numbers.\<close>

definition ring_sorted :: "logger \<Rightarrow> bool" where
  "ring_sorted s \<longleftrightarrow> sorted_wrt (<) (map ev_sequence (lo_events s)) \<and>
     (\<forall>e \<in> set (lo_events s). ev_sequence e \<le> lo_sequence s)"

lemma ring_ok_sorted: "ring_ok s \<Longrightarrow> ring_sorted s"
proof -
  assume r: "ring_ok s"
  then have m: "map (\<lambda>e. unat (ev_sequence e)) (lo_events s) =
      [unat (lo_sequence s) + 1 - length (lo_events s) ..< unat (lo_sequence s) + 1]"
    by (simp add: ring_ok_def del: upt_Suc)
  have "sorted_wrt (<) (map (\<lambda>e. unat (ev_sequence e)) (lo_events s))"
    unfolding m by (rule sorted_wrt_upt)
  then have "sorted_wrt (<) (map ev_sequence (lo_events s))"
    by (simp add: sorted_wrt_map word_less_nat_alt)
  moreover have "ev_sequence e \<le> lo_sequence s" if "e \<in> set (lo_events s)" for e
  proof -
    have "unat (ev_sequence e) \<in> set (map (\<lambda>e. unat (ev_sequence e)) (lo_events s))" using that by simp
    then show ?thesis unfolding m by (auto simp: word_le_nat_alt simp del: upt_Suc)
  qed
  ultimately show ?thesis by (simp add: ring_sorted_def)
qed

text \<open>A request of the client and its text.\<close>

lemma takeWhile_field: "tab \<notin> set xs \<Longrightarrow> takeWhile (\<lambda>c. c \<noteq> tab) (xs @ tab # ys) = xs"
  "tab \<notin> set xs \<Longrightarrow> dropWhile (\<lambda>c. c \<noteq> tab) (xs @ tab # ys) = tab # ys"
  "tab \<notin> set xs \<Longrightarrow> takeWhile (\<lambda>c. c \<noteq> tab) xs = xs"
  "tab \<notin> set xs \<Longrightarrow> dropWhile (\<lambda>c. c \<noteq> tab) xs = []"
  by (auto simp: takeWhile_append dropWhile_append takeWhile_eq_all_conv)

lemma request_of_text:
  assumes "n < 2 ^ 64" "unat screen \<le> 3"
  shows "logs_request other (logs_text n screen @ structured_suffix) =
    Inr \<lparr>lq_structured = True, lq_after = of_nat n, lq_wait = 0, lq_level = screen\<rparr>"
proof -
  let ?t = "to_string n @ tab # ''0'' @ tab # to_string (unat screen)"
  have len: "length structured_suffix = 11" by (simp add: structured_suffix_def)
  have "take (length (xs @ structured_suffix) - 11) (xs @ structured_suffix) = xs" for xs by (simp add: len)
  from this [of ?t] have "take (length (?t @ structured_suffix) - 11) (?t @ structured_suffix) = ?t" .
  moreover have "suffix structured_suffix (?t @ structured_suffix)" by (simp add: suffix_def)
  moreover have "from_chars (2 ^ 64) ''0'' = Some 0" by (simp add: from_chars_def is_digit_def digits_value_def code_def)
  moreover have "from_chars (2 ^ 64) (to_string n) = Some n" "from_chars (2 ^ 64) (to_string (unat screen)) = Some (unat screen)"
    using assms by (simp_all add: from_chars_to_string)
  moreover have "code tab = 9" by (simp add: code_def)
  then have "tab \<notin> set (to_string m)" for m using to_string_plain [of 9 m] by force
  ultimately show ?thesis
    using assms(2) unfolding logs_request_def logs_text_def Let_def append_assoc append_Cons
    by (simp add: takeWhile_field)
qed

lemma to_string_length: "length (to_string n) \<le> n + 1"
proof (induction n rule: to_string.induct)
  case (1 n)
  show ?case
  proof (cases "n < 10")
    case False
    then have "length (to_string (n div 10)) \<le> n div 10 + 1" using 1 by simp
    then show ?thesis using False by (subst to_string.simps) simp
  qed (subst to_string.simps, simp)
qed

lemma to_string_short: "n < 10 ^ k \<Longrightarrow> 0 < k \<Longrightarrow> length (to_string n) \<le> k"
proof (induction k arbitrary: n)
  case (Suc k)
  show ?case
  proof (cases "n < 10")
    case True
    then show ?thesis by (subst to_string.simps) simp
  next
    case False
    then have "n div 10 < 10 ^ k" "0 < k" using Suc.prems by (auto intro: gr0I)
    then show ?thesis using Suc.IH [of "n div 10"] False by (subst to_string.simps) simp
  qed
qed simp

text \<open>One refresh gets the structured lines of the snapshot after the client's sequence.\<close>

abbreviation log_server :: "level \<Rightarrow> logger \<Rightarrow> link \<Rightarrow> packet \<Rightarrow> packet" where
  "log_server other s link \<equiv> serve_connection link (log_endpoint (\<lambda>operation. logs_reply other s s))"

lemma log_answer:
  assumes "n < 2 ^ 64" "unat screen \<le> 3"
  shows "answer_of (log_endpoint (\<lambda>operation. logs_reply other s s) Op_logs (logs_text n screen @ structured_suffix)) =
    \<lparr>ir_status = 0, ir_payload = log_lines True 0 (log_snapshot screen (of_nat n) s)\<rparr>"
  by (simp add: log_endpoint_def logs_reply_def request_of_text [OF assms] answer_of_def)

lemma refresh_text:
  assumes "n < 2 ^ 64" "unat screen \<le> 3" "number1 \<noteq> 0"
  shows "refresh_logs (log_server other s) (link, number1) second n screen \<in>
      {[], log_lines True 0 (log_snapshot screen (of_nat n) s)}"
    and "refresh_logs (log_server other s) (whole_link, number1) second n screen =
      log_lines True 0 (log_snapshot screen (of_nat n) s)"
proof -
  let ?t = "logs_text n screen @ structured_suffix" and ?h = "log_endpoint (\<lambda>operation. logs_reply other s s)"
  show "refresh_logs (log_server other s) (link, number1) second n screen \<in>
      {[], log_lines True 0 (log_snapshot screen (of_nat n) s)}"
  proof (cases "pipe_request link (log_server other s link) number1 Op_logs ?t")
    case (Inr x)
    from exchange_sound(1) [OF assms(3) this] show ?thesis
      using Inr by (simp add: refresh_logs_def log_answer [OF assms(1,2)])
  qed (simp add: refresh_logs_def)
  have "n < 10 ^ 20" using assms(1) by simp
  then have "length (to_string n) \<le> 20" by (rule to_string_short) simp
  moreover have "length (to_string (unat screen)) \<le> 4" using to_string_length [of "unat screen"] assms(2) by simp
  ultimately have short: "length ?t \<le> unat ipc_max_payload"
    by (simp add: logs_text_def structured_suffix_def max_payload)
  have reply: "length (log_lines True 0 es) \<le> unat ipc_max_payload" for es
    using log_lines_length [of 0 True es] by (simp add: max_payload max_log_reply_def)
  have "pipe_request whole_link (log_server other s whole_link) number1 Op_logs ?t =
      Inr \<lparr>ir_status = 0, ir_payload = log_lines True 0 (log_snapshot screen (of_nat n) s)\<rparr>"
    using exchange_answer [OF assms(3) short, where operation = Op_logs and handler = ?h]
      reply by (simp add: log_answer [OF assms(1,2)])
  then show "refresh_logs (log_server other s) (whole_link, number1) second n screen =
      log_lines True 0 (log_snapshot screen (of_nat n) s)"
    by (simp add: refresh_logs_def)
qed

text \<open>A reply begins with a digit, so it has no byte order mark.\<close>

lemma from_utf8_reply: "from_utf8 q (log_lines structured 0 es) = qt_utf8 q (log_lines structured 0 es)"
proof -
  have "\<not> prefix byte_order_mark (event_line structured e @ rest)" for e rest
  proof
    assume p: "prefix byte_order_mark (event_line structured e @ rest)"
    obtain c cs where digits: "to_string (unat (ev_sequence e)) = c # cs"
      by (metis to_string_nonempty neq_Nil_conv)
    with p have "c = CHR 0xEF" by (simp add: byte_order_mark_def event_line_def)
    then show False using to_string_ascii [of "unat (ev_sequence e)"] digits by (simp add: code_def)
  qed
  then have "\<not> prefix byte_order_mark (log_lines structured 0 es)"
    by (cases es) (auto simp: Let_def byte_order_mark_def)
  then show ?thesis by (simp add: from_utf8_def)
qed

text \<open>The timer of the client, while the host records nothing: one poll after the other.\<close>

fun poll_logs ::
  "qt \<Rightarrow> (link \<Rightarrow> packet \<Rightarrow> packet) \<Rightarrow> (attempt \<times> attempt) list \<Rightarrow> level \<Rightarrow> nat \<Rightarrow> log_record list \<times> nat" where
  "poll_logs q server [] screen seq = ([], seq)"
| "poll_logs q server ((first, second) # polls) screen seq =
     (let text = refresh_logs server first second seq screen;
          (records, seq) = append_log_lines q (from_utf8 q text) seq;
          (more, seq) = poll_logs q server polls screen seq in
      (records @ more, seq))"

lemma lr_sequence_record [simp]: "lr_sequence (record_of q e) = unat (ev_sequence e)"
  by (simp add: record_of_def recover_route_def split: option.splits prod.splits)

lemma fold_max_last:
  assumes "sorted_wrt (<) (map f es)" "\<And>e. e \<in> set es \<Longrightarrow> n < f e" "es \<noteq> []"
  shows "fold (\<lambda>r n. max n (f r)) es n = (f (last es) :: nat)"
  using assms
proof (induction es arbitrary: n)
  case (Cons e es)
  then have "max n (f e) = f e" by simp
  then show ?case using Cons by (cases "es = []") auto
qed simp

lemma sorted_filter_last:
  assumes "sorted_wrt (<) (map f (xs @ x # ys))"
  shows "filter (\<lambda>e. f x < (f e :: 'b :: linorder)) (xs @ x # ys) = ys"
proof -
  have "filter (\<lambda>e. f x < f e) xs = []" using assms by (auto simp: sorted_wrt_append filter_empty_conv)
  moreover have "filter (\<lambda>e. f x < f e) ys = ys" using assms by (auto simp: sorted_wrt_append intro: filter_True)
  ultimately show ?thesis by simp
qed

lemma snapshot_sorted: "ring_sorted s \<Longrightarrow> sorted_wrt (<) (map ev_sequence (log_snapshot lvl after s))"
  by (simp add: ring_sorted_def log_snapshot_def events_after_def sorted_wrt_map sorted_wrt_filter)

lemma snapshot_step:
  assumes "ring_sorted s" "after \<le> lo_sequence s" "log_snapshot lvl after s = xs @ x # ys"
  shows "log_snapshot lvl (ev_sequence x) s = ys" "after < ev_sequence x" "ev_sequence x \<le> lo_sequence s"
proof -
  have "x \<in> set (log_snapshot lvl after s)" by (simp add: assms(3))
  then have x: "x \<in> set (lo_events s)" "after < ev_sequence x"
    using assms(2) by (auto simp: log_snapshot_def events_after_def start_after_def not_less split: if_splits)
  then show "after < ev_sequence x" "ev_sequence x \<le> lo_sequence s" using assms(1) by (auto simp: ring_sorted_def)
  then have "log_snapshot lvl (ev_sequence x) s = filter (\<lambda>e. ev_sequence x < ev_sequence e) (log_snapshot lvl after s)"
    using assms(2) by (auto simp: log_snapshot_def events_after_def start_after_def intro!: filter_cong)
  also have "\<dots> = ys"
    unfolding assms(3) using snapshot_sorted [OF assms(1), of lvl after] by (intro sorted_filter_last) (simp add: assms(3))
  finally show "log_snapshot lvl (ev_sequence x) s = ys" .
qed

lemma poll_step:
  assumes laws: "utf8_law (qt_utf8 q)" "number_law q"
    and screen: "unat screen \<le> 3"
    and ring: "ring_sorted s" "n \<le> unat (lo_sequence s)"
    and events: "\<And>e. e \<in> set (lo_events s) \<Longrightarrow> sendable q e \<and> length (event_line True e) \<le> max_log_reply"
    and es: "log_snapshot screen (of_nat n) s = es" "es \<noteq> []"
  obtains now later m where "es = now @ later" "now \<noteq> []" "m \<le> unat (lo_sequence s)"
    "append_log_lines q (from_utf8 q (log_lines True 0 es)) n = (map (record_of q) now, m)"
    "m = unat (ev_sequence (last now))" "log_snapshot screen (of_nat m) s = later"
proof -
  let ?now = "shipped True 0 es"
  have "unat (lo_sequence s) < 2 ^ LENGTH(64)" by (rule unsigned_less)
  with ring(2) have n: "n < 2 ^ 64" by simp
  then have un: "unat (of_nat n :: 64 word) = n" by (simp add: unat_of_nat)
  have mem: "e \<in> set (lo_events s)" if "e \<in> set es" for e
    using that es(1) by (auto simp: log_snapshot_def events_after_def)
  have "length (event_line True (hd es)) \<le> max_log_reply" using events mem es(2) by simp
  then have "?now \<noteq> []" using es(2) by (cases es) (simp_all add: Let_def)
  then obtain xs x where now: "?now = xs @ [x]" by (metis rev_exhaust)
  obtain later where later: "es = ?now @ later" using shipped_prefix by (metis prefix_def)
  have after: "of_nat n \<le> lo_sequence s" using ring(2) un by (simp add: word_le_nat_alt)
  note step = snapshot_step [OF ring(1) after, of screen xs x later]
  have cut: "log_snapshot screen (of_nat n) s = xs @ x # later" using es(1) later now by simp
  have sorted: "sorted_wrt (<) (map (\<lambda>e. unat (ev_sequence e)) ?now)"
    using snapshot_sorted [OF ring(1), of screen "of_nat n"] later
    by (simp add: es(1) sorted_wrt_map word_less_nat_alt) (metis sorted_wrt_append)
  have above: "n < unat (ev_sequence e)" if "e \<in> set ?now" for e
  proof -
    have "e \<in> set es" using that later by (metis Un_iff set_append)
    then show ?thesis
      using es(1) after un by (auto simp: log_snapshot_def events_after_def start_after_def word_less_nat_alt word_le_nat_alt)
  qed
  have "fold (\<lambda>r n. max n (lr_sequence r)) (map (record_of q) ?now) n = unat (ev_sequence x)"
    using fold_max_last [OF sorted above] now by (simp add: fold_map comp_def)
  moreover have "decode_log_records q (qt_utf8 q (log_lines True 0 es)) = map (record_of q) ?now"
    using decode_lines [OF laws, of ?now] later events mem
    by (simp add: log_lines_shipped) (metis Un_iff set_append)
  ultimately have "append_log_lines q (from_utf8 q (log_lines True 0 es)) n = (map (record_of q) ?now, unat (ev_sequence x))"
    by (simp add: append_log_lines_def from_utf8_reply Let_def)
  moreover have "unat (ev_sequence x) \<le> unat (lo_sequence s)" using step(3) [OF cut] by (simp add: word_le_nat_alt)
  moreover have "last ?now = x" by (simp add: now)
  ultimately show ?thesis using that later \<open>?now \<noteq> []\<close> step(1) [OF cut] by simp
qed

text \<open>A poll that is cut short delivers nothing and is as if it had not been made.\<close>

abbreviation whole :: "attempt \<times> attempt \<Rightarrow> bool" where
  "whole p \<equiv> fst (fst p) = whole_link"

lemma nothing_appended: "utf8_law (qt_utf8 q) \<Longrightarrow> append_log_lines q (from_utf8 q []) n = ([], n)"
  by (simp add: append_log_lines_def from_utf8_def byte_order_mark_def utf8_law_def decode_log_records_def)

lemma poll_all:
  assumes laws: "utf8_law (qt_utf8 q)" "number_law q"
    and screen: "unat screen \<le> 3" "\<forall>p \<in> set polls. snd (fst p) \<noteq> 0"
    and ring: "ring_sorted s" "n \<le> unat (lo_sequence s)"
    and events: "\<And>e. e \<in> set (lo_events s) \<Longrightarrow> sendable q e \<and> length (event_line True e) \<le> max_log_reply"
  shows "\<exists>k. poll_logs q (log_server other s) polls screen n =
      (map (record_of q) (take k (log_snapshot screen (of_nat n) s)),
       if k = 0 then n else unat (ev_sequence (log_snapshot screen (of_nat n) s ! (k - 1)))) \<and>
    k \<le> length (log_snapshot screen (of_nat n) s) \<and>
    (length (log_snapshot screen (of_nat n) s) \<le> length (filter whole polls) \<longrightarrow>
      k = length (log_snapshot screen (of_nat n) s))"
  using screen(2) ring(2)
proof (induction polls arbitrary: n)
  case Nil
  then show ?case by (intro exI [of _ 0]) simp
next
  case (Cons p polls)
  obtain link number second where p: "p = ((link, number), second)" by (cases p) auto
  let ?es = "log_snapshot screen (of_nat n) s"
  have "unat (lo_sequence s) < 2 ^ LENGTH(64)" by (rule unsigned_less)
  with Cons.prems(2) have n: "n < 2 ^ 64" by simp
  have "number \<noteq> 0" using Cons.prems(1) p by simp
  note got = refresh_text [OF n screen(1) this, of other s]
  let ?text = "refresh_logs (log_server other s) (link, number) second n screen"
  show ?case
  proof (cases "?text = []")
    case True
    have "?es = []" if "whole p"
    proof (rule ccontr)
      assume "?es \<noteq> []"
      then obtain e es where e: "?es = e # es" by (meson neq_Nil_conv)
      then have "e \<in> set ?es" by simp
      then have "length (event_line True e) \<le> max_log_reply"
        using events by (auto simp: log_snapshot_def events_after_def)
      then have "log_lines True 0 ?es \<noteq> []" by (simp add: e Let_def event_line_def)
      then show False using got(2) [of second] True that p by simp
    qed
    moreover have "poll_logs q (log_server other s) (p # polls) screen n = poll_logs q (log_server other s) polls screen n"
      using True nothing_appended [OF laws(1)] by (simp add: p split: prod.split)
    ultimately show ?thesis using Cons.IH [of n] Cons.prems by (auto split: if_splits)
  next
    case False
    then have now: "?text = log_lines True 0 ?es" using got(1) [of link second] by auto
    with False have "?es \<noteq> []" by auto
    note step = poll_step [OF laws screen(1) ring(1) Cons.prems(2) events refl this]
    obtain now later m where one: "?es = now @ later" "now \<noteq> []" "m \<le> unat (lo_sequence s)"
        "append_log_lines q (from_utf8 q (log_lines True 0 ?es)) n = (map (record_of q) now, m)"
        "m = unat (ev_sequence (last now))" "log_snapshot screen (of_nat m) s = later"
      by (rule step) ((assumption | rule that)+)
    from Cons.IH [of m] Cons.prems(1) one(3,6) obtain k where k:
        "poll_logs q (log_server other s) polls screen m =
          (map (record_of q) (take k later), if k = 0 then m else unat (ev_sequence (later ! (k - 1))))"
        "k \<le> length later" "length later \<le> length (filter whole polls) \<longrightarrow> k = length later"
      by auto
    have run: "poll_logs q (log_server other s) (p # polls) screen n =
        (map (record_of q) (now @ take k later), if k = 0 then m else unat (ev_sequence (later ! (k - 1))))"
      using k(1) now one(4) by (simp add: p)
    have next_one: "(if k = 0 then m else unat (ev_sequence (later ! (k - 1)))) =
        unat (ev_sequence (?es ! (length now + k - 1)))"
      using one(2,5) unfolding one(1) by (cases k) (simp_all add: nth_append last_conv_nth)
    have taken: "now @ take k later = take (length now + k) ?es" by (simp add: one(1))
    have enough: "length later \<le> length (filter whole polls)" if "length ?es \<le> length (filter whole (p # polls))"
    proof -
      have "length (filter whole (p # polls)) \<le> Suc (length (filter whole polls))" by simp
      moreover have "0 < length now" using one(2) by simp
      ultimately show ?thesis using that unfolding one(1) length_append by linarith
    qed
    have "length now + k \<noteq> 0" using one(2) by simp
    then have "poll_logs q (log_server other s) (p # polls) screen n =
        (map (record_of q) (take (length now + k) ?es),
         if length now + k = 0 then n else unat (ev_sequence (?es ! (length now + k - 1))))"
      unfolding run next_one taken by (simp only: if_False)
    moreover have "length now + k \<le> length ?es" using k(2) by (simp add: one(1))
    moreover have "length now + k = length ?es" if "length ?es \<le> length (filter whole (p # polls))"
      using k(3) enough [OF that] by (simp add: one(1))
    ultimately show ?thesis by blast
  qed
qed

text \<open>
  What the client can represent: a time of Qt, and from the file thread a message without control
  characters and below the size of a reply.  What \<open>write\<close> records is always short and plain.
\<close>

fun displayable :: "qt \<Rightarrow> log_entry \<Rightarrow> bool" where
  "displayable q (Written time lvl err message context) \<longleftrightarrow> time < 2 ^ 63 \<and> qt_valid_time q (int time)"
| "displayable q (File_failed time message) \<longleftrightarrow>
     time < 2 ^ 63 \<and> qt_valid_time q (int time) \<and> plain message \<and> length message \<le> 1000000"

lemma clean_plain: "plain (clean_text limit t)"
  by (auto simp: plain_def clean_text_def code_def dest!: in_set_takeD)

lemma clean_length: "length (clean_text limit t) \<le> limit"
  by (simp add: clean_text_def)

lemma event_line_length:
  assumes "ev_time e < 2 ^ 63"
  shows "length (event_line True e) \<le> 58 + length (ev_code e) + length (ev_message e) +
    length (cx_address (ev_context e)) + length (cx_dns_type (ev_context e)) +
    length (cx_rule (ev_context e)) + length (cx_action (ev_context e))"
proof -
  have "unat (ev_sequence e) < 2 ^ LENGTH(64)" by (rule unsigned_less)
  then have "unat (ev_sequence e) < 10 ^ 20" by simp
  from to_string_short [OF this] have "length (to_string (unat (ev_sequence e))) \<le> 20" by simp
  moreover have "unat (ev_level e) < 2 ^ LENGTH(32)" by (rule unsigned_less)
  then have "unat (ev_level e) < 10 ^ 10" by simp
  from to_string_short [OF this] have "length (to_string (unat (ev_level e))) \<le> 10" by simp
  moreover have "ev_time e < 10 ^ 19" using assms by simp
  from to_string_short [OF this] have "length (to_string (ev_time e)) \<le> 19" by simp
  ultimately show ?thesis by (simp add: event_line_def)
qed

lemma entry_sendable:
  assumes "displayable q x"
  shows "sendable q (entry_event n x) \<and> length (event_line True (entry_event n x)) \<le> max_log_reply"
proof (cases x)
  case (Written time lvl err message cx)
  note short = clean_length [of 128 err] clean_length [of 4096 message] clean_length [of 4096 "cx_address cx"]
    clean_length [of 4096 "cx_dns_type cx"] clean_length [of 4096 "cx_rule cx"] clean_length [of 4096 "cx_action cx"]
  have "length (event_line True (entry_event n x)) \<le> 58 + 128 + 5 * 4096"
    using event_line_length [of "entry_event n x"] assms short by (simp add: Written clean_context_def)
  then show ?thesis using assms
    by (simp add: Written sendable_def plain_event_def clean_context_def clean_plain max_log_reply_def)
next
  case (File_failed time message)
  have "length (event_line True (entry_event n x)) \<le> 58 + 15 + 1000000"
    using event_line_length [of "entry_event n x"] assms by (simp add: File_failed no_context_def)
  then show ?thesis using assms
    by (simp add: File_failed sendable_def plain_event_def no_context_def plain_def code_def max_log_reply_def)
qed

lemma logged_displayable:
  assumes "logged env files history gone (w, flight)" "\<forall>x \<in> set history. displayable q x"
    and "e \<in> set (lo_events (fw_logger w))"
  shows "sendable q e \<and> length (event_line True e) \<le> max_log_reply"
proof -
  have "e \<in> set (numbered history)"
    using logged_ring [OF assms(1)] assms(3) by (auto simp: ring_holds_def dest: in_set_dropD)
  then obtain n where n: "0 < n" "n \<le> length history" "e = entry_event n (history ! (n - 1))"
    by (metis numbered_sequence)
  then have "history ! (n - 1) \<in> set history" by simp
  with n(3) entry_sendable assms(2) show ?thesis by blast
qed

text \<open>The events of a history that a client at \<open>n\<close> has not seen and that are still in the ring.\<close>

definition missed :: "level \<Rightarrow> nat \<Rightarrow> nat \<Rightarrow> log_entry list \<Rightarrow> log_event list" where
  "missed screen n gone history =
     filter (\<lambda>e. enum_le (ev_level e) screen \<and> n < unat (ev_sequence e))
       (drop (max gone (length history - 4096)) (numbered history))"

lemma numbered_sorted:
  assumes "length history < 2 ^ 64"
  shows "sorted_wrt (<) (map ev_sequence (numbered history))"
proof -
  have un: "unat (of_nat n :: 64 word) = n" if "n \<le> length history" for n
    using that assms by (simp add: unat_of_nat)
  have "(of_nat (Suc i) :: 64 word) < of_nat (Suc j)" if "i < j" "j < length history" for i j
    unfolding word_less_nat_alt using un [of "Suc i"] un [of "Suc j"] that by simp
  then show ?thesis by (simp add: sorted_wrt_iff_nth_less numbered_def)
qed

lemma logged_sorted:
  assumes "logged env files history gone (w, flight)" "length history < 2 ^ 64"
  shows "ring_sorted (fw_logger w)" and "unat (lo_sequence (fw_logger w)) = length history"
proof -
  have ring: "lo_sequence (fw_logger w) = of_nat (length history)"
      "lo_events (fw_logger w) = drop (max gone (length history - 4096)) (numbered history)"
    using logged_ring [OF assms(1)] by (simp_all add: ring_holds_def)
  have un: "unat (of_nat n :: 64 word) = n" if "n \<le> length history" for n
    using that assms(2) by (simp add: unat_of_nat)
  then show "unat (lo_sequence (fw_logger w)) = length history" by (simp add: ring(1))
  have "ev_sequence e \<le> of_nat (length history)" if e: "e \<in> set (numbered history)" for e
  proof -
    obtain n where "n \<le> length history" "ev_sequence e = of_nat n" using numbered_sequence [OF e] by metis
    then show ?thesis using un [of n] un [of "length history"] by (simp add: word_le_nat_alt)
  qed
  then show "ring_sorted (fw_logger w)"
    using numbered_sorted [OF assms(2)] unfolding ring_sorted_def ring
    by (auto simp: drop_map [symmetric] sorted_wrt_drop dest: in_set_dropD)
qed

text \<open>
  While the host records nothing, polling delivers the events the client has missed, in order
  and each once, at least one with every poll that is not cut short.
\<close>

text \<open>C21: While the host records nothing, the polls of a client that is not ahead of the host
  deliver the events it has missed, that is those of the history that are above its
  sequence, up to its level and still in the ring, in order and each once, at least one with
  every poll that is not cut short, through frames, requests, replies cut at 1 MiB and
  decoding. It holds for fewer than 2^64 events, times that Qt can represent, messages of
  file failures without control characters and below a megabyte, and request numbers that
  are not 0; Qt is taken to convert the bytes around ASCII characters piece by piece and to
  read decimal numbers.\<close>

theorem log_polling_complete:
  assumes "utf8_law (qt_utf8 q)" "number_law q" "unat screen \<le> 3" "\<forall>p \<in> set polls. snd (fst p) \<noteq> 0"
    and "logged env files history gone (w, flight)" "length history < 2 ^ 64"
    and "\<forall>x \<in> set history. displayable q x" "n \<le> length history"
  shows "\<exists>k. poll_logs q (log_server other (fw_logger w)) polls screen n =
      (map (record_of q) (take k (missed screen n gone history)),
       if k = 0 then n else unat (ev_sequence (missed screen n gone history ! (k - 1)))) \<and>
    k \<le> length (missed screen n gone history) \<and>
    (length (missed screen n gone history) \<le> length (filter whole polls) \<longrightarrow>
      k = length (missed screen n gone history))"
proof -
  have "unat (of_nat n :: 64 word) = n" using assms(6,8) by (simp add: unat_of_nat)
  then have same: "log_snapshot screen (of_nat n) (fw_logger w) = missed screen n gone history"
    using snapshot_complete_at [OF assms(5,6), of screen "of_nat n"] assms(8) by (simp add: missed_def)
  have "n \<le> unat (lo_sequence (fw_logger w))" using logged_sorted(2) [OF assms(5,6)] assms(8) by simp
  from poll_all [OF assms(1-4) logged_sorted(1) [OF assms(5,6)] this logged_displayable [OF assms(5,7)], of other]
  show ?thesis unfolding same .
qed

text \<open>
  A client that is ahead of the host, as it is after the host was restarted, keeps its sequence:
  every poll delivers the same events again.
\<close>

lemma stale_client_repeats:
  assumes "utf8_law (qt_utf8 q)" "number_law q" "unat screen \<le> 3" "number \<noteq> 0"
    and "ring_sorted s" "unat (lo_sequence s) < n" "n < 2 ^ 64"
    and "\<And>e. e \<in> set (lo_events s) \<Longrightarrow> sendable q e"
  shows "poll_logs q (log_server other s) (replicate k ((whole_link, number), second)) screen n =
    (concat (replicate k (map (record_of q) (shipped True 0 (log_snapshot screen 0 s)))), n)"
proof (induction k)
  case (Suc k)
  let ?now = "shipped True 0 (log_snapshot screen 0 s)"
  have un: "unat (of_nat n :: 64 word) = n" using assms(7) by (simp add: unat_of_nat)
  then have "log_snapshot screen (of_nat n) s = log_snapshot screen 0 s"
    using assms(6) by (simp add: log_snapshot_def start_after_def word_less_nat_alt)
  then have reply: "refresh_logs (log_server other s) (whole_link, number) second n screen = log_lines True 0 (log_snapshot screen 0 s)"
    using refresh_text(2) [OF assms(7,3,4)] by simp
  have mem: "e \<in> set (lo_events s)" if "e \<in> set ?now" for e
    using that set_mono_prefix [OF shipped_prefix] by (fastforce simp: log_snapshot_def events_after_def)
  have decode: "decode_log_records q (qt_utf8 q (log_lines True 0 (log_snapshot screen 0 s))) = map (record_of q) ?now"
    using decode_lines [OF assms(1,2), of ?now] assms(8) mem by (simp add: log_lines_shipped)
  have below: "unat (ev_sequence e) \<le> n" if "e \<in> set ?now" for e
    using mem [OF that] assms(5,6) by (auto simp: ring_sorted_def word_le_nat_alt)
  have "fold (\<lambda>r n. max n (unat (ev_sequence r))) es n = n" if "set es \<subseteq> set ?now" for es
    using that below by (induction es) (auto simp: max_absorb1)
  then have "fold (\<lambda>r n. max n (lr_sequence r)) (map (record_of q) ?now) n = n" by (simp add: fold_map comp_def)
  then show ?case using Suc by (simp add: reply append_log_lines_def from_utf8_reply decode Let_def)
qed simp

section \<open>Examples\<close>

definition sample_qt :: qt where
  "sample_qt = \<lparr>qt_utf8 = lit, qt_ulonglong = (\<lambda>s. from_chars (2 ^ 64) (map char_of s)),
     qt_longlong = (\<lambda>s. map_option int (from_chars (2 ^ 63) (map char_of s))),
     qt_valid_time = (\<lambda>_. True), qt_now = 0, qt_route = (\<lambda>_. None)\<rparr>"

lemma sample_qt_laws: "utf8_law (qt_utf8 sample_qt)" "number_law sample_qt"
proof -
  have "map char_of (lit s) = s" for s by (simp add: lit_def code_def comp_def)
  then show "number_law sample_qt"
    by (simp add: number_law_def sample_qt_def from_chars_to_string)
  show "utf8_law (qt_utf8 sample_qt)" by (auto simp: utf8_law_def sample_qt_def lit_def)
qed

definition sample_shown_event :: log_event where
  "sample_shown_event = fst (record_event 0 normal ''A'' ''b'' (clean_context no_context) core_logger)"

lemma sample_sendable: "sendable sample_qt sample_shown_event"
  by (simp add: sendable_def plain_event_def plain_def sample_shown_event_def record_event_def Let_def
      sample_qt_def clean_context_def clean_text_def no_context_def code_def)

theorem log_reply_decoded_witness:
  "prefix (shipped True 0 [sample_shown_event]) [sample_shown_event] \<and>
   decode_log_records sample_qt (qt_utf8 sample_qt (log_lines True 0 [sample_shown_event])) =
     map (record_of sample_qt) (shipped True 0 [sample_shown_event])"
  using log_reply_decoded [OF sample_qt_laws, of "[sample_shown_event]"] sample_sendable by simp

theorem log_polling_complete_witness:
  "poll_logs sample_qt (log_server normal (fw_logger shown)) [((whole_link, 1), (whole_link, 2))] normal 0 =
     ([record_of sample_qt (entry_event 1 (Written 0 normal ''A'' ''b'' no_context))], 1)"
proof -
  have "missed normal 0 0 [Written 0 normal ''A'' ''b'' no_context] = [entry_event 1 (Written 0 normal ''A'' ''b'' no_context)]"
    by (simp add: missed_def numbered_def enum_le_def)
  moreover have "\<forall>p \<in> set [((whole_link, 1), (whole_link, 2)) :: attempt \<times> attempt]. snd (fst p) \<noteq> 0"
    "\<forall>x \<in> set [Written 0 normal ''A'' ''b'' no_context]. displayable sample_qt x"
    by (simp_all add: sample_qt_def)
  ultimately show ?thesis
    using log_polling_complete [OF sample_qt_laws _ _ sample_logged, where screen = normal and n = 0 and other = normal
        and polls = "[((whole_link, 1), (whole_link, 2))]"]
    by fastforce
qed

end
