(* ===== verification/Host.thy ===== *)
theory Host
  imports Log_Stream Log_File Config_File Intercept_Life
begin

text \<open>
  \<open>CoreHost\<close> (\<open>src/host.cpp\<close>): construction, start with its rollback, stop, the loop of
  \<open>wait_for_shutdown\<close>, and \<open>handle\<close>, the operations of the local protocol.  The backend is an
  \<open>IInterceptionProvider\<close>, a record of functions; what it logs itself is part of its own state.
  \<open>record host_env\<close> is what the system answers during one call.  A call is one step, also
  \<open>start\<close>, which releases \<open>mutex_\<close> before it opens the endpoints: an operation that comes over an
  endpoint already open while the others are being opened is not modelled.
\<close>

section \<open>State\<close>

text \<open>
  How an operation fails: an \<open>Error\<close>, another exception, or a wait for the file thread that
  does not end.
\<close>

datatype failure = Threw error | Threw_other string | Blocked

fun failure_text :: "failure \<Rightarrow> string" where
  "failure_text (Threw e) = err_msg e"
| "failure_text (Threw_other m) = m"
| "failure_text Blocked = []"

record 'p provider =
  pv_start :: "'p \<Rightarrow> (failure + unit) \<times> 'p"
  pv_stop :: "'p \<Rightarrow> 'p"
  pv_cancel_pending :: "'p \<Rightarrow> 'p"
  pv_reload :: "config \<Rightarrow> 'p \<Rightarrow> (error + unit) \<times> 'p"
  pv_status :: "'p \<Rightarrow> interception_status"

text \<open>A \<open>PipeServer\<close>: whether it runs, and \<open>failure()\<close>.\<close>

record pipe_server =
  ep_running :: bool
  ep_failure :: string

record 'p host =
  ho_config :: config
  ho_transparent :: bool
  ho_config_path :: string
  ho_log :: file_world
  ho_log_path :: string
  ho_log_enabled :: bool
  ho_provider :: 'p
  ho_command :: pipe_server
  ho_logs :: pipe_server
  ho_shutdown :: pipe_server
  ho_stopped :: bool
  ho_shutdown_requested :: bool
  ho_restart_requested :: bool

datatype endpoint_answer = Listening | Owned_elsewhere | No_answer | Failed_start string

record host_env =
  he_time :: nat
  he_inet :: inet
  he_files :: file_env
  he_log_directory :: string
  he_disk :: files
  he_flush_dns :: "error option"
  he_fault :: "string \<Rightarrow> error option"
  he_command :: endpoint_answer
  he_logs :: endpoint_answer
  he_shutdown :: endpoint_answer
  he_network :: snapshot

type_synonym ('p, 'a) hosted = "'p host \<Rightarrow> (failure + 'a) \<times> 'p host"

section \<open>Helpers\<close>

definition tryA :: "('s \<Rightarrow> ('e + unit) \<times> 's) \<Rightarrow> ('e \<Rightarrow> 's \<Rightarrow> ('e + unit) \<times> 's) \<Rightarrow> 's \<Rightarrow> ('e + unit) \<times> 's" where
  "tryA m handler s = (case m s of (Inl e, s) \<Rightarrow> handler e s | (Inr u, s) \<Rightarrow> (Inr u, s))"

definition thrown :: "error + 'a \<Rightarrow> failure + 'a" where
  "thrown r = (case r of Inl e \<Rightarrow> Inl (Threw e) | Inr x \<Rightarrow> Inr x)"

definition thrown_other :: "string + 'a \<Rightarrow> failure + 'a" where
  "thrown_other r = (case r of Inl m \<Rightarrow> Inl (Threw_other m) | Inr x \<Rightarrow> Inr x)"

definition host_log :: "host_env \<Rightarrow> level \<Rightarrow> string \<Rightarrow> string \<Rightarrow> 'p host \<Rightarrow> (failure + unit) \<times> 'p host" where
  "host_log env lvl event message h =
     (Inr (), h\<lparr>ho_log := (ho_log h)\<lparr>fw_logger :=
        log_write (he_time env) lvl event message no_context (fw_logger (ho_log h))\<rparr>\<rparr>)"

text \<open>The wait for a promise: the file thread runs until it has set the result.\<close>

fun await_file ::
  "nat \<Rightarrow> file_env \<Rightarrow> nat \<Rightarrow> nat \<Rightarrow> file_world \<Rightarrow> string option option \<times> file_world" where
  "await_file 0 env time ticket w = (map_of (lo_results (fw_logger w)) ticket, w)"
| "await_file (Suc n) env time ticket w =
     (case map_of (lo_results (fw_logger w)) ticket of
        Some r \<Rightarrow> (Some r, w)
      | None \<Rightarrow> await_file n env time ticket (file_step env time w))"

definition await_task :: "host_env \<Rightarrow> nat \<Rightarrow> logger \<Rightarrow> 'p host \<Rightarrow> (failure + unit) \<times> 'p host" where
  "await_task env ticket s h =
     (case await_file (length (lo_tasks s)) (he_files env) (he_time env) ticket ((ho_log h)\<lparr>fw_logger := s\<rparr>) of
        (None, w) \<Rightarrow> (Inl Blocked, h\<lparr>ho_log := w\<rparr>)
      | (Some (Some m), w) \<Rightarrow> (Inl (Threw_other m), h\<lparr>ho_log := w\<rparr>)
      | (Some None, w) \<Rightarrow> (Inr (), h\<lparr>ho_log := w\<rparr>))"

text \<open>
  The three calls the host makes when it configures the file log: a new name when the log was
  off, \<open>configure_file\<close> with its default limits, and the flag.
\<close>

definition set_file_log :: "host_env \<Rightarrow> bool \<Rightarrow> level \<Rightarrow> 'p host \<Rightarrow> (failure + unit) \<times> 'p host" where
  "set_file_log env enable lvl =
     bindA (\<lambda>h.
       if enable \<and> \<not> ho_log_enabled h then
         (case timestamped_log_path (he_files env) (fw_files (ho_log h)) (he_log_directory env)
                 (he_time env div 1000) of
            Inl m \<Rightarrow> (Inl (Threw_other m), h)
          | Inr path \<Rightarrow> (Inr (), h\<lparr>ho_log_path := path\<rparr>))
       else (Inr (), h)) (\<lambda>_.
     bindA (\<lambda>h.
       case configure_file enable lvl (ho_log_path h) (4 * 1024 * 1024) 3 (fw_logger (ho_log h)) of
         Inl m \<Rightarrow> (Inl (Threw_other m), h)
       | Inr (ticket, s) \<Rightarrow> await_task env ticket s h) (\<lambda>_ h.
     (Inr (), h\<lparr>ho_log_enabled := enable\<rparr>)))"

text \<open>\<open>clearDnsCache\<close>: only an \<open>Error\<close> of the flush is caught; it is written to the log.\<close>

definition flush_dns :: "host_env \<Rightarrow> string option \<Rightarrow> 'p host \<Rightarrow> (failure + unit) \<times> 'p host" where
  "flush_dns env message h =
     (case runtime_options (ho_config h) of
        Inl e \<Rightarrow> (Inl (Threw e), h)
      | Inr options \<Rightarrow>
          if \<not> ro_clear_dns_cache options then (Inr (), h)
          else
            (case (he_flush_dns env, message) of
               (Some e, _) \<Rightarrow> host_log env errors_only (err_code e) (err_msg e) h
             | (None, Some m) \<Rightarrow> host_log env normal ''DNS_CACHE_CLEARED'' m h
             | (None, None) \<Rightarrow> (Inr (), h)))"

definition request_shutdown :: "'p host \<Rightarrow> 'p host" where
  "request_shutdown h = h\<lparr>ho_shutdown_requested := True\<rparr>"

definition fault_at :: "host_env \<Rightarrow> string \<Rightarrow> 'p host \<Rightarrow> (failure + unit) \<times> 'p host" where
  "fault_at env stage h = ((case he_fault env stage of None \<Rightarrow> Inr () | Some e \<Rightarrow> Inl (Threw e)), h)"

section \<open>Endpoints\<close>

text \<open>\<open>PipeServer::start\<close> and \<open>stop\<close> of \<open>src/platform/linux/ipc.cpp\<close>.\<close>

definition start_endpoint :: "endpoint_answer \<Rightarrow> pipe_server \<Rightarrow> (error + unit) \<times> pipe_server" where
  "start_endpoint answer ep =
     (if ep_running ep then (Inl (Error ''IPC_LIFECYCLE'' ''IPC server already running''), ep)
      else
        case answer of
          Listening \<Rightarrow> (Inr (), \<lparr>ep_running = True, ep_failure = []\<rparr>)
        | Owned_elsewhere \<Rightarrow>
            (Inl (Error ''IPC_LIFECYCLE'' ''Another IPC server owns this endpoint''), ep)
        | No_answer \<Rightarrow>
            (Inl (Error ''IPC_IO'' ''Timed out creating Unix domain socket''),
             \<lparr>ep_running = False, ep_failure = []\<rparr>)
        | Failed_start m \<Rightarrow>
            ((if m = [] then Inr () else Inl (Error ''IPC_IO'' (''Unix socket startup failed: '' @ m))),
             \<lparr>ep_running = False, ep_failure = m\<rparr>))"

definition stop_endpoint :: "pipe_server \<Rightarrow> pipe_server" where
  "stop_endpoint ep = ep\<lparr>ep_running := False\<rparr>"

definition start_command :: "host_env \<Rightarrow> 'p host \<Rightarrow> (failure + unit) \<times> 'p host" where
  "start_command env h =
     (let (r, ep) = start_endpoint (he_command env) (ho_command h) in (thrown r, h\<lparr>ho_command := ep\<rparr>))"

definition start_logs :: "host_env \<Rightarrow> 'p host \<Rightarrow> (failure + unit) \<times> 'p host" where
  "start_logs env h =
     (let (r, ep) = start_endpoint (he_logs env) (ho_logs h) in (thrown r, h\<lparr>ho_logs := ep\<rparr>))"

definition start_shutdown :: "host_env \<Rightarrow> 'p host \<Rightarrow> (failure + unit) \<times> 'p host" where
  "start_shutdown env h =
     (let (r, ep) = start_endpoint (he_shutdown env) (ho_shutdown h) in (thrown r, h\<lparr>ho_shutdown := ep\<rparr>))"

definition stop_endpoints :: "'p host \<Rightarrow> 'p host" where
  "stop_endpoints h =
     h\<lparr>ho_command := stop_endpoint (ho_command h), ho_logs := stop_endpoint (ho_logs h),
       ho_shutdown := stop_endpoint (ho_shutdown h)\<rparr>"

definition start_provider :: "'p provider \<Rightarrow> 'p host \<Rightarrow> (failure + unit) \<times> 'p host" where
  "start_provider p h =
     (let (r, i) = pv_start p (ho_provider h) in (r, h\<lparr>ho_provider := i\<rparr>))"

definition stop_provider :: "'p provider \<Rightarrow> 'p host \<Rightarrow> 'p host" where
  "stop_provider p h = h\<lparr>ho_provider := pv_stop p (ho_provider h)\<rparr>"

section \<open>Start and stop\<close>

text \<open>A failure of a stage, with the stage.\<close>

definition at_stage :: "string \<Rightarrow> ('s \<Rightarrow> ('e + 'a) \<times> 's) \<Rightarrow> 's \<Rightarrow> (string \<times> 'e + 'a) \<times> 's" where
  "at_stage stage m s = (case m s of (Inl e, s) \<Rightarrow> (Inl (stage, e), s) | (Inr x, s) \<Rightarrow> (Inr x, s))"

definition start_stages ::
  "host_env \<Rightarrow> 'p provider \<Rightarrow> 'p host \<Rightarrow> (string \<times> failure + unit) \<times> 'p host" where
  "start_stages env p =
     bindA (at_stage ''interception''
       (bindA (host_log env verbose ''INTERCEPTION_STARTING'' ''Starting DNS interception backend'') (\<lambda>_.
        bindA (start_provider p) (\<lambda>_.
        flush_dns env (Some ''System DNS cache cleared after interception start''))))) (\<lambda>_.
     bindA (at_stage ''command IPC''
       (bindA (fault_at env ''core.command_ipc'') (\<lambda>_.
        bindA (host_log env verbose ''IPC_STARTING''
                 ''Starting command, live-log and independent shutdown IPC endpoints'') (\<lambda>_.
        start_command env)))) (\<lambda>_.
     bindA (at_stage ''log IPC'' (bindA (fault_at env ''core.log_ipc'') (\<lambda>_. start_logs env))) (\<lambda>_.
     at_stage ''shutdown IPC''
       (bindA (fault_at env ''core.shutdown_ipc'') (\<lambda>_.
        bindA (start_shutdown env) (\<lambda>_ h.
        let status = pv_status p (ho_provider h) in
        host_log env normal ''CORE_STARTED''
          (''Core host started; port='' @ to_string (unat (is_port status)) @ '' transparent='' @
           (if is_transparent status then ''1'' else ''0'')) h))))))"

text \<open>The \<open>catch\<close> block.\<close>

definition start_rollback :: "host_env \<Rightarrow> 'p provider \<Rightarrow> string \<Rightarrow> failure \<Rightarrow> 'p host \<Rightarrow> 'p host" where
  "start_rollback env p stage e h =
     (let h = request_shutdown h;
          h = snd (host_log env errors_only ''CORE_START_FAILED''
                     (''stage='' @ stage @ '' error='' @ failure_text e) h);
          h = (stop_provider p (stop_endpoints h))\<lparr>ho_stopped := True\<rparr> in
      snd (host_log env verbose ''CORE_START_ROLLBACK''
             (''Released resources acquired before '' @ stage @ '' startup failure'') h))"

definition host_start :: "host_env \<Rightarrow> 'p provider \<Rightarrow> 'p host \<Rightarrow> (failure + unit) \<times> 'p host" where
  "host_start env p h =
     (if is_state (pv_status p (ho_provider h)) \<noteq> Stopped
      then (Inl (Threw (Error ''LIFECYCLE'' ''Core is not stopped'')), h)
      else
        case start_stages env p
               (h\<lparr>ho_shutdown_requested := False, ho_restart_requested := False, ho_stopped := False\<rparr>) of
          (Inr _, h) \<Rightarrow> (Inr (), h)
        | (Inl (stage, e), h) \<Rightarrow> (Inl e, start_rollback env p stage e h))"

definition host_stop :: "host_env \<Rightarrow> 'p provider \<Rightarrow> 'p host \<Rightarrow> 'p host" where
  "host_stop env p h =
     (if ho_stopped h then h
      else
        let h = request_shutdown (h\<lparr>ho_stopped := True\<rparr>);
            h = snd (host_log env verbose ''CORE_STOPPING'' ''Core host shutdown started'' h);
            h = h\<lparr>ho_provider := pv_cancel_pending p (ho_provider h)\<rparr>;
            h = stop_provider p (stop_endpoints h) in
        snd (host_log env normal ''CORE_STOPPED'' ''Core host stopped'' (request_shutdown h)))"

section \<open>Operations of the protocol\<close>

abbreviation answer :: "string \<Rightarrow> ipc_response" where
  "answer t \<equiv> \<lparr>ir_status = 0, ir_payload = t\<rparr>"

definition respond :: "string \<Rightarrow> 'p host \<Rightarrow> (failure + ipc_response) \<times> 'p host" where
  "respond t h = (Inr (answer t), h)"

definition with_bootstrap :: "bool \<Rightarrow> config \<Rightarrow> config" where
  "with_bootstrap transparent config =
     config\<lparr>cf_servers := map (\<lambda>server. server\<lparr>srv_use_system_bootstrap := transparent\<rparr>) (cf_servers config)\<rparr>"

definition set_display :: "level \<Rightarrow> 'p host \<Rightarrow> (failure + unit) \<times> 'p host" where
  "set_display lvl h =
     (case set_display_level lvl (fw_logger (ho_log h)) of
        Inl m \<Rightarrow> (Inl (Threw_other m), h)
      | Inr s \<Rightarrow> (Inr (), h\<lparr>ho_log := (ho_log h)\<lparr>fw_logger := s\<rparr>\<rparr>))"

text \<open>\<open>catch (const std::exception&)\<close> around the file log: the failure becomes an event.\<close>

definition try_file_log :: "host_env \<Rightarrow> string \<Rightarrow> 'p host \<Rightarrow> (failure + unit) \<times> 'p host" where
  "try_file_log env event h =
     (let logging = cf_logging (ho_config h) in
      tryA (set_file_log env (lg_file_enabled logging) (lg_file logging))
        (\<lambda>e. if e = Blocked then (\<lambda>h. (Inl Blocked, h)) else host_log env errors_only event (failure_text e)) h)"

definition reload_provider :: "'p provider \<Rightarrow> config \<Rightarrow> 'p host \<Rightarrow> (failure + unit) \<times> 'p host" where
  "reload_provider p config h =
     (let (r, i) = pv_reload p config (ho_provider h) in (thrown r, h\<lparr>ho_provider := i\<rparr>))"

definition handle_reload :: "host_env \<Rightarrow> 'p provider \<Rightarrow> 'p host \<Rightarrow> (failure + ipc_response) \<times> 'p host" where
  "handle_reload env p h =
     (if ho_config_path h = []
      then (Inl (Threw (Error ''CONFIG_IO'' ''CoreHost has no configuration path to reload'')), h)
      else
        case load_config (he_inet env) (he_disk env) (ho_config_path h) of
          Inl e \<Rightarrow> (Inl (Threw e), h)
        | Inr config \<Rightarrow>
            let next = with_bootstrap (ho_transparent h) config in
            bindA (reload_provider p next) (\<lambda>_ h.
            bindA (set_display (lg_screen (cf_logging next))) (\<lambda>_.
            bindA (flush_dns env (Some ''System DNS cache cleared after reload'')) (\<lambda>_.
            bindA (try_file_log env ''FILE_LOG_CONFIG_FAILED'') (\<lambda>_.
            bindA (host_log env normal ''CONFIG_RELOADED''
                     ''Configuration applied without stopping DNS interception'') (\<lambda>_.
            respond ''RELOADED'')))) (h\<lparr>ho_config := next\<rparr>)) h)"

definition state_name :: "run_state \<Rightarrow> string" where
  "state_name state =
     (case state of
        Stopped \<Rightarrow> ''STOPPED'' | Starting \<Rightarrow> ''STARTING'' | Running \<Rightarrow> ''RUNNING''
      | Stopping \<Rightarrow> ''STOPPING'' | Failed \<Rightarrow> ''ERROR'')"

definition flag :: "bool \<Rightarrow> string" where
  "flag b = (if b then ''1'' else ''0'')"

definition status_text :: "interception_status \<Rightarrow> string" where
  "status_text status =
     state_name (is_state status) @ '' port='' @ to_string (unat (is_port status)) @
     '' transparent='' @ flag (is_transparent status) @
     '' udp='' @ flag (is_udp status) @ '' tcp='' @ flag (is_tcp status) @
     (if is_error_code status \<noteq> []
      then '' error='' @ is_error_code status @ '' '' @ is_error_message status else [])"

text \<open>The payload \<open>enabled<TAB>level\<close>, with the text of the level.\<close>

definition file_log_request :: "string \<Rightarrow> error + bool \<times> level \<times> string" where
  "file_log_request payload =
     (let enabled_text = takeWhile (\<lambda>c. c \<noteq> tab) payload;
          rest = dropWhile (\<lambda>c. c \<noteq> tab) payload; level_text = tl rest in
      if rest = [] then Inl (ipc_protocol ''file log payload must be enabled<TAB>level'')
      else if enabled_text \<noteq> ''0'' \<and> enabled_text \<noteq> ''1''
      then Inl (ipc_protocol ''file log enabled must be 0 or 1'')
      else
        case from_chars (2 ^ 64) level_text of
          Some n \<Rightarrow>
            if n > 3 then Inl (ipc_protocol ''file log level must be 0..3'')
            else Inr (enabled_text = ''1'', of_nat n, level_text)
        | None \<Rightarrow> Inl (ipc_protocol ''file log level must be 0..3''))"

definition handle_file_log ::
  "host_env \<Rightarrow> string \<Rightarrow> 'p host \<Rightarrow> (failure + ipc_response) \<times> 'p host" where
  "handle_file_log env payload h =
     (case file_log_request payload of
        Inl e \<Rightarrow> (Inl (Threw e), h)
      | Inr (enable, lvl, level_text) \<Rightarrow>
          bindA (set_file_log env enable lvl) (\<lambda>_ h.
          if enable then
            bindA (host_log env normal ''FILE_LOG_CONFIGURED''
                     (''path='' @ ho_log_path h @ '' level='' @ level_text)) (\<lambda>_.
            respond ''FILE_LOG_ENABLED'') h
          else respond ''FILE_LOG_DISABLED'' h) h)"

definition clear_file_log :: "host_env \<Rightarrow> 'p host \<Rightarrow> (failure + unit) \<times> 'p host" where
  "clear_file_log env h = (let (ticket, s) = clear_file (fw_logger (ho_log h)) in await_task env ticket s h)"

text \<open>\<open>later\<close> is the logger at the end of a wait for events.\<close>

definition handle ::
  "host_env \<Rightarrow> 'p provider \<Rightarrow> logger \<Rightarrow> ipc_operation \<Rightarrow> string \<Rightarrow> 'p host \<Rightarrow>
   (failure + ipc_response) \<times> 'p host" where
  "handle env p later operation payload h =
     (if operation \<noteq> Op_logs \<and> operation \<noteq> Op_configure_file_log \<and> payload \<noteq> []
      then (Inl (Threw (ipc_protocol ''This operation requires an empty payload'')), h)
      else
        case operation of
          Op_ping \<Rightarrow> respond ''NativeDNS Core API 1'' h
        | Op_reload_config \<Rightarrow> handle_reload env p h
        | Op_status \<Rightarrow> respond (status_text (pv_status p (ho_provider h))) h
        | Op_start \<Rightarrow>
            bindA (start_provider p) (\<lambda>_.
            bindA (flush_dns env None) (\<lambda>_ h.
            respond (''RUNNING port='' @ to_string (unat (is_port (pv_status p (ho_provider h))))) h)) h
        | Op_stop \<Rightarrow> respond ''STOPPED'' (stop_provider p h)
        | Op_shutdown \<Rightarrow> respond ''SHUTTING_DOWN'' (request_shutdown h)
        | Op_restart \<Rightarrow> respond ''RESTARTING'' (request_shutdown (h\<lparr>ho_restart_requested := True\<rparr>))
        | Op_logs \<Rightarrow>
            (case logs_reply (lg_screen (cf_logging (ho_config h))) (fw_logger (ho_log h)) later payload of
               Responds r \<Rightarrow> (Inr r, h)
             | Throws e \<Rightarrow> (Inl (Threw e), h)
             | Throws_other m \<Rightarrow> (Inl (Threw_other m), h))
        | Op_clear_file_log \<Rightarrow> bindA (clear_file_log env) (\<lambda>_. respond ''FILE_LOG_CLEARED'') h
        | Op_configure_file_log \<Rightarrow> handle_file_log env payload h
        | Op_clear_display \<Rightarrow>
            respond ''DISPLAY_LOG_CLEARED''
              (h\<lparr>ho_log := (ho_log h)\<lparr>fw_logger := clear_display (fw_logger (ho_log h))\<rparr>\<rparr>))"

text \<open>The handler of the shutdown endpoint.\<close>

definition shutdown_endpoint ::
  "host_env \<Rightarrow> 'p provider \<Rightarrow> logger \<Rightarrow> ipc_operation \<Rightarrow> string \<Rightarrow> 'p host \<Rightarrow>
   (failure + ipc_response) \<times> 'p host" where
  "shutdown_endpoint env p later operation payload h =
     (if operation \<noteq> Op_shutdown \<and> operation \<noteq> Op_ping
      then (Inl (Threw (ipc_protocol ''Shutdown endpoint only accepts shutdown and ping'')), h)
      else handle env p later operation payload h)"

section \<open>The loop of \<open>wait_for_shutdown\<close>\<close>

definition recover_endpoint ::
  "host_env \<Rightarrow> string \<Rightarrow> ('p host \<Rightarrow> pipe_server) \<Rightarrow> ('p host \<Rightarrow> (failure + unit) \<times> 'p host) \<Rightarrow> 'p host \<Rightarrow>
   (failure + unit) \<times> 'p host" where
  "recover_endpoint env name get start h =
     (if ep_running (get h) then (Inr (), h)
      else
        bindA (host_log env errors_only ''IPC_ENDPOINT_FAILED'' (name @ '': '' @ ep_failure (get h))) (\<lambda>_.
        tryA (bindA start (\<lambda>_. host_log env normal ''IPC_ENDPOINT_RECOVERED'' name))
          (\<lambda>e h. (Inl e, request_shutdown h))) h)"

definition interface_details :: "interface_info \<Rightarrow> string" where
  "interface_details i =
     ''id='' @ if_id i @ '' name='' @ if_name i @ '' up='' @ flag (if_up i) @
     '' captive_portal='' @ flag (if_captive_portal i) @
     concat (map (\<lambda>a. '' address='' @ a) (if_addresses i)) @ concat (map (\<lambda>d. '' dns='' @ d) (if_dns_servers i))"

definition log_network :: "host_env \<Rightarrow> snapshot \<Rightarrow> 'p host \<Rightarrow> (failure + unit) \<times> 'p host" where
  "log_network env previous =
     (let network = he_network env in
      bindA (host_log env normal ''NETWORK_CHANGED''
               (''generation='' @ to_string (unat (sn_generation network)) @
                '' previous='' @ to_string (unat (sn_generation previous)) @
                '' interfaces='' @ to_string (length (sn_interfaces network)) @
                (if sn_error network = [] then [] else '' error='' @ sn_error network))) (\<lambda>_ h.
      (Inr (), fold (\<lambda>i h. snd (host_log env verbose ''NETWORK_INTERFACE'' (interface_details i) h))
                 (sn_interfaces network) h)))"

text \<open>
  One round: \<open>None\<close> when the loop returns, otherwise the network it goes on with.  A request
  for shutdown that comes while the endpoints are examined is seen in the next round.
\<close>

definition host_tick ::
  "host_env \<Rightarrow> 'p provider \<Rightarrow> snapshot \<Rightarrow> 'p host \<Rightarrow> (failure + snapshot option) \<times> 'p host" where
  "host_tick env p previous h =
     (if ho_shutdown_requested h then (Inr None, h)
      else
        bindA (recover_endpoint env ''command'' ho_command (start_command env)) (\<lambda>_.
        bindA (recover_endpoint env ''logs'' ho_logs (start_logs env)) (\<lambda>_.
        bindA (recover_endpoint env ''shutdown'' ho_shutdown (start_shutdown env)) (\<lambda>_.
        bindA (if sn_generation (he_network env) \<noteq> sn_generation previous then log_network env previous
               else (\<lambda>h. (Inr (), h))) (\<lambda>_ h.
        let status = pv_status p (ho_provider h) in
        if is_state status = Failed then
          (Inl (Threw (Error (if is_error_code status = [] then ''INTERCEPTION_FAILED'' else is_error_code status)
             (if is_error_message status = [] then ''Interception backend failed'' else is_error_message status))), h)
        else (Inr (Some (he_network env)), h))))) h)"

section \<open>Construction\<close>

text \<open>The host before it has a backend.\<close>

definition blank_host :: "log_files \<Rightarrow> config \<Rightarrow> bool \<Rightarrow> string \<Rightarrow> unit host" where
  "blank_host files config transparent config_path =
     (let down = \<lparr>ep_running = False, ep_failure = []\<rparr> in
      \<lparr>ho_config = config, ho_transparent = transparent, ho_config_path = config_path,
       ho_log = \<lparr>fw_logger = core_logger, fw_sink = first_sink, fw_files = files, fw_stopped = False\<rparr>,
       ho_log_path = [], ho_log_enabled = False, ho_provider = (),
       ho_command = down, ho_logs = down, ho_shutdown = down, ho_stopped = True,
       ho_shutdown_requested = False, ho_restart_requested = False\<rparr>)"

definition hosting :: "'p \<Rightarrow> unit host \<Rightarrow> 'p host" where
  "hosting provider h =
     \<lparr>ho_config = ho_config h, ho_transparent = ho_transparent h, ho_config_path = ho_config_path h,
      ho_log = ho_log h, ho_log_path = ho_log_path h, ho_log_enabled = ho_log_enabled h,
      ho_provider = provider, ho_command = ho_command h, ho_logs = ho_logs h,
      ho_shutdown = ho_shutdown h, ho_stopped = ho_stopped h,
      ho_shutdown_requested = ho_shutdown_requested h, ho_restart_requested = ho_restart_requested h\<rparr>"

text \<open>The strings are what the platform says of itself.\<close>

definition announce ::
  "host_env \<Rightarrow> string \<Rightarrow> string \<Rightarrow> string \<Rightarrow> config \<Rightarrow> bool \<Rightarrow> 'p host \<Rightarrow> (failure + unit) \<times> 'p host" where
  "announce env summary executable working_directory config transparent =
     bindA (host_log env normal ''CORE_INITIALIZING'' ''Core host initialization started'') (\<lambda>_.
     bindA (host_log env verbose ''NETWORK_SNAPSHOT''
              (''generation='' @ to_string (unat (sn_generation (he_network env))) @
               '' interfaces='' @ to_string (length (sn_interfaces (he_network env))))) (\<lambda>_.
     bindA (host_log env normal ''SYSTEM_ENVIRONMENT'' summary) (\<lambda>_ h.
     bindA (host_log env verbose ''CORE_PATHS''
              (''executable='' @ executable @ '' working_directory='' @ working_directory @
               '' log='' @ (if ho_log_path h = [] then ''disabled'' else ho_log_path h))) (\<lambda>_.
     host_log env verbose ''CONFIG_SUMMARY''
       (''servers='' @ to_string (length (cf_servers config)) @
        '' rules='' @ to_string (length (cf_rules config)) @ '' mode='' @
        (if transparent then ''transparent'' else ''local_proxy''))) h)))"

text \<open>\<open>create\<close> makes router and backend.\<close>

definition new_host ::
  "host_env \<Rightarrow> (config \<Rightarrow> error + 'p) \<Rightarrow> string \<Rightarrow> string \<Rightarrow> string \<Rightarrow> log_files \<Rightarrow>
   config \<Rightarrow> bool \<Rightarrow> string \<Rightarrow> failure + 'p host" where
  "new_host env create summary executable working_directory files config transparent config_path =
     bindE (thrown (validate (he_inet env) config)) (\<lambda>_.
     let (r, h) =
       bindA (set_display (lg_screen (cf_logging config))) (\<lambda>_ h.
       bindA (try_file_log env ''FILE_LOG_INIT_FAILED'') (\<lambda>_.
       announce env summary executable working_directory config transparent)
         (h\<lparr>ho_config := with_bootstrap transparent config\<rparr>)) (blank_host files config transparent config_path) in
     bindE r (\<lambda>_.
     bindE (thrown (create (ho_config h))) (\<lambda>provider.
     Inr (hosting provider h))))"

section \<open>The WinDivert backend\<close>

text \<open>
  \<open>stop\<close> as one call: between its two halves the receiver ends and the workers finish their
  jobs.
\<close>

definition stop_interception :: "service_owner \<Rightarrow> bool \<Rightarrow> interception \<Rightarrow> interception" where
  "stop_interception owner driver_stopped i =
     (if cp_state (ic_capture i) = Stopped then i
      else
        let i = begin_stop i in
        end_stop owner driver_stopped
          (i\<lparr>ic_receiver := False, ic_capture := (ic_capture i)\<lparr>cp_active := []\<rparr>\<rparr>))"

definition cancel_interception :: "interception \<Rightarrow> interception" where
  "cancel_interception i =
     i\<lparr>ic_capture := (ic_capture i)\<lparr>cp_router := cancel_pending (cp_router (ic_capture i))\<rparr>\<rparr>"

text \<open>What the system answers during a call: a launch, and what the service manager says.\<close>

definition windivert :: "inet \<Rightarrow> launch \<times> service_owner \<times> bool \<Rightarrow> interception provider" where
  "windivert inet system =
     (case system of (la, owner, driver_stopped) \<Rightarrow>
        \<lparr>pv_start = (\<lambda>i. let (r, j) = start_interception inet la owner driver_stopped i in (thrown r, j)),
         pv_stop = stop_interception owner driver_stopped,
         pv_cancel_pending = cancel_interception,
         pv_reload = reload_interception inet,
         pv_status = status_of\<rparr>)"

end
