(* ===== verification/Executor.thy ===== *)
theory Executor
  imports Prelude "HOL-Library.Sublist"
begin

text \<open>
  The worker pools: \<open>BoundedExecutor\<close> (\<open>src/bounded_executor.hpp\<close>), a bounded queue of jobs with a
  fixed number of threads, and \<open>limit_idle_pool\<close> (\<open>src/pool_limits.hpp\<close>), which bounds a table of
  connections.  A step is what the code does while it holds the mutex, or the end of a job.
\<close>

section \<open>The executor\<close>

text \<open>
  \<open>ex_threads\<close> is the length of \<open>threads_\<close>; of these threads, \<open>ex_waiting\<close> are in the wait of \<open>run\<close>,
  each job of \<open>ex_active\<close> keeps one busy, and the others have returned.
\<close>

record 'j executor =
  ex_jobs :: "'j list"
  ex_active :: "'j list"
  ex_waiting :: nat
  ex_threads :: nat
  ex_capacity :: nat
  ex_stopping :: bool

definition new_executor :: "'j executor" where
  "new_executor = \<lparr>ex_jobs = [], ex_active = [], ex_waiting = 0, ex_threads = 0, ex_capacity = 0, ex_stopping = True\<rparr>"

text \<open>\<open>stop\<close> up to the joins, and what follows them.\<close>

definition begin_stop_executor :: "'j executor \<Rightarrow> 'j executor" where
  "begin_stop_executor e = e\<lparr>ex_stopping := True, ex_jobs := []\<rparr>"

definition end_stop_executor :: "'j executor \<Rightarrow> 'j executor" where
  "end_stop_executor e = e\<lparr>ex_threads := 0, ex_capacity := 0\<rparr>"

text \<open>\<open>stop\<close> as one call: in between, the threads finish their jobs and return.\<close>

definition stop_executor :: "'j executor \<Rightarrow> 'j executor" where
  "stop_executor e = end_stop_executor ((begin_stop_executor e)\<lparr>ex_active := [], ex_waiting := 0\<rparr>)"

text \<open>\<open>spawn\<close> is \<open>None\<close>, or how many threads could be created and what the system said then.\<close>

definition start_executor ::
  "nat \<Rightarrow> nat \<Rightarrow> (nat \<times> string) option \<Rightarrow> 'j executor \<Rightarrow> (string + unit) \<times> 'j executor" where
  "start_executor workers capacity spawn e =
     (if workers = 0 \<or> capacity = 0 then (Inl ''executor workers and capacity must be positive'', e)
      else if ex_threads e \<noteq> 0 then (Inl ''executor already started'', e)
      else
        let e = e\<lparr>ex_stopping := False, ex_capacity := capacity\<rparr> in
        case spawn of
          None \<Rightarrow> (Inr (), e\<lparr>ex_threads := workers, ex_waiting := workers\<rparr>)
        | Some (started, message) \<Rightarrow>
            (Inl message, stop_executor (e\<lparr>ex_threads := started, ex_waiting := started, ex_stopping := True\<rparr>)))"

definition submit :: "'j \<Rightarrow> 'j executor \<Rightarrow> bool \<times> 'j executor" where
  "submit job e =
     (if ex_stopping e \<or> ex_threads e = 0 \<or> length (ex_jobs e) \<ge> ex_capacity e then (False, e)
      else (True, e\<lparr>ex_jobs := ex_jobs e @ [job]\<rparr>))"

text \<open>The loop of \<open>run\<close>: a waiting thread takes a job or returns; a busy one finishes its job.\<close>

definition take_next :: "'j executor \<Rightarrow> ('j \<times> 'j executor) option" where
  "take_next e =
     (case ex_jobs e of
        job # rest \<Rightarrow>
          if ex_waiting e = 0 then None
          else Some (job, e\<lparr>ex_jobs := rest, ex_active := ex_active e @ [job], ex_waiting := ex_waiting e - 1\<rparr>)
      | [] \<Rightarrow> None)"

definition finish_job :: "nat \<Rightarrow> 'j executor \<Rightarrow> ('j \<times> 'j executor) option" where
  "finish_job n e =
     (if n < length (ex_active e) then
        Some (ex_active e ! n,
          e\<lparr>ex_active := take n (ex_active e) @ drop (Suc n) (ex_active e), ex_waiting := Suc (ex_waiting e)\<rparr>)
      else None)"

definition worker_returns :: "'j executor \<Rightarrow> 'j executor option" where
  "worker_returns e =
     (if ex_stopping e \<and> ex_jobs e = [] \<and> ex_waiting e \<noteq> 0 then Some (e\<lparr>ex_waiting := ex_waiting e - 1\<rparr>)
      else None)"

section \<open>Steps\<close>

datatype 'j executor_event =
  Started
| Accepted 'j
| Refused 'j
| Took 'j
| Finished_job 'j
| Cleared
| Joined

inductive executor_work :: "'j executor \<Rightarrow> 'j executor_event list \<Rightarrow> 'j executor \<Rightarrow> bool" where
  takes: "take_next e = Some (job, e') \<Longrightarrow> executor_work e [Took job] e'"
| finishes: "finish_job n e = Some (job, e') \<Longrightarrow> executor_work e [Finished_job job] e'"
| returns_thread: "worker_returns e = Some e' \<Longrightarrow> executor_work e [] e'"

inductive_simps executor_work_iff: "executor_work e events e'"

inductive executor_step :: "'j executor \<Rightarrow> 'j executor_event list \<Rightarrow> 'j executor \<Rightarrow> bool" where
  works: "executor_work e events e' \<Longrightarrow> executor_step e events e'"
| starts: "start_executor workers capacity spawn e = (r, e') \<Longrightarrow> executor_step e [Started] e'"
| submits: "submit job e = (accepted, e') \<Longrightarrow>
    executor_step e [if accepted then Accepted job else Refused job] e'"
| stops: "executor_step e [Cleared] (begin_stop_executor e)"
| joins: "ex_stopping e \<Longrightarrow> ex_waiting e = 0 \<Longrightarrow> ex_active e = [] \<Longrightarrow> executor_step e [Joined] (end_stop_executor e)"

inductive executor_run :: "'j executor_event list \<Rightarrow> 'j executor \<Rightarrow> bool" where
  fresh: "executor_run [] new_executor"
| goes_on: "executor_run events e \<Longrightarrow> executor_step e later e' \<Longrightarrow> executor_run (events @ later) e'"

section \<open>The queue\<close>

definition executor_ok :: "'j executor \<Rightarrow> bool" where
  "executor_ok e \<longleftrightarrow>
     length (ex_jobs e) \<le> ex_capacity e \<and> ex_waiting e + length (ex_active e) \<le> ex_threads e \<and>
     (\<not> ex_stopping e \<longrightarrow> ex_waiting e + length (ex_active e) = ex_threads e \<and> ex_threads e \<noteq> 0) \<and>
     (ex_stopping e \<longrightarrow> ex_jobs e = [])"

lemmas executor_defs = start_executor_def submit_def take_next_def finish_job_def worker_returns_def
  begin_stop_executor_def end_stop_executor_def stop_executor_def new_executor_def Let_def

lemma start_executor_ok: "executor_ok e \<Longrightarrow> start_executor workers capacity spawn e = (r, e') \<Longrightarrow> executor_ok e'"
  by (auto simp: executor_ok_def executor_defs split: if_splits option.splits)

lemma executor_work_ok: "executor_work e events e' \<Longrightarrow> executor_ok e \<Longrightarrow> executor_ok e'"
  by (cases rule: executor_work.cases)
    (auto simp: executor_ok_def executor_defs split: if_splits list.splits)

lemma executor_step_ok: "executor_step e events e' \<Longrightarrow> executor_ok e \<Longrightarrow> executor_ok e'"
proof (induction rule: executor_step.cases)
  case (works e events e')
  then show ?case using executor_work_ok by blast
next
  case (starts workers capacity spawn e r e')
  then show ?case using start_executor_ok by blast
qed (auto simp: executor_ok_def executor_defs split: if_splits)

text \<open>What the callers see: the jobs that wait after a history, or \<open>None\<close> if it breaks the order.\<close>

fun waiting_jobs :: "'j executor_event list \<Rightarrow> 'j list \<Rightarrow> 'j list option" where
  "waiting_jobs [] q = Some q"
| "waiting_jobs (Accepted job # events) q = waiting_jobs events (q @ [job])"
| "waiting_jobs (Took job # events) q =
     (case q of [] \<Rightarrow> None | next # rest \<Rightarrow> if next = job then waiting_jobs events rest else None)"
| "waiting_jobs (Cleared # events) q = waiting_jobs events []"
| "waiting_jobs (_ # events) q = waiting_jobs events q"

lemma waiting_jobs_append:
  "waiting_jobs (events @ later) q = Option.bind (waiting_jobs events q) (waiting_jobs later)"
  by (induction events q rule: waiting_jobs.induct) (auto split: list.split)

lemma executor_work_queue: "executor_work e events e' \<Longrightarrow> waiting_jobs events (ex_jobs e) = Some (ex_jobs e')"
  by (auto simp: executor_work_iff executor_defs split: list.splits if_splits)

lemma executor_step_queue:
  "executor_step e events e' \<Longrightarrow> executor_ok e \<Longrightarrow> waiting_jobs events (ex_jobs e) = Some (ex_jobs e')"
proof (induction rule: executor_step.cases)
  case (works e events e')
  then show ?case using executor_work_queue by blast
next
  case (starts workers capacity spawn e r e')
  then show ?case by (auto simp: executor_ok_def executor_defs split: if_splits option.splits)
qed (auto simp: executor_defs split: if_splits)

fun accepted_jobs :: "'j executor_event list \<Rightarrow> 'j list" where
  "accepted_jobs (Accepted job # events) = job # accepted_jobs events"
| "accepted_jobs (_ # events) = accepted_jobs events"
| "accepted_jobs [] = []"

fun taken_jobs :: "'j executor_event list \<Rightarrow> 'j list" where
  "taken_jobs (Took job # events) = job # taken_jobs events"
| "taken_jobs (_ # events) = taken_jobs events"
| "taken_jobs [] = []"

lemma waiting_jobs_fifo:
  assumes "waiting_jobs events q = Some q'"
  shows "subseq (taken_jobs events @ q') (q @ accepted_jobs events)"
    and "Cleared \<notin> set events \<Longrightarrow> taken_jobs events @ q' = q @ accepted_jobs events"
proof -
  have "subseq (taken_jobs events @ q') (q @ accepted_jobs events) \<and>
    (Cleared \<notin> set events \<longrightarrow> taken_jobs events @ q' = q @ accepted_jobs events)"
    using assms
    by (induction events q rule: waiting_jobs.induct) (auto split: list.splits if_splits intro: list_emb_append2)
  then show "subseq (taken_jobs events @ q') (q @ accepted_jobs events)"
    "Cleared \<notin> set events \<Longrightarrow> taken_jobs events @ q' = q @ accepted_jobs events" by simp_all
qed

lemma executor_run_queue: "executor_run events e \<Longrightarrow> executor_ok e \<and> waiting_jobs events [] = Some (ex_jobs e)"
proof (induction rule: executor_run.induct)
  case fresh
  then show ?case by (simp add: executor_ok_def new_executor_def)
next
  case (goes_on events e later e')
  then show ?case
    using executor_step_ok executor_step_queue by (simp add: waiting_jobs_append) blast
qed

text \<open>
  However callers and threads interleave, jobs are taken in the order they were accepted, each at
  most once, and, while nobody stops the executor, none is lost; the queue and the number of
  jobs at work are bounded.
\<close>

text \<open>C27: However callers and threads of a bounded executor interleave, jobs are taken in the
  order they were accepted, each at most once, none is lost while nobody stops it, and queue
  and active jobs stay within capacity and thread count.\<close>

theorem executor_fifo:
  assumes "executor_run events e"
  shows "subseq (taken_jobs events @ ex_jobs e) (accepted_jobs events) \<and>
    (Cleared \<notin> set events \<longrightarrow> accepted_jobs events = taken_jobs events @ ex_jobs e) \<and>
    length (ex_jobs e) \<le> ex_capacity e \<and> length (ex_active e) \<le> ex_threads e"
  using executor_run_queue [OF assms] waiting_jobs_fifo [of events "[]" "ex_jobs e"]
  by (auto simp: executor_ok_def)

section \<open>A stop ends\<close>

definition executor_measure :: "'j executor \<Rightarrow> nat" where
  "executor_measure e = 3 * length (ex_jobs e) + 2 * length (ex_active e) + ex_waiting e"

lemma executor_work_measure: "executor_work e events e' \<Longrightarrow> executor_measure e' < executor_measure e"
  by (auto simp: executor_work_iff executor_defs executor_measure_def split: list.splits if_splits)

lemma executor_work_steps:
  "((\<lambda>e e'. \<exists>events. executor_work e events e') ^^ n) e e' \<Longrightarrow> n + executor_measure e' \<le> executor_measure e"
proof (induction n arbitrary: e')
  case (Suc n)
  from Suc.prems obtain e1 events where e1: "((\<lambda>e e'. \<exists>events. executor_work e events e') ^^ n) e e1"
    "executor_work e1 events e'" by auto
  show ?case using Suc.IH [OF e1(1)] executor_work_measure [OF e1(2)] by simp
qed simp

lemma executor_work_stuck:
  assumes "executor_ok e" "\<nexists>events e'. executor_work e events e'"
  shows "ex_jobs e = [] \<and> ex_active e = [] \<and> (ex_stopping e \<longrightarrow> ex_waiting e = 0)"
proof -
  have none: "take_next e = None" "finish_job 0 e = None" "worker_returns e = None"
    using assms(2) takes finishes returns_thread by (metis not_None_eq surj_pair)+
  then have "ex_active e = []" by (simp add: finish_job_def split: if_splits)
  moreover from this have "ex_jobs e = []"
    using none(1) assms(1) by (auto simp: take_next_def executor_ok_def split: list.splits if_splits)
  ultimately show ?thesis using none(3) by (auto simp: worker_returns_def split: if_splits)
qed

text \<open>
  The threads alone make at most \<open>executor_measure\<close> steps; when they can make no more, every
  accepted job is done, and, after a stop, every thread has returned, so that the joins end.
\<close>

lemma executor_work_keeps:
  assumes "((\<lambda>e e'. \<exists>events. executor_work e events e') ^^ n) e e'" "executor_ok e"
  shows "executor_ok e' \<and> ex_threads e' = ex_threads e \<and> ex_stopping e' = ex_stopping e"
  using assms(1)
proof (induction n arbitrary: e')
  case 0
  then show ?case using assms(2) by simp
next
  case (Suc n)
  then obtain e1 events where e1: "executor_ok e1" "ex_threads e1 = ex_threads e" "ex_stopping e1 = ex_stopping e"
    "executor_work e1 events e'" by fastforce
  then show ?case
    using executor_work_ok [OF e1(4)]
    by (auto simp: executor_work_iff executor_defs split: list.splits if_splits)
qed

theorem executor_finishes:
  assumes "executor_run events e" "((\<lambda>e e'. \<exists>events. executor_work e events e') ^^ n) e e'"
  shows "n \<le> executor_measure e \<and>
    ((\<nexists>later e''. executor_work e' later e'') \<longrightarrow>
      ex_jobs e' = [] \<and> ex_active e' = [] \<and> (ex_stopping e' \<longrightarrow> ex_waiting e' = 0))"
proof -
  have ok: "executor_ok e" using executor_run_queue [OF assms(1)] by simp
  have "executor_ok e'" using executor_work_keeps [OF assms(2) ok] by simp
  from executor_work_stuck [OF this] executor_work_steps [OF assms(2)] show ?thesis by auto
qed

section \<open>A concrete run\<close>

text \<open>Two threads, a queue of one: the second job is refused, the first taken and done.\<close>

definition sample_events :: "nat executor_event list" where
  "sample_events = [Started, Accepted 1, Refused 2, Took 1]"

definition sample_executor :: "nat executor" where
  "sample_executor = \<lparr>ex_jobs = [], ex_active = [1], ex_waiting = 1, ex_threads = 2, ex_capacity = 1, ex_stopping = False\<rparr>"

lemma sample_executor_run: "executor_run sample_events sample_executor"
proof -
  let ?e1 = "\<lparr>ex_jobs = [], ex_active = [], ex_waiting = 2, ex_threads = 2, ex_capacity = 1, ex_stopping = False\<rparr> :: nat executor"
  let ?e2 = "?e1\<lparr>ex_jobs := [1]\<rparr>"
  have "executor_run [Started] ?e1"
    using goes_on [OF fresh starts [of 2 1 None new_executor "Inr ()" ?e1]] by (simp add: executor_defs)
  from goes_on [OF this submits [of 1 ?e1 True ?e2]] have "executor_run [Started, Accepted 1] ?e2"
    by (simp add: executor_defs)
  from goes_on [OF this submits [of 2 ?e2 False ?e2]] have "executor_run [Started, Accepted 1, Refused 2] ?e2"
    by (simp add: executor_defs)
  from goes_on [OF this works [OF takes [of ?e2 1 sample_executor]]] show ?thesis
    by (simp add: executor_defs sample_executor_def sample_events_def)
qed

theorem executor_fifo_witness: "accepted_jobs sample_events = taken_jobs sample_events @ ex_jobs sample_executor"
  using executor_fifo [OF sample_executor_run] by (simp add: sample_events_def)

theorem executor_finishes_witness:
  "\<exists>e'. ((\<lambda>e e'. \<exists>events. executor_work e events e') ^^ 1) sample_executor e' \<and> 1 \<le> executor_measure sample_executor"
proof -
  obtain job e' where "finish_job 0 sample_executor = Some (job, e')" by (simp add: finish_job_def sample_executor_def)
  from finishes [OF this] have "\<exists>events. executor_work sample_executor events e'" by (rule exI)
  then have step: "((\<lambda>e e'. \<exists>events. executor_work e events e') ^^ 1) sample_executor e'"
    by (simp only: relpowp_1)
  from executor_finishes [OF sample_executor_run step] step show ?thesis by blast
qed

section \<open>The table of idle connections\<close>

text \<open>
  \<open>limit_idle_pool\<close>: the pool maps keys to the busy flags of their connections; the order in which
  the code visits the keys does not matter.
\<close>

definition limit_idle_pool :: "string \<Rightarrow> (string \<times> bool list) list \<Rightarrow> (error + unit) \<times> (string \<times> bool list) list" where
  "limit_idle_pool key pool =
     (if key \<in> fst ` set pool \<or> length pool < 128 then (Inr (), pool)
      else
        let pool = filter (\<lambda>(k, busy). \<not> list_all Not busy) pool in
        if length pool \<ge> 128
        then (Inl (Error ''UPSTREAM_BUSY'' ''Upstream connection pool is at capacity''), pool)
        else (Inr (), pool))"

text \<open>No busy connection is dropped; a key that may enter leaves at most 128; it is refused only when every key is busy.\<close>

theorem idle_pool_bounded:
  assumes "limit_idle_pool key pool = (r, pool')" "length pool \<le> 128"
  shows "set pool' \<subseteq> set pool \<and> (\<forall>(k, busy) \<in> set pool. True \<in> set busy \<longrightarrow> (k, busy) \<in> set pool') \<and>
    (case r of
       Inr _ \<Rightarrow> key \<in> fst ` set pool' \<or> length pool' < 128
     | Inl e \<Rightarrow> pool' = pool \<and> (\<forall>(k, busy) \<in> set pool. True \<in> set busy))"
proof -
  let ?kept = "filter (\<lambda>(k, busy). \<not> list_all Not busy) pool"
  have all: "?kept = pool" if "length ?kept \<ge> 128"
    using that assms(2) length_filter_less [of _ pool "\<lambda>(k, busy). \<not> list_all Not busy"]
    by (metis (no_types, lifting) filter_True leD le_less_trans not_le)
  consider "key \<in> fst ` set pool \<or> length pool < 128" | "key \<notin> fst ` set pool" "\<not> length pool < 128" by blast
  then show ?thesis
  proof cases
    case 1
    then have "r = Inr ()" "pool' = pool" using assms(1) by (simp_all add: limit_idle_pool_def)
    then show ?thesis using 1 by (simp add: split_beta)
  next
    case 2
    then have eq: "pool' = ?kept" "r = (if length ?kept \<ge> 128
        then Inl (Error ''UPSTREAM_BUSY'' ''Upstream connection pool is at capacity'') else Inr ())"
      using assms(1) by (auto simp: limit_idle_pool_def Let_def split: if_splits)
    have busy: "\<forall>(k, busy) \<in> set ?kept. True \<in> set busy" by (auto simp: list_all_iff)
    have "\<forall>(k, busy) \<in> set pool. True \<in> set busy \<longrightarrow> (k, busy) \<in> set ?kept" by (auto simp: list_all_iff)
    then show ?thesis using eq all busy by (cases "length ?kept \<ge> 128") auto
  qed
qed

theorem idle_pool_bounded_witness:
  "length (snd (limit_idle_pool ''a'' (map (\<lambda>n. (replicate n CHR ''k'', [False])) [0..<128]))) < 128"
proof -
  let ?pool = "map (\<lambda>n. (replicate n CHR ''k'', [False])) [0..<128]"
  have "''a'' \<notin> fst ` set ?pool" by (auto simp: Cons_replicate_eq)
  moreover have "\<exists>pool'. limit_idle_pool ''a'' ?pool = (Inr (), pool')"
    by (simp add: limit_idle_pool_def Let_def)
  ultimately show ?thesis
    using idle_pool_bounded [of "''a''" ?pool "Inr ()"] by (auto simp: limit_idle_pool_def Let_def)
qed

end
