(* ===== verification/Local_Proxy.thy ===== *)
theory Local_Proxy
  imports Host Executor
begin

text \<open>
  The backends of Linux: \<open>LocalProxy\<close> (\<open>src/platform/linux/local_proxy.cpp\<close>), four listeners on
  loopback that hand queries to two worker pools, and \<open>LinuxNftInterception\<close>
  (\<open>src/platform/linux/linux_interception.cpp\<close>), which redirects the DNS of the machine to such a
  proxy with nftables.  Sockets are parameters: what a listener or a connection receives, whether
  a send fails, which port can be bound.  What leaves the component is recorded in the state.
\<close>

section \<open>State\<close>

datatype listener = Udp4 | Tcp4 | Udp6 | Tcp6

type_synonym peer = "byte list"

record udp_query =
  uq_listener :: listener
  uq_packet :: packet
  uq_client :: peer

datatype proxy_effect =
  Sent_udp listener packet peer
| Sent_tcp nat packet
| Shut_client nat
| Proxy_log log_call

text \<open>How far the thread that runs \<open>stop\<close> has come.\<close>

datatype stop_stage = No_stop | Joining_listeners | Stopping_udp | Stopping_tcp

text \<open>
  \<open>px_listening\<close>: the four sockets are open; \<open>px_loops\<close>: the listener threads that have not ended;
  \<open>px_clients\<close>: the accepted connections, an ordered set of file descriptors.
\<close>

record proxy =
  px_router :: router
  px_original :: server
  px_requested :: "16 word"
  px_port :: "16 word"
  px_state :: run_state
  px_running :: bool
  px_listening :: bool
  px_loops :: "listener list"
  px_udp :: "udp_query executor"
  px_tcp :: "nat executor"
  px_clients :: "nat list"
  px_stop :: stop_stage
  px_effects :: "proxy_effect list"

definition proxy_effect_of :: "proxy_effect \<Rightarrow> proxy \<Rightarrow> proxy" where
  "proxy_effect_of e p = p\<lparr>px_effects := px_effects p @ [e]\<rparr>"

definition proxy_log :: "level \<Rightarrow> string \<Rightarrow> string \<Rightarrow> proxy \<Rightarrow> proxy" where
  "proxy_log lvl event message = proxy_effect_of (Proxy_log (Log_write lvl event message))"

text \<open>The constructor of \<open>Impl\<close>; the original server is validated as the only one of a default configuration.\<close>

definition new_proxy :: "inet \<Rightarrow> router \<Rightarrow> server \<Rightarrow> 16 word \<Rightarrow> error + proxy" where
  "new_proxy inet router original port =
     bindE (requireE (\<not> (srv_protocol original \<noteq> udp \<and> srv_protocol original \<noteq> tcp))
              (Error ''CONFIG'' ''Original fallback path must be plain DNS'')) (\<lambda>_.
     let cfg = default_config in
     bindE (validate inet (cfg\<lparr>cf_servers := cf_servers cfg @ [original\<lparr>srv_id := 1\<rparr>]\<rparr>)) (\<lambda>_.
     Inr \<lparr>px_router = router, px_original = original, px_requested = port, px_port = 0, px_state = Stopped,
       px_running = False, px_listening = False, px_loops = [], px_udp = new_executor, px_tcp = new_executor,
       px_clients = [], px_stop = No_stop, px_effects = []\<rparr>))"

section \<open>Answering a query\<close>

text \<open>
  \<open>process\<close>; \<open>routed\<close> and \<open>exchanged\<close> are the calls of \<open>Router::route\<close> and \<open>Router::exchange\<close>, \<open>normal_on\<close> says
  whether the logger admits normal events.
\<close>

record query_env =
  qe_routed :: "packet \<Rightarrow> server \<Rightarrow> error + route_result"
  qe_exchanged :: "packet \<Rightarrow> server \<Rightarrow> error + packet"
  qe_normal_on :: bool

definition proxy_process :: "query_env \<Rightarrow> packet \<Rightarrow> proxy \<Rightarrow> (error + packet) \<times> proxy" where
  "proxy_process env request p =
     (case qe_routed env request (px_original p) of
        Inl e \<Rightarrow> (Inl e, p)
      | Inr result \<Rightarrow>
          if rr_disposition result = Drop_silently then (Inr [], p)
          else if rr_disposition result = Forward_original then
            (qe_exchanged env request (px_original p),
             if qe_normal_on env
             then proxy_log normal ''DNS_BYPASS''
                    (''Forwarding intact request to original fallback '' @ srv_ip (px_original p)) p
             else p)
          else (Inr (rr_packet result), p))"

text \<open>\<open>sends\<close> is \<open>None\<close>, or what the system says when \<open>sendto\<close> does not take the whole datagram.\<close>

definition handle_udp :: "query_env \<Rightarrow> (packet \<Rightarrow> string option) \<Rightarrow> udp_query \<Rightarrow> proxy \<Rightarrow> proxy" where
  "handle_udp env sends query p =
     (case bindA (proxy_process env (uq_packet query)) (\<lambda>response.
           bindA (liftA (fit_udp_response (uq_packet query) response)) (\<lambda>response p.
           if response = [] then (Inr (), p)
           else
             case sends response of
               Some m \<Rightarrow> (Inl (Error ''PROXY_IO'' (''UDP reply send: '' @ m)), p)
             | None \<Rightarrow> (Inr (), proxy_effect_of (Sent_udp (uq_listener query) response (uq_client query)) p))) p of
        (Inr _, p) \<Rightarrow> p
      | (Inl e, p) \<Rightarrow> proxy_log errors_only (err_code e) (err_msg e) p)"

text \<open>
  A connection: the bytes that still come, and how the stream ends, \<open>None\<close> for a close, otherwise
  what the system says when \<open>recv\<close> fails.
\<close>

type_synonym stream = "packet \<times> string option"

definition recv_exact :: "nat \<Rightarrow> bool \<Rightarrow> stream \<Rightarrow> error + (packet \<times> stream) option" where
  "recv_exact count clean_eof stream =
     (let (bytes, ending) = stream in
      if count \<le> length bytes then Inr (Some (take count bytes, drop count bytes, ending))
      else
        case ending of
          Some m \<Rightarrow> Inl (Error ''PROXY_IO'' (''recv: '' @ m))
        | None \<Rightarrow>
            if clean_eof \<and> bytes = [] then Inr None
            else Inl (Error ''DNS_EOF'' ''Client TCP frame incomplete''))"

text \<open>\<open>send_exact\<close>, for prefix and response: \<open>fails\<close> says how much was sent before an error.\<close>

definition send_exact :: "(packet \<Rightarrow> (nat \<times> error) option) \<Rightarrow> nat \<Rightarrow> packet \<Rightarrow> proxy \<Rightarrow> (error + unit) \<times> proxy" where
  "send_exact fails fd bytes p =
     (case fails bytes of
        None \<Rightarrow> (Inr (), proxy_effect_of (Sent_tcp fd bytes) p)
      | Some (sent, e) \<Rightarrow> (Inl e, proxy_effect_of (Sent_tcp fd (take sent bytes)) p))"

definition length_prefix :: "packet \<Rightarrow> packet" where
  "length_prefix response = [of_nat (length response div 256), of_nat (length response)]"

text \<open>One round of \<open>handle_client\<close>: \<open>None\<close> when the client has closed the connection.\<close>

definition client_round ::
  "query_env \<Rightarrow> (packet \<Rightarrow> (nat \<times> error) option) \<Rightarrow> nat \<Rightarrow> stream \<Rightarrow> proxy \<Rightarrow> (error + stream option) \<times> proxy" where
  "client_round env fails fd stream p =
     (case recv_exact 2 True stream of
        Inl e \<Rightarrow> (Inl e, p)
      | Inr None \<Rightarrow> (Inr None, p)
      | Inr (Some (header, rest)) \<Rightarrow>
          let count = unat (read16 header 0) in
          if count < 12 then (Inl (malformed ''Client DNS frame too short''), p)
          else
            case recv_exact count False rest of
              Inl e \<Rightarrow> (Inl e, p)
            | Inr None \<Rightarrow> (Inr None, p)
            | Inr (Some (request, rest)) \<Rightarrow>
                bindA (proxy_process env request) (\<lambda>response p.
                if response = [] then (Inr (Some rest), p)
                else
                  bindA (send_exact fails fd (length_prefix response)) (\<lambda>_.
                  bindA (send_exact fails fd response) (\<lambda>_ p.
                  (Inr (Some rest), p))) p) p)"

lemma recv_exact_shorter:
  "recv_exact count clean stream = Inr (Some (got, rest)) \<Longrightarrow>
     length got = count \<and> length (fst stream) = count + length (fst rest)"
  by (auto simp: recv_exact_def split: prod.splits if_splits option.splits)

lemma client_round_shorter:
  assumes "client_round env fails fd stream p = (Inr (Some rest), p')"
  shows "length (fst rest) < length (fst stream)"
proof -
  obtain header rest1 where 1: "recv_exact 2 True stream = Inr (Some (header, rest1))"
    using assms by (auto simp: client_round_def split: sum.splits option.splits)
  then obtain request rest2 where 2: "recv_exact (unat (read16 header 0)) False rest1 = Inr (Some (request, rest2))"
    using assms by (auto simp: client_round_def Let_def split: sum.splits option.splits if_splits)
  have "rest = rest2"
    using assms 1 2 by (auto simp: client_round_def Let_def bindA_def split: if_splits prod.splits sum.splits)
  then show ?thesis using recv_exact_shorter [OF 1] recv_exact_shorter [OF 2] by simp
qed

text \<open>
  The loop; in round \<open>k\<close> the world is \<open>w k\<close>.  Every round shortens the stream, so the loop ends.
\<close>

record client_world =
  cw_running :: bool
  cw_env :: query_env
  cw_fails :: "packet \<Rightarrow> (nat \<times> error) option"

function client_loop :: "(nat \<Rightarrow> client_world) \<Rightarrow> nat \<Rightarrow> nat \<Rightarrow> stream \<Rightarrow> proxy \<Rightarrow> (error + unit) \<times> proxy" where
  "client_loop w k fd stream p =
     (if \<not> cw_running (w k) then (Inr (), p)
      else
        case client_round (cw_env (w k)) (cw_fails (w k)) fd stream p of
          (Inl e, p) \<Rightarrow> (Inl e, p)
        | (Inr None, p) \<Rightarrow> (Inr (), p)
        | (Inr (Some rest), p) \<Rightarrow> client_loop w (Suc k) fd rest p)"
  by pat_completeness auto
termination
  by (relation "measure (\<lambda>(w, k, fd, stream, p). length (fst stream))") (auto dest!: client_round_shorter [OF sym])

declare client_loop.simps [simp del]

text \<open>\<open>timeout\<close>: \<open>set_timeout\<close> fails; its error ends the job, as the executor ignores it.\<close>

definition handle_client ::
  "(nat \<Rightarrow> client_world) \<Rightarrow> bool \<Rightarrow> bool \<Rightarrow> nat \<Rightarrow> stream \<Rightarrow> proxy \<Rightarrow> proxy" where
  "handle_client w timeout running_then fd stream p =
     (if timeout then p
      else
        case client_loop w 0 fd stream p of
          (Inr _, p) \<Rightarrow> p
        | (Inl e, p) \<Rightarrow> if running_then then proxy_log errors_only (err_code e) (err_msg e) p else p)"

section \<open>Listeners\<close>

definition listener_failed :: "string \<Rightarrow> proxy \<Rightarrow> proxy" where
  "listener_failed message p = (proxy_log errors_only ''PROXY_IO'' message p)\<lparr>px_state := Failed\<rparr>"

datatype udp_input =
  Udp_poll_failed
| Udp_recv_failed bool string
| Datagram packet peer

text \<open>
  One round of \<open>udp_loop\<close>, and whether the loop goes on; \<open>True\<close> in a failure means that the code tries
  again.  Loading \<open>running\<close> and acting on it is one step.
\<close>

definition udp_event :: "listener \<Rightarrow> udp_input \<Rightarrow> proxy \<Rightarrow> bool \<times> proxy" where
  "udp_event listener input p =
     (if \<not> px_running p then (False, p)
      else
        case input of
          Udp_poll_failed \<Rightarrow> (False, listener_failed ''Local UDP listener poll failed'' p)
        | Udp_recv_failed again m \<Rightarrow> if again then (True, p) else (False, listener_failed m p)
        | Datagram packet client \<Rightarrow>
            (case submit \<lparr>uq_listener = listener, uq_packet = packet, uq_client = client\<rparr> (px_udp p) of
               (True, e) \<Rightarrow> (True, p\<lparr>px_udp := e\<rparr>)
             | (False, _) \<Rightarrow>
                 (True, proxy_log errors_only ''PROXY_BUSY'' ''Local UDP proxy queue is full; query dropped'' p)))"

datatype tcp_input =
  Tcp_poll_failed
| Accept_failed bool string
| Connection nat

text \<open>A round of \<open>tcp_loop\<close>; a connection that no worker takes is closed at once.\<close>

definition tcp_event :: "tcp_input \<Rightarrow> proxy \<Rightarrow> bool \<times> proxy" where
  "tcp_event input p =
     (if \<not> px_running p then (False, p)
      else
        case input of
          Tcp_poll_failed \<Rightarrow> (False, listener_failed ''Local TCP listener poll failed'' p)
        | Accept_failed again m \<Rightarrow> if again then (True, p) else (False, listener_failed m p)
        | Connection fd \<Rightarrow>
            let p = p\<lparr>px_clients := insort fd (px_clients p)\<rparr> in
            (case submit fd (px_tcp p) of
               (True, e) \<Rightarrow> (True, p\<lparr>px_tcp := e\<rparr>)
             | (False, _) \<Rightarrow>
                 let p = proxy_log errors_only ''PROXY_BUSY'' ''Local TCP proxy connection limit reached'' p in
                 (True, p\<lparr>px_clients := remove1 fd (px_clients p)\<rparr>)))"

section \<open>Start, stop, reload, status\<close>

text \<open>
  What the system answers during a start: to the \<open>n\<close>-th attempt to open and bind the sockets, the
  random numbers, and how many threads of the two pools and of the listeners can be created.
\<close>

datatype bind_answer = Bound | Not_bound string | No_socket string string

record proxy_launch =
  pl_bind :: "nat \<Rightarrow> bind_answer"
  pl_random :: "nat \<Rightarrow> 32 word"
  pl_udp_spawn :: "(nat \<times> string) option"
  pl_tcp_spawn :: "(nat \<times> string) option"
  pl_loop_spawn :: "(nat \<times> string) option"

fun bind_listeners :: "proxy_launch \<Rightarrow> 16 word \<Rightarrow> nat \<Rightarrow> nat \<Rightarrow> string \<Rightarrow> error + 16 word" where
  "bind_listeners la requested 0 attempt message =
     Inl (Error ''PROXY_BIND'' (''Cannot bind IPv4/IPv6 UDP/TCP loopback listeners: '' @ message))"
| "bind_listeners la requested (Suc attempts) attempt message =
     (case pl_bind la attempt of
        No_socket what m \<Rightarrow> Inl (Error ''PROXY_IO'' (what @ '': '' @ m))
      | Bound \<Rightarrow> Inr (if requested \<noteq> 0 then requested else ucast (20000 + pl_random la attempt mod 28000))
      | Not_bound m \<Rightarrow> bind_listeners la requested attempts (Suc attempt) m)"

abbreviation all_listeners :: "listener list" where
  "all_listeners \<equiv> [Udp4, Tcp4, Udp6, Tcp6]"

definition proxy_stages :: "inet \<Rightarrow> proxy_launch \<Rightarrow> proxy \<Rightarrow> (failure + unit) \<times> proxy" where
  "proxy_stages inet la =
     bindA (\<lambda>p. case resume inet (px_router p) of
               Inl e \<Rightarrow> (Inl (Threw e), p)
             | Inr router \<Rightarrow> (Inr (), p\<lparr>px_router := router\<rparr>)) (\<lambda>_.
     bindA (\<lambda>p. case bind_listeners la (px_requested p) (if px_requested p \<noteq> 0 then 1 else 128) 0 [] of
               Inl e \<Rightarrow> (Inl (Threw e), p)
             | Inr port \<Rightarrow> (Inr (), p\<lparr>px_port := port, px_listening := True\<rparr>)) (\<lambda>_.
     bindA (\<lambda>p. let (r, e) = start_executor 8 1024 (pl_udp_spawn la) (px_udp p) in
               (thrown_other r, p\<lparr>px_udp := e\<rparr>)) (\<lambda>_.
     bindA (\<lambda>p. let (r, e) = start_executor 16 128 (pl_tcp_spawn la) (px_tcp p) in
               (thrown_other r, p\<lparr>px_tcp := e\<rparr>)) (\<lambda>_ p.
     let p = p\<lparr>px_running := True, px_state := Running\<rparr> in
     case pl_loop_spawn la of
       None \<Rightarrow> (Inr (), p\<lparr>px_loops := all_listeners\<rparr>)
     | Some (started, m) \<Rightarrow> (Inl (Threw_other m), p\<lparr>px_loops := take started all_listeners\<rparr>)))))"

text \<open>The \<open>catch\<close> block, with its joins: the threads end and the jobs are finished or dropped.\<close>

definition proxy_rollback :: "proxy \<Rightarrow> proxy" where
  "proxy_rollback p =
     p\<lparr>px_running := False, px_loops := [], px_udp := stop_executor (px_udp p), px_tcp := stop_executor (px_tcp p),
       px_clients := [], px_listening := False, px_port := 0, px_state := Failed\<rparr>"

definition start_local_proxy :: "inet \<Rightarrow> proxy_launch \<Rightarrow> proxy \<Rightarrow> (failure + unit) \<times> proxy" where
  "start_local_proxy inet la p =
     (if px_state p \<noteq> Stopped then (Inl (Threw (Error ''LIFECYCLE'' ''Proxy is not stopped'')), p)
      else
        case proxy_stages inet la (p\<lparr>px_state := Starting\<rparr>) of
          (Inr _, p) \<Rightarrow> (Inr (), p)
        | (Inl e, p) \<Rightarrow> (Inl e, proxy_rollback p))"

text \<open>
  \<open>stop\<close> between its joins: up to the listeners, then up to the threads of the first pool, then up to
  those of the second, then the rest.  Dropping a queued connection closes it.
\<close>

definition begin_stop_proxy :: "proxy \<Rightarrow> proxy" where
  "begin_stop_proxy p =
     (if px_state p = Stopped \<or> px_stop p \<noteq> No_stop then p
      else p\<lparr>px_state := Stopping, px_router := cancel_pending (px_router p), px_running := False,
             px_stop := Joining_listeners\<rparr>)"

definition stop_udp_handlers :: "proxy \<Rightarrow> proxy" where
  "stop_udp_handlers p =
     p\<lparr>px_effects := px_effects p @ map Shut_client (px_clients p),
       px_udp := begin_stop_executor (px_udp p), px_stop := Stopping_udp\<rparr>"

definition stop_tcp_handlers :: "proxy \<Rightarrow> proxy" where
  "stop_tcp_handlers p =
     p\<lparr>px_udp := end_stop_executor (px_udp p),
       px_clients := fold remove1 (ex_jobs (px_tcp p)) (px_clients p),
       px_tcp := begin_stop_executor (px_tcp p), px_stop := Stopping_tcp\<rparr>"

definition end_stop_proxy :: "proxy \<Rightarrow> proxy" where
  "end_stop_proxy p =
     p\<lparr>px_tcp := end_stop_executor (px_tcp p), px_listening := False, px_port := 0, px_state := Stopped,
       px_stop := No_stop\<rparr>"

text \<open>\<open>stop\<close> as one call.\<close>

definition stop_local_proxy :: "proxy \<Rightarrow> proxy" where
  "stop_local_proxy p =
     (if px_state p = Stopped then p
      else
        let p = stop_udp_handlers ((begin_stop_proxy p)\<lparr>px_loops := []\<rparr>);
            p = stop_tcp_handlers (p\<lparr>px_udp := (px_udp p)\<lparr>ex_active := [], ex_waiting := 0\<rparr>\<rparr>) in
        end_stop_proxy (p\<lparr>px_tcp := (px_tcp p)\<lparr>ex_active := [], ex_waiting := 0\<rparr>, px_clients := []\<rparr>))"

definition cancel_proxy :: "proxy \<Rightarrow> proxy" where
  "cancel_proxy p = p\<lparr>px_router := cancel_pending (px_router p)\<rparr>"

definition reload_proxy :: "inet \<Rightarrow> config \<Rightarrow> proxy \<Rightarrow> (error + unit) \<times> proxy" where
  "reload_proxy inet config p =
     (case reload inet config (px_router p) of
        Inl e \<Rightarrow> (Inl e, p)
      | Inr router \<Rightarrow> (Inr (), p\<lparr>px_router := router\<rparr>))"

definition proxy_status :: "proxy \<Rightarrow> interception_status" where
  "proxy_status p =
     \<lparr>is_state = px_state p, is_port = px_port p, is_transparent = False, is_udp = True, is_tcp = True,
      is_error_code = [], is_error_message = []\<rparr>"

definition local_proxy :: "inet \<Rightarrow> proxy_launch \<Rightarrow> proxy provider" where
  "local_proxy inet la =
     \<lparr>pv_start = start_local_proxy inet la, pv_stop = stop_local_proxy, pv_cancel_pending = cancel_proxy,
      pv_reload = reload_proxy inet, pv_status = proxy_status\<rparr>"

end
