(* ===== verification/Nft.thy ===== *)
theory Nft
  imports Local_Proxy
begin

text \<open>
  The transparent interception of Linux (\<open>src/platform/linux/linux_interception.cpp\<close>): a local
  proxy, and rules of nftables that send the DNS of the machine to it.  The kernel's rules are
  part of the state; whether \<open>nft\<close> works is a parameter.
\<close>

section \<open>The resolver of the system\<close>

definition is_blank :: "char \<Rightarrow> bool" where
  "is_blank c \<longleftrightarrow> c = CHR '' '' \<or> 9 \<le> code c \<and> code c \<le> 13"

text \<open>\<open>row >> word\<close>: the word and the rest.\<close>

definition next_word :: "string \<Rightarrow> string \<times> string" where
  "next_word row =
     (let row = dropWhile is_blank row in
      (takeWhile (\<lambda>c. \<not> is_blank c) row, dropWhile (\<lambda>c. \<not> is_blank c) row))"

definition is_loopback_resolver :: "string \<Rightarrow> bool" where
  "is_loopback_resolver value \<longleftrightarrow> value = ''127.0.0.1'' \<or> value = ''127.0.0.53'' \<or> value = ''::1''"

definition resolver_of_line :: "inet \<Rightarrow> bool \<Rightarrow> string \<Rightarrow> string option" where
  "resolver_of_line inet allow_loopback line =
     (let (key, row) = next_word line; (value, _) = next_word row in
      if key \<noteq> ''nameserver'' \<or> \<not> is_numeric_ip inet value then None
      else if is_loopback_resolver value \<and> \<not> allow_loopback then None
      else Some value)"

text \<open>A file that cannot be opened has no lines.\<close>

definition read_resolver_file :: "inet \<Rightarrow> files \<Rightarrow> string \<Rightarrow> bool \<Rightarrow> server" where
  "read_resolver_file inet files path allow_loopback =
     (let lines = (case files path of None \<Rightarrow> [] | Some text \<Rightarrow> split_on (CHR 0x0A) text) in
      case List.map_filter (resolver_of_line inet allow_loopback) lines of
        [] \<Rightarrow> default_server
      | value # _ \<Rightarrow>
          default_server\<lparr>srv_id := 1, srv_name := ''System resolver from '' @ path, srv_protocol := udp,
            srv_ip := value, srv_port := 53, srv_timeout_ms := 3000\<rparr>)"

definition resolver_paths :: "string list" where
  "resolver_paths =
     [''/run/systemd/resolve/resolv.conf'', ''/run/NetworkManager/no-stub-resolv.conf'', ''/etc/resolv.conf'']"

definition system_resolver :: "inet \<Rightarrow> files \<Rightarrow> server" where
  "system_resolver inet files =
     (case find (\<lambda>server. srv_ip server \<noteq> []) (map (\<lambda>path. read_resolver_file inet files path False) resolver_paths) of
        Some server \<Rightarrow> server
      | None \<Rightarrow>
          default_server\<lparr>srv_id := 1, srv_name := ''Fallback resolver'', srv_protocol := udp,
            srv_ip := ''1.1.1.1'', srv_port := 53, srv_timeout_ms := 3000\<rparr>)"

section \<open>State\<close>

text \<open>\<open>nf_rules\<close>: the redirections in the kernel, for UDP (\<open>True\<close>) or TCP, with their port.\<close>

record nft =
  nf_proxy :: proxy
  nf_intercepted :: "16 word"
  nf_status :: interception_status
  nf_rules :: "(bool \<times> 16 word) list"
  nf_log :: "log_call list"

text \<open>
  \<open>nl_delete\<close>: whether the deletion before and after the script works; \<open>nl_script\<close>: how many of the
  redirections a failing script has added, \<open>None\<close> when it works.
\<close>

record nft_launch =
  nl_root :: bool
  nl_found :: bool
  nl_proxy :: proxy_launch
  nl_script :: "string \<Rightarrow> nat option"
  nl_delete :: "bool \<times> bool"

definition default_status :: interception_status where
  "default_status =
     \<lparr>is_state = Stopped, is_port = 0, is_transparent = False, is_udp = False, is_tcp = False,
      is_error_code = [], is_error_message = []\<rparr>"

definition nft_log :: "level \<Rightarrow> string \<Rightarrow> string \<Rightarrow> nft \<Rightarrow> nft" where
  "nft_log lvl event message n = n\<lparr>nf_log := nf_log n @ [Log_write lvl event message]\<rparr>"

definition new_nft :: "inet \<Rightarrow> files \<Rightarrow> 16 word \<Rightarrow> config \<Rightarrow> error + nft" where
  "new_nft inet files intercepted config =
     bindE (validate inet config) (\<lambda>_.
     bindE (runtime_options config) (\<lambda>options.
     let original = system_resolver inet files in
     bindE (new_proxy inet \<lparr>rt_config = config, rt_options = options, rt_shared = no_shared,
              rt_stopped = False, rt_transports = replicate 8 False\<rparr> original 0) (\<lambda>proxy.
     Inr (nft_log verbose ''SYSTEM_RESOLVER''
            (''Selected original resolver '' @ srv_ip original @ '':'' @ to_string (unat (srv_port original)) @
             '' source='' @ srv_name original)
            \<lparr>nf_proxy = proxy, nf_intercepted = intercepted, nf_status = default_status, nf_rules = [], nf_log = []\<rparr>))))"

section \<open>Start, stop, reload\<close>

definition upstream_mark :: nat where
  "upstream_mark = 0x4e444e53"

definition nft_script :: "16 word \<Rightarrow> 16 word \<Rightarrow> string" where
  "nft_script intercepted port =
     ''nft 'add table inet nativedns' && '' @
     ''nft 'add chain inet nativedns output { type nat hook output priority -100; policy '' @
     ''accept; }' && '' @
     ''nft 'add rule inet nativedns output meta mark '' @ to_string upstream_mark @ '' return' && '' @
     ''nft 'add rule inet nativedns output meta l4proto udp udp dport '' @ to_string (unat intercepted) @
     '' redirect to :'' @ to_string (unat port) @ [CHR 0x27] @ '' && '' @
     ''nft 'add rule inet nativedns output meta l4proto tcp tcp dport '' @ to_string (unat intercepted) @
     '' redirect to :'' @ to_string (unat port) @ [CHR 0x27]"

definition nft_unsupported :: "run_options \<Rightarrow> error + unit" where
  "nft_unsupported options =
     requireE (\<not> (ro_intercept_others options \<or> ro_block_tcp53 options))
       (Error ''NOT_IMPLEMENTED''
          (''Linux interception does not implement injected-packet selection or '' @ ''TCP/53 blocking''))"

definition nft_require :: "bool \<Rightarrow> string \<Rightarrow> string \<Rightarrow> nft \<Rightarrow> (failure + unit) \<times> nft" where
  "nft_require c event message n = (thrown (requireE c (Error event message)), n)"

definition nft_note :: "level \<Rightarrow> string \<Rightarrow> string \<Rightarrow> nft \<Rightarrow> (failure + unit) \<times> nft" where
  "nft_note lvl event message n = (Inr (), nft_log lvl event message n)"

definition start_nft_proxy :: "inet \<Rightarrow> proxy_launch \<Rightarrow> nft \<Rightarrow> (failure + unit) \<times> nft" where
  "start_nft_proxy inet la n =
     (let (r, p) = start_local_proxy inet la (nf_proxy n) in (r, n\<lparr>nf_proxy := p\<rparr>))"

definition delete_rules :: "bool \<Rightarrow> nft \<Rightarrow> nft" where
  "delete_rules deleted n = (if deleted then n\<lparr>nf_rules := []\<rparr> else n)"

definition install_rules :: "nft_launch \<Rightarrow> nft \<Rightarrow> (failure + unit) \<times> nft" where
  "install_rules la n =
     (let port = is_port (proxy_status (nf_proxy n)); n = delete_rules (fst (nl_delete la)) n;
          rules = [(True, port), (False, port)] in
      case nl_script la (nft_script (nf_intercepted n) port) of
        None \<Rightarrow> (Inr (), n\<lparr>nf_rules := nf_rules n @ rules\<rparr>)
      | Some added \<Rightarrow>
          let n = n\<lparr>nf_rules := nf_rules n @ take added rules\<rparr>;
              n = n\<lparr>nf_proxy := stop_local_proxy (nf_proxy n)\<rparr> in
          (Inl (Threw (Error ''NFT_SETUP'' ''Failed to install NativeDNS nftables redirect rules'')),
           delete_rules (snd (nl_delete la)) n))"

definition nft_stages :: "inet \<Rightarrow> nft_launch \<Rightarrow> nft \<Rightarrow> (failure + unit) \<times> nft" where
  "nft_stages inet la n =
     (case runtime_options (rt_config (px_router (nf_proxy n))) of
        Inl e \<Rightarrow> (Inl (Threw e), n)
      | Inr options \<Rightarrow>
          bindA (\<lambda>n. (thrown (nft_unsupported options), n)) (\<lambda>_.
          bindA (if ro_captive_portal_detection options
                 then nft_note errors_only ''CAPTIVE_PORTAL_UNAVAILABLE''
                        ''Linux does not provide a captive portal detection source''
                 else (\<lambda>n. (Inr (), n))) (\<lambda>_.
          bindA (nft_require (nl_root la) ''ELEVATION_REQUIRED''
                   (''Linux transparent interception requires root/CAP_NET_ADMIN CoreHost '' @ ''privileges'')) (\<lambda>_.
          bindA (nft_note verbose ''LINUX_PRIVILEGES'' ''Transparent interception privilege check passed'') (\<lambda>_.
          bindA (nft_require (nl_found la) ''NFT_NOT_FOUND''
                   ''nftables command is required for transparent Linux interception'') (\<lambda>_.
          bindA (nft_note verbose ''NFT_AVAILABLE'' ''nftables executable found'') (\<lambda>_.
          bindA (start_nft_proxy inet (nl_proxy la)) (\<lambda>_ n.
          bindA (nft_require (is_port (proxy_status (nf_proxy n)) \<noteq> 0) ''INTERCEPTION''
                   ''Local proxy did not expose a port'') (\<lambda>_.
          bindA (install_rules la) (\<lambda>_ n.
          let port = is_port (proxy_status (nf_proxy n)) in
          nft_note normal ''LINUX_INTERCEPTION'' (''nftables redirect active; local_port='' @ to_string (unat port))
            (n\<lparr>nf_status := \<lparr>is_state = Running, is_port = port, is_transparent = True, is_udp = True, is_tcp = True,
               is_error_code = [], is_error_message = []\<rparr>\<rparr>))) n))))))) n)"

text \<open>Only an \<open>Error\<close> is caught; after another exception the state stays \<open>Starting\<close>.\<close>

definition start_nft :: "inet \<Rightarrow> nft_launch \<Rightarrow> nft \<Rightarrow> (failure + unit) \<times> nft" where
  "start_nft inet la n =
     (if is_state (nf_status n) \<noteq> Stopped
      then (Inl (Threw (Error ''LIFECYCLE'' ''Linux interception is not stopped'')), n)
      else
        case nft_stages inet la (n\<lparr>nf_status := (nf_status n)\<lparr>is_state := Starting\<rparr>\<rparr>) of
          (Inl (Threw e), n) \<Rightarrow>
            (Inl (Threw e), n\<lparr>nf_status := (nf_status n)\<lparr>is_state := Failed, is_error_code := err_code e,
                                 is_error_message := err_msg e\<rparr>\<rparr>)
        | (r, n) \<Rightarrow> (r, n))"

definition stop_nft :: "bool \<Rightarrow> nft \<Rightarrow> nft" where
  "stop_nft deleted n =
     (if is_state (nf_status n) = Stopped then n
      else
        let n = delete_rules deleted (n\<lparr>nf_status := (nf_status n)\<lparr>is_state := Stopping\<rparr>\<rparr>) in
        n\<lparr>nf_proxy := stop_local_proxy (nf_proxy n), nf_status := default_status\<rparr>)"

definition cancel_nft :: "nft \<Rightarrow> nft" where
  "cancel_nft n = n\<lparr>nf_proxy := cancel_proxy (nf_proxy n)\<rparr>"

definition reload_nft :: "inet \<Rightarrow> config \<Rightarrow> nft \<Rightarrow> (error + unit) \<times> nft" where
  "reload_nft inet config n =
     (case bindE (runtime_options config) nft_unsupported of
        Inl e \<Rightarrow> (Inl e, n)
      | Inr _ \<Rightarrow> (let (r, p) = reload_proxy inet config (nf_proxy n) in (r, n\<lparr>nf_proxy := p\<rparr>)))"

definition linux_nft :: "inet \<Rightarrow> nft_launch \<times> bool \<Rightarrow> nft provider" where
  "linux_nft inet system =
     (let (la, deleted) = system in
      \<lparr>pv_start = start_nft inet la, pv_stop = stop_nft deleted, pv_cancel_pending = cancel_nft,
       pv_reload = reload_nft inet, pv_status = nf_status\<rparr>)"

end
