(* ===== verification/Host_Facts.thy ===== *)
theory Host_Facts
  imports Host Logger_Facts Intercept_Life_Facts Config_Facts
begin

text \<open>
  The host as a state machine over any backend that keeps the promises of the locale \<open>backend\<close>:
  its configuration stays valid and is the one the log follows, a start or a reload happens
  completely or not at all, and no operation of the protocol waits forever.
\<close>

section \<open>The file log\<close>

lemma file_step_display [simp]:
  "lo_display_level (fw_logger (file_step env time w)) = lo_display_level (fw_logger w)"
  by (auto simp: file_step_def Let_def Log_File.complete_def task_failed_def record_file_failure_def record_event_def
      split: list.split file_task.split option.split prod.split)

lemma log_write_display [simp]:
  "lo_display_level (log_write time lvl err message context s) = lo_display_level s"
  by (auto simp: log_write_def Let_def record_event_def queue_event_def record_file_failure_def)

lemma log_steps_lift: "(log_step env)\<^sup>*\<^sup>* x y \<Longrightarrow> (logger_step env)\<^sup>*\<^sup>* x y"
  by (induction rule: rtranclp_induct) (auto intro: rtranclp.rtrancl_into_rtrancl worked)

lemma await_file_steps:
  "(logger_step env)\<^sup>*\<^sup>* (w, []) (snd (await_file n env time ticket w), []) \<and>
   lo_display_level (fw_logger (snd (await_file n env time ticket w))) = lo_display_level (fw_logger w)"
proof (induction n arbitrary: w)
  case (Suc n)
  have "logger_step env (w, []) (file_step env time w, [])" by (intro worked filed)
  then show ?case using Suc.IH [of "file_step env time w"]
    by (auto split: option.split intro: converse_rtranclp_into_rtranclp)
qed simp

text \<open>The wait for a promise ends: the file thread has done every task after as many rounds.\<close>

lemma await_file_returns:
  assumes "file_inv w" "running w" "ticket < lo_tickets (fw_logger w)" "length (lo_tasks (fw_logger w)) \<le> n"
  shows "fst (await_file n env time ticket w) \<noteq> None"
  using assms
proof (induction n arbitrary: w)
  case 0
  then show ?case by (auto simp: file_inv_def tickets_ok_def map_of_eq_None_iff)
next
  case (Suc n)
  show ?case
  proof (cases "map_of (lo_results (fw_logger w)) ticket")
    case None
    with Suc.prems have "lo_tasks (fw_logger w) \<noteq> []"
      by (auto simp: file_inv_def tickets_ok_def map_of_eq_None_iff)
    then obtain task tasks where t: "lo_tasks (fw_logger w) = task # tasks" by (meson neq_Nil_conv)
    have "\<not> fw_stopped w" using Suc.prems(2) by (simp add: running_def)
    from file_step_rest [OF t this, of env time]
    have "length (lo_tasks (fw_logger (file_step env time w))) \<le> n"
      "lo_tickets (fw_logger (file_step env time w)) = lo_tickets (fw_logger w)"
      using Suc.prems(4) t by auto
    moreover have "running (file_step env time w)"
      by (rule log_step_running [OF filed Suc.prems(2)])
    moreover have "file_inv (file_step env time w)" using Suc.prems(1) by (rule file_step_inv)
    ultimately have "fst (await_file n env time ticket (file_step env time w)) \<noteq> None"
      using Suc.IH Suc.prems(3) by simp
    then show ?thesis using None by simp
  qed simp
qed

text \<open>
  The state of the log of a host: what the logger's steps can reach from its start.
\<close>

definition log_ok :: "file_env \<Rightarrow> log_files \<Rightarrow> file_world \<Rightarrow> bool" where
  "log_ok fe files w \<longleftrightarrow> (logger_step fe)\<^sup>*\<^sup>* (log_start core_logger files) (w, [])"

lemma log_ok_facts: "log_ok fe files w \<Longrightarrow> file_inv w \<and> running w"
proof -
  assume r: "log_ok fe files w"
  then obtain n where "logger_inv 4096 n (w, [])" unfolding log_ok_def using logging.reachable_inv by blast
  then show ?thesis using reachable_running [OF r [unfolded log_ok_def]] logger_inv_file by auto
qed

text \<open>What the operations on the log may change; on a healthy log they do not block.\<close>

definition logs_only :: "host_env \<Rightarrow> 'p host \<Rightarrow> 'p host \<Rightarrow> bool" where
  "logs_only env h h' \<longleftrightarrow>
     (logger_step (he_files env))\<^sup>*\<^sup>* (ho_log h, []) (ho_log h', []) \<and>
     lo_display_level (fw_logger (ho_log h')) = lo_display_level (fw_logger (ho_log h)) \<and>
     h' = h\<lparr>ho_log := ho_log h', ho_log_path := ho_log_path h', ho_log_enabled := ho_log_enabled h'\<rparr>"

lemma logs_only_trans:
  assumes "logs_only env h j" "logs_only env j k"
  shows "logs_only env h k"
proof -
  have j: "j = h\<lparr>ho_log := ho_log j, ho_log_path := ho_log_path j, ho_log_enabled := ho_log_enabled j\<rparr>"
    and k: "k = j\<lparr>ho_log := ho_log k, ho_log_path := ho_log_path k, ho_log_enabled := ho_log_enabled k\<rparr>"
    using assms by (simp_all only: logs_only_def)
  have "k = h\<lparr>ho_log := ho_log k, ho_log_path := ho_log_path k, ho_log_enabled := ho_log_enabled k\<rparr>"
    by (subst k, subst j) simp
  moreover have "(logger_step (he_files env))\<^sup>*\<^sup>* (ho_log h, []) (ho_log k, [])"
    by (rule rtranclp_trans [of _ _ "(ho_log j, [])"]) (use assms in \<open>simp_all only: logs_only_def\<close>)
  moreover have "lo_display_level (fw_logger (ho_log k)) = lo_display_level (fw_logger (ho_log h))"
    using assms by (simp only: logs_only_def)
  ultimately show ?thesis unfolding logs_only_def by blast
qed

interpretation logged: step_relation "logs_only env" for env
  by unfold_locales (simp add: logs_only_def, rule logs_only_trans)

lemma tryA_rel:
  "logs_only env h (snd (m h)) \<Longrightarrow> (\<And>e t. m h = (Inl e, t) \<Longrightarrow> logs_only env t (snd (handler e t))) \<Longrightarrow>
     logs_only env h (snd (tryA m handler h))"
  by (auto simp: tryA_def split: prod.splits sum.splits intro: logged.rel_trans)

lemma host_log_only: "logs_only env h (snd (host_log env lvl event message h))"
  using log_steps_lift [OF log_write_steps] by (simp add: host_log_def logs_only_def)

lemma configured_steps:
  assumes "configure_file enable lvl path maximum retained (fw_logger w) = Inr (ticket, s)"
  shows "logger_step env (w, []) (with_logger w s, [])" "lo_display_level s = lo_display_level (fw_logger w)"
proof -
  show "logger_step env (w, []) (with_logger w s, [])" by (rule worked, rule configured, rule assms)
  show "lo_display_level s = lo_display_level (fw_logger w)"
    using assms by (auto simp: configure_file_def submit_file_task_def Let_def split: if_splits)
qed

lemma file_task_only:
  assumes "logger_step (he_files env) (ho_log h, []) (with_logger (ho_log h) s, [])"
    and "lo_display_level s = lo_display_level (fw_logger (ho_log h))"
  shows "logs_only env h (snd (await_task env ticket s h))"
proof -
  let ?w = "with_logger (ho_log h) s"
  obtain r w where a: "await_file (length (lo_tasks s)) (he_files env) (he_time env) ticket ?w = (r, w)"
    by (cases "await_file (length (lo_tasks s)) (he_files env) (he_time env) ticket ?w")
  have "(logger_step (he_files env))\<^sup>*\<^sup>* (?w, []) (w, []) \<and> lo_display_level (fw_logger w) = lo_display_level s"
    using await_file_steps [of "he_files env" ?w "length (lo_tasks s)" "he_time env" ticket] a by simp
  then have "(logger_step (he_files env))\<^sup>*\<^sup>* (ho_log h, []) (w, [])"
      "lo_display_level (fw_logger w) = lo_display_level (fw_logger (ho_log h))"
    using assms by (auto intro: converse_rtranclp_into_rtranclp)
  then show ?thesis
    by (simp add: await_task_def a logs_only_def split: option.split)
qed

lemma set_file_log_only: "logs_only env h (snd (set_file_log env enable lvl h))"
proof -
  have path: "logs_only env h (h\<lparr>ho_log_path := path\<rparr>)" "logs_only env h (h\<lparr>ho_log_enabled := b\<rparr>)" for h path b
    by (simp_all add: logs_only_def)
  show ?thesis
    unfolding set_file_log_def
    by (intro logged.bindA_rel)
      (auto simp: path logged.rel_refl configured_steps intro!: file_task_only split: sum.split prod.split)
qed

lemma flush_dns_only: "logs_only env h (snd (flush_dns env message h))"
  by (auto simp: flush_dns_def logged.rel_refl host_log_only split: sum.split option.split)

lemma try_file_log_only: "logs_only env h (snd (try_file_log env event h))"
  unfolding try_file_log_def Let_def
  by (intro tryA_rel set_file_log_only) (auto simp: logged.rel_refl host_log_only)

lemma clear_file_log_only: "logs_only env h (snd (clear_file_log env h))"
proof -
  obtain ticket s where c: "clear_file (fw_logger (ho_log h)) = (ticket, s)" by (cases "clear_file (fw_logger (ho_log h))")
  then have "logger_step (he_files env) (ho_log h, []) (with_logger (ho_log h) s, [])" by (intro worked emptied)
  moreover have "lo_display_level s = lo_display_level (fw_logger (ho_log h))"
    using c by (auto simp: clear_file_def submit_file_task_def Let_def)
  ultimately show ?thesis by (simp add: clear_file_log_def c file_task_only)
qed

lemma log_ok_after: "log_ok (he_files env) files (ho_log h) \<Longrightarrow> logs_only env h h' \<Longrightarrow> log_ok (he_files env) files (ho_log h')"
  by (auto simp: log_ok_def logs_only_def intro: rtranclp_trans)

section \<open>Operations that do not block\<close>

definition returns :: "(failure + 'a) \<times> 's \<Rightarrow> bool" where
  "returns r \<longleftrightarrow> fst r \<noteq> Inl Blocked"

lemma returns_simps [simp]:
  "returns (Inr x, s)" "returns (Inl (Threw e), s)" "returns (Inl (Threw_other m), s)"
  "returns (thrown r, s)" "\<not> returns (Inl Blocked, s)"
  by (simp_all add: returns_def thrown_def split: sum.split)

lemma returns_bindA:
  "returns (m s) \<Longrightarrow> (\<And>x t. m s = (Inr x, t) \<Longrightarrow> returns (f x t)) \<Longrightarrow> returns (bindA m f s)"
  by (auto simp: bindA_def returns_def split: prod.splits sum.splits)

lemma host_log_returns [simp]: "returns (host_log env lvl event message h)"
  by (simp add: host_log_def)

lemma flush_dns_returns [simp]: "returns (flush_dns env message h)"
  by (simp add: flush_dns_def split: sum.split option.split)

lemma file_task_returns:
  assumes "log_ok fe files (with_logger (ho_log h) s)" "ticket < lo_tickets s"
  shows "returns (await_task env ticket s h)"
proof -
  let ?w = "with_logger (ho_log h) s"
  have "fst (await_file (length (lo_tasks s)) (he_files env) (he_time env) ticket ?w) \<noteq> None"
    using log_ok_facts [OF assms(1)] assms(2) by (intro await_file_returns) simp_all
  then show ?thesis by (auto simp: await_task_def split: prod.split option.split)
qed

lemma set_file_log_returns:
  assumes "log_ok (he_files env) files (ho_log h)"
  shows "returns (set_file_log env enable lvl h)"
proof -
  have task: "returns (await_task env ticket s h)"
    if "configure_file enable lvl path m k (fw_logger w) = Inr (ticket, s)"
      "log_ok (he_files env) files w" "ho_log h = w" for h :: "'a host" and w enable lvl path m k ticket s
  proof -
    have "log_ok (he_files env) files (with_logger (ho_log h) s)"
      using that(2) configured_steps(1) [OF that(1), of "he_files env"]
      unfolding log_ok_def that(3) by (rule_tac rtranclp.rtrancl_into_rtrancl)
    moreover have "ticket < lo_tickets s"
      using that(1) by (auto simp: configure_file_def submit_file_task_def Let_def split: if_splits)
    ultimately show ?thesis by (rule file_task_returns)
  qed
  show ?thesis
    unfolding set_file_log_def
    by (intro returns_bindA) (auto split: if_splits sum.splits intro: task [OF _ assms])
qed

lemma try_file_log_returns:
  assumes "log_ok (he_files env) files (ho_log h)"
  shows "returns (try_file_log env event h)"
  using set_file_log_returns [OF assms, of "lg_file_enabled (cf_logging (ho_config h))" "lg_file (cf_logging (ho_config h))"]
  by (auto simp: try_file_log_def tryA_def returns_def Let_def host_log_def split: prod.splits sum.splits)

lemma clear_file_log_returns:
  assumes "log_ok (he_files env) files (ho_log h)"
  shows "returns (clear_file_log env h)"
proof -
  obtain ticket s where c: "clear_file (fw_logger (ho_log h)) = (ticket, s)" by (cases "clear_file (fw_logger (ho_log h))")
  then have "logger_step (he_files env) (ho_log h, []) (with_logger (ho_log h) s, [])" by (intro worked emptied)
  then have "log_ok (he_files env) files (with_logger (ho_log h) s)"
    using assms unfolding log_ok_def by (rule_tac rtranclp.rtrancl_into_rtrancl)
  moreover have "ticket < lo_tickets s" using c by (auto simp: clear_file_def submit_file_task_def Let_def)
  ultimately show ?thesis by (simp add: clear_file_log_def c file_task_returns)
qed

section \<open>Validation does not look at the bootstrap flag\<close>

abbreviation flagged :: "bool \<Rightarrow> server \<Rightarrow> server" where
  "flagged b server \<equiv> server\<lparr>srv_use_system_bootstrap := b\<rparr>"

lemma validate_server_flagged [simp]: "validate_server inet (flagged b server) = validate_server inet server"
  by (simp add: validate_server_def validate_dnscrypt_server_def relay_endpoint_def fun_eq_iff)

lemma server_map_flagged: "server_map (with_bootstrap b c) i = map_option (flagged b) (server_map c i)"
proof -
  have "find (\<lambda>s. srv_id s = i) (map (flagged b) xs) = map_option (flagged b) (find (\<lambda>s. srv_id s = i) xs)" for xs
    by (induction xs) simp_all
  then show ?thesis by (simp add: server_map_def with_bootstrap_def)
qed

lemma visit_flagged: "visit n (server_map (with_bootstrap b c)) = visit n (server_map c)"
proof (induction n)
  case (Suc n)
  show ?case
    unfolding visit.simps(2) [abs_def] Suc by (intro ext) (simp add: server_map_flagged Let_def split: option.split prod.split)
qed (simp add: fun_eq_iff)

lemma foldE_map: "foldE f (map g xs) s = foldE (\<lambda>x. f (g x)) xs s"
  by (induction xs arbitrary: s) (simp_all cong: bindE_cong)

lemma mapE_map: "mapE f (map g xs) = mapE (\<lambda>x. f (g x)) xs"
  by (induction xs) simp_all

lemma runtime_flagged: "runtime_options (c\<lparr>cf_servers := servers\<rparr>) = runtime_options c"
proof -
  have "setting (c\<lparr>cf_servers := servers\<rparr>) = setting c"
    by (simp add: fun_eq_iff setting_def split: option.split)
  then show ?thesis by (simp add: runtime_options_def bool_setting_def number_setting_def)
qed

lemma validate_flagged [simp]: "validate inet (with_bootstrap b c) = validate inet c"
proof -
  have fields: "cf_servers (with_bootstrap b c) = map (flagged b) (cf_servers c)"
    "runtime_options (with_bootstrap b c) = runtime_options c"
    "cf_schema_version (with_bootstrap b c) = cf_schema_version c"
    "cf_rules (with_bootstrap b c) = cf_rules c" "cf_test_concurrency (with_bootstrap b c) = cf_test_concurrency c"
    "cf_test_target (with_bootstrap b c) = cf_test_target c" "cf_logging (with_bootstrap b c) = cf_logging c"
    by (simp_all add: with_bootstrap_def runtime_flagged)
  have ids: "map (\<lambda>x. srv_id (flagged b x)) xs = map srv_id xs" for xs by simp
  show ?thesis
    unfolding validate_def visit_flagged fields foldE_map mapE_map map_map comp_def
    by (simp add: server_map_flagged)
qed

section \<open>Backends\<close>

text \<open>
  What the host relies on.  \<open>p l\<close> is the backend while the system answers \<open>l\<close>, and \<open>moves\<close> is what
  the threads of the backend do by themselves.
\<close>

abbreviation provider_state :: "'p provider \<Rightarrow> 'p \<Rightarrow> run_state" where
  "provider_state p i \<equiv> is_state (pv_status p i)"

locale backend =
  fixes p :: "'l \<Rightarrow> 'p provider" and ok :: "'p \<Rightarrow> bool" and moves :: "'p \<Rightarrow> 'p \<Rightarrow> bool"
  assumes status_same: "pv_status (p l) = pv_status (p l')"
    and start_ok: "ok i \<Longrightarrow> pv_start (p l) i = (r, j) \<Longrightarrow> ok j"
    and start_runs: "ok i \<Longrightarrow> provider_state (p l) i = Stopped \<Longrightarrow> pv_start (p l) i = (Inr u, j) \<Longrightarrow>
      provider_state (p l) j = Running"
    and start_returns: "ok i \<Longrightarrow> fst (pv_start (p l) i) \<noteq> Inl Blocked"
    and stop_ok: "ok i \<Longrightarrow> ok (pv_stop (p l) i) \<and> provider_state (p l) (pv_stop (p l) i) = Stopped"
    and cancel_ok: "ok i \<Longrightarrow> ok (pv_cancel_pending (p l) i)"
    and reload_ok: "ok i \<Longrightarrow> pv_reload (p l) c i = (r', j) \<Longrightarrow> ok j"
    and reload_keeps: "pv_reload (p l) c i = (Inl e, j) \<Longrightarrow> j = i"
    and moves_ok: "ok i \<Longrightarrow> moves i j \<Longrightarrow> ok j"
    and moves_stopped: "ok i \<Longrightarrow> moves i j \<Longrightarrow> provider_state (p l) i = Stopped \<Longrightarrow> provider_state (p l) j = Stopped"

text \<open>The WinDivert interception keeps these promises.\<close>

definition windivert_moves :: "inet \<Rightarrow> divert \<Rightarrow> upstream \<Rightarrow> interception \<Rightarrow> interception \<Rightarrow> bool" where
  "windivert_moves inet env up i j \<longleftrightarrow> interception_step inet env up i j \<and>
     (cp_state (ic_capture i) = Stopped \<longrightarrow> cp_state (ic_capture j) = Stopped)"

lemma stop_interception_idle:
  assumes "interception_ok i"
  shows "idle (stop_interception owner driver_stopped i)"
    and "cp_state (ic_capture (stop_interception owner driver_stopped i)) = Stopped"
proof -
  have "idle (stop_interception owner driver_stopped i) \<and>
      cp_state (ic_capture (stop_interception owner driver_stopped i)) = Stopped"
  proof (cases "cp_state (ic_capture i) = Stopped")
    case True
    then show ?thesis using assms by (simp add: stop_interception_def interception_ok_def)
  next
    case False
    let ?b = "begin_stop i"
    let ?t = "?b\<lparr>ic_receiver := False, ic_capture := (ic_capture ?b)\<lparr>cp_active := []\<rparr>\<rparr>"
    have "interception_ok ?b" by (rule interception_step_ok [OF Begin_stop assms])
    then have "interception_ok ?t"
      by (auto simp: interception_ok_def queue_ok_def idle_def holds_all_def)
    then have "idle (end_stop owner driver_stopped ?t) \<and> cp_state (ic_capture (end_stop owner driver_stopped ?t)) = Stopped"
      by (intro end_stop_idle) simp_all
    then show ?thesis using False by (simp add: stop_interception_def Let_def)
  qed
  then show "idle (stop_interception owner driver_stopped i)"
    "cp_state (ic_capture (stop_interception owner driver_stopped i)) = Stopped" by simp_all
qed

lemma cancel_interception_ok: "interception_ok (cancel_interception i) = interception_ok i"
  by (simp add: cancel_interception_def interception_ok_def idle_def holds_all_def queue_ok_def)

interpretation diverting: backend "windivert inet" interception_ok "windivert_moves inet env up" for inet env up
proof
  fix i j :: interception and l l' :: "launch \<times> service_owner \<times> bool" and r :: "failure + unit" and r' :: "error + unit" and u c e
  obtain la owner driver_stopped where l: "l = (la, owner, driver_stopped)" by (cases l)
  show "pv_status (windivert inet l) = pv_status (windivert inet l')" by (simp add: windivert_def split: prod.split)
  show "interception_ok j" if "interception_ok i" "pv_start (windivert inet l) i = (r, j)"
    using that interception_step_ok [OF Start] by (auto simp: l windivert_def split: prod.splits)
  show "provider_state (windivert inet l) j = Running"
    if "interception_ok i" "provider_state (windivert inet l) i = Stopped" "pv_start (windivert inet l) i = (Inr u, j)"
    using that start_all_or_nothing [of i inet la owner driver_stopped "Inr u" j]
    by (auto simp: l windivert_def status_of_def Let_def thrown_def split: prod.splits sum.splits)
  show "fst (pv_start (windivert inet l) i) \<noteq> Inl Blocked"
    by (simp add: l windivert_def thrown_def split: prod.split sum.split)
  show "interception_ok (pv_stop (windivert inet l) i) \<and>
      provider_state (windivert inet l) (pv_stop (windivert inet l) i) = Stopped" if "interception_ok i"
    using stop_interception_idle [OF that, of owner driver_stopped]
    by (auto simp: l windivert_def status_of_def Let_def intro: idle_ok)
  show "interception_ok (pv_cancel_pending (windivert inet l) i)" if "interception_ok i"
    using that by (simp add: l windivert_def cancel_interception_ok)
  show "interception_ok j" if "interception_ok i" "pv_reload (windivert inet l) c i = (r', j)"
    using that interception_step_ok [OF Reload] by (auto simp: l windivert_def)
  show "j = i" if "pv_reload (windivert inet l) c i = (Inl e, j)"
    using that by (auto simp: l windivert_def reload_interception_def Let_def split: sum.splits)
  show "interception_ok j" if "interception_ok i" "windivert_moves inet env up i j"
    using that interception_step_ok by (auto simp: windivert_moves_def)
  show "provider_state (windivert inet l) j = Stopped"
    if "windivert_moves inet env up i j" "provider_state (windivert inet l) i = Stopped"
    using that by (auto simp: l windivert_def windivert_moves_def status_of_def Let_def)
qed

section \<open>Operations that leave the configuration alone\<close>

definition steady :: "host_env \<Rightarrow> ('p \<Rightarrow> bool) \<Rightarrow> 'p host \<Rightarrow> 'p host \<Rightarrow> bool" where
  "steady env ok h h' \<longleftrightarrow>
     (logger_step (he_files env))\<^sup>*\<^sup>* (ho_log h, []) (ho_log h', []) \<and>
     lo_display_level (fw_logger (ho_log h')) = lo_display_level (fw_logger (ho_log h)) \<and>
     ho_config h' = ho_config h \<and> ho_transparent h' = ho_transparent h \<and>
     ho_config_path h' = ho_config_path h \<and> ho_stopped h' = ho_stopped h \<and>
     (ok (ho_provider h) \<longrightarrow> ok (ho_provider h'))"

lemma steady_trans: "steady env ok h j \<Longrightarrow> steady env ok j k \<Longrightarrow> steady env ok h k"
  by (auto simp: steady_def intro: rtranclp_trans)

interpretation steady: step_relation "steady env ok" for env ok
  by unfold_locales (simp add: steady_def, rule steady_trans)

lemma logs_only_fields:
  assumes "logs_only env h h'"
  shows "ho_config h' = ho_config h" "ho_transparent h' = ho_transparent h" "ho_config_path h' = ho_config_path h"
    "ho_stopped h' = ho_stopped h" "ho_provider h' = ho_provider h" "ho_command h' = ho_command h"
    "ho_logs h' = ho_logs h" "ho_shutdown h' = ho_shutdown h" "ho_shutdown_requested h' = ho_shutdown_requested h"
proof -
  have "h' = h\<lparr>ho_log := ho_log h', ho_log_path := ho_log_path h', ho_log_enabled := ho_log_enabled h'\<rparr>"
    using assms by (simp only: logs_only_def)
  then obtain w path b where "h' = h\<lparr>ho_log := w, ho_log_path := path, ho_log_enabled := b\<rparr>" by blast
  then show "ho_config h' = ho_config h" "ho_transparent h' = ho_transparent h" "ho_config_path h' = ho_config_path h"
    "ho_stopped h' = ho_stopped h" "ho_provider h' = ho_provider h" "ho_command h' = ho_command h"
    "ho_logs h' = ho_logs h" "ho_shutdown h' = ho_shutdown h" "ho_shutdown_requested h' = ho_shutdown_requested h"
    by simp_all
qed

lemma logs_only_steady: "logs_only env h h' \<Longrightarrow> steady env ok h h'"
  by (simp add: steady_def logs_only_fields) (simp add: logs_only_def)

lemmas log_operations_steady =
  logs_only_steady [OF host_log_only] logs_only_steady [OF flush_dns_only] logs_only_steady [OF set_file_log_only]
  logs_only_steady [OF try_file_log_only] logs_only_steady [OF clear_file_log_only]

lemma endpoint_steady:
  "steady env ok h (snd (start_command env h))" "steady env ok h (snd (start_logs env h))"
  "steady env ok h (snd (start_shutdown env h))" "steady env ok h (snd (fault_at env stage h))"
  "steady env ok h (stop_endpoints h)" "steady env ok h (request_shutdown h)" "steady env ok h (snd (respond t h))"
  by (simp_all add: start_command_def start_logs_def start_shutdown_def fault_at_def stop_endpoints_def
      request_shutdown_def respond_def steady_def split: prod.split)

lemma at_stage_rel: "steady env ok h (snd (m h)) \<Longrightarrow> steady env ok h (snd (at_stage stage m h))"
  by (auto simp: at_stage_def split: prod.splits sum.splits)

lemma tryA_steady:
  "steady env ok h (snd (m h)) \<Longrightarrow> (\<And>e t. m h = (Inl e, t) \<Longrightarrow> steady env ok t (snd (handler e t))) \<Longrightarrow>
     steady env ok h (snd (tryA m handler h))"
  by (auto simp: tryA_def split: prod.splits sum.splits intro: steady_trans)

lemma recover_endpoint_steady:
  assumes "\<And>h. steady env ok h (snd (start h))"
  shows "steady env ok h (snd (recover_endpoint env name get start h))"
  unfolding recover_endpoint_def
  by (auto simp: steady.rel_refl endpoint_steady
      intro!: steady.bindA_rel tryA_steady log_operations_steady assms)

lemma log_network_steady: "steady env ok h (snd (log_network env previous h))"
proof -
  have "steady env ok h (fold (\<lambda>i h. snd (host_log env verbose ''NETWORK_INTERFACE'' (interface_details i) h)) is h)" for "is" h
  proof (induction "is" arbitrary: h)
    case (Cons i "is")
    show ?case unfolding fold_simps by (rule steady_trans [OF log_operations_steady(1) Cons.IH])
  qed (simp add: steady.rel_refl)
  then show ?thesis unfolding log_network_def Let_def by (auto intro!: steady.bindA_rel log_operations_steady)
qed

lemma host_tick_steady: "steady env ok h (snd (host_tick env p previous h))"
proof (cases "ho_shutdown_requested h")
  case False
  have network: "steady env ok h (snd ((if c then log_network env previous else (\<lambda>h. (Inr (), h))) h))" for c h
    by (simp add: log_network_steady steady.rel_refl)
  show ?thesis
    unfolding host_tick_def Let_def if_not_P [OF False]
    by (intro steady.bindA_rel recover_endpoint_steady endpoint_steady network) (simp add: steady.rel_refl)
qed (simp add: host_tick_def steady.rel_refl)

context backend
begin

lemma start_provider_steady: "steady env ok h (snd (start_provider (p l) h))"
  by (auto simp: start_provider_def steady_def start_ok split: prod.split)

lemma stop_provider_steady: "steady env ok h (stop_provider (p l) h)"
  by (simp add: stop_provider_def steady_def stop_ok)

lemma start_stages_steady: "steady env ok h (snd (start_stages env (p l) h))"
  unfolding start_stages_def Let_def
  by (intro steady.bindA_rel at_stage_rel log_operations_steady endpoint_steady start_provider_steady)

lemma handle_steady:
  assumes "operation \<noteq> Op_reload_config"
  shows "steady env ok h (snd (handle env (p l) later operation payload h))"
proof -
  have file_log: "steady env ok h (snd (handle_file_log env payload h))"
    by (auto simp: handle_file_log_def steady.rel_refl endpoint_steady
        intro!: steady.bindA_rel log_operations_steady split: sum.split prod.split)
  have display: "steady env ok h (h\<lparr>ho_log := with_logger (ho_log h) (clear_display (fw_logger (ho_log h)))\<rparr>)"
    using cleared [of "he_files env" "ho_log h" "[]"] by (auto simp: steady_def clear_display_def)
  have restart: "steady env ok h (h\<lparr>ho_restart_requested := True\<rparr>)" by (simp add: steady_def)
  show ?thesis
    using assms
    by (cases operation)
      (auto simp: handle_def steady.rel_refl start_provider_steady file_log Let_def
        intro!: steady.bindA_rel log_operations_steady endpoint_steady
        intro: steady_trans [OF display endpoint_steady(7)] steady_trans [OF stop_provider_steady endpoint_steady(7)]
          steady_trans [OF endpoint_steady(6,7)] steady_trans [OF restart steady_trans [OF endpoint_steady(6,7)]]
        split: handled.split)
qed

end

section \<open>The host and its callers\<close>

inductive host_step ::
  "inet \<Rightarrow> file_env \<Rightarrow> ('l \<Rightarrow> 'p provider) \<Rightarrow> ('p \<Rightarrow> 'p \<Rightarrow> bool) \<Rightarrow> 'p host \<Rightarrow> 'p host \<Rightarrow> bool"
  for inet fe p moves where
  Host_starts:
    "he_inet env = inet \<Longrightarrow> he_files env = fe \<Longrightarrow> host_start env (p l) h = (r, h') \<Longrightarrow>
     host_step inet fe p moves h h'"
| Host_stops:
    "he_inet env = inet \<Longrightarrow> he_files env = fe \<Longrightarrow> host_step inet fe p moves h (host_stop env (p l) h)"
| Host_handles:
    "he_inet env = inet \<Longrightarrow> he_files env = fe \<Longrightarrow> \<not> ho_stopped h \<Longrightarrow>
     handle env (p l) later operation payload h = (r, h') \<Longrightarrow> host_step inet fe p moves h h'"
| Host_ticks:
    "he_inet env = inet \<Longrightarrow> he_files env = fe \<Longrightarrow> \<not> ho_stopped h \<Longrightarrow>
     host_tick env (p l) previous h = (r', h') \<Longrightarrow> host_step inet fe p moves h h'"
| Endpoint_fails:
    "h' \<in> {h\<lparr>ho_command := \<lparr>ep_running = False, ep_failure = m\<rparr>\<rparr>,
           h\<lparr>ho_logs := \<lparr>ep_running = False, ep_failure = m\<rparr>\<rparr>,
           h\<lparr>ho_shutdown := \<lparr>ep_running = False, ep_failure = m\<rparr>\<rparr>} \<Longrightarrow>
     host_step inet fe p moves h h'"
| Backend_moves:
    "moves (ho_provider h) i \<Longrightarrow> host_step inet fe p moves h (h\<lparr>ho_provider := i\<rparr>)"
| Log_moves:
    "(log_step fe)\<^sup>*\<^sup>* (ho_log h, []) (w, []) \<Longrightarrow>
     lo_display_level (fw_logger w) = lo_display_level (fw_logger (ho_log h)) \<Longrightarrow>
     host_step inet fe p moves h (h\<lparr>ho_log := w\<rparr>)"

definition all_down :: "'p host \<Rightarrow> bool" where
  "all_down h \<longleftrightarrow> \<not> ep_running (ho_command h) \<and> \<not> ep_running (ho_logs h) \<and> \<not> ep_running (ho_shutdown h)"

definition all_up :: "'p host \<Rightarrow> bool" where
  "all_up h \<longleftrightarrow> ep_running (ho_command h) \<and> ep_running (ho_logs h) \<and> ep_running (ho_shutdown h)"

definition follows_config :: "inet \<Rightarrow> 'p host \<Rightarrow> bool" where
  "follows_config inet h \<longleftrightarrow> validate inet (ho_config h) = Inr () \<and>
     lo_display_level (fw_logger (ho_log h)) = lg_screen (cf_logging (ho_config h))"

definition host_ok ::
  "inet \<Rightarrow> file_env \<Rightarrow> log_files \<Rightarrow> ('l \<Rightarrow> 'p provider) \<Rightarrow> ('p \<Rightarrow> bool) \<Rightarrow> 'p host \<Rightarrow> bool" where
  "host_ok inet fe files p ok h \<longleftrightarrow>
     follows_config inet h \<and> log_ok fe files (ho_log h) \<and> ok (ho_provider h) \<and>
     (ho_stopped h \<longrightarrow> all_down h \<and> (\<forall>l. provider_state (p l) (ho_provider h) = Stopped))"

lemma set_display_fits: "enum_le lvl debug \<Longrightarrow> set_display lvl h =
    (Inr (), h\<lparr>ho_log := with_logger (ho_log h) ((fw_logger (ho_log h))\<lparr>lo_display_level := lvl\<rparr>)\<rparr>)"
  by (simp add: set_display_def set_display_level_def)

lemma validate_levels:
  "validate inet c = Inr u \<Longrightarrow> enum_le (lg_screen (cf_logging c)) debug"
  "validate inet c = Inr u \<Longrightarrow> \<exists>options. runtime_options c = Inr options"
  by (auto simp: validate_def)

lemma flush_dns_Inr: "runtime_options (ho_config h) = Inr options \<Longrightarrow> fst (flush_dns env message h) = Inr ()"
  by (simp add: flush_dns_def host_log_def split: option.split)

lemma try_file_log_Inr: "returns (try_file_log env event h) \<Longrightarrow> fst (try_file_log env event h) = Inr ()"
  by (auto simp: try_file_log_def tryA_def returns_def Let_def host_log_def split: prod.splits sum.splits if_splits)

lemma load_config_valid: "load_config inet disk path = Inr c \<Longrightarrow> validate inet c = Inr ()"
  by (auto simp: load_config_def config_from_root_def)

lemma with_bootstrap_fields [simp]: "cf_logging (with_bootstrap b c) = cf_logging c"
  by (simp add: with_bootstrap_def)

lemma steady_config:
  "steady env ok h h' \<Longrightarrow> follows_config inet h \<Longrightarrow> follows_config inet h'"
  "steady env ok h h' \<Longrightarrow> log_ok (he_files env) files (ho_log h) \<Longrightarrow> log_ok (he_files env) files (ho_log h')"
  by (auto simp: steady_def follows_config_def log_ok_def intro: rtranclp_trans)

section \<open>Construction\<close>

definition displayed_host :: "log_files \<Rightarrow> config \<Rightarrow> bool \<Rightarrow> string \<Rightarrow> unit host" where
  "displayed_host files config transparent path =
     (let h = blank_host files config transparent path in
      h\<lparr>ho_log := with_logger (ho_log h) ((fw_logger (ho_log h))\<lparr>lo_display_level := lg_screen (cf_logging config)\<rparr>),
        ho_config := with_bootstrap transparent config\<rparr>)"

lemma displayed_host_log:
  assumes "validate inet config = Inr ()"
  shows "log_ok fe files (ho_log (displayed_host files config transparent path))"
proof -
  let ?h = "blank_host files config transparent path"
  let ?s = "(fw_logger (ho_log ?h))\<lparr>lo_display_level := lg_screen (cf_logging config)\<rparr>"
  have "log_step fe (ho_log ?h, []) (with_logger (ho_log ?h) ?s, [])"
    by (rule displayed [where lvl = "lg_screen (cf_logging config)"])
      (simp add: set_display_level_def validate_levels(1) [OF assms])
  then show ?thesis
    by (auto simp: log_ok_def log_start_def displayed_host_def blank_host_def Let_def intro: worked)
qed

lemma announce_only: "logs_only env h (snd (announce env summary executable working_directory config transparent h))"
  unfolding announce_def by (intro logged.bindA_rel host_log_only)

lemma initialise_only:
  assumes "bindA (try_file_log env event) (\<lambda>_. announce env summary executable working_directory config transparent) h =
    (r, h')"
  shows "logs_only env h h'"
proof -
  have "logs_only env h (snd (bindA (try_file_log env event)
      (\<lambda>_. announce env summary executable working_directory config transparent) h))"
    by (intro logged.bindA_rel try_file_log_only announce_only)
  then show ?thesis using assms by simp
qed

lemma announce_Inr [simp]: "fst (announce env summary executable working_directory config transparent h) = Inr ()"
  by (simp add: announce_def bindA_def host_log_def)

lemma new_host_displayed:
  assumes "validate (he_inet env) config = Inr ()"
  shows "new_host env create summary executable working_directory files config transparent path =
    (let (r, h) = bindA (try_file_log env ''FILE_LOG_INIT_FAILED'') (\<lambda>_.
           announce env summary executable working_directory config transparent)
           (displayed_host files config transparent path) in
     bindE r (\<lambda>_. bindE (thrown (create (ho_config h))) (\<lambda>provider. Inr (hosting provider h))))"
  using assms validate_levels(1) [OF assms]
  by (simp add: new_host_def thrown_def bindA_def [of "set_display _"] set_display_fits displayed_host_def Let_def)

lemma logs_only_down: "logs_only env h h' \<Longrightarrow> all_down h' = all_down h"
  by (simp add: all_down_def logs_only_fields)

text \<open>A valid configuration the backend accepts gives a host: the log never prevents it.\<close>

lemma new_host_succeeds:
  assumes "validate (he_inet env) config = Inr ()" "create (with_bootstrap transparent config) = Inr i"
  shows "\<exists>h. new_host env create summary executable working_directory files config transparent path = Inr h \<and>
    ho_provider h = i \<and> ho_config h = with_bootstrap transparent config \<and> ho_config_path h = path"
proof -
  let ?d = "displayed_host files config transparent path"
  let ?m = "bindA (try_file_log env ''FILE_LOG_INIT_FAILED'') (\<lambda>_.
           announce env summary executable working_directory config transparent)"
  obtain r h where m: "?m ?d = (r, h)" by (cases "?m ?d")
  note only = initialise_only [OF m]
  have "fst (try_file_log env ''FILE_LOG_INIT_FAILED'' ?d) = Inr ()"
    by (intro try_file_log_Inr try_file_log_returns [where files = files] displayed_host_log [OF assms(1)])
  then have "fst (?m ?d) = Inr ()" by (auto simp: bindA_def split: prod.splits)
  then have "r = Inr ()" using m by simp
  moreover have "ho_config h = with_bootstrap transparent config" "ho_config_path h = path"
    using logs_only_fields [OF only] by (simp_all add: displayed_host_def blank_host_def Let_def)
  ultimately show ?thesis
    using m assms(2) by (simp add: new_host_displayed [OF assms(1)] thrown_def hosting_def)
qed

context backend
begin

text \<open>The rest of a reload, once the backend has taken the configuration.\<close>

lemma reload_rest:
  assumes "validate (he_inet env) (ho_config h) = Inr ()" "log_ok (he_files env) files (ho_log h)"
  shows "\<exists>h'. bindA (set_display (lg_screen (cf_logging (ho_config h)))) (\<lambda>_.
      bindA (flush_dns env (Some ''System DNS cache cleared after reload'')) (\<lambda>_.
      bindA (try_file_log env ''FILE_LOG_CONFIG_FAILED'') (\<lambda>_.
      bindA (host_log env normal ''CONFIG_RELOADED''
               ''Configuration applied without stopping DNS interception'') (\<lambda>_.
      respond ''RELOADED'')))) h = (Inr (answer ''RELOADED''), h') \<and>
    ho_config h' = ho_config h \<and> follows_config (he_inet env) h' \<and> log_ok (he_files env) files (ho_log h') \<and>
    ho_provider h' = ho_provider h \<and> ho_stopped h' = ho_stopped h"
proof -
  let ?lvl = "lg_screen (cf_logging (ho_config h))"
  have lvl: "enum_le ?lvl debug" using validate_levels(1) [OF assms(1)] by simp
  define h1 where "h1 = h\<lparr>ho_log := with_logger (ho_log h) ((fw_logger (ho_log h))\<lparr>lo_display_level := ?lvl\<rparr>)\<rparr>"
  have set: "set_display ?lvl h = (Inr (), h1)" by (simp add: set_display_fits lvl h1_def)
  have "logger_step (he_files env) (ho_log h, []) (ho_log h1, [])"
    unfolding h1_def using lvl by (auto intro!: worked displayed simp: set_display_level_def)
  then have log1: "log_ok (he_files env) files (ho_log h1)"
    using assms(2) unfolding log_ok_def by (rule_tac rtranclp.rtrancl_into_rtrancl)
  have config1: "ho_config h1 = ho_config h" "ho_provider h1 = ho_provider h" "ho_stopped h1 = ho_stopped h"
    by (simp_all add: h1_def)
  obtain h2 where flush: "flush_dns env (Some ''System DNS cache cleared after reload'') h1 = (Inr (), h2)"
    using validate_levels(2) [OF assms(1)] flush_dns_Inr [of h1 _ env] config1(1) by (metis prod.collapse)
  have only2: "logs_only env h1 h2" using flush_dns_only [of env h1] flush by (metis snd_conv)
  have log2: "log_ok (he_files env) files (ho_log h2)" by (rule log_ok_after [OF log1 only2])
  obtain h3 where written: "try_file_log env ''FILE_LOG_CONFIG_FAILED'' h2 = (Inr (), h3)"
    using try_file_log_Inr [OF try_file_log_returns [OF log2]] by (metis prod.collapse)
  have only3: "logs_only env h2 h3" using try_file_log_only [of env h2] written by (metis snd_conv)
  obtain h4 where log: "host_log env normal ''CONFIG_RELOADED''
      ''Configuration applied without stopping DNS interception'' h3 = (Inr (), h4)"
    by (simp add: host_log_def)
  have only4: "logs_only env h3 h4" using host_log_only [of env h3] log by (metis snd_conv)
  have only: "logs_only env h1 h4" using only2 only3 only4 by (blast intro: logs_only_trans)
  have "lo_display_level (fw_logger (ho_log h4)) = ?lvl" using only by (simp add: logs_only_def h1_def)
  then show ?thesis
    using set flush written log logs_only_fields [OF only] config1 assms(1) log_ok_after [OF log1 only]
    by (simp add: bindA_def respond_def follows_config_def)
qed

lemma reload_outcome:
  assumes "host_ok (he_inet env) (he_files env) files p ok h" "handle_reload env (p l) h = (r, h')"
  shows "case r of Inl f \<Rightarrow> f \<noteq> Blocked \<and> h' = h
    | Inr a \<Rightarrow> a = answer ''RELOADED'' \<and> follows_config (he_inet env) h' \<and>
        log_ok (he_files env) files (ho_log h') \<and> ok (ho_provider h') \<and> ho_stopped h' = ho_stopped h \<and>
        (\<exists>c. load_config (he_inet env) (he_disk env) (ho_config_path h) = Inr c \<and>
          ho_config h' = with_bootstrap (ho_transparent h) c \<and>
          pv_reload (p l) (ho_config h') (ho_provider h) = (Inr (), ho_provider h'))"
proof (cases "ho_config_path h = [] \<or> (\<exists>e. load_config (he_inet env) (he_disk env) (ho_config_path h) = Inl e)")
  case True
  then show ?thesis using assms(2) by (auto simp: handle_reload_def split: if_splits)
next
  case False
  then obtain c where c: "load_config (he_inet env) (he_disk env) (ho_config_path h) = Inr c" "ho_config_path h \<noteq> []"
    by (metis sum.exhaust)
  let ?next = "with_bootstrap (ho_transparent h) c"
  obtain r1 i where reload: "pv_reload (p l) ?next (ho_provider h) = (r1, i)" by (cases "pv_reload (p l) ?next (ho_provider h)")
  show ?thesis
  proof (cases r1)
    case (Inl e)
    then have "i = ho_provider h" using reload reload_keeps by simp
    then show ?thesis using assms(2) c reload Inl
      by (auto simp: handle_reload_def reload_provider_def thrown_def bindA_def Let_def)
  next
    case (Inr u)
    let ?h = "h\<lparr>ho_provider := i, ho_config := ?next\<rparr>"
    have "validate (he_inet env) (ho_config ?h) = Inr ()" using load_config_valid [OF c(1)] by simp
    moreover have "log_ok (he_files env) files (ho_log ?h)" using assms(1) by (simp add: host_ok_def)
    moreover have "ok i" using assms(1) reload reload_ok by (auto simp: host_ok_def)
    ultimately show ?thesis
      using reload_rest [of env ?h files] assms(2) c reload Inr
      by (auto simp: handle_reload_def reload_provider_def thrown_def bindA_def [of "reload_provider _ _"] Let_def)
  qed
qed

text \<open>A start that begins stopped ends with everything running, or with nothing.\<close>

lemma fst_start_endpoint:
  "start_endpoint a ep = (Inr u, ep') \<Longrightarrow> a \<noteq> Failed_start [] \<Longrightarrow> ep_running ep'"
  by (auto simp: start_endpoint_def split: if_splits endpoint_answer.splits)

lemma start_stages_up:
  assumes "start_stages env (p l) h = (Inr u, h')" "ok (ho_provider h)"
    and "provider_state (p l) (ho_provider h) = Stopped"
    and "Failed_start [] \<notin> {he_command env, he_logs env, he_shutdown env}"
  shows "all_up h' \<and> provider_state (p l) (ho_provider h') = Running"
proof -
  note only = logs_only_fields [OF host_log_only] logs_only_fields [OF flush_dns_only]
  have log: "host_log env lvl event m h = (x, k) \<Longrightarrow> ho_provider k = ho_provider h \<and> ho_command k = ho_command h \<and>
      ho_logs k = ho_logs h \<and> ho_shutdown k = ho_shutdown h" for lvl event m h x and k :: "'b host"
    using only(5-8) by (metis snd_conv)
  have flush: "flush_dns env m h = (x, k) \<Longrightarrow> ho_provider k = ho_provider h \<and> ho_command k = ho_command h \<and>
      ho_logs k = ho_logs h \<and> ho_shutdown k = ho_shutdown h" for m h x and k :: "'b host"
    using only(14-17) by (metis snd_conv)
  have stage: "at_stage stage m s = (Inr x, t) \<longleftrightarrow> m s = (Inr x, t)"
    for stage and m :: "'s \<Rightarrow> (failure + 'x) \<times> 's" and s x t
    by (auto simp: at_stage_def split: prod.splits sum.splits)
  have fault: "fault_at env stage h = (Inr x, k) \<Longrightarrow> k = h" for stage x and h k :: "'b host"
    by (auto simp: fault_at_def)
  show ?thesis
    using assms(1) unfolding start_stages_def
    apply (elim bindA_InrE)
    apply (simp only: stage Let_def)
    apply (elim bindA_InrE)
    subgoal premises steps for x t xa ta xb tb xc tc xd td xe te xf tf xg tg xh th xi ti
  proof -
    have tc: "ho_provider tc = ho_provider h" using log [OF steps(1)] by simp
    have tg: "provider_state (p l) (ho_provider tg) = Running"
      using steps(6) assms(2,3) tc start_runs
      by (auto simp: start_provider_def thrown_def split: prod.splits sum.splits)
    have ta: "ep_running (ho_command ta) \<and> ho_provider ta = ho_provider th"
      using steps(9) assms(4) fst_start_endpoint
      by (fastforce simp: start_command_def thrown_def split: prod.splits sum.splits)
    have tb: "ep_running (ho_logs tb) \<and> ho_provider tb = ho_provider te \<and> ho_command tb = ho_command te"
      using steps(4) assms(4) fst_start_endpoint
      by (fastforce simp: start_logs_def thrown_def split: prod.splits sum.splits)
    have ti: "ep_running (ho_shutdown ti) \<and> ho_provider ti = ho_provider tf \<and> ho_command ti = ho_command tf \<and> ho_logs ti = ho_logs tf"
      using steps(10) assms(4) fst_start_endpoint
      by (fastforce simp: start_shutdown_def thrown_def split: prod.splits sum.splits)
    show ?thesis
      using tg flush [OF steps(7)] fault [OF steps(2)] log [OF steps(8)] ta fault [OF steps(3)] tb fault [OF steps(5)] ti log [OF steps(11)]
      by (simp add: all_up_def)
  qed
  done
qed

lemma rollback_down:
  assumes "ok (ho_provider h)"
  shows "all_down (start_rollback env (p l) stage e h) \<and> ho_stopped (start_rollback env (p l) stage e h) \<and>
    ho_shutdown_requested (start_rollback env (p l) stage e h) \<and>
    provider_state (p l') (ho_provider (start_rollback env (p l) stage e h)) = Stopped"
  using stop_ok [OF assms, of l] status_same [of l l']
  by (simp add: start_rollback_def Let_def host_log_def request_shutdown_def stop_provider_def stop_endpoints_def
      stop_endpoint_def all_down_def)

lemma rollback_steady:
  "steady env ok (h\<lparr>ho_stopped := True\<rparr>) (start_rollback env (p l) stage e h)"
proof -
  let ?h1 = "request_shutdown h"
  let ?h2 = "snd (host_log env errors_only ''CORE_START_FAILED'' (''stage='' @ stage @ '' error='' @ failure_text e) ?h1)"
  let ?h3 = "stop_provider (p l) (stop_endpoints ?h2)"
  have lift: "steady env ok (h\<lparr>ho_stopped := True\<rparr>) (k\<lparr>ho_stopped := True\<rparr>)" if "steady env ok h k" for h k
    using that by (simp add: steady_def)
  have "steady env ok h ?h3"
    by (intro steady_trans [OF _ stop_provider_steady] steady_trans [OF _ endpoint_steady(5)]
      steady_trans [OF _ log_operations_steady(1)] endpoint_steady(6))
  then have "steady env ok (h\<lparr>ho_stopped := True\<rparr>) (?h3\<lparr>ho_stopped := True\<rparr>)" by (rule lift)
  then show ?thesis
    unfolding start_rollback_def Let_def by (rule steady_trans [OF _ log_operations_steady(1)])
qed

lemma start_outcome:
  assumes "host_ok (he_inet env) (he_files env) files p ok h" "host_start env (p l) h = (r, h')"
    and "provider_state (p l) (ho_provider h) = Stopped"
    and "Failed_start [] \<notin> {he_command env, he_logs env, he_shutdown env}"
  shows "case r of
      Inr _ \<Rightarrow> all_up h' \<and> provider_state (p l) (ho_provider h') = Running \<and> \<not> ho_stopped h'
    | Inl e \<Rightarrow> all_down h' \<and> provider_state (p l) (ho_provider h') = Stopped \<and> ho_stopped h' \<and> ho_shutdown_requested h'"
proof -
  let ?h = "h\<lparr>ho_shutdown_requested := False, ho_restart_requested := False, ho_stopped := False\<rparr>"
  obtain r1 h1 where st: "start_stages env (p l) ?h = (r1, h1)" by (cases "start_stages env (p l) ?h")
  have same: "steady env ok ?h h1" using start_stages_steady [where env = env and l = l and h = ?h] st by (metis snd_conv)
  show ?thesis
  proof (cases r1)
    case (Inl x)
    obtain stage e where x: "x = (stage, e)" by (cases x)
    have "ok (ho_provider h1)" using same assms(1) by (simp add: steady_def host_ok_def)
    then show ?thesis using rollback_down [where h = h1 and l = l and l' = l and stage = stage and e = e and env = env] assms(2,3) st Inl x by (auto simp: host_start_def)
  next
    case (Inr u)
    then show ?thesis
      using start_stages_up [where env = env and l = l and h = ?h and u = u and h' = h1] assms st same
      by (auto simp: host_start_def host_ok_def steady_def)
  qed
qed

lemma host_stop_steady:
  assumes "\<not> ho_stopped h"
  shows "steady env ok (h\<lparr>ho_stopped := True\<rparr>) (host_stop env (p l) h)"
proof -
  let ?h1 = "request_shutdown (h\<lparr>ho_stopped := True\<rparr>)"
  let ?h2 = "snd (host_log env verbose ''CORE_STOPPING'' ''Core host shutdown started'' ?h1)"
  let ?h3 = "?h2\<lparr>ho_provider := pv_cancel_pending (p l) (ho_provider ?h2)\<rparr>"
  have "steady env ok (h\<lparr>ho_stopped := True\<rparr>) ?h2"
    by (intro steady_trans [OF _ log_operations_steady(1)] endpoint_steady(6))
  moreover have "steady env ok ?h2 ?h3" by (simp add: steady_def cancel_ok)
  ultimately have "steady env ok (h\<lparr>ho_stopped := True\<rparr>) ?h3" by (rule steady_trans)
  then show ?thesis using assms
    unfolding host_stop_def Let_def if_not_P [OF assms]
    by (intro steady_trans [OF _ log_operations_steady(1)] steady_trans [OF _ endpoint_steady(6)]
        steady_trans [OF _ stop_provider_steady] steady_trans [OF _ endpoint_steady(5)])
qed

lemma host_stop_down:
  assumes "\<not> ho_stopped h" "ok (ho_provider h)"
  shows "all_down (host_stop env (p l) h) \<and> provider_state (p l') (ho_provider (host_stop env (p l) h)) = Stopped"
  using stop_ok [OF cancel_ok [OF assms(2), of l], of l] status_same [of l l'] assms(1)
  by (simp add: host_stop_def Let_def host_log_def request_shutdown_def stop_provider_def stop_endpoints_def
      stop_endpoint_def all_down_def)

lemma steady_host_ok:
  assumes "steady env ok h h'" "he_files env = fe"
    and "follows_config inet h" "log_ok fe files (ho_log h)" "ok (ho_provider h)"
    and "ho_stopped h' \<Longrightarrow> all_down h' \<and> (\<forall>l. provider_state (p l) (ho_provider h') = Stopped)"
  shows "host_ok inet fe files p ok h'"
proof -
  have "follows_config inet h'" by (rule steady_config(1) [OF assms(1,3)])
  moreover have "log_ok fe files (ho_log h')" using steady_config(2) [OF assms(1)] assms(2,4) by auto
  moreover have "ok (ho_provider h')" using assms(1,5) by (simp add: steady_def)
  ultimately show ?thesis using assms(6) by (simp add: host_ok_def)
qed

lemma follows_flags [simp]:
  "follows_config inet (h\<lparr>ho_stopped := b\<rparr>) = follows_config inet h"
  "follows_config inet (h\<lparr>ho_shutdown_requested := b\<rparr>) = follows_config inet h"
  "follows_config inet (h\<lparr>ho_restart_requested := b\<rparr>) = follows_config inet h"
  "follows_config inet (h\<lparr>ho_provider := i\<rparr>) = follows_config inet h"
  "follows_config inet (h\<lparr>ho_command := ep\<rparr>) = follows_config inet h"
  "follows_config inet (h\<lparr>ho_logs := ep\<rparr>) = follows_config inet h"
  "follows_config inet (h\<lparr>ho_shutdown := ep\<rparr>) = follows_config inet h"
  by (simp_all add: follows_config_def)

lemma host_start_ok:
  assumes "host_ok (he_inet env) (he_files env) files p ok h" "host_start env (p l) h = (r, h')"
  shows "host_ok (he_inet env) (he_files env) files p ok h'"
proof (cases "provider_state (p l) (ho_provider h) = Stopped")
  case False
  then show ?thesis using assms by (simp add: host_start_def)
next
  case True
  let ?h = "h\<lparr>ho_shutdown_requested := False, ho_restart_requested := False, ho_stopped := False\<rparr>"
  obtain r1 h1 where st: "start_stages env (p l) ?h = (r1, h1)" by (cases "start_stages env (p l) ?h")
  have same: "steady env ok ?h h1" using start_stages_steady [where env = env and l = l and h = ?h] st by (metis snd_conv)
  then have stopped: "\<not> ho_stopped h1" by (simp add: steady_def)
  have fits: "follows_config (he_inet env) ?h" "log_ok (he_files env) files (ho_log ?h)" "ok (ho_provider ?h)"
    using assms(1) by (simp_all add: host_ok_def)
  have ok1: "host_ok (he_inet env) (he_files env) files p ok h1"
    by (rule steady_host_ok [OF same refl fits]) (use stopped in simp)
  show ?thesis
  proof (cases r1)
    case (Inl x)
    obtain stage e where x: "x = (stage, e)" by (cases x)
    have "host_ok (he_inet env) (he_files env) files p ok (start_rollback env (p l) stage e h1)"
      using ok1 rollback_down [where h = h1]
      by (intro steady_host_ok [OF rollback_steady refl]) (auto simp: host_ok_def)
    then show ?thesis using assms(2) st Inl x True by (auto simp: host_start_def)
  next
    case (Inr u)
    then show ?thesis using assms(2) st ok1 True by (auto simp: host_start_def)
  qed
qed

lemma host_step_ok:
  assumes "host_step inet fe p moves h h'" "host_ok inet fe files p ok h"
  shows "host_ok inet fe files p ok h'"
  using assms(1)
proof cases
  case (Host_starts env l r)
  then show ?thesis using host_start_ok assms(2) by blast
next
  case (Host_stops env l)
  show ?thesis
  proof (cases "ho_stopped h")
    case True
    then show ?thesis using assms(2) Host_stops by (simp add: host_stop_def)
  next
    case False
    then show ?thesis
      using assms(2) Host_stops host_stop_down [OF False]
      by (intro steady_host_ok [OF host_stop_steady [OF False, of env l, folded Host_stops(1)]]) (auto simp: host_ok_def)
  qed
next
  case (Host_handles env l later operation payload r)
  show ?thesis
  proof (cases "operation = Op_reload_config")
    case True
    show ?thesis
    proof (cases "payload = []")
      case False
      then show ?thesis using Host_handles True assms(2) by (auto simp: handle_def)
    next
      case payload: True
      then have "handle_reload env (p l) h = (r, h')" using Host_handles(4) True by (simp add: handle_def)
      from reload_outcome [OF assms(2) [folded Host_handles(1,2)] this] show ?thesis
        using assms(2) Host_handles(1-3) by (cases r) (auto simp: host_ok_def)
    qed
  next
    case False
    have same: "steady env ok h h'"
      using handle_steady [OF False, where env = env and l = l and later = later and payload = payload and h = h]
        Host_handles(4) by simp
    have "\<not> ho_stopped h'" using same Host_handles(3) by (simp add: steady_def)
    then show ?thesis
      using assms(2) by (intro steady_host_ok [OF same Host_handles(2)]) (auto simp: host_ok_def)
  qed
next
  case (Host_ticks env l previous r')
  have same: "steady env ok h h'"
    using host_tick_steady [where env = env and h = h and p = "p l" and previous = previous] Host_ticks(4) by (metis snd_conv)
  have "\<not> ho_stopped h'" using same Host_ticks(3) by (simp add: steady_def)
  then show ?thesis
    using assms(2) by (intro steady_host_ok [OF same Host_ticks(2)]) (auto simp: host_ok_def)
next
  case (Endpoint_fails m)
  then show ?thesis using assms(2) by (auto simp: host_ok_def all_down_def)
next
  case (Backend_moves i)
  then show ?thesis using assms(2) moves_ok moves_stopped by (auto simp: host_ok_def all_down_def)
next
  case (Log_moves w)
  then show ?thesis
    using assms(2) log_steps_lift [OF Log_moves(2)]
    by (auto simp: host_ok_def all_down_def follows_config_def log_ok_def intro: rtranclp_trans)
qed

text \<open>No operation of the protocol waits forever.\<close>

lemma handle_returns:
  assumes "host_ok (he_inet env) (he_files env) files p ok h"
  shows "returns (handle env (p l) later operation payload h)"
proof -
  have log: "log_ok (he_files env) files (ho_log h)" using assms by (simp add: host_ok_def)
  have respond [simp]: "returns (respond t h)" for t and h :: "'p host" by (simp add: respond_def)
  have provider: "returns (start_provider (p l) h)"
    using assms start_returns [of "ho_provider h" l]
    by (auto simp: start_provider_def returns_def host_ok_def split: prod.split)
  have reload: "returns (handle_reload env (p l) h)"
  proof -
    obtain r h' where r: "handle_reload env (p l) h = (r, h')" by (cases "handle_reload env (p l) h")
    from reload_outcome [OF assms r] show ?thesis by (cases r) (auto simp: r returns_def)
  qed
  have "returns (handle_file_log env payload h)" for payload
    by (auto simp: handle_file_log_def intro!: returns_bindA set_file_log_returns [OF log] split: sum.split)
  moreover have "returns (bindA (clear_file_log env) (\<lambda>_. respond t) h)" for t
    by (intro returns_bindA clear_file_log_returns [OF log]) simp
  moreover have "returns (bindA (start_provider (p l)) (\<lambda>_. bindA (flush_dns env None) (\<lambda>_ h. respond (f h) h)) h)" for f
    by (intro returns_bindA provider) simp_all
  ultimately show ?thesis
    using reload by (simp add: handle_def Let_def split: ipc_operation.split handled.split)
qed

lemma new_host_ok:
  assumes "new_host env create summary executable working_directory files config transparent path = Inr h"
    and "\<And>c i. create c = Inr i \<Longrightarrow> ok i \<and> (\<forall>l. provider_state (p l) i = Stopped)"
  shows "host_ok (he_inet env) (he_files env) files p ok h"
proof -
  let ?next = "with_bootstrap transparent config"
  have valid: "validate (he_inet env) config = Inr ()"
    using assms(1) by (auto simp: new_host_def thrown_def split: sum.splits)
  define h1 where "h1 = displayed_host files config transparent path"
  have log1: "log_ok (he_files env) files (ho_log h1)"
    unfolding h1_def by (rule displayed_host_log [OF valid])
  let ?rest = "bindA (try_file_log env ''FILE_LOG_INIT_FAILED'') (\<lambda>_.
     announce env summary executable working_directory config transparent)"
  obtain r h2 where rest: "?rest h1 = (r, h2)" by (cases "?rest h1")
  note only = initialise_only [OF rest]
  have start: "bindE r (\<lambda>_. bindE (thrown (create (ho_config h2))) (\<lambda>i. Inr (hosting i h2))) = Inr h"
    using assms(1) rest by (simp add: new_host_displayed [OF valid] h1_def)
  then obtain i where i: "create (ho_config h2) = Inr i" "h = hosting i h2"
    by (auto simp: thrown_def split: sum.splits)
  have "follows_config (he_inet env) h1" using valid by (simp add: follows_config_def h1_def displayed_host_def Let_def)
  then have "follows_config (he_inet env) h2" by (rule steady_config(1) [OF logs_only_steady [OF only]])
  moreover have "log_ok (he_files env) files (ho_log h2)" by (rule log_ok_after [OF log1 only])
  moreover have "all_down h2"
    unfolding logs_only_down [OF only] by (simp add: h1_def displayed_host_def blank_host_def all_down_def Let_def)
  ultimately show ?thesis using i assms(2) by (simp add: host_ok_def follows_config_def hosting_def all_down_def)
qed

end

section \<open>The host with the WinDivert backend\<close>

definition create_windivert :: "inet \<Rightarrow> 16 word \<Rightarrow> config \<Rightarrow> error + interception" where
  "create_windivert inet port config =
     bindE (validate inet config) (\<lambda>_.
     bindE (runtime_options config) (\<lambda>options.
     Inr (new_interception \<lparr>rt_config = config, rt_options = options, rt_shared = no_shared,
       rt_stopped = False, rt_transports = replicate 8 False\<rparr> port)))"

lemma create_windivert_ok:
  "create_windivert inet port c = Inr i \<Longrightarrow>
     interception_ok i \<and> (\<forall>l. provider_state (windivert inet l) i = Stopped)"
  using new_interception_ok
  by (auto simp: create_windivert_def windivert_def status_of_def new_interception_def Let_def split: prod.split)

lemma windivert_state: "provider_state (windivert inet l) i = cp_state (ic_capture i)"
  by (simp add: windivert_def status_of_def Let_def split: prod.split)

lemma stopped_idle: "interception_ok i \<Longrightarrow> cp_state (ic_capture i) = Stopped \<Longrightarrow> idle i"
  by (simp add: interception_ok_def)

lemma host_reachable:
  assumes "new_host env (create_windivert (he_inet env) port) summary executable working_directory files config True path = Inr h0"
    and "(host_step (he_inet env) (he_files env) (windivert (he_inet env))
           (windivert_moves (he_inet env) dv up))\<^sup>*\<^sup>* h0 h"
  shows "host_ok (he_inet env) (he_files env) files (windivert (he_inet env)) interception_ok h"
  using assms(2)
proof (induction rule: rtranclp_induct)
  case base
  show ?case using assms(1) create_windivert_ok by (rule diverting.new_host_ok)
next
  case (step h h')
  then show ?case using diverting.host_step_ok by blast
qed

text \<open>
  Whatever callers, backend and file thread do: the configuration in force is valid and the log
  shows what it says, a stopped host holds nothing, and the log is one the logger can reach, so
  the facts about the logger hold of it.
\<close>

text \<open>C11: Whatever callers, ticks, backend and file thread do to the host of the WinDivert
  backend: the configuration in force is valid and the log shows the level it says, the
  interception keeps its invariant, a stopped host holds no resource and listens on nothing,
  and the log is one the logger can reach.\<close>

theorem host_invariant:
  assumes "new_host env (create_windivert (he_inet env) port) summary executable working_directory files config True path = Inr h0"
    and "(host_step (he_inet env) (he_files env) (windivert (he_inet env))
           (windivert_moves (he_inet env) dv up))\<^sup>*\<^sup>* h0 h"
  shows "validate (he_inet env) (ho_config h) = Inr () \<and>
    lo_display_level (fw_logger (ho_log h)) = lg_screen (cf_logging (ho_config h)) \<and>
    interception_ok (ho_provider h) \<and> (ho_stopped h \<longrightarrow> all_down h \<and> idle (ho_provider h)) \<and>
    (logger_step (he_files env))\<^sup>*\<^sup>* (log_start core_logger files) (ho_log h, [])"
  using host_reachable [OF assms]
  by (simp add: host_ok_def follows_config_def log_ok_def windivert_state stopped_idle)

text \<open>A start of a stopped backend ends with everything running, or with nothing held and the error.\<close>

text \<open>C12: A start of the host ends with the interception running with everything it needs and
  all three endpoints listening, or with the error, nothing held and a request for shutdown;
  it is refused and changes nothing while the interception is not stopped.\<close>

theorem host_start_all_or_nothing:
  assumes "new_host env (create_windivert (he_inet env) port) summary executable working_directory files config True path = Inr h0"
    and "(host_step (he_inet env) (he_files env) (windivert (he_inet env))
           (windivert_moves (he_inet env) dv up))\<^sup>*\<^sup>* h0 h"
    and "he_inet env' = he_inet env" "he_files env' = he_files env"
    and "Failed_start [] \<notin> {he_command env', he_logs env', he_shutdown env'}"
    and "host_start env' (windivert (he_inet env) l) h = (r, h')"
  shows "if cp_state (ic_capture (ho_provider h)) \<noteq> Stopped
    then r = Inl (Threw (Error ''LIFECYCLE'' ''Core is not stopped'')) \<and> h' = h
    else case r of
      Inr _ \<Rightarrow> all_up h' \<and> cp_state (ic_capture (ho_provider h')) = Running \<and> holds_all (ho_provider h') \<and> \<not> ho_stopped h'
    | Inl _ \<Rightarrow> all_down h' \<and> idle (ho_provider h') \<and> ho_stopped h' \<and> ho_shutdown_requested h'"
proof (cases "cp_state (ic_capture (ho_provider h)) = Stopped")
  case True
  note ok = host_reachable [OF assms(1,2), folded assms(3,4)]
  have ok': "interception_ok (ho_provider h')"
    using diverting.host_start_ok [OF ok] assms(3,6) by (auto simp: host_ok_def)
  from diverting.start_outcome [OF ok, of l r h'] True assms(3,5,6) ok' stopped_idle [OF ok'] show ?thesis
    by (cases r) (auto simp: windivert_state interception_ok_def)
next
  case False
  then show ?thesis using assms(6) by (auto simp: host_start_def windivert_state)
qed

text \<open>
  A reload either fails and changes nothing at all, or applies the loaded file to the host, to the
  router of the backend and to the log.
\<close>

lemma reload_interception_Inr:
  assumes "reload_interception inet config i = (Inr u, j)"
  obtains options where "runtime_options config = Inr options"
    "ro_intercept_others options = ro_intercept_others (rt_options (cp_router (ic_capture i)))"
    "j = i\<lparr>ic_capture := (ic_capture i)\<lparr>cp_router := (cp_router (ic_capture i))
           \<lparr>rt_config := config, rt_options := options, rt_shared := no_shared\<rparr>\<rparr>\<rparr>"
  using assms
  by (auto simp: reload_interception_def reload_def Let_def bindE_def requireE_def split: sum.splits if_splits)

text \<open>C13: A reload fails and changes nothing at all, or the configuration of the file is in
  force: in the host, in the router of the backend, which gets it with the options derived
  from it and a fresh cache while nothing else of the backend changes, and in the log, which
  takes its display level; the reply says so.\<close>

theorem reload_all_or_nothing:
  assumes "new_host env (create_windivert (he_inet env) port) summary executable working_directory files config True path = Inr h0"
    and "(host_step (he_inet env) (he_files env) (windivert (he_inet env))
           (windivert_moves (he_inet env) dv up))\<^sup>*\<^sup>* h0 h"
    and "he_inet env' = he_inet env" "he_files env' = he_files env"
    and "handle env' (windivert (he_inet env) l) later Op_reload_config [] h = (r, h')"
  shows "case r of
      Inl _ \<Rightarrow> h' = h
    | Inr reply \<Rightarrow> reply = answer ''RELOADED'' \<and>
        (\<exists>c options. load_config (he_inet env) (he_disk env') (ho_config_path h) = Inr c \<and>
          ho_config h' = with_bootstrap (ho_transparent h) c \<and>
          lo_display_level (fw_logger (ho_log h')) = lg_screen (cf_logging c) \<and>
          runtime_options (ho_config h') = Inr options \<and>
          ho_provider h' = (ho_provider h)\<lparr>ic_capture := (ic_capture (ho_provider h))\<lparr>cp_router :=
            (cp_router (ic_capture (ho_provider h)))
              \<lparr>rt_config := ho_config h', rt_options := options, rt_shared := no_shared\<rparr>\<rparr>\<rparr>)"
proof -
  note ok = host_reachable [OF assms(1,2), folded assms(3,4)]
  have reload: "handle_reload env' (windivert (he_inet env') l) h = (r, h')" using assms(3,5) by (simp add: handle_def)
  show ?thesis
  proof (cases r)
    case (Inl f)
    then show ?thesis using diverting.reload_outcome [OF ok reload] by simp
  next
    case (Inr reply)
    from diverting.reload_outcome [OF ok reload] Inr obtain c where c: "reply = answer ''RELOADED''"
        "follows_config (he_inet env') h'" "load_config (he_inet env') (he_disk env') (ho_config_path h) = Inr c"
        "ho_config h' = with_bootstrap (ho_transparent h) c"
        "pv_reload (windivert (he_inet env') l) (ho_config h') (ho_provider h) = (Inr (), ho_provider h')"
      by auto
    from c(5) have "reload_interception (he_inet env) (ho_config h') (ho_provider h) = (Inr (), ho_provider h')"
      by (simp add: windivert_def assms(3) split: prod.splits)
    from reload_interception_Inr [OF this] c(1-4) Inr show ?thesis
      by (auto simp: follows_config_def assms(3))
  qed
qed

text \<open>Every operation of the protocol returns or throws; none waits for the file thread forever.\<close>

theorem operations_return:
  assumes "new_host env (create_windivert (he_inet env) port) summary executable working_directory files config True path = Inr h0"
    and "(host_step (he_inet env) (he_files env) (windivert (he_inet env))
           (windivert_moves (he_inet env) dv up))\<^sup>*\<^sup>* h0 h"
    and "he_inet env' = he_inet env" "he_files env' = he_files env"
  shows "fst (handle env' (windivert (he_inet env) l) later operation payload h) \<noteq> Inl Blocked"
  using diverting.handle_returns [OF host_reachable [OF assms(1,2), folded assms(3,4)]] assms(3)
  by (simp add: returns_def)

section \<open>A concrete host\<close>

text \<open>No file log, no configuration on the disk, and a fault at every stage after the interception.\<close>

definition sample_host_env :: host_env where
  "sample_host_env = \<lparr>he_time = 0, he_inet = sample_inet, he_files = sample_disk_env, he_log_directory = ''logs'',
     he_disk = no_files, he_flush_dns = None, he_fault = (\<lambda>_. Some (Error ''FAULT'' ''Injected'')),
     he_command = Listening, he_logs = Listening, he_shutdown = Listening,
     he_network = \<lparr>sn_generation = 1, sn_interfaces = [], sn_error = []\<rparr>\<rparr>"

lemma sample_host_env_simps [simp]:
  "he_inet sample_host_env = sample_inet" "he_files sample_host_env = sample_disk_env"
  "he_disk sample_host_env = no_files" "he_fault sample_host_env stage = Some (Error ''FAULT'' ''Injected'')"
  "he_command sample_host_env = Listening" "he_logs sample_host_env = Listening"
  "he_shutdown sample_host_env = Listening"
  by (simp_all add: sample_host_env_def)

abbreviation sample_new_host :: "failure + interception host" where
  "sample_new_host \<equiv> new_host sample_host_env (create_windivert (he_inet sample_host_env) 53) ''summary'' ''NativeDNS''
     ''directory'' no_files sample_config True ''config.xml''"

lemma sample_host_made: "\<exists>h0. sample_new_host = Inr h0 \<and> cp_state (ic_capture (ho_provider h0)) = Stopped \<and>
  ho_config_path h0 = ''config.xml''"
proof -
  have "\<exists>i. create_windivert sample_inet 53 (with_bootstrap True sample_config) = Inr i"
    using sample_valid sample_options
    by (simp add: create_windivert_def with_bootstrap_def runtime_flagged validate_flagged [unfolded with_bootstrap_def])
  then obtain i where i: "create_windivert sample_inet 53 (with_bootstrap True sample_config) = Inr i" by blast
  have "cp_state (ic_capture i) = Stopped" using create_windivert_ok [OF i] by (simp add: windivert_state)
  with new_host_succeeds [where env = sample_host_env and create = "create_windivert sample_inet 53"
      and config = sample_config and i = i and transparent = True] i sample_valid
  show ?thesis by fastforce
qed

theorem host_invariant_witness:
  "\<exists>h0. sample_new_host = Inr h0 \<and> validate sample_inet (ho_config h0) = Inr () \<and> interception_ok (ho_provider h0)"
proof -
  obtain h0 where h0: "sample_new_host = Inr h0" using sample_host_made by blast
  from host_invariant [OF h0 rtranclp.rtrancl_refl] show ?thesis using h0 by auto
qed

lemma sample_start_fails: "\<exists>x. fst (start_stages sample_host_env p h) = Inl x"
  by (auto simp: start_stages_def at_stage_def bindA_def fault_at_def split: prod.split sum.split)

lemma sample_host_start_fails:
  assumes "cp_state (ic_capture (ho_provider h0)) = Stopped"
  obtains x where "fst (host_start sample_host_env (windivert sample_inet l) h0) = Inl x"
proof -
  let ?h = "h0\<lparr>ho_shutdown_requested := False, ho_restart_requested := False, ho_stopped := False\<rparr>"
  obtain x where "fst (start_stages sample_host_env (windivert sample_inet l) ?h) = Inl x"
    using sample_start_fails [of "windivert sample_inet l" ?h] by blast
  then have "\<exists>h. start_stages sample_host_env (windivert sample_inet l) ?h = (Inl x, h)" by (metis prod.collapse)
  then show ?thesis using assms that by (cases x) (auto simp: host_start_def windivert_state)
qed

theorem host_start_all_or_nothing_witness:
  "\<exists>h0. sample_new_host = Inr h0 \<and>
     (let h = snd (host_start sample_host_env (windivert sample_inet (sample_launch, Owner_missing, False)) h0) in
      all_down h \<and> idle (ho_provider h) \<and> ho_stopped h \<and> ho_shutdown_requested h)"
proof -
  obtain h0 where h0: "sample_new_host = Inr h0" "cp_state (ic_capture (ho_provider h0)) = Stopped"
    using sample_host_made by blast
  let ?l = "(sample_launch, Owner_missing, False)"
  obtain x where "fst (host_start sample_host_env (windivert sample_inet ?l) h0) = Inl x"
    by (rule sample_host_start_fails [OF h0(2)])
  with host_start_all_or_nothing [OF h0(1) rtranclp.rtrancl_refl refl refl _ surjective_pairing, of ?l] h0
  show ?thesis by (simp add: Let_def)
qed

theorem reload_all_or_nothing_witness:
  "\<exists>h0. sample_new_host = Inr h0 \<and>
     snd (handle sample_host_env (windivert sample_inet (sample_launch, Owner_missing, False)) core_logger
       Op_reload_config [] h0) = h0"
proof -
  obtain h0 where h0: "sample_new_host = Inr h0" "ho_config_path h0 = ''config.xml''"
    using sample_host_made by blast
  let ?l = "(sample_launch, Owner_missing, False)"
  obtain e where "fst (handle sample_host_env (windivert sample_inet ?l) core_logger Op_reload_config [] h0) = Inl e"
    by (auto simp: handle_def handle_reload_def h0(2) load_config_def read_xml_def split: sum.split)
  with reload_all_or_nothing [OF h0(1) rtranclp.rtrancl_refl refl refl surjective_pairing, of ?l core_logger] h0
  show ?thesis by simp
qed

theorem operations_return_witness:
  "\<exists>h0. sample_new_host = Inr h0 \<and>
     fst (handle sample_host_env (windivert sample_inet (sample_launch, Owner_missing, False)) core_logger
       Op_clear_file_log [] h0) \<noteq> Inl Blocked"
proof -
  obtain h0 where h0: "sample_new_host = Inr h0" using sample_host_made by blast
  from operations_return [OF h0 rtranclp.rtrancl_refl refl refl] show ?thesis using h0 by auto
qed

end
