(* ===== verification/Local_Proxy_Facts.thy ===== *)
theory Local_Proxy_Facts
  imports Nft Host_Facts
begin

text \<open>
  The proxy as a state machine of its listeners, its two pools and the thread that stops it: its
  bounds, which connections it holds, start and stop, and what a client is answered.
\<close>

section \<open>Steps\<close>

definition proxy_router :: "upstream \<Rightarrow> snapshot \<Rightarrow> nat \<Rightarrow> shared \<Rightarrow> router \<Rightarrow> bool \<Rightarrow> query_env" where
  "proxy_router up network now shared r normal_on =
     \<lparr>qe_routed = (\<lambda>request original.
        fst (route up network (rt_config r) (rt_options r) now request original shared)),
      qe_exchanged = (\<lambda>request original. fst (exchange up now request original)),
      qe_normal_on = normal_on\<rparr>"

text \<open>
  What the threads of the proxy do.  Accepting a connection and handing it to the pool is one step,
  and so is the end of a job with the removal of its connection: in the code the listener may hold
  a connection that is already served in \<open>clients\<close> a moment longer.
\<close>

inductive proxy_thread :: "proxy \<Rightarrow> proxy \<Rightarrow> bool" where
  Listens_udp:
    "l \<in> set (px_loops p) \<Longrightarrow> l \<in> {Udp4, Udp6} \<Longrightarrow> udp_event l input p = (goes_on, p') \<Longrightarrow>
     proxy_thread p (p'\<lparr>px_loops := if goes_on then px_loops p' else remove1 l (px_loops p')\<rparr>)"
| Listens_tcp:
    "l \<in> set (px_loops p) \<Longrightarrow> l \<in> {Tcp4, Tcp6} \<Longrightarrow> tcp_event input p = (goes_on, p') \<Longrightarrow>
     proxy_thread p (p'\<lparr>px_loops := if goes_on then px_loops p' else remove1 l (px_loops p')\<rparr>)"
| Takes_udp: "take_next (px_udp p) = Some (query, e) \<Longrightarrow> proxy_thread p (p\<lparr>px_udp := e\<rparr>)"
| Answers_udp:
    "finish_job i (px_udp p) = Some (query, e) \<Longrightarrow>
     proxy_thread p ((handle_udp env sends query p)\<lparr>px_udp := e\<rparr>)"
| Ends_udp: "worker_returns (px_udp p) = Some e \<Longrightarrow> proxy_thread p (p\<lparr>px_udp := e\<rparr>)"
| Takes_tcp: "take_next (px_tcp p) = Some (fd, e) \<Longrightarrow> proxy_thread p (p\<lparr>px_tcp := e\<rparr>)"
| Answers_tcp:
    "finish_job i (px_tcp p) = Some (fd, e) \<Longrightarrow>
     proxy_thread p ((handle_client w timeout running_then fd input p)
       \<lparr>px_tcp := e, px_clients := remove1 fd (px_clients p)\<rparr>)"
| Ends_tcp: "worker_returns (px_tcp p) = Some e \<Longrightarrow> proxy_thread p (p\<lparr>px_tcp := e\<rparr>)"

text \<open>What its owner does; a stop goes on when the threads it joins have ended.\<close>

inductive proxy_step :: "inet \<Rightarrow> proxy \<Rightarrow> proxy \<Rightarrow> bool" for inet where
  Thread: "proxy_thread p p' \<Longrightarrow> proxy_step inet p p'"
| Starts: "start_local_proxy inet la p = (r, p') \<Longrightarrow> proxy_step inet p p'"
| Begins_stop: "proxy_step inet p (begin_stop_proxy p)"
| Stops_udp: "px_stop p = Joining_listeners \<Longrightarrow> px_loops p = [] \<Longrightarrow> proxy_step inet p (stop_udp_handlers p)"
| Stops_tcp:
    "px_stop p = Stopping_udp \<Longrightarrow> ex_active (px_udp p) = [] \<Longrightarrow> ex_waiting (px_udp p) = 0 \<Longrightarrow>
     proxy_step inet p (stop_tcp_handlers p)"
| Ends_stop:
    "px_stop p = Stopping_tcp \<Longrightarrow> ex_active (px_tcp p) = [] \<Longrightarrow> ex_waiting (px_tcp p) = 0 \<Longrightarrow>
     proxy_step inet p (end_stop_proxy p)"
| Cancels: "proxy_step inet p (cancel_proxy p)"
| Reloads: "reload_proxy inet config p = (r, p') \<Longrightarrow> proxy_step inet p p'"

inductive_cases proxy_threadE: "proxy_thread p p'"

section \<open>The invariant\<close>

definition ended :: "'j executor \<Rightarrow> bool" where
  "ended e \<longleftrightarrow> e = new_executor"

definition open_pool :: "nat \<Rightarrow> nat \<Rightarrow> 'j executor \<Rightarrow> bool" where
  "open_pool workers capacity e \<longleftrightarrow>
     executor_ok e \<and> \<not> ex_stopping e \<and> ex_threads e = workers \<and> ex_capacity e = capacity"

definition closing_pool :: "nat \<Rightarrow> nat \<Rightarrow> 'j executor \<Rightarrow> bool" where
  "closing_pool workers capacity e \<longleftrightarrow>
     executor_ok e \<and> ex_stopping e \<and> ex_threads e = workers \<and> ex_capacity e = capacity"

text \<open>
  Nothing held; and what is held while the proxy serves and at each stage of a stop: the sockets
  until the end, a pool open until its stage, closing in it and given back after it.
\<close>

definition released :: "proxy \<Rightarrow> bool" where
  "released p \<longleftrightarrow>
     \<not> px_running p \<and> \<not> px_listening p \<and> px_port p = 0 \<and> px_loops p = [] \<and>
     ended (px_udp p) \<and> ended (px_tcp p) \<and> px_clients p = []"

definition held :: "proxy \<Rightarrow> bool" where
  "held p \<longleftrightarrow>
     px_listening p \<and> px_port p \<noteq> 0 \<and> (px_running p \<longleftrightarrow> px_stop p = No_stop) \<and>
     (px_stop p \<in> {Stopping_udp, Stopping_tcp} \<longrightarrow> px_loops p = []) \<and>
     (px_stop p \<in> {No_stop, Joining_listeners} \<longrightarrow> open_pool 8 1024 (px_udp p)) \<and>
     (px_stop p = Stopping_udp \<longrightarrow> closing_pool 8 1024 (px_udp p)) \<and>
     (px_stop p = Stopping_tcp \<longrightarrow> ended (px_udp p)) \<and>
     (px_stop p \<noteq> Stopping_tcp \<longrightarrow> open_pool 16 128 (px_tcp p)) \<and>
     (px_stop p = Stopping_tcp \<longrightarrow> closing_pool 16 128 (px_tcp p))"

text \<open>A proxy runs exactly as long as all its listeners do.\<close>

definition proxy_ok :: "proxy \<Rightarrow> bool" where
  "proxy_ok p \<longleftrightarrow>
     mset (px_clients p) = mset (ex_jobs (px_tcp p)) + mset (ex_active (px_tcp p)) \<and>
     (held p \<or> released p) \<and> distinct (px_loops p) \<and>
     (if px_stop p = No_stop
      then px_state p \<in> {Stopped, Running, Failed} \<and> (px_state p = Running \<longrightarrow> held p) \<and>
        (px_state p = Stopped \<longrightarrow> released p) \<and>
        (held p \<longrightarrow> px_state p = (if \<forall>l. l \<in> set (px_loops p) then Running else Failed))
      else px_state p = Stopping)"

subsection \<open>The pools\<close>

lemma ended_ok [simp]: "ended e \<Longrightarrow> executor_ok e"
  by (simp add: ended_def executor_ok_def new_executor_def)

lemma pool_ok:
  "open_pool workers capacity e \<Longrightarrow> executor_ok e"
  "closing_pool workers capacity e \<Longrightarrow> executor_ok e"
  by (simp_all add: open_pool_def closing_pool_def)

lemma ended_idle:
  assumes "ended e"
  shows "take_next e = None" "finish_job i e = None" "worker_returns e = None" "ex_jobs e = []" "ex_active e = []"
    "submit job e = (False, e)" "ended (begin_stop_executor e)" "ended (end_stop_executor e)" "ended (stop_executor e)"
    "ended (e\<lparr>ex_active := [], ex_waiting := 0\<rparr>)"
  using assms by (simp_all add: ended_def executor_defs)

text \<open>A step of the threads keeps what a pool is.\<close>

definition same_pool :: "'j executor \<Rightarrow> 'j executor \<Rightarrow> bool" where
  "same_pool e e' \<longleftrightarrow>
     (executor_ok e \<longrightarrow> executor_ok e') \<and> ex_stopping e' = ex_stopping e \<and> ex_threads e' = ex_threads e \<and>
     ex_capacity e' = ex_capacity e"

lemma same_pool_keeps:
  "same_pool e e' \<Longrightarrow> open_pool n c e \<Longrightarrow> open_pool n c e'"
  "same_pool e e' \<Longrightarrow> closing_pool n c e \<Longrightarrow> closing_pool n c e'"
  by (simp_all add: same_pool_def open_pool_def closing_pool_def)

lemma pool_steps:
  "take_next e = Some (job, e') \<Longrightarrow> same_pool e e' \<and> \<not> ended e \<and>
     mset (ex_jobs e') + mset (ex_active e') = mset (ex_jobs e) + mset (ex_active e)"
  "finish_job i e = Some (job, e') \<Longrightarrow> same_pool e e' \<and> \<not> ended e \<and>
     add_mset job (mset (ex_jobs e') + mset (ex_active e')) = mset (ex_jobs e) + mset (ex_active e)"
  "worker_returns e = Some e' \<Longrightarrow> same_pool e e' \<and> \<not> ended e \<and>
     mset (ex_jobs e') + mset (ex_active e') = mset (ex_jobs e) + mset (ex_active e)"
  "submit job e = (True, e') \<Longrightarrow> same_pool e e' \<and> \<not> ended e \<and>
     mset (ex_jobs e') + mset (ex_active e') = add_mset job (mset (ex_jobs e) + mset (ex_active e))"
proof -
  show "take_next e = Some (job, e') \<Longrightarrow> same_pool e e' \<and> \<not> ended e \<and>
     mset (ex_jobs e') + mset (ex_active e') = mset (ex_jobs e) + mset (ex_active e)"
    using executor_work_ok [OF takes, of e job e']
    by (auto simp: take_next_def same_pool_def ended_def new_executor_def split: list.splits if_splits)
  show "worker_returns e = Some e' \<Longrightarrow> same_pool e e' \<and> \<not> ended e \<and>
     mset (ex_jobs e') + mset (ex_active e') = mset (ex_jobs e) + mset (ex_active e)"
    using executor_work_ok [OF returns_thread, of e e']
    by (auto simp: worker_returns_def same_pool_def ended_def new_executor_def split: if_splits)
  show "submit job e = (True, e') \<Longrightarrow> same_pool e e' \<and> \<not> ended e \<and>
     mset (ex_jobs e') + mset (ex_active e') = add_mset job (mset (ex_jobs e) + mset (ex_active e))"
    using executor_step_ok [OF submits, of job e True e']
    by (auto simp: submit_def same_pool_def ended_def new_executor_def split: if_splits)
  show "finish_job i e = Some (job, e') \<Longrightarrow> same_pool e e' \<and> \<not> ended e \<and>
     add_mset job (mset (ex_jobs e') + mset (ex_active e')) = mset (ex_jobs e) + mset (ex_active e)"
  proof -
    assume f: "finish_job i e = Some (job, e')"
    then have i: "i < length (ex_active e)" "job = ex_active e ! i"
      "e' = e\<lparr>ex_active := take i (ex_active e) @ drop (Suc i) (ex_active e), ex_waiting := Suc (ex_waiting e)\<rparr>"
      by (auto simp: finish_job_def split: if_splits)
    have "mset (ex_active e) = mset (take i (ex_active e) @ ex_active e ! i # drop (Suc i) (ex_active e))"
      using id_take_nth_drop [OF i(1)] by simp
    then show ?thesis
      using executor_work_ok [OF finishes [OF f]] i by (auto simp: same_pool_def ended_def new_executor_def)
  qed
qed

lemma started_pool:
  assumes "ended e" "workers \<noteq> 0" "capacity \<noteq> 0" "start_executor workers capacity spawn e = (r, e')"
  shows "case r of Inr _ \<Rightarrow> open_pool workers capacity e' \<and> ex_jobs e' = [] \<and> ex_active e' = [] | Inl _ \<Rightarrow> ended e'"
  using assms
  by (auto simp: ended_def executor_defs open_pool_def executor_ok_def split: option.splits prod.splits)

lemma stopped_pool: "ended (stop_executor e)"
  by (simp add: ended_def executor_defs)

lemma closing_begins: "open_pool n c e \<Longrightarrow> closing_pool n c (begin_stop_executor e)"
  by (auto simp: open_pool_def closing_pool_def executor_ok_def begin_stop_executor_def)

lemma closing_ends: "closing_pool n c e \<Longrightarrow> ex_active e = [] \<Longrightarrow> ex_waiting e = 0 \<Longrightarrow> ended (end_stop_executor e)"
  by (simp add: closing_pool_def executor_ok_def end_stop_executor_def ended_def new_executor_def)

section \<open>Queries change nothing but the record of effects\<close>

definition effects_only :: "proxy \<Rightarrow> proxy \<Rightarrow> bool" where
  "effects_only p p' \<longleftrightarrow> (\<exists>es. p' = p\<lparr>px_effects := px_effects p @ es\<rparr>)"

lemma effects_only_refl [simp]: "effects_only p p"
  unfolding effects_only_def by (rule exI [of _ "[]"]) simp

lemma effects_only_trans: "effects_only p q \<Longrightarrow> effects_only q r \<Longrightarrow> effects_only p r"
  by (auto simp: effects_only_def)

interpretation answering: step_relation effects_only
  by unfold_locales (simp, rule effects_only_trans)

lemma effect_only [simp]:
  "effects_only p (proxy_effect_of e p)" "effects_only p (proxy_log lvl event message p)"
  by (auto simp: effects_only_def proxy_effect_of_def proxy_log_def)

lemma proxy_process_only: "effects_only p (snd (proxy_process env request p))"
  by (simp add: proxy_process_def split: sum.split)

lemma handle_udp_only: "effects_only p (handle_udp env sends query p)"
proof -
  let ?m = "bindA (proxy_process env (uq_packet query)) (\<lambda>response.
           bindA (liftA (fit_udp_response (uq_packet query) response)) (\<lambda>response p.
           if response = [] then (Inr (), p)
           else
             case sends response of
               Some m \<Rightarrow> (Inl (Error ''PROXY_IO'' (''UDP reply send: '' @ m)), p)
             | None \<Rightarrow> (Inr (), proxy_effect_of (Sent_udp (uq_listener query) response (uq_client query)) p)))"
  have "effects_only p (snd (?m p))"
    by (intro answering.bindA_rel answering.liftA_rel proxy_process_only) (simp split: option.split)
  then show ?thesis
    by (auto simp: handle_udp_def split: prod.split sum.split intro: effects_only_trans)
qed

lemma send_exact_only: "effects_only p (snd (send_exact fails fd bytes p))"
  by (simp add: send_exact_def split: option.split)

lemma client_round_only: "effects_only p (snd (client_round env fails fd input p))"
  by (auto simp: client_round_def Let_def split: sum.split option.split
      intro!: answering.bindA_rel proxy_process_only send_exact_only)

lemma client_loop_only: "effects_only p (snd (client_loop w k fd input p))"
proof (induction w k fd input p rule: client_loop.induct)
  case (1 w k fd input p)
  obtain r p' where r: "client_round (cw_env (w k)) (cw_fails (w k)) fd input p = (r, p')"
    by (cases "client_round (cw_env (w k)) (cw_fails (w k)) fd input p")
  have only: "effects_only p p'" using client_round_only r by (metis snd_conv)
  show ?case
    using 1 r only by (subst client_loop.simps) (auto split: sum.split option.split intro: effects_only_trans)
qed

lemma handle_client_only: "effects_only p (handle_client w timeout running_then fd input p)"
  using client_loop_only [of p w 0 fd input]
  by (auto simp: handle_client_def split: prod.split sum.split intro: effects_only_trans)

lemma effects_only_ok:
  "effects_only p q \<Longrightarrow> proxy_ok (q\<lparr>px_udp := e\<rparr>) = proxy_ok (p\<lparr>px_udp := e\<rparr>)"
  "effects_only p q \<Longrightarrow> proxy_ok (q\<lparr>px_tcp := e', px_clients := fds\<rparr>) = proxy_ok (p\<lparr>px_tcp := e', px_clients := fds\<rparr>)"
proof -
  assume "effects_only p q"
  then obtain es where "q = p\<lparr>px_effects := px_effects p @ es\<rparr>" by (auto simp: effects_only_def)
  then show "proxy_ok (q\<lparr>px_udp := e\<rparr>) = proxy_ok (p\<lparr>px_udp := e\<rparr>)"
    "proxy_ok (q\<lparr>px_tcp := e', px_clients := fds\<rparr>) = proxy_ok (p\<lparr>px_tcp := e', px_clients := fds\<rparr>)"
    by (simp_all only:) (simp_all add: proxy_ok_def held_def released_def)
qed

section \<open>Every step keeps the invariant\<close>

lemma held_pools:
  "held p \<Longrightarrow> same_pool (px_udp p) e \<Longrightarrow> \<not> ended (px_udp p) \<Longrightarrow> held (p\<lparr>px_udp := e\<rparr>)"
  "held p \<Longrightarrow> same_pool (px_tcp p) e' \<Longrightarrow> held (p\<lparr>px_tcp := e', px_clients := fds\<rparr>)"
  by (auto simp: held_def same_pool_keeps)

lemma proxy_ok_udp: "proxy_ok p \<Longrightarrow> same_pool (px_udp p) e \<Longrightarrow> \<not> ended (px_udp p) \<Longrightarrow> proxy_ok (p\<lparr>px_udp := e\<rparr>)"
  using held_pools(1) [of p e] by (auto simp: proxy_ok_def released_def)

lemma proxy_ok_tcp:
  assumes "proxy_ok p" "same_pool (px_tcp p) e" "\<not> ended (px_tcp p)"
    and "mset fds = mset (ex_jobs e) + mset (ex_active e)"
  shows "proxy_ok (p\<lparr>px_tcp := e, px_clients := fds\<rparr>)"
  using held_pools(2) [of p e fds] assms by (auto simp: proxy_ok_def released_def)

lemma clients_commute: "p\<lparr>px_clients := fds, px_tcp := e\<rparr> = p\<lparr>px_tcp := e, px_clients := fds\<rparr>"
  by (cases p) simp

lemma proxy_ok_log [simp]: "proxy_ok (proxy_log lvl event message p) = proxy_ok p"
  by (simp add: proxy_log_def proxy_effect_of_def proxy_ok_def held_def released_def)

lemma proxy_ok_router [simp]: "proxy_ok (p\<lparr>px_router := r\<rparr>) = proxy_ok p"
  by (simp add: proxy_ok_def held_def released_def)

text \<open>A listener that runs, one that ends, and one that fails.\<close>

lemma running_held: "proxy_ok p \<Longrightarrow> px_running p \<Longrightarrow> held p \<and> px_stop p = No_stop"
  by (auto simp: proxy_ok_def held_def released_def)

lemma listener_ends:
  assumes "proxy_ok p" "l \<in> set (px_loops p)" "\<not> px_running p"
  shows "proxy_ok (p\<lparr>px_loops := remove1 l (px_loops p)\<rparr>)"
proof -
  have "\<not> released p" using assms(2) by (auto simp: released_def)
  then have held: "held p" using assms(1) by (simp add: proxy_ok_def)
  then have "px_stop p \<noteq> No_stop" using assms(3) by (simp add: held_def)
  moreover have "held (p\<lparr>px_loops := remove1 l (px_loops p)\<rparr>)"
    using held assms(2) by (cases "px_stop p") (simp_all add: held_def)
  ultimately show ?thesis using assms(1) by (simp add: proxy_ok_def)
qed

lemma listener_fails:
  assumes "proxy_ok p" "px_running p" "l \<in> set (px_loops p)"
  shows "proxy_ok ((listener_failed m p)\<lparr>px_loops := remove1 l (px_loops p)\<rparr>)"
proof -
  note held = running_held [OF assms(1,2)]
  have p: "mset (px_clients p) = mset (ex_jobs (px_tcp p)) + mset (ex_active (px_tcp p))" "distinct (px_loops p)"
    using assms(1) by (simp_all add: proxy_ok_def)
  then have "l \<notin> set (remove1 l (px_loops p))" by simp
  with held assms(2) p show ?thesis
    by (auto simp: listener_failed_def proxy_log_def proxy_effect_of_def proxy_ok_def held_def)
qed

lemma log_fields [simp]:
  "px_loops (listener_failed m p) = px_loops p" "px_loops (proxy_log lvl event message p) = px_loops p"
  "px_clients (proxy_log lvl event message p) = px_clients p"
  by (simp_all add: listener_failed_def proxy_log_def proxy_effect_of_def)

lemma log_clients:
  "(proxy_log lvl event message p)\<lparr>px_clients := fds\<rparr> = proxy_log lvl event message (p\<lparr>px_clients := fds\<rparr>)"
  "proxy_log lvl event message (p\<lparr>px_clients := fds, px_clients := fds'\<rparr>) = proxy_log lvl event message (p\<lparr>px_clients := fds'\<rparr>)"
  by (simp_all add: proxy_log_def proxy_effect_of_def)

lemma udp_event_ok:
  assumes "proxy_ok p" "l \<in> set (px_loops p)" "udp_event l input p = (goes_on, p')"
  shows "proxy_ok (p'\<lparr>px_loops := if goes_on then px_loops p' else remove1 l (px_loops p')\<rparr>)"
proof (cases "px_running p")
  case running: True
  show ?thesis
  proof (cases input)
    case (Datagram packet client)
    let ?query = "\<lparr>uq_listener = l, uq_packet = packet, uq_client = client\<rparr>"
    obtain accepted e where s: "submit ?query (px_udp p) = (accepted, e)" by (cases "submit ?query (px_udp p)")
    show ?thesis
    proof (cases accepted)
      case True
      then have "same_pool (px_udp p) e" "\<not> ended (px_udp p)" using pool_steps(4) [of ?query "px_udp p" e] s by simp_all
      from proxy_ok_udp [OF assms(1) this] show ?thesis
        using assms(3) s True running Datagram by (auto simp: udp_event_def)
    next
      case False
      then show ?thesis using assms(1,3) s running Datagram by (auto simp: udp_event_def)
    qed
  qed (use assms running listener_fails [OF assms(1) running assms(2)] in \<open>auto simp: udp_event_def split: if_splits\<close>)
qed (use assms listener_ends in \<open>auto simp: udp_event_def\<close>)

lemma tcp_event_ok:
  assumes "proxy_ok p" "l \<in> set (px_loops p)" "tcp_event input p = (goes_on, p')"
  shows "proxy_ok (p'\<lparr>px_loops := if goes_on then px_loops p' else remove1 l (px_loops p')\<rparr>)"
proof (cases "px_running p")
  case running: True
  show ?thesis
  proof (cases input)
    case (Connection fd)
    obtain accepted e where s: "submit fd (px_tcp p) = (accepted, e)" by (cases "submit fd (px_tcp p)")
    show ?thesis
    proof (cases accepted)
      case True
      then have step: "same_pool (px_tcp p) e" "\<not> ended (px_tcp p)"
        "mset (ex_jobs e) + mset (ex_active e) = add_mset fd (mset (ex_jobs (px_tcp p)) + mset (ex_active (px_tcp p)))"
        using pool_steps(4) [of fd "px_tcp p" e] s by simp_all
      then have "mset (insort fd (px_clients p)) = mset (ex_jobs e) + mset (ex_active e)"
        using assms(1) by (simp add: proxy_ok_def)
      from proxy_ok_tcp [OF assms(1) step(1,2) this]
      have "proxy_ok (p\<lparr>px_clients := insort fd (px_clients p), px_tcp := e\<rparr>)" by (subst clients_commute)
      then show ?thesis using assms(3) s True running Connection by (auto simp: tcp_event_def)
    next
      case False
      have "mset (remove1 fd (insort fd (px_clients p))) = mset (px_clients p)" by simp
      then have "proxy_ok (p\<lparr>px_clients := remove1 fd (insort fd (px_clients p))\<rparr>)"
        using assms(1) by (auto simp: proxy_ok_def held_def released_def)
      then show ?thesis
        using assms(3) s False running Connection
        by (auto simp: tcp_event_def Let_def log_clients)
    qed
  qed (use assms running listener_fails [OF assms(1) running assms(2)] in \<open>auto simp: tcp_event_def split: if_splits\<close>)
qed (use assms listener_ends in \<open>auto simp: tcp_event_def\<close>)

lemma proxy_thread_ok:
  assumes "proxy_thread p p'" "proxy_ok p"
  shows "proxy_ok p'"
  using assms(1)
proof cases
  case (Listens_udp l input goes_on q)
  then show ?thesis using udp_event_ok [OF assms(2) Listens_udp(2,4)] by simp
next
  case (Listens_tcp l input goes_on q)
  then show ?thesis using tcp_event_ok [OF assms(2) Listens_tcp(2,4)] by simp
next
  case (Takes_udp query e)
  with pool_steps(1) [OF Takes_udp(2)] proxy_ok_udp [OF assms(2), of e] show ?thesis by simp
next
  case (Answers_udp i query e env sends)
  have "proxy_ok (p\<lparr>px_udp := e\<rparr>)" using pool_steps(2) [OF Answers_udp(2)] by (intro proxy_ok_udp [OF assms(2)]) simp_all
  then show ?thesis unfolding Answers_udp(1) effects_only_ok(1) [OF handle_udp_only] .
next
  case (Ends_udp e)
  with pool_steps(3) [OF Ends_udp(2)] proxy_ok_udp [OF assms(2), of e] show ?thesis by simp
next
  case (Takes_tcp fd e)
  have "proxy_ok (p\<lparr>px_tcp := e, px_clients := px_clients p\<rparr>)"
    using pool_steps(1) [OF Takes_tcp(2)] assms(2) by (intro proxy_ok_tcp) (auto simp: proxy_ok_def)
  then show ?thesis using Takes_tcp by simp
next
  case (Answers_tcp i fd e w timeout running_then input)
  note step = pool_steps(2) [OF Answers_tcp(2)]
  have "mset (px_clients p) = add_mset fd (mset (ex_jobs e) + mset (ex_active e))"
    using step assms(2) by (simp add: proxy_ok_def)
  then have "mset (remove1 fd (px_clients p)) = mset (ex_jobs e) + mset (ex_active e)" by simp
  then have "proxy_ok (p\<lparr>px_tcp := e, px_clients := remove1 fd (px_clients p)\<rparr>)"
    using step assms(2) by (intro proxy_ok_tcp) auto
  then show ?thesis unfolding Answers_tcp(1) effects_only_ok(2) [OF handle_client_only] .
next
  case (Ends_tcp e)
  have "proxy_ok (p\<lparr>px_tcp := e, px_clients := px_clients p\<rparr>)"
    using pool_steps(3) [OF Ends_tcp(2)] assms(2) by (intro proxy_ok_tcp) (auto simp: proxy_ok_def)
  then show ?thesis using Ends_tcp by simp
qed

section \<open>Start and stop\<close>

lemma chosen_port: "(ucast (20000 + r mod 28000 :: 32 word) :: 16 word) \<noteq> 0"
proof -
  have r: "unat (r mod 28000 :: 32 word) < 28000" by (simp add: unat_mod)
  then have "unat (20000 + r mod 28000 :: 32 word) = 20000 + unat (r mod 28000)"
    by (subst unat_add_lem [THEN iffD1]) simp_all
  then have "unat (ucast (20000 + r mod 28000 :: 32 word) :: 16 word) = 20000 + unat (r mod 28000)"
    using r by (simp add: unsigned_ucast_eq take_bit_eq_mod)
  then show ?thesis by (metis add_is_0 unat_0 zero_neq_numeral)
qed

lemma bind_port: "bind_listeners la requested attempts attempt m = Inr port \<Longrightarrow> port \<noteq> 0"
  by (induction la requested attempts attempt m rule: bind_listeners.induct)
    (auto simp: chosen_port split: bind_answer.splits if_splits)

text \<open>The stages from a stopped proxy: all of them are done, or one throws.\<close>

definition launched :: "proxy \<Rightarrow> bool" where
  "launched p \<longleftrightarrow> px_stop p = No_stop \<and> held p \<and> px_state p = Running \<and> px_loops p = all_listeners \<and>
     px_clients p = [] \<and> ex_jobs (px_tcp p) = [] \<and> ex_active (px_tcp p) = []"

lemma proxy_stages_outcome:
  assumes "released p" "px_stop p = No_stop" "proxy_stages inet la p = (r, p')"
  shows "px_stop p' = No_stop \<and> (case r of Inr _ \<Rightarrow> launched p' | Inl e \<Rightarrow> e \<noteq> Blocked)"
proof (cases "resume inet (px_router p)")
  case (Inl e)
  then show ?thesis using assms by (auto simp: proxy_stages_def bindA_def)
next
  case router: (Inr router)
  note released = assms(1) [unfolded released_def]
  let ?bind = "bind_listeners la (px_requested p) (if px_requested p \<noteq> 0 then 1 else 128) 0 []"
  show ?thesis
  proof (cases ?bind)
    case (Inl e)
    then show ?thesis using assms router by (auto simp: proxy_stages_def bindA_def)
  next
    case port: (Inr port)
    obtain ru eu where u: "start_executor 8 1024 (pl_udp_spawn la) (px_udp p) = (ru, eu)" by fastforce
    obtain rt et where t: "start_executor 16 128 (pl_tcp_spawn la) (px_tcp p) = (rt, et)" by fastforce
    have pu: "case ru of Inr _ \<Rightarrow> open_pool 8 1024 eu \<and> ex_jobs eu = [] \<and> ex_active eu = [] | Inl _ \<Rightarrow> ended eu"
      by (rule started_pool [OF _ _ _ u]) (use released in simp_all)
    have pt: "case rt of Inr _ \<Rightarrow> open_pool 16 128 et \<and> ex_jobs et = [] \<and> ex_active et = [] | Inl _ \<Rightarrow> ended et"
      by (rule started_pool [OF _ _ _ t]) (use released in simp_all)
    note unfold = assms(3) [unfolded proxy_stages_def bindA_def, simplified router port u t thrown_other_def, simplified]
    show ?thesis
    proof (cases ru)
      case (Inl m)
      then show ?thesis using unfold assms(2) router port u t by (auto simp: thrown_other_def)
    next
      case ru: (Inr x)
      show ?thesis
      proof (cases rt)
        case (Inl m)
        then show ?thesis using unfold assms(2) router port u t ru by (auto simp: thrown_other_def)
      next
        case (Inr y)
        then show ?thesis
          using unfold assms(2) router port u t ru pu pt released bind_port [OF port]
          by (auto simp: thrown_other_def launched_def held_def Let_def split: option.splits)
      qed
    qed
  qed
qed

lemma rolled_back: "released (proxy_rollback p) \<and> px_state (proxy_rollback p) = Failed \<and> px_stop (proxy_rollback p) = px_stop p"
  by (simp add: proxy_rollback_def released_def stopped_pool)

lemma proxy_ok_stopped: "proxy_ok p \<Longrightarrow> px_state p = Stopped \<Longrightarrow> released p \<and> px_stop p = No_stop"
  by (auto simp: proxy_ok_def split: if_splits)

lemma released_ok: "released p \<Longrightarrow> px_stop p = No_stop \<Longrightarrow> px_state p \<in> {Stopped, Failed} \<Longrightarrow> proxy_ok p"
  by (auto simp: proxy_ok_def held_def released_def ended_def new_executor_def)

lemma every_listener: "l \<in> set all_listeners"
  by (cases l) simp_all

lemma launched_ok: "launched p \<Longrightarrow> proxy_ok p"
  using every_listener by (simp add: launched_def proxy_ok_def)

lemma proxy_start_outcome:
  assumes "proxy_ok p" "start_local_proxy inet la p = (r, p')"
  shows "if px_state p \<noteq> Stopped then r = Inl (Threw (Error ''LIFECYCLE'' ''Proxy is not stopped'')) \<and> p' = p
    else case r of
      Inr _ \<Rightarrow> launched p'
    | Inl e \<Rightarrow> e \<noteq> Blocked \<and> released p' \<and> px_state p' = Failed \<and> px_stop p' = No_stop"
proof (cases "px_state p = Stopped")
  case True
  let ?p = "p\<lparr>px_state := Starting\<rparr>"
  have "released ?p" "px_stop ?p = No_stop"
    using proxy_ok_stopped [OF assms(1) True] by (simp_all add: released_def)
  moreover obtain r1 p1 where st: "proxy_stages inet la ?p = (r1, p1)" by fastforce
  ultimately have "px_stop p1 = No_stop \<and> (case r1 of Inr _ \<Rightarrow> launched p1 | Inl e \<Rightarrow> e \<noteq> Blocked)"
    by (rule proxy_stages_outcome)
  then show ?thesis
    using assms(2) st True rolled_back [of p1] by (auto simp: start_local_proxy_def split: sum.splits)
qed (use assms(2) in \<open>simp add: start_local_proxy_def\<close>)

lemma start_proxy_ok: "proxy_ok p \<Longrightarrow> start_local_proxy inet la p = (r, p') \<Longrightarrow> proxy_ok p'"
  using proxy_start_outcome [of p inet la r p'] released_ok [of p'] launched_ok [of p']
  by (auto split: if_splits sum.splits)

subsection \<open>The stages of a stop\<close>

lemma begin_stop_ok: "proxy_ok p \<Longrightarrow> proxy_ok (begin_stop_proxy p)"
proof -
  assume ok: "proxy_ok p"
  show ?thesis
  proof (cases "px_state p = Stopped \<or> px_stop p \<noteq> No_stop")
    case True
    then show ?thesis using ok by (auto simp: begin_stop_proxy_def)
  next
    case False
    let ?q = "begin_stop_proxy p"
    have "held p \<or> released p" using ok by (simp add: proxy_ok_def)
    then have "held ?q \<or> released ?q" using False by (auto simp: begin_stop_proxy_def held_def released_def)
    moreover have "px_state ?q = Stopping" "px_stop ?q \<noteq> No_stop" "px_loops ?q = px_loops p"
      "px_clients ?q = px_clients p" "px_tcp ?q = px_tcp p"
      using False by (simp_all add: begin_stop_proxy_def)
    ultimately show ?thesis using ok by (simp add: proxy_ok_def)
  qed
qed

lemma stop_udp_ok:
  assumes "proxy_ok p" "px_stop p = Joining_listeners" "px_loops p = []"
  shows "proxy_ok (stop_udp_handlers p)"
proof -
  have "held p \<or> released p" "px_state p = Stopping" using assms(1,2) by (simp_all add: proxy_ok_def)
  then show ?thesis
    using assms closing_begins ended_idle(7)
    by (auto simp: stop_udp_handlers_def proxy_ok_def held_def released_def)
qed

lemma mset_fold_remove1: "mset (fold remove1 xs ys) = mset ys - mset xs"
  by (induction xs arbitrary: ys) (simp_all add: diff_union_swap2 add_mset_commute)

lemma stop_tcp_ok:
  assumes "proxy_ok p" "px_stop p = Stopping_udp" "ex_active (px_udp p) = []" "ex_waiting (px_udp p) = 0"
  shows "proxy_ok (stop_tcp_handlers p)"
proof -
  have p: "held p \<or> released p" "px_state p = Stopping"
    "mset (px_clients p) = mset (ex_jobs (px_tcp p)) + mset (ex_active (px_tcp p))"
    using assms(1,2) by (simp_all add: proxy_ok_def)
  from p(1) show ?thesis
  proof
    assume "held p"
    then have "closing_pool 8 1024 (px_udp p)" "open_pool 16 128 (px_tcp p)" "px_listening p" "px_port p \<noteq> 0"
      "\<not> px_running p" "px_loops p = []"
      using assms(2) by (simp_all add: held_def)
    then show ?thesis
      using closing_ends [OF _ assms(3,4)] closing_begins [of 16 128 "px_tcp p"] p
      by (simp add: stop_tcp_handlers_def proxy_ok_def held_def mset_fold_remove1) (simp add: begin_stop_executor_def)
  next
    assume "released p"
    then have r: "released (stop_tcp_handlers p)" "ex_active (px_tcp p) = []"
      by (simp_all add: stop_tcp_handlers_def released_def ended_idle)
    then have "px_clients (stop_tcp_handlers p) = []" by (simp add: released_def)
    moreover have "ex_jobs (px_tcp (stop_tcp_handlers p)) = []" "ex_active (px_tcp (stop_tcp_handlers p)) = []"
      "px_state (stop_tcp_handlers p) = Stopping" "px_stop (stop_tcp_handlers p) = Stopping_tcp"
      using r(2) p(2) by (simp_all add: stop_tcp_handlers_def begin_stop_executor_def)
    moreover have "px_loops (stop_tcp_handlers p) = []" using r(1) by (simp add: released_def)
    ultimately show ?thesis using r(1) by (simp add: proxy_ok_def)
  qed
qed

lemma end_stop_ok:
  assumes "proxy_ok p" "px_stop p = Stopping_tcp" "ex_active (px_tcp p) = []" "ex_waiting (px_tcp p) = 0"
  shows "released (end_stop_proxy p)" "proxy_ok (end_stop_proxy p)"
proof -
  have p: "held p \<or> released p" "mset (px_clients p) = mset (ex_jobs (px_tcp p)) + mset (ex_active (px_tcp p))"
    using assms(1,2) by (simp_all add: proxy_ok_def)
  show released: "released (end_stop_proxy p)"
    using p(1)
  proof
    assume "held p"
    then have h: "ended (px_udp p)" "closing_pool 16 128 (px_tcp p)" "\<not> px_running p" "px_loops p = []"
      using assms(2) by (simp_all add: held_def)
    then have "ex_jobs (px_tcp p) = []" by (simp add: closing_pool_def executor_ok_def)
    then show ?thesis using h p(2) assms(3) closing_ends [OF h(2) assms(3,4)]
      by (simp add: released_def end_stop_proxy_def)
  qed (simp add: released_def end_stop_proxy_def ended_idle)
  then show "proxy_ok (end_stop_proxy p)" by (rule released_ok) (simp_all add: end_stop_proxy_def)
qed

lemma proxy_step_ok:
  assumes "proxy_step inet p p'" "proxy_ok p"
  shows "proxy_ok p'"
  using assms(1)
proof cases
  case Thread
  then show ?thesis using proxy_thread_ok assms(2) by blast
next
  case (Starts la r)
  then show ?thesis using start_proxy_ok assms(2) by blast
next
  case Begins_stop
  then show ?thesis using begin_stop_ok assms(2) by simp
next
  case Stops_udp
  then show ?thesis using stop_udp_ok assms(2) by simp
next
  case Stops_tcp
  then show ?thesis using stop_tcp_ok assms(2) by simp
next
  case Ends_stop
  then show ?thesis using end_stop_ok assms(2) by simp
next
  case Cancels
  then show ?thesis using assms(2) by (simp add: cancel_proxy_def)
next
  case (Reloads config r)
  then show ?thesis
    using assms(2) by (auto simp: reload_proxy_def split: sum.splits)
qed

lemma new_proxy_ok: "new_proxy inet router original port = Inr p \<Longrightarrow> proxy_ok p \<and> px_state p = Stopped"
  by (auto simp: new_proxy_def Let_def proxy_ok_def held_def released_def ended_def new_executor_def)

lemma proxy_reachable:
  "new_proxy inet router original port = Inr p0 \<Longrightarrow> (proxy_step inet)\<^sup>*\<^sup>* p0 p \<Longrightarrow> proxy_ok p"
  by (rotate_tac, induction rule: rtranclp_induct) (auto dest: new_proxy_ok intro: proxy_step_ok)

section \<open>What holds of every proxy\<close>

text \<open>
  The bounds of the pools; the connections the proxy would shut down are exactly those that wait
  or are served; and what the proxy holds in each of its states.
\<close>

definition serving :: "proxy \<Rightarrow> bool" where
  "serving p \<longleftrightarrow> px_running p \<and> px_listening p \<and> px_port p \<noteq> 0 \<and>
     open_pool 8 1024 (px_udp p) \<and> open_pool 16 128 (px_tcp p)"

definition stopping :: "proxy \<Rightarrow> bool" where
  "stopping p \<longleftrightarrow> \<not> px_running p \<and> px_listening p \<and> px_port p \<noteq> 0 \<and>
     (case px_stop p of
        No_stop \<Rightarrow> False
      | Joining_listeners \<Rightarrow> open_pool 8 1024 (px_udp p) \<and> open_pool 16 128 (px_tcp p)
      | Stopping_udp \<Rightarrow> px_loops p = [] \<and> closing_pool 8 1024 (px_udp p) \<and> open_pool 16 128 (px_tcp p)
      | Stopping_tcp \<Rightarrow> px_loops p = [] \<and> ended (px_udp p) \<and> closing_pool 16 128 (px_tcp p))"

text \<open>C23: In every reachable state of the local proxy its two pools stay within their queue and
  thread bounds, and the connections it would shut down are exactly those that wait or are
  served. While its state is running it has its sockets, both pools open and all four
  listeners; in the error state it holds nothing, or serves on with a listener missing; a
  stop gives back the listeners, the UDP pool, the TCP pool and the sockets stage by stage;
  a stopped proxy holds nothing.\<close>

theorem proxy_invariant:
  assumes "new_proxy inet router original port = Inr p0" "(proxy_step inet)\<^sup>*\<^sup>* p0 p"
  shows "length (ex_jobs (px_udp p)) \<le> 1024 \<and> length (ex_active (px_udp p)) \<le> 8 \<and>
    length (ex_jobs (px_tcp p)) \<le> 128 \<and> length (ex_active (px_tcp p)) \<le> 16 \<and>
    mset (px_clients p) = mset (ex_jobs (px_tcp p)) + mset (ex_active (px_tcp p)) \<and>
    distinct (px_loops p) \<and>
    (case px_state p of
       Stopped \<Rightarrow> released p
     | Starting \<Rightarrow> False
     | Running \<Rightarrow> serving p \<and> set (px_loops p) = set all_listeners
     | Failed \<Rightarrow> released p \<or> serving p \<and> set (px_loops p) \<noteq> set all_listeners
     | Stopping \<Rightarrow> released p \<or> stopping p)"
proof -
  have ok: "proxy_ok p" by (rule proxy_reachable [OF assms])
  have pool: "length (ex_jobs e) \<le> capacity \<and> length (ex_active e) \<le> workers"
    if "open_pool workers capacity e \<or> closing_pool workers capacity e \<or> ended e" for workers capacity and e :: "'j executor"
    using that by (auto simp: open_pool_def closing_pool_def executor_ok_def ended_def new_executor_def)
  have held: "held p \<or> released p" using ok by (simp add: proxy_ok_def)
  have "open_pool 8 1024 (px_udp p) \<or> closing_pool 8 1024 (px_udp p) \<or> ended (px_udp p)"
    "open_pool 16 128 (px_tcp p) \<or> closing_pool 16 128 (px_tcp p) \<or> ended (px_tcp p)"
    using held by (cases "px_stop p"; auto simp: held_def released_def)+
  moreover have all: "set (px_loops p) = set all_listeners \<longleftrightarrow> (\<forall>l. l \<in> set (px_loops p))"
    using every_listener by blast
  have serve: "serving p" if "held p" "px_stop p = No_stop" using that by (simp add: held_def serving_def)
  have "case px_state p of
       Stopped \<Rightarrow> released p
     | Starting \<Rightarrow> False
     | Running \<Rightarrow> serving p \<and> set (px_loops p) = set all_listeners
     | Failed \<Rightarrow> released p \<or> serving p \<and> set (px_loops p) \<noteq> set all_listeners
     | Stopping \<Rightarrow> released p \<or> stopping p"
  proof (cases "px_stop p = No_stop")
    case True
    then show ?thesis using ok serve unfolding all by (auto simp: proxy_ok_def split: if_splits)
  next
    case False
    then have "px_state p = Stopping" "held p \<or> released p" using ok by (simp_all add: proxy_ok_def)
    moreover have "stopping p" if "held p"
      using that False by (cases "px_stop p") (simp_all add: held_def stopping_def)
    ultimately show ?thesis by auto
  qed
  ultimately show ?thesis using pool [of 8 1024 "px_udp p"] pool [of 16 128 "px_tcp p"] ok
    by (simp add: proxy_ok_def)
qed

text \<open>A start leaves the four listeners running on a port, or nothing and the error.\<close>

theorem proxy_start_all_or_nothing:
  assumes "new_proxy inet router original port = Inr p0" "(proxy_step inet)\<^sup>*\<^sup>* p0 p"
    and "start_local_proxy inet la p = (r, p')"
  shows "if px_state p \<noteq> Stopped then r = Inl (Threw (Error ''LIFECYCLE'' ''Proxy is not stopped'')) \<and> p' = p
    else case r of
      Inr _ \<Rightarrow> px_state p' = Running \<and> held p' \<and> px_loops p' = all_listeners
    | Inl _ \<Rightarrow> px_state p' = Failed \<and> released p'"
  using proxy_start_outcome [OF proxy_reachable [OF assms(1,2)] assms(3)]
  by (auto simp: launched_def split: if_splits sum.splits)

section \<open>A stop completes\<close>

lemma thread_stage:
  assumes "proxy_thread p p'"
  shows "px_stop p' = px_stop p"
  using assms
proof cases
  case (Listens_udp l input goes_on q)
  then show ?thesis
    by (auto simp: udp_event_def listener_failed_def proxy_log_def proxy_effect_of_def
        split: if_splits udp_input.splits prod.splits bool.splits)
next
  case (Listens_tcp l input goes_on q)
  then show ?thesis
    by (auto simp: tcp_event_def Let_def listener_failed_def proxy_log_def proxy_effect_of_def
        split: if_splits tcp_input.splits prod.splits bool.splits)
next
  case (Answers_udp i query e env sends)
  then show ?thesis using handle_udp_only [of p env sends query] by (auto simp: effects_only_def)
next
  case (Answers_tcp i fd e w timeout running_then input)
  then show ?thesis using handle_client_only [of p w timeout running_then fd input] by (auto simp: effects_only_def)
qed simp_all

lemma threads_keep:
  assumes "proxy_thread\<^sup>*\<^sup>* p p'" "proxy_ok p"
  shows "px_stop p' = px_stop p \<and> proxy_ok p' \<and> (proxy_step inet)\<^sup>*\<^sup>* p p'"
  using assms(1)
proof (induction rule: rtranclp_induct)
  case (step q r)
  then have "proxy_step inet q r" by (blast intro: Thread)
  then show ?case using step thread_stage [OF step.hyps(2)] proxy_thread_ok [OF step.hyps(2)]
    by (auto intro: rtranclp.rtrancl_into_rtrancl)
qed (use assms(2) in simp)

lemma listeners_end: "\<not> px_running p \<Longrightarrow> proxy_thread\<^sup>*\<^sup>* p (p\<lparr>px_loops := []\<rparr>)"
proof (induction "px_loops p" arbitrary: p)
  case Nil
  then have "p\<lparr>px_loops := []\<rparr> = p" by (cases p) simp
  then show ?case by simp
next
  case (Cons l ls)
  have "proxy_thread p (p\<lparr>px_loops := ls\<rparr>)"
  proof (cases "l \<in> {Udp4, Udp6}")
    case True
    have "udp_event l Udp_poll_failed p = (False, p)" using Cons.prems by (simp add: udp_event_def)
    from Listens_udp [OF _ True this] show ?thesis using Cons.hyps(2) [symmetric] by simp
  next
    case False
    then have "l \<in> {Tcp4, Tcp6}" by (cases l) simp_all
    moreover have "tcp_event Tcp_poll_failed p = (False, p)" using Cons.prems by (simp add: tcp_event_def)
    ultimately show ?thesis using Listens_tcp [of l p] Cons.hyps(2) [symmetric] by fastforce
  qed
  moreover have "proxy_thread\<^sup>*\<^sup>* (p\<lparr>px_loops := ls\<rparr>) (p\<lparr>px_loops := ls\<rparr>\<lparr>px_loops := []\<rparr>)"
    using Cons.hyps(1) [of "p\<lparr>px_loops := ls\<rparr>"] Cons.prems by simp
  ultimately show ?case by simp
qed

text \<open>A pool that is closed is drained by its threads.\<close>

definition drained :: "'j executor \<Rightarrow> bool" where
  "drained e \<longleftrightarrow> ex_active e = [] \<and> ex_waiting e = 0"

lemma closed_pool_step:
  assumes "ex_stopping e" "ex_jobs e = []" "\<not> drained e"
  shows "(\<exists>job e'. finish_job 0 e = Some (job, e') \<and> ex_stopping e' \<and> ex_jobs e' = [] \<and>
      executor_measure e' < executor_measure e) \<or>
    (\<exists>e'. worker_returns e = Some e' \<and> ex_stopping e' \<and> ex_jobs e' = [] \<and> executor_measure e' < executor_measure e)"
proof (cases "ex_active e")
  case Nil
  then show ?thesis using assms by (auto simp: drained_def worker_returns_def executor_measure_def)
next
  case (Cons job rest)
  then show ?thesis using assms by (auto simp: finish_job_def executor_measure_def)
qed

lemma udp_pool_drains:
  assumes "ex_stopping (px_udp p)" "ex_jobs (px_udp p) = []"
  shows "\<exists>p'. proxy_thread\<^sup>*\<^sup>* p p' \<and> drained (px_udp p')"
  using assms
proof (induction "executor_measure (px_udp p)" arbitrary: p rule: less_induct)
  case less
  show ?case
  proof (cases "drained (px_udp p)")
    case False
    from closed_pool_step [OF less.prems False]
    obtain p' where p': "proxy_thread p p'" "ex_stopping (px_udp p')" "ex_jobs (px_udp p') = []"
      "executor_measure (px_udp p') < executor_measure (px_udp p)"
    proof (elim disjE exE conjE, goal_cases)
      case (1 query e)
      then show ?case by (intro 1(1) [OF Answers_udp [OF 1(2)]]) simp_all
    next
      case (2 e)
      then show ?case by (intro 2(1) [OF Ends_udp [OF 2(2)]]) simp_all
    qed
    then show ?thesis using less.hyps [OF p'(4,2,3)] by (meson converse_rtranclp_into_rtranclp)
  qed blast
qed

lemma tcp_pool_drains:
  assumes "ex_stopping (px_tcp p)" "ex_jobs (px_tcp p) = []"
  shows "\<exists>p'. proxy_thread\<^sup>*\<^sup>* p p' \<and> drained (px_tcp p')"
  using assms
proof (induction "executor_measure (px_tcp p)" arbitrary: p rule: less_induct)
  case less
  show ?case
  proof (cases "drained (px_tcp p)")
    case False
    from closed_pool_step [OF less.prems False]
    obtain p' where p': "proxy_thread p p'" "ex_stopping (px_tcp p')" "ex_jobs (px_tcp p') = []"
      "executor_measure (px_tcp p') < executor_measure (px_tcp p)"
    proof (elim disjE exE conjE, goal_cases)
      case (1 fd e)
      then show ?case by (intro 1(1) [OF Answers_tcp [OF 1(2)]]) simp_all
    next
      case (2 e)
      then show ?case by (intro 2(1) [OF Ends_tcp [OF 2(2)]]) simp_all
    qed
    then show ?thesis using less.hyps [OF p'(4,2,3)] by (meson converse_rtranclp_into_rtranclp)
  qed blast
qed

lemma stop_from_tcp:
  assumes "proxy_ok p" "px_stop p = Stopping_tcp"
  shows "\<exists>q. (proxy_step inet)\<^sup>*\<^sup>* p q \<and> px_state q = Stopped \<and> released q"
proof -
  have "ex_stopping (px_tcp p) \<and> ex_jobs (px_tcp p) = []"
    using assms by (auto simp: proxy_ok_def held_def released_def closing_pool_def executor_ok_def ended_def new_executor_def)
  then obtain q where q: "proxy_thread\<^sup>*\<^sup>* p q" "drained (px_tcp q)" using tcp_pool_drains by blast
  note keep = threads_keep [OF q(1) assms(1), of inet]
  have "proxy_step inet q (end_stop_proxy q)" "released (end_stop_proxy q)"
    using q(2) keep assms(2) by (auto simp: drained_def intro: Ends_stop end_stop_ok)
  moreover have "px_state (end_stop_proxy q) = Stopped" by (simp add: end_stop_proxy_def)
  ultimately show ?thesis using keep by (meson rtranclp.rtrancl_into_rtrancl)
qed

lemma stop_from_udp:
  assumes "proxy_ok p" "px_stop p = Stopping_udp"
  shows "\<exists>q. (proxy_step inet)\<^sup>*\<^sup>* p q \<and> px_state q = Stopped \<and> released q"
proof -
  have "ex_stopping (px_udp p) \<and> ex_jobs (px_udp p) = []"
    using assms by (auto simp: proxy_ok_def held_def released_def closing_pool_def executor_ok_def ended_def new_executor_def)
  then obtain q where q: "proxy_thread\<^sup>*\<^sup>* p q" "drained (px_udp q)" using udp_pool_drains by blast
  note keep = threads_keep [OF q(1) assms(1), of inet]
  have step: "proxy_step inet q (stop_tcp_handlers q)"
    using q(2) keep assms(2) by (auto simp: drained_def intro: Stops_tcp)
  moreover have "proxy_ok (stop_tcp_handlers q)" "px_stop (stop_tcp_handlers q) = Stopping_tcp"
    using proxy_step_ok [OF step] keep by (simp_all add: stop_tcp_handlers_def)
  ultimately show ?thesis using stop_from_tcp keep by (meson converse_rtranclp_into_rtranclp rtranclp_trans)
qed

lemma stop_from_listeners:
  assumes "proxy_ok p" "px_stop p = Joining_listeners"
  shows "\<exists>q. (proxy_step inet)\<^sup>*\<^sup>* p q \<and> px_state q = Stopped \<and> released q"
proof -
  let ?q = "p\<lparr>px_loops := []\<rparr>"
  have "\<not> px_running p" using assms by (auto simp: proxy_ok_def held_def released_def)
  from threads_keep [OF listeners_end [OF this] assms(1), of inet]
  have keep: "px_stop ?q = Joining_listeners" "proxy_ok ?q" "(proxy_step inet)\<^sup>*\<^sup>* p ?q" using assms(2) by simp_all
  then have step: "proxy_step inet ?q (stop_udp_handlers ?q)" by (intro Stops_udp) simp_all
  moreover have "proxy_ok (stop_udp_handlers ?q)" "px_stop (stop_udp_handlers ?q) = Stopping_udp"
    using proxy_step_ok [OF step keep(2)] by (simp_all add: stop_udp_handlers_def)
  ultimately show ?thesis using stop_from_udp keep(3) by (meson converse_rtranclp_into_rtranclp rtranclp_trans)
qed

text \<open>
  Whatever a proxy is doing, its stop can be completed: the listeners see that it ends, and the
  threads of both pools finish their jobs.
\<close>

text \<open>C24: Whatever a local proxy is doing, its stop can be completed: the listeners see that it
  ends, the threads of both pools finish their jobs, and everything is released.\<close>

theorem proxy_stop_completes:
  assumes "new_proxy inet router original port = Inr p0" "(proxy_step inet)\<^sup>*\<^sup>* p0 p"
  shows "\<exists>q. (proxy_step inet)\<^sup>*\<^sup>* (begin_stop_proxy p) q \<and> px_state q = Stopped \<and> released q"
proof -
  have ok: "proxy_ok p" by (rule proxy_reachable [OF assms])
  note ok' = begin_stop_ok [OF ok]
  show ?thesis
  proof (cases "px_stop (begin_stop_proxy p)")
    case No_stop
    then have "px_state (begin_stop_proxy p) = Stopped" by (auto simp: begin_stop_proxy_def split: if_splits)
    then show ?thesis using proxy_ok_stopped [OF ok'] by blast
  qed (use stop_from_listeners [OF ok'] stop_from_udp [OF ok'] stop_from_tcp [OF ok'] in blast)+
qed

section \<open>A stop as one call\<close>

text \<open>Between calls of its owner.\<close>

definition proxy_settled :: "proxy \<Rightarrow> bool" where
  "proxy_settled p \<longleftrightarrow> proxy_ok p \<and> px_stop p = No_stop"

lemma closing_drained: "closing_pool n c e \<Longrightarrow> closing_pool n c (e\<lparr>ex_active := [], ex_waiting := 0\<rparr>)"
  by (auto simp: closing_pool_def executor_ok_def)

lemma stop_local_proxy_outcome:
  assumes "proxy_settled p"
  shows "px_state (stop_local_proxy p) = Stopped \<and> released (stop_local_proxy p) \<and> proxy_settled (stop_local_proxy p)"
proof (cases "px_state p = Stopped")
  case True
  then show ?thesis using assms proxy_ok_stopped [of p] by (simp add: proxy_settled_def stop_local_proxy_def)
next
  case False
  let ?a = "(begin_stop_proxy p)\<lparr>px_loops := []\<rparr>"
  let ?b = "stop_udp_handlers ?a"
  let ?b' = "?b\<lparr>px_udp := (px_udp ?b)\<lparr>ex_active := [], ex_waiting := 0\<rparr>\<rparr>"
  let ?c = "stop_tcp_handlers ?b'"
  let ?c' = "?c\<lparr>px_tcp := (px_tcp ?c)\<lparr>ex_active := [], ex_waiting := 0\<rparr>, px_clients := []\<rparr>"
  have b: "proxy_ok (begin_stop_proxy p)" using assms by (intro begin_stop_ok) (simp add: proxy_settled_def)
  have "px_stop (begin_stop_proxy p) = Joining_listeners"
    using assms False by (simp add: proxy_settled_def begin_stop_proxy_def)
  note b = b this
  have "\<not> px_running (begin_stop_proxy p)" using b by (auto simp: proxy_ok_def held_def released_def)
  from threads_keep [OF listeners_end [OF this] b(1)] have a: "proxy_ok ?a" "px_stop ?a = Joining_listeners" "px_loops ?a = []"
    using b(2) by simp_all
  have ok_b: "proxy_ok ?b" by (rule stop_udp_ok [OF a])
  then have ok_b': "proxy_ok ?b'"
    using closing_drained [of 8 1024 "px_udp ?b"] ended_idle(10) [of "px_udp ?b"]
    by (auto simp: proxy_ok_def held_def released_def stop_udp_handlers_def)
  have ok_c: "proxy_ok ?c" by (rule stop_tcp_ok [OF ok_b']) (simp_all add: stop_udp_handlers_def)
  have c: "px_stop ?c = Stopping_tcp" "px_state ?c = Stopping" using ok_c by (simp_all add: stop_tcp_handlers_def proxy_ok_def)
  have "held ?c \<or> released ?c" using ok_c by (simp add: proxy_ok_def)
  then have "held ?c' \<or> released ?c'"
    using c closing_drained [of 16 128 "px_tcp ?c"] ended_idle(10) [of "px_tcp ?c"] by (auto simp: held_def released_def)
  moreover have "ex_jobs (px_tcp ?c') = []" by (simp add: stop_tcp_handlers_def begin_stop_executor_def)
  moreover have "distinct (px_loops ?c')" using ok_c by (simp add: proxy_ok_def)
  ultimately have ok_c': "proxy_ok ?c'" using c by (simp add: proxy_ok_def)
  have "stop_local_proxy p = end_stop_proxy ?c'" using False by (simp add: stop_local_proxy_def Let_def)
  moreover have "released (end_stop_proxy ?c')" "proxy_ok (end_stop_proxy ?c')"
    using end_stop_ok [OF ok_c'] c by simp_all
  ultimately show ?thesis by (simp add: proxy_settled_def end_stop_proxy_def)
qed

lemma thread_idle: "proxy_thread p p' \<Longrightarrow> \<not> released p"
  by (cases rule: proxy_thread.cases) (auto simp: released_def ended_idle)

text \<open>The proxy keeps the promises the host relies on, so every fact about the host holds of this mode too.\<close>

interpretation proxying: backend "local_proxy inet" proxy_settled proxy_thread for inet
proof
  fix p p' :: proxy and la la' :: proxy_launch and r :: "failure + unit" and r' :: "error + unit" and u c e
  show "pv_status (local_proxy inet la) = pv_status (local_proxy inet la')" by (simp add: local_proxy_def)
  show "proxy_settled p'" if "proxy_settled p" "pv_start (local_proxy inet la) p = (r, p')"
    using that start_proxy_ok [of p inet la r p'] proxy_start_outcome [of p inet la r p']
    by (auto simp: local_proxy_def proxy_settled_def launched_def split: if_splits sum.splits)
  show "provider_state (local_proxy inet la) p' = Running"
    if "proxy_settled p" "provider_state (local_proxy inet la) p = Stopped" "pv_start (local_proxy inet la) p = (Inr u, p')"
    using that proxy_start_outcome [of p inet la "Inr u" p']
    by (simp add: local_proxy_def proxy_status_def proxy_settled_def launched_def)
  show "fst (pv_start (local_proxy inet la) p) \<noteq> Inl Blocked" if "proxy_settled p"
    using that proxy_start_outcome [OF _ surjective_pairing, of p inet la]
    by (auto simp: local_proxy_def proxy_settled_def split: if_splits sum.splits)
  show "proxy_settled (pv_stop (local_proxy inet la) p) \<and>
      provider_state (local_proxy inet la) (pv_stop (local_proxy inet la) p) = Stopped" if "proxy_settled p"
    using stop_local_proxy_outcome [OF that] by (simp add: local_proxy_def proxy_status_def)
  show "proxy_settled (pv_cancel_pending (local_proxy inet la) p)" if "proxy_settled p"
    using that by (simp add: local_proxy_def proxy_settled_def cancel_proxy_def)
  show "proxy_settled p'" if "proxy_settled p" "pv_reload (local_proxy inet la) c p = (r', p')"
    using that by (auto simp: local_proxy_def proxy_settled_def reload_proxy_def split: sum.splits)
  show "p' = p" if "pv_reload (local_proxy inet la) c p = (Inl e, p')"
    using that by (auto simp: local_proxy_def reload_proxy_def split: sum.splits)
  show settled: "proxy_settled p'" if "proxy_settled p" "proxy_thread p p'"
    using that thread_stage [of p p'] proxy_thread_ok [of p p'] by (simp add: proxy_settled_def)
  show "provider_state (local_proxy inet la) p' = Stopped"
    if "proxy_settled p" "proxy_thread p p'" "provider_state (local_proxy inet la) p = Stopped"
    using that proxy_ok_stopped [of p] thread_idle [of p p']
    by (auto simp: local_proxy_def proxy_status_def proxy_settled_def)
qed

section \<open>A concrete proxy\<close>

text \<open>A default configuration with one plain server is valid if the server is.\<close>

lemma single_server_valid:
  assumes "validate_server inet s {} = Inr {srv_id s}" "srv_fallback_ids s = []"
  shows "validate inet (default_config\<lparr>cf_servers := [s]\<rparr>) = Inr ()"
proof -
  let ?c = "default_config\<lparr>cf_servers := [s]\<rparr>"
  have o: "\<exists>ro. runtime_options ?c = Inr ro"
    by (simp add: runtime_options_def bool_setting_def number_setting_def setting_def default_config_def empty_config_def)
  have n: "normalize_host (cf_test_target ?c) False = Inr ''iana.org''" by code_simp
  have v: "\<exists>x. visit (Suc (length (cf_servers ?c))) (server_map ?c) (srv_id s) ({}, {}) = Inr x"
    using assms(2) by (simp add: server_map_def)
  have r: "\<exists>x. foldE (validate_rule {srv_id s} (length (cf_rules ?c))) (cf_rules ?c) (0, {}) = Inr x"
    by (simp add: validate_rule_def default_config_def default_rule_def normalize_star enum_le_def)
  have c: "cf_schema_version ?c = 1" "cf_rules ?c \<noteq> []" "length (cf_rules ?c) \<le> 4096" "cf_test_concurrency ?c = 15"
    "enum_le (lg_screen (cf_logging ?c)) debug" "enum_le (lg_file (cf_logging ?c)) debug" "cf_servers ?c = [s]"
    by (simp_all add: default_config_def empty_config_def enum_le_def)
  show ?thesis
    using o n v r assms c unfolding validate_def
    by (auto simp del: visit.simps)
qed

definition sample_original :: server where
  "sample_original = sample_server\<lparr>srv_fallback_ids := []\<rparr>"

lemma sample_original_valid: "validate sample_inet (default_config\<lparr>cf_servers := [sample_original\<lparr>srv_id := 1\<rparr>]\<rparr>) = Inr ()"
proof (rule single_server_valid)
  have "parse_numeric_endpoint sample_inet ''192.0.2.1'' =
    Inr \<lparr>ne_address = ''192.0.2.1'', ne_scope6 = 0, ne_ipv6 = False\<rparr>" by code_simp
  then show "validate_server sample_inet (sample_original\<lparr>srv_id := 1\<rparr>) {} = Inr {srv_id (sample_original\<lparr>srv_id := 1\<rparr>)}"
    by (simp add: validate_server_def sample_original_def sample_server_def default_server_def)
qed (simp add: sample_original_def)

abbreviation sample_router :: router where
  "sample_router \<equiv> cp_router sample_capture"

lemma sample_proxy_made: "\<exists>p. new_proxy sample_inet sample_router sample_original 5353 = Inr p \<and> px_state p = Stopped \<and>
    px_requested p = 5353 \<and> px_router p = sample_router \<and> released p \<and> px_stop p = No_stop"
proof -
  have "srv_protocol sample_original = udp" "cf_servers default_config = []"
    by (simp_all add: sample_original_def sample_server_def default_server_def default_config_def empty_config_def)
  then show ?thesis
    using sample_original_valid
    by (simp add: new_proxy_def Let_def released_def ended_def)
qed

definition sample_proxy_launch :: proxy_launch where
  "sample_proxy_launch = \<lparr>pl_bind = (\<lambda>_. Bound), pl_random = (\<lambda>_. 0), pl_udp_spawn = None, pl_tcp_spawn = None,
     pl_loop_spawn = None\<rparr>"

lemma sample_proxy_starts:
  assumes "px_state p = Stopped" "px_requested p = 5353" "px_router p = sample_router" "released p"
  shows "fst (start_local_proxy sample_inet sample_proxy_launch p) = Inr ()"
proof -
  have "resume sample_inet sample_router = Inr sample_router" by (simp add: resume_def sample_capture_def)
  then show ?thesis
    using assms
    by (simp add: start_local_proxy_def proxy_stages_def bindA_def sample_proxy_launch_def start_executor_def
        released_def ended_def new_executor_def thrown_other_def Let_def)
qed

theorem proxy_invariant_witness:
  "\<exists>p. new_proxy sample_inet sample_router sample_original 5353 = Inr p \<and>
     serving (snd (start_local_proxy sample_inet sample_proxy_launch p)) \<and>
     set (px_loops (snd (start_local_proxy sample_inet sample_proxy_launch p))) = set all_listeners"
proof -
  obtain p where p: "new_proxy sample_inet sample_router sample_original 5353 = Inr p" "px_state p = Stopped"
    "px_requested p = 5353" "px_router p = sample_router" "released p" using sample_proxy_made by blast
  let ?q = "snd (start_local_proxy sample_inet sample_proxy_launch p)"
  have "(proxy_step sample_inet)\<^sup>*\<^sup>* p ?q" by (intro r_into_rtranclp Starts [OF surjective_pairing])
  from proxy_invariant [OF p(1) this]
  have "px_state ?q = Running \<longrightarrow> serving ?q \<and> set (px_loops ?q) = set all_listeners"
    by (cases "px_state ?q") simp_all
  moreover have "px_state ?q = Running"
    using proxy_start_outcome [OF _ surjective_pairing, of p sample_inet sample_proxy_launch]
      sample_proxy_starts [OF p(2-5)] new_proxy_ok [OF p(1)] by (auto simp: launched_def)
  ultimately show ?thesis using p(1) by blast
qed

theorem proxy_start_all_or_nothing_witness:
  "\<exists>p. new_proxy sample_inet sample_router sample_original 5353 = Inr p \<and>
     (let q = snd (start_local_proxy sample_inet sample_proxy_launch p) in
      px_state q = Running \<and> held q \<and> px_loops q = all_listeners)"
proof -
  obtain p where p: "new_proxy sample_inet sample_router sample_original 5353 = Inr p" "px_state p = Stopped"
    "px_requested p = 5353" "px_router p = sample_router" "released p" using sample_proxy_made by blast
  from proxy_start_all_or_nothing [OF p(1) rtranclp.rtrancl_refl surjective_pairing, of sample_proxy_launch]
    sample_proxy_starts [OF p(2-5)] p(1,2)
  show ?thesis by (auto simp: Let_def)
qed

theorem proxy_stop_completes_witness:
  "\<exists>p q. new_proxy sample_inet sample_router sample_original 5353 = Inr p \<and>
     (proxy_step sample_inet)\<^sup>*\<^sup>* (begin_stop_proxy (snd (start_local_proxy sample_inet sample_proxy_launch p))) q \<and>
     px_state q = Stopped"
proof -
  obtain p where p: "new_proxy sample_inet sample_router sample_original 5353 = Inr p" using sample_proxy_made by blast
  have "(proxy_step sample_inet)\<^sup>*\<^sup>* p (snd (start_local_proxy sample_inet sample_proxy_launch p))"
    by (intro r_into_rtranclp Starts [OF surjective_pairing])
  from proxy_stop_completes [OF p this] p show ?thesis by blast
qed

end
