(* ===== verification/Nft_Facts.thy ===== *)
theory Nft_Facts
  imports Local_Proxy_Facts Log_Stream_Facts
begin

text \<open>
  The transparent interception of Linux: the resolver it falls back to, its invariant, its start, and
  the host that runs it.
\<close>

section \<open>The resolver of the system\<close>

text \<open>The nameservers of a file that are acceptable, in their order.\<close>

definition file_resolvers :: "inet \<Rightarrow> files \<Rightarrow> string \<Rightarrow> string list" where
  "file_resolvers inet files path =
     (case files path of None \<Rightarrow> [] | Some text \<Rightarrow>
        List.map_filter (resolver_of_line inet False) (split_on (CHR 0x0A) text))"

lemma read_resolver_ip:
  "srv_ip (read_resolver_file inet files path False) =
     (case file_resolvers inet files path of [] \<Rightarrow> [] | value # _ \<Rightarrow> value)"
  by (simp add: read_resolver_file_def file_resolvers_def Let_def default_server_def List.map_filter_simps
      split: option.split list.split)

lemma resolver_of_line_Some:
  "resolver_of_line inet False line = Some value \<Longrightarrow> is_numeric_ip inet value \<and> \<not> is_loopback_resolver value"
  by (auto simp: resolver_of_line_def split: prod.splits if_splits)

lemma file_resolvers_acceptable:
  "value \<in> set (file_resolvers inet files path) \<Longrightarrow> is_numeric_ip inet value \<and> \<not> is_loopback_resolver value"
  using resolver_of_line_Some
  by (auto simp: file_resolvers_def List.map_filter_def split: option.splits)

text \<open>
  The original resolver is the first acceptable nameserver of the first file that has one, otherwise
  1.1.1.1; it is plain DNS on port 53 and never the stub of the machine itself, to which queries
  that bypass would come back.  (The empty address is assumed not to be numeric.)
\<close>

text \<open>C39: The original resolver on Linux is the first acceptable nameserver of the first file
  that has one, otherwise 1.1.1.1; it is plain DNS on port 53 and never one of the addresses
  of the local stub.\<close>

theorem system_resolver_choice:
  assumes "\<not> is_numeric_ip inet []"
  shows "srv_ip (system_resolver inet files) =
      hd (concat (map (file_resolvers inet files) resolver_paths) @ [''1.1.1.1'']) \<and>
    \<not> is_loopback_resolver (srv_ip (system_resolver inet files)) \<and>
    srv_protocol (system_resolver inet files) = udp \<and> srv_port (system_resolver inet files) = 53"
proof -
  have resolver: "srv_ip (read_resolver_file inet files path False) = [] \<longleftrightarrow> file_resolvers inet files path = []"
    "file_resolvers inet files path \<noteq> [] \<Longrightarrow>
       srv_ip (read_resolver_file inet files path False) = hd (file_resolvers inet files path) \<and>
       srv_protocol (read_resolver_file inet files path False) = udp \<and>
       srv_port (read_resolver_file inet files path False) = 53" for path
  proof -
    show "srv_ip (read_resolver_file inet files path False) = [] \<longleftrightarrow> file_resolvers inet files path = []"
      using file_resolvers_acceptable [of "[]" inet files path] assms
      by (auto simp: read_resolver_ip split: list.split)
    show "file_resolvers inet files path \<noteq> [] \<Longrightarrow>
       srv_ip (read_resolver_file inet files path False) = hd (file_resolvers inet files path) \<and>
       srv_protocol (read_resolver_file inet files path False) = udp \<and>
       srv_port (read_resolver_file inet files path False) = 53"
      by (auto simp: read_resolver_file_def file_resolvers_def Let_def List.map_filter_simps split: option.splits list.splits)
  qed
  have choice: "srv_ip (case find (\<lambda>server. srv_ip server \<noteq> []) (map (\<lambda>path. read_resolver_file inet files path False) paths) of
        Some server \<Rightarrow> server | None \<Rightarrow> fallback) =
      hd (concat (map (file_resolvers inet files) paths) @ [srv_ip fallback]) \<and>
    srv_protocol (case find (\<lambda>server. srv_ip server \<noteq> []) (map (\<lambda>path. read_resolver_file inet files path False) paths) of
        Some server \<Rightarrow> server | None \<Rightarrow> fallback) = udp \<and>
    srv_port (case find (\<lambda>server. srv_ip server \<noteq> []) (map (\<lambda>path. read_resolver_file inet files path False) paths) of
        Some server \<Rightarrow> server | None \<Rightarrow> fallback) = 53"
    if "srv_protocol fallback = udp" "srv_port fallback = 53" for paths fallback
    using that by (induction paths) (auto simp: resolver hd_append)
  have first: "srv_ip (system_resolver inet files) =
      hd (concat (map (file_resolvers inet files) resolver_paths) @ [''1.1.1.1''])"
    "srv_protocol (system_resolver inet files) = udp" "srv_port (system_resolver inet files) = 53"
    using choice [of "default_server\<lparr>srv_id := 1, srv_name := ''Fallback resolver'', srv_protocol := udp,
            srv_ip := ''1.1.1.1'', srv_port := 53, srv_timeout_ms := 3000\<rparr>" resolver_paths]
    by (simp_all add: system_resolver_def)
  moreover have "hd (concat (map (file_resolvers inet files) resolver_paths) @ [''1.1.1.1'']) \<in>
      set (concat (map (file_resolvers inet files) resolver_paths) @ [''1.1.1.1''])" by (rule hd_in_set) simp
  then have "\<not> is_loopback_resolver (hd (concat (map (file_resolvers inet files) resolver_paths) @ [''1.1.1.1'']))"
    using file_resolvers_acceptable by (auto simp: is_loopback_resolver_def)
  ultimately show ?thesis by simp
qed

text \<open>A stub in front of the real nameserver, and a comment: the second one is taken.\<close>

abbreviation sample_resolv_lines :: "string list" where
  "sample_resolv_lines \<equiv> [''# stub'', ''nameserver 127.0.0.53'', ''nameserver 192.0.2.1'']"

definition sample_resolv :: files where
  "sample_resolv = [''/etc/resolv.conf'' \<mapsto> concat (map (\<lambda>l. l @ [CHR 0x0A]) sample_resolv_lines)]"

lemma sample_resolv_split:
  "split_on (CHR 0x0A) (concat (map (\<lambda>l. l @ [CHR 0x0A]) sample_resolv_lines)) = sample_resolv_lines @ [[]]"
  by (rule split_lines) auto

lemma sample_file_resolvers:
  "file_resolvers sample_inet sample_resolv path = (if path = ''/etc/resolv.conf'' then [''192.0.2.1''] else [])"
proof -
  have "resolver_of_line sample_inet False ''# stub'' = None"
    "resolver_of_line sample_inet False ''nameserver 127.0.0.53'' = None"
    "resolver_of_line sample_inet False ''nameserver 192.0.2.1'' = Some ''192.0.2.1''"
    "resolver_of_line sample_inet False [] = None" by code_simp+
  then have "List.map_filter (resolver_of_line sample_inet False) (sample_resolv_lines @ [[]]) = [''192.0.2.1'']"
    by (simp add: List.map_filter_simps)
  then have "file_resolvers sample_inet sample_resolv ''/etc/resolv.conf'' = [''192.0.2.1'']"
    by (simp only: file_resolvers_def sample_resolv_def fun_upd_same option.case sample_resolv_split)
  moreover have "file_resolvers sample_inet sample_resolv path = []" if "path \<noteq> ''/etc/resolv.conf''"
    using that by (simp add: file_resolvers_def sample_resolv_def)
  ultimately show ?thesis by simp
qed

theorem system_resolver_choice_witness: "srv_ip (system_resolver sample_inet sample_resolv) = ''192.0.2.1''"
proof -
  have "\<not> is_numeric_ip sample_inet []" by code_simp
  from system_resolver_choice [OF this, of sample_resolv] show ?thesis
    by (simp add: sample_file_resolvers resolver_paths_def)
qed

section \<open>The invariant\<close>

definition redirects :: "16 word \<Rightarrow> (bool \<times> 16 word) list" where
  "redirects port = [(True, port), (False, port)]"

text \<open>
  The redirection of a running interception leads to its proxy; otherwise there is none.  This
  needs that \<open>nft\<close> can delete what it has added: \<open>reliable True\<close> of what the system answers.
\<close>

definition rules_ok :: "nft \<Rightarrow> bool" where
  "rules_ok n \<longleftrightarrow>
     nf_rules n = (if is_state (nf_status n) = Running then redirects (px_port (nf_proxy n)) else [])"

definition nft_ok :: "bool \<Rightarrow> nft \<Rightarrow> bool" where
  "nft_ok works n \<longleftrightarrow>
     proxy_settled (nf_proxy n) \<and>
     (is_state (nf_status n) = Running \<longrightarrow> held (nf_proxy n) \<and> is_port (nf_status n) = px_port (nf_proxy n)) \<and>
     (is_state (nf_status n) \<noteq> Running \<longrightarrow> released (nf_proxy n)) \<and>
     (is_state (nf_status n) = Stopped \<longrightarrow> px_state (nf_proxy n) = Stopped) \<and>
     (works \<longrightarrow> rules_ok n)"

definition reliable :: "bool \<Rightarrow> nft_launch \<times> bool \<Rightarrow> nft_launch \<times> bool" where
  "reliable works system =
     (if works then ((fst system)\<lparr>nl_delete := (True, True)\<rparr>, True) else system)"

section \<open>Start\<close>

definition nft_started :: "bool \<Rightarrow> nft \<Rightarrow> bool" where
  "nft_started works n \<longleftrightarrow>
     launched (nf_proxy n) \<and> is_state (nf_status n) = Running \<and> is_port (nf_status n) = px_port (nf_proxy n) \<and>
     (works \<longrightarrow> nf_rules n = redirects (px_port (nf_proxy n)))"

definition nft_undone :: "bool \<Rightarrow> nft \<Rightarrow> bool" where
  "nft_undone works n \<longleftrightarrow>
     proxy_settled (nf_proxy n) \<and> released (nf_proxy n) \<and> is_state (nf_status n) = Starting \<and>
     (works \<longrightarrow> nf_rules n = [])"

lemma install_rules_outcome:
  assumes "launched (nf_proxy n)" "is_state (nf_status n) = Starting" "install_rules la n = (r, n')"
    and "works \<longrightarrow> nl_delete la = (True, True)"
  shows "case r of
      Inr _ \<Rightarrow> nf_proxy n' = nf_proxy n \<and> (works \<longrightarrow> nf_rules n' = redirects (px_port (nf_proxy n)))
    | Inl e \<Rightarrow> e \<noteq> Blocked \<and> nft_undone works n'"
proof -
  have "proxy_settled (nf_proxy n)" using assms(1) launched_ok by (simp add: launched_def proxy_settled_def)
  note stop = stop_local_proxy_outcome [OF this]
  show ?thesis
    using assms(2-4) stop
    by (auto simp: install_rules_def Let_def delete_rules_def proxy_status_def redirects_def nft_undone_def
        split: option.splits)
qed

lemma log_then_proxy: "n\<lparr>nf_proxy := q, nf_log := logs\<rparr> = n\<lparr>nf_log := logs, nf_proxy := q\<rparr>"
  by (cases n) simp

lemma nft_stages_outcome:
  assumes "proxy_settled (nf_proxy n)" "px_state (nf_proxy n) = Stopped" "is_state (nf_status n) = Starting"
    and "works \<longrightarrow> nf_rules n = []" "works \<longrightarrow> nl_delete la = (True, True)" "nft_stages inet la n = (r, n')"
  shows "case r of Inr _ \<Rightarrow> nft_started works n' | Inl e \<Rightarrow> e \<noteq> Blocked \<and> nft_undone works n'"
proof -
  have "proxy_ok (nf_proxy n)" "released (nf_proxy n)"
    using assms(1,2) proxy_ok_stopped by (auto simp: proxy_settled_def)
  note p = this
  then have undone: "nft_undone works (n\<lparr>nf_log := logs\<rparr>)" for logs
    using assms(1,3,4) by (simp add: nft_undone_def)
  note defs = nft_stages_def bindA_def nft_require_def nft_note_def nft_log_def thrown_def requireE_def
    nft_unsupported_def start_nft_proxy_def
  show ?thesis
  proof (cases "runtime_options (rt_config (px_router (nf_proxy n)))")
    case (Inl e)
    then show ?thesis using assms(6) undone [of "nf_log n"] by (auto simp: nft_stages_def)
  next
    case options: (Inr options)
    show ?thesis
    proof (cases "ro_intercept_others options \<or> ro_block_tcp53 options \<or> \<not> nl_root la \<or> \<not> nl_found la")
      case True
      then show ?thesis using assms(6) options undone undone [of "nf_log n"] by (auto simp: defs split: if_splits)
    next
      case False
      obtain rp q where q: "start_local_proxy inet (nl_proxy la) (nf_proxy n) = (rp, q)" by fastforce
      note started = proxy_start_outcome [OF p(1) q]
      show ?thesis
      proof (cases rp)
        case (Inl e)
        then have "e \<noteq> Blocked" "released q" "proxy_settled q"
          using started assms(2) start_proxy_ok [OF p(1) q] by (auto simp: proxy_settled_def)
        then show ?thesis
          using assms(3,4,6) options False q Inl by (auto simp: defs nft_undone_def split: if_splits)
      next
        case (Inr u)
        then have q': "launched q" "px_port q \<noteq> 0" using started assms(2) by (auto simp: launched_def held_def)
        define logs where "logs = nf_log n @
          (if ro_captive_portal_detection options
           then [Log_write errors_only ''CAPTIVE_PORTAL_UNAVAILABLE'' ''Linux does not provide a captive portal detection source'']
           else []) @
          [Log_write verbose ''LINUX_PRIVILEGES'' ''Transparent interception privilege check passed'',
           Log_write verbose ''NFT_AVAILABLE'' ''nftables executable found'']"
        have logs: "nft_stages inet la n =
          bindA (install_rules la) (\<lambda>_ n.
            let port = is_port (proxy_status (nf_proxy n)) in
            nft_note normal ''LINUX_INTERCEPTION'' (''nftables redirect active; local_port='' @ to_string (unat port))
              (n\<lparr>nf_status := \<lparr>is_state = Running, is_port = port, is_transparent = True, is_udp = True, is_tcp = True,
                 is_error_code = [], is_error_message = []\<rparr>\<rparr>)) (n\<lparr>nf_log := logs, nf_proxy := q\<rparr>)"
          using options False q Inr q'(2)
          by (cases "ro_captive_portal_detection options") (simp_all add: defs proxy_status_def logs_def log_then_proxy)
        obtain ri m where m: "install_rules la (n\<lparr>nf_log := logs, nf_proxy := q\<rparr>) = (ri, m)" by fastforce
        from install_rules_outcome [OF _ _ m assms(5)] q'(1) assms(3)
        show ?thesis using assms(6) logs m
          by (cases ri) (auto simp: bindA_def Let_def nft_note_def nft_log_def proxy_status_def nft_started_def)
      qed
    qed
  qed
qed

lemma nft_start_outcome:
  assumes "nft_ok works n" "works \<longrightarrow> nl_delete la = (True, True)" "start_nft inet la n = (r, n')"
  shows "if is_state (nf_status n) \<noteq> Stopped
    then r = Inl (Threw (Error ''LIFECYCLE'' ''Linux interception is not stopped'')) \<and> n' = n
    else case r of
      Inr _ \<Rightarrow> nft_started works n'
    | Inl e \<Rightarrow> e \<noteq> Blocked \<and> proxy_settled (nf_proxy n') \<and> released (nf_proxy n') \<and> (works \<longrightarrow> nf_rules n' = []) \<and>
        (case e of
           Threw x \<Rightarrow> is_state (nf_status n') = Failed \<and> is_error_code (nf_status n') = err_code x \<and>
             is_error_message (nf_status n') = err_msg x
         | _ \<Rightarrow> is_state (nf_status n') = Starting)"
proof (cases "is_state (nf_status n) = Stopped")
  case True
  let ?n = "n\<lparr>nf_status := (nf_status n)\<lparr>is_state := Starting\<rparr>\<rparr>"
  obtain r1 n1 where st: "nft_stages inet la ?n = (r1, n1)" by fastforce
  have "case r1 of Inr _ \<Rightarrow> nft_started works n1 | Inl e \<Rightarrow> e \<noteq> Blocked \<and> nft_undone works n1"
    by (rule nft_stages_outcome [OF _ _ _ _ assms(2) st])
      (use assms(1) True in \<open>simp_all add: nft_ok_def rules_ok_def\<close>)
  then show ?thesis
    using assms(3) True st
    by (cases r1) (auto simp: start_nft_def nft_undone_def split: failure.splits)
qed (use assms(3) in \<open>simp add: start_nft_def\<close>)

lemma nft_started_ok: "nft_started works n \<Longrightarrow> nft_ok works n"
  using launched_ok [of "nf_proxy n"]
  by (simp add: nft_started_def nft_ok_def launched_def proxy_settled_def rules_ok_def)

lemma start_nft_ok:
  assumes "nft_ok works n" "works \<longrightarrow> nl_delete la = (True, True)" "start_nft inet la n = (r, n')"
  shows "nft_ok works n'"
  using nft_start_outcome [OF assms] assms(1) nft_started_ok [of works n']
  by (auto simp: nft_ok_def rules_ok_def split: if_splits sum.splits failure.splits)

lemma stop_nft_ok:
  assumes "nft_ok works n" "works \<longrightarrow> deleted"
  shows "nft_ok works (stop_nft deleted n) \<and> is_state (nf_status (stop_nft deleted n)) = Stopped"
proof (cases "is_state (nf_status n) = Stopped")
  case True
  then show ?thesis using assms(1) by (simp add: stop_nft_def)
next
  case False
  have "proxy_settled (nf_proxy n)" using assms(1) by (simp add: nft_ok_def)
  from stop_local_proxy_outcome [OF this] show ?thesis
    using False assms(2)
    by (auto simp: stop_nft_def Let_def delete_rules_def nft_ok_def rules_ok_def default_status_def)
qed

lemma new_nft_ok: "new_nft inet files intercepted config = Inr n \<Longrightarrow> nft_ok works n \<and> is_state (nf_status n) = Stopped"
  using new_proxy_ok
  by (auto simp: new_nft_def Let_def nft_log_def nft_ok_def proxy_settled_def default_status_def rules_ok_def new_proxy_def
      released_def ended_def new_executor_def)

section \<open>The host over this backend\<close>

text \<open>What the threads of the proxy do, seen from the interception.\<close>

definition nft_moves :: "nft \<Rightarrow> nft \<Rightarrow> bool" where
  "nft_moves n n' \<longleftrightarrow> (\<exists>p'. proxy_thread (nf_proxy n) p' \<and> n' = n\<lparr>nf_proxy := p'\<rparr>)"

lemma thread_held:
  assumes "proxy_thread p p'" "proxy_settled p"
  shows "held p' \<and> px_port p' = px_port p \<and> proxy_settled p'"
proof -
  have ok: "proxy_settled p'"
    using assms thread_stage [of p p'] proxy_thread_ok [of p p'] by (simp add: proxy_settled_def)
  have port: "px_port p' = px_port p"
    using assms(1)
  proof cases
    case (Listens_udp l input goes_on q)
    then show ?thesis
      by (auto simp: udp_event_def listener_failed_def proxy_log_def proxy_effect_of_def
          split: if_splits udp_input.splits prod.splits bool.splits)
  next
    case (Listens_tcp l input goes_on q)
    then show ?thesis
      by (auto simp: tcp_event_def Let_def listener_failed_def proxy_log_def proxy_effect_of_def
          split: if_splits tcp_input.splits prod.splits bool.splits)
  next
    case (Answers_udp i query e env sends)
    then show ?thesis using handle_udp_only [of p env sends query] by (auto simp: effects_only_def)
  next
    case (Answers_tcp i fd e w timeout running_then input)
    then show ?thesis using handle_client_only [of p w timeout running_then fd input] by (auto simp: effects_only_def)
  qed simp_all
  have "held p" using assms thread_idle [OF assms(1)] by (auto simp: proxy_settled_def proxy_ok_def)
  then have "px_port p' \<noteq> 0" using port by (simp add: held_def)
  then have "\<not> released p'" by (simp add: released_def)
  then show ?thesis using ok port by (auto simp: proxy_settled_def proxy_ok_def)
qed

lemma nft_moves_ok:
  assumes "nft_moves n n'" "nft_ok works n"
  shows "nft_ok works n' \<and> nf_status n' = nf_status n \<and> is_state (nf_status n) = Running"
proof -
  obtain p' where p': "proxy_thread (nf_proxy n) p'" "n' = n\<lparr>nf_proxy := p'\<rparr>" using assms(1) by (auto simp: nft_moves_def)
  have running: "is_state (nf_status n) = Running"
    using thread_idle [OF p'(1)] assms(2) by (auto simp: nft_ok_def)
  moreover have "proxy_settled (nf_proxy n)" using assms(2) by (simp add: nft_ok_def)
  ultimately show ?thesis
    using assms(2) p' thread_held [OF p'(1)] by (auto simp: nft_ok_def rules_ok_def)
qed

interpretation redirecting: backend "\<lambda>l. linux_nft inet (reliable works l)" "nft_ok works" nft_moves for inet works
proof
  fix n n' :: nft and l l' :: "nft_launch \<times> bool" and r :: "failure + unit" and r' :: "error + unit" and u c e
  let ?p = "\<lambda>l. linux_nft inet (reliable works l)"
  obtain la deleted where l: "reliable works l = (la, deleted)" by fastforce
  then have works: "works \<longrightarrow> nl_delete la = (True, True)" "works \<longrightarrow> deleted"
    by (auto simp: reliable_def split: if_splits)
  show "pv_status (?p l) = pv_status (?p l')" by (simp add: linux_nft_def split: prod.split)
  show "nft_ok works n'" if "nft_ok works n" "pv_start (?p l) n = (r, n')"
    using that start_nft_ok [OF _ works(1)] by (simp add: linux_nft_def l)
  show "provider_state (?p l) n' = Running"
    if "nft_ok works n" "provider_state (?p l) n = Stopped" "pv_start (?p l) n = (Inr u, n')"
    using that nft_start_outcome [OF that(1) works(1), of inet "Inr u" n'] by (simp add: linux_nft_def l nft_started_def)
  show "fst (pv_start (?p l) n) \<noteq> Inl Blocked" if "nft_ok works n"
    using nft_start_outcome [OF that works(1) surjective_pairing, of inet]
    by (auto simp: linux_nft_def l split: if_splits sum.splits)
  show "nft_ok works (pv_stop (?p l) n) \<and> provider_state (?p l) (pv_stop (?p l) n) = Stopped" if "nft_ok works n"
    using stop_nft_ok [OF that works(2)] by (simp add: linux_nft_def l)
  show "nft_ok works (pv_cancel_pending (?p l) n)" if "nft_ok works n"
    using that by (simp add: linux_nft_def l cancel_nft_def cancel_proxy_def nft_ok_def rules_ok_def proxy_settled_def
        held_def released_def)
  show "nft_ok works n'" if "nft_ok works n" "pv_reload (?p l) c n = (r', n')"
    using that by (auto simp: linux_nft_def l reload_nft_def reload_proxy_def nft_ok_def rules_ok_def proxy_settled_def
        held_def released_def split: sum.splits)
  show "n' = n" if "pv_reload (?p l) c n = (Inl e, n')"
    using that by (cases n) (auto simp: linux_nft_def l reload_nft_def reload_proxy_def split: sum.splits)
  show "nft_ok works n'" if "nft_ok works n" "nft_moves n n'"
    using nft_moves_ok that by blast
  show "provider_state (?p l) n' = Stopped" if "nft_ok works n" "nft_moves n n'" "provider_state (?p l) n = Stopped"
    using nft_moves_ok [OF that(2,1)] that(3) by (simp add: linux_nft_def l)
qed

lemma linux_host_reachable:
  assumes "new_host env (new_nft (he_inet env) resolv port) summary executable working_directory files config True path = Inr h0"
    and "(host_step (he_inet env) (he_files env) (\<lambda>l. linux_nft (he_inet env) (reliable True l)) nft_moves)\<^sup>*\<^sup>* h0 h"
  shows "host_ok (he_inet env) (he_files env) files (\<lambda>l. linux_nft (he_inet env) (reliable True l)) (nft_ok True) h"
  using assms(2)
proof (induction rule: rtranclp_induct)
  case base
  show ?case using assms(1)
  proof (rule redirecting.new_host_ok)
    show "nft_ok True i \<and> (\<forall>l. provider_state (linux_nft (he_inet env) (reliable True l)) i = Stopped)"
      if "new_nft (he_inet env) resolv port c = Inr i" for c i
      using new_nft_ok [OF that] by (simp add: linux_nft_def split: prod.split)
  qed
next
  case (step h h')
  then show ?case using redirecting.host_step_ok by blast
qed

text \<open>
  Whatever the host of a Linux machine does, as long as \<open>nft\<close> can delete its rules: the DNS of the
  machine is redirected exactly while the interception runs, to the port on which the sockets
  of the proxy are open; a stopped host has no redirection and no socket.
\<close>

text \<open>C14: Whatever callers, ticks and threads do on Linux, as long as nft can delete its rules,
  the DNS of the machine is redirected exactly while the interception runs, to the port on
  which the proxy has its sockets open; a stopped host has no redirection and no socket.\<close>

theorem linux_redirection_safe:
  assumes "new_host env (new_nft (he_inet env) resolv port) summary executable working_directory files config True path = Inr h0"
    and "(host_step (he_inet env) (he_files env) (\<lambda>l. linux_nft (he_inet env) (reliable True l)) nft_moves)\<^sup>*\<^sup>* h0 h"
  shows "(if is_state (nf_status (ho_provider h)) = Running
      then nf_rules (ho_provider h) = redirects (px_port (nf_proxy (ho_provider h))) \<and> held (nf_proxy (ho_provider h))
      else nf_rules (ho_provider h) = [] \<and> released (nf_proxy (ho_provider h))) \<and>
    (ho_stopped h \<longrightarrow> all_down h \<and> is_state (nf_status (ho_provider h)) = Stopped)"
  using linux_host_reachable [OF assms]
  by (auto simp: host_ok_def nft_ok_def rules_ok_def linux_nft_def split: prod.splits)

text \<open>A start of the host on Linux ends with everything running, or with nothing held and the error.\<close>

theorem linux_start_all_or_nothing:
  assumes "new_host env (new_nft (he_inet env) resolv port) summary executable working_directory files config True path = Inr h0"
    and "(host_step (he_inet env) (he_files env) (\<lambda>l. linux_nft (he_inet env) (reliable True l)) nft_moves)\<^sup>*\<^sup>* h0 h"
    and "he_inet env' = he_inet env" "he_files env' = he_files env"
    and "Failed_start [] \<notin> {he_command env', he_logs env', he_shutdown env'}"
    and "host_start env' (linux_nft (he_inet env) (reliable True l)) h = (r, h')"
  shows "if is_state (nf_status (ho_provider h)) \<noteq> Stopped
    then r = Inl (Threw (Error ''LIFECYCLE'' ''Core is not stopped'')) \<and> h' = h
    else case r of
      Inr _ \<Rightarrow> all_up h' \<and> nf_rules (ho_provider h') = redirects (px_port (nf_proxy (ho_provider h'))) \<and>
        held (nf_proxy (ho_provider h')) \<and> \<not> ho_stopped h'
    | Inl _ \<Rightarrow> all_down h' \<and> nf_rules (ho_provider h') = [] \<and> released (nf_proxy (ho_provider h')) \<and>
        ho_stopped h' \<and> ho_shutdown_requested h'"
proof -
  have state: "provider_state (linux_nft inet x) n = is_state (nf_status n)" for inet x n
    by (simp add: linux_nft_def split: prod.split)
  note ok = linux_host_reachable [OF assms(1,2), folded assms(3,4)]
  have ok': "nft_ok True (ho_provider h')"
    using redirecting.host_start_ok [OF ok] assms(3,6) by (auto simp: host_ok_def)
  show ?thesis
  proof (cases "is_state (nf_status (ho_provider h)) = Stopped")
    case True
    from redirecting.start_outcome [OF ok, of l r h'] True assms(3,5,6) ok' show ?thesis
      by (cases r) (auto simp: state nft_ok_def rules_ok_def)
  next
    case False
    then show ?thesis using assms(6) by (auto simp: host_start_def state)
  qed
qed

text \<open>
  What the host does not see: when a listener fails, the proxy says so, but the status the host
  watches still says that the interception runs.
\<close>

lemma listener_failure_unseen:
  assumes "nft_started works n"
  shows "\<exists>n'. nft_moves n n' \<and> px_state (nf_proxy n') = Failed \<and> is_state (nf_status n') = Running"
proof -
  let ?p = "nf_proxy n"
  have p: "px_running ?p" "Udp4 \<in> set (px_loops ?p)" "is_state (nf_status n) = Running"
    using assms by (simp_all add: nft_started_def launched_def held_def)
  obtain q where q: "udp_event Udp4 Udp_poll_failed ?p = (False, q)" "px_state q = Failed"
    using p(1) by (simp add: udp_event_def listener_failed_def)
  from Listens_udp [OF p(2) _ q(1)] q(2) p(3) show ?thesis
    unfolding nft_moves_def by fastforce
qed

section \<open>A concrete host on Linux\<close>

lemma read_resolver_file_eq:
  "read_resolver_file inet files path False =
     (case file_resolvers inet files path of
        [] \<Rightarrow> default_server
      | value # _ \<Rightarrow>
          default_server\<lparr>srv_id := 1, srv_name := ''System resolver from '' @ path, srv_protocol := udp,
            srv_ip := value, srv_port := 53, srv_timeout_ms := 3000\<rparr>)"
  by (simp add: read_resolver_file_def file_resolvers_def Let_def List.map_filter_simps split: option.split)

lemma sample_resolver:
  "system_resolver sample_inet sample_resolv =
     default_server\<lparr>srv_id := 1, srv_name := ''System resolver from /etc/resolv.conf'', srv_protocol := udp,
       srv_ip := ''192.0.2.1'', srv_port := 53, srv_timeout_ms := 3000\<rparr>"
  by (simp add: system_resolver_def resolver_paths_def read_resolver_file_eq sample_file_resolvers default_server_def)

lemma sample_nft_made:
  "\<exists>n. new_nft sample_inet sample_resolv 53 (with_bootstrap True sample_config) = Inr n"
proof -
  have valid: "validate sample_inet (default_config\<lparr>cf_servers := [system_resolver sample_inet sample_resolv]\<rparr>) = Inr ()"
  proof (rule single_server_valid)
    have "parse_numeric_endpoint sample_inet ''192.0.2.1'' =
      Inr \<lparr>ne_address = ''192.0.2.1'', ne_scope6 = 0, ne_ipv6 = False\<rparr>" by code_simp
    then show "validate_server sample_inet (system_resolver sample_inet sample_resolv) {} =
        Inr {srv_id (system_resolver sample_inet sample_resolv)}"
      by (simp add: validate_server_def sample_resolver default_server_def)
  qed (simp add: sample_resolver default_server_def)
  have "(system_resolver sample_inet sample_resolv)\<lparr>srv_id := 1\<rparr> = system_resolver sample_inet sample_resolv"
    by (simp add: sample_resolver)
  moreover have "\<exists>options. runtime_options (with_bootstrap True sample_config) = Inr options"
    using sample_options by (simp add: with_bootstrap_def runtime_flagged)
  moreover have "srv_protocol (system_resolver sample_inet sample_resolv) = udp" "cf_servers default_config = []"
    by (simp_all add: sample_resolver default_config_def empty_config_def)
  ultimately show ?thesis
    using valid sample_valid by (auto simp: new_nft_def new_proxy_def Let_def)
qed

abbreviation sample_linux_host :: "failure + nft host" where
  "sample_linux_host \<equiv> new_host sample_host_env (new_nft (he_inet sample_host_env) sample_resolv 53) ''summary''
     ''NativeDNS'' ''directory'' no_files sample_config True ''config.xml''"

lemma sample_linux_host_made: "\<exists>h0. sample_linux_host = Inr h0 \<and> is_state (nf_status (ho_provider h0)) = Stopped"
proof -
  obtain n where n: "new_nft sample_inet sample_resolv 53 (with_bootstrap True sample_config) = Inr n"
    using sample_nft_made by blast
  then have "is_state (nf_status n) = Stopped" using new_nft_ok by blast
  with new_host_succeeds [where env = sample_host_env and create = "new_nft sample_inet sample_resolv 53"
      and config = sample_config and i = n and transparent = True] n sample_valid
  show ?thesis by fastforce
qed

theorem linux_redirection_safe_witness:
  "\<exists>h0. sample_linux_host = Inr h0 \<and> nf_rules (ho_provider h0) = [] \<and> released (nf_proxy (ho_provider h0))"
proof -
  obtain h0 where h0: "sample_linux_host = Inr h0" "is_state (nf_status (ho_provider h0)) = Stopped"
    using sample_linux_host_made by blast
  from linux_redirection_safe [OF h0(1) rtranclp.rtrancl_refl] h0 show ?thesis by simp
qed

definition sample_nft_launch :: nft_launch where
  "sample_nft_launch = \<lparr>nl_root = True, nl_found = True, nl_proxy = sample_proxy_launch, nl_script = (\<lambda>_. None),
     nl_delete = (True, True)\<rparr>"

theorem linux_start_all_or_nothing_witness:
  "\<exists>h0. sample_linux_host = Inr h0 \<and>
     (let h = snd (host_start sample_host_env (linux_nft sample_inet (reliable True (sample_nft_launch, True))) h0) in
      all_down h \<and> nf_rules (ho_provider h) = [] \<and> released (nf_proxy (ho_provider h)) \<and> ho_stopped h)"
proof -
  obtain h0 where h0: "sample_linux_host = Inr h0" "is_state (nf_status (ho_provider h0)) = Stopped"
    using sample_linux_host_made by blast
  let ?p = "linux_nft sample_inet (reliable True (sample_nft_launch, True))"
  let ?h = "h0\<lparr>ho_shutdown_requested := False, ho_restart_requested := False, ho_stopped := False\<rparr>"
  obtain x where "fst (start_stages sample_host_env ?p ?h) = Inl x" using sample_start_fails [of ?p ?h] by blast
  then have "\<exists>h. start_stages sample_host_env ?p ?h = (Inl x, h)" by (metis prod.collapse)
  then have "\<exists>e. fst (host_start sample_host_env ?p h0) = Inl e"
    using h0(2) by (cases x) (auto simp: host_start_def linux_nft_def split: prod.splits)
  then obtain e where "fst (host_start sample_host_env ?p h0) = Inl e" by blast
  with linux_start_all_or_nothing [OF h0(1) rtranclp.rtrancl_refl refl refl _ surjective_pairing,
      of "(sample_nft_launch, True)"] h0
  show ?thesis by (simp add: Let_def)
qed

end
