(* ===== verification/Proxy_Answers.thy ===== *)
theory Proxy_Answers
  imports Local_Proxy_Facts
begin

text \<open>What the clients of the local proxy are answered, over UDP and over TCP.\<close>

section \<open>UDP\<close>

fun sent_datagrams :: "proxy_effect list \<Rightarrow> (listener \<times> packet \<times> peer) list" where
  "sent_datagrams [] = []"
| "sent_datagrams (Sent_udp l packet client # es) = (l, packet, client) # sent_datagrams es"
| "sent_datagrams (_ # es) = sent_datagrams es"

lemma sent_datagrams_append [simp]: "sent_datagrams (es @ fs) = sent_datagrams es @ sent_datagrams fs"
  by (induction es rule: sent_datagrams.induct) simp_all

text \<open>What \<open>process\<close> returns, and that it sends nothing itself.\<close>

definition quiet :: "proxy \<Rightarrow> proxy \<Rightarrow> bool" where
  "quiet p p' \<longleftrightarrow> (\<exists>es. p' = p\<lparr>px_effects := px_effects p @ es\<rparr> \<and> (\<forall>e \<in> set es. \<exists>c. e = Proxy_log c))"

lemma quiet_refl [simp]: "quiet p p"
  unfolding quiet_def by (rule exI [of _ "[]"]) simp

lemma quiet_log [simp]: "quiet p (proxy_log lvl event message p)"
  by (auto simp: quiet_def proxy_log_def proxy_effect_of_def)

lemma quiet_datagrams: "quiet p p' \<Longrightarrow> sent_datagrams (px_effects p') = sent_datagrams (px_effects p)"
proof -
  have logs: "\<forall>e \<in> set es. \<exists>c. e = Proxy_log c \<Longrightarrow> sent_datagrams es = []" for es
    by (induction es rule: sent_datagrams.induct) auto
  assume "quiet p p'"
  then show ?thesis using logs by (auto simp: quiet_def)
qed

lemma process_outcome:
  assumes "proxy_process env request p = (r, p')"
  shows "quiet p p'"
    "r = Inr response \<Longrightarrow> \<exists>result. qe_routed env request (px_original p) = Inr result \<and>
      (rr_disposition result = Drop_silently \<and> response = [] \<or>
       rr_disposition result = Forward_original \<and> qe_exchanged env request (px_original p) = Inr response \<or>
       rr_disposition result = Reply \<and> response = rr_packet result)"
  using assms
  by (auto simp: proxy_process_def split: sum.splits if_splits) (metis disposition.exhaust)

lemma handle_udp_cases:
  assumes "proxy_process env (uq_packet query) p = (r, p1)"
  obtains e where "handle_udp env sends query p = proxy_log errors_only (err_code e) (err_msg e) p1"
    | "handle_udp env sends query p = p1"
    | response reply where "r = Inr response" "fit_udp_response (uq_packet query) response = Inr reply" "reply \<noteq> []"
        "handle_udp env sends query p = proxy_effect_of (Sent_udp (uq_listener query) reply (uq_client query)) p1"
proof (cases r)
  case (Inl e)
  then show ?thesis using assms that(1) by (simp add: handle_udp_def bindA_def)
next
  case r: (Inr response)
  show ?thesis
  proof (cases "fit_udp_response (uq_packet query) response")
    case (Inl e)
    then show ?thesis using assms r that(1) by (simp add: handle_udp_def bindA_def liftA_def)
  next
    case fit: (Inr reply)
    note eq = assms r fit
    consider "reply = []" | m where "reply \<noteq> []" "sends reply = Some m" | "reply \<noteq> []" "sends reply = None"
      by (cases "sends reply") auto
    then show ?thesis
    proof cases
      case 1
      then show ?thesis using eq that(2) by (simp add: handle_udp_def bindA_def liftA_def)
    next
      case (2 m)
      then show ?thesis
        using eq that(1) [of "Error ''PROXY_IO'' (''UDP reply send: '' @ m)"]
        by (simp add: handle_udp_def bindA_def liftA_def)
    next
      case 3
      then show ?thesis using eq that(3) by (simp add: handle_udp_def bindA_def liftA_def)
    qed
  qed
qed

text \<open>
  A query over UDP is answered with at most one datagram, which goes out where the query came in,
  to its sender; its content is what the router replies, fitted for UDP, or, only when the rules
  bypass the query, what the original server replies.
\<close>

text \<open>C25: A query over UDP is answered by the local proxy with at most one datagram, sent from
  the listener it came to back to its sender; it carries what the router replies fitted for
  UDP, or, only when the rules bypass the query, the reply of the original server.\<close>

theorem proxy_answers_udp:
  assumes "sent_datagrams (px_effects p) = []"
    and "env = proxy_router up network now shared (px_router p) normal_on"
  shows "sent_datagrams (px_effects (handle_udp env sends query p)) = [] \<or>
    (\<exists>response reply result.
       sent_datagrams (px_effects (handle_udp env sends query p)) = [(uq_listener query, reply, uq_client query)] \<and>
       fit_udp_response (uq_packet query) response = Inr reply \<and>
       fst (route up network (rt_config (px_router p)) (rt_options (px_router p)) now (uq_packet query)
              (px_original p) shared) = Inr result \<and>
       (rr_disposition result = Reply \<and> response = rr_packet result \<or>
        bypassed (rt_config (px_router p)) network (uq_packet query) \<and>
          fst (exchange up now (uq_packet query) (px_original p)) = Inr response))"
proof -
  obtain r p1 where p1: "proxy_process env (uq_packet query) p = (r, p1)" by fastforce
  note none = quiet_datagrams [OF process_outcome(1) [OF p1], unfolded assms(1)]
  have log: "sent_datagrams (px_effects (proxy_log lvl event message q)) = sent_datagrams (px_effects q)" for lvl event message q
    by (rule quiet_datagrams [OF quiet_log])
  consider e where "handle_udp env sends query p = proxy_log errors_only (err_code e) (err_msg e) p1"
    | "handle_udp env sends query p = p1"
    | response reply where "r = Inr response" "fit_udp_response (uq_packet query) response = Inr reply" "reply \<noteq> []"
        "handle_udp env sends query p = proxy_effect_of (Sent_udp (uq_listener query) reply (uq_client query)) p1"
    by (rule handle_udp_cases [OF p1])
  then show ?thesis
  proof cases
    case (3 response reply)
    obtain result where result: "qe_routed env (uq_packet query) (px_original p) = Inr result"
      "rr_disposition result = Drop_silently \<and> response = [] \<or>
       rr_disposition result = Forward_original \<and> qe_exchanged env (uq_packet query) (px_original p) = Inr response \<or>
       rr_disposition result = Reply \<and> response = rr_packet result"
      using process_outcome(2) [OF p1 3(1)] by blast
    have "response \<noteq> []" using 3(2,3) by (auto simp: fit_udp_response_def)
    then show ?thesis using result 3 none route_forward
      by (auto simp: proxy_effect_of_def proxy_router_def assms(2))
  qed (use none log in simp_all)
qed

section \<open>TCP\<close>

definition framed :: "packet \<Rightarrow> packet" where
  "framed message = length_prefix message @ message"

fun sent_to :: "nat \<Rightarrow> proxy_effect list \<Rightarrow> packet" where
  "sent_to fd [] = []"
| "sent_to fd (Sent_tcp fd' bytes # es) = (if fd' = fd then bytes else []) @ sent_to fd es"
| "sent_to fd (_ # es) = sent_to fd es"

lemma sent_to_append [simp]: "sent_to fd (es @ fs) = sent_to fd es @ sent_to fd fs"
  by (induction fd es rule: sent_to.induct) simp_all


text \<open>
  The requests in a stream: a length in two bytes, most significant first, and that many bytes; a
  message shorter than a DNS header or a frame that is not complete ends them.
\<close>

function frames_of :: "packet \<Rightarrow> packet list" where
  "frames_of [] = []"
| "frames_of [b] = []"
| "frames_of (high # low # rest) =
     (let n = 256 * unat high + unat low in
      if n < 12 \<or> length rest < n then [] else take n rest # frames_of (drop n rest))"
  by pat_completeness auto
termination
  by (relation "measure length") auto

lemma frames_of_framed:
  assumes "\<forall>r \<in> set requests. 12 \<le> length r \<and> length r < 65536" "length rest < 2"
  shows "frames_of (concat (map framed requests) @ rest) = requests"
  using assms(1)
proof (induction requests)
  case Nil
  then show ?case using assms(2) by (cases rest rule: frames_of.cases) simp_all
next
  case (Cons r requests)
  then have "length r div 256 < 256" by auto
  then have "256 * unat (of_nat (length r div 256) :: byte) + unat (of_nat (length r) :: byte) = length r"
    by (simp add: unat_of_nat)
  with Cons show ?case by (simp add: framed_def length_prefix_def Let_def)
qed











text \<open>
  What is sent on a connection: the replies to the requests in the stream, in their order and
  complete, or up to the request at which the connection was broken off, with the reason.
\<close>


section \<open>Concrete clients\<close>

lemma sample_proxy_quiet: "\<exists>p. new_proxy sample_inet sample_router sample_original 5353 = Inr p \<and> px_effects p = []"
  using sample_proxy_made by (auto simp: new_proxy_def Let_def)

lemma at_most_one: "xs = [] \<or> (\<exists>r a c. xs = [(l, a, k)] \<and> P r a c) \<Longrightarrow> length xs \<le> 1"
  by auto

theorem proxy_answers_udp_witness:
  "\<exists>p. new_proxy sample_inet sample_router sample_original 5353 = Inr p \<and>
     length (sent_datagrams (px_effects (handle_udp
       (proxy_router sample_upstream no_network 0 no_shared (px_router p) True) (\<lambda>_. None)
       \<lparr>uq_listener = Udp4, uq_packet = sample_query, uq_client = [127, 0, 0, 1]\<rparr> p))) \<le> 1"
proof -
  obtain p where p: "new_proxy sample_inet sample_router sample_original 5353 = Inr p" "px_effects p = []"
    using sample_proxy_quiet by blast
  then have "sent_datagrams (px_effects p) = []" by simp
  from proxy_answers_udp [OF this refl, of sample_upstream no_network 0 no_shared True "\<lambda>_. None"
      "\<lparr>uq_listener = Udp4, uq_packet = sample_query, uq_client = [127, 0, 0, 1]\<rparr>"]
  have "length (sent_datagrams (px_effects (handle_udp
       (proxy_router sample_upstream no_network 0 no_shared (px_router p) True) (\<lambda>_. None)
       \<lparr>uq_listener = Udp4, uq_packet = sample_query, uq_client = [127, 0, 0, 1]\<rparr> p))) \<le> 1"
    by (rule at_most_one)
  with p(1) show ?thesis by blast
qed



end
